(* ===== verification/Prelude.thy ===== *)
theory Prelude
  imports Main "HOL-Library.Word" "HOL-Library.State_Monad"
begin

section \<open>Shared vocabulary: state monad, triples, reachable states\<close>

text \<open>
  What the component theories share and no source file owns.

  The C++ methods and completion handlers are written in the state monad of
  \<^verbatim>\<open>HOL-Library.State_Monad\<close>, one bind per statement, so that a definition reads
  like the body it models.  Three groups of facts carry the component proofs:
  \<^item> \<open>run_simps\<close> executes a straight-line body on a symbolic state;
  \<^item> \<open>pres_intros\<close> proves that a body keeps an invariant, statement by statement;
  \<^item> \<open>reach\<close> lifts a step invariant to every reachable state of a component.
\<close>

named_theorems run_simps \<open>execution of monadic primitives on a state\<close>
named_theorems pres_intros \<open>a statement keeps a predicate of the state\<close>

subsection \<open>State monad primitives\<close>

abbreviation ret :: "'a \<Rightarrow> ('s, 'a) state" where
  "ret \<equiv> State_Monad.return"

definition gets :: "('s \<Rightarrow> 'a) \<Rightarrow> ('s, 'a) state" where
  "gets f = State (\<lambda>s. (f s, s))"

definition modify :: "('s \<Rightarrow> 's) \<Rightarrow> ('s, unit) state" where
  "modify f = State (\<lambda>s. ((), f s))"

definition whenM :: "bool \<Rightarrow> ('s, unit) state \<Rightarrow> ('s, unit) state" where
  "whenM b m = (if b then m else ret ())"

definition exec :: "('s, 'a) state \<Rightarrow> 's \<Rightarrow> 's" where
  "exec m s = snd (run_state m s)"

definition result :: "('s, 'a) state \<Rightarrow> 's \<Rightarrow> 'a" where
  "result m s = fst (run_state m s)"

lemma run_gets [simp, run_simps]: "run_state (gets f) s = (f s, s)"
  by (simp add: gets_def)

lemma run_modify [simp, run_simps]: "run_state (modify f) s = ((), f s)"
  by (simp add: modify_def)

lemma run_whenM [simp, run_simps]:
  "run_state (whenM b m) s = (if b then run_state m s else ((), s))"
  by (simp add: whenM_def)

lemma run_if [run_simps]:
  "run_state (if b then m else n) s = (if b then run_state m s else run_state n s)"
  by simp

lemma run_state_split: "run_state m s = (result m s, exec m s)"
  by (simp add: result_def exec_def)

lemma exec_bind [simp]: "exec (m \<bind> f) s = exec (f (result m s)) (exec m s)"
  by (simp add: exec_def result_def case_prod_unfold)

lemma result_bind [simp]: "result (m \<bind> f) s = result (f (result m s)) (exec m s)"
  by (simp add: exec_def result_def case_prod_unfold)

lemma exec_result_prims [simp]:
  "exec (ret x) s = s" "result (ret x) s = x"
  "exec (gets f) s = s" "result (gets f) s = f s"
  "exec (modify g) s = g s" "result (modify g) s = ()"
  by (simp_all add: exec_def result_def)

lemma exec_if: "exec (if b then m else n) s = (if b then exec m s else exec n s)"
  by simp

lemma result_if: "result (if b then m else n) s = (if b then result m s else result n s)"
  by simp

lemma exec_case_sum:
  "exec (case x of Inl e \<Rightarrow> g e | Inr y \<Rightarrow> f y) s =
     (case x of Inl e \<Rightarrow> exec (g e) s | Inr y \<Rightarrow> exec (f y) s)"
  "result (case x of Inl e \<Rightarrow> g' e | Inr y \<Rightarrow> f' y) s =
     (case x of Inl e \<Rightarrow> result (g' e) s | Inr y \<Rightarrow> result (f' y) s)"
  by (cases x; simp)+

lemma exec_case_option:
  "exec (case x of None \<Rightarrow> m | Some y \<Rightarrow> f y) s =
     (case x of None \<Rightarrow> exec m s | Some y \<Rightarrow> exec (f y) s)"
  "result (case x of None \<Rightarrow> m' | Some y \<Rightarrow> f' y) s =
     (case x of None \<Rightarrow> result m' s | Some y \<Rightarrow> result (f' y) s)"
  by (cases x; simp)+

lemma exec_case_prod:
  "exec (case x of (a, b) \<Rightarrow> f a b) s = exec (f (fst x) (snd x)) s"
  "result (case x of (a, b) \<Rightarrow> f' a b) s = result (f' (fst x) (snd x)) s"
  by (simp_all add: case_prod_unfold)

lemma exec_whenM: "exec (whenM b m) s = (if b then exec m s else s)"
  by (simp add: whenM_def)

subsection \<open>Keeping a predicate\<close>

definition pres :: "('s \<Rightarrow> bool) \<Rightarrow> ('s, 'a) state \<Rightarrow> bool" where
  "pres I m \<longleftrightarrow> (\<forall>s. I s \<longrightarrow> I (exec m s))"

lemma presI: "(\<And>s. I s \<Longrightarrow> I (exec m s)) \<Longrightarrow> pres I m"
  by (simp add: pres_def)

lemma presD: "pres I m \<Longrightarrow> I s \<Longrightarrow> I (exec m s)"
  by (simp add: pres_def)

lemma pres_bind [pres_intros]:
  "pres I m \<Longrightarrow> (\<And>x. pres I (f x)) \<Longrightarrow> pres I (m \<bind> f)"
  by (auto simp: pres_def)

lemma pres_ret [pres_intros]: "pres I (ret x)"
  by (simp add: pres_def)

lemma pres_gets [pres_intros]: "pres I (gets f)"
  by (simp add: pres_def)

lemma pres_modify: "(\<And>s. I s \<Longrightarrow> I (f s)) \<Longrightarrow> pres I (modify f)"
  by (simp add: pres_def)

lemma pres_if [pres_intros]:
  "(b \<Longrightarrow> pres I m) \<Longrightarrow> (\<not> b \<Longrightarrow> pres I n) \<Longrightarrow> pres I (if b then m else n)"
  by simp

lemma pres_whenM [pres_intros]: "(b \<Longrightarrow> pres I m) \<Longrightarrow> pres I (whenM b m)"
  by (simp add: whenM_def pres_ret)

lemma pres_case_option [pres_intros]:
  "(x = None \<Longrightarrow> pres I m) \<Longrightarrow> (\<And>y. x = Some y \<Longrightarrow> pres I (f y)) \<Longrightarrow>
   pres I (case x of None \<Rightarrow> m | Some y \<Rightarrow> f y)"
  by (cases x) auto

lemma pres_case_sum [pres_intros]:
  "(\<And>e. x = Inl e \<Longrightarrow> pres I (g e)) \<Longrightarrow> (\<And>y. x = Inr y \<Longrightarrow> pres I (f y)) \<Longrightarrow>
   pres I (case x of Inl e \<Rightarrow> g e | Inr y \<Rightarrow> f y)"
  by (cases x) auto

lemma pres_case_prod [pres_intros]:
  "(\<And>a b. pres I (f a b)) \<Longrightarrow> pres I (case x of (a, b) \<Rightarrow> f a b)"
  by (cases x) auto

text \<open>Triples: what a body establishes from what it starts with.\<close>

definition valid :: "('s \<Rightarrow> bool) \<Rightarrow> ('s, 'a) state \<Rightarrow> ('a \<Rightarrow> 's \<Rightarrow> bool) \<Rightarrow> bool" where
  "valid P m Q \<longleftrightarrow> (\<forall>s. P s \<longrightarrow> Q (result m s) (exec m s))"

lemma validI: "(\<And>s. P s \<Longrightarrow> Q (result m s) (exec m s)) \<Longrightarrow> valid P m Q"
  by (simp add: valid_def)

lemma validD: "valid P m Q \<Longrightarrow> P s \<Longrightarrow> Q (result m s) (exec m s)"
  by (simp add: valid_def)

lemma valid_bind:
  "valid P m Q \<Longrightarrow> (\<And>x. valid (Q x) (f x) R) \<Longrightarrow> valid P (m \<bind> f) R"
  by (auto simp: valid_def)

lemma valid_pres_bind:
  "pres I m \<Longrightarrow> (\<And>x. valid I (f x) Q) \<Longrightarrow> valid I (m \<bind> f) Q"
  by (auto simp: valid_def pres_def)

lemma valid_pres: "pres I m \<longleftrightarrow> valid I m (\<lambda>_. I)"
  by (simp add: valid_def pres_def)

subsection \<open>Reachable states of a step relation\<close>

inductive reach :: "('s \<Rightarrow> bool) \<Rightarrow> ('s \<Rightarrow> 's \<Rightarrow> bool) \<Rightarrow> 's \<Rightarrow> bool"
  for init :: "'s \<Rightarrow> bool" and step :: "'s \<Rightarrow> 's \<Rightarrow> bool" where
  reach_init: "init s \<Longrightarrow> reach init step s"
| reach_step: "reach init step s \<Longrightarrow> step s t \<Longrightarrow> reach init step t"

lemma reach_invariant:
  assumes "reach init step s"
    and "\<And>s. init s \<Longrightarrow> I s"
    and "\<And>s t. I s \<Longrightarrow> step s t \<Longrightarrow> I t"
  shows "I s"
  using assms(1) by (induction rule: reach.induct) (use assms(2,3) in blast)+

subsection \<open>Lists of outstanding operations\<close>

text \<open>How many elements of a list satisfy a test: the outstanding writes, reads, waits.\<close>

definition count_if :: "('a \<Rightarrow> bool) \<Rightarrow> 'a list \<Rightarrow> nat" where
  "count_if P xs = length (filter P xs)"

lemma count_if_simps [simp]:
  "count_if P [] = 0"
  "count_if P (x # xs) = (if P x then Suc (count_if P xs) else count_if P xs)"
  "count_if P (xs @ ys) = count_if P xs + count_if P ys"
  by (simp_all add: count_if_def)

lemma count_if_remove1:
  "x \<in> set xs \<Longrightarrow> count_if P (remove1 x xs) = (if P x then count_if P xs - 1 else count_if P xs)"
  by (induction xs) (auto simp: count_if_def gr0_conv_Suc filter_empty_conv length_pos_if_in_set
      intro!: Suc_pred)

lemma count_if_pos: "x \<in> set xs \<Longrightarrow> P x \<Longrightarrow> 0 < count_if P xs"
  by (induction xs) auto

lemma count_if_0_iff: "count_if P xs = 0 \<longleftrightarrow> (\<forall>x\<in>set xs. \<not> P x)"
  by (induction xs) auto

lemma in_set_remove1D: "y \<in> set (remove1 x xs) \<Longrightarrow> y \<in> set xs"
  using set_remove1_subset by fastforce

lemma set_concat_map_remove1:
  assumes "distinct (concat (map f xs))" and "x \<in> set xs" and "y \<in> set (f x)"
  shows "y \<notin> set (concat (map f (remove1 x xs)))"
  using assms by (induction xs) auto

lemma distinct_concat_map_remove1:
  "distinct (concat (map f xs)) \<Longrightarrow> distinct (concat (map f (remove1 x xs)))"
  by (induction xs) (auto dest: in_set_remove1D)

subsection \<open>Bytes\<close>

lemma byte_unat_less: "unat (b :: 8 word) < 256"
proof -
  have "unat b < 2 ^ LENGTH(8)" by (rule unsigned_less)
  then show ?thesis by simp
qed

lemma nibbles:
  "unat (drop_bit 4 (and b 0xF0)) = unat (b :: 8 word) div 16"
  "unat (and b 0x0F) = unat b mod 16"
proof -
  have m: "(0x0F :: 8 word) = mask 4" by (simp add: mask_eq_exp_minus_1)
  show "unat (and b 0x0F) = unat b mod 16"
    unfolding m take_bit_eq_mask [symmetric] unsigned_take_bit_eq by (simp add: take_bit_eq_mod)
  have "drop_bit 4 (and b 0xF0) = and (drop_bit 4 b) (mask 4)"
    by (simp add: mask_eq_exp_minus_1 drop_bit_and)
  also have "\<dots> = take_bit 4 (drop_bit 4 b)" by (simp add: take_bit_eq_mask)
  finally have "unat (drop_bit 4 (and b 0xF0)) = take_bit 4 (unat (drop_bit 4 b))"
    by (simp only: unsigned_take_bit_eq)
  also have "\<dots> = unat (drop_bit 4 b) mod 16" by (simp add: take_bit_eq_mod)
  also have "unat (drop_bit 4 b) = unat b div 16"
    using byte_unat_less [of b]
    by (simp only: unsigned_drop_bit_eq) (simp add: drop_bit_eq_div take_bit_nat_eq_self)
  also have "unat b div 16 mod 16 = unat b div 16"
    using byte_unat_less [of b] by simp
  finally show "unat (drop_bit 4 (and b 0xF0)) = unat b div 16" .
qed

subsection \<open>Machines that eat a stream in chunks\<close>

text \<open>
  A component that is fed byte strings, may fail to return (\<open>None\<close>) and keeps a view that
  the bytes alone determine: how the stream was cut into calls can not be told afterwards.
\<close>

locale byte_machine =
  fixes run :: "'b list \<Rightarrow> 's \<Rightarrow> ('r \<times> 's) option"
    and ok :: "'s \<Rightarrow> bool"
    and view :: "'s \<Rightarrow> 'v"
    and step :: "'b \<Rightarrow> 'v \<Rightarrow> 'v"
  assumes run_done: "ok s \<Longrightarrow> \<exists>r t. run xs s = Some (r, t) \<and> ok t \<and> view t = fold step xs (view s)"
begin

lemma returns: "ok s \<Longrightarrow> run xs s \<noteq> None"
  using run_done [of s xs] by auto

lemma run_ok: "ok s \<Longrightarrow> run xs s = Some (r, t) \<Longrightarrow> ok t \<and> view t = fold step xs (view s)"
  using run_done [of s xs] by auto

lemma chunks:
  assumes "ok s" and "run xs s = Some (r, t)" and "run ys t = Some (q, u)"
    and "run (xs @ ys) s = Some (p, v)"
  shows "view u = view v"
  using run_ok [OF assms(1,2)] run_ok [OF _ assms(3)] run_ok [OF assms(1,4)] by simp

end

end
