(* ===== verification/Lua_Api.thy ===== *)
theory Lua_Api
  imports Prelude
begin

section \<open>The Lua C API as the bindings use it\<close>

text \<open>
  Every C++ class of the program is a Lua binding: a method reads its arguments from
  the Lua stack and pushes its results there, and a completion handler fetches the
  object from the registry, looks a callback up in it and calls it.  This theory holds
  the vocabulary of those bodies: Lua values, the state \<open>rt\<close> that every component
  record extends (stack, registry, object fields), the stack and registry calls, and the
  result type of a method.

  Lua itself is not part of the repository.  The stack calls are the documented stack
  discipline.  What the manual leaves to the implementation is a parameter: the key
  \<open>luaL_ref\<close> picks and the number/string coercions are the fields of \<open>lua_env\<close>,
  carried unchanged in the state; what a Lua function does when called is the argument
  \<open>lua\<close> of \<open>vm_call\<close> and of every handler that calls back.
\<close>

subsection \<open>Error codes\<close>

text \<open>
  \<^verbatim>\<open>boost::system::error_code\<close>: success, or one of the conditions the sources
  compare with (by name) and any other one, with the value and the message they hand to
  Lua.
\<close>

datatype asio_error =
    Eof | Operation_Aborted | Not_Connected | Host_Not_Found | Invalid_Argument
  | Protocol_Not_Supported | Other_Error

datatype ec = Ok_Ec | Err_Ec asio_error int string

fun ec_fails :: "ec \<Rightarrow> bool" where
  "ec_fails Ok_Ec = False"
| "ec_fails (Err_Ec _ _ _) = True"

fun ec_is :: "asio_error \<Rightarrow> ec \<Rightarrow> bool" where
  "ec_is _ Ok_Ec = False"
| "ec_is k (Err_Ec k' _ _) = (k = k')"

fun ec_value :: "ec \<Rightarrow> int" where
  "ec_value Ok_Ec = 0"
| "ec_value (Err_Ec _ v _) = v"

fun ec_message :: "ec \<Rightarrow> string" where
  "ec_message Ok_Ec = ''Success''"
| "ec_message (Err_Ec _ _ m) = m"

lemma ec_fails_iff [simp]: "ec_fails e \<longleftrightarrow> e \<noteq> Ok_Ec"
  by (cases e) auto

subsection \<open>Values\<close>

text \<open>
  \<open>LNone\<close> is the answer for an index outside the stack (\<^verbatim>\<open>LUA_TNONE\<close>).  Userdata
  and functions are names: what they hold and do is in the state and in the environment.
\<close>

datatype lval =
    LNone | LNil | LBool bool | LNum int | LStr string
  | LFun nat | LObj nat | LLight nat | LTab "(lval \<times> lval) list"

datatype ltype =
    TNone | TNil | TBoolean | TNumber | TString | TFunction | TUserdata | TLight | TTable

fun type_of :: "lval \<Rightarrow> ltype" where
  "type_of LNone = TNone"
| "type_of LNil = TNil"
| "type_of (LBool _) = TBoolean"
| "type_of (LNum _) = TNumber"
| "type_of (LStr _) = TString"
| "type_of (LFun _) = TFunction"
| "type_of (LObj _) = TUserdata"
| "type_of (LLight _) = TLight"
| "type_of (LTab _) = TTable"

lemma type_of_TFunction [simp]: "type_of v = TFunction \<longleftrightarrow> (\<exists>f. v = LFun f)"
  by (cases v) auto

lemma type_of_TString [simp]: "type_of v = TString \<longleftrightarrow> (\<exists>x. v = LStr x)"
  by (cases v) auto

lemma type_of_TNumber [simp]: "type_of v = TNumber \<longleftrightarrow> (\<exists>x. v = LNum x)"
  by (cases v) auto

lemma type_of_TNil [simp]: "type_of v = TNil \<longleftrightarrow> v = LNil"
  by (cases v) auto

definition to_boolean :: "lval \<Rightarrow> bool" where
  "to_boolean v = (v \<notin> {LNone, LNil, LBool False})"

definition none_or_nil :: "lval \<Rightarrow> bool" where
  "none_or_nil v = (v = LNone \<or> v = LNil)"

subsection \<open>State\<close>

record lua_env =
  le_newref :: "(int \<rightharpoonup> lval) \<Rightarrow> int"
  le_str2num :: "string \<Rightarrow> int option"
  le_num2str :: "int \<Rightarrow> string"
  le_what :: "ec \<Rightarrow> string"

record rt =
  rt_env :: lua_env
  rt_stack :: "lval list"
  rt_reg :: "int \<rightharpoonup> lval"
  rt_objs :: "nat \<Rightarrow> string \<Rightarrow> lval"
  rt_calls :: "(lval \<times> lval list) list"

text \<open>\<open>le_what\<close> is the text of a thrown \<^verbatim>\<open>system_error\<close>, which Boost composes.\<close>

text \<open>\<open>rt_calls\<close> is a history variable: the Lua functions called so far, with arguments.\<close>

definition LUA_NOREF :: int where "LUA_NOREF = -2"
definition LUA_REFNIL :: int where "LUA_REFNIL = -1"

text \<open>
  The documented promise of \<^verbatim>\<open>luaL_ref\<close>: a fresh, positive key of the table.
\<close>

definition newref_ok :: "lua_env \<Rightarrow> bool" where
  "newref_ok e \<longleftrightarrow> (\<forall>g. finite (dom g) \<longrightarrow> le_newref e g \<notin> dom g \<and> 0 < le_newref e g)"

text \<open>An environment that keeps the promise, for the concrete instances below.\<close>

definition sample_env :: lua_env where
  "sample_env = \<lparr>le_newref = (\<lambda>g. 1 + Max (insert 0 (dom g))), le_str2num = (\<lambda>_. None),
     le_num2str = (\<lambda>_. []), le_what = ec_message\<rparr>"

lemma newref_ok_sample: "newref_ok sample_env"
proof -
  have "1 + Max (insert 0 (dom g)) \<notin> dom g \<and> 0 < 1 + Max (insert 0 (dom g))"
    if "finite (dom g)" for g :: "int \<rightharpoonup> lval"
  proof -
    have "k \<le> Max (insert 0 (dom g))" if "k \<in> insert 0 (dom g)" for k
      using \<open>finite (dom g)\<close> that by (intro Max_ge) auto
    from this [of "1 + Max (insert 0 (dom g))"] this [of 0] show ?thesis by auto
  qed
  then show ?thesis
    unfolding newref_ok_def sample_env_def by simp
qed

lemma sample_env_simps [simp]:
  "le_newref sample_env g = 1 + Max (insert 0 (dom g))" "le_what sample_env = ec_message"
  "le_str2num sample_env x = None"
  by (simp_all add: sample_env_def)

text \<open>A callback that leaves the state as it is, whatever it returns.\<close>

definition pure_callback :: "(lval \<Rightarrow> lval list \<Rightarrow> ('s, lval list) state) \<Rightarrow> bool" where
  "pure_callback lua \<longleftrightarrow> (\<forall>f args s. exec (lua f args) s = s)"

subsection \<open>The stack\<close>

fun stack_at :: "lval list \<Rightarrow> nat \<Rightarrow> lval" where
  "stack_at [] i = LNone"
| "stack_at (x # xs) i = (if i = 1 then x else if i = 0 then LNone else stack_at xs (i - 1))"

definition stack_top :: "lval list \<Rightarrow> lval" where
  "stack_top xs = (if xs = [] then LNone else last xs)"

lemma stack_top_snoc [simp]: "stack_top (xs @ [x]) = x" "stack_top [] = LNone" "stack_top [x] = x"
  "stack_top (a # b # xs) = stack_top (b # xs)" "stack_top (a # xs @ [x]) = x"
  "stack_top (a # xs @ [y, x]) = x" "stack_top (xs @ [y, x]) = x"
  by (simp_all add: stack_top_def)

lemma stack_at_0 [simp]: "stack_at xs 0 = LNone"
  by (cases xs) auto

lemma stack_at_append [simp]:
  "stack_at (xs @ ys) i = (if i \<le> length xs then stack_at xs i else stack_at ys (i - length xs))"
  by (induction xs i rule: stack_at.induct) (auto simp: Suc_diff_le)

definition lua_gettop :: "('a rt_scheme, nat) state" where
  "lua_gettop = gets (\<lambda>s. length (rt_stack s))"

definition lua_value :: "nat \<Rightarrow> ('a rt_scheme, lval) state" where
  "lua_value i = gets (\<lambda>s. stack_at (rt_stack s) i)"

definition lua_type :: "nat \<Rightarrow> ('a rt_scheme, ltype) state" where
  "lua_type i = gets (\<lambda>s. type_of (stack_at (rt_stack s) i))"

definition lua_toptype :: "('a rt_scheme, ltype) state" where
  "lua_toptype = gets (\<lambda>s. type_of (stack_top (rt_stack s)))"

definition lua_push :: "lval \<Rightarrow> ('a rt_scheme, unit) state" where
  "lua_push v = modify (\<lambda>s. s\<lparr>rt_stack := rt_stack s @ [v]\<rparr>)"

definition lua_pushvalue :: "nat \<Rightarrow> ('a rt_scheme, unit) state" where
  "lua_pushvalue i = modify (\<lambda>s. s\<lparr>rt_stack := rt_stack s @ [stack_at (rt_stack s) i]\<rparr>)"

definition lua_settop :: "nat \<Rightarrow> ('a rt_scheme, unit) state" where
  "lua_settop n = modify (\<lambda>s. s\<lparr>rt_stack :=
     take n (rt_stack s) @ replicate (n - length (rt_stack s)) LNil\<rparr>)"

definition lua_pop :: "nat \<Rightarrow> ('a rt_scheme, unit) state" where
  "lua_pop n = modify (\<lambda>s. s\<lparr>rt_stack := take (length (rt_stack s) - n) (rt_stack s)\<rparr>)"

text \<open>
  \<^verbatim>\<open>lua_setfield(L, t, k)\<close> and the numeric variant pop a value and store it in the
  table at index \<open>t\<close>; tables the bindings build are not shared before they are passed
  on, so a table is a value of the stack.  \<^verbatim>\<open>lua_insert\<close> moves the top element under
  the elements from an index on; \<^verbatim>\<open>lua_remove\<close> deletes one.
\<close>

fun tab_set :: "lval \<Rightarrow> lval \<Rightarrow> lval \<Rightarrow> lval" where
  "tab_set k v (LTab kvs) = LTab (filter (\<lambda>p. fst p \<noteq> k) kvs @ [(k, v)])"
| "tab_set k v w = w"

definition lua_settab :: "nat \<Rightarrow> lval \<Rightarrow> ('a rt_scheme, unit) state" where
  "lua_settab t k = modify (\<lambda>s. let xs = rt_stack s; n = length xs - 1; ys = take n xs in
     s\<lparr>rt_stack := ys[t - 1 := tab_set k (stack_top xs) (stack_at ys t)]\<rparr>)"

definition lua_setfield :: "nat \<Rightarrow> string \<Rightarrow> ('a rt_scheme, unit) state" where
  "lua_setfield t k = lua_settab t (LStr k)"

definition lua_rawseti :: "nat \<Rightarrow> int \<Rightarrow> ('a rt_scheme, unit) state" where
  "lua_rawseti t i = lua_settab t (LNum i)"

definition lua_insert :: "nat \<Rightarrow> ('a rt_scheme, unit) state" where
  "lua_insert i = modify (\<lambda>s. let xs = rt_stack s; n = length xs - 1 in
     s\<lparr>rt_stack := take (i - 1) (take n xs) @ [stack_top xs] @ drop (i - 1) (take n xs)\<rparr>)"

definition lua_remove :: "nat \<Rightarrow> ('a rt_scheme, unit) state" where
  "lua_remove i = modify (\<lambda>s. s\<lparr>rt_stack := take (i - 1) (rt_stack s) @ drop i (rt_stack s)\<rparr>)"

text \<open>Indexing an object with a name, as the bindings do to find a callback.\<close>

fun field_of :: "(nat \<Rightarrow> string \<Rightarrow> lval) \<Rightarrow> lval \<Rightarrow> string \<Rightarrow> lval" where
  "field_of h (LObj p) k = h p k"
| "field_of h (LTab kvs) k = (case map_of kvs (LStr k) of None \<Rightarrow> LNil | Some v \<Rightarrow> v)"
| "field_of h _ k = LNil"

definition lua_getfield :: "nat \<Rightarrow> string \<Rightarrow> ('a rt_scheme, unit) state" where
  "lua_getfield i k = modify (\<lambda>s. s\<lparr>rt_stack :=
     rt_stack s @ [field_of (rt_objs s) (stack_at (rt_stack s) i) k]\<rparr>)"

subsection \<open>The registry\<close>

definition lua_rawgeti :: "int \<Rightarrow> ('a rt_scheme, unit) state" where
  "lua_rawgeti r = modify (\<lambda>s. s\<lparr>rt_stack :=
     rt_stack s @ [case rt_reg s r of None \<Rightarrow> LNil | Some v \<Rightarrow> v]\<rparr>)"

definition luaL_ref :: "('a rt_scheme, int) state" where
  "luaL_ref = do {
     v \<leftarrow> gets (\<lambda>s. stack_top (rt_stack s));
     lua_pop 1;
     if v = LNil then ret LUA_REFNIL
     else do {
       r \<leftarrow> gets (\<lambda>s. le_newref (rt_env s) (rt_reg s));
       modify (\<lambda>s. s\<lparr>rt_reg := (rt_reg s)(r \<mapsto> v)\<rparr>);
       ret r
     }
   }"

definition luaL_unref :: "int \<Rightarrow> ('a rt_scheme, unit) state" where
  "luaL_unref r = modify (\<lambda>s. if 0 \<le> r then s\<lparr>rt_reg := (rt_reg s)(r := None)\<rparr> else s)"

subsection \<open>Calling into Lua and being called from it\<close>

text \<open>
  \<^verbatim>\<open>CLuaVM::call(n, LUA_MULTRET)\<close> seen from a handler: the function and its \<open>n\<close>
  arguments leave the stack, \<open>lua\<close> runs, its results (or the error value) are pushed.
\<close>

type_synonym ('s) lua_fun = "lval \<Rightarrow> lval list \<Rightarrow> ('s, lval list) state"

definition vm_call :: "'a rt_scheme lua_fun \<Rightarrow> nat \<Rightarrow> ('a rt_scheme, unit) state" where
  "vm_call lua n = do {
     stk \<leftarrow> gets rt_stack;
     let k = length stk - Suc n;
     modify (\<lambda>s. s\<lparr>rt_stack := take k stk,
       rt_calls := rt_calls s @ [(stk ! k, drop (Suc k) stk)]\<rparr>);
     res \<leftarrow> lua (stk ! k) (drop (Suc k) stk);
     modify (\<lambda>s. s\<lparr>rt_stack := take k stk @ res\<rparr>)
   }"

text \<open>
  How a method ends: it raises (a failed argument check, \<^verbatim>\<open>luaL_error\<close>, a C++ exception
  that the bridge turns into a Lua error) or returns how many values it pushed.
\<close>

datatype lua_error = Arg_Error nat | Lua_Error string | Cpp_Error ec

type_synonym 's meth = "('s, lua_error + nat) state"

abbreviation ret_n :: "nat \<Rightarrow> 's meth" where
  "ret_n n \<equiv> ret (Inr n)"

abbreviation raise :: "lua_error \<Rightarrow> 's meth" where
  "raise e \<equiv> ret (Inl e)"

definition thunk_methods ::
    "'a rt_scheme meth \<Rightarrow> lval list \<Rightarrow> ('a rt_scheme, lua_error + lval list) state" where
  "thunk_methods m frame = do {
     saved \<leftarrow> gets rt_stack;
     modify (\<lambda>s. s\<lparr>rt_stack := frame\<rparr>);
     r \<leftarrow> m;
     stk \<leftarrow> gets rt_stack;
     modify (\<lambda>s. s\<lparr>rt_stack := saved\<rparr>);
     ret (case r of Inl e \<Rightarrow> Inl e | Inr n \<Rightarrow> Inr (drop (length stk - n) stk))
   }"

subsection \<open>Argument checks\<close>

definition as_integer :: "lua_env \<Rightarrow> lval \<Rightarrow> int option" where
  "as_integer e v = (case v of LNum n \<Rightarrow> Some n | LStr x \<Rightarrow> le_str2num e x | _ \<Rightarrow> None)"

definition as_string :: "lua_env \<Rightarrow> lval \<Rightarrow> string option" where
  "as_string e v = (case v of LStr x \<Rightarrow> Some x | LNum n \<Rightarrow> Some (le_num2str e n) | _ \<Rightarrow> None)"

definition lua_isnumber :: "nat \<Rightarrow> ('a rt_scheme, bool) state" where
  "lua_isnumber i = gets (\<lambda>s. as_integer (rt_env s) (stack_at (rt_stack s) i) \<noteq> None)"

definition lua_tointeger :: "nat \<Rightarrow> ('a rt_scheme, int) state" where
  "lua_tointeger i = gets (\<lambda>s.
     case as_integer (rt_env s) (stack_at (rt_stack s) i) of None \<Rightarrow> 0 | Some n \<Rightarrow> n)"

definition lua_tostring :: "nat \<Rightarrow> ('a rt_scheme, string) state" where
  "lua_tostring i = gets (\<lambda>s.
     case as_string (rt_env s) (stack_at (rt_stack s) i) of None \<Rightarrow> [] | Some x \<Rightarrow> x)"

definition lua_toboolean :: "nat \<Rightarrow> ('a rt_scheme, bool) state" where
  "lua_toboolean i = gets (\<lambda>s. to_boolean (stack_at (rt_stack s) i))"

definition lua_isnoneornil :: "nat \<Rightarrow> ('a rt_scheme, bool) state" where
  "lua_isnoneornil i = gets (\<lambda>s. none_or_nil (stack_at (rt_stack s) i))"

definition luaL_checkstring :: "nat \<Rightarrow> ('a rt_scheme, lua_error + string) state" where
  "luaL_checkstring i = gets (\<lambda>s.
     case as_string (rt_env s) (stack_at (rt_stack s) i) of
       None \<Rightarrow> Inl (Arg_Error i) | Some x \<Rightarrow> Inr x)"

definition luaL_checkinteger :: "nat \<Rightarrow> ('a rt_scheme, lua_error + int) state" where
  "luaL_checkinteger i = gets (\<lambda>s.
     case as_integer (rt_env s) (stack_at (rt_stack s) i) of
       None \<Rightarrow> Inl (Arg_Error i) | Some n \<Rightarrow> Inr n)"

fun index_of :: "'b \<Rightarrow> 'b list \<Rightarrow> nat option" where
  "index_of x [] = None"
| "index_of x (y # ys) = (if x = y then Some 0 else map_option Suc (index_of x ys))"

definition luaL_checkoption ::
    "nat \<Rightarrow> string option \<Rightarrow> string list \<Rightarrow> ('a rt_scheme, lua_error + nat) state" where
  "luaL_checkoption i dflt opts = gets (\<lambda>s.
     let v = stack_at (rt_stack s) i;
         name = (if none_or_nil v then dflt else as_string (rt_env s) v)
     in case name of None \<Rightarrow> Inl (Arg_Error i)
        | Some x \<Rightarrow> (case index_of x opts of None \<Rightarrow> Inl (Arg_Error i) | Some k \<Rightarrow> Inr k))"

definition luaL_optinteger :: "nat \<Rightarrow> int \<Rightarrow> ('a rt_scheme, lua_error + int) state" where
  "luaL_optinteger i dflt = gets (\<lambda>s.
     let v = stack_at (rt_stack s) i in
     if none_or_nil v then Inr dflt
     else (case as_integer (rt_env s) v of None \<Rightarrow> Inl (Arg_Error i) | Some n \<Rightarrow> Inr n))"

text \<open>The C conversions the bindings apply to a checked integer.\<close>

definition c_ushort :: "int \<Rightarrow> int" where "c_ushort n = n mod 2 ^ 16"
definition c_int :: "int \<Rightarrow> int" where "c_int n = (n + 2 ^ 31) mod 2 ^ 32 - 2 ^ 31"

lemma c_ushort_bounds: "0 \<le> c_ushort n" "c_ushort n < 65536"
  by (simp_all add: c_ushort_def)

lemma c_ushort_id: "0 \<le> n \<Longrightarrow> n < 65536 \<Longrightarrow> c_ushort n = n"
  by (simp add: c_ushort_def)

lemma c_int_id: "- (2 ^ 31) \<le> n \<Longrightarrow> n < 2 ^ 31 \<Longrightarrow> c_int n = n"
  by (simp add: c_int_def)

subsection \<open>Execution rules\<close>

lemmas lua_prim_defs = lua_gettop_def lua_value_def lua_type_def lua_toptype_def lua_push_def
  lua_pushvalue_def lua_settop_def lua_pop_def lua_getfield_def lua_rawgeti_def luaL_unref_def
  lua_isnumber_def lua_tointeger_def lua_tostring_def lua_toboolean_def lua_isnoneornil_def luaL_checkstring_def
  luaL_checkinteger_def luaL_optinteger_def luaL_checkoption_def lua_settab_def lua_setfield_def lua_rawseti_def
  lua_insert_def lua_remove_def

lemma exec_luaL_ref:
  "exec luaL_ref s = (let v = stack_top (rt_stack s) in
     s\<lparr>rt_stack := take (length (rt_stack s) - 1) (rt_stack s),
       rt_reg := (if v = LNil then rt_reg s else (rt_reg s)(le_newref (rt_env s) (rt_reg s) \<mapsto> v))\<rparr>)"
  by (simp add: luaL_ref_def lua_pop_def exec_if Let_def)

lemma result_luaL_ref:
  "result luaL_ref s = (if stack_top (rt_stack s) = LNil then LUA_REFNIL
     else le_newref (rt_env s) (rt_reg s))"
  by (simp add: luaL_ref_def lua_pop_def result_if)

subsection \<open>Statements that only move the stack\<close>

definition stack_free :: "('a rt_scheme \<Rightarrow> bool) \<Rightarrow> bool" where
  "stack_free I \<longleftrightarrow> (\<forall>s xs. I (s\<lparr>rt_stack := xs\<rparr>) = I s)"

lemma stack_freeD: "stack_free I \<Longrightarrow> I (s\<lparr>rt_stack := xs\<rparr>) = I s"
  by (simp add: stack_free_def)

lemma pres_stack [pres_intros]:
  assumes "stack_free I"
  shows "pres I (lua_push v)" "pres I (lua_pushvalue i)" "pres I (lua_settop n)"
    "pres I (lua_pop n)" "pres I (lua_getfield i k)" "pres I (lua_rawgeti r)"
    "pres I (lua_settab n w)" "pres I (lua_setfield n k)" "pres I (lua_rawseti n j)"
    "pres I (lua_insert n)" "pres I (lua_remove n)"
  using assms by (auto simp: lua_prim_defs pres_def stack_free_def Let_def)

lemma pres_queries [pres_intros]:
  "pres I lua_gettop" "pres I (lua_value i)" "pres I (lua_type i)" "pres I lua_toptype"
  "pres I (lua_isnumber i)" "pres I (lua_tointeger i)" "pres I (lua_tostring i)" "pres I (lua_toboolean i)"
  "pres I (lua_isnoneornil i)" "pres I (luaL_checkstring i)" "pres I (luaL_checkinteger i)"
  "pres I (luaL_checkoption i d opts)" "pres I (luaL_optinteger i n)"
  by (simp_all add: lua_prim_defs pres_gets)

definition call_free :: "('a rt_scheme \<Rightarrow> bool) \<Rightarrow> bool" where
  "call_free I \<longleftrightarrow> stack_free I \<and> (\<forall>s cs. I (s\<lparr>rt_calls := cs\<rparr>) = I s)"

lemma pres_vm_call [pres_intros]:
  assumes "call_free I" and "\<And>f args. pres I (lua f args)"
  shows "pres I (vm_call lua n)"
  unfolding vm_call_def Let_def
  by (intro pres_intros assms(2) pres_modify)
    (use assms(1) in \<open>auto simp: call_free_def stack_free_def\<close>)

lemma pres_thunk_methods:
  assumes "stack_free I" and "\<And>s. I s \<Longrightarrow> rt_stack s = frame \<Longrightarrow> I (exec m s)"
  shows "pres I (thunk_methods m frame)"
  using assms by (auto simp: thunk_methods_def pres_def stack_free_def)

end
