(* ===== verification/Async_Op.thy ===== *)
theory Async_Op
  imports Lua_Api
begin

section \<open>Objects with outstanding asynchronous operations\<close>

text \<open>
  The socket, stream, acceptor and timer classes share one pattern: a method stores the
  Lua object in the registry (\<^verbatim>\<open>luaL_ref\<close>), starts a Boost.Asio operation whose handler
  is bound to \<open>this\<close> and to that reference, and the handler fetches the object, drops
  the reference and calls back.  \<open>async\<close> is the state the pattern needs, on top of the
  Lua runtime:
  \<^item> \<open>a_ops\<close>, the operations started and not completed yet (what the \<^verbatim>\<open>io_service\<close>
    holds: pending I/O and posted handlers);
  \<^item> \<open>a_os\<close>, the synchronous calls made on the underlying Boost object, in order, a
    history variable; \<open>a_ec\<close> and \<open>a_addr\<close> are what the system answers to a call
    after a history, a parameter that no operation changes;
  \<^item> \<open>a_trace\<close>, a second history variable with the starts and completions between
    those calls, for the properties about the order of events.

  The completion of an operation is a step of the environment: it picks an outstanding
  operation, a result and a byte count, and runs the handler.
\<close>

datatype ('op, 'c) event = Started 'op | Completed 'op | Called 'c

record ('op, 'c) async = rt +
  a_self :: nat
  a_ops :: "'op list"
  a_os :: "'c list"
  a_trace :: "('op, 'c) event list"
  a_ec :: "'c list \<Rightarrow> 'c \<Rightarrow> ec"
  a_addr :: "'c list \<Rightarrow> 'c \<Rightarrow> string \<times> int"

definition os_call :: "'c \<Rightarrow> (('op, 'c, 'z) async_scheme, ec) state" where
  "os_call c = do {
     e \<leftarrow> gets (\<lambda>s. a_ec s (a_os s) c);
     modify (\<lambda>s. s\<lparr>a_os := a_os s @ [c], a_trace := a_trace s @ [Called c]\<rparr>);
     ret e
   }"

definition os_query :: "'c \<Rightarrow> (('op, 'c, 'z) async_scheme, ec \<times> string \<times> int) state" where
  "os_query c = do {
     a \<leftarrow> gets (\<lambda>s. a_addr s (a_os s) c);
     e \<leftarrow> os_call c;
     ret (e, a)
   }"

definition start_async :: "'op \<Rightarrow> (('op, 'c, 'z) async_scheme, unit) state" where
  "start_async x =
     modify (\<lambda>s. s\<lparr>a_ops := a_ops s @ [x], a_trace := a_trace s @ [Started x]\<rparr>)"

definition take_op :: "'op \<Rightarrow> ('op, 'c, 'z) async_scheme \<Rightarrow> ('op, 'c, 'z) async_scheme" where
  "take_op x s = s\<lparr>a_ops := remove1 x (a_ops s), a_trace := a_trace s @ [Completed x]\<rparr>"

lemma exec_os_call [simp]: "exec (os_call c) s =
       s\<lparr>a_os := a_os s @ [c], a_trace := a_trace s @ [Called c]\<rparr>"
  and result_os_call [simp]: "result (os_call c) s = a_ec s (a_os s) c"
  by (simp_all add: os_call_def)

lemma exec_os_query [simp]: "exec (os_query c) s =
       s\<lparr>a_os := a_os s @ [c], a_trace := a_trace s @ [Called c]\<rparr>"
  and result_os_query [simp]: "result (os_query c) s = (a_ec s (a_os s) c, a_addr s (a_os s) c)"
  by (simp_all add: os_query_def)

lemma exec_start_async [simp]: "exec (start_async x) s =
       s\<lparr>a_ops := a_ops s @ [x], a_trace := a_trace s @ [Started x]\<rparr>"
  and result_start_async [simp]: "result (start_async x) s = ()"
  by (simp_all add: start_async_def)

text \<open>
  The idiom \<^verbatim>\<open>lua_pushvalue(L, 1); int reference = luaL_ref(L, LUA_REGISTRYINDEX);\<close>
  of every method that starts an operation.
\<close>

definition ref_self :: "('a rt_scheme, int) state" where
  "ref_self = do { lua_pushvalue 1; luaL_ref }"

lemma exec_ref_self:
  "rt_stack s = LObj p # args \<Longrightarrow>
   exec ref_self s = s\<lparr>rt_reg := (rt_reg s)(le_newref (rt_env s) (rt_reg s) \<mapsto> LObj p)\<rparr>"
  by (simp add: ref_self_def exec_luaL_ref lua_pushvalue_def Let_def)

lemma result_ref_self:
  "rt_stack s = LObj p # args \<Longrightarrow> result ref_self s = le_newref (rt_env s) (rt_reg s)"
  by (simp add: ref_self_def result_luaL_ref lua_pushvalue_def)

text \<open>What every handler starts with: the object from the registry, the reference dropped.\<close>

definition fetch_self :: "int \<Rightarrow> ('a rt_scheme, unit) state" where
  "fetch_self reference = do { lua_rawgeti reference; luaL_unref reference }"

lemma exec_fetch_self:
  "exec (fetch_self r) s = s\<lparr>rt_stack := rt_stack s @ [case rt_reg s r of None \<Rightarrow> LNil | Some v \<Rightarrow> v],
     rt_reg := (if 0 \<le> r then (rt_reg s)(r := None) else rt_reg s)\<rparr>"
  by (simp add: fetch_self_def lua_prim_defs)

lemmas meth_simps = exec_if result_if exec_whenM exec_case_sum exec_case_option exec_case_prod
  exec_ref_self result_ref_self exec_luaL_ref result_luaL_ref lua_prim_defs Let_def

subsection \<open>Error codes for Lua\<close>

text \<open>
  \<^verbatim>\<open>BoostErrorCodeToLua\<close> and \<^verbatim>\<open>BoostErrorToCallback\<close>: what every method returns for an
  error code, and what an error callback receives.
\<close>

definition BoostErrorCodeToLua :: "ec \<Rightarrow> ('a rt_scheme, nat) state" where
  "BoostErrorCodeToLua e =
     (if ec_fails e then do {
        lua_push LNil;
        lua_push (LStr (ec_message e));
        lua_push (LNum (ec_value e));
        ret 3
      }
      else do {
        lua_push (LBool True);
        ret 1
      })"

definition BoostErrorToCallback :: "ec \<Rightarrow> ('a rt_scheme, nat) state" where
  "BoostErrorToCallback e = do {
     lua_push (LStr (ec_message e));
     lua_push (LNum (ec_value e));
     ret 2
   }"

definition ec_results :: "ec \<Rightarrow> lval list" where
  "ec_results e = (if e = Ok_Ec then [LBool True]
     else [LNil, LStr (ec_message e), LNum (ec_value e)])"

lemma exec_BoostErrorCodeToLua [simp]:
  "exec (BoostErrorCodeToLua e) s = s\<lparr>rt_stack := rt_stack s @ ec_results e\<rparr>"
  by (simp add: BoostErrorCodeToLua_def ec_results_def lua_push_def)

lemma result_BoostErrorCodeToLua [simp]:
  "result (BoostErrorCodeToLua e) s = length (ec_results e)"
  by (simp add: BoostErrorCodeToLua_def ec_results_def lua_push_def)

lemma pres_BoostErrorCodeToLua [pres_intros]: "stack_free I \<Longrightarrow> pres I (BoostErrorCodeToLua e)"
  by (simp add: pres_def stack_free_def)

lemma pres_BoostErrorToCallback [pres_intros]: "stack_free I \<Longrightarrow> pres I (BoostErrorToCallback e)"
  unfolding BoostErrorToCallback_def by (intro pres_intros)

definition ret_ec :: "ec \<Rightarrow> 'a rt_scheme meth" where
  "ret_ec e = do { n \<leftarrow> BoostErrorCodeToLua e; ret_n n }"

lemma exec_ret_ec [simp]: "exec (ret_ec e) s = s\<lparr>rt_stack := rt_stack s @ ec_results e\<rparr>"
  and result_ret_ec [simp]: "result (ret_ec e) s = Inr (length (ec_results e))"
  by (simp_all add: ret_ec_def)

lemma pres_ret_ec [pres_intros]: "stack_free I \<Longrightarrow> pres I (ret_ec e)"
  by (simp add: pres_def stack_free_def)

subsection \<open>Lua code as the environment of an object\<close>

text \<open>
  What Lua code can do to an object: call its methods, set its fields, and have other
  bindings store values in the registry.  A Lua function is a choice of such actions and
  of results, made from the function's name, its arguments and the state it starts in;
  as everything it observes is in that state, this covers a program that reacts to what
  its own calls return.
\<close>

datatype 'm act = Invoke 'm "lval list" | Set_Field nat string lval | Ref_Value lval

type_synonym ('m, 's) script = "lval \<Rightarrow> lval list \<Rightarrow> 's \<Rightarrow> 'm act list \<times> lval list"

fun run_act :: "('m \<Rightarrow> ('op, 'c, 'z) async_scheme meth) \<Rightarrow> 'm act \<Rightarrow>
    (('op, 'c, 'z) async_scheme, unit) state" where
  "run_act body (Invoke m args) = do {
     this \<leftarrow> gets a_self;
     _ \<leftarrow> thunk_methods (body m) (LObj this # args);
     ret ()
   }"
| "run_act body (Set_Field p k v) =
     modify (\<lambda>s. s\<lparr>rt_objs := (rt_objs s)(p := (rt_objs s p)(k := v))\<rparr>)"
| "run_act body (Ref_Value v) = do {
     lua_push v;
     _ \<leftarrow> luaL_ref;
     ret ()
   }"

fun run_acts :: "('m \<Rightarrow> ('op, 'c, 'z) async_scheme meth) \<Rightarrow> 'm act list \<Rightarrow>
    (('op, 'c, 'z) async_scheme, unit) state" where
  "run_acts body [] = ret ()"
| "run_acts body (x # xs) = do { run_act body x; run_acts body xs }"

definition scripted :: "('m \<Rightarrow> ('op, 'c, 'z) async_scheme meth) \<Rightarrow>
    ('m, ('op, 'c, 'z) async_scheme) script \<Rightarrow> ('op, 'c, 'z) async_scheme lua_fun" where
  "scripted body prog f args = do {
     choice \<leftarrow> gets (prog f args);
     run_acts body (fst choice);
     ret (snd choice)
   }"

text \<open>
  An action keeps an invariant when every method does, entered with the object at stack
  index 1, and object fields and other registry entries do not matter to it.
\<close>

lemma pres_run_act:
  fixes I :: "('op, 'c, 'z) async_scheme \<Rightarrow> bool"
  assumes "stack_free I"
    and meth: "\<And>m s args. I s \<Longrightarrow> rt_stack s = LObj (a_self s) # args \<Longrightarrow> I (exec (body m) s)"
    and obj: "\<And>s h. I s \<Longrightarrow> I (s\<lparr>rt_objs := h\<rparr>)"
    and reg: "\<And>s v. I s \<Longrightarrow> I (s\<lparr>rt_reg := (rt_reg s)(le_newref (rt_env s) (rt_reg s) \<mapsto> v)\<rparr>)"
  shows "pres I (run_act body x)"
proof (cases x)
  case (Invoke m args)
  have "I (exec (body m) (s\<lparr>rt_stack := LObj (a_self s) # args\<rparr>))" if "I s" for s
    by (rule meth) (use that stack_freeD [OF assms(1)] in simp_all)
  then show ?thesis
    by (simp add: Invoke pres_def thunk_methods_def stack_freeD [OF assms(1)])
next
  case (Set_Field p k v)
  then show ?thesis by (simp add: pres_def obj)
next
  case (Ref_Value v)
  have "I (s\<lparr>rt_stack := xs\<rparr>) = I s" for s xs by (rule stack_freeD [OF assms(1)])
  moreover have "s\<lparr>rt_stack := xs, rt_reg := g\<rparr> = s\<lparr>rt_reg := g, rt_stack := xs\<rparr>" for s :: "('op, 'c, 'z) async_scheme" and xs g
    by simp
  ultimately show ?thesis
    using reg by (simp add: Ref_Value pres_def lua_push_def exec_luaL_ref Let_def)
qed

lemma pres_run_acts:
  assumes "\<And>x. pres I (run_act body x)"
  shows "pres I (run_acts body xs)"
  by (induction xs) (auto intro!: pres_intros assms)

lemma pres_scripted:
  assumes "\<And>x. pres I (run_act body x)"
  shows "pres I (scripted body prog f args)"
  unfolding scripted_def by (intro pres_intros pres_run_acts assms)

text \<open>Lua code leaves the stack of its caller alone, but for the results of a call.\<close>

lemma stack_run_act: "rt_stack (exec (run_act body x) s) = rt_stack s"
  by (cases x) (simp_all add: thunk_methods_def lua_push_def exec_luaL_ref Let_def)

lemma stack_run_acts: "rt_stack (exec (run_acts body xs) s) = rt_stack s"
  by (induction xs arbitrary: s) (simp_all add: stack_run_act)

lemma stack_vm_call:
  "rt_stack (exec (vm_call lua n) s) = take (length (rt_stack s) - Suc n) (rt_stack s) @
     result (lua (rt_stack s ! (length (rt_stack s) - Suc n)) (drop (length (rt_stack s) - n) (rt_stack s)))
       (s\<lparr>rt_stack := take (length (rt_stack s) - Suc n) (rt_stack s),
         rt_calls := rt_calls s @ [(rt_stack s ! (length (rt_stack s) - Suc n),
           drop (Suc (length (rt_stack s) - Suc n)) (rt_stack s))]\<rparr>)"
  if "n < length (rt_stack s)"
  using that by (simp add: vm_call_def Let_def Suc_diff_Suc)

lemma result_scripted: "result (scripted body prog f args) s = snd (prog f args s)"
  by (simp add: scripted_def)

subsection \<open>Live references\<close>

text \<open>
  The safety condition of the pattern.  \<open>live self refs s\<close>: the registry references held
  by outstanding operations are pairwise distinct keys of the registry, and each
  operation's own reference holds the object itself, so the object that the bound handler
  points to can not have been collected.
\<close>

definition live_in :: "('op \<Rightarrow> int) \<Rightarrow> ('op \<Rightarrow> int list) \<Rightarrow> lua_env \<Rightarrow> (int \<rightharpoonup> lval) \<Rightarrow> nat \<Rightarrow>
    'op list \<Rightarrow> bool" where
  "live_in self refs env reg me ops \<longleftrightarrow>
     finite (dom reg) \<and> newref_ok env \<and> distinct (concat (map refs ops)) \<and>
     (\<forall>x\<in>set ops. self x \<in> set (refs x) \<and> reg (self x) = Some (LObj me) \<and>
        (\<forall>r\<in>set (refs x). 0 < r \<and> r \<in> dom reg))"

definition live ::
    "('op \<Rightarrow> int) \<Rightarrow> ('op \<Rightarrow> int list) \<Rightarrow> ('op, 'c, 'z) async_scheme \<Rightarrow> bool" where
  "live self refs s = live_in self refs (rt_env s) (rt_reg s) (a_self s) (a_ops s)"

lemma live_inD:
  assumes "live_in self refs env reg me ops" and "x \<in> set ops"
  shows "self x \<in> set (refs x)" "reg (self x) = Some (LObj me)"
    "\<And>r. r \<in> set (refs x) \<Longrightarrow> 0 < r" "\<And>r. r \<in> set (refs x) \<Longrightarrow> r \<in> dom reg"
  using assms by (auto simp: live_in_def)

lemma live_in_newref:
  assumes "live_in self refs env reg me ops"
  shows "le_newref env reg \<notin> dom reg" "0 < le_newref env reg"
  using assms by (auto simp: live_in_def newref_ok_def)

text \<open>Storing one more value in the registry, under the key \<^verbatim>\<open>luaL_ref\<close> picks.\<close>

lemma live_in_ref:
  assumes "live_in self refs env reg me ops"
  shows "live_in self refs env (reg(le_newref env reg \<mapsto> v)) me ops"
proof -
  have "(reg(le_newref env reg \<mapsto> v)) (self x) = Some (LObj me)" if "x \<in> set ops" for x
    using live_inD [OF assms that] live_in_newref [OF assms] by (metis domIff fun_upd_other option.simps(3))
  with assms show ?thesis
    by (auto simp: live_in_def)
qed

lemma live_in_start:
  assumes "live_in self refs env reg me ops"
    and "refs x = [le_newref env reg]" and "self x = le_newref env reg"
  shows "live_in self refs env (reg(le_newref env reg \<mapsto> LObj me)) me (ops @ [x])"
proof -
  have fresh: "le_newref env reg \<notin> dom reg" "0 < le_newref env reg"
    using live_in_newref [OF assms(1)] by simp_all
  have "live_in self refs env (reg(le_newref env reg \<mapsto> LObj me)) me ops"
    by (rule live_in_ref [OF assms(1)])
  moreover have "le_newref env reg \<notin> set (concat (map refs ops))"
    using assms(1) fresh by (auto simp: live_in_def)
  ultimately show ?thesis
    using assms fresh by (auto simp: live_in_def)
qed

text \<open>An operation that holds a second reference, to its callback.\<close>

lemma live_in_start2:
  fixes env :: lua_env and reg :: "int \<rightharpoonup> lval" and me :: nat
  defines "k \<equiv> le_newref env reg"
  defines "reg' \<equiv> reg(k \<mapsto> LObj me)"
  defines "c \<equiv> le_newref env reg'"
  assumes "live_in self refs env reg me ops" and "refs x = [k, c]" and "self x = k"
  shows "live_in self refs env (reg'(c \<mapsto> v)) me (ops @ [x])"
proof -
  have k: "k \<notin> dom reg" "0 < k"
    using live_in_newref [OF assms(4)] by (simp_all add: k_def)
  have 1: "live_in self refs env reg' me ops"
    unfolding reg'_def k_def by (rule live_in_ref [OF assms(4)])
  have c: "c \<notin> dom reg'" "0 < c"
    using live_in_newref [OF 1] by (simp_all add: c_def)
  have 2: "live_in self refs env (reg'(c \<mapsto> v)) me ops"
    unfolding c_def by (rule live_in_ref [OF 1])
  have old: "r \<noteq> k \<and> r \<noteq> c" if "y \<in> set ops" "r \<in> set (refs y)" for y r
    using live_inD(4) [OF assms(4) that(1,2)] live_inD(4) [OF 1 that(1,2)] k c by auto
  then have "set (concat (map refs ops)) \<inter> {k, c} = {}" by auto
  moreover have "k \<noteq> c" using c by (auto simp: reg'_def)
  ultimately show ?thesis
    using 2 assms(5,6) k c by (auto simp: live_in_def reg'_def)
qed

text \<open>A reference that is dropped again before it is used.\<close>

lemma live_in_ref_unref:
  assumes "live_in self refs env reg me ops"
  shows "live_in self refs env (reg(le_newref env reg := None)) me ops"
  using assms live_in_newref [OF assms] by (metis domIff fun_upd_triv)

text \<open>An operation completes: it leaves the list and its references leave the registry.\<close>

lemma live_in_complete:
  assumes "live_in self refs env reg me ops" and "x \<in> set ops"
  shows "live_in self refs env (reg |` (- set (refs x))) me (remove1 x ops)"
proof -
  have sub: "y \<in> set ops" if "y \<in> set (remove1 x ops)" for y
    using that by (rule in_set_remove1D)
  have away: "r \<notin> set (refs x)" if "y \<in> set (remove1 x ops)" "r \<in> set (refs y)" for y r
  proof
    assume r: "r \<in> set (refs x)"
    have "distinct (concat (map refs ops))"
      using assms(1) by (simp add: live_in_def)
    from set_concat_map_remove1 [OF this assms(2) r] that show False by auto
  qed
  have "distinct (concat (map refs (remove1 x ops)))"
    using assms by (auto simp: live_in_def intro: distinct_concat_map_remove1)
  moreover have "self y \<in> set (refs y) \<and> self y \<notin> set (refs x) \<and> reg (self y) = Some (LObj me) \<and>
      (\<forall>r\<in>set (refs y). 0 < r \<and> r \<notin> set (refs x) \<and> r \<in> dom reg)"
    if "y \<in> set (remove1 x ops)" for y
    using assms(1) sub [OF that] away [OF that] by (auto simp: live_in_def)
  ultimately show ?thesis
    using assms(1) by (simp add: live_in_def)
qed

lemma restrict_singleton [simp]: "m |` (- {r}) = m(r := None)"
  by (rule ext) (simp add: restrict_map_def)

lemma live_in_complete1:
  assumes "live_in self refs env reg me ops" and "x \<in> set ops" and "refs x = [r]"
  shows "live_in self refs env (reg(r := None)) me (remove1 x ops)"
  using live_in_complete [OF assms(1,2)] assms(3) by simp

subsection \<open>Order of events\<close>

text \<open>
  \<open>quiet W C n es\<close>: replaying \<open>es\<close> with \<open>n\<close> operations of kind \<open>W\<close> in flight, no
  call of kind \<open>C\<close> happens while one of them is in flight.  \<open>in_flight\<close> is the count
  at the end of the replay.
\<close>

fun quiet :: "('op \<Rightarrow> bool) \<Rightarrow> ('c \<Rightarrow> bool) \<Rightarrow> nat \<Rightarrow> ('op, 'c) event list \<Rightarrow> bool" where
  "quiet W C n [] = True"
| "quiet W C n (Started x # es) = quiet W C (if W x then Suc n else n) es"
| "quiet W C n (Completed x # es) = quiet W C (if W x then n - 1 else n) es"
| "quiet W C n (Called c # es) = ((C c \<longrightarrow> n = 0) \<and> quiet W C n es)"

fun in_flight :: "('op \<Rightarrow> bool) \<Rightarrow> nat \<Rightarrow> ('op, 'c) event list \<Rightarrow> nat" where
  "in_flight W n [] = n"
| "in_flight W n (Started x # es) = in_flight W (if W x then Suc n else n) es"
| "in_flight W n (Completed x # es) = in_flight W (if W x then n - 1 else n) es"
| "in_flight W n (Called c # es) = in_flight W n es"

lemma in_flight_append [simp]:
  "in_flight W n (es @ fs) = in_flight W (in_flight W n es) fs"
  by (induction W n es rule: in_flight.induct) simp_all

lemma quiet_append [simp]:
  "quiet W C n (es @ fs) \<longleftrightarrow> quiet W C n es \<and> quiet W C (in_flight W n es) fs"
  by (induction W C n es rule: quiet.induct) auto

text \<open>The trace of a state is quiet and accounts for its outstanding operations.\<close>

definition quiet_in ::
    "('op \<Rightarrow> bool) \<Rightarrow> ('c \<Rightarrow> bool) \<Rightarrow> ('op, 'c) event list \<Rightarrow> 'op list \<Rightarrow> bool" where
  "quiet_in W C tr ops \<longleftrightarrow> quiet W C 0 tr \<and> in_flight W 0 tr = count_if W ops"

lemma quiet_in_nil [simp]: "quiet_in W C [] []"
  by (simp add: quiet_in_def)

lemma quiet_in_start: "quiet_in W C tr ops \<Longrightarrow> quiet_in W C (tr @ [Started x]) (ops @ [x])"
  by (simp add: quiet_in_def)

lemma quiet_in_called:
  "quiet_in W C tr ops \<Longrightarrow> (C c \<Longrightarrow> count_if W ops = 0) \<Longrightarrow> quiet_in W C (tr @ [Called c]) ops"
  by (auto simp: quiet_in_def)

lemma quiet_in_complete:
  "quiet_in W C tr ops \<Longrightarrow> x \<in> set ops \<Longrightarrow> quiet_in W C (tr @ [Completed x]) (remove1 x ops)"
  by (simp add: quiet_in_def count_if_remove1)

subsection \<open>The contract of the pattern\<close>

text \<open>
  What the owner of such an object (the event loop, the Lua code) relies on, whatever the
  component's own invariant \<open>inv\<close> is made of.  \<open>async_writer\<close> adds the pending-writes
  counter and the calls \<open>cuts\<close> that would cut a write off, \<open>async_reader\<close> the count of
  pending reads.
\<close>

locale async_object =
  fixes start :: "('op, 'c, 'z) async_scheme \<Rightarrow> bool"
    and step :: "('op, 'c, 'z) async_scheme \<Rightarrow> ('op, 'c, 'z) async_scheme \<Rightarrow> bool"
    and inv :: "('op, 'c, 'z) async_scheme \<Rightarrow> bool"
    and self :: "'op \<Rightarrow> int"
    and refs :: "'op \<Rightarrow> int list"
  assumes start_inv: "start s \<Longrightarrow> inv s"
    and step_inv: "inv s \<Longrightarrow> step s t \<Longrightarrow> inv t"
    and inv_live: "inv s \<Longrightarrow> live self refs s"
begin

lemma reach_inv: "reach start step s \<Longrightarrow> inv s"
  by (rule reach_invariant [of start step]) (blast intro: start_inv step_inv)+

lemma reach_live: "reach start step s \<Longrightarrow> live self refs s"
  by (rule inv_live [OF reach_inv])

lemma reach_self_kept:
  "reach start step s \<Longrightarrow> x \<in> set (a_ops s) \<Longrightarrow> rt_reg s (self x) = Some (LObj (a_self s))"
  by (drule reach_live) (simp add: live_def live_inD)

lemma reach_refs_distinct: "reach start step s \<Longrightarrow> distinct (concat (map refs (a_ops s)))"
  by (drule reach_live) (simp add: live_def live_in_def)

end

definition single_writer :: "('op \<Rightarrow> bool) \<Rightarrow> 64 word \<Rightarrow> 'op list \<Rightarrow> bool" where
  "single_writer W pw ops \<longleftrightarrow> pw = of_nat (count_if W ops) \<and> count_if W ops \<le> 1"

lemma single_writer_zero: "single_writer W pw ops \<Longrightarrow> pw = 0 \<longleftrightarrow> count_if W ops = 0"
  by (auto simp: single_writer_def le_Suc_eq)

locale async_writer = async_object +
  fixes pw :: "('op, 'c, 'z) async_scheme \<Rightarrow> 64 word"
    and is_write :: "'op \<Rightarrow> bool"
    and cuts :: "'c \<Rightarrow> bool"
  assumes inv_writer: "inv s \<Longrightarrow> single_writer is_write (pw s) (a_ops s)"
    and inv_quiet: "inv s \<Longrightarrow> quiet_in is_write cuts (a_trace s) (a_ops s)"
begin

lemma reach_one_write:
  "reach start step s \<Longrightarrow> pw s = of_nat (count_if is_write (a_ops s)) \<and>
     count_if is_write (a_ops s) \<le> 1"
  using inv_writer [OF reach_inv] by (simp add: single_writer_def)

lemma reach_write_slot:
  "reach start step s \<Longrightarrow> pw s = 0 \<longleftrightarrow> (\<forall>x\<in>set (a_ops s). \<not> is_write x)"
  using single_writer_zero [OF inv_writer [OF reach_inv]] by (simp add: count_if_0_iff)

lemma reach_quiet: "reach start step s \<Longrightarrow> quiet is_write cuts 0 (a_trace s)"
  using inv_quiet [OF reach_inv] by (simp add: quiet_in_def)

end

locale async_reader = async_object +
  fixes pr :: "('op, 'c, 'z) async_scheme \<Rightarrow> 64 word"
    and is_read :: "'op \<Rightarrow> bool"
  assumes inv_reader: "inv s \<Longrightarrow> pr s = of_nat (count_if is_read (a_ops s))"
begin

lemma reach_reads: "reach start step s \<Longrightarrow> pr s = of_nat (count_if is_read (a_ops s))"
  by (rule inv_reader [OF reach_inv])

end

end
