(* ===== verification/Net_Socket.thy ===== *)
theory Net_Socket
  imports Async_Op "HOL-Library.Sublist"
begin

section \<open>TCP sockets (\<^verbatim>\<open>src/luanode_net.cpp\<close>, \<^verbatim>\<open>src/luanode_net.h\<close>)\<close>

text \<open>
  \<^verbatim>\<open>LuaNode::Net::Socket\<close>: its fields, every method Lua can call and every completion
  handler.  The Boost socket is the environment: \<open>net_call\<close> are the synchronous calls made
  on it, \<open>net_op\<close> the operations handed to it (or posted to the \<^verbatim>\<open>io_service\<close>) with what
  their handlers are bound to.

  The properties: the pending counters are the numbers of outstanding operations, at most
  one write is outstanding, the references of outstanding operations are live, a close or a
  send shutdown never reaches the system while a write is in flight and is never forgotten,
  and the behaviour of the methods and handlers branch by branch.
\<close>

subsection \<open>State\<close>

datatype shutdown_type = Sd_Receive | Sd_Send | Sd_Both

datatype net_call =
    Os_Parse_Address string | Os_Parse_V4 string | Os_Parse_V6 string
  | Os_Bind string int | Os_Shutdown shutdown_type | Os_Close
  | Os_Reuse_Address bool | Os_No_Delay bool | Os_Keep_Alive bool
  | Os_Keep_Idle int | Os_Keep_Interval int
  | Os_Remote_Endpoint | Os_Local_Endpoint

datatype net_op =
    Op_Write int string
  | Op_Read_Some int
  | Op_Read_Until int string
  | Op_Read int "64 word option"
  | Op_Post_Read int "64 word"
  | Op_Connect int string int
  | Op_Post_Close int
  | Op_Post_Shutdown int

text \<open>
  \<open>Op_Read\<close> carries what its completion condition is bound to: a byte count for
  \<^verbatim>\<open>ReadSizeCondition\<close>, nothing for \<^verbatim>\<open>ReadEofCondition\<close>.
\<close>

record net_socket = "(net_op, net_call) async" +
  m_close_pending :: bool
  m_write_shutdown_pending :: bool
  m_pending_writes :: "64 word"
  m_pending_reads :: "64 word"
  m_write_queue_size :: "64 word"
  m_inputBuffer :: string
  m_inputArray :: string

type_synonym 'r net = "(net_socket, 'r) state"

text \<open>The two conditions that \<^verbatim>\<open>async_read\<close> asks whether to stop.\<close>

definition ReadSizeCondition :: "64 word \<Rightarrow> ec \<Rightarrow> 64 word \<Rightarrow> nat" where
  "ReadSizeCondition requested_num error accumulated_len =
     (if requested_num \<le> accumulated_len then 0 else 65536)"

definition ReadEofCondition :: "ec \<Rightarrow> 64 word \<Rightarrow> nat" where
  "ReadEofCondition error accumulated_len = (if ec_is Eof error then 0 else 65536)"

definition read_condition :: "64 word option \<Rightarrow> ec \<Rightarrow> 64 word \<Rightarrow> nat" where
  "read_condition c = (case c of Some n \<Rightarrow> ReadSizeCondition n | None \<Rightarrow> ReadEofCondition)"

subsection \<open>Construction and destruction\<close>

datatype tcp_kind = Tcp_V4 | Tcp_V6

record net_globals =
  s_nextSocketId :: "64 word"
  s_socketCount :: "64 word"

definition GetSocketCount :: "net_globals \<Rightarrow> 'a rt_scheme meth" where
  "GetSocketCount g = do { lua_push (LNum (sint (s_socketCount g))); ret_n 1 }"

text \<open>
  The constructor numbers and counts the socket before it looks at the kind; the number is
  kept as \<^verbatim>\<open>unsigned int\<close>.  \<open>open_ec\<close> is what opening the descriptor answers.
\<close>

definition Socket_ctor :: "(tcp_kind \<Rightarrow> ec) \<Rightarrow> lua_env \<Rightarrow> lval list \<Rightarrow> net_globals \<Rightarrow>
    (lua_error + tcp_kind \<times> 32 word) \<times> net_globals" where
  "Socket_ctor open_ec env args g = (
     let g' = g\<lparr>s_nextSocketId := s_nextSocketId g + 1, s_socketCount := s_socketCount g + 1\<rparr>;
         m_socketId = ucast (s_nextSocketId g')
     in case as_string env (stack_at args 1) of
          None \<Rightarrow> (Inl (Arg_Error 1), g')
        | Some kind \<Rightarrow>
            if kind = ''tcp4'' then
              (if ec_fails (open_ec Tcp_V4) then (Inl (Cpp_Error (open_ec Tcp_V4)), g')
               else (Inr (Tcp_V4, m_socketId), g'))
            else if kind = ''tcp6'' then
              (if ec_fails (open_ec Tcp_V6) then (Inl (Cpp_Error (open_ec Tcp_V6)), g')
               else (Inr (Tcp_V6, m_socketId), g'))
            else (Inl (Lua_Error ''unknown socket kind''), g'))"

text \<open>
  \<^verbatim>\<open>new_T\<close>: a \<^verbatim>\<open>system_error\<close> becomes three results, any other failure a Lua error.
\<close>

definition Socket_new_T :: "(tcp_kind \<Rightarrow> ec) \<Rightarrow> lua_env \<Rightarrow> nat \<Rightarrow> lval list \<Rightarrow> net_globals \<Rightarrow>
    (lua_error + lval list) \<times> net_globals" where
  "Socket_new_T open_ec env p frame g = (case Socket_ctor open_ec env (drop 1 frame) g of
     (Inr _, g') \<Rightarrow> (Inr [LObj p], g')
   | (Inl (Cpp_Error e), g') \<Rightarrow> (Inr [LNil, LStr (le_what env e), LNum (ec_value e)], g')
   | (Inl err, g') \<Rightarrow> (Inl err, g'))"

definition Socket_dtor_count :: "net_globals \<Rightarrow> net_globals" where
  "Socket_dtor_count g = g\<lparr>s_socketCount := s_socketCount g - 1\<rparr>"

definition Socket_dtor :: "bool \<Rightarrow> unit net" where
  "Socket_dtor is_open = whenM is_open (do {
     _ \<leftarrow> os_call (Os_Shutdown Sd_Both);
     _ \<leftarrow> os_call Os_Close;
     ret ()
   })"

subsection \<open>Addresses\<close>

definition IsIP :: "net_socket meth" where
  "IsIP = do {
     a \<leftarrow> luaL_checkstring 1;
     case a of Inl e \<Rightarrow> raise e
     | Inr address \<Rightarrow> do {
         e4 \<leftarrow> os_call (Os_Parse_V4 address);
         if \<not> ec_fails e4 then do { lua_push (LBool True); lua_push (LNum 4); ret_n 2 }
         else do {
           e6 \<leftarrow> os_call (Os_Parse_V6 address);
           if \<not> ec_fails e6 then do { lua_push (LBool True); lua_push (LNum 6); ret_n 2 }
           else ret_ec e6
         }
       }
   }"

definition Socket_GetRemoteAddress :: "net_socket meth" where
  "Socket_GetRemoteAddress = do {
     r \<leftarrow> os_query Os_Remote_Endpoint;
     env \<leftarrow> gets rt_env;
     (case r of (e, addr, port) \<Rightarrow>
       if ec_fails e then do { lua_push LNil; lua_push (LStr (le_what env e)) }
       else do { lua_push (LStr addr); lua_push (LNum port) });
     ret_n 2
   }"

definition Socket_GetLocalAddress :: "net_socket meth" where
  "Socket_GetLocalAddress = do {
     r \<leftarrow> os_query Os_Local_Endpoint;
     env \<leftarrow> gets rt_env;
     (case r of (e, addr, port) \<Rightarrow>
       if ec_fails e then do { lua_push LNil; lua_push (LStr (le_what env e)) }
       else do { lua_push (LStr addr); lua_push (LNum port) });
     ret_n 2
   }"

definition Socket_writeQueueSize :: "net_socket meth" where
  "Socket_writeQueueSize = do {
     q \<leftarrow> gets m_write_queue_size;
     lua_push (LNum (sint q));
     ret_n 1
   }"

subsection \<open>Options, bind\<close>

text \<open>\<^verbatim>\<open>set_option\<close> without an error code argument throws; the Linux branch of keepalive.\<close>

definition set_option :: "net_call \<Rightarrow> net_socket meth \<Rightarrow> net_socket meth" where
  "set_option c k = do {
     e \<leftarrow> os_call c;
     if ec_fails e then raise (Cpp_Error e) else k
   }"

definition Socket_SetOption :: "net_socket meth" where
  "Socket_SetOption = do {
     name \<leftarrow> luaL_checkstring 2;
     chosen \<leftarrow> luaL_checkoption 2 (Some ''no_option'')
       [''reuseaddr'', ''nodelay'', ''keepalive'', ''no_option''];
     case name of Inl e \<Rightarrow> raise e | Inr _ \<Rightarrow>
     (case chosen of Inl e \<Rightarrow> raise e | Inr chosen_option \<Rightarrow> do {
       value \<leftarrow> lua_toboolean 3;
       if chosen_option = 0 then set_option (Os_Reuse_Address value) (ret_n 0)
       else if chosen_option = 1 then set_option (Os_No_Delay value) (ret_n 0)
       else if chosen_option = 2 then set_option (Os_Keep_Alive value) (do {
         time \<leftarrow> lua_tointeger 4;
         interval \<leftarrow> lua_tointeger 5;
         if value \<and> c_int time \<noteq> 0 then do {
           e1 \<leftarrow> os_call (Os_Keep_Idle (c_int time));
           if ec_fails e1 then raise (Lua_Error ''Failed to set keepalive (TCP_KEEPIDLE)'')
           else if c_int interval \<noteq> 0 then do {
             e2 \<leftarrow> os_call (Os_Keep_Interval (c_int interval));
             if ec_fails e2 then raise (Lua_Error ''Failed to set keepalive (TCP_KEEPINTVL)'')
             else ret_n 0
           }
           else ret_n 0
         }
         else ret_n 0
       })
       else ret_n 0
     })
   }"

definition Socket_Bind :: "net_socket meth" where
  "Socket_Bind = do {
     a \<leftarrow> luaL_checkstring 2;
     p \<leftarrow> luaL_checkinteger 3;
     case a of Inl e \<Rightarrow> raise e | Inr ip \<Rightarrow>
     (case p of Inl e \<Rightarrow> raise e | Inr n \<Rightarrow> do {
       pe \<leftarrow> os_call (Os_Parse_Address ip);
       if ec_fails pe then raise (Cpp_Error pe)
       else do {
         e \<leftarrow> os_call (Os_Bind ip (c_ushort n));
         ret_ec e
       }
     })
   }"

subsection \<open>Close and shutdown\<close>

definition Socket_Close :: "net_socket meth" where
  "Socket_Close = do {
     pw \<leftarrow> gets m_pending_writes;
     if pw \<noteq> 0 then do {
       modify (\<lambda>s. s\<lparr>m_close_pending := True\<rparr>);
       lua_push (LBool True);
       ret_n 1
     }
     else do {
       _ \<leftarrow> os_call (Os_Shutdown Sd_Both);
       e \<leftarrow> os_call Os_Close;
       whenM (\<not> ec_fails e) (do {
         lua_getfield 1 ''close_callback'';
         t \<leftarrow> lua_type 2;
         whenM (t = TFunction) (do {
           reference \<leftarrow> ref_self;
           start_async (Op_Post_Close reference)
         })
       });
       ret_ec e
     }
   }"

text \<open>The error code of \<open>Shutdown\<close> starts as success; the last call made overwrites it.\<close>

definition shutdown_send :: "ec net" where
  "shutdown_send = do {
     pw \<leftarrow> gets m_pending_writes;
     if 0 < pw then do {
       modify (\<lambda>s. s\<lparr>m_write_shutdown_pending := True\<rparr>);
       ret Ok_Ec
     }
     else os_call (Os_Shutdown Sd_Send)
   }"

definition Socket_Shutdown :: "net_socket meth" where
  "Socket_Shutdown = do {
     t \<leftarrow> lua_type 2;
     chosen \<leftarrow> (if t = TString
       then luaL_checkoption 2 (Some ''no_option'') [''read'', ''write'', ''both'', ''no_option'']
       else ret (Inr 2));
     case chosen of Inl e \<Rightarrow> raise e
     | Inr chosen_option \<Rightarrow> do {
         e \<leftarrow> (if chosen_option = 0 then os_call (Os_Shutdown Sd_Receive)
            else if chosen_option = 1 then shutdown_send
            else if chosen_option = 2 then do {
              _ \<leftarrow> shutdown_send;
              os_call (Os_Shutdown Sd_Receive)
            }
            else ret Ok_Ec);
         whenM (\<not> ec_fails e) (do {
           reference \<leftarrow> ref_self;
           start_async (Op_Post_Shutdown reference)
         });
         ret_ec e
       }
   }"

subsection \<open>Write, read, connect\<close>

definition Socket_Write :: "net_socket meth" where
  "Socket_Write = do {
     pw \<leftarrow> gets m_pending_writes;
     if 0 < pw then do { lua_push (LBool False); ret_n 1 }
     else do {
       reference \<leftarrow> ref_self;
       t \<leftarrow> lua_type 2;
       if t = TString then do {
         d \<leftarrow> lua_tostring 2;
         modify (\<lambda>s. s\<lparr>m_pending_writes := m_pending_writes s + 1\<rparr>);
         start_async (Op_Write reference d);
         lua_push (LBool True);
         ret_n 1
       }
       else raise (Lua_Error ''Socket::Write, unhandled type'')
     }
   }"

definition Socket_Read :: "net_socket meth" where
  "Socket_Read = do {
     reference \<leftarrow> ref_self;
     nothing \<leftarrow> lua_isnoneornil 2;
     t \<leftarrow> lua_type 2;
     if nothing then do {
       modify (\<lambda>s. s\<lparr>m_pending_reads := m_pending_reads s + 1\<rparr>);
       start_async (Op_Read_Some reference);
       ret_n 0
     }
     else if t = TString then do {
       chosen \<leftarrow> luaL_checkoption 2 (Some ''*l'') [''*l'', ''*a''];
       case chosen of Inl e \<Rightarrow> raise e
       | Inr chosen_option \<Rightarrow>
           if chosen_option = 0 then do {
             modify (\<lambda>s. s\<lparr>m_pending_reads := m_pending_reads s + 1\<rparr>);
             start_async (Op_Read_Until reference [CHR 0x0A]);
             ret_n 0
           }
           else if chosen_option = 1 then do {
             modify (\<lambda>s. s\<lparr>m_pending_reads := m_pending_reads s + 1\<rparr>);
             start_async (Op_Read reference None);
             ret_n 0
           }
           else ret_n 0
     }
     else if t = TNumber then do {
       n \<leftarrow> lua_tointeger 2;
       modify (\<lambda>s. s\<lparr>m_pending_reads := m_pending_reads s + 1\<rparr>);
       size \<leftarrow> gets (\<lambda>s. of_nat (length (m_inputBuffer s)));
       (if (word_of_int n :: 64 word) \<le> size
        then start_async (Op_Post_Read reference (word_of_int n))
        else start_async (Op_Read reference (Some (word_of_int n - size))));
       ret_n 0
     }
     else do {
       luaL_unref reference;
       raise (Lua_Error ''argument must be nil, a string or a number'')
     }
   }"

definition Socket_Connect :: "net_socket meth" where
  "Socket_Connect = do {
     a \<leftarrow> luaL_checkstring 2;
     p \<leftarrow> luaL_checkinteger 3;
     case a of Inl e \<Rightarrow> raise e | Inr ip \<Rightarrow>
     (case p of Inl e \<Rightarrow> raise e | Inr n \<Rightarrow> do {
       e \<leftarrow> os_call (Os_Parse_Address ip);
       if ec_fails e then ret_ec e
       else do {
         reference \<leftarrow> ref_self;
         start_async (Op_Connect reference ip (c_ushort n));
         lua_push (LBool True);
         ret_n 1
       }
     })
   }"

subsection \<open>Completion handlers\<close>

text \<open>
  The three callbacks without a result: look the field up in the object, and when the
  value at stack index 2 is a function, call what is on top with the object and \<^verbatim>\<open>true\<close>.
\<close>

definition Socket_CallShutdownCallback :: "net_socket lua_fun \<Rightarrow> unit net" where
  "Socket_CallShutdownCallback lua = do {
     lua_getfield 1 ''shutdown_callback'';
     t \<leftarrow> lua_type 2;
     whenM (t = TFunction) (do { lua_pushvalue 1; lua_push (LBool True); vm_call lua 2 })
   }"

definition Socket_CallCloseCallback :: "net_socket lua_fun \<Rightarrow> unit net" where
  "Socket_CallCloseCallback lua = do {
     pw \<leftarrow> gets m_pending_writes;
     whenM (pw = 0) (do {
       modify (\<lambda>s. s\<lparr>m_close_pending := False\<rparr>);
       _ \<leftarrow> os_call (Os_Shutdown Sd_Both);
       _ \<leftarrow> os_call Os_Close;
       lua_getfield 1 ''close_callback'';
       t \<leftarrow> lua_type 2;
       whenM (t = TFunction) (do { lua_pushvalue 1; lua_push (LBool True); vm_call lua 2 })
     })
   }"

definition Socket_HandleCloseCallback :: "net_socket lua_fun \<Rightarrow> int \<Rightarrow> unit net" where
  "Socket_HandleCloseCallback lua reference = do {
     fetch_self reference;
     lua_getfield 1 ''close_callback'';
     t \<leftarrow> lua_type 2;
     whenM (t = TFunction) (do { lua_pushvalue 1; lua_push (LBool True); vm_call lua 2 });
     lua_settop 0
   }"

definition Socket_HandleShutdownCallback :: "net_socket lua_fun \<Rightarrow> int \<Rightarrow> unit net" where
  "Socket_HandleShutdownCallback lua reference = do {
     fetch_self reference;
     lua_getfield 1 ''shutdown_callback'';
     t \<leftarrow> lua_type 2;
     whenM (t = TFunction) (do { lua_pushvalue 1; lua_push (LBool True); vm_call lua 2 });
     lua_settop 0
   }"

definition close_if_pending :: "net_socket lua_fun \<Rightarrow> unit net" where
  "close_if_pending lua = do {
     c \<leftarrow> gets m_close_pending;
     whenM c (Socket_CallCloseCallback lua)
   }"

definition shutdown_if_pending :: "net_socket lua_fun \<Rightarrow> unit net" where
  "shutdown_if_pending lua = do {
     sp \<leftarrow> gets (\<lambda>s. m_write_shutdown_pending s \<and> m_pending_writes s = 0);
     whenM sp (do {
       _ \<leftarrow> os_call (Os_Shutdown Sd_Send);
       Socket_CallShutdownCallback lua
     })
   }"

definition Socket_HandleWrite :: "net_socket lua_fun \<Rightarrow> int \<Rightarrow> ec \<Rightarrow> nat \<Rightarrow> unit net" where
  "Socket_HandleWrite lua reference error bytes_transferred = do {
     fetch_self reference;
     modify (\<lambda>s. s\<lparr>m_pending_writes := m_pending_writes s - 1\<rparr>);
     (if \<not> ec_fails error then do {
        lua_getfield 1 ''write_callback'';
        t \<leftarrow> lua_type 2;
        whenM (t = TFunction) (do { lua_pushvalue 1; lua_push (LBool True); vm_call lua 2 })
      }
      else do {
        lua_getfield 1 ''write_callback'';
        t \<leftarrow> lua_type 2;
        whenM (t = TFunction) (do {
          lua_pushvalue 1; _ \<leftarrow> BoostErrorCodeToLua error; vm_call lua 4 })
      });
     shutdown_if_pending lua;
     close_if_pending lua;
     lua_settop 0
   }"

text \<open>\<open>push_input n\<close>: push the first \<open>n\<close> bytes of the stream buffer and consume them.\<close>

definition push_input :: "nat \<Rightarrow> unit net" where
  "push_input n = do {
     b \<leftarrow> gets m_inputBuffer;
     lua_push (LStr (take n b));
     modify (\<lambda>s. s\<lparr>m_inputBuffer := drop n b\<rparr>)
   }"

definition Socket_HandleReadDelimited ::
    "net_socket lua_fun \<Rightarrow> int \<Rightarrow> string \<Rightarrow> ec \<Rightarrow> nat \<Rightarrow> unit net" where
  "Socket_HandleReadDelimited lua reference delimiter error bytes_transferred = do {
     fetch_self reference;
     modify (\<lambda>s. s\<lparr>m_pending_reads := m_pending_reads s - 1\<rparr>);
     (if \<not> ec_fails error then do {
        lua_getfield 1 ''read_callback'';
        t \<leftarrow> lua_type 2;
        whenM (t = TFunction) (do {
          lua_pushvalue 1;
          push_input bytes_transferred;
          vm_call lua 2
        })
      }
      else do {
        lua_getfield 1 ''read_callback'';
        t \<leftarrow> lua_type 2;
        whenM (t = TFunction) (do {
          lua_pushvalue 1;
          _ \<leftarrow> BoostErrorCodeToLua error;
          buf_size \<leftarrow> gets (length \<circ> m_inputBuffer);
          (if 0 < buf_size then do { push_input buf_size; vm_call lua 5 } else vm_call lua 4)
        })
      });
     close_if_pending lua;
     lua_settop 0
   }"

definition Socket_HandleReadSome ::
    "net_socket lua_fun \<Rightarrow> int \<Rightarrow> ec \<Rightarrow> nat \<Rightarrow> unit net" where
  "Socket_HandleReadSome lua reference error bytes_transferred = do {
     fetch_self reference;
     modify (\<lambda>s. s\<lparr>m_pending_reads := m_pending_reads s - 1\<rparr>);
     (if \<not> ec_fails error then do {
        lua_getfield 1 ''read_callback'';
        t \<leftarrow> lua_type 2;
        whenM (t = TFunction) (do {
          lua_pushvalue 1;
          data \<leftarrow> gets m_inputArray;
          lua_push (LStr (take bytes_transferred data));
          vm_call lua 2
        })
      }
      else do {
        lua_getfield 1 ''read_callback'';
        t \<leftarrow> lua_type 2;
        whenM (t = TFunction) (do {
          lua_pushvalue 1; _ \<leftarrow> BoostErrorCodeToLua error; vm_call lua 4 })
      });
     close_if_pending lua;
     lua_settop 0
   }"

definition Socket_HandleReadSize ::
    "net_socket lua_fun \<Rightarrow> int \<Rightarrow> ec \<Rightarrow> nat \<Rightarrow> unit net" where
  "Socket_HandleReadSize lua reference error bytes_transferred = do {
     fetch_self reference;
     modify (\<lambda>s. s\<lparr>m_pending_reads := m_pending_reads s - 1\<rparr>);
     (if \<not> ec_fails error then do {
        lua_getfield 1 ''read_callback'';
        t \<leftarrow> lua_type 2;
        whenM (t = TFunction) (do {
          lua_pushvalue 1;
          push_input bytes_transferred;
          vm_call lua 2
        })
      }
      else do {
        lua_getfield 1 ''read_callback'';
        t \<leftarrow> lua_type 2;
        whenM (t = TFunction) (do {
          lua_pushvalue 1;
          _ \<leftarrow> BoostErrorCodeToLua error;
          (if 0 < bytes_transferred
           then do { push_input bytes_transferred; vm_call lua 5 }
           else vm_call lua 4)
        })
      });
     close_if_pending lua;
     lua_settop 0
   }"

definition Socket_HandleConnect :: "net_socket lua_fun \<Rightarrow> int \<Rightarrow> ec \<Rightarrow> unit net" where
  "Socket_HandleConnect lua reference error = do {
     fetch_self reference;
     lua_getfield 1 ''connect_callback'';
     t \<leftarrow> lua_type 2;
     whenM (t = TFunction) (do {
       lua_pushvalue 1;
       (if \<not> ec_fails error then do { lua_push (LBool True); vm_call lua 2 }
        else do { _ \<leftarrow> BoostErrorCodeToLua error; vm_call lua 4 })
     });
     lua_settop 0
   }"

subsection \<open>The socket as a state machine\<close>

text \<open>The methods table, and which handler each outstanding operation is bound to.\<close>

datatype net_method =
    Net_setoption | Net_bind | Net_close | Net_shutdown | Net_write | Net_read | Net_connect
  | Net_getsockname | Net_getpeername | Net_writeQueueSize

fun Socket_methods :: "net_method \<Rightarrow> net_socket meth" where
  "Socket_methods Net_setoption = Socket_SetOption"
| "Socket_methods Net_bind = Socket_Bind"
| "Socket_methods Net_close = Socket_Close"
| "Socket_methods Net_shutdown = Socket_Shutdown"
| "Socket_methods Net_write = Socket_Write"
| "Socket_methods Net_read = Socket_Read"
| "Socket_methods Net_connect = Socket_Connect"
| "Socket_methods Net_getsockname = Socket_GetLocalAddress"
| "Socket_methods Net_getpeername = Socket_GetRemoteAddress"
| "Socket_methods Net_writeQueueSize = Socket_writeQueueSize"

fun net_handler :: "net_socket lua_fun \<Rightarrow> net_op \<Rightarrow> ec \<Rightarrow> nat \<Rightarrow> unit net" where
  "net_handler lua (Op_Write r d) e n = Socket_HandleWrite lua r e n"
| "net_handler lua (Op_Read_Some r) e n = Socket_HandleReadSome lua r e n"
| "net_handler lua (Op_Read_Until r d) e n = Socket_HandleReadDelimited lua r d e n"
| "net_handler lua (Op_Read r c) e n = Socket_HandleReadSize lua r e n"
| "net_handler lua (Op_Post_Read r k) e n = Socket_HandleReadSize lua r Ok_Ec (unat k)"
| "net_handler lua (Op_Connect r a p) e n = Socket_HandleConnect lua r e"
| "net_handler lua (Op_Post_Close r) e n = Socket_HandleCloseCallback lua r"
| "net_handler lua (Op_Post_Shutdown r) e n = Socket_HandleShutdownCallback lua r"

text \<open>
  What Boost.Asio documents of a completion; \<open>d\<close> are the bytes that arrived for it.
  \<^verbatim>\<open>async_read_some\<close> and \<^verbatim>\<open>async_read\<close> report how many bytes they stored, with or
  without an error; \<^verbatim>\<open>async_read_until\<close> counts the bytes of the buffer up to the delimiter,
  0 with an error; \<^verbatim>\<open>async_write\<close> all the bytes unless there is an error.
\<close>

fun net_completion :: "net_socket \<Rightarrow> net_op \<Rightarrow> string \<Rightarrow> ec \<Rightarrow> nat \<Rightarrow> bool" where
  "net_completion s (Op_Write r w) d e n =
     (d = [] \<and> (if ec_fails e then n \<le> length w else n = length w))"
| "net_completion s (Op_Read_Some r) d e n = (n = length d \<and> n \<le> 8192)"
| "net_completion s (Op_Read_Until r w) d e n =
     (if ec_fails e then n = 0
      else length w \<le> n \<and> n \<le> length (m_inputBuffer s @ d) \<and>
        take (length w) (drop (n - length w) (m_inputBuffer s @ d)) = w)"
| "net_completion s (Op_Read r c) d e n = (n = length d)"
| "net_completion s _ d e n = (d = [])"

fun net_arrive :: "net_op \<Rightarrow> string \<Rightarrow> net_socket \<Rightarrow> net_socket" where
  "net_arrive (Op_Read_Some r) d s =
     s\<lparr>m_inputArray := d @ drop (length d) (m_inputArray s)\<rparr>"
| "net_arrive _ d s = s\<lparr>m_inputBuffer := m_inputBuffer s @ d\<rparr>"

text \<open>
  A step: some Lua code runs (the main chunk, or another object's callback), or an
  operation completes and its handler runs, with the callbacks doing what \<open>prog\<close> chooses.
\<close>

inductive net_step :: "(net_method, net_socket) script \<Rightarrow> net_socket \<Rightarrow> net_socket \<Rightarrow> bool"
  for prog where
  net_lua: "net_step prog s (exec (run_acts Socket_methods acts) s)"
| net_done: "x \<in> set (a_ops s) \<Longrightarrow> net_completion s x d e n \<Longrightarrow>
    net_step prog s (exec (net_handler (scripted Socket_methods prog) x e n)
      (net_arrive x d (take_op x s)))"

inductive_cases net_stepE: "net_step prog s t"

definition net_init :: "net_socket \<Rightarrow> bool" where
  "net_init s \<longleftrightarrow> finite (dom (rt_reg s)) \<and> newref_ok (rt_env s) \<and> rt_stack s = [] \<and>
     a_ops s = [] \<and> a_trace s = [] \<and> \<not> m_close_pending s \<and> \<not> m_write_shutdown_pending s \<and>
     m_pending_writes s = 0 \<and> m_pending_reads s = 0 \<and> m_write_queue_size s = 0"

subsection \<open>The invariant\<close>

fun op_ref :: "net_op \<Rightarrow> int" where
  "op_ref (Op_Write r d) = r"
| "op_ref (Op_Read_Some r) = r"
| "op_ref (Op_Read_Until r d) = r"
| "op_ref (Op_Read r c) = r"
| "op_ref (Op_Post_Read r k) = r"
| "op_ref (Op_Connect r a p) = r"
| "op_ref (Op_Post_Close r) = r"
| "op_ref (Op_Post_Shutdown r) = r"

definition op_refs :: "net_op \<Rightarrow> int list" where
  "op_refs x = [op_ref x]"

fun is_write :: "net_op \<Rightarrow> bool" where
  "is_write (Op_Write r d) = True"
| "is_write _ = False"

fun is_read :: "net_op \<Rightarrow> bool" where
  "is_read (Op_Read_Some r) = True"
| "is_read (Op_Read_Until r d) = True"
| "is_read (Op_Read r c) = True"
| "is_read (Op_Post_Read r k) = True"
| "is_read _ = False"

text \<open>The calls that would cut off a write: closing, and shutting the sending side down.\<close>

fun cuts_writes :: "net_call \<Rightarrow> bool" where
  "cuts_writes (Os_Shutdown k) = (k \<noteq> Sd_Receive)"
| "cuts_writes Os_Close = True"
| "cuts_writes _ = False"

text \<open>
  The flag \<open>b\<close> selects the last conjunct, which a handler breaks between the decrement
  and its final check: a pending close has a write to wait for.
\<close>

definition net_inv :: "bool \<Rightarrow> net_socket \<Rightarrow> bool" where
  "net_inv b s \<longleftrightarrow>
     live_in op_ref op_refs (rt_env s) (rt_reg s) (a_self s) (a_ops s) \<and>
     m_pending_writes s = of_nat (count_if is_write (a_ops s)) \<and>
     count_if is_write (a_ops s) \<le> 1 \<and>
     m_pending_reads s = of_nat (count_if is_read (a_ops s)) \<and>
     quiet_in is_write cuts_writes (a_trace s) (a_ops s) \<and>
     (b \<longrightarrow> m_close_pending s \<longrightarrow> m_pending_writes s \<noteq> 0)"

lemma call_free_net_inv: "call_free (net_inv b)"
  by (simp add: call_free_def stack_free_def net_inv_def)

lemma stack_free_net_inv: "stack_free (net_inv b)"
  using call_free_net_inv by (simp add: call_free_def)

lemma op_refs_ref [simp]: "op_ref x \<in> set (op_refs x)" "op_refs x = [op_ref x]"
  by (simp_all add: op_refs_def)

lemma net_write_slot: "net_inv b s \<Longrightarrow> m_pending_writes s = 0 \<longleftrightarrow> count_if is_write (a_ops s) = 0"
  by (auto simp: net_inv_def le_Suc_eq)

subsection \<open>Every method keeps it\<close>

lemmas net_inv_simps = net_inv_def quiet_in_def live_in_start live_in_ref live_in_ref_unref

lemma net_inv_cases:
  assumes "net_inv b s"
  obtains "m_pending_writes s = 0" "count_if is_write (a_ops s) = 0"
  | "m_pending_writes s = 1" "count_if is_write (a_ops s) = 1"
  using assms by (auto simp: net_inv_def le_Suc_eq)

lemma net_inv_Close:
  assumes "net_inv b s" and "rt_stack s = LObj (a_self s) # args"
  shows "net_inv b (exec Socket_Close s)"
  using assms(1) by (rule net_inv_cases)
    (insert assms, auto simp: Socket_Close_def meth_simps net_inv_simps)

lemma net_inv_Write:
  assumes "net_inv b s" and "rt_stack s = LObj (a_self s) # args"
  shows "net_inv b (exec Socket_Write s)"
  using assms(1) by (rule net_inv_cases)
    (insert assms, auto simp: Socket_Write_def meth_simps net_inv_simps)

lemma net_inv_Connect:
  assumes "net_inv b s" and "rt_stack s = LObj (a_self s) # args"
  shows "net_inv b (exec Socket_Connect s)"
  using assms by (auto simp: Socket_Connect_def meth_simps net_inv_simps split: sum.splits)

lemma net_inv_Read:
  assumes "net_inv b s" and "rt_stack s = LObj (a_self s) # args"
  shows "net_inv b (exec Socket_Read s)"
proof (cases "stack_at args 1")
  case (LStr x)
  then show ?thesis using assms
    by (cases "index_of x [''*l'', ''*a'']")
      (auto simp: none_or_nil_def as_string_def Socket_Read_def meth_simps net_inv_simps
        simp del: index_of.simps)
qed (insert assms, auto simp: none_or_nil_def Socket_Read_def meth_simps net_inv_simps)

text \<open>Calls that do not cut writes off, and sending ends only when no write is pending.\<close>

lemma pres_net_call [pres_intros]: "\<not> cuts_writes c \<Longrightarrow> pres (net_inv b) (os_call c)"
  by (auto simp: pres_def net_inv_simps)

lemma pres_shutdown_send [pres_intros]: "pres (net_inv b) shutdown_send"
proof (rule presI)
  fix s assume "net_inv b s"
  then show "net_inv b (exec shutdown_send s)"
    by (rule net_inv_cases)
      (use \<open>net_inv b s\<close> in \<open>auto simp: shutdown_send_def meth_simps net_inv_simps\<close>)
qed

lemma exec_shutdown_send:
  "rt_stack (exec shutdown_send s) = rt_stack s" "a_self (exec shutdown_send s) = a_self s"
  by (simp_all add: shutdown_send_def meth_simps)

lemma net_inv_post_shutdown:
  assumes "net_inv b s" and "rt_stack s = LObj (a_self s) # args"
  shows "net_inv b (exec (do { reference \<leftarrow> ref_self; start_async (Op_Post_Shutdown reference) }) s)"
  using assms by (auto simp: meth_simps net_inv_simps)

lemma net_inv_Shutdown:
  assumes "net_inv b s" and "rt_stack s = LObj (a_self s) # args"
  shows "net_inv b (exec Socket_Shutdown s)"
proof -
  define body where "body k = (if k = (0::nat) then os_call (Os_Shutdown Sd_Receive)
    else if k = 1 then shutdown_send
    else if k = 2 then shutdown_send \<bind> (\<lambda>_. os_call (Os_Shutdown Sd_Receive))
    else ret Ok_Ec)" for k
  have body: "net_inv b (exec (body k) s)" "rt_stack (exec (body k) s) = rt_stack s"
    "a_self (exec (body k) s) = a_self s" for k
  proof -
    have "pres (net_inv b) (body k)"
      unfolding body_def by (intro pres_intros) simp_all
    with assms(1) show "net_inv b (exec (body k) s)" by (rule presD [rotated])
  qed (simp_all add: body_def exec_if exec_shutdown_send)
  note post = net_inv_post_shutdown [OF body(1), where args = args]
  show ?thesis
    unfolding Socket_Shutdown_def
    using assms body post
    by (auto simp: meth_simps stack_freeD [OF stack_free_net_inv] simp flip: body_def
        split: sum.splits option.splits)
qed

lemma pres_net_query [pres_intros]: "\<not> cuts_writes c \<Longrightarrow> pres (net_inv b) (os_query c)"
  by (auto simp: pres_def net_inv_simps)

lemma pres_net_observers:
  "pres (net_inv b) Socket_SetOption" "pres (net_inv b) Socket_Bind"
  "pres (net_inv b) Socket_GetLocalAddress" "pres (net_inv b) Socket_GetRemoteAddress"
  "pres (net_inv b) Socket_writeQueueSize"
  unfolding Socket_SetOption_def set_option_def Socket_Bind_def Socket_GetLocalAddress_def
    Socket_GetRemoteAddress_def Socket_writeQueueSize_def
  by (intro pres_intros stack_free_net_inv; simp)+

lemma net_inv_methods:
  assumes "net_inv b s" and "rt_stack s = LObj (a_self s) # args"
  shows "net_inv b (exec (Socket_methods m) s)"
  using assms pres_net_observers [of b]
  by (cases m) (simp_all add: presD net_inv_Close net_inv_Shutdown net_inv_Write net_inv_Read
      net_inv_Connect)

lemma pres_net_act: "pres (net_inv b) (run_act Socket_methods x)"
proof (rule pres_run_act)
  show "stack_free (net_inv b)" by (rule stack_free_net_inv)
  show "net_inv b (exec (Socket_methods m) s)"
    if "net_inv b s" "rt_stack s = LObj (a_self s) # args" for m s args
    using that by (rule net_inv_methods)
qed (auto simp: net_inv_simps)

lemma pres_net_scripted [pres_intros]: "pres (net_inv b) (scripted Socket_methods prog f args)"
  by (rule pres_scripted [OF pres_net_act])

lemmas pres_net_intros = pres_intros stack_free_net_inv call_free_net_inv

subsection \<open>Every completion keeps it\<close>

text \<open>The head of a handler: the operation is gone, its reference dropped, its counter down.\<close>

lemma net_arrive_other [simp]:
  "rt_env (net_arrive x d s) = rt_env s" "rt_reg (net_arrive x d s) = rt_reg s"
  "a_self (net_arrive x d s) = a_self s" "a_ops (net_arrive x d s) = a_ops s"
  "a_trace (net_arrive x d s) = a_trace s" "rt_stack (net_arrive x d s) = rt_stack s"
  "m_pending_writes (net_arrive x d s) = m_pending_writes s"
  "m_pending_reads (net_arrive x d s) = m_pending_reads s"
  "m_close_pending (net_arrive x d s) = m_close_pending s"
  by (cases x; simp)+

lemma net_inv_completed:
  assumes "net_inv b s" and "x \<in> set (a_ops s)"
    and "rt_env t = rt_env s" "rt_reg t = (rt_reg s)(op_ref x := None)" "a_self t = a_self s"
    and "a_ops t = remove1 x (a_ops s)" "a_trace t = a_trace s @ [Completed x]" "m_close_pending t = m_close_pending s"
    and "m_pending_writes t = (if is_write x then m_pending_writes s - 1 else m_pending_writes s)"
    and "m_pending_reads t = (if is_read x then m_pending_reads s - 1 else m_pending_reads s)"
  shows "net_inv (b \<and> \<not> is_write x) t"
proof -
  have "0 < count_if is_read (a_ops s)" if "is_read x"
    using count_if_pos assms(2) that by fast
  moreover have "count_if is_write (a_ops s) = 1" if "is_write x"
    using count_if_pos [of x "a_ops s" is_write] assms(1,2) that by (auto simp: net_inv_def)
  ultimately show ?thesis
    using assms live_in_complete1 [of op_ref op_refs _ _ _ _ x "op_ref x"]
    by (auto simp: net_inv_def quiet_in_complete count_if_remove1 of_nat_diff)
qed

lemma op_ref_pos: "net_inv b s \<Longrightarrow> x \<in> set (a_ops s) \<Longrightarrow> 0 < op_ref x"
  using live_inD(3) [of op_ref op_refs _ _ _ _ x "op_ref x"] by (auto simp: net_inv_def)

lemma pres_call_shutdown [pres_intros]:
  "(\<And>f args. pres (net_inv b) (lua f args)) \<Longrightarrow> pres (net_inv b) (Socket_CallShutdownCallback lua)"
  unfolding Socket_CallShutdownCallback_def by (intro pres_net_intros) auto

text \<open>\<open>CallCloseCallback\<close> closes only without pending writes, and settles the flag.\<close>

lemma net_inv_closing:
  assumes "net_inv b s" and "m_pending_writes s = 0"
  shows "net_inv True (exec (do {
       modify (\<lambda>s. s\<lparr>m_close_pending := False\<rparr>);
       _ \<leftarrow> os_call (Os_Shutdown Sd_Both);
       os_call Os_Close }) s)"
  using assms(1) by (rule net_inv_cases) (use assms in \<open>auto simp: net_inv_simps\<close>)

lemma net_inv_CallCloseCallback:
  assumes I: "net_inv False s" and lua: "\<And>f args. pres (net_inv True) (lua f args)"
  shows "net_inv True (exec (close_if_pending lua) s)"
proof -
  define tail where "tail = (do {
       lua_getfield 1 ''close_callback'';
       t \<leftarrow> lua_type 2;
       whenM (t = TFunction) (do { lua_pushvalue 1; lua_push (LBool True); vm_call lua 2 }) })"
  have tail: "pres (net_inv True) tail"
    unfolding tail_def by (intro pres_net_intros lua)
  have "exec (close_if_pending lua) s = (if m_close_pending s \<and> m_pending_writes s = 0
      then exec tail (exec (do {
        modify (\<lambda>s. s\<lparr>m_close_pending := False\<rparr>);
        _ \<leftarrow> os_call (Os_Shutdown Sd_Both);
        os_call Os_Close }) s)
      else s)"
    by (simp add: close_if_pending_def Socket_CallCloseCallback_def tail_def exec_whenM)
  moreover have "net_inv True s" if "\<not> (m_close_pending s \<and> m_pending_writes s = 0)"
    using I that by (auto simp: net_inv_def)
  ultimately show ?thesis
    using presD [OF tail net_inv_closing [OF I]] by auto
qed

lemma pres_close_if_pending [pres_intros]:
  assumes "\<And>f args. pres (net_inv True) (lua f args)"
  shows "valid (net_inv False) (close_if_pending lua) (\<lambda>_. net_inv True)"
  by (rule validI) (rule net_inv_CallCloseCallback [OF _ assms])

lemma pres_shutdown_if_pending:
  assumes "\<And>f args. pres (net_inv b) (lua f args)"
  shows "pres (net_inv b) (shutdown_if_pending lua)"
proof (rule presI)
  fix s assume I: "net_inv b s"
  have "net_inv b (exec (os_call (Os_Shutdown Sd_Send)) s)" if "m_pending_writes s = 0"
    using I by (rule net_inv_cases) (use I that in \<open>auto simp: net_inv_simps\<close>)
  with presD [OF pres_call_shutdown [OF assms]] I
  show "net_inv b (exec (shutdown_if_pending lua) s)"
    by (auto simp: shutdown_if_pending_def exec_whenM)
qed

lemma net_inv_tail:
  assumes "\<And>f args. pres (net_inv True) (lua f args)"
  shows "valid (net_inv False) (close_if_pending lua \<bind> (\<lambda>_. lua_settop 0)) (\<lambda>_. net_inv True)"
  using presD [OF pres_stack(3) [OF stack_free_net_inv] net_inv_CallCloseCallback [OF _ assms]]
  by (simp add: valid_def)

text \<open>A handler is the head, then a body that re-establishes the invariant.\<close>

lemma net_inv_handlerI:
  assumes I: "net_inv True s" and x: "x \<in> set (a_ops s)" and r: "r = op_ref x"
    and body: "valid (net_inv False) body (\<lambda>_. net_inv True)"
    and cnt: "\<And>t. cnt t = t\<lparr>
      m_pending_writes := (if is_write x then m_pending_writes t - 1 else m_pending_writes t),
      m_pending_reads := (if is_read x then m_pending_reads t - 1 else m_pending_reads t)\<rparr>"
  shows "net_inv True (exec (fetch_self r \<bind> (\<lambda>_. modify cnt \<bind> (\<lambda>_. body)))
    (net_arrive x d (take_op x s)))"
proof -
  have "net_inv (True \<and> \<not> is_write x) (exec (do { fetch_self r; modify cnt })
      (net_arrive x d (take_op x s)))"
    by (rule net_inv_completed [OF I x])
      (use op_ref_pos [OF I x] in \<open>simp_all add: exec_fetch_self cnt take_op_def r\<close>)
  then have "net_inv False (exec (do { fetch_self r; modify cnt }) (net_arrive x d (take_op x s)))"
    by (auto simp: net_inv_def)
  from validD [OF body this] show ?thesis by simp
qed

lemma net_inv_handlerI_plain:
  assumes I: "net_inv True s" and x: "x \<in> set (a_ops s)" "\<not> is_write x" "\<not> is_read x"
    and r: "r = op_ref x" and body: "pres (net_inv True) body"
  shows "net_inv True (exec (fetch_self r \<bind> (\<lambda>_. body)) (net_arrive x d (take_op x s)))"
proof -
  have "net_inv (True \<and> \<not> is_write x) (exec (fetch_self r) (net_arrive x d (take_op x s)))"
    by (rule net_inv_completed [OF I x(1)])
      (use x op_ref_pos [OF I x(1)] in \<open>simp_all add: exec_fetch_self take_op_def r\<close>)
  with x(2) presD [OF body] show ?thesis by simp
qed

lemma pres_push_input [pres_intros]: "pres (net_inv b) (push_input n)"
  by (auto simp: pres_def push_input_def lua_push_def net_inv_def)

lemma net_inv_done:
  assumes I: "net_inv True s" and x: "x \<in> set (a_ops s)"
    and lua: "\<And>b f args. pres (net_inv b) (lua f args)"
  shows "net_inv True (exec (net_handler lua x e n) (net_arrive x d (take_op x s)))"
proof (cases x)
  case (Op_Write r w)
  show ?thesis
    unfolding Op_Write net_handler.simps Socket_HandleWrite_def
    by (rule net_inv_handlerI; (fact I x [unfolded Op_Write] | (simp; fail))?)
      (intro net_inv_tail valid_pres_bind pres_shutdown_if_pending pres_net_intros lua)
next
  case (Op_Read_Some r)
  show ?thesis
    unfolding Op_Read_Some net_handler.simps Socket_HandleReadSome_def
    by (rule net_inv_handlerI; (fact I x [unfolded Op_Read_Some] | (simp; fail))?)
      (intro net_inv_tail valid_pres_bind pres_push_input pres_net_intros lua)
next
  case (Op_Read_Until r w)
  show ?thesis
    unfolding Op_Read_Until net_handler.simps Socket_HandleReadDelimited_def
    by (rule net_inv_handlerI; (fact I x [unfolded Op_Read_Until] | (simp; fail))?)
      (intro net_inv_tail valid_pres_bind pres_push_input pres_net_intros lua)
next
  case (Op_Read r c)
  show ?thesis
    unfolding Op_Read net_handler.simps Socket_HandleReadSize_def
    by (rule net_inv_handlerI; (fact I x [unfolded Op_Read] | (simp; fail))?)
      (intro net_inv_tail valid_pres_bind pres_push_input pres_net_intros lua)
next
  case (Op_Post_Read r k)
  show ?thesis
    unfolding Op_Post_Read net_handler.simps Socket_HandleReadSize_def
    by (rule net_inv_handlerI; (fact I x [unfolded Op_Post_Read] | (simp; fail))?)
      (intro net_inv_tail valid_pres_bind pres_push_input pres_net_intros lua)
next
  case (Op_Connect r a p)
  show ?thesis
    unfolding Op_Connect net_handler.simps Socket_HandleConnect_def
    by (rule net_inv_handlerI_plain; (fact I x [unfolded Op_Connect] | (simp; fail))?)
      (intro pres_net_intros lua)
next
  case (Op_Post_Close r)
  show ?thesis
    unfolding Op_Post_Close net_handler.simps Socket_HandleCloseCallback_def
    by (rule net_inv_handlerI_plain; (fact I x [unfolded Op_Post_Close] | (simp; fail))?)
      (intro pres_net_intros lua)
next
  case (Op_Post_Shutdown r)
  show ?thesis
    unfolding Op_Post_Shutdown net_handler.simps Socket_HandleShutdownCallback_def
    by (rule net_inv_handlerI_plain; (fact I x [unfolded Op_Post_Shutdown] | (simp; fail))?)
      (intro pres_net_intros lua)
qed

subsection \<open>What happens to a deferred close\<close>

text \<open>
  \<open>since b os s\<close>: the calls \<open>os\<close> have been made and, when \<open>b\<close> says so, the deferred
  close is still to come.  Every method keeps it, so every callback does.
\<close>

definition since :: "bool \<Rightarrow> net_call list \<Rightarrow> net_socket \<Rightarrow> bool" where
  "since b os s \<longleftrightarrow> (b \<longrightarrow> m_close_pending s) \<and> prefix os (a_os s)"

lemma free_since: "stack_free (since b os)" "call_free (since b os)"
  by (simp_all add: stack_free_def call_free_def since_def)

lemma pres_since_prims:
  "pres (since b os) (os_call c)" "pres (since b os) (os_query c)"
  "pres (since b os) (start_async x)" "pres (since b os) luaL_ref" "pres (since b os) (luaL_unref r)"
  "pres (since b os) (modify (\<lambda>s. s\<lparr>m_close_pending := True\<rparr>))"
  "pres (since b os) (modify (\<lambda>s. s\<lparr>m_write_shutdown_pending := True\<rparr>))"
  "pres (since b os) (modify (\<lambda>s. s\<lparr>m_pending_writes := f s\<rparr>))"
  "pres (since b os) (modify (\<lambda>s. s\<lparr>m_pending_reads := f s\<rparr>))"
  by (simp_all add: pres_def since_def exec_luaL_ref luaL_unref_def Let_def)

lemmas pres_since_intros = pres_intros pres_since_prims free_since

lemma pres_since_methods: "pres (since b os) (Socket_methods m)"
  by (cases m)
    (simp_all only: Socket_methods.simps Socket_SetOption_def set_option_def Socket_Bind_def
      Socket_GetLocalAddress_def Socket_GetRemoteAddress_def Socket_writeQueueSize_def
      Socket_Close_def Socket_Shutdown_def shutdown_send_def Socket_Write_def Socket_Read_def
      Socket_Connect_def ref_self_def,
     (intro pres_since_intros)+)

lemma pres_since_scripted: "pres (since b os) (scripted Socket_methods prog f args)"
  by (intro pres_scripted pres_run_act free_since presD [OF pres_since_methods])
    (simp_all add: since_def)

lemma close_if_pending_settles:
  assumes "since True os s" and lua: "\<And>b os f args. pres (since b os) (lua f args)"
  shows "m_close_pending (exec (close_if_pending lua) s) \<or>
    (\<exists>os1 os2. a_os (exec (close_if_pending lua) s) =
       os @ os1 @ [Os_Shutdown Sd_Both, Os_Close] @ os2)"
proof (cases "m_pending_writes s = 0")
  case True
  define tail where "tail = (do {
       lua_getfield 1 ''close_callback'';
       t \<leftarrow> lua_type 2;
       whenM (t = TFunction) (do { lua_pushvalue 1; lua_push (LBool True); vm_call lua 2 }) })"
  let ?os = "a_os s @ [Os_Shutdown Sd_Both, Os_Close]"
  have "pres (since False ?os) tail"
    unfolding tail_def by (intro pres_since_intros lua)
  moreover define u where "u = exec (do {
       modify (\<lambda>s. s\<lparr>m_close_pending := False\<rparr>);
       _ \<leftarrow> os_call (Os_Shutdown Sd_Both);
       os_call Os_Close }) s"
  then have "since False ?os u" by (simp add: since_def)
  ultimately have "since False ?os (exec tail u)" by (rule presD)
  moreover have "exec (close_if_pending lua) s = exec tail u"
    using assms(1) True
    by (simp add: close_if_pending_def Socket_CallCloseCallback_def tail_def u_def exec_whenM since_def)
  ultimately obtain zs zsa where "a_os s = os @ zsa"
      "a_os (exec (close_if_pending lua) s) = (a_os s @ [Os_Shutdown Sd_Both, Os_Close]) @ zs"
    using assms(1) by (auto simp: since_def prefix_def)
  then have "a_os (exec (close_if_pending lua) s) = os @ zsa @ [Os_Shutdown Sd_Both, Os_Close] @ zs"
    by simp
  then show ?thesis by blast
next
  case False
  then show ?thesis
    using assms(1) by (simp add: close_if_pending_def Socket_CallCloseCallback_def exec_whenM since_def)
qed

lemma HandleWrite_settles:
  assumes "m_close_pending s" and "a_os s = os" and lua: "\<And>b os f args. pres (since b os) (lua f args)"
  shows "m_close_pending (exec (Socket_HandleWrite lua r e n) s) \<or>
    (\<exists>os1 os2. a_os (exec (Socket_HandleWrite lua r e n) s) =
       os @ os1 @ [Os_Shutdown Sd_Both, Os_Close] @ os2)"
proof -
  have tail: "valid (since True os) (close_if_pending lua \<bind> (\<lambda>_. lua_settop 0)) (\<lambda>_ t.
      m_close_pending t \<or> (\<exists>os1 os2. a_os t = os @ os1 @ [Os_Shutdown Sd_Both, Os_Close] @ os2))"
    using close_if_pending_settles [OF _ lua] by (simp add: valid_def lua_settop_def)
  have "valid (since True os) (Socket_HandleWrite lua r e n) (\<lambda>_ t.
      m_close_pending t \<or> (\<exists>os1 os2. a_os t = os @ os1 @ [Os_Shutdown Sd_Both, Os_Close] @ os2))"
    unfolding Socket_HandleWrite_def fetch_self_def shutdown_if_pending_def
      Socket_CallShutdownCallback_def
    by (intro tail valid_pres_bind pres_since_intros lua)
  from validD [OF this, of s] show ?thesis
    using assms(1,2) by (simp add: since_def)
qed

lemma net_inv_pending_write:
  assumes "net_inv True s" and "m_close_pending s"
  obtains r w where "Op_Write r w \<in> set (a_ops s)"
proof -
  have "m_pending_writes s \<noteq> 0"
    using assms by (auto simp: net_inv_def)
  then have "count_if is_write (a_ops s) \<noteq> 0"
    by (simp add: net_write_slot [OF assms(1)])
  then obtain x where x: "x \<in> set (a_ops s)" "is_write x"
    by (auto simp: count_if_0_iff)
  from x(2) obtain r w where "x = Op_Write r w" by (cases x) simp_all
  with x(1) show ?thesis by (blast intro: that)
qed

lemma net_inv_step: "net_inv True s \<Longrightarrow> net_step prog s t \<Longrightarrow> net_inv True t"
  by (erule net_stepE) (auto intro: net_inv_done pres_net_scripted presD [OF pres_run_acts [OF pres_net_act]])

lemma net_inv_init: "net_init s \<Longrightarrow> net_inv True s"
  by (simp add: net_init_def net_inv_def live_in_def)

lemma net_inv_facts:
  assumes "net_inv True s"
  shows "live op_ref op_refs s" "single_writer is_write (m_pending_writes s) (a_ops s)"
    "quiet_in is_write cuts_writes (a_trace s) (a_ops s)"
    "m_pending_reads s = of_nat (count_if is_read (a_ops s))"
  using assms by (simp_all add: net_inv_def live_def single_writer_def)

interpretation net: async_writer net_init "net_step prog" "net_inv True" op_ref op_refs
  m_pending_writes is_write cuts_writes
  for prog
  by unfold_locales (fact net_inv_init net_inv_step net_inv_facts)+

interpretation net_rd: async_reader net_init "net_step prog" "net_inv True" op_ref op_refs
  m_pending_reads is_read
  for prog
  by unfold_locales (fact net_inv_facts)+

subsection \<open>Properties\<close>

definition sample_socket :: net_socket where
  "sample_socket = \<lparr>rt_env = sample_env, rt_stack = [], rt_reg = Map.empty,
     rt_objs = (\<lambda>_ _. LNil), rt_calls = [], a_self = 7, a_ops = [], a_os = [], a_trace = [],
     a_ec = (\<lambda>_ _. Ok_Ec), a_addr = (\<lambda>_ _. ([], 0)), m_close_pending = False,
     m_write_shutdown_pending = False, m_pending_writes = 0, m_pending_reads = 0,
     m_write_queue_size = 0, m_inputBuffer = [], m_inputArray = []\<rparr>"

text \<open>The same socket after \<^verbatim>\<open>s:write("hi"); s:close()\<close>.\<close>

definition sample_closing :: net_socket where
  "sample_closing = exec (run_acts Socket_methods
     [Invoke Net_write [LStr ''hi''], Invoke Net_close []]) sample_socket"

lemma net_init_sample: "net_init sample_socket"
  by (simp add: net_init_def sample_socket_def newref_ok_sample)

lemma reach_sample_closing: "reach net_init (net_step prog) sample_closing"
  unfolding sample_closing_def
  by (rule reach_step, rule reach_init, rule net_init_sample, rule net_lua)

lemma sample_closing_fields:
  "a_ops sample_closing = [Op_Write 1 ''hi'']" "m_close_pending sample_closing"
  "m_pending_writes sample_closing = 1" "rt_reg sample_closing 1 = Some (LObj 7)"
  "a_self sample_closing = 7"
  by (simp_all add: sample_closing_def sample_socket_def thunk_methods_def Socket_Write_def
      Socket_Close_def meth_simps as_string_def)

text \<open>
  C1: In every state a Lua program can bring a socket to (any sequence of method calls, any
  callbacks, any completions Boost.Asio may report), \<open>m_pending_writes\<close> is the number of
  writes handed to the system and not completed, and never exceeds one; and
  \<open>m_pending_reads\<close> is the number of outstanding reads modulo the word size.
\<close>
theorem net_pending_counters:
  assumes "reach net_init (net_step prog) s"
  shows "m_pending_writes s = of_nat (count_if is_write (a_ops s)) \<and>
    count_if is_write (a_ops s) \<le> 1 \<and> m_pending_reads s = of_nat (count_if is_read (a_ops s))"
  using net.reach_one_write [OF assms] net_rd.reach_reads [OF assms] by simp

lemma net_pending_counters_witness:
  "m_pending_writes sample_closing = of_nat (count_if is_write (a_ops sample_closing)) \<and>
   count_if is_write (a_ops sample_closing) = 1"
  using net_pending_counters [OF reach_sample_closing] by (simp add: sample_closing_fields)

text \<open>
  C2: The operating system never sees a close, or a shutdown of the sending side, while a
  write of the socket is in flight: in the history of starts, completions and system calls
  of any reachable state, no such call falls between the start and the completion of a write.
\<close>
theorem net_close_waits_for_write:
  assumes "reach net_init (net_step prog) s"
  shows "quiet is_write cuts_writes 0 (a_trace s)"
  by (rule net.reach_quiet [OF assms])

lemma net_close_waits_for_write_witness:
  "quiet is_write cuts_writes 0 (a_trace sample_closing) \<and> a_ops sample_closing \<noteq> []"
  using net_close_waits_for_write [OF reach_sample_closing] by (simp add: sample_closing_fields)

text \<open>
  C25: A deferred close is never forgotten.  In every reachable state where
  \<open>m_close_pending\<close> is set a write is outstanding, and whatever the result of that write
  and whatever the Lua callbacks do, its completion handler either makes the two calls that
  close the socket (a shutdown of both sides followed by the close), or ends with the flag
  still set and another write outstanding, which a callback started in the meantime and to
  which the same applies.
\<close>
theorem net_deferred_close_has_a_write:
  assumes "reach net_init (net_step prog) s" and "m_close_pending s"
  shows "\<exists>r w. Op_Write r w \<in> set (a_ops s) \<and>
    (\<forall>d e n. let t = exec (net_handler (scripted Socket_methods prog) (Op_Write r w) e n)
         (net_arrive (Op_Write r w) d (take_op (Op_Write r w) s))
       in (\<exists>os1 os2. a_os t = a_os s @ os1 @ [Os_Shutdown Sd_Both, Os_Close] @ os2) \<or>
          (m_close_pending t \<and> (\<exists>r' w'. Op_Write r' w' \<in> set (a_ops t))))"
proof -
  have I: "net_inv True s" by (rule net.reach_inv [OF assms(1)])
  obtain r w where x: "Op_Write r w \<in> set (a_ops s)"
    by (rule net_inv_pending_write [OF I assms(2)])
  have "(\<exists>os1 os2. a_os t = a_os s @ os1 @ [Os_Shutdown Sd_Both, Os_Close] @ os2) \<or>
      (m_close_pending t \<and> (\<exists>r' w'. Op_Write r' w' \<in> set (a_ops t)))"
    if t: "t = exec (net_handler (scripted Socket_methods prog) (Op_Write r w) e n)
      (net_arrive (Op_Write r w) d (take_op (Op_Write r w) s))" for t d e n
  proof -
    have "net_inv True t"
      unfolding t by (rule net_inv_done [OF I x pres_net_scripted])
    moreover have "m_close_pending t \<or>
        (\<exists>os1 os2. a_os t = a_os s @ os1 @ [Os_Shutdown Sd_Both, Os_Close] @ os2)"
      unfolding t net_handler.simps
      by (rule HandleWrite_settles) (simp_all add: assms(2) take_op_def pres_since_scripted)
    ultimately show ?thesis by (metis net_inv_pending_write)
  qed
  with x show ?thesis unfolding Let_def by blast
qed

lemma net_deferred_close_has_a_write_witness:
  "\<exists>r w. Op_Write r w \<in> set (a_ops sample_closing)"
  using net_deferred_close_has_a_write [OF reach_sample_closing] sample_closing_fields by blast

text \<open>
  C3: The object a handler is bound to is alive when the handler runs: in every reachable
  state each outstanding operation's registry reference still holds the socket, and no two
  operations share a reference, so no handler can drop another one's.
\<close>
theorem net_handlers_have_their_object:
  assumes "reach net_init (net_step prog) s" and "x \<in> set (a_ops s)"
  shows "rt_reg s (op_ref x) = Some (LObj (a_self s)) \<and> distinct (map op_ref (a_ops s))"
proof -
  have "concat (map op_refs xs) = map op_ref xs" for xs
    by (induction xs) simp_all
  with net.reach_self_kept [OF assms] net.reach_refs_distinct [OF assms(1)] show ?thesis
    by (simp add: op_refs_def)
qed

lemma net_handlers_have_their_object_witness:
  "rt_reg sample_closing (op_ref (Op_Write 1 ''hi'')) = Some (LObj (a_self sample_closing)) \<and>
   distinct (map op_ref (a_ops sample_closing))"
  by (rule net_handlers_have_their_object [OF reach_sample_closing]) (simp add: sample_closing_fields)

text \<open>How a handler runs when the callback only returns: what it is called with.\<close>

lemma vm_call_pure:
  assumes "pure_callback lua" and "rt_stack s = xs @ f # args" and "n = length args"
  shows "rt_calls (exec (vm_call lua n) s) = rt_calls s @ [(f, args)]"
    "rt_reg (exec (vm_call lua n) s) = rt_reg s" "a_ops (exec (vm_call lua n) s) = a_ops s"
    "m_inputBuffer (exec (vm_call lua n) s) = m_inputBuffer s"
    "m_close_pending (exec (vm_call lua n) s) = m_close_pending s"
    "m_pending_writes (exec (vm_call lua n) s) = m_pending_writes s"
    "m_pending_reads (exec (vm_call lua n) s) = m_pending_reads s"
    "a_os (exec (vm_call lua n) s) = a_os s" "rt_objs (exec (vm_call lua n) s) = rt_objs s"
  using assms by (simp_all add: vm_call_def pure_callback_def Let_def)

lemma vm_call_pure_stack:
  assumes "pure_callback lua" and "rt_stack s = xs @ f # args" and "n = length args"
  shows "\<exists>res. rt_stack (exec (vm_call lua n) s) = xs @ res"
  using assms by (simp add: vm_call_def pure_callback_def Let_def)

lemmas handler_simps = exec_fetch_self exec_if exec_whenM lua_prim_defs Let_def push_input_def
  close_if_pending_def shutdown_if_pending_def ec_results_def

text \<open>
  A successful line read hands the callback the line with its delimiter, and keeps what
  follows in the buffer: the delivered string and the remaining buffer are together the
  bytes that were there, and the string ends with the delimiter.
\<close>
theorem net_read_line_delivers:
  assumes "pure_callback lua" and "rt_stack s = []" and "rt_reg s r = Some (LObj p)" and "0 < r"
    and "rt_objs s p ''read_callback'' = LFun f" and "\<not> m_close_pending s"
    and "net_completion s (Op_Read_Until r w) d Ok_Ec n"
  defines "t \<equiv> exec (net_handler lua (Op_Read_Until r w) Ok_Ec n)
    (net_arrive (Op_Read_Until r w) d (take_op (Op_Read_Until r w) s))"
  shows "\<exists>line. rt_calls t = rt_calls s @ [(LFun f, [LObj p, LStr (line @ w)])] \<and>
     (line @ w) @ m_inputBuffer t = m_inputBuffer s @ d \<and>
     m_pending_reads t = m_pending_reads s - 1"
proof -
  let ?buf = "m_inputBuffer s @ d"
  have n: "length w \<le> n \<and> n \<le> length ?buf \<and> take (length w) (drop (n - length w) ?buf) = w"
    using assms(7) by (simp only: net_completion.simps ec_fails.simps if_False)
  have t: "rt_calls t = rt_calls s @ [(LFun f, [LObj p, LStr (take n ?buf)])]"
    "m_inputBuffer t = drop n ?buf" "m_pending_reads t = m_pending_reads s - 1"
    using assms(1-6) unfolding t_def
    by (simp_all add: Socket_HandleReadDelimited_def take_op_def handler_simps
        vm_call_pure [where xs = "[LObj p]"])
  from n have e: "n - length w + length w = n" by simp
  have "take n ?buf = take (n - length w) ?buf @ take (length w) (drop (n - length w) ?buf)"
    unfolding take_add [symmetric] e ..
  moreover from n have "take (length w) (drop (n - length w) ?buf) = w" by blast
  ultimately have "take n ?buf = take (n - length w) ?buf @ w" by (simp only:)
  then show ?thesis
    using t append_take_drop_id [of n ?buf] by metis
qed

definition sample_reader :: net_socket where
  "sample_reader = sample_socket\<lparr>rt_reg := [3 \<mapsto> LObj 7], m_pending_reads := 1,
     rt_objs := (\<lambda>p k. if k = ''read_callback'' then LFun 1 else LNil), m_inputBuffer := ''ab''\<rparr>"

abbreviation quiet_callback :: "net_socket lua_fun" where
  "quiet_callback \<equiv> \<lambda>_ _. ret []"

lemma pure_quiet_callback: "pure_callback quiet_callback"
  by (simp add: pure_callback_def)

lemma net_read_line_delivers_witness:
  "\<exists>line. rt_calls (exec (net_handler quiet_callback (Op_Read_Until 3 ''X'') Ok_Ec 4)
     (net_arrive (Op_Read_Until 3 ''X'') ''cXd''
       (take_op (Op_Read_Until 3 ''X'') sample_reader))) = [(LFun 1, [LObj 7, LStr (line @ ''X'')])]"
  using net_read_line_delivers [OF pure_quiet_callback, of sample_reader 3 7 1 "''X''"
      "''cXd''" 4]
  by (auto simp: sample_reader_def sample_socket_def)

text \<open>
  \<open>read(n)\<close> with \<open>k\<close> bytes left in the buffer asks the system for \<open>n - k\<close> more and then
  delivers only \<open>n - k\<close> bytes: the handler takes the count of the new bytes for the size of
  the answer.
\<close>
theorem net_read_n_short:
  assumes "pure_callback lua" and "rt_stack s = [LObj p, LNum (int n)]" and "n < 2 ^ 63"
    and "0 < length (m_inputBuffer s)" and "length (m_inputBuffer s) < n"
    and "rt_objs s p ''read_callback'' = LFun f" and "\<not> m_close_pending s"
    and "r = le_newref (rt_env s) (rt_reg s)" and "0 < r"
    and "x = Op_Read r (Some (of_nat (n - length (m_inputBuffer s))))"
    and "length d = n - length (m_inputBuffer s)"
  defines "t \<equiv> exec Socket_Read s"
  defines "u \<equiv> exec (net_handler lua x Ok_Ec (length d)) (net_arrive x d (take_op x t)\<lparr>rt_stack := []\<rparr>)"
  shows "a_ops t = a_ops s @ [x] \<and>
    rt_calls u = rt_calls s @ [(LFun f, [LObj p, LStr (take (length d) (m_inputBuffer s @ d))])] \<and>
    length d < n \<and> length (m_inputBuffer u) = length (m_inputBuffer s)"
proof -
  let ?k = "length (m_inputBuffer s)"
  have lt: "\<not> (word_of_nat n :: 64 word) \<le> word_of_nat ?k"
    using assms(3,5) by (simp add: word_le_nat_alt unat_of_nat)
  have sub: "(word_of_nat n :: 64 word) - word_of_nat ?k = word_of_nat (n - ?k)"
    using assms(5) by (simp add: of_nat_diff)
  have t: "a_ops t = a_ops s @ [x]" "rt_calls t = rt_calls s" "m_inputBuffer t = m_inputBuffer s"
    "rt_reg t r = Some (LObj p)" "rt_objs t = rt_objs s" "m_close_pending t = m_close_pending s"
    using assms(2) lt unfolding t_def assms(8,10)
    by (simp_all add: Socket_Read_def meth_simps none_or_nil_def as_integer_def sub)
  show ?thesis
    using assms(1,4,5,6,7,9,11) t
    unfolding u_def assms(10)
    by (simp add: Socket_HandleReadSize_def take_op_def handler_simps
        vm_call_pure [where xs = "[LObj p]"])
qed

lemma net_read_n_short_witness:
  "rt_calls (exec (net_handler quiet_callback (Op_Read 1 (Some 3)) Ok_Ec 3)
     (net_arrive (Op_Read 1 (Some 3)) ''cde'' (take_op (Op_Read 1 (Some 3))
       (exec Socket_Read (sample_reader\<lparr>rt_reg := Map.empty, rt_stack := [LObj 7, LNum 5]\<rparr>)))
     \<lparr>rt_stack := []\<rparr>)) = [(LFun 1, [LObj 7, LStr ''abc''])]"
  using net_read_n_short [OF pure_quiet_callback,
      of "sample_reader\<lparr>rt_reg := Map.empty, rt_stack := [LObj 7, LNum 5]\<rparr>" 7 5 1 1
        "Op_Read 1 (Some 3)" "''cde''"]
  by (simp add: sample_reader_def sample_socket_def numeral_3_eq_3)

text \<open>
  A deferred close loses its callback when the object has no \<^verbatim>\<open>write_callback\<close>:
  \<open>HandleWrite\<close> leaves the failed lookup at stack index 2, where \<open>CallCloseCallback\<close> then
  looks for the close callback it pushed at index 3.  The socket is closed, nothing is called.
\<close>
theorem net_deferred_close_callback_lost:
  fixes lua :: "net_socket lua_fun" and n :: nat
  assumes "rt_stack s = []" and "rt_reg s r = Some (LObj p)" and "0 < r"
    and "rt_objs s p ''write_callback'' = LNil" and "rt_objs s p ''close_callback'' = LFun f"
    and "m_close_pending s" and "\<not> m_write_shutdown_pending s" and "m_pending_writes s = 1"
  defines "t \<equiv> exec (Socket_HandleWrite lua r Ok_Ec n) s"
  shows "rt_calls t = rt_calls s \<and> a_os t = a_os s @ [Os_Shutdown Sd_Both, Os_Close] \<and>
    \<not> m_close_pending t"
  using assms unfolding t_def
  by (simp add: Socket_HandleWrite_def Socket_CallCloseCallback_def handler_simps)

lemma net_deferred_close_callback_lost_witness:
  "rt_calls (exec (Socket_HandleWrite quiet_callback 3 Ok_Ec 2)
     (sample_reader\<lparr>rt_objs := (\<lambda>p k. if k = ''close_callback'' then LFun 2 else LNil),
       m_close_pending := True, m_pending_writes := 1\<rparr>)) = []"
  using net_deferred_close_callback_lost [of "sample_reader\<lparr>rt_objs :=
      (\<lambda>p k. if k = ''close_callback'' then LFun 2 else LNil),
      m_close_pending := True, m_pending_writes := 1\<rparr>" 3 7 2 quiet_callback 2]
  by (simp add: sample_reader_def sample_socket_def)

end
