(* ===== verification/Acceptor.thy ===== *)
theory Acceptor
  imports Net_Socket
begin

section \<open>Acceptors (\<^verbatim>\<open>src/luanode_net_acceptor.cpp\<close>)\<close>

text \<open>
  \<^verbatim>\<open>LuaNode::Net::Acceptor\<close>: the listening socket.  Each \<open>accept\<close> hands one operation to
  the system; its handler calls the object's callback with the new socket and the peer's
  address, or, when the peer's address can not be read any more, accepts again.

  The properties: every outstanding accept keeps the acceptor alive; what the callback
  receives; that a retry keeps exactly one accept outstanding; and what the retry leaves on
  the Lua stack that all handlers of the program share.
\<close>

subsection \<open>State and methods\<close>

datatype acceptor_call =
    Acc_Open tcp_kind | Acc_Close | Acc_Reuse_Address bool | Acc_Local_Endpoint
  | Acc_Parse_Address string | Acc_Bind string int | Acc_Listen int | Acc_Peer_Endpoint

datatype acceptor_op = Op_Accept int

record acceptor = "(acceptor_op, acceptor_call) async" +
  m_acceptorId :: "32 word"

record acceptor_globals =
  s_nextAcceptorId :: "64 word"
  s_acceptorCount :: "64 word"

definition GetAcceptorCount :: "acceptor_globals \<Rightarrow> 'a rt_scheme meth" where
  "GetAcceptorCount g = do { lua_push (LNum (sint (s_acceptorCount g))); ret_n 1 }"

definition Acceptor_ctor :: "acceptor_globals \<Rightarrow> acceptor \<Rightarrow> acceptor \<times> acceptor_globals" where
  "Acceptor_ctor g s = (let next = s_nextAcceptorId g + 1 in
     (s\<lparr>m_acceptorId := ucast next\<rparr>,
      g\<lparr>s_nextAcceptorId := next, s_acceptorCount := s_acceptorCount g + 1\<rparr>))"

definition Acceptor_dtor :: "bool \<Rightarrow> acceptor_globals \<Rightarrow> (acceptor, acceptor_globals) state" where
  "Acceptor_dtor is_open g = do {
     whenM is_open (do { _ \<leftarrow> os_call Acc_Close; ret () });
     ret (g\<lparr>s_acceptorCount := s_acceptorCount g - 1\<rparr>)
   }"

text \<open>\<^verbatim>\<open>EPROTONOSUPPORT\<close> has the value of the Linux headers.\<close>

definition EPROTONOSUPPORT :: int where "EPROTONOSUPPORT = 93"

definition Acceptor_Open :: "acceptor meth" where
  "Acceptor_Open = do {
     a \<leftarrow> luaL_checkstring 2;
     case a of Inl e \<Rightarrow> raise e | Inr kind \<Rightarrow>
       if kind = ''tcp4'' then do { e \<leftarrow> os_call (Acc_Open Tcp_V4); ret_ec e }
       else if kind = ''tcp6'' then do { e \<leftarrow> os_call (Acc_Open Tcp_V6); ret_ec e }
       else do {
         lua_push LNil;
         lua_push (LStr (''unknown protocol '' @ kind));
         lua_push (LNum EPROTONOSUPPORT);
         ret_n 3
       }
   }"

definition Acceptor_Close :: "acceptor meth" where
  "Acceptor_Close = do { e \<leftarrow> os_call Acc_Close; ret_ec e }"

definition invalid_argument :: ec where
  "invalid_argument = Err_Ec Invalid_Argument 22 ''Invalid argument''"

definition Acceptor_SetOption :: "acceptor meth" where
  "Acceptor_SetOption = do {
     a \<leftarrow> luaL_checkstring 2;
     case a of Inl e \<Rightarrow> raise e | Inr option \<Rightarrow>
       if option = ''reuseaddr'' then do {
         value \<leftarrow> lua_toboolean 3;
         e \<leftarrow> os_call (Acc_Reuse_Address value);
         ret_ec e
       }
       else ret_ec invalid_argument
   }"

text \<open>The message of the Lua error is the formatted \<^verbatim>\<open>message:value\<close>.\<close>

definition Acceptor_GetLocalAddress :: "acceptor meth" where
  "Acceptor_GetLocalAddress = do {
     r \<leftarrow> os_query Acc_Local_Endpoint;
     env \<leftarrow> gets rt_env;
     case r of (e, addr, port) \<Rightarrow>
       if \<not> ec_fails e then do { lua_push (LStr addr); lua_push (LNum port); ret_n 2 }
       else raise (Lua_Error (''Acceptor::GetLocalAddress - '' @ ec_message e @ '':'' @
         le_num2str env (ec_value e)))
   }"

definition Acceptor_Bind :: "acceptor meth" where
  "Acceptor_Bind = do {
     a \<leftarrow> luaL_checkstring 2;
     p \<leftarrow> luaL_checkinteger 3;
     case a of Inl e \<Rightarrow> raise e | Inr ip \<Rightarrow>
     (case p of Inl e \<Rightarrow> raise e | Inr n \<Rightarrow> do {
       pe \<leftarrow> os_call (Acc_Parse_Address ip);
       if ec_fails pe then ret_ec pe
       else do {
         e \<leftarrow> os_call (Acc_Bind ip (c_ushort n));
         ret_ec e
       }
     })
   }"

text \<open>\<open>max_connections\<close> is the default backlog of the system, \<^verbatim>\<open>SOMAXCONN\<close>.\<close>

definition Acceptor_Listen :: "int \<Rightarrow> acceptor meth" where
  "Acceptor_Listen max_connections = do {
     b \<leftarrow> luaL_optinteger 2 max_connections;
     case b of Inl e \<Rightarrow> raise e | Inr backlog \<Rightarrow> do {
       e \<leftarrow> os_call (Acc_Listen (c_int backlog));
       ret_ec e
     }
   }"

definition Acceptor_Accept :: "acceptor meth" where
  "Acceptor_Accept = do {
     reference \<leftarrow> ref_self;
     start_async (Op_Accept reference);
     ret_n 0
   }"

subsection \<open>The handler\<close>

text \<open>
  \<open>q\<close> names the userdata of the accepted socket.  The assertion that the callback is a
  function is compiled out of a release build.
\<close>

definition Acceptor_HandleAccept :: "acceptor lua_fun \<Rightarrow> nat \<Rightarrow> int \<Rightarrow> ec \<Rightarrow> (acceptor, unit) state" where
  "Acceptor_HandleAccept lua q reference error = do {
     fetch_self reference;
     lua_getfield 1 ''callback'';
     (if \<not> ec_fails error then do {
        r \<leftarrow> os_query Acc_Peer_Endpoint;
        (case r of (e, address, port) \<Rightarrow>
          if ec_fails e then do {
            lua_settop 1;
            _ \<leftarrow> Acceptor_Accept;
            ret ()
          }
          else do {
            lua_push LNil;
            lua_push (LTab []);
            peer \<leftarrow> lua_gettop;
            lua_push (LObj q);
            lua_setfield peer ''socket'';
            lua_push (LStr address);
            lua_setfield peer ''address'';
            lua_push (LNum port);
            lua_setfield peer ''port'';
            vm_call lua 2;
            lua_settop 0
          })
      }
      else do {
        n \<leftarrow> BoostErrorToCallback error;
        vm_call lua n;
        lua_settop 0
      })
   }"

datatype acceptor_method =
    Acc_open | Acc_close | Acc_setoption | Acc_getsockname | Acc_bind | Acc_listen | Acc_accept

fun Acceptor_methods :: "int \<Rightarrow> acceptor_method \<Rightarrow> acceptor meth" where
  "Acceptor_methods mc Acc_open = Acceptor_Open"
| "Acceptor_methods mc Acc_close = Acceptor_Close"
| "Acceptor_methods mc Acc_setoption = Acceptor_SetOption"
| "Acceptor_methods mc Acc_getsockname = Acceptor_GetLocalAddress"
| "Acceptor_methods mc Acc_bind = Acceptor_Bind"
| "Acceptor_methods mc Acc_listen = Acceptor_Listen mc"
| "Acceptor_methods mc Acc_accept = Acceptor_Accept"

subsection \<open>The acceptor as a state machine\<close>

inductive acceptor_step :: "int \<Rightarrow> (acceptor_method, acceptor) script \<Rightarrow> acceptor \<Rightarrow> acceptor \<Rightarrow> bool"
  for mc prog where
  acceptor_lua: "acceptor_step mc prog s (exec (run_acts (Acceptor_methods mc) acts) s)"
| acceptor_done: "Op_Accept r \<in> set (a_ops s) \<Longrightarrow>
    acceptor_step mc prog s (exec (Acceptor_HandleAccept (scripted (Acceptor_methods mc) prog) q r e)
      (take_op (Op_Accept r) s))"

inductive_cases acceptor_stepE: "acceptor_step mc prog s t"

definition acceptor_init :: "nat \<Rightarrow> acceptor \<Rightarrow> bool" where
  "acceptor_init p s \<longleftrightarrow> finite (dom (rt_reg s)) \<and> newref_ok (rt_env s) \<and> rt_stack s = [] \<and>
     a_ops s = [] \<and> a_trace s = [] \<and> a_self s = p"

fun accept_ref :: "acceptor_op \<Rightarrow> int" where
  "accept_ref (Op_Accept r) = r"

definition accept_refs :: "acceptor_op \<Rightarrow> int list" where
  "accept_refs x = [accept_ref x]"

lemma accept_refs_ref [simp]: "accept_refs x = [accept_ref x]"
  by (simp add: accept_refs_def)

text \<open>\<open>left_by_accept\<close>: the stack between two handlers.\<close>

definition accepts_live :: "nat \<Rightarrow> acceptor \<Rightarrow> bool" where
  "accepts_live p s \<longleftrightarrow> a_self s = p \<and> live_in accept_ref accept_refs (rt_env s) (rt_reg s) p (a_ops s)"

definition left_by_accept :: "nat \<Rightarrow> lval list \<Rightarrow> bool" where
  "left_by_accept p xs \<longleftrightarrow> xs = [] \<or> xs = [LObj p]"

definition acceptor_inv :: "nat \<Rightarrow> acceptor \<Rightarrow> bool" where
  "acceptor_inv p s \<longleftrightarrow> accepts_live p s \<and> left_by_accept p (rt_stack s)"

lemma call_free_accepts_live: "call_free (accepts_live p)"
  by (simp add: call_free_def stack_free_def accepts_live_def)

lemma stack_free_accepts_live: "stack_free (accepts_live p)"
  using call_free_accepts_live by (simp add: call_free_def)

lemma accepts_live_os [simp]: "accepts_live p (s\<lparr>a_os := x, a_trace := y\<rparr>) = accepts_live p s"
  by (simp add: accepts_live_def)

lemma pres_acceptor_call [pres_intros]:
  "pres (accepts_live p) (os_call c)" "pres (accepts_live p) (os_query c)"
  by (simp_all add: pres_def)

lemma accepts_live_Accept:
  assumes "accepts_live p s" and "rt_stack s = LObj p # args"
  shows "accepts_live p (exec Acceptor_Accept s)"
  using assms by (simp add: Acceptor_Accept_def exec_ref_self result_ref_self accepts_live_def live_in_start)

lemma pres_acceptor_methods:
  assumes "m \<noteq> Acc_accept"
  shows "pres (accepts_live p) (Acceptor_methods mc m)"
proof -
  note defs = Acceptor_Open_def Acceptor_Close_def Acceptor_SetOption_def
    Acceptor_GetLocalAddress_def Acceptor_Bind_def Acceptor_Listen_def
  note intros = pres_intros stack_free_accepts_live
  show ?thesis
    using assms by (cases m) (auto simp only: Acceptor_methods.simps defs intro!: intros)
qed

lemma pres_acceptor_act: "pres (accepts_live p) (run_act (Acceptor_methods mc) x)"
proof (rule pres_run_act)
  show "accepts_live p (exec (Acceptor_methods mc m) s)"
    if "accepts_live p s" "rt_stack s = LObj (a_self s) # args" for m s args
  proof (cases "m = Acc_accept")
    case True
    have "a_self s = p" using that(1) by (simp add: accepts_live_def)
    with True that show ?thesis by (simp add: accepts_live_Accept)
  next
    case False
    from presD [OF pres_acceptor_methods [OF this] that(1)] show ?thesis .
  qed
qed (auto simp: accepts_live_def live_in_ref stack_free_accepts_live)

lemma pres_acceptor_scripted: "pres (accepts_live p) (scripted (Acceptor_methods mc) prog f args)"
  by (rule pres_scripted [OF pres_acceptor_act])

text \<open>The handler as one of three cases: retry, deliver, report an error.\<close>

lemma accepts_live_fetch:
  assumes "accepts_live p s" and "Op_Accept r \<in> set (a_ops s)" and "left_by_accept p (rt_stack s)"
  shows "accepts_live p (exec (fetch_self r) (take_op (Op_Accept r) s))"
    and "\<exists>args. rt_stack (exec (fetch_self r) (take_op (Op_Accept r) s)) = LObj p # args"
proof -
  have live: "live_in accept_ref accept_refs (rt_env s) (rt_reg s) p (a_ops s)"
    using assms(1) by (simp add: accepts_live_def)
  have r: "0 < r" "rt_reg s r = Some (LObj p)"
    using live_inD(2,3) [OF live assms(2)] by simp_all
  from r assms live_in_complete1 [OF live assms(2)]
  show "accepts_live p (exec (fetch_self r) (take_op (Op_Accept r) s))"
    by (simp add: exec_fetch_self take_op_def accepts_live_def)
  show "\<exists>args. rt_stack (exec (fetch_self r) (take_op (Op_Accept r) s)) = LObj p # args"
    using r assms(3) by (auto simp: exec_fetch_self take_op_def left_by_accept_def)
qed

lemma exec_getfield_top:
  "exec (lua_getfield (Suc 0) k) s = s\<lparr>rt_stack := rt_stack s @ [field_of (rt_objs s) (stack_at (rt_stack s) (Suc 0)) k]\<rparr>"
  by (simp add: lua_getfield_def)

definition accept_deliver :: "acceptor lua_fun \<Rightarrow> nat \<Rightarrow> string \<Rightarrow> int \<Rightarrow> (acceptor, unit) state" where
  "accept_deliver lua q address port = do {
     lua_push LNil;
     lua_push (LTab []);
     peer \<leftarrow> lua_gettop;
     lua_push (LObj q);
     lua_setfield peer ''socket'';
     lua_push (LStr address);
     lua_setfield peer ''address'';
     lua_push (LNum port);
     lua_setfield peer ''port'';
     vm_call lua 2;
     lua_settop 0
   }"

definition accept_fail :: "acceptor lua_fun \<Rightarrow> ec \<Rightarrow> (acceptor, unit) state" where
  "accept_fail lua error = do {
     n \<leftarrow> BoostErrorToCallback error;
     vm_call lua n;
     lua_settop 0
   }"

lemma stack_accept_ends:
  "rt_stack (exec (accept_deliver lua q a n) s) = []" "rt_stack (exec (accept_fail lua e) s) = []"
  by (simp_all add: accept_deliver_def accept_fail_def lua_settop_def)

lemma pres_accept_ends:
  assumes "call_free I" and "\<And>f args. pres I (lua f args)"
  shows "pres I (accept_deliver lua q a n)" "pres I (accept_fail lua e)"
proof -
  have "stack_free I" using assms(1) by (simp add: call_free_def)
  then show "pres I (accept_deliver lua q a n)" "pres I (accept_fail lua e)"
    unfolding accept_deliver_def accept_fail_def by (intro pres_intros assms; assumption)+
qed

lemma exec_HandleAccept:
  fixes s :: acceptor and r :: int
  defines "s1 \<equiv> exec (lua_getfield (Suc 0) ''callback'') (exec (fetch_self r) s)"
  defines "s2 \<equiv> exec (os_call Acc_Peer_Endpoint) s1"
  defines "a \<equiv> a_addr s1 (a_os s1) Acc_Peer_Endpoint"
  shows "exec (Acceptor_HandleAccept lua q r e) s =
    (if e \<noteq> Ok_Ec then exec (accept_fail lua e) s1
     else if a_ec s1 (a_os s1) Acc_Peer_Endpoint \<noteq> Ok_Ec
     then exec Acceptor_Accept (exec (lua_settop 1) s2)
     else exec (accept_deliver lua q (fst a) (snd a)) s2)"
  by (simp add: Acceptor_HandleAccept_def accept_fail_def accept_deliver_def exec_if exec_case_prod
      a_def s2_def flip: s1_def)

lemma acceptor_inv_HandleAccept:
  assumes "acceptor_inv p s" and "Op_Accept r \<in> set (a_ops s)"
    and lua: "\<And>f args. pres (accepts_live p) (lua f args)"
  shows "acceptor_inv p (exec (Acceptor_HandleAccept lua q r e) (take_op (Op_Accept r) s))"
proof -
  define s1 where "s1 = exec (lua_getfield (Suc 0) ''callback'')
    (exec (fetch_self r) (take_op (Op_Accept r) s))"
  have inv: "accepts_live p s" "left_by_accept p (rt_stack s)"
    using assms(1) by (simp_all add: acceptor_inv_def)
  have s1: "accepts_live p s1"
    unfolding s1_def using accepts_live_fetch(1) [OF inv(1) assms(2) inv(2)]
    by (simp add: exec_getfield_top stack_freeD [OF stack_free_accepts_live])
  obtain args where args: "rt_stack s1 = LObj p # args"
    unfolding s1_def using accepts_live_fetch(2) [OF inv(1) assms(2) inv(2)]
    by (auto simp: exec_getfield_top)
  have s2: "accepts_live p (exec (os_call Acc_Peer_Endpoint) s1)" using s1 by simp
  have ends: "acceptor_inv p (exec (accept_deliver lua q a n) s')" "acceptor_inv p (exec (accept_fail lua e) s')"
    if "accepts_live p s'" for a n e s'
    using presD [OF pres_accept_ends(1) [OF call_free_accepts_live lua] that]
      presD [OF pres_accept_ends(2) [OF call_free_accepts_live lua] that]
    by (simp_all add: acceptor_inv_def stack_accept_ends left_by_accept_def)
  define s3 where "s3 = exec (lua_settop 1) (exec (os_call Acc_Peer_Endpoint) s1)"
  have s3: "accepts_live p s3" "rt_stack s3 = [LObj p]"
    using s2 args by (simp_all add: s3_def lua_settop_def accepts_live_def)
  have "rt_stack (exec Acceptor_Accept s3) = [LObj p]"
    using s3(2) by (simp add: Acceptor_Accept_def exec_ref_self)
  then have retry: "acceptor_inv p (exec Acceptor_Accept s3)"
    using accepts_live_Accept [OF s3] by (simp add: acceptor_inv_def left_by_accept_def)
  show ?thesis
    unfolding exec_HandleAccept s1_def [symmetric] s3_def [symmetric]
    using ends(2) [OF s1] ends(1) [OF s2] retry by (simp only: split: if_split) blast
qed

lemma acceptor_inv_step:
  assumes "acceptor_inv p s" and "acceptor_step mc prog s t"
  shows "acceptor_inv p t"
  using assms(2)
proof (rule acceptor_stepE)
  fix acts assume "t = exec (run_acts (Acceptor_methods mc) acts) s"
  then show ?thesis
    using assms(1) presD [OF pres_run_acts [OF pres_acceptor_act]]
    by (simp add: acceptor_inv_def stack_run_acts)
next
  fix r q e
  assume "t = exec (Acceptor_HandleAccept (scripted (Acceptor_methods mc) prog) q r e)
      (take_op (Op_Accept r) s)" "Op_Accept r \<in> set (a_ops s)"
  then show ?thesis
    using acceptor_inv_HandleAccept [OF assms(1) _ pres_acceptor_scripted] by simp
qed

interpretation acc: async_object "acceptor_init p" "acceptor_step mc prog" "acceptor_inv p"
  accept_ref accept_refs for p mc prog
proof
  show "acceptor_inv p s" if "acceptor_init p s" for s
    using that by (simp add: acceptor_init_def acceptor_inv_def accepts_live_def live_in_def left_by_accept_def)
  show "acceptor_inv p t" if "acceptor_inv p s" "acceptor_step mc prog s t" for s t
    using acceptor_inv_step [OF that] .
  show "live accept_ref accept_refs s" if "acceptor_inv p s" for s
    using that by (simp add: acceptor_inv_def accepts_live_def live_def)
qed

subsection \<open>Properties\<close>

definition sample_acceptor :: acceptor where
  "sample_acceptor = \<lparr>rt_env = sample_env, rt_stack = [], rt_reg = Map.empty,
     rt_objs = (\<lambda>_ k. if k = ''callback'' then LFun 1 else LNil), rt_calls = [], a_self = 7,
     a_ops = [], a_os = [], a_trace = [], a_ec = (\<lambda>_ _. Ok_Ec), a_addr = (\<lambda>_ _. (''10.0.0.9'', 80)),
     m_acceptorId = 1\<rparr>"

definition sample_accepting :: acceptor where
  "sample_accepting = exec (run_acts (Acceptor_methods 128)
     [Invoke Acc_listen [], Invoke Acc_accept []]) sample_acceptor"

lemma sample_accepting_fields:
  "a_ops sample_accepting = [Op_Accept 1]" "rt_reg sample_accepting 1 = Some (LObj 7)"
  "rt_stack sample_accepting = []" "a_os sample_accepting = [Acc_Listen 128]"
  by (simp_all add: sample_accepting_def sample_acceptor_def thunk_methods_def Acceptor_Listen_def
      Acceptor_Accept_def meth_simps none_or_nil_def c_int_def)

lemma reach_sample_accepting:
  "reach (acceptor_init 7) (acceptor_step 128 prog) sample_accepting"
proof -
  have "acceptor_init 7 sample_acceptor"
    by (simp add: acceptor_init_def sample_acceptor_def newref_ok_sample)
  then show ?thesis
    unfolding sample_accepting_def by (rule reach_step [OF reach_init]) (rule acceptor_lua)
qed

text \<open>
  C33: Whatever Lua code does with an acceptor and whatever the system answers, every
  outstanding accept holds a registry reference of its own to the acceptor, so its handler
  runs on a live object; and between two handlers the shared Lua stack holds at most the
  acceptor that an earlier retry left there.
\<close>
theorem acceptor_accepts_live:
  assumes "reach (acceptor_init p) (acceptor_step mc prog) s" and "Op_Accept r \<in> set (a_ops s)"
  shows "rt_reg s r = Some (LObj p) \<and> distinct (map accept_ref (a_ops s)) \<and>
    left_by_accept p (rt_stack s)"
proof -
  have inv: "acceptor_inv p s" by (rule acc.reach_inv [OF assms(1)])
  have "concat (map accept_refs xs) = map accept_ref xs" for xs by (induction xs) simp_all
  with inv acc.reach_self_kept [OF assms] acc.reach_refs_distinct [OF assms(1)]
  show ?thesis by (simp add: acceptor_inv_def accepts_live_def)
qed

lemma acceptor_accepts_live_witness:
  "rt_reg sample_accepting 1 = Some (LObj 7) \<and> left_by_accept 7 (rt_stack sample_accepting)"
  using acceptor_accepts_live [OF reach_sample_accepting, of 1] by (simp add: sample_accepting_fields)

text \<open>
  A completed accept calls the callback once, with nil and a table of the new socket and
  the address and port of the peer, starts no other accept, and leaves the stack empty.
\<close>
theorem acceptor_delivers:
  fixes q :: nat
  assumes "pure_callback lua" and "rt_stack s = []" and "rt_reg s r = Some (LObj p)" and "0 < r"
    and "rt_objs s p ''callback'' = LFun f" and "a_ec s (a_os s) Acc_Peer_Endpoint = Ok_Ec"
    and "a_addr s (a_os s) Acc_Peer_Endpoint = (address, port)"
  defines "t \<equiv> exec (Acceptor_HandleAccept lua q r Ok_Ec) s"
  shows "rt_calls t = rt_calls s @ [(LFun f, [LNil, LTab [(LStr ''socket'', LObj q),
      (LStr ''address'', LStr address), (LStr ''port'', LNum port)]])] \<and>
    a_ops t = a_ops s \<and> rt_stack t = [] \<and> rt_reg t = (rt_reg s)(r := None)"
  using assms unfolding t_def exec_HandleAccept
  by (simp add: accept_deliver_def exec_fetch_self lua_prim_defs vm_call_def pure_callback_def Let_def)

lemma acceptor_delivers_witness:
  "rt_calls (exec (Acceptor_HandleAccept (\<lambda>_ _. ret []) 9 1 Ok_Ec) (sample_acceptor\<lparr>rt_reg := [1 \<mapsto> LObj 7]\<rparr>)) =
     [(LFun 1, [LNil, LTab [(LStr ''socket'', LObj 9), (LStr ''address'', LStr ''10.0.0.9''),
       (LStr ''port'', LNum 80)]])]"
  using acceptor_delivers [of "\<lambda>_ _. ret []" "sample_acceptor\<lparr>rt_reg := [1 \<mapsto> LObj 7]\<rparr>" 1 7 1
      "''10.0.0.9''" 80 9]
  by (simp add: sample_acceptor_def pure_callback_def)

text \<open>
  A connection that is gone before its address can be read is skipped: the callback does
  not run and exactly one new accept is outstanding, with a reference that keeps the
  acceptor alive.
\<close>
theorem acceptor_retries:
  fixes lua :: "acceptor lua_fun" and q :: nat
  assumes "rt_stack s = []" and "rt_reg s r = Some (LObj p)" and "0 < r"
    and "a_ec s (a_os s) Acc_Peer_Endpoint \<noteq> Ok_Ec"
  defines "t \<equiv> exec (Acceptor_HandleAccept lua q r Ok_Ec) s"
  shows "rt_calls t = rt_calls s \<and>
    (\<exists>k. a_ops t = a_ops s @ [Op_Accept k] \<and> rt_reg t k = Some (LObj p))"
  using assms unfolding t_def exec_HandleAccept
  by (simp add: Acceptor_Accept_def exec_fetch_self lua_getfield_def lua_settop_def exec_ref_self
      result_ref_self)

lemma acceptor_retries_witness:
  "\<exists>k. a_ops (exec (Acceptor_HandleAccept (\<lambda>_ _. ret []) 9 1 Ok_Ec)
     (sample_acceptor\<lparr>rt_reg := [1 \<mapsto> LObj 7], a_ec := (\<lambda>_ _. Err_Ec Not_Connected 107 ''gone'')\<rparr>)) =
     [Op_Accept k]"
  using acceptor_retries [of "sample_acceptor\<lparr>rt_reg := [1 \<mapsto> LObj 7],
      a_ec := (\<lambda>_ _. Err_Ec Not_Connected 107 ''gone'')\<rparr>" 1 7 "\<lambda>_ _. ret []" 9]
  by (auto simp: sample_acceptor_def)

text \<open>
  The retry returns with the acceptor still on the Lua stack, and all handlers share that
  stack and take stack index 1 for their object.  So the connect event of a socket that
  completes next is lost: its handler looks the callback up in the acceptor and calls nothing.
\<close>
theorem acceptor_retry_loses_next_event:
  fixes s :: acceptor and n :: net_socket and lua :: "acceptor lua_fun" and q :: nat
  assumes "rt_stack s = []" and "rt_reg s r = Some (LObj p)" and "0 < r"
    and "a_ec s (a_os s) Acc_Peer_Endpoint \<noteq> Ok_Ec"
  defines "t \<equiv> exec (Acceptor_HandleAccept lua q r Ok_Ec) s"
  assumes "rt_stack n = rt_stack t" and "rt_reg n k = Some (LObj m)" and "0 < k"
    and "rt_objs n m ''connect_callback'' = LFun f"
  shows "rt_stack t = [LObj p] \<and>
    rt_calls (exec (Socket_HandleConnect netlua k e) n) = rt_calls n"
proof -
  have t: "rt_stack t = [LObj p]"
    using assms(1-4) unfolding t_def exec_HandleAccept
    by (simp add: Acceptor_Accept_def exec_fetch_self lua_getfield_def lua_settop_def exec_ref_self)
  then show ?thesis
    using assms(6-9)
    by (simp add: Socket_HandleConnect_def exec_fetch_self lua_prim_defs exec_whenM)
qed

lemma acceptor_retry_loses_next_event_witness:
  "rt_calls (exec (Socket_HandleConnect quiet_callback 3 Ok_Ec)
     (sample_socket\<lparr>rt_stack := [LObj 7], rt_reg := [3 \<mapsto> LObj 8],
       rt_objs := (\<lambda>_ k. if k = ''connect_callback'' then LFun 1 else LNil)\<rparr>)) = []"
proof -
  let ?s = "sample_acceptor\<lparr>rt_reg := [1 \<mapsto> LObj 7], a_ec := (\<lambda>_ _. Err_Ec Not_Connected 107 ''gone'')\<rparr>"
  have "rt_stack (exec (Acceptor_HandleAccept (\<lambda>_ _. ret []) 9 1 Ok_Ec) ?s) = [LObj 7]"
    by (simp add: exec_HandleAccept Acceptor_Accept_def exec_fetch_self lua_getfield_def
        lua_settop_def exec_ref_self sample_acceptor_def)
  then show ?thesis
    using acceptor_retry_loses_next_event [of ?s 1 7 "sample_socket\<lparr>rt_stack := [LObj 7],
        rt_reg := [3 \<mapsto> LObj 8], rt_objs := (\<lambda>_ k. if k = ''connect_callback'' then LFun 1 else LNil)\<rparr>"
        "\<lambda>_ _. ret []" 9 3 8 1 quiet_callback Ok_Ec]
    by (simp add: sample_acceptor_def sample_socket_def)
qed

end
