(* ===== verification/Datagram_Socket.thy ===== *)
theory Datagram_Socket
  imports Async_Op
begin

section \<open>UDP sockets (\<^verbatim>\<open>src/luanode_datagram_udp.cpp\<close>, \<^verbatim>\<open>src/luanode_datagram_udp.h\<close>)\<close>

text \<open>
  \<^verbatim>\<open>LuaNode::Datagram::Socket\<close>: fields, methods and handlers, as for the TCP socket.  A
  send holds two registry references, the socket's and the callback's.  \<open>HandleRead\<close> is
  translated although nothing in the source starts the read it belongs to.

  The properties: one send at a time, counted by \<open>m_pending_writes\<close>; live references; no
  close or send shutdown during a send; what the methods answer; and that a read with a
  non-numeric argument counts a read that was never started, which then blocks every
  deferred close.
\<close>

subsection \<open>State\<close>

datatype udp_call =
    Udp_Parse_Address string | Udp_Bind "string option" int
  | Udp_Shutdown_Receive | Udp_Shutdown_Send | Udp_Shutdown_Both | Udp_Close
  | Udp_Broadcast bool | Udp_Ttl int | Udp_Remote_Endpoint | Udp_Local_Endpoint

datatype udp_op =
    Op_Send int int string string int
  | Op_Receive int
  | Op_Udp_Connect int string int

record udp_socket = "(udp_op, udp_call) async" +
  m_close_pending :: bool
  m_write_shutdown_pending :: bool
  m_pending_writes :: "64 word"
  m_pending_reads :: "64 word"
  m_inputBuffer :: string
  m_inputArray :: string

type_synonym 'r udp = "(udp_socket, 'r) state"

subsection \<open>Construction\<close>

record udp_globals =
  s_nextSocketId :: "64 word"
  s_socketCount :: "64 word"

datatype udp_kind = Udp_V4 | Udp_V6

text \<open>
  The constructor knows two kinds; any other string leaves \<^verbatim>\<open>m_socket\<close> a null pointer
  (\<open>None\<close>).
\<close>

definition UdpSocket_ctor :: "(udp_kind \<Rightarrow> ec) \<Rightarrow> lua_env \<Rightarrow> lval list \<Rightarrow> udp_globals \<Rightarrow>
    (lua_error + udp_kind option \<times> 32 word) \<times> udp_globals" where
  "UdpSocket_ctor open_ec env args g = (
     let g' = g\<lparr>s_nextSocketId := s_nextSocketId g + 1, s_socketCount := s_socketCount g + 1\<rparr>;
         m_socketId = ucast (s_nextSocketId g')
     in case as_string env (stack_at args 1) of
          None \<Rightarrow> (Inl (Arg_Error 1), g')
        | Some kind \<Rightarrow>
            if kind = ''udp4'' then
              (if ec_fails (open_ec Udp_V4) then (Inl (Cpp_Error (open_ec Udp_V4)), g')
               else (Inr (Some Udp_V4, m_socketId), g'))
            else if kind = ''udp6'' then
              (if ec_fails (open_ec Udp_V6) then (Inl (Cpp_Error (open_ec Udp_V6)), g')
               else (Inr (Some Udp_V6, m_socketId), g'))
            else (Inr (None, m_socketId), g'))"

definition UdpSocket_dtor :: "udp_globals \<Rightarrow> udp_globals" where
  "UdpSocket_dtor g = g\<lparr>s_socketCount := s_socketCount g - 1\<rparr>"

subsection \<open>Methods\<close>

definition Udp_GetRemoteAddress :: "udp_socket meth" where
  "Udp_GetRemoteAddress = do {
     r \<leftarrow> os_query Udp_Remote_Endpoint;
     env \<leftarrow> gets rt_env;
     (case r of (e, addr, port) \<Rightarrow>
       if ec_fails e then do { lua_push LNil; lua_push (LStr (le_what env e)) }
       else do { lua_push (LStr addr); lua_push (LNum port) });
     ret_n 2
   }"

definition Udp_GetLocalAddress :: "udp_socket meth" where
  "Udp_GetLocalAddress = do {
     r \<leftarrow> os_query Udp_Local_Endpoint;
     env \<leftarrow> gets rt_env;
     (case r of (e, addr, port) \<Rightarrow>
       if ec_fails e then do { lua_push LNil; lua_push (LStr (le_what env e)) }
       else do { lua_push (LStr addr); lua_push (LNum port) });
     ret_n 2
   }"

definition Udp_SetOption :: "udp_socket meth" where
  "Udp_SetOption = do {
     name \<leftarrow> luaL_checkstring 2;
     chosen \<leftarrow> luaL_checkoption 2 (Some ''no_option'') [''broadcast'', ''ttl'', ''no_option''];
     case name of Inl e \<Rightarrow> raise e | Inr _ \<Rightarrow>
     (case chosen of Inl e \<Rightarrow> raise e | Inr chosen_option \<Rightarrow>
       if chosen_option = 0 then do {
         value \<leftarrow> lua_toboolean 3;
         e \<leftarrow> os_call (Udp_Broadcast value);
         ret_ec e
       }
       else if chosen_option = 1 then do {
         a \<leftarrow> luaL_checkinteger 4;
         case a of Inl e \<Rightarrow> raise e
         | Inr newttl \<Rightarrow> do {
             e \<leftarrow> os_call (Udp_Ttl (c_int newttl));
             if ec_fails e then raise (Lua_Error ''Failed to set TTL on native socket'')
             else ret_n 0
           }
       }
       else ret_n 0)
   }"

definition Udp_Bind_method :: "udp_socket meth" where
  "Udp_Bind_method = do {
     no_port \<leftarrow> lua_isnoneornil 3;
     number \<leftarrow> lua_isnumber 2;
     if no_port \<and> number then do {
       p \<leftarrow> luaL_checkinteger 2;
       case p of Inl e \<Rightarrow> raise e
       | Inr port \<Rightarrow> do { e \<leftarrow> os_call (Udp_Bind None (c_ushort port)); ret_ec e }
     }
     else do {
       a \<leftarrow> luaL_checkstring 2;
       p \<leftarrow> luaL_checkinteger 3;
       case a of Inl e \<Rightarrow> raise e | Inr ip \<Rightarrow>
       (case p of Inl e \<Rightarrow> raise e | Inr port \<Rightarrow> do {
         pe \<leftarrow> os_call (Udp_Parse_Address ip);
         if ec_fails pe then raise (Cpp_Error pe)
         else do { e \<leftarrow> os_call (Udp_Bind (Some ip) (c_ushort port)); ret_ec e }
       })
     }
   }"

definition Udp_Close_method :: "udp_socket meth" where
  "Udp_Close_method = do {
     pw \<leftarrow> gets m_pending_writes;
     if pw \<noteq> 0 then do {
       modify (\<lambda>s. s\<lparr>m_close_pending := True\<rparr>);
       lua_push (LBool True);
       ret_n 1
     }
     else do {
       _ \<leftarrow> os_call Udp_Shutdown_Both;
       e \<leftarrow> os_call Udp_Close;
       ret_ec e
     }
   }"

definition udp_shutdown_send :: "ec udp" where
  "udp_shutdown_send = do {
     pw \<leftarrow> gets m_pending_writes;
     if 0 < pw then do {
       modify (\<lambda>s. s\<lparr>m_write_shutdown_pending := True\<rparr>);
       ret Ok_Ec
     }
     else os_call Udp_Shutdown_Send
   }"

definition Udp_Shutdown :: "udp_socket meth" where
  "Udp_Shutdown = do {
     t \<leftarrow> lua_type 2;
     chosen \<leftarrow> (if t = TString
       then luaL_checkoption 2 (Some ''no_option'') [''read'', ''write'', ''both'', ''no_option'']
       else ret (Inr 2));
     case chosen of Inl e \<Rightarrow> raise e
     | Inr chosen_option \<Rightarrow> do {
         e \<leftarrow> (if chosen_option = 0 then os_call Udp_Shutdown_Receive
            else if chosen_option = 1 then udp_shutdown_send
            else if chosen_option = 2 then do {
              _ \<leftarrow> udp_shutdown_send;
              os_call Udp_Shutdown_Receive
            }
            else ret Ok_Ec);
         ret_ec e
       }
   }"

text \<open>\<open>sendto(self, buf, off, len, flags, port, address, [callback])\<close>.\<close>

definition Udp_SendTo :: "udp_socket meth" where
  "Udp_SendTo = do {
     pw \<leftarrow> gets m_pending_writes;
     if 0 < pw then do { lua_push (LBool False); ret_n 1 }
     else do {
       p \<leftarrow> luaL_checkinteger 6;
       a \<leftarrow> luaL_checkstring 7;
       case p of Inl e \<Rightarrow> raise e | Inr port \<Rightarrow>
       (case a of Inl e \<Rightarrow> raise e | Inr address \<Rightarrow> do {
         pe \<leftarrow> os_call (Udp_Parse_Address address);
         if ec_fails pe then raise (Cpp_Error pe)
         else do {
           reference \<leftarrow> ref_self;
           nocb \<leftarrow> lua_isnoneornil 8;
           callback \<leftarrow> (if \<not> nocb then do { lua_pushvalue 8; luaL_ref } else ret LUA_NOREF);
           t \<leftarrow> lua_type 2;
           if t = TString then do {
             d \<leftarrow> lua_tostring 2;
             modify (\<lambda>s. s\<lparr>m_pending_writes := m_pending_writes s + 1\<rparr>);
             start_async (Op_Send reference callback d address (c_ushort port));
             lua_push (LBool True);
             ret_n 1
           }
           else raise (Lua_Error ''Socket::Write, unhandled type'')
         }
       })
     }
   }"

definition Udp_Read :: "udp_socket meth" where
  "Udp_Read = do {
     reference \<leftarrow> ref_self;
     nothing \<leftarrow> lua_isnoneornil 2;
     number \<leftarrow> lua_isnumber 2;
     if nothing then do {
       modify (\<lambda>s. s\<lparr>m_pending_reads := m_pending_reads s + 1\<rparr>);
       start_async (Op_Receive reference);
       ret_n 0
     }
     else if \<not> number then do {
       modify (\<lambda>s. s\<lparr>m_pending_reads := m_pending_reads s + 1\<rparr>);
       ret_n 0
     }
     else raise (Lua_Error ''for the moment the read must be done with nil or a number'')
   }"

definition Udp_Connect :: "udp_socket meth" where
  "Udp_Connect = do {
     a \<leftarrow> luaL_checkstring 2;
     p \<leftarrow> luaL_checkinteger 3;
     case a of Inl e \<Rightarrow> raise e | Inr ip \<Rightarrow>
     (case p of Inl e \<Rightarrow> raise e | Inr port \<Rightarrow> do {
       pe \<leftarrow> os_call (Udp_Parse_Address ip);
       if ec_fails pe then raise (Cpp_Error pe)
       else do {
         reference \<leftarrow> ref_self;
         start_async (Op_Udp_Connect reference ip (c_ushort port));
         lua_push (LBool True);
         ret_n 1
       }
     })
   }"

subsection \<open>Handlers\<close>

definition udp_close_when_idle :: "unit udp" where
  "udp_close_when_idle = do {
     c \<leftarrow> gets (\<lambda>s. m_close_pending s \<and> m_pending_writes s = 0 \<and> m_pending_reads s = 0);
     whenM c (do { _ \<leftarrow> os_call Udp_Close; ret () })
   }"

definition Udp_HandleSendTo :: "udp_socket lua_fun \<Rightarrow> int \<Rightarrow> int \<Rightarrow> ec \<Rightarrow> nat \<Rightarrow> unit udp" where
  "Udp_HandleSendTo lua reference callback error bytes_transferred = do {
     fetch_self reference;
     whenM (callback \<noteq> LUA_NOREF) (fetch_self callback);
     modify (\<lambda>s. s\<lparr>m_pending_writes := m_pending_writes s - 1\<rparr>);
     (if \<not> ec_fails error then do {
        t \<leftarrow> lua_type 2;
        whenM (t = TFunction) (do { lua_pushvalue 1; vm_call lua 1 })
      }
      else do {
        t \<leftarrow> lua_type 2;
        whenM (t = TFunction) (do {
          lua_pushvalue 1; _ \<leftarrow> BoostErrorCodeToLua error; vm_call lua 4 })
      });
     lua_settop 0;
     sp \<leftarrow> gets (\<lambda>s. m_write_shutdown_pending s \<and> m_pending_writes s = 0);
     whenM sp (do { _ \<leftarrow> os_call Udp_Shutdown_Send; ret () });
     udp_close_when_idle
   }"

definition Udp_HandleRead :: "udp_socket lua_fun \<Rightarrow> int \<Rightarrow> ec \<Rightarrow> nat \<Rightarrow> unit udp" where
  "Udp_HandleRead lua reference error bytes_transferred = do {
     fetch_self reference;
     modify (\<lambda>s. s\<lparr>m_pending_reads := m_pending_reads s - 1\<rparr>);
     lua_getfield 1 ''read_callback'';
     t \<leftarrow> lua_type 2;
     whenM (t = TFunction) (do {
       lua_pushvalue 1;
       (if \<not> ec_fails error then do {
          b \<leftarrow> gets m_inputBuffer;
          lua_push (LStr b);
          modify (\<lambda>s. s\<lparr>m_inputBuffer := []\<rparr>);
          vm_call lua 2
        }
        else do {
          _ \<leftarrow> BoostErrorCodeToLua error;
          vm_call lua 4;
          modify (\<lambda>s. s\<lparr>m_inputBuffer := []\<rparr>)
        })
     });
     lua_settop 0;
     udp_close_when_idle
   }"

definition Udp_HandleReceive :: "udp_socket lua_fun \<Rightarrow> int \<Rightarrow> ec \<Rightarrow> nat \<Rightarrow> unit udp" where
  "Udp_HandleReceive lua reference error bytes_transferred = do {
     fetch_self reference;
     modify (\<lambda>s. s\<lparr>m_pending_reads := m_pending_reads s - 1\<rparr>);
     lua_getfield 1 ''read_callback'';
     t \<leftarrow> lua_type 2;
     whenM (t = TFunction) (do {
       lua_pushvalue 1;
       (if \<not> ec_fails error then do {
          data \<leftarrow> gets m_inputArray;
          lua_push (LStr (take bytes_transferred data));
          vm_call lua 2
        }
        else do { _ \<leftarrow> BoostErrorCodeToLua error; vm_call lua 4 })
     });
     lua_settop 0;
     udp_close_when_idle
   }"

definition Udp_HandleConnect :: "udp_socket lua_fun \<Rightarrow> int \<Rightarrow> ec \<Rightarrow> unit udp" where
  "Udp_HandleConnect lua reference error = do {
     fetch_self reference;
     lua_getfield 1 ''connect_callback'';
     t \<leftarrow> lua_type 2;
     whenM (t = TFunction) (do {
       lua_pushvalue 1;
       (if \<not> ec_fails error then do { lua_push (LBool True); vm_call lua 2 }
        else do { lua_push (LBool False); lua_push (LStr (ec_message error)); vm_call lua 3 })
     });
     lua_settop 0
   }"

subsection \<open>The socket as a state machine\<close>

datatype udp_method =
    Udp_m_setoption | Udp_m_bind | Udp_m_close | Udp_m_shutdown | Udp_m_sendto | Udp_m_read
  | Udp_m_connect | Udp_m_getsockname | Udp_m_getpeername

fun Udp_methods :: "udp_method \<Rightarrow> udp_socket meth" where
  "Udp_methods Udp_m_setoption = Udp_SetOption"
| "Udp_methods Udp_m_bind = Udp_Bind_method"
| "Udp_methods Udp_m_close = Udp_Close_method"
| "Udp_methods Udp_m_shutdown = Udp_Shutdown"
| "Udp_methods Udp_m_sendto = Udp_SendTo"
| "Udp_methods Udp_m_read = Udp_Read"
| "Udp_methods Udp_m_connect = Udp_Connect"
| "Udp_methods Udp_m_getsockname = Udp_GetLocalAddress"
| "Udp_methods Udp_m_getpeername = Udp_GetRemoteAddress"

fun udp_handler :: "udp_socket lua_fun \<Rightarrow> udp_op \<Rightarrow> ec \<Rightarrow> nat \<Rightarrow> unit udp" where
  "udp_handler lua (Op_Send r c d a p) e n = Udp_HandleSendTo lua r c e n"
| "udp_handler lua (Op_Receive r) e n = Udp_HandleReceive lua r e n"
| "udp_handler lua (Op_Udp_Connect r a p) e n = Udp_HandleConnect lua r e"

text \<open>A datagram arrives in the array, as much of it as fits.\<close>

fun udp_arrive :: "udp_op \<Rightarrow> string \<Rightarrow> udp_socket \<Rightarrow> udp_socket" where
  "udp_arrive (Op_Receive r) d s = s\<lparr>m_inputArray := d @ drop (length d) (m_inputArray s)\<rparr>"
| "udp_arrive _ d s = s"

inductive udp_step :: "(udp_method, udp_socket) script \<Rightarrow> udp_socket \<Rightarrow> udp_socket \<Rightarrow> bool"
  for prog where
  udp_lua: "udp_step prog s (exec (run_acts Udp_methods acts) s)"
| udp_done: "x \<in> set (a_ops s) \<Longrightarrow> length d \<le> 8192 \<Longrightarrow>
    udp_step prog s (exec (udp_handler (scripted Udp_methods prog) x e (length d))
      (udp_arrive x d (take_op x s)))"

inductive_cases udp_stepE: "udp_step prog s t"

definition udp_init :: "udp_socket \<Rightarrow> bool" where
  "udp_init s \<longleftrightarrow> finite (dom (rt_reg s)) \<and> newref_ok (rt_env s) \<and> rt_stack s = [] \<and>
     a_ops s = [] \<and> a_trace s = [] \<and> \<not> m_close_pending s \<and> \<not> m_write_shutdown_pending s \<and>
     m_pending_writes s = 0 \<and> m_pending_reads s = 0"

subsection \<open>The invariant\<close>

fun udp_ref :: "udp_op \<Rightarrow> int" where
  "udp_ref (Op_Send r c d a p) = r"
| "udp_ref (Op_Receive r) = r"
| "udp_ref (Op_Udp_Connect r a p) = r"

fun udp_refs :: "udp_op \<Rightarrow> int list" where
  "udp_refs (Op_Send r c d a p) = (if c = LUA_NOREF then [r] else [r, c])"
| "udp_refs (Op_Receive r) = [r]"
| "udp_refs (Op_Udp_Connect r a p) = [r]"

fun is_send :: "udp_op \<Rightarrow> bool" where
  "is_send (Op_Send r c d a p) = True"
| "is_send _ = False"

fun udp_cuts :: "udp_call \<Rightarrow> bool" where
  "udp_cuts Udp_Shutdown_Send = True"
| "udp_cuts Udp_Shutdown_Both = True"
| "udp_cuts Udp_Close = True"
| "udp_cuts _ = False"

definition udp_inv :: "udp_socket \<Rightarrow> bool" where
  "udp_inv s \<longleftrightarrow>
     live_in udp_ref udp_refs (rt_env s) (rt_reg s) (a_self s) (a_ops s) \<and>
     m_pending_writes s = of_nat (count_if is_send (a_ops s)) \<and>
     count_if is_send (a_ops s) \<le> 1 \<and>
     quiet_in is_send udp_cuts (a_trace s) (a_ops s)"

lemma call_free_udp_inv: "call_free udp_inv"
  by (simp add: call_free_def stack_free_def udp_inv_def)

lemma stack_free_udp_inv: "stack_free udp_inv"
  using call_free_udp_inv by (simp add: call_free_def)

lemma udp_inv_cases:
  assumes "udp_inv s"
  obtains "m_pending_writes s = 0" "count_if is_send (a_ops s) = 0"
  | "m_pending_writes s = 1" "count_if is_send (a_ops s) = 1"
  using assms by (auto simp: udp_inv_def le_Suc_eq)

lemmas udp_inv_simps = udp_inv_def quiet_in_def live_in_start live_in_ref live_in_ref_unref
  live_in_start2

lemmas pres_udp_intros = pres_intros stack_free_udp_inv call_free_udp_inv

lemma pres_udp_call [pres_intros]:
  "\<not> udp_cuts c \<Longrightarrow> pres udp_inv (os_call c)" "\<not> udp_cuts c \<Longrightarrow> pres udp_inv (os_query c)"
  by (auto simp: pres_def udp_inv_simps)

lemma pres_udp_shutdown_send [pres_intros]: "pres udp_inv udp_shutdown_send"
proof (rule presI)
  fix s assume "udp_inv s"
  then show "udp_inv (exec udp_shutdown_send s)"
    by (rule udp_inv_cases)
      (use \<open>udp_inv s\<close> in \<open>auto simp: udp_shutdown_send_def meth_simps udp_inv_simps\<close>)
qed

lemma pres_udp_flag: "pres udp_inv (modify (\<lambda>s. s\<lparr>m_pending_reads := f s\<rparr>))"
  "pres udp_inv (modify (\<lambda>s. s\<lparr>m_inputBuffer := g s\<rparr>))"
  by (auto simp: pres_def udp_inv_def)

lemma udp_inv_Close:
  assumes "udp_inv s"
  shows "udp_inv (exec Udp_Close_method s)"
  using assms by (rule udp_inv_cases)
    (use assms in \<open>auto simp: Udp_Close_method_def meth_simps udp_inv_simps\<close>)

lemma pres_udp_plain:
  "pres udp_inv Udp_SetOption" "pres udp_inv Udp_Bind_method" "pres udp_inv Udp_GetLocalAddress"
  "pres udp_inv Udp_GetRemoteAddress" "pres udp_inv Udp_Shutdown"
  unfolding Udp_SetOption_def Udp_Bind_method_def Udp_GetLocalAddress_def Udp_GetRemoteAddress_def
    Udp_Shutdown_def
  by (intro pres_udp_intros pres_udp_call pres_udp_shutdown_send; simp)+

lemma udp_inv_Read:
  assumes "udp_inv s" and "rt_stack s = LObj (a_self s) # args"
  shows "udp_inv (exec Udp_Read s)"
  using assms by (auto simp: Udp_Read_def meth_simps udp_inv_simps)

lemma udp_inv_Connect:
  assumes "udp_inv s" and "rt_stack s = LObj (a_self s) # args"
  shows "udp_inv (exec Udp_Connect s)"
  using assms by (auto simp: Udp_Connect_def meth_simps udp_inv_simps split: sum.splits)

text \<open>The head of a send: one or two fresh references, then the operation.\<close>

lemma udp_inv_start_send:
  fixes s :: udp_socket
  defines "k \<equiv> le_newref (rt_env s) (rt_reg s)"
  defines "g \<equiv> (rt_reg s)(k \<mapsto> LObj (a_self s))"
  defines "c \<equiv> le_newref (rt_env s) g"
  assumes I: "udp_inv s" and none: "count_if is_send (a_ops s) = 0"
  shows "udp_inv (s\<lparr>rt_reg := g, m_pending_writes := 1, a_ops := a_ops s @ [Op_Send k LUA_NOREF d a p],
      a_trace := a_trace s @ [Started (Op_Send k LUA_NOREF d a p)]\<rparr>)"
    "udp_inv (s\<lparr>rt_reg := g(c \<mapsto> v), m_pending_writes := 1, a_ops := a_ops s @ [Op_Send k c d a p],
      a_trace := a_trace s @ [Started (Op_Send k c d a p)]\<rparr>)"
    "udp_inv (s\<lparr>rt_reg := g\<rparr>)" "udp_inv (s\<lparr>rt_reg := g(c \<mapsto> v)\<rparr>)"
proof -
  have live: "live_in udp_ref udp_refs (rt_env s) (rt_reg s) (a_self s) (a_ops s)"
    using I by (simp add: udp_inv_def)
  have live1: "live_in udp_ref udp_refs (rt_env s) g (a_self s) (a_ops s)"
    unfolding g_def k_def by (rule live_in_ref [OF live])
  have "c \<noteq> LUA_NOREF"
    using live_in_newref(2) [OF live1] by (simp add: c_def LUA_NOREF_def)
  then have "live_in udp_ref udp_refs (rt_env s) (g(c \<mapsto> v)) (a_self s) (a_ops s @ [Op_Send k c d a p])"
    unfolding c_def g_def k_def by (intro live_in_start2 [OF live]) simp_all
  then show "udp_inv (s\<lparr>rt_reg := g(c \<mapsto> v), m_pending_writes := 1, a_ops := a_ops s @ [Op_Send k c d a p],
      a_trace := a_trace s @ [Started (Op_Send k c d a p)]\<rparr>)"
    using I none by (simp add: udp_inv_def quiet_in_start)
  show "udp_inv (s\<lparr>rt_reg := g, m_pending_writes := 1, a_ops := a_ops s @ [Op_Send k LUA_NOREF d a p],
      a_trace := a_trace s @ [Started (Op_Send k LUA_NOREF d a p)]\<rparr>)"
    using I none unfolding g_def k_def by (simp add: udp_inv_def quiet_in_start live_in_start)
  show "udp_inv (s\<lparr>rt_reg := g\<rparr>)" "udp_inv (s\<lparr>rt_reg := g(c \<mapsto> v)\<rparr>)"
    using I live1 live_in_ref [OF live1] by (simp_all add: udp_inv_def c_def)
qed

lemma udp_inv_send_tail:
  assumes "udp_inv s" and "rt_stack s = LObj (a_self s) # args" and "m_pending_writes s = 0"
  shows "udp_inv (exec (do {
           reference \<leftarrow> ref_self;
           nocb \<leftarrow> lua_isnoneornil 8;
           callback \<leftarrow> (if \<not> nocb then do { lua_pushvalue 8; luaL_ref } else ret LUA_NOREF);
           t \<leftarrow> lua_type 2;
           if t = TString then do {
             d \<leftarrow> lua_tostring 2;
             modify (\<lambda>s. s\<lparr>m_pending_writes := m_pending_writes s + 1\<rparr>);
             start_async (Op_Send reference callback d address (c_ushort port));
             lua_push (LBool True);
             ret_n 1
           }
           else raise (Lua_Error ''Socket::Write, unhandled type'')
         }) s)"
proof -
  have none: "count_if is_send (a_ops s) = 0"
    using assms(1,3) by (elim udp_inv_cases) simp_all
  note start = udp_inv_start_send [OF assms(1) none]
  show ?thesis
    using assms start by (auto simp: meth_simps none_or_nil_def udp_inv_def)
qed

lemma udp_inv_SendTo:
  assumes "udp_inv s" and "rt_stack s = LObj (a_self s) # args"
  shows "udp_inv (exec Udp_SendTo s)"
proof (cases "m_pending_writes s = 0")
  case False
  then have "exec Udp_SendTo s = exec (lua_push (LBool False)) s"
    by (simp add: Udp_SendTo_def exec_if word_neq_0_conv)
  then show ?thesis
    using presD [OF pres_stack(1) [OF stack_free_udp_inv] assms(1)] by simp
next
  case True
  have I: "udp_inv (exec (os_call (Udp_Parse_Address a)) s)" for a
    using presD [OF pres_udp_call(1) assms(1)] by simp
  note tail = udp_inv_send_tail [OF I, where args = args]
  show ?thesis
    unfolding Udp_SendTo_def
    using True assms I tail
    by (auto simp: exec_case_sum exec_if luaL_checkinteger_def luaL_checkstring_def split: sum.splits)
qed

lemma pres_udp_act [pres_intros]: "pres udp_inv (run_act Udp_methods x)"
proof (rule pres_run_act)
  show "stack_free udp_inv" by (rule stack_free_udp_inv)
  show "udp_inv (exec (Udp_methods m) s)"
    if "udp_inv s" "rt_stack s = LObj (a_self s) # args" for m s args
    using that pres_udp_plain
    by (cases m) (simp_all add: presD udp_inv_Close udp_inv_Read udp_inv_Connect udp_inv_SendTo)
qed (auto simp: udp_inv_simps)

lemma pres_udp_scripted: "pres udp_inv (scripted Udp_methods prog f args)"
  by (rule pres_scripted [OF pres_udp_act])

subsection \<open>Every completion keeps it\<close>

lemma udp_inv_completed:
  assumes "udp_inv s" and "x \<in> set (a_ops s)"
    and "rt_env t = rt_env s" "rt_reg t = rt_reg s |` (- set (udp_refs x))" "a_self t = a_self s"
    and "a_ops t = remove1 x (a_ops s)" "a_trace t = a_trace s @ [Completed x]"
    and "m_pending_writes t = (if is_send x then m_pending_writes s - 1 else m_pending_writes s)"
  shows "udp_inv t"
proof -
  have "count_if is_send (a_ops s) = 1" if "is_send x"
    using count_if_pos [of x "a_ops s" is_send] assms(1,2) that by (auto simp: udp_inv_def)
  then show ?thesis
    using assms live_in_complete [of udp_ref udp_refs _ _ _ _ x]
    by (auto simp: udp_inv_def quiet_in_complete count_if_remove1 of_nat_diff)
qed

lemma udp_refs_pos: "udp_inv s \<Longrightarrow> x \<in> set (a_ops s) \<Longrightarrow> r \<in> set (udp_refs x) \<Longrightarrow> 0 < r"
  using live_inD(3) [of udp_ref udp_refs] by (auto simp: udp_inv_def)

lemma pres_udp_close_when_idle: "pres udp_inv udp_close_when_idle"
proof (rule presI)
  fix s assume "udp_inv s"
  then show "udp_inv (exec udp_close_when_idle s)"
    by (rule udp_inv_cases)
      (use \<open>udp_inv s\<close> in \<open>auto simp: udp_close_when_idle_def exec_whenM udp_inv_simps\<close>)
qed

lemma pres_udp_late_shutdown:
  "pres udp_inv (do {
     sp \<leftarrow> gets (\<lambda>s. m_write_shutdown_pending s \<and> m_pending_writes s = 0);
     whenM sp (do { _ \<leftarrow> os_call Udp_Shutdown_Send; ret () });
     udp_close_when_idle })"
proof (rule presI)
  fix s assume I: "udp_inv s"
  have "udp_inv (exec (os_call Udp_Shutdown_Send) s)" if "m_pending_writes s = 0"
    using I by (rule udp_inv_cases) (use I that in \<open>auto simp: udp_inv_simps\<close>)
  with I presD [OF pres_udp_close_when_idle] show "udp_inv (exec (do {
     sp \<leftarrow> gets (\<lambda>s. m_write_shutdown_pending s \<and> m_pending_writes s = 0);
     whenM sp (do { _ \<leftarrow> os_call Udp_Shutdown_Send; ret () });
     udp_close_when_idle }) s)"
    by (auto simp: exec_whenM)
qed

lemma udp_inv_HandleSendTo:
  assumes I: "udp_inv s" and x: "Op_Send r c d a p \<in> set (a_ops s)"
    and lua: "\<And>f args. pres udp_inv (lua f args)"
  shows "udp_inv (exec (Udp_HandleSendTo lua r c e n) (take_op (Op_Send r c d a p) s))"
proof -
  let ?x = "Op_Send r c d a p"
  have pos: "0 < r" "c = LUA_NOREF \<or> 0 < c"
    using udp_refs_pos [OF I x, of r] udp_refs_pos [OF I x, of c]
    by (cases "c = LUA_NOREF"; simp)+
  define head where "head = (do {
     fetch_self r;
     whenM (c \<noteq> LUA_NOREF) (fetch_self c);
     modify (\<lambda>s. s\<lparr>m_pending_writes := m_pending_writes s - 1\<rparr>) } :: unit udp)"
  have reg: "rt_reg s |` (- {r, c}) = (rt_reg s)(r := None, c := None)"
    by (rule ext) (simp add: restrict_map_def)
  have head: "udp_inv (exec head (take_op ?x s))"
    by (rule udp_inv_completed [OF I x])
      (use pos in \<open>auto simp: head_def exec_fetch_self exec_whenM take_op_def reg\<close>)
  define rest where "rest = (do {
     (if \<not> ec_fails e then do {
        t \<leftarrow> lua_type 2;
        whenM (t = TFunction) (do { lua_pushvalue 1; vm_call lua 1 })
      }
      else do {
        t \<leftarrow> lua_type 2;
        whenM (t = TFunction) (do {
          lua_pushvalue 1; _ \<leftarrow> BoostErrorCodeToLua e; vm_call lua 4 })
      });
     lua_settop 0;
     sp \<leftarrow> gets (\<lambda>s. m_write_shutdown_pending s \<and> m_pending_writes s = 0);
     whenM sp (do { _ \<leftarrow> os_call Udp_Shutdown_Send; ret () });
     udp_close_when_idle })"
  have "pres udp_inv rest"
    unfolding rest_def by (intro pres_udp_late_shutdown pres_udp_intros lua)
  from presD [OF this head] show ?thesis
    by (simp add: Udp_HandleSendTo_def head_def rest_def)
qed

lemma udp_inv_HandleReceive:
  assumes I: "udp_inv s" and x: "Op_Receive r \<in> set (a_ops s)"
    and lua: "\<And>f args. pres udp_inv (lua f args)"
  shows "udp_inv (exec (Udp_HandleReceive lua r e n) (udp_arrive (Op_Receive r) d (take_op (Op_Receive r) s)))"
proof -
  let ?s = "udp_arrive (Op_Receive r) d (take_op (Op_Receive r) s)"
  have "0 < r" using udp_refs_pos [OF I x] by simp
  then have head: "udp_inv (exec (fetch_self r) ?s)"
    by (intro udp_inv_completed [OF I x]) (simp_all add: exec_fetch_self take_op_def)
  have "pres udp_inv (do {
     modify (\<lambda>s. s\<lparr>m_pending_reads := m_pending_reads s - 1\<rparr>);
     lua_getfield 1 ''read_callback'';
     t \<leftarrow> lua_type 2;
     whenM (t = TFunction) (do {
       lua_pushvalue 1;
       (if \<not> ec_fails e then do {
          data \<leftarrow> gets m_inputArray;
          lua_push (LStr (take n data));
          vm_call lua 2
        }
        else do { _ \<leftarrow> BoostErrorCodeToLua e; vm_call lua 4 })
     });
     lua_settop 0;
     udp_close_when_idle })"
    by (intro pres_udp_intros pres_udp_close_when_idle lua pres_modify) (simp_all add: udp_inv_def)
  from presD [OF this head] show ?thesis
    by (simp add: Udp_HandleReceive_def)
qed

lemma udp_inv_HandleConnect:
  assumes I: "udp_inv s" and x: "Op_Udp_Connect r a p \<in> set (a_ops s)"
    and lua: "\<And>f args. pres udp_inv (lua f args)"
  shows "udp_inv (exec (Udp_HandleConnect lua r e) (take_op (Op_Udp_Connect r a p) s))"
proof -
  have "0 < r" using udp_refs_pos [OF I x] by simp
  then have head: "udp_inv (exec (fetch_self r) (take_op (Op_Udp_Connect r a p) s))"
    by (intro udp_inv_completed [OF I x]) (simp_all add: exec_fetch_self take_op_def)
  have "pres udp_inv (do {
     lua_getfield 1 ''connect_callback'';
     t \<leftarrow> lua_type 2;
     whenM (t = TFunction) (do {
       lua_pushvalue 1;
       (if \<not> ec_fails e then do { lua_push (LBool True); vm_call lua 2 }
        else do { lua_push (LBool False); lua_push (LStr (ec_message e)); vm_call lua 3 })
     });
     lua_settop 0 })"
    by (intro pres_udp_intros lua)
  from presD [OF this head] show ?thesis
    by (simp add: Udp_HandleConnect_def)
qed

lemma udp_inv_step: "udp_inv s \<Longrightarrow> udp_step prog s t \<Longrightarrow> udp_inv t"
proof (erule udp_stepE)
  fix acts assume "udp_inv s" "t = exec (run_acts Udp_methods acts) s"
  then show "udp_inv t" using presD [OF pres_run_acts [OF pres_udp_act]] by simp
next
  fix x d e
  assume "udp_inv s" "x \<in> set (a_ops s)"
    "t = exec (udp_handler (scripted Udp_methods prog) x e (length d)) (udp_arrive x d (take_op x s))"
  then show "udp_inv t"
    by (cases x) (auto intro: udp_inv_HandleSendTo udp_inv_HandleConnect pres_udp_scripted
        udp_inv_HandleReceive [where lua = "scripted Udp_methods prog", simplified])
qed

lemma udp_inv_init: "udp_init s \<Longrightarrow> udp_inv s"
  by (simp add: udp_init_def udp_inv_def live_in_def)

lemma udp_inv_facts:
  assumes "udp_inv s"
  shows "live udp_ref udp_refs s" "single_writer is_send (m_pending_writes s) (a_ops s)"
    "quiet_in is_send udp_cuts (a_trace s) (a_ops s)"
  using assms by (simp_all add: udp_inv_def live_def single_writer_def)

interpretation udp: async_writer udp_init "udp_step prog" udp_inv udp_ref udp_refs
  m_pending_writes is_send udp_cuts
  for prog
  by unfold_locales (fact udp_inv_init udp_inv_step udp_inv_facts)+

subsection \<open>Properties\<close>

definition sample_udp :: udp_socket where
  "sample_udp = \<lparr>rt_env = sample_env, rt_stack = [], rt_reg = Map.empty,
     rt_objs = (\<lambda>_ _. LNil), rt_calls = [], a_self = 7, a_ops = [], a_os = [], a_trace = [],
     a_ec = (\<lambda>_ _. Ok_Ec), a_addr = (\<lambda>_ _. ([], 0)), m_close_pending = False,
     m_write_shutdown_pending = False, m_pending_writes = 0, m_pending_reads = 0,
     m_inputBuffer = [], m_inputArray = []\<rparr>"

lemma udp_init_sample: "udp_init sample_udp"
  by (simp add: udp_init_def sample_udp_def newref_ok_sample)

text \<open>The same socket after \<^verbatim>\<open>s:sendto("hi", 0, 2, 0, 70000, "::1", f); s:close()\<close>.\<close>

definition sample_sending :: udp_socket where
  "sample_sending = exec (run_acts Udp_methods
     [Invoke Udp_m_sendto [LStr ''hi'', LNum 0, LNum 2, LNum 0, LNum 70000, LStr ''::1'', LFun 5],
      Invoke Udp_m_close []]) sample_udp"

lemma reach_sample_sending: "reach udp_init (udp_step prog) sample_sending"
  unfolding sample_sending_def
  by (rule reach_step, rule reach_init, rule udp_init_sample, rule udp_lua)

lemma sample_sending_fields:
  "a_ops sample_sending = [Op_Send 1 2 ''hi'' ''::1'' 4464]" "m_pending_writes sample_sending = 1"
  "m_close_pending sample_sending"
  by (simp_all add: sample_sending_def sample_udp_def thunk_methods_def Udp_SendTo_def
      Udp_Close_method_def meth_simps as_string_def as_integer_def none_or_nil_def c_ushort_def)

text \<open>
  C35: A UDP socket never has two sends outstanding, \<open>m_pending_writes\<close> counts them, the
  references of its operations (the socket's and, for a send, the callback's) are live and
  pairwise distinct, and it is neither closed nor shut down for sending while a send is in
  flight, for every Lua program and every completion.
\<close>
theorem udp_single_send:
  assumes "reach udp_init (udp_step prog) s"
  shows "m_pending_writes s = of_nat (count_if is_send (a_ops s)) \<and>
    count_if is_send (a_ops s) \<le> 1 \<and> live udp_ref udp_refs s \<and>
    quiet is_send udp_cuts 0 (a_trace s)"
  using udp.reach_one_write [OF assms] udp.reach_live [OF assms] udp.reach_quiet [OF assms] by simp

lemma udp_single_send_witness:
  "live udp_ref udp_refs sample_sending \<and> count_if is_send (a_ops sample_sending) = 1"
  using udp_single_send [OF reach_sample_sending] by (simp add: sample_sending_fields)

text \<open>
  \<open>sendto\<close> takes effect once: called on an idle socket with a string, a port and an
  address that parses, it starts exactly one send, to that port modulo 65536, and answers
  true; while a send is pending it answers false and changes nothing else.
\<close>
theorem udp_sendto_spec:
  assumes "rt_stack s = [LObj p, LStr d, x, y, z, LNum port, LStr addr]"
  shows "(m_pending_writes s \<noteq> 0 \<longrightarrow>
      exec Udp_SendTo s = s\<lparr>rt_stack := rt_stack s @ [LBool False]\<rparr> \<and> result Udp_SendTo s = Inr 1) \<and>
    (m_pending_writes s = 0 \<longrightarrow> \<not> ec_fails (a_ec s (a_os s) (Udp_Parse_Address addr)) \<longrightarrow>
      a_ops (exec Udp_SendTo s) = a_ops s @
        [Op_Send (le_newref (rt_env s) (rt_reg s)) LUA_NOREF d addr (port mod 65536)] \<and>
      m_pending_writes (exec Udp_SendTo s) = 1 \<and> result Udp_SendTo s = Inr 1)"
  using assms
  by (auto simp: Udp_SendTo_def meth_simps as_string_def as_integer_def none_or_nil_def
      c_ushort_def word_neq_0_conv)

lemma udp_sendto_spec_witness:
  "a_ops (exec Udp_SendTo (sample_udp\<lparr>rt_stack := [LObj 7, LStr ''hi'', LNil, LNil, LNil, LNum 65537,
     LStr ''::1'']\<rparr>)) = [Op_Send 1 LUA_NOREF ''hi'' ''::1'' 1]"
  using udp_sendto_spec [of "sample_udp\<lparr>rt_stack := [LObj 7, LStr ''hi'', LNil, LNil, LNil,
      LNum 65537, LStr ''::1'']\<rparr>" 7 "''hi''" LNil LNil LNil 65537 "''::1''"]
  by (simp add: sample_udp_def)

text \<open>
  A \<open>read\<close> with a non-numeric argument is counted but never started, so nothing ever
  counts it down again; and as a deferred close waits for the reads too, the completion of a
  send with such a read counted does not close the socket.
\<close>
theorem udp_phantom_read:
  assumes "rt_stack s = [LObj p, LStr x]" and "le_str2num (rt_env s) x = None"
  shows "a_ops (exec Udp_Read s) = a_ops s \<and> result Udp_Read s = Inr 0 \<and>
    m_pending_reads (exec Udp_Read s) = m_pending_reads s + 1 \<and>
    (\<forall>t. m_pending_reads t \<noteq> 0 \<longrightarrow> exec udp_close_when_idle t = t)"
  using assms
  by (simp add: Udp_Read_def udp_close_when_idle_def meth_simps none_or_nil_def as_integer_def)

lemma udp_phantom_read_witness:
  "m_pending_reads (exec Udp_Read (sample_udp\<lparr>rt_stack := [LObj 7, LStr ''*l'']\<rparr>)) = 1"
  using udp_phantom_read [of "sample_udp\<lparr>rt_stack := [LObj 7, LStr ''*l'']\<rparr>" 7 "''*l''"]
  by (simp add: sample_udp_def)

text \<open>
  Creating a UDP socket of an unknown kind is not an error: the constructor returns an
  object without a socket, on which every method works through a null pointer.
\<close>
theorem udp_unknown_kind_accepted:
  assumes "kind \<noteq> ''udp4''" and "kind \<noteq> ''udp6''"
  shows "\<exists>n. fst (UdpSocket_ctor open_ec env [LStr kind] g) = Inr (None, n)"
  using assms by (simp add: UdpSocket_ctor_def as_string_def Let_def)

lemma udp_unknown_kind_accepted_witness:
  "\<exists>n. fst (UdpSocket_ctor (\<lambda>_. Ok_Ec) sample_env [LStr ''udp5'']
     \<lparr>s_nextSocketId = 0, s_socketCount = 0\<rparr>) = Inr (None, n)"
  by (rule udp_unknown_kind_accepted) simp_all

end
