(* ===== verification/Timer.thy ===== *)
theory Timer
  imports Async_Op
begin

section \<open>Timers (\<^verbatim>\<open>src/luanode_timer.cpp\<close>)\<close>

text \<open>
  \<^verbatim>\<open>LuaNode::Timer\<close> over a Boost deadline timer: \<open>Tm_Expires\<close> and \<open>Tm_Cancel\<close> are the calls
  made on it, \<open>Op_Wait\<close> a wait handed to it.  A repeating timer re-arms itself in its handler
  with the reference it leaves on top of the stack, a fresh one for each wait.

  The properties: every outstanding wait has a live reference of its own, whatever the
  callbacks do; a one-shot timer fires once; and what the methods do.
\<close>

subsection \<open>State and methods\<close>

datatype timer_call = Tm_Expires int | Tm_Cancel

datatype timer_op = Op_Wait int

record timer = "(timer_op, timer_call) async" +
  m_timer :: bool
  m_repeats :: bool
  m_after :: int

text \<open>\<open>m_timer\<close> tells whether the pointer to the deadline timer is set.\<close>

record timer_globals =
  s_nextTimerId :: "64 word"
  s_timerCount :: "64 word"

definition GetTimerCount :: "timer_globals \<Rightarrow> 'a rt_scheme meth" where
  "GetTimerCount g = do { lua_push (LNum (sint (s_timerCount g))); ret_n 1 }"

definition Timer_ctor :: "timer_globals \<Rightarrow> timer \<Rightarrow> timer \<times> timer_globals" where
  "Timer_ctor g s = (s\<lparr>m_timer := False, m_repeats := False, m_after := 0\<rparr>,
     g\<lparr>s_nextTimerId := s_nextTimerId g + 1, s_timerCount := s_timerCount g + 1\<rparr>)"

definition Timer_dtor :: "timer_globals \<Rightarrow> timer_globals" where
  "Timer_dtor g = g\<lparr>s_timerCount := s_timerCount g - 1\<rparr>"

definition Timer_Start :: "timer meth" where
  "Timer_Start = do {
     a \<leftarrow> luaL_checkinteger 2;
     case a of Inl e \<Rightarrow> raise e | Inr after_ms \<Rightarrow> do {
       modify (\<lambda>s. s\<lparr>m_after := c_int after_ms\<rparr>);
       b \<leftarrow> luaL_checkinteger 3;
       case b of Inl e \<Rightarrow> raise e | Inr repeat_ms \<Rightarrow> do {
         whenM (c_int repeat_ms \<noteq> 0) (modify (\<lambda>s. s\<lparr>m_repeats := True\<rparr>));
         started \<leftarrow> gets m_timer;
         if started then raise (Lua_Error ''double Start not implemented yet in timers'')
         else do {
           ms \<leftarrow> gets m_after;
           _ \<leftarrow> os_call (Tm_Expires ms);
           modify (\<lambda>s. s\<lparr>m_timer := True\<rparr>);
           reference \<leftarrow> ref_self;
           start_async (Op_Wait reference);
           ret_n 0
         }
       }
     }
   }"

definition Timer_Stop :: "timer meth" where
  "Timer_Stop = do {
     started \<leftarrow> gets m_timer;
     whenM started (do { _ \<leftarrow> os_call Tm_Cancel; ret () });
     ret_n 0
   }"

definition Timer_Again :: "timer meth" where
  "Timer_Again = do {
     started \<leftarrow> gets m_timer;
     if \<not> started then do { lua_push (LNum 0); Timer_Start }
     else do {
       repeats \<leftarrow> gets m_repeats;
       whenM (\<not> repeats) (do { _ \<leftarrow> os_call Tm_Cancel; ret () });
       number \<leftarrow> lua_isnumber 2;
       whenM number (do { n \<leftarrow> lua_tointeger 2; modify (\<lambda>s. s\<lparr>m_after := c_int n\<rparr>) });
       reference \<leftarrow> ref_self;
       ms \<leftarrow> gets m_after;
       _ \<leftarrow> os_call (Tm_Expires ms);
       start_async (Op_Wait reference);
       ret_n 0
     }
   }"

subsection \<open>The handler\<close>

text \<open>
  The callback is called with no argument, so after the call the stack is the object and the
  callback's results; the reference of the next wait is to what is then on top.
\<close>

definition Timer_OnTimeout :: "timer lua_fun \<Rightarrow> int \<Rightarrow> ec \<Rightarrow> (timer, unit) state" where
  "Timer_OnTimeout lua reference error = do {
     fetch_self reference;
     whenM (\<not> ec_fails error \<or> \<not> ec_is Operation_Aborted error) (do {
       lua_getfield 1 ''callback'';
       t \<leftarrow> lua_type 2;
       if t = TFunction then do {
         vm_call lua 0;
         repeats \<leftarrow> gets m_repeats;
         whenM repeats (do {
           newReference \<leftarrow> luaL_ref;
           ms \<leftarrow> gets m_after;
           _ \<leftarrow> os_call (Tm_Expires ms);
           start_async (Op_Wait newReference)
         })
       }
       else do { _ \<leftarrow> os_call Tm_Cancel; ret () }
     });
     lua_settop 0
   }"

datatype timer_method = Timer_start | Timer_stop | Timer_again

fun Timer_methods :: "timer_method \<Rightarrow> timer meth" where
  "Timer_methods Timer_start = Timer_Start"
| "Timer_methods Timer_stop = Timer_Stop"
| "Timer_methods Timer_again = Timer_Again"

subsection \<open>The timer as a state machine\<close>

inductive timer_step :: "(timer_method, timer) script \<Rightarrow> timer \<Rightarrow> timer \<Rightarrow> bool"
  for prog where
  timer_lua: "timer_step prog s (exec (run_acts Timer_methods acts) s)"
| timer_done: "Op_Wait r \<in> set (a_ops s) \<Longrightarrow>
    timer_step prog s (exec (Timer_OnTimeout (scripted Timer_methods prog) r e) (take_op (Op_Wait r) s))"

inductive_cases timer_stepE: "timer_step prog s t"

definition timer_init :: "timer \<Rightarrow> bool" where
  "timer_init s \<longleftrightarrow> finite (dom (rt_reg s)) \<and> newref_ok (rt_env s) \<and> rt_stack s = [] \<and>
     a_ops s = [] \<and> a_trace s = [] \<and> \<not> m_timer s \<and> \<not> m_repeats s \<and> m_after s = 0"

fun wait_ref :: "timer_op \<Rightarrow> int" where
  "wait_ref (Op_Wait r) = r"

definition wait_refs :: "timer_op \<Rightarrow> int list" where
  "wait_refs x = [wait_ref x]"

text \<open>The waits are live, and the pointer their handler follows is set (with \<open>b\<close>, even
  without waits, as inside a handler).\<close>

definition timer_inv :: "bool \<Rightarrow> nat \<Rightarrow> timer \<Rightarrow> bool" where
  "timer_inv b p s \<longleftrightarrow> a_self s = p \<and> (b \<or> a_ops s \<noteq> [] \<longrightarrow> m_timer s) \<and>
     live_in wait_ref wait_refs (rt_env s) (rt_reg s) p (a_ops s)"

lemma call_free_timer_inv: "call_free (timer_inv b p)"
  by (simp add: call_free_def stack_free_def timer_inv_def)

lemma stack_free_timer_inv: "stack_free (timer_inv b p)"
  using call_free_timer_inv by (simp add: call_free_def)

lemma wait_refs_ref [simp]: "wait_refs x = [wait_ref x]"
  by (simp add: wait_refs_def)

lemmas timer_inv_simps = timer_inv_def live_in_start live_in_ref

lemma timer_inv_Start:
  assumes "timer_inv b p s" and "rt_stack s = LObj (a_self s) # args"
  shows "timer_inv b p (exec Timer_Start s)"
  using assms by (auto simp: Timer_Start_def meth_simps timer_inv_simps split: sum.splits)

lemma timer_inv_Again:
  assumes "timer_inv b p s" and "rt_stack s = LObj (a_self s) # args"
  shows "timer_inv b p (exec Timer_Again s)"
proof (cases "m_timer s")
  case True
  then show ?thesis
    using assms by (auto simp: Timer_Again_def meth_simps timer_inv_simps)
next
  case False
  have "timer_inv b p (exec Timer_Start (exec (lua_push (LNum 0)) s))"
    by (rule timer_inv_Start [where args = "args @ [LNum 0]"])
      (use assms in \<open>simp_all add: lua_push_def timer_inv_def\<close>)
  with False show ?thesis by (simp add: Timer_Again_def exec_if)
qed

lemma pres_timer_act: "pres (timer_inv b p) (run_act Timer_methods x)"
proof (rule pres_run_act)
  show "timer_inv b p (exec (Timer_methods m) s)"
    if "timer_inv b p s" "rt_stack s = LObj (a_self s) # args" for m s args
    using timer_inv_Start [OF that] timer_inv_Again [OF that] that
    by (cases m) (auto simp: Timer_Stop_def exec_whenM timer_inv_def)
qed (auto simp: timer_inv_simps stack_free_timer_inv)

lemma pres_timer_scripted: "pres (timer_inv b p) (scripted Timer_methods prog f args)"
  by (rule pres_scripted [OF pres_timer_act])

text \<open>Lua programs whose callbacks return nothing.\<close>

definition no_results :: "('m, 's) script \<Rightarrow> bool" where
  "no_results prog \<longleftrightarrow> (\<forall>f args s. snd (prog f args s) = [])"

lemma timer_inv_OnTimeout:
  assumes I: "timer_inv False p s" and x: "Op_Wait r \<in> set (a_ops s)" and stk: "rt_stack s = []"
    and silent: "no_results prog"
  shows "timer_inv False p
    (exec (Timer_OnTimeout (scripted Timer_methods prog) r e) (take_op (Op_Wait r) s))"
proof -
  let ?lua = "scripted Timer_methods prog"
  have live: "live_in wait_ref wait_refs (rt_env s) (rt_reg s) p (a_ops s)" "a_self s = p" "m_timer s"
    using I x by (auto simp: timer_inv_def)
  have r: "0 < r" "rt_reg s r = Some (LObj p)"
    using live_inD(2,3) [OF live(1) x] by simp_all
  define s1 where "s1 = exec (fetch_self r) (take_op (Op_Wait r) s)"
  have s1: "timer_inv True p s1" "rt_stack s1 = [LObj p]"
    using live r stk live_in_complete1 [OF live(1) x]
    by (simp_all add: s1_def exec_fetch_self take_op_def timer_inv_def)
  define s2 where "s2 = exec (lua_getfield (Suc 0) ''callback'') s1"
  have s2: "timer_inv True p s2" "rt_stack s2 = [LObj p, rt_objs s1 p ''callback'']"
    using s1 by (simp_all add: s2_def lua_getfield_def timer_inv_def)
  define s3 where "s3 = exec (vm_call ?lua 0) s2"
  have s3: "timer_inv True p s3" "rt_stack s3 = [LObj p]"
    using presD [OF pres_vm_call [OF call_free_timer_inv pres_timer_scripted] s2(1)] s2(2) silent
    by (simp_all add: s3_def stack_vm_call result_scripted no_results_def)
  have again: "timer_inv False p (exec (do {
      newReference \<leftarrow> luaL_ref; ms \<leftarrow> gets m_after; _ \<leftarrow> os_call (Tm_Expires ms);
      start_async (Op_Wait newReference) }) s3)"
    using s3 by (auto simp: exec_luaL_ref result_luaL_ref timer_inv_simps Let_def)
  have weak: "timer_inv True p u \<Longrightarrow> timer_inv False p u" for u by (simp add: timer_inv_def)
  have top: "timer_inv False p (exec (lua_settop 0) u) = timer_inv False p u" for u
    by (simp add: lua_settop_def timer_inv_def)
  have type: "exec (lua_type i) u = u" for i and u :: timer by (simp add: lua_type_def)
  have cancel: "timer_inv False p (exec (os_call Tm_Cancel) s2)"
    using weak [OF s2(1)] by (simp add: timer_inv_def)
  show ?thesis
    using weak [OF s1(1)] weak [OF s3(1)] again cancel
    by (simp add: Timer_OnTimeout_def exec_whenM exec_if top type flip: s1_def s2_def s3_def)
qed

lemma stack_OnTimeout: "rt_stack (exec (Timer_OnTimeout lua r e) s) = []"
  by (simp add: Timer_OnTimeout_def lua_settop_def)

definition timer_reach_inv :: "nat \<Rightarrow> timer \<Rightarrow> bool" where
  "timer_reach_inv p s \<longleftrightarrow> timer_inv False p s \<and> rt_stack s = []"

lemma timer_reach_inv_step:
  assumes "no_results prog" and "timer_reach_inv p s" and "timer_step prog s t"
  shows "timer_reach_inv p t"
  using assms(3)
proof (rule timer_stepE)
  fix acts assume "t = exec (run_acts Timer_methods acts) s"
  then show ?thesis
    using assms(2) presD [OF pres_run_acts [OF pres_timer_act]]
    by (simp add: timer_reach_inv_def stack_run_acts)
next
  fix r e
  assume "t = exec (Timer_OnTimeout (scripted Timer_methods prog) r e) (take_op (Op_Wait r) s)"
    "Op_Wait r \<in> set (a_ops s)"
  then show ?thesis
    using assms(1,2) by (simp add: timer_reach_inv_def stack_OnTimeout timer_inv_OnTimeout)
qed

text \<open>One program without results is enough to interpret the contract of the pattern.\<close>

definition timer_program :: "(timer_method, timer) script \<Rightarrow> (timer_method, timer) script" where
  "timer_program prog = (\<lambda>f args s. (fst (prog f args s), []))"

lemma no_results_program: "no_results (timer_program prog)"
  by (simp add: no_results_def timer_program_def)

definition timer_init_at :: "nat \<Rightarrow> timer \<Rightarrow> bool" where
  "timer_init_at p s \<longleftrightarrow> timer_init s \<and> a_self s = p"

interpretation timer: async_object "timer_init_at p" "timer_step (timer_program prog)"
  "timer_reach_inv p" wait_ref wait_refs
  for p prog
proof
  show "timer_reach_inv p s" if "timer_init_at p s" for s
    using that by (simp add: timer_init_at_def timer_init_def timer_reach_inv_def timer_inv_def live_in_def)
  show "timer_reach_inv p t" if "timer_reach_inv p s" "timer_step (timer_program prog) s t" for s t
    using timer_reach_inv_step [OF no_results_program that] .
  show "live wait_ref wait_refs s" if "timer_reach_inv p s" for s
    using that by (simp add: timer_reach_inv_def timer_inv_def live_def)
qed

subsection \<open>Properties\<close>

definition sample_timer :: timer where
  "sample_timer = \<lparr>rt_env = sample_env, rt_stack = [], rt_reg = Map.empty,
     rt_objs = (\<lambda>_ k. if k = ''callback'' then LFun 1 else LNil), rt_calls = [], a_self = 7,
     a_ops = [], a_os = [], a_trace = [], a_ec = (\<lambda>_ _. Ok_Ec), a_addr = (\<lambda>_ _. ([], 0)),
     m_timer = False, m_repeats = False, m_after = 0\<rparr>"

text \<open>
  C34: With callbacks that return no results and raise no errors (a raised error value is
  left on the stack the way a result is), a timer is always alive when it fires: in every
  reachable state each outstanding wait holds a reference of its own to the timer object,
  and the deadline timer its handler uses exists.
\<close>
theorem timer_waits_live:
  assumes "reach (timer_init_at p) (timer_step (timer_program prog)) s"
    and "Op_Wait r \<in> set (a_ops s)"
  shows "rt_reg s r = Some (LObj p) \<and> m_timer s \<and> distinct (map wait_ref (a_ops s))"
proof -
  have inv: "timer_reach_inv p s" by (rule timer.reach_inv [OF assms(1)])
  have "concat (map wait_refs xs) = map wait_ref xs" for xs by (induction xs) simp_all
  with inv timer.reach_self_kept [OF assms] timer.reach_refs_distinct [OF assms(1)] assms(2)
  show ?thesis by (auto simp: timer_reach_inv_def timer_inv_def)
qed

definition sample_timer_started :: timer where
  "sample_timer_started =
     exec (run_acts Timer_methods [Invoke Timer_start [LNum 10, LNum 10]]) sample_timer"

lemma sample_timer_started_ops: "a_ops sample_timer_started = [Op_Wait 1]"
  by (simp add: sample_timer_started_def sample_timer_def thunk_methods_def Timer_Start_def
      meth_simps as_integer_def c_int_def)

lemma timer_waits_live_witness: "rt_reg sample_timer_started 1 = Some (LObj 7)"
proof -
  have "timer_init_at 7 sample_timer"
    by (simp add: timer_init_at_def timer_init_def sample_timer_def newref_ok_sample)
  then have "reach (timer_init_at 7) (timer_step (timer_program (\<lambda>_ _ _. ([], [])))) sample_timer_started"
    unfolding sample_timer_started_def by (rule reach_step [OF reach_init]) (rule timer_lua)
  from timer_waits_live [OF this, of 1] show ?thesis by (simp add: sample_timer_started_ops)
qed

text \<open>
  A repeating timer whose callback returns a value loses itself: the handler takes the
  reference for the next wait from the top of the stack, which is then the returned value,
  so the next handler will treat that value as the timer (and nothing keeps the timer alive).
\<close>
theorem timer_callback_result_taken_for_self:
  assumes "rt_stack s = []" and "rt_reg s r = Some (LObj p)" and "0 < r"
    and "rt_objs s p ''callback'' = LFun f" and "m_repeats s"
    and "lua = (\<lambda>_ _. ret [v])" and "v \<noteq> LNil"
  defines "t \<equiv> exec (Timer_OnTimeout lua r Ok_Ec) s"
  shows "\<exists>k. a_ops t = a_ops s @ [Op_Wait k] \<and> rt_reg t k = Some v"
  using assms unfolding t_def
  by (simp add: Timer_OnTimeout_def exec_fetch_self exec_whenM exec_if lua_getfield_def lua_type_def
      vm_call_def exec_luaL_ref result_luaL_ref lua_settop_def Let_def)

lemma timer_callback_result_taken_for_self_witness:
  "\<exists>k. a_ops (exec (Timer_OnTimeout (\<lambda>_ _. ret [LNum 42]) 1 Ok_Ec)
       (sample_timer\<lparr>rt_reg := [1 \<mapsto> LObj 7], m_repeats := True\<rparr>)) = [Op_Wait k]"
  using timer_callback_result_taken_for_self [of "sample_timer\<lparr>rt_reg := [1 \<mapsto> LObj 7], m_repeats := True\<rparr>"
      1 7 1 "\<lambda>_ _. ret [LNum 42]" "LNum 42"]
  by (auto simp: sample_timer_def)

text \<open>
  A one-shot timer fires once: when it fires without an error it calls its callback once,
  with no arguments, and starts no other wait; when it was cancelled it calls nothing.
\<close>
theorem timer_fires_once:
  fixes lua :: "timer lua_fun"
  assumes "pure_callback lua" and "rt_stack s = []" and "rt_reg s r = Some (LObj p)" and "0 < r"
    and "rt_objs s p ''callback'' = LFun f" and "\<not> m_repeats s"
  shows "rt_calls (exec (Timer_OnTimeout lua r Ok_Ec) s) = rt_calls s @ [(LFun f, [])] \<and>
    a_ops (exec (Timer_OnTimeout lua r Ok_Ec) s) = a_ops s \<and>
    rt_calls (exec (Timer_OnTimeout lua r (Err_Ec Operation_Aborted v m)) s) = rt_calls s"
  using assms
  by (simp add: Timer_OnTimeout_def exec_fetch_self exec_whenM exec_if lua_getfield_def lua_type_def
      vm_call_def lua_settop_def pure_callback_def Let_def)

lemma timer_fires_once_witness:
  "rt_calls (exec (Timer_OnTimeout (\<lambda>_ _. ret [LNum 1]) 1 Ok_Ec)
     (sample_timer\<lparr>rt_reg := [1 \<mapsto> LObj 7]\<rparr>)) = [(LFun 1, [])]"
  using timer_fires_once [of "\<lambda>_ _. ret [LNum 1]" "sample_timer\<lparr>rt_reg := [1 \<mapsto> LObj 7]\<rparr>" 1 7 1]
  by (simp add: sample_timer_def pure_callback_def)

end
