(* ===== verification/Secure_Socket.thy ===== *)
theory Secure_Socket
  imports Async_Op
begin

section \<open>TLS sockets (\<^verbatim>\<open>src/luanode_crypto.cpp\<close>, class \<^verbatim>\<open>Socket\<close>)\<close>

text \<open>
  \<^verbatim>\<open>LuaNode::Crypto::Socket\<close> over a Boost SSL stream: the methods and the completion
  handlers.  \<open>ssl_op\<close> are the operations handed to the stream, \<open>ssl_call\<close> the calls made
  on the socket under it.  What OpenSSL knows of the peer (its certificate, the result of
  the verification, the next error text) are fields of the state that no operation changes.

  The properties: one write at a time, nothing is closed or shut down while it is in flight,
  the references of outstanding operations are live, \<open>shutdown\<close> does nothing before a write
  completes, and what becomes of a deferred close.
\<close>

subsection \<open>State\<close>

datatype sd_kind = Shut_Receive | Shut_Send

datatype ssl_call = Ssl_Shutdown sd_kind | Ssl_Close

datatype handshake_type = Hs_Client | Hs_Server

datatype ssl_op =
    Op_Ssl_Write int string
  | Op_Ssl_Read_Some int
  | Op_Ssl_Read_Until int string
  | Op_Ssl_Handshake int handshake_type

record peer_cert =
  pc_subject :: "string option"
  pc_issuer :: "string option"
  pc_not_before :: string
  pc_not_after :: string
  pc_sha1 :: "8 word list option"

record secure_socket = "(ssl_op, ssl_call) async" +
  m_socketId :: "32 word"
  m_shutdown_pending :: bool
  m_close_pending :: bool
  m_pending_writes :: "64 word"
  m_pending_reads :: "64 word"
  m_write_queue_size :: "64 word"
  m_inputBuffer :: string
  m_inputArray :: string
  m_handshake_type :: handshake_type
  m_should_verify :: bool
  m_shutdown_send :: bool
  ssl_peer :: "peer_cert option"
  ssl_verify_result :: int
  ssl_error_text :: string

record secure_globals =
  s_nextSocketId :: "64 word"
  s_socketCount :: "64 word"

definition GetSecureSocketCount :: "secure_globals \<Rightarrow> 'a rt_scheme meth" where
  "GetSecureSocketCount g = do { lua_push (LNum (sint (s_socketCount g))); ret_n 1 }"

text \<open>
  The constructor counts the socket before it checks its arguments.  \<open>is_socket\<close> and
  \<open>is_context\<close> tell which userdata are of the classes the bridge checks for;
  \<open>m_shutdown_send\<close> is not initialised and keeps whatever the memory holds.
\<close>

fun check_class :: "(nat \<Rightarrow> bool) \<Rightarrow> nat \<Rightarrow> lval \<Rightarrow> lua_error + nat" where
  "check_class is_class i (LObj p) = (if is_class p then Inr p else Inl (Arg_Error i))"
| "check_class is_class i _ = Inl (Arg_Error i)"

definition Secure_ctor :: "(nat \<Rightarrow> bool) \<Rightarrow> (nat \<Rightarrow> bool) \<Rightarrow> lval list \<Rightarrow> secure_globals \<Rightarrow>
    secure_socket \<Rightarrow> (lua_error + secure_socket) \<times> secure_globals" where
  "Secure_ctor is_socket is_context args g s = (
     let g' = g\<lparr>s_nextSocketId := s_nextSocketId g + 1, s_socketCount := s_socketCount g + 1\<rparr>
     in case check_class is_socket 1 (stack_at args 1) of
          Inl e \<Rightarrow> (Inl e, g')
        | Inr _ \<Rightarrow> (case check_class is_context 2 (stack_at args 2) of
            Inl e \<Rightarrow> (Inl e, g')
          | Inr _ \<Rightarrow> (Inr (s\<lparr>
              m_socketId := ucast (s_nextSocketId g'), m_shutdown_pending := False,
              m_close_pending := False, m_pending_writes := 0, m_pending_reads := 0,
              m_write_queue_size := 0,
              m_handshake_type := (if to_boolean (stack_at args 3) then Hs_Server else Hs_Client),
              m_should_verify := to_boolean (stack_at args 4)\<rparr>), g')))"

definition Secure_dtor :: "secure_globals \<Rightarrow> secure_globals" where
  "Secure_dtor g = g\<lparr>s_socketCount := s_socketCount g - 1\<rparr>"

subsection \<open>The peer's certificate\<close>

definition push_crypto_error :: "(secure_socket, nat) state" where
  "push_crypto_error = do {
     text \<leftarrow> gets ssl_error_text;
     lua_push LNil;
     lua_push (LStr text);
     ret 2
   }"

definition Secure_SetOption :: "secure_socket meth" where
  "Secure_SetOption = ret_n 0"

definition Secure_VerifyPeer :: "secure_socket meth" where
  "Secure_VerifyPeer = do {
     peer_cert \<leftarrow> gets ssl_peer;
     case peer_cert of None \<Rightarrow> do {
       lua_push (LBool False);
       _ \<leftarrow> push_crypto_error;
       ret_n 2
     }
     | Some _ \<Rightarrow> do {
       x509_verify_error \<leftarrow> gets ssl_verify_result;
       (if x509_verify_error = 0 then lua_push (LBool True) else lua_push (LBool False));
       ret_n 1
     }
   }"

text \<open>\<^verbatim>\<open>lua_pushstring\<close> takes a C string: it stops at the first NUL.\<close>

definition c_string :: "string \<Rightarrow> string" where
  "c_string = takeWhile (\<lambda>c. c \<noteq> CHR 0x00)"

definition HEX :: string where "HEX = ''0123456789ABCDEF''"

definition fingerprint_cell :: "8 word \<Rightarrow> string" where
  "fingerprint_cell b =
     [HEX ! unat (drop_bit 4 (and b 0xF0)), HEX ! unat (and b 0x0F), CHR '':'']"

definition fingerprint :: "8 word list \<Rightarrow> string" where
  "fingerprint md = c_string (
     if md = [] then [CHR 0x00]
     else (concat (map fingerprint_cell md))[3 * (length md - 1) + 2 := CHR 0x00])"

text \<open>Both dates are printed into one memory BIO, each read back with a 255 byte limit.\<close>

definition set_optional :: "nat \<Rightarrow> string \<Rightarrow> string option \<Rightarrow> ('a rt_scheme, unit) state" where
  "set_optional table k v = (case v of None \<Rightarrow> ret ()
     | Some x \<Rightarrow> do { lua_push (LStr (c_string x)); lua_setfield table k })"

definition Secure_GetPeerCertificate :: "secure_socket meth" where
  "Secure_GetPeerCertificate = do {
     peer \<leftarrow> gets ssl_peer;
     case peer of None \<Rightarrow> do {
       lua_push LNil;
       _ \<leftarrow> push_crypto_error;
       ret_n 2
     }
     | Some peer_cert \<Rightarrow> do {
       lua_push (LTab []);
       table \<leftarrow> lua_gettop;
       set_optional table ''subject'' (pc_subject peer_cert);
       set_optional table ''issuer'' (pc_issuer peer_cert);
       (let bio = pc_not_before peer_cert;
            valid_from = take 255 bio;
            bio' = drop 255 bio @ pc_not_after peer_cert;
            valid_to = take 255 bio'
        in do {
          lua_push (LStr (c_string valid_from));
          lua_setfield table ''valid_from'';
          lua_push (LStr (c_string valid_to));
          lua_setfield table ''valid_to''
        });
       set_optional table ''fingerprint'' (map_option fingerprint (pc_sha1 peer_cert));
       ret_n 1
     }
   }"

subsection \<open>Methods that start operations\<close>

definition Secure_DoHandShake :: "secure_socket meth" where
  "Secure_DoHandShake = do {
     reference \<leftarrow> ref_self;
     hs \<leftarrow> gets m_handshake_type;
     start_async (Op_Ssl_Handshake reference hs);
     ret_n 0
   }"

definition Secure_Write :: "secure_socket meth" where
  "Secure_Write = do {
     pw \<leftarrow> gets m_pending_writes;
     if 0 < pw then do { lua_push (LBool False); ret_n 1 }
     else do {
       reference \<leftarrow> ref_self;
       t \<leftarrow> lua_type 2;
       if t = TString then do {
         d \<leftarrow> lua_tostring 2;
         modify (\<lambda>s. s\<lparr>m_pending_writes := m_pending_writes s + 1\<rparr>);
         start_async (Op_Ssl_Write reference d);
         lua_push (LBool True);
         ret_n 1
       }
       else raise (Lua_Error ''SecureSocket::Write, unhandled type'')
     }
   }"

definition Secure_Read :: "secure_socket meth" where
  "Secure_Read = do {
     reference \<leftarrow> ref_self;
     modify (\<lambda>s. s\<lparr>m_pending_reads := m_pending_reads s + 1\<rparr>);
     nothing \<leftarrow> lua_isnoneornil 2;
     number \<leftarrow> lua_isnumber 2;
     (if nothing then start_async (Op_Ssl_Read_Some reference)
      else if \<not> number then start_async (Op_Ssl_Read_Until reference [CHR 0x0D, CHR 0x0A])
      else ret ());
     ret_n 0
   }"

definition Secure_Close :: "secure_socket meth" where
  "Secure_Close = do {
     pw \<leftarrow> gets m_pending_writes;
     if pw \<noteq> 0 then do {
       modify (\<lambda>s. s\<lparr>m_close_pending := True\<rparr>);
       lua_push (LBool True);
       ret_n 1
     }
     else do { e \<leftarrow> os_call Ssl_Close; ret_ec e }
   }"

definition Secure_Shutdown :: "secure_socket meth" where
  "Secure_Shutdown = do {
     modify (\<lambda>s. s\<lparr>m_shutdown_pending := True\<rparr>);
     a \<leftarrow> luaL_checkstring 2;
     case a of Inl e \<Rightarrow> raise e | Inr how \<Rightarrow> do {
       whenM (how = ''write'') (modify (\<lambda>s. s\<lparr>m_shutdown_send := True\<rparr>));
       lua_push (LBool True);
       ret_n 1
     }
   }"

definition Secure_writeQueueSize :: "secure_socket meth" where
  "Secure_writeQueueSize = do {
     q \<leftarrow> gets m_write_queue_size;
     lua_push (LNum (sint q));
     ret_n 1
   }"

subsection \<open>Completion handlers\<close>

definition consume_input :: "(secure_socket, unit) state" where
  "consume_input = modify (\<lambda>s. s\<lparr>m_inputBuffer := []\<rparr>)"

text \<open>The error branch that four handlers share.\<close>

definition error_callback :: "secure_socket lua_fun \<Rightarrow> string \<Rightarrow> ec \<Rightarrow> (secure_socket, unit) state" where
  "error_callback lua name error = do {
     lua_getfield 1 name;
     t \<leftarrow> lua_type 2;
     whenM (t = TFunction) (do {
       lua_pushvalue 1;
       _ \<leftarrow> BoostErrorCodeToLua error;
       vm_call lua 4;
       consume_input
     })
   }"

definition close_when_idle :: "(secure_socket, unit) state" where
  "close_when_idle = do {
     idle \<leftarrow> gets (\<lambda>s. m_close_pending s \<and> m_pending_writes s = 0 \<and> m_pending_reads s = 0);
     whenM idle (do { _ \<leftarrow> os_call Ssl_Close; ret () })
   }"

definition Secure_HandleHandshake ::
    "secure_socket lua_fun \<Rightarrow> int \<Rightarrow> ec \<Rightarrow> (secure_socket, unit) state" where
  "Secure_HandleHandshake lua reference error = do {
     fetch_self reference;
     (if \<not> ec_fails error then do {
        lua_getfield 1 ''handshake_callback'';
        t \<leftarrow> lua_type 2;
        whenM (t = TFunction) (do { lua_pushvalue 1; lua_push (LBool True); vm_call lua 2 })
      }
      else error_callback lua ''handshake_callback'' error);
     lua_settop 0
   }"

definition shutdown_when_written :: "(secure_socket, unit) state" where
  "shutdown_when_written = do {
     due \<leftarrow> gets (\<lambda>s. m_pending_writes s = 0 \<and> m_shutdown_pending s);
     whenM due (do {
       send \<leftarrow> gets m_shutdown_send;
       _ \<leftarrow> (if send then os_call (Ssl_Shutdown Shut_Send) else os_call (Ssl_Shutdown Shut_Receive));
       ret ()
     })
   }"

definition Secure_HandleWrite ::
    "secure_socket lua_fun \<Rightarrow> int \<Rightarrow> ec \<Rightarrow> nat \<Rightarrow> (secure_socket, unit) state" where
  "Secure_HandleWrite lua reference error bytes_transferred = do {
     fetch_self reference;
     modify (\<lambda>s. s\<lparr>m_pending_writes := m_pending_writes s - 1\<rparr>);
     (if \<not> ec_fails error then do {
        lua_getfield 1 ''write_callback'';
        t \<leftarrow> lua_type 2;
        whenM (t = TFunction) (do { lua_pushvalue 1; lua_push (LBool True); vm_call lua 2 })
      }
      else error_callback lua ''write_callback'' error);
     shutdown_when_written;
     close_when_idle;
     lua_settop 0
   }"

text \<open>
  The line handler: it delivers the whole buffer, and returns at once from an error while a
  shutdown is pending.
\<close>

definition Secure_HandleRead ::
    "secure_socket lua_fun \<Rightarrow> int \<Rightarrow> ec \<Rightarrow> nat \<Rightarrow> (secure_socket, unit) state" where
  "Secure_HandleRead lua reference error bytes_transferred = do {
     fetch_self reference;
     modify (\<lambda>s. s\<lparr>m_pending_reads := m_pending_reads s - 1\<rparr>);
     stopping \<leftarrow> gets m_shutdown_pending;
     if ec_fails error \<and> stopping then ret ()
     else do {
       (if \<not> ec_fails error then do {
          lua_getfield 1 ''read_callback'';
          t \<leftarrow> lua_type 2;
          whenM (t = TFunction) (do {
            lua_pushvalue 1;
            data \<leftarrow> gets m_inputBuffer;
            lua_push (LStr data);
            consume_input;
            vm_call lua 2
          })
        }
        else error_callback lua ''read_callback'' error);
       close_when_idle;
       lua_settop 0
     }
   }"

definition Secure_HandleReadSome ::
    "secure_socket lua_fun \<Rightarrow> int \<Rightarrow> ec \<Rightarrow> nat \<Rightarrow> (secure_socket, unit) state" where
  "Secure_HandleReadSome lua reference error bytes_transferred = do {
     fetch_self reference;
     modify (\<lambda>s. s\<lparr>m_pending_reads := m_pending_reads s - 1\<rparr>);
     (if \<not> ec_fails error then do {
        data \<leftarrow> gets m_inputArray;
        lua_getfield 1 ''read_callback'';
        t \<leftarrow> lua_type 2;
        whenM (t = TFunction) (do {
          lua_pushvalue 1;
          lua_push (LStr (take bytes_transferred data));
          vm_call lua 2
        })
      }
      else error_callback lua ''read_callback'' error);
     close_when_idle;
     lua_settop 0
   }"

text \<open>No operation is bound to this handler: the \<^verbatim>\<open>async_shutdown\<close> calls are commented out.\<close>

definition Secure_HandleShutdown ::
    "secure_socket lua_fun \<Rightarrow> int \<Rightarrow> ec \<Rightarrow> (secure_socket, unit) state" where
  "Secure_HandleShutdown lua reference error = do {
     fetch_self reference;
     lua_getfield 1 ''read_callback'';
     t \<leftarrow> lua_type 2;
     whenM (t = TFunction) (do {
       lua_pushvalue 1;
       lua_push LNil;
       lua_push (LStr ''eof'');
       vm_call lua 3;
       whenM (ec_fails error) consume_input
     });
     lua_settop 0
   }"

subsection \<open>The socket as a state machine\<close>

datatype secure_method =
    Ssl_setoption | Ssl_verifyPeer | Ssl_getPeerCertificate | Ssl_close | Ssl_shutdown
  | Ssl_write | Ssl_read | Ssl_doHandShake | Ssl_writeQueueSize

fun Secure_methods :: "secure_method \<Rightarrow> secure_socket meth" where
  "Secure_methods Ssl_setoption = Secure_SetOption"
| "Secure_methods Ssl_verifyPeer = Secure_VerifyPeer"
| "Secure_methods Ssl_getPeerCertificate = Secure_GetPeerCertificate"
| "Secure_methods Ssl_close = Secure_Close"
| "Secure_methods Ssl_shutdown = Secure_Shutdown"
| "Secure_methods Ssl_write = Secure_Write"
| "Secure_methods Ssl_read = Secure_Read"
| "Secure_methods Ssl_doHandShake = Secure_DoHandShake"
| "Secure_methods Ssl_writeQueueSize = Secure_writeQueueSize"

fun ssl_handler :: "secure_socket lua_fun \<Rightarrow> ssl_op \<Rightarrow> ec \<Rightarrow> nat \<Rightarrow> (secure_socket, unit) state" where
  "ssl_handler lua (Op_Ssl_Write r d) e n = Secure_HandleWrite lua r e n"
| "ssl_handler lua (Op_Ssl_Read_Some r) e n = Secure_HandleReadSome lua r e n"
| "ssl_handler lua (Op_Ssl_Read_Until r d) e n = Secure_HandleRead lua r e n"
| "ssl_handler lua (Op_Ssl_Handshake r h) e n = Secure_HandleHandshake lua r e"

text \<open>The bytes that came with a completion are in the buffer its operation reads into.\<close>

fun ssl_arrive :: "ssl_op \<Rightarrow> string \<Rightarrow> secure_socket \<Rightarrow> secure_socket" where
  "ssl_arrive (Op_Ssl_Read_Some r) d s =
     s\<lparr>m_inputArray := d @ drop (length d) (m_inputArray s)\<rparr>"
| "ssl_arrive _ d s = s\<lparr>m_inputBuffer := m_inputBuffer s @ d\<rparr>"

inductive ssl_step :: "(secure_method, secure_socket) script \<Rightarrow> secure_socket \<Rightarrow> secure_socket \<Rightarrow> bool"
  for prog where
  ssl_lua: "ssl_step prog s (exec (run_acts Secure_methods acts) s)"
| ssl_done: "x \<in> set (a_ops s) \<Longrightarrow>
    ssl_step prog s (exec (ssl_handler (scripted Secure_methods prog) x e n)
      (ssl_arrive x d (take_op x s)))"

inductive_cases ssl_stepE: "ssl_step prog s t"

definition ssl_init :: "secure_socket \<Rightarrow> bool" where
  "ssl_init s \<longleftrightarrow> finite (dom (rt_reg s)) \<and> newref_ok (rt_env s) \<and> rt_stack s = [] \<and>
     a_ops s = [] \<and> a_trace s = [] \<and> \<not> m_shutdown_pending s \<and> \<not> m_close_pending s \<and>
     m_pending_writes s = 0 \<and> m_pending_reads s = 0 \<and> m_write_queue_size s = 0"

subsection \<open>The invariant\<close>

fun ssl_ref :: "ssl_op \<Rightarrow> int" where
  "ssl_ref (Op_Ssl_Write r d) = r"
| "ssl_ref (Op_Ssl_Read_Some r) = r"
| "ssl_ref (Op_Ssl_Read_Until r d) = r"
| "ssl_ref (Op_Ssl_Handshake r h) = r"

definition ssl_refs :: "ssl_op \<Rightarrow> int list" where
  "ssl_refs x = [ssl_ref x]"

lemma ssl_refs_ref [simp]: "ssl_refs x = [ssl_ref x]"
  by (simp add: ssl_refs_def)

fun ssl_is_write :: "ssl_op \<Rightarrow> bool" where
  "ssl_is_write (Op_Ssl_Write r d) = True"
| "ssl_is_write _ = False"

text \<open>Every call the class makes on the socket would cut a write off.\<close>

definition ssl_cuts :: "ssl_call \<Rightarrow> bool" where
  "ssl_cuts c = True"

text \<open>\<open>shut_after_write\<close>: a shutdown in the history has a completed write in the history.\<close>

definition shut_after_write :: "(ssl_op, ssl_call) event list \<Rightarrow> bool" where
  "shut_after_write tr \<longleftrightarrow> (\<forall>k. Called (Ssl_Shutdown k) \<in> set tr \<longrightarrow>
     (\<exists>r d. Completed (Op_Ssl_Write r d) \<in> set tr))"

lemma shut_after_write_snoc:
  "shut_after_write tr \<Longrightarrow> shut_after_write (tr @ [Started x])"
  "shut_after_write tr \<Longrightarrow> shut_after_write (tr @ [Completed x])"
  "shut_after_write tr \<Longrightarrow> shut_after_write (tr @ [Called Ssl_Close])"
  "Completed (Op_Ssl_Write r d) \<in> set tr \<Longrightarrow> shut_after_write (tr @ [Called c])"
  by (auto simp: shut_after_write_def)

text \<open>The flag \<open>w\<close> says that a write has completed, as its handler knows.\<close>

definition ssl_inv :: "bool \<Rightarrow> secure_socket \<Rightarrow> bool" where
  "ssl_inv w s \<longleftrightarrow>
     live_in ssl_ref ssl_refs (rt_env s) (rt_reg s) (a_self s) (a_ops s) \<and>
     m_pending_writes s = of_nat (count_if ssl_is_write (a_ops s)) \<and>
     count_if ssl_is_write (a_ops s) \<le> 1 \<and>
     quiet_in ssl_is_write ssl_cuts (a_trace s) (a_ops s) \<and>
     shut_after_write (a_trace s) \<and>
     (w \<longrightarrow> (\<exists>r d. Completed (Op_Ssl_Write r d) \<in> set (a_trace s)))"

lemma call_free_ssl_inv: "call_free (ssl_inv w)"
  by (simp add: call_free_def stack_free_def ssl_inv_def)

lemma stack_free_ssl_inv: "stack_free (ssl_inv w)"
  using call_free_ssl_inv by (simp add: call_free_def)

lemmas ssl_free = stack_free_ssl_inv call_free_ssl_inv

lemma ssl_inv_cases:
  assumes "ssl_inv w s"
  obtains "m_pending_writes s = 0" "count_if ssl_is_write (a_ops s) = 0"
  | "m_pending_writes s = 1" "count_if ssl_is_write (a_ops s) = 1"
  using assms by (auto simp: ssl_inv_def le_Suc_eq)

lemma ssl_inv_weaken: "ssl_inv w s \<Longrightarrow> ssl_inv False s"
  by (simp add: ssl_inv_def)

lemmas ssl_inv_simps = ssl_inv_def quiet_in_def live_in_start live_in_ref shut_after_write_snoc

lemma ssl_inv_call:
  assumes "ssl_inv w s" and "m_pending_writes s = 0" and "w \<or> c = Ssl_Close"
  shows "ssl_inv w (exec (os_call c) s)"
  using assms(1) by (rule ssl_inv_cases)
    (insert assms, auto simp: ssl_inv_simps)

lemma ssl_inv_Write:
  assumes "ssl_inv w s" and "rt_stack s = LObj (a_self s) # args"
  shows "ssl_inv w (exec Secure_Write s)"
  using assms(1) by (rule ssl_inv_cases)
    (insert assms, auto simp: Secure_Write_def meth_simps ssl_inv_simps)

lemma ssl_inv_Read:
  assumes "ssl_inv w s" and "rt_stack s = LObj (a_self s) # args"
  shows "ssl_inv w (exec Secure_Read s)"
  using assms by (auto simp: Secure_Read_def meth_simps ssl_inv_simps)

lemma ssl_inv_DoHandShake:
  assumes "ssl_inv w s" and "rt_stack s = LObj (a_self s) # args"
  shows "ssl_inv w (exec Secure_DoHandShake s)"
  using assms by (auto simp: Secure_DoHandShake_def meth_simps ssl_inv_simps)

lemma ssl_inv_Close:
  assumes "ssl_inv w s"
  shows "ssl_inv w (exec Secure_Close s)"
  using assms ssl_inv_call [OF assms] stack_freeD [OF stack_free_ssl_inv]
  by (auto simp: Secure_Close_def exec_if lua_push_def ssl_inv_def)

lemma pres_ssl_flags [pres_intros]:
  "pres (ssl_inv w) (modify (\<lambda>s. s\<lparr>m_shutdown_pending := b\<rparr>))"
  "pres (ssl_inv w) (modify (\<lambda>s. s\<lparr>m_shutdown_send := b\<rparr>))"
  "pres (ssl_inv w) (modify (\<lambda>s. s\<lparr>m_pending_reads := m_pending_reads s - 1\<rparr>))"
  "pres (ssl_inv w) consume_input"
  by (simp_all add: pres_def consume_input_def ssl_inv_def)

lemma pres_ssl_observers:
  "pres (ssl_inv w) Secure_SetOption" "pres (ssl_inv w) Secure_VerifyPeer"
  "pres (ssl_inv w) Secure_GetPeerCertificate" "pres (ssl_inv w) Secure_Shutdown"
  "pres (ssl_inv w) Secure_writeQueueSize"
  unfolding Secure_SetOption_def Secure_VerifyPeer_def Secure_GetPeerCertificate_def Let_def
    push_crypto_error_def set_optional_def Secure_Shutdown_def Secure_writeQueueSize_def
  by (intro pres_intros ssl_free)+

lemma ssl_inv_methods:
  assumes "ssl_inv w s" and "rt_stack s = LObj (a_self s) # args"
  shows "ssl_inv w (exec (Secure_methods m) s)"
  using assms pres_ssl_observers [of w]
  by (cases m) (simp_all add: presD ssl_inv_Close ssl_inv_Write ssl_inv_Read ssl_inv_DoHandShake)

lemma pres_ssl_act: "pres (ssl_inv w) (run_act Secure_methods x)"
proof (rule pres_run_act)
  show "ssl_inv w (exec (Secure_methods m) s)"
    if "ssl_inv w s" "rt_stack s = LObj (a_self s) # args" for m s args
    using that by (rule ssl_inv_methods)
qed (auto simp: ssl_inv_simps stack_free_ssl_inv)

lemma pres_ssl_scripted: "pres (ssl_inv w) (scripted Secure_methods prog f args)"
  by (rule pres_scripted [OF pres_ssl_act])

subsection \<open>Every completion keeps it\<close>

lemma ssl_arrive_other [simp]:
  "rt_env (ssl_arrive x d s) = rt_env s" "rt_reg (ssl_arrive x d s) = rt_reg s"
  "a_self (ssl_arrive x d s) = a_self s" "a_ops (ssl_arrive x d s) = a_ops s"
  "a_trace (ssl_arrive x d s) = a_trace s" "rt_stack (ssl_arrive x d s) = rt_stack s"
  "m_pending_writes (ssl_arrive x d s) = m_pending_writes s"
  by (cases x; simp)+

lemma ssl_inv_completed:
  assumes "ssl_inv w s" and x: "x \<in> set (a_ops s)"
    and "rt_env t = rt_env s" "rt_reg t = (rt_reg s)(ssl_ref x := None)" "a_self t = a_self s"
    and "a_ops t = remove1 x (a_ops s)" "a_trace t = a_trace s @ [Completed x]"
    and "m_pending_writes t = (if ssl_is_write x then m_pending_writes s - 1 else m_pending_writes s)"
  shows "ssl_inv (ssl_is_write x) t"
proof -
  have "count_if ssl_is_write (a_ops s) = 1" if "ssl_is_write x"
    using count_if_pos [of x "a_ops s" ssl_is_write] assms(1,2) that by (auto simp: ssl_inv_def)
  moreover have "\<exists>r d. x = Op_Ssl_Write r d" if "ssl_is_write x"
    using that by (cases x) auto
  ultimately show ?thesis
    using assms live_in_complete1 [of ssl_ref ssl_refs _ _ _ _ x "ssl_ref x"]
    by (auto simp: ssl_inv_def quiet_in_complete count_if_remove1 shut_after_write_snoc)
qed

lemma ssl_ref_pos: "ssl_inv w s \<Longrightarrow> x \<in> set (a_ops s) \<Longrightarrow> 0 < ssl_ref x"
  using live_inD(3) [of ssl_ref ssl_refs _ _ _ _ x "ssl_ref x"] by (auto simp: ssl_inv_def)

lemma pres_close_when_idle [pres_intros]: "pres (ssl_inv w) close_when_idle"
  using ssl_inv_call by (simp add: pres_def close_when_idle_def exec_whenM)

lemma pres_shutdown_when_written: "pres (ssl_inv True) shutdown_when_written"
  using ssl_inv_call [of True] by (simp add: pres_def shutdown_when_written_def exec_whenM exec_if)

lemma pres_error_callback [pres_intros]:
  "(\<And>f args. pres (ssl_inv w) (lua f args)) \<Longrightarrow> pres (ssl_inv w) (error_callback lua k e)"
  unfolding error_callback_def by (intro pres_intros ssl_free) auto

text \<open>The head of a handler, then a body that keeps the invariant.\<close>

lemma ssl_inv_handlerI:
  assumes I: "ssl_inv False s" and x: "x \<in> set (a_ops s)" and r: "r = ssl_ref x"
    and nw: "\<not> ssl_is_write x" and body: "pres (ssl_inv False) body"
  shows "ssl_inv False (exec (fetch_self r \<bind> (\<lambda>_. body)) (ssl_arrive x d (take_op x s)))"
proof -
  have "ssl_inv (ssl_is_write x) (exec (fetch_self r) (ssl_arrive x d (take_op x s)))"
    by (rule ssl_inv_completed [OF I x])
      (use nw ssl_ref_pos [OF I x] in \<open>simp_all add: exec_fetch_self take_op_def r\<close>)
  with nw presD [OF body] show ?thesis by simp
qed

lemma ssl_inv_writeI:
  assumes I: "ssl_inv False s" and x: "Op_Ssl_Write r w \<in> set (a_ops s)"
    and body: "pres (ssl_inv True) body"
  shows "ssl_inv False (exec (fetch_self r \<bind> (\<lambda>_.
    modify (\<lambda>s. s\<lparr>m_pending_writes := m_pending_writes s - 1\<rparr>) \<bind> (\<lambda>_. body)))
    (ssl_arrive (Op_Ssl_Write r w) d (take_op (Op_Ssl_Write r w) s)))"
proof -
  let ?x = "Op_Ssl_Write r w"
  have "ssl_inv (ssl_is_write ?x) (exec (do {
      fetch_self r; modify (\<lambda>s. s\<lparr>m_pending_writes := m_pending_writes s - 1\<rparr>) })
      (ssl_arrive ?x d (take_op ?x s)))"
    by (rule ssl_inv_completed [OF I x])
      (use ssl_ref_pos [OF I x] in \<open>simp_all add: exec_fetch_self take_op_def\<close>)
  then have "ssl_inv True (exec (do {
      fetch_self r; modify (\<lambda>s. s\<lparr>m_pending_writes := m_pending_writes s - 1\<rparr>) })
      (ssl_arrive ?x d (take_op ?x s)))"
    by simp
  from presD [OF body this] show ?thesis by (simp add: ssl_inv_weaken)
qed

lemma ssl_inv_done:
  assumes I: "ssl_inv False s" and x: "x \<in> set (a_ops s)"
    and lua: "\<And>w f args. pres (ssl_inv w) (lua f args)"
  shows "ssl_inv False (exec (ssl_handler lua x e n) (ssl_arrive x d (take_op x s)))"
proof (cases x)
  case (Op_Ssl_Write r w)
  show ?thesis
    unfolding Op_Ssl_Write ssl_handler.simps Secure_HandleWrite_def
    by (rule ssl_inv_writeI [OF I x [unfolded Op_Ssl_Write]])
      (intro pres_shutdown_when_written pres_intros ssl_free lua)
next
  case (Op_Ssl_Read_Some r)
  show ?thesis
    unfolding Op_Ssl_Read_Some ssl_handler.simps Secure_HandleReadSome_def
    by (rule ssl_inv_handlerI; (fact I x [unfolded Op_Ssl_Read_Some] | (simp; fail))?)
      (intro pres_intros ssl_free lua)
next
  case (Op_Ssl_Read_Until r w)
  show ?thesis
    unfolding Op_Ssl_Read_Until ssl_handler.simps Secure_HandleRead_def
    by (rule ssl_inv_handlerI; (fact I x [unfolded Op_Ssl_Read_Until] | (simp; fail))?)
      (intro pres_intros ssl_free lua)
next
  case (Op_Ssl_Handshake r h)
  show ?thesis
    unfolding Op_Ssl_Handshake ssl_handler.simps Secure_HandleHandshake_def
    by (rule ssl_inv_handlerI; (fact I x [unfolded Op_Ssl_Handshake] | (simp; fail))?)
      (intro pres_intros ssl_free lua)
qed

lemma ssl_inv_step: "ssl_inv False s \<Longrightarrow> ssl_step prog s t \<Longrightarrow> ssl_inv False t"
  by (erule ssl_stepE) (auto intro: ssl_inv_done pres_ssl_scripted presD [OF pres_run_acts [OF pres_ssl_act]])

lemma ssl_inv_init: "ssl_init s \<Longrightarrow> ssl_inv False s"
  by (simp add: ssl_init_def ssl_inv_def live_in_def shut_after_write_def)

lemma ssl_inv_facts:
  assumes "ssl_inv False s"
  shows "live ssl_ref ssl_refs s" "single_writer ssl_is_write (m_pending_writes s) (a_ops s)"
    "quiet_in ssl_is_write ssl_cuts (a_trace s) (a_ops s)"
  using assms by (simp_all add: ssl_inv_def live_def single_writer_def)

interpretation ssl: async_writer ssl_init "ssl_step prog" "ssl_inv False" ssl_ref ssl_refs
  m_pending_writes ssl_is_write ssl_cuts
  for prog
  by unfold_locales (fact ssl_inv_init ssl_inv_step ssl_inv_facts)+

subsection \<open>Properties\<close>

definition sample_secure :: secure_socket where
  "sample_secure = \<lparr>rt_env = sample_env, rt_stack = [], rt_reg = Map.empty,
     rt_objs = (\<lambda>_ _. LNil), rt_calls = [], a_self = 7, a_ops = [], a_os = [], a_trace = [],
     a_ec = (\<lambda>_ _. Ok_Ec), a_addr = (\<lambda>_ _. ([], 0)), m_socketId = 1, m_shutdown_pending = False,
     m_close_pending = False, m_pending_writes = 0, m_pending_reads = 0, m_write_queue_size = 0,
     m_inputBuffer = [], m_inputArray = [], m_handshake_type = Hs_Client, m_should_verify = False,
     m_shutdown_send = False, ssl_peer = None, ssl_verify_result = 0, ssl_error_text = []\<rparr>"

text \<open>After \<^verbatim>\<open>s:shutdown("write"); s:write("hi")\<close>, and after that write has completed.\<close>

definition sample_secure_writing :: secure_socket where
  "sample_secure_writing = exec (run_acts Secure_methods
     [Invoke Ssl_shutdown [LStr ''write''], Invoke Ssl_write [LStr ''hi'']]) sample_secure"

definition sample_secure_written :: secure_socket where
  "sample_secure_written = exec (ssl_handler (scripted Secure_methods (\<lambda>_ _ _. ([], [])))
     (Op_Ssl_Write 1 ''hi'') Ok_Ec 2)
     (ssl_arrive (Op_Ssl_Write 1 ''hi'') [] (take_op (Op_Ssl_Write 1 ''hi'') sample_secure_writing))"

lemma reach_sample_secure_writing: "reach ssl_init (ssl_step prog) sample_secure_writing"
proof -
  have "ssl_init sample_secure"
    by (simp add: ssl_init_def sample_secure_def newref_ok_sample)
  then show ?thesis
    unfolding sample_secure_writing_def by (rule reach_step [OF reach_init]) (rule ssl_lua)
qed

lemma sample_secure_writing_eq:
  "sample_secure_writing = sample_secure\<lparr>rt_reg := [1 \<mapsto> LObj 7], a_ops := [Op_Ssl_Write 1 ''hi''],
     a_trace := [Started (Op_Ssl_Write 1 ''hi'')], m_shutdown_pending := True,
     m_pending_writes := 1, m_shutdown_send := True\<rparr>"
  by (simp add: sample_secure_writing_def sample_secure_def thunk_methods_def Secure_Write_def
      Secure_Shutdown_def meth_simps as_string_def)

lemma reach_sample_secure_written: "reach ssl_init (ssl_step (\<lambda>_ _ _. ([], []))) sample_secure_written"
  unfolding sample_secure_written_def
  by (rule reach_step [OF reach_sample_secure_writing], rule ssl_done)
    (simp add: sample_secure_writing_eq)

lemmas secure_handler_simps = exec_fetch_self exec_if exec_whenM lua_prim_defs Let_def
  shutdown_when_written_def close_when_idle_def error_callback_def consume_input_def ec_results_def

lemma sample_secure_written_os: "a_os sample_secure_written = [Ssl_Shutdown Shut_Send]"
  by (simp add: sample_secure_written_def sample_secure_writing_eq Secure_HandleWrite_def
      secure_handler_simps take_op_def sample_secure_def)

lemma sample_secure_written_trace:
  "Called (Ssl_Shutdown Shut_Send) \<in> set (a_trace sample_secure_written)"
  by (simp add: sample_secure_written_def sample_secure_writing_eq Secure_HandleWrite_def
      secure_handler_simps take_op_def sample_secure_def)

text \<open>
  C30: A TLS socket has at most one write outstanding, \<open>m_pending_writes\<close> counts it, and the
  socket under it is neither closed nor shut down while that write is in flight, in every
  state a Lua program and the network can bring it to.
\<close>
theorem ssl_one_write_uncut:
  assumes "reach ssl_init (ssl_step prog) s"
  shows "m_pending_writes s = of_nat (count_if ssl_is_write (a_ops s)) \<and>
    count_if ssl_is_write (a_ops s) \<le> 1 \<and> quiet ssl_is_write ssl_cuts 0 (a_trace s)"
  using ssl.reach_one_write [OF assms] ssl.reach_quiet [OF assms] by simp

lemma ssl_one_write_uncut_witness:
  "m_pending_writes sample_secure_writing = 1 \<and>
   quiet ssl_is_write ssl_cuts 0 (a_trace sample_secure_writing)"
  using ssl_one_write_uncut [OF reach_sample_secure_writing]
  by (simp add: sample_secure_writing_eq)

text \<open>
  The object a TLS handler is bound to is alive when it runs: each outstanding operation
  has a registry reference of its own that holds the socket.
\<close>
theorem ssl_handlers_have_their_object:
  assumes "reach ssl_init (ssl_step prog) s" and "x \<in> set (a_ops s)"
  shows "rt_reg s (ssl_ref x) = Some (LObj (a_self s)) \<and> distinct (map ssl_ref (a_ops s))"
proof -
  have "concat (map ssl_refs xs) = map ssl_ref xs" for xs by (induction xs) simp_all
  with ssl.reach_self_kept [OF assms] ssl.reach_refs_distinct [OF assms(1)] show ?thesis by simp
qed

lemma ssl_handlers_have_their_object_witness:
  "rt_reg sample_secure_writing 1 = Some (LObj 7)"
  using ssl_handlers_have_their_object [OF reach_sample_secure_writing, of "Op_Ssl_Write 1 ''hi''"]
  by (simp add: sample_secure_writing_eq sample_secure_def)

text \<open>
  \<open>shutdown\<close> only takes effect when a write completes: in every reachable state whose
  history holds a shutdown of the socket, it also holds the completion of a write.  A program
  that calls it with nothing to write is answered true and the connection stays open.
\<close>
theorem ssl_shutdown_needs_a_write:
  assumes "reach ssl_init (ssl_step prog) s" and "Called (Ssl_Shutdown k) \<in> set (a_trace s)"
  shows "\<exists>r d. Completed (Op_Ssl_Write r d) \<in> set (a_trace s)"
  using ssl.reach_inv [OF assms(1)] assms(2) by (auto simp: ssl_inv_def shut_after_write_def)

lemma ssl_shutdown_needs_a_write_witness:
  "\<exists>r d. Completed (Op_Ssl_Write r d) \<in> set (a_trace sample_secure_written)"
  by (rule ssl_shutdown_needs_a_write [OF reach_sample_secure_written sample_secure_written_trace])

text \<open>
  \<open>read(n)\<close> with a number starts nothing but counts a read, and a deferred close waits for
  that count: when the last write completes the socket is not closed, although nothing is
  outstanding and no later event can close it.
\<close>
theorem ssl_read_number_blocks_close:
  fixes lua :: "secure_socket lua_fun" and n :: nat
  assumes "rt_stack s = [LObj p, LNum k]" and "m_pending_reads s = 0"
  defines "t \<equiv> exec Secure_Read s"
  assumes "m_pending_reads u = m_pending_reads t" and "m_pending_writes u = 1"
    and "m_close_pending u" and "\<not> m_shutdown_pending u" and "pure_callback lua"
    and "a_ops u = []" and "rt_stack u = []" and "rt_reg u r = Some (LObj p)"
  defines "v \<equiv> exec (Secure_HandleWrite lua r Ok_Ec n) u"
  shows "a_ops t = a_ops s \<and> m_close_pending v \<and> a_ops v = [] \<and> a_os v = a_os u"
proof -
  have t: "a_ops t = a_ops s" "m_pending_reads t = 1"
    using assms(1,2) by (simp_all add: t_def Secure_Read_def meth_simps none_or_nil_def as_integer_def)
  then have "m_pending_reads u = 1" using assms(4) by simp
  then show ?thesis
    using t assms(5-11) unfolding v_def
    by (simp add: Secure_HandleWrite_def secure_handler_simps vm_call_def pure_callback_def)
qed

lemma ssl_read_number_blocks_close_witness:
  "a_os (exec (Secure_HandleWrite (\<lambda>_ _. ret []) 1 Ok_Ec 2) (sample_secure\<lparr>rt_reg := [1 \<mapsto> LObj 7],
     m_pending_reads := 1, m_pending_writes := 1, m_close_pending := True\<rparr>)) = []"
proof -
  have "m_pending_reads (exec Secure_Read (sample_secure\<lparr>rt_stack := [LObj 7, LNum 5]\<rparr>)) = 1"
    by (simp add: Secure_Read_def meth_simps none_or_nil_def as_integer_def sample_secure_def)
  then show ?thesis
    using ssl_read_number_blocks_close [of "sample_secure\<lparr>rt_stack := [LObj 7, LNum 5]\<rparr>" 7 5
        "sample_secure\<lparr>rt_reg := [1 \<mapsto> LObj 7], m_pending_reads := 1, m_pending_writes := 1,
           m_close_pending := True\<rparr>" "\<lambda>_ _. ret []" 1 2]
    by (simp add: sample_secure_def pure_callback_def)
qed

text \<open>
  A line read that fails while a shutdown is pending returns early: the callback is not
  told, a deferred close is not carried out although nothing is outstanding any more, and the
  object stays on the Lua stack, so that the next write completion finds no callback either.
\<close>
theorem ssl_read_error_in_shutdown:
  fixes lua :: "secure_socket lua_fun"
  assumes "rt_stack s = []" and "rt_reg s r = Some (LObj p)" and "0 < r"
    and "ec_fails e" and "m_shutdown_pending s" and "m_close_pending s"
    and "m_pending_writes s = 0" and "m_pending_reads s = 1" and "a_ops s = []"
    and "rt_stack u = rt_stack t" and "rt_reg u k = Some (LObj q)"
  assumes t: "t = exec (Secure_HandleRead lua r e n) s"
  shows "rt_calls t = rt_calls s \<and> a_os t = a_os s \<and> m_close_pending t \<and> m_pending_reads t = 0 \<and>
    rt_stack t = [LObj p] \<and> rt_calls (exec (Secure_HandleWrite lua k Ok_Ec n) u) = rt_calls u"
proof -
  have "rt_stack t = [LObj p]"
    using assms by (simp add: Secure_HandleRead_def secure_handler_simps)
  then show ?thesis
    using assms(1-11) unfolding t
    by (simp add: Secure_HandleRead_def Secure_HandleWrite_def secure_handler_simps)
qed

lemma ssl_read_error_in_shutdown_witness:
  "rt_stack (exec (Secure_HandleRead (\<lambda>_ _. ret []) 1 (Err_Ec Eof 2 ''eof'') 0)
     (sample_secure\<lparr>rt_reg := [1 \<mapsto> LObj 7], m_shutdown_pending := True, m_close_pending := True,
       m_pending_reads := 1\<rparr>)) = [LObj 7]"
proof -
  let ?s = "sample_secure\<lparr>rt_reg := [1 \<mapsto> LObj 7], m_shutdown_pending := True, m_close_pending := True,
       m_pending_reads := 1\<rparr>"
  let ?t = "exec (Secure_HandleRead (\<lambda>_ _. ret []) 1 (Err_Ec Eof 2 ''eof'') 0) ?s"
  show ?thesis
    using ssl_read_error_in_shutdown [of ?s 1 7 "Err_Ec Eof 2 ''eof''"
        "sample_secure\<lparr>rt_stack := rt_stack ?t, rt_reg := [1 \<mapsto> LObj 7]\<rparr>" ?t 1 7 "\<lambda>_ _. ret []" 0]
    by (simp add: sample_secure_def)
qed

subsection \<open>The fingerprint\<close>

fun join_colon :: "string list \<Rightarrow> string" where
  "join_colon [] = []"
| "join_colon [x] = x"
| "join_colon (x # y # xs) = x @ CHR '':'' # join_colon (y # xs)"

definition hex_upper :: "8 word \<Rightarrow> string" where
  "hex_upper b = [HEX ! (unat b div 16), HEX ! (unat b mod 16)]"

lemma HEX_no_nul: "k < 16 \<Longrightarrow> HEX ! k \<noteq> CHR 0x00"
proof -
  assume "k < 16"
  moreover have "length HEX = 16" by (simp add: HEX_def)
  ultimately have "HEX ! k \<in> set HEX" by simp
  moreover have "CHR 0x00 \<notin> set HEX" by (simp add: HEX_def)
  ultimately show ?thesis by metis
qed

lemma fingerprint_cell_eq: "fingerprint_cell b = hex_upper b @ [CHR '':'']"
  unfolding fingerprint_cell_def nibbles hex_upper_def by simp

lemma nul_free_hex: "c \<in> set (hex_upper b) \<Longrightarrow> c \<noteq> CHR 0x00"
  using byte_unat_less [of b] HEX_no_nul [of "unat b div 16"] HEX_no_nul [of "unat b mod 16"]
  by (auto simp: hex_upper_def div_less_iff_less_mult)

lemma nul_free_join: "c \<in> set (join_colon (map hex_upper md)) \<Longrightarrow> c \<noteq> CHR 0x00"
  by (induction md rule: induct_list012) (auto dest: nul_free_hex)

lemma cells_join:
  "md \<noteq> [] \<Longrightarrow> concat (map fingerprint_cell md) = join_colon (map hex_upper md) @ [CHR '':'']"
  by (induction md rule: induct_list012) (simp_all add: fingerprint_cell_eq)

lemma length_cells: "length (concat (map fingerprint_cell md)) = 3 * length md"
  by (induction md) (simp_all add: fingerprint_cell_def)

text \<open>
  The fingerprint of a certificate is the bytes of its digest as pairs of upper case hex
  digits with a colon between two pairs and none at the end, whatever the digest: the trailing
  colon is where the code puts the terminator of the C string.
\<close>
theorem ssl_fingerprint_spec: "fingerprint md = join_colon (map hex_upper md)"
proof (cases "md = []")
  case False
  let ?j = "join_colon (map hex_upper md)"
  have "length (?j @ [CHR '':'']) = 3 * length md"
    using length_cells [of md] cells_join [OF False] by simp
  then have len: "3 * (length md - 1) + 2 = length ?j"
    using False by (cases md) simp_all
  have "takeWhile (\<lambda>c. c \<noteq> CHR 0x00) (?j @ [CHR 0x00]) = ?j"
    using nul_free_join [of _ md] by (subst takeWhile_append2) auto
  moreover have "(?j @ [CHR '':''])[3 * (length md - 1) + 2 := CHR 0x00] = ?j @ [CHR 0x00]"
    unfolding len by simp
  ultimately show ?thesis
    unfolding fingerprint_def c_string_def cells_join [OF False] using False by (simp only: if_False)
qed (simp add: fingerprint_def c_string_def)

end
