(* ===== verification/Crypto_Objects.thy ===== *)
theory Crypto_Objects
  imports Lua_Api
begin

section \<open>Digests, signatures and ciphers (\<^verbatim>\<open>src/luanode_crypto.cpp\<close>, the other classes)\<close>

text \<open>
  \<^verbatim>\<open>SecureContext\<close>, \<^verbatim>\<open>Hash\<close>, \<^verbatim>\<open>Hmac\<close>, \<^verbatim>\<open>Signer\<close>, \<^verbatim>\<open>Verifier\<close>, \<^verbatim>\<open>Cipher\<close>, \<^verbatim>\<open>Decipher\<close>,
  \<^verbatim>\<open>Open\<close> and \<^verbatim>\<open>Seal\<close>: their constructors and methods, and the output encodings they share.
  OpenSSL is the parameter \<open>E\<close> of the definitions that call it: a record of functions over
  the type \<open>'c\<close> of its contexts, \<open>'k\<close> of its keys and \<open>'x\<close> of its certificates.

  The properties: hexadecimal output determines the bytes, a hash is independent of how its
  input was cut into updates and can be read more than once, what \<open>verify\<close> answers when a
  signature does not match, and which keys overrun the buffer of a cipher.
\<close>

subsection \<open>OpenSSL\<close>

record ('c, 'k, 'x) openssl =
  max_key_length :: nat
  max_iv_length :: nat
  bio_write :: "string \<Rightarrow> bool"
  pem_private_key :: "string \<Rightarrow> 'k option"
  pem_x509 :: "string \<Rightarrow> 'x option"
  x509_pubkey :: "'x \<Rightarrow> 'k option"
  get_digest :: "string \<Rightarrow> nat option"
  get_cipher :: "string \<Rightarrow> nat option"
  cipher_iv_length :: "nat \<Rightarrow> nat"
  digest_init :: "nat \<Rightarrow> 'c"
  digest_update :: "'c \<Rightarrow> string \<Rightarrow> 'c"
  digest_final :: "'c \<Rightarrow> 8 word list"
  hmac_init :: "string \<Rightarrow> nat \<Rightarrow> 'c"
  hmac_update :: "'c \<Rightarrow> string \<Rightarrow> 'c"
  hmac_final :: "'c \<Rightarrow> 8 word list \<times> 'c"
  sign_final :: "'c \<Rightarrow> 'k \<Rightarrow> 8 word list option"
  verify_final :: "'c \<Rightarrow> string \<Rightarrow> 'k \<Rightarrow> int"
  encrypt_init :: "nat \<Rightarrow> string \<Rightarrow> string option \<Rightarrow> 'c"
  decrypt_init :: "nat \<Rightarrow> string \<Rightarrow> string option \<Rightarrow> 'c"
  open_init :: "nat \<Rightarrow> string \<Rightarrow> string \<Rightarrow> 'k \<Rightarrow> 'c option"
  seal_init :: "nat \<Rightarrow> 'k \<Rightarrow> ('c \<times> 8 word list \<times> 8 word list) option"
  crypt_update :: "'c \<Rightarrow> string \<Rightarrow> (8 word list \<times> 'c) option"
  crypt_final :: "'c \<Rightarrow> (8 word list \<times> 'c) option"

text \<open>
  Encryption, decryption, opening and sealing update the context with one entry point here:
  which of them it is was fixed by the initialisation.
\<close>

subsection \<open>State\<close>

record crypto_counts =
  s_secureContextCount :: "64 word"
  s_hashCount :: "64 word"
  s_hmacCount :: "64 word"
  s_signerCount :: "64 word"
  s_verifierCount :: "64 word"
  s_cipherCount :: "64 word"
  s_decipherCount :: "64 word"
  s_openCount :: "64 word"
  s_sealCount :: "64 word"

text \<open>
  One object of any of the classes: the context it wraps and, for the ciphers, how it encodes
  its output.  \<open>m_ek\<close> and \<open>m_iv\<close> are the encrypted key and the vector of a \<^verbatim>\<open>Seal\<close>;
  \<open>ctx_key\<close>, \<open>ctx_cert\<close> and \<open>m_ca_store\<close> what a \<^verbatim>\<open>SecureContext\<close> was given; \<open>err\<close> the
  number and text of OpenSSL's next error.
\<close>

record ('c, 'k, 'x) crypto_object = rt +
  counts :: crypto_counts
  m_context :: 'c
  m_outputMode :: "8 word"
  m_ek :: "8 word list"
  m_iv :: "8 word list"
  ctx_key :: "'k option"
  ctx_cert :: "'x option"
  m_ca_store :: "'x list"
  err :: "int \<times> string"

type_synonym ('c, 'k, 'x, 'r) crypto = "(('c, 'k, 'x) crypto_object, 'r) state"
type_synonym ('c, 'k, 'x) crypto_meth = "('c, 'k, 'x) crypto_object meth"

text \<open>A constructor finishes, raises, or writes beyond one of its buffers.\<close>

datatype made = Made | Raised lua_error | Overrun

definition GetSecureContextCount :: "('c, 'k, 'x) crypto_meth" where
  "GetSecureContextCount = do { n \<leftarrow> gets (s_secureContextCount \<circ> counts); lua_push (LNum (sint n)); ret_n 1 }"

definition GetHashCount :: "('c, 'k, 'x) crypto_meth" where
  "GetHashCount = do { n \<leftarrow> gets (s_hashCount \<circ> counts); lua_push (LNum (sint n)); ret_n 1 }"

definition GetHmacCount :: "('c, 'k, 'x) crypto_meth" where
  "GetHmacCount = do { n \<leftarrow> gets (s_hmacCount \<circ> counts); lua_push (LNum (sint n)); ret_n 1 }"

definition GetSignerCount :: "('c, 'k, 'x) crypto_meth" where
  "GetSignerCount = do { n \<leftarrow> gets (s_signerCount \<circ> counts); lua_push (LNum (sint n)); ret_n 1 }"

definition GetVerifierCount :: "('c, 'k, 'x) crypto_meth" where
  "GetVerifierCount = do { n \<leftarrow> gets (s_verifierCount \<circ> counts); lua_push (LNum (sint n)); ret_n 1 }"

definition GetCipherCount :: "('c, 'k, 'x) crypto_meth" where
  "GetCipherCount = do { n \<leftarrow> gets (s_cipherCount \<circ> counts); lua_push (LNum (sint n)); ret_n 1 }"

definition GetDecipherCount :: "('c, 'k, 'x) crypto_meth" where
  "GetDecipherCount = do { n \<leftarrow> gets (s_decipherCount \<circ> counts); lua_push (LNum (sint n)); ret_n 1 }"

definition GetOpenCount :: "('c, 'k, 'x) crypto_meth" where
  "GetOpenCount = do { n \<leftarrow> gets (s_openCount \<circ> counts); lua_push (LNum (sint n)); ret_n 1 }"

definition GetSealCount :: "('c, 'k, 'x) crypto_meth" where
  "GetSealCount = do { n \<leftarrow> gets (s_sealCount \<circ> counts); lua_push (LNum (sint n)); ret_n 1 }"

definition count_object :: "(crypto_counts \<Rightarrow> crypto_counts) \<Rightarrow> ('c, 'k, 'x, unit) crypto" where
  "count_object f = modify (\<lambda>s. s\<lparr>counts := f (counts s)\<rparr>)"

definition set_context :: "'c \<Rightarrow> ('c, 'k, 'x, unit) crypto" where
  "set_context c = modify (\<lambda>s. s\<lparr>m_context := c\<rparr>)"

subsection \<open>Errors and output encodings\<close>

definition crypto_error :: "string \<Rightarrow> ('c, 'k, 'x, lua_error) crypto" where
  "crypto_error func_name = do {
     e \<leftarrow> gets err;
     env \<leftarrow> gets rt_env;
     ret (Lua_Error (func_name @ '' - error '' @ le_num2str env (c_int (fst e)) @ [CHR 0x0A] @ snd e))
   }"

definition push_error :: "('c, 'k, 'x, nat) crypto" where
  "push_error = do {
     e \<leftarrow> gets err;
     lua_push LNil;
     lua_push (LStr (snd e));
     ret 2
   }"

definition byte_char :: "8 word \<Rightarrow> char" where
  "byte_char b = char_of (unat b)"

definition tohex :: "8 word \<Rightarrow> string" where
  "tohex c = [
     (if drop_bit 4 c > 9 then char_of (unat (drop_bit 4 c) + (97 - 10)) else char_of (unat (drop_bit 4 c) + 48)),
     (if and c 15 > 9 then char_of (unat (and c 15) + (97 - 10)) else char_of (unat (and c 15) + 48))]"

definition encode_output :: "8 word \<Rightarrow> 8 word list \<Rightarrow> ('c, 'k, 'x, unit) crypto" where
  "encode_output output_type data =
     (if output_type = 0 then lua_push (LStr (map byte_char data))
      else if output_type = 1 then lua_push (LStr (concat (map tohex data)))
      else ret ())"

definition encoding_options :: "string list" where
  "encoding_options = [''binary'', ''hex'']"

subsection \<open>\<^verbatim>\<open>SecureContext\<close>\<close>

definition SecureContext_ctor :: "('c, 'k, 'x, made) crypto" where
  "SecureContext_ctor = do {
     count_object (\<lambda>c. c\<lparr>s_secureContextCount := s_secureContextCount c + 1\<rparr>);
     modify (\<lambda>s. s\<lparr>ctx_key := None, ctx_cert := None, m_ca_store := []\<rparr>);
     ret Made
   }"

definition SecureContext_SetKey :: "('c, 'k, 'x) openssl \<Rightarrow> ('c, 'k, 'x) crypto_meth" where
  "SecureContext_SetKey E = do {
     a \<leftarrow> luaL_checkstring 2;
     case a of Inl e \<Rightarrow> raise e | Inr key_pem \<Rightarrow>
       if \<not> bio_write E key_pem then do { e \<leftarrow> crypto_error ''SecureContext::SetKey''; raise e }
       else (case pem_private_key E key_pem of
         None \<Rightarrow> do { e \<leftarrow> crypto_error ''SecureContext::SetKey''; raise e }
       | Some pkey \<Rightarrow> do {
           modify (\<lambda>s. s\<lparr>ctx_key := Some pkey\<rparr>);
           lua_push (LBool True);
           ret_n 1
         })
   }"

definition SecureContext_SetCert :: "('c, 'k, 'x) openssl \<Rightarrow> ('c, 'k, 'x) crypto_meth" where
  "SecureContext_SetCert E = do {
     a \<leftarrow> luaL_checkstring 2;
     case a of Inl e \<Rightarrow> raise e | Inr cert_pem \<Rightarrow>
       if \<not> bio_write E cert_pem then do { e \<leftarrow> crypto_error ''SecureContext::SetCert''; raise e }
       else (case pem_x509 E cert_pem of
         None \<Rightarrow> do { e \<leftarrow> crypto_error ''SecureContext::SetCert''; raise e }
       | Some x509 \<Rightarrow> do {
           modify (\<lambda>s. s\<lparr>ctx_cert := Some x509\<rparr>);
           lua_push (LBool True);
           ret_n 1
         })
   }"

definition SecureContext_AddCACert :: "('c, 'k, 'x) openssl \<Rightarrow> ('c, 'k, 'x) crypto_meth" where
  "SecureContext_AddCACert E = do {
     a \<leftarrow> luaL_checkstring 2;
     case a of Inl e \<Rightarrow> raise e | Inr cert_pem \<Rightarrow>
       if \<not> bio_write E cert_pem then do { e \<leftarrow> crypto_error ''SecureContext::AddCACert''; raise e }
       else (case pem_x509 E cert_pem of
         None \<Rightarrow> do { e \<leftarrow> crypto_error ''SecureContext::AddCACert''; raise e }
       | Some x509 \<Rightarrow> do {
           modify (\<lambda>s. s\<lparr>m_ca_store := m_ca_store s @ [x509]\<rparr>);
           lua_push (LBool True);
           ret_n 1
         })
   }"

subsection \<open>\<^verbatim>\<open>Hash\<close> and \<^verbatim>\<open>Hmac\<close>\<close>

definition Hash_ctor :: "('c, 'k, 'x) openssl \<Rightarrow> ('c, 'k, 'x, made) crypto" where
  "Hash_ctor E = do {
     count_object (\<lambda>c. c\<lparr>s_hashCount := s_hashCount c + 1\<rparr>);
     a \<leftarrow> luaL_checkstring 1;
     case a of Inl e \<Rightarrow> ret (Raised e) | Inr digest_name \<Rightarrow>
       (case get_digest E digest_name of
          None \<Rightarrow> ret (Raised (Arg_Error 1))
        | Some digest \<Rightarrow> do { set_context (digest_init E digest); ret Made })
   }"

definition Hash_Update :: "('c, 'k, 'x) openssl \<Rightarrow> ('c, 'k, 'x) crypto_meth" where
  "Hash_Update E = do {
     a \<leftarrow> luaL_checkstring 2;
     case a of Inl e \<Rightarrow> raise e | Inr data \<Rightarrow> do {
       c \<leftarrow> gets m_context;
       set_context (digest_update E c data);
       lua_settop 1;
       ret_n 1
     }
   }"

text \<open>The digest is finished on a copy of the context, before the option is checked.\<close>

definition Hash_Final :: "('c, 'k, 'x) openssl \<Rightarrow> ('c, 'k, 'x) crypto_meth" where
  "Hash_Final E = do {
     c \<leftarrow> gets m_context;
     (let digest = digest_final E c in do {
        chosen \<leftarrow> luaL_checkoption 2 (Some ''hex'') encoding_options;
        case chosen of Inl e \<Rightarrow> raise e
        | Inr chosen_option \<Rightarrow> do { encode_output (of_nat chosen_option) digest; ret_n 1 }
      })
   }"

definition Hmac_ctor :: "('c, 'k, 'x) openssl \<Rightarrow> ('c, 'k, 'x, made) crypto" where
  "Hmac_ctor E = do {
     count_object (\<lambda>c. c\<lparr>s_hmacCount := s_hmacCount c + 1\<rparr>);
     a \<leftarrow> luaL_checkstring 1;
     k \<leftarrow> luaL_checkstring 2;
     case a of Inl e \<Rightarrow> ret (Raised e) | Inr algorithm_name \<Rightarrow>
     (case k of Inl e \<Rightarrow> ret (Raised e) | Inr key \<Rightarrow>
       (case get_digest E algorithm_name of
          None \<Rightarrow> ret (Raised (Arg_Error 1))
        | Some digest \<Rightarrow> do { set_context (hmac_init E key digest); ret Made }))
   }"

definition Hmac_Update :: "('c, 'k, 'x) openssl \<Rightarrow> ('c, 'k, 'x) crypto_meth" where
  "Hmac_Update E = do {
     a \<leftarrow> luaL_checkstring 2;
     case a of Inl e \<Rightarrow> raise e | Inr data \<Rightarrow> do {
       c \<leftarrow> gets m_context;
       set_context (hmac_update E c data);
       lua_settop 1;
       ret_n 1
     }
   }"

definition Hmac_Final :: "('c, 'k, 'x) openssl \<Rightarrow> ('c, 'k, 'x) crypto_meth" where
  "Hmac_Final E = do {
     c \<leftarrow> gets m_context;
     (case hmac_final E c of (digest, c') \<Rightarrow> do {
        set_context c';
        chosen \<leftarrow> luaL_checkoption 2 (Some ''hex'') encoding_options;
        case chosen of Inl e \<Rightarrow> raise e
        | Inr chosen_option \<Rightarrow> do { encode_output (of_nat chosen_option) digest; ret_n 1 }
      })
   }"

subsection \<open>\<^verbatim>\<open>Signer\<close> and \<^verbatim>\<open>Verifier\<close>\<close>

definition Signer_ctor :: "('c, 'k, 'x) openssl \<Rightarrow> ('c, 'k, 'x, made) crypto" where
  "Signer_ctor E = do {
     count_object (\<lambda>c. c\<lparr>s_signerCount := s_signerCount c + 1\<rparr>);
     a \<leftarrow> luaL_checkstring 1;
     case a of Inl e \<Rightarrow> ret (Raised e) | Inr algorithm_name \<Rightarrow>
       (case get_digest E algorithm_name of
          None \<Rightarrow> ret (Raised (Arg_Error 1))
        | Some digest \<Rightarrow> do { set_context (digest_init E digest); ret Made })
   }"

definition Signer_Update :: "('c, 'k, 'x) openssl \<Rightarrow> ('c, 'k, 'x) crypto_meth" where
  "Signer_Update E = do {
     a \<leftarrow> luaL_checkstring 2;
     case a of Inl e \<Rightarrow> raise e | Inr data \<Rightarrow> do {
       c \<leftarrow> gets m_context;
       set_context (digest_update E c data);
       lua_settop 1;
       ret_n 1
     }
   }"

definition Signer_Sign :: "('c, 'k, 'x) openssl \<Rightarrow> ('c, 'k, 'x) crypto_meth" where
  "Signer_Sign E = do {
     a \<leftarrow> luaL_checkstring 2;
     case a of Inl e \<Rightarrow> raise e | Inr key_pem \<Rightarrow>
       if \<not> bio_write E key_pem then do { n \<leftarrow> push_error; ret_n n }
       else (case pem_private_key E key_pem of
         None \<Rightarrow> do { n \<leftarrow> push_error; ret_n n }
       | Some pkey \<Rightarrow> do {
           c \<leftarrow> gets m_context;
           case sign_final E c pkey of
             None \<Rightarrow> do { n \<leftarrow> push_error; ret_n n }
           | Some buffer \<Rightarrow> do { lua_push (LStr (map byte_char buffer)); ret_n 1 }
         })
   }"

definition Verifier_ctor :: "('c, 'k, 'x) openssl \<Rightarrow> ('c, 'k, 'x, made) crypto" where
  "Verifier_ctor E = do {
     count_object (\<lambda>c. c\<lparr>s_verifierCount := s_verifierCount c + 1\<rparr>);
     a \<leftarrow> luaL_checkstring 1;
     case a of Inl e \<Rightarrow> ret (Raised e) | Inr algorithm_name \<Rightarrow>
       (case get_digest E algorithm_name of
          None \<Rightarrow> ret (Raised (Arg_Error 1))
        | Some digest \<Rightarrow> do { set_context (digest_init E digest); ret Made })
   }"

definition Verifier_Update :: "('c, 'k, 'x) openssl \<Rightarrow> ('c, 'k, 'x) crypto_meth" where
  "Verifier_Update E = do {
     a \<leftarrow> luaL_checkstring 2;
     case a of Inl e \<Rightarrow> raise e | Inr data \<Rightarrow> do {
       c \<leftarrow> gets m_context;
       set_context (digest_update E c data);
       lua_settop 1;
       ret_n 1
     }
   }"

definition Verifier_Verify :: "('c, 'k, 'x) openssl \<Rightarrow> ('c, 'k, 'x) crypto_meth" where
  "Verifier_Verify E = do {
     a \<leftarrow> luaL_checkstring 2;
     b \<leftarrow> luaL_checkstring 3;
     case a of Inl e \<Rightarrow> raise e | Inr key_pem \<Rightarrow>
     (case b of Inl e \<Rightarrow> raise e | Inr signature \<Rightarrow>
       if \<not> bio_write E key_pem then do { n \<leftarrow> push_error; ret_n n }
       else (case pem_x509 E key_pem of
         None \<Rightarrow> do { n \<leftarrow> push_error; ret_n n }
       | Some x509 \<Rightarrow> (case x509_pubkey E x509 of
           None \<Rightarrow> do { n \<leftarrow> push_error; ret_n n }
         | Some pkey \<Rightarrow> do {
             c \<leftarrow> gets m_context;
             (if verify_final E c signature pkey \<noteq> 1 then do {
                lua_push (LBool False);
                _ \<leftarrow> push_error;
                ret ()
              }
              else lua_push (LBool True));
             ret_n 1
           })))
   }"

subsection \<open>\<^verbatim>\<open>Cipher\<close> and \<^verbatim>\<open>Decipher\<close>\<close>

text \<open>\<^verbatim>\<open>memcpy\<close> into a zeroed array of \<open>n\<close> bytes: no value when it writes past its end.\<close>

definition memcpy_into :: "nat \<Rightarrow> string \<Rightarrow> string option" where
  "memcpy_into n src = (if length src \<le> n then Some (src @ replicate (n - length src) (CHR 0x00)) else None)"

definition key_and_iv :: "('c, 'k, 'x) openssl \<Rightarrow> string \<Rightarrow> string option \<Rightarrow>
    (string \<times> string option) option" where
  "key_and_iv E key iv = (case memcpy_into (max_key_length E) key of
     None \<Rightarrow> None
   | Some evp_key \<Rightarrow> (case iv of
       None \<Rightarrow> Some (evp_key, None)
     | Some v \<Rightarrow> (case memcpy_into (max_iv_length E) v of
         None \<Rightarrow> None | Some evp_iv \<Rightarrow> Some (evp_key, Some evp_iv))))"

definition set_output_mode :: "nat \<Rightarrow> ('c, 'k, 'x, unit) crypto" where
  "set_output_mode n = modify (\<lambda>s. s\<lparr>m_outputMode := of_nat n\<rparr>)"

definition lua_tolstring :: "nat \<Rightarrow> ('a rt_scheme, string option) state" where
  "lua_tolstring i = gets (\<lambda>s. as_string (rt_env s) (stack_at (rt_stack s) i))"

definition Cipher_ctor :: "('c, 'k, 'x) openssl \<Rightarrow> ('c, 'k, 'x, made) crypto" where
  "Cipher_ctor E = do {
     count_object (\<lambda>c. c\<lparr>s_cipherCount := s_cipherCount c + 1\<rparr>);
     a \<leftarrow> luaL_checkstring 1;
     b \<leftarrow> luaL_checkstring 2;
     o3 \<leftarrow> luaL_checkoption 3 (Some ''binary'') encoding_options;
     iv \<leftarrow> lua_tolstring 4;
     case a of Inl e \<Rightarrow> ret (Raised e) | Inr algorithm_name \<Rightarrow>
     (case get_cipher E algorithm_name of None \<Rightarrow> ret (Raised (Arg_Error 1)) | Some cipher \<Rightarrow>
     (case b of Inl e \<Rightarrow> ret (Raised e) | Inr key \<Rightarrow>
     (case o3 of Inl e \<Rightarrow> ret (Raised e) | Inr mode \<Rightarrow> do {
        set_output_mode mode;
        (case key_and_iv E key iv of
           None \<Rightarrow> ret Overrun
         | Some (evp_key, evp_iv) \<Rightarrow> do { set_context (encrypt_init E cipher evp_key evp_iv); ret Made })
      })))
   }"

definition Cipher_Update :: "('c, 'k, 'x) openssl \<Rightarrow> ('c, 'k, 'x) crypto_meth" where
  "Cipher_Update E = do {
     a \<leftarrow> luaL_checkstring 2;
     case a of Inl e \<Rightarrow> raise e | Inr input \<Rightarrow> do {
       c \<leftarrow> gets m_context;
       mode \<leftarrow> gets m_outputMode;
       case crypt_update E c input of
         None \<Rightarrow> do { e \<leftarrow> crypto_error ''Cipher::Update''; raise e }
       | Some (buffer, c') \<Rightarrow> do { set_context c'; encode_output mode buffer; ret_n 1 }
     }
   }"

definition Cipher_Final :: "('c, 'k, 'x) openssl \<Rightarrow> ('c, 'k, 'x) crypto_meth" where
  "Cipher_Final E = do {
     c \<leftarrow> gets m_context;
     mode \<leftarrow> gets m_outputMode;
     case crypt_final E c of
       None \<Rightarrow> do { e \<leftarrow> crypto_error ''Cipher::Final''; raise e }
     | Some (buffer, c') \<Rightarrow> do { set_context c'; encode_output mode buffer; ret_n 1 }
   }"

definition Decipher_ctor :: "('c, 'k, 'x) openssl \<Rightarrow> ('c, 'k, 'x, made) crypto" where
  "Decipher_ctor E = do {
     count_object (\<lambda>c. c\<lparr>s_decipherCount := s_decipherCount c + 1\<rparr>);
     a \<leftarrow> luaL_checkstring 1;
     b \<leftarrow> luaL_checkstring 2;
     o3 \<leftarrow> luaL_checkoption 3 (Some ''binary'') encoding_options;
     iv \<leftarrow> lua_tolstring 4;
     case a of Inl e \<Rightarrow> ret (Raised e) | Inr algorithm_name \<Rightarrow>
     (case get_cipher E algorithm_name of None \<Rightarrow> ret (Raised (Arg_Error 1)) | Some cipher \<Rightarrow>
     (case b of Inl e \<Rightarrow> ret (Raised e) | Inr key \<Rightarrow>
     (case o3 of Inl e \<Rightarrow> ret (Raised e) | Inr mode \<Rightarrow> do {
        set_output_mode mode;
        (case key_and_iv E key iv of
           None \<Rightarrow> ret Overrun
         | Some (evp_key, evp_iv) \<Rightarrow> do { set_context (decrypt_init E cipher evp_key evp_iv); ret Made })
      })))
   }"

definition Decipher_Update :: "('c, 'k, 'x) openssl \<Rightarrow> ('c, 'k, 'x) crypto_meth" where
  "Decipher_Update E = do {
     a \<leftarrow> luaL_checkstring 2;
     case a of Inl e \<Rightarrow> raise e | Inr input \<Rightarrow> do {
       c \<leftarrow> gets m_context;
       mode \<leftarrow> gets m_outputMode;
       case crypt_update E c input of
         None \<Rightarrow> do { e \<leftarrow> crypto_error ''Decipher::Update''; raise e }
       | Some (buffer, c') \<Rightarrow> do { set_context c'; encode_output mode buffer; ret_n 1 }
     }
   }"

definition Decipher_Final :: "('c, 'k, 'x) openssl \<Rightarrow> ('c, 'k, 'x) crypto_meth" where
  "Decipher_Final E = do {
     c \<leftarrow> gets m_context;
     mode \<leftarrow> gets m_outputMode;
     case crypt_final E c of
       None \<Rightarrow> do { e \<leftarrow> crypto_error ''Decipher::Final''; raise e }
     | Some (buffer, c') \<Rightarrow> do { set_context c'; encode_output mode buffer; ret_n 1 }
   }"

subsection \<open>\<^verbatim>\<open>Open\<close> and \<^verbatim>\<open>Seal\<close>\<close>

definition raised_crypto_error :: "string \<Rightarrow> ('c, 'k, 'x, made) crypto" where
  "raised_crypto_error func_name = do { e \<leftarrow> crypto_error func_name; ret (Raised e) }"

definition Open_ctor :: "('c, 'k, 'x) openssl \<Rightarrow> ('c, 'k, 'x, made) crypto" where
  "Open_ctor E = do {
     count_object (\<lambda>c. c\<lparr>s_openCount := s_openCount c + 1\<rparr>);
     a \<leftarrow> luaL_checkstring 1;
     k \<leftarrow> luaL_checkstring 3;
     v \<leftarrow> luaL_checkstring 4;
     pk \<leftarrow> luaL_checkstring 2;
     o5 \<leftarrow> luaL_checkoption 5 (Some ''binary'') encoding_options;
     case a of Inl e \<Rightarrow> ret (Raised e) | Inr algorithm_name \<Rightarrow>
     (case get_cipher E algorithm_name of None \<Rightarrow> ret (Raised (Arg_Error 1)) | Some m_cipher \<Rightarrow>
     (case k of Inl e \<Rightarrow> ret (Raised e) | Inr encrypted_key \<Rightarrow>
     (case v of Inl e \<Rightarrow> ret (Raised e) | Inr iv \<Rightarrow>
       if cipher_iv_length E m_cipher \<noteq> length iv then ret (Raised (Arg_Error 4))
       else (case pk of Inl e \<Rightarrow> ret (Raised e) | Inr privatekey_pem \<Rightarrow>
         if \<not> bio_write E privatekey_pem then raised_crypto_error ''Open::Open''
         else (case pem_private_key E privatekey_pem of
           None \<Rightarrow> raised_crypto_error ''Open::Open''
         | Some pkey \<Rightarrow> (case o5 of Inl e \<Rightarrow> ret (Raised e) | Inr mode \<Rightarrow> do {
             set_output_mode mode;
             case open_init E m_cipher encrypted_key iv pkey of
               None \<Rightarrow> raised_crypto_error ''Open::Open''
             | Some c \<Rightarrow> do { set_context c; ret Made }
           }))))))
   }"

definition Open_Update :: "('c, 'k, 'x) openssl \<Rightarrow> ('c, 'k, 'x) crypto_meth" where
  "Open_Update E = do {
     a \<leftarrow> luaL_checkstring 2;
     case a of Inl e \<Rightarrow> raise e | Inr input \<Rightarrow> do {
       c \<leftarrow> gets m_context;
       mode \<leftarrow> gets m_outputMode;
       case crypt_update E c input of
         None \<Rightarrow> do { e \<leftarrow> crypto_error ''Decipher::Update''; raise e }
       | Some (buffer, c') \<Rightarrow> do { set_context c'; encode_output mode buffer; ret_n 1 }
     }
   }"

definition Open_Final :: "('c, 'k, 'x) openssl \<Rightarrow> ('c, 'k, 'x) crypto_meth" where
  "Open_Final E = do {
     c \<leftarrow> gets m_context;
     mode \<leftarrow> gets m_outputMode;
     case crypt_final E c of
       None \<Rightarrow> do { e \<leftarrow> crypto_error ''Open::Final''; raise e }
     | Some (buffer, c') \<Rightarrow> do { set_context c'; encode_output mode buffer; ret_n 1 }
   }"

text \<open>
  \<open>x509_pubkey\<close> of a certificate that does not parse is the documented failure of the call
  on a null pointer.
\<close>

definition Seal_ctor :: "('c, 'k, 'x) openssl \<Rightarrow> ('c, 'k, 'x, made) crypto" where
  "Seal_ctor E = do {
     count_object (\<lambda>c. c\<lparr>s_sealCount := s_sealCount c + 1\<rparr>);
     a \<leftarrow> luaL_checkstring 1;
     o3 \<leftarrow> luaL_checkoption 3 (Some ''binary'') encoding_options;
     k \<leftarrow> luaL_checkstring 2;
     case a of Inl e \<Rightarrow> ret (Raised e) | Inr cipher_type \<Rightarrow>
     (case get_cipher E cipher_type of None \<Rightarrow> ret (Raised (Arg_Error 1)) | Some cipher \<Rightarrow>
     (case o3 of Inl e \<Rightarrow> ret (Raised e) | Inr mode \<Rightarrow> do {
       set_output_mode mode;
       case k of Inl e \<Rightarrow> ret (Raised e) | Inr key_pem \<Rightarrow>
         if \<not> bio_write E key_pem then raised_crypto_error ''Seal::Seal''
         else (case Option.bind (pem_x509 E key_pem) (x509_pubkey E) of
           None \<Rightarrow> raised_crypto_error ''Seal::Seal''
         | Some pkey \<Rightarrow> (case seal_init E cipher pkey of
             None \<Rightarrow> raised_crypto_error ''Seal::Seal''
           | Some (c, ek, iv) \<Rightarrow> do {
               set_context c;
               modify (\<lambda>s. s\<lparr>m_ek := ek, m_iv := iv\<rparr>);
               ret Made
             }))
     }))
   }"

definition Seal_Update :: "('c, 'k, 'x) openssl \<Rightarrow> ('c, 'k, 'x) crypto_meth" where
  "Seal_Update E = do {
     a \<leftarrow> luaL_checkstring 2;
     case a of Inl e \<Rightarrow> raise e | Inr input \<Rightarrow> do {
       c \<leftarrow> gets m_context;
       mode \<leftarrow> gets m_outputMode;
       case crypt_update E c input of
         None \<Rightarrow> do { e \<leftarrow> crypto_error ''Seal::Update''; raise e }
       | Some (buffer, c') \<Rightarrow> do { set_context c'; encode_output mode buffer; ret_n 1 }
     }
   }"

definition Seal_Final :: "('c, 'k, 'x) openssl \<Rightarrow> ('c, 'k, 'x) crypto_meth" where
  "Seal_Final E = do {
     c \<leftarrow> gets m_context;
     mode \<leftarrow> gets m_outputMode;
     case crypt_final E c of
       None \<Rightarrow> do { e \<leftarrow> crypto_error ''Open::Final''; raise e }
     | Some (buffer, c') \<Rightarrow> do {
         set_context c';
         encode_output mode buffer;
         ek \<leftarrow> gets m_ek;
         iv \<leftarrow> gets m_iv;
         lua_push (LStr (map byte_char ek));
         lua_push (LStr (map byte_char iv));
         ret_n 3
       }
   }"

subsection \<open>Destructors\<close>

text \<open>Each counts the object out; the contexts it frees are OpenSSL's memory.\<close>

definition SecureContext_dtor :: "('c, 'k, 'x, unit) crypto" where
  "SecureContext_dtor = count_object (\<lambda>c. c\<lparr>s_secureContextCount := s_secureContextCount c - 1\<rparr>)"

definition Hash_dtor :: "('c, 'k, 'x, unit) crypto" where
  "Hash_dtor = count_object (\<lambda>c. c\<lparr>s_hashCount := s_hashCount c - 1\<rparr>)"

definition Hmac_dtor :: "('c, 'k, 'x, unit) crypto" where
  "Hmac_dtor = count_object (\<lambda>c. c\<lparr>s_hmacCount := s_hmacCount c - 1\<rparr>)"

definition Signer_dtor :: "('c, 'k, 'x, unit) crypto" where
  "Signer_dtor = count_object (\<lambda>c. c\<lparr>s_signerCount := s_signerCount c - 1\<rparr>)"

definition Verifier_dtor :: "('c, 'k, 'x, unit) crypto" where
  "Verifier_dtor = count_object (\<lambda>c. c\<lparr>s_verifierCount := s_verifierCount c - 1\<rparr>)"

definition Cipher_dtor :: "('c, 'k, 'x, unit) crypto" where
  "Cipher_dtor = count_object (\<lambda>c. c\<lparr>s_cipherCount := s_cipherCount c - 1\<rparr>)"

definition Decipher_dtor :: "('c, 'k, 'x, unit) crypto" where
  "Decipher_dtor = count_object (\<lambda>c. c\<lparr>s_decipherCount := s_decipherCount c - 1\<rparr>)"

definition Open_dtor :: "('c, 'k, 'x, unit) crypto" where
  "Open_dtor = count_object (\<lambda>c. c\<lparr>s_openCount := s_openCount c - 1\<rparr>)"

definition Seal_dtor :: "('c, 'k, 'x, unit) crypto" where
  "Seal_dtor = count_object (\<lambda>c. c\<lparr>s_sealCount := s_sealCount c - 1\<rparr>)"

subsection \<open>Hexadecimal output\<close>

definition unhex_digit :: "char \<Rightarrow> 8 word" where
  "unhex_digit c = (let n = of_char c in if 97 \<le> n then of_nat (n - 87) else of_nat (n - 48))"

fun unhex :: "string \<Rightarrow> 8 word list" where
  "unhex (x # y # xs) = (16 * unhex_digit x + unhex_digit y) # unhex xs"
| "unhex _ = []"

definition hex_digit :: "nat \<Rightarrow> char" where
  "hex_digit n = (if n > 9 then char_of (n + 87) else char_of (n + 48))"

lemma unhex_hex_digit: "n < 16 \<Longrightarrow> unhex_digit (hex_digit n) = of_nat n"
  by (auto simp: hex_digit_def unhex_digit_def Let_def)

lemma tohex_digits: "tohex b = [hex_digit (unat b div 16), hex_digit (unat b mod 16)]"
proof -
  have "unat (drop_bit 4 b) = unat b div 16"
    using nibbles(1) [of b] byte_unat_less [of b]
    by (simp only: unsigned_drop_bit_eq) (simp add: drop_bit_eq_div take_bit_nat_eq_self)
  then show ?thesis
    using nibbles(2) [of b] by (simp add: tohex_def hex_digit_def word_less_nat_alt)
qed

lemma unhex_tohex: "unhex (concat (map tohex data)) = data"
proof (induction data)
  case (Cons b data)
  have "(16 :: 8 word) * of_nat (unat b div 16) + of_nat (unat b mod 16) = of_nat (unat b div 16 * 16 + unat b mod 16)"
    by (simp only: of_nat_add of_nat_mult) simp
  then have "(16 :: 8 word) * of_nat (unat b div 16) + of_nat (unat b mod 16) = b"
    by (simp only: div_mult_mod_eq) simp
  moreover have "unat b div 16 < 16" using byte_unat_less [of b] by simp
  ultimately show ?case
    using Cons by (simp add: tohex_digits unhex_hex_digit)
qed simp

subsection \<open>Properties\<close>

text \<open>
  A concrete OpenSSL for the instances: contexts are the bytes fed so far, keys are their PEM
  text, a signature is the bytes that were signed.
\<close>

definition sample_openssl :: "(string, string, string) openssl" where
  "sample_openssl = \<lparr>max_key_length = 64, max_iv_length = 16, bio_write = (\<lambda>x. x \<noteq> []),
     pem_private_key = Some, pem_x509 = Some, x509_pubkey = Some, get_digest = (\<lambda>_. Some 1),
     get_cipher = (\<lambda>_. Some 2), cipher_iv_length = (\<lambda>_. 16), digest_init = (\<lambda>_. []),
     digest_update = (@), digest_final = map (\<lambda>c. of_nat (of_char c)), hmac_init = (\<lambda>k _. k),
     hmac_update = (@), hmac_final = (\<lambda>c. (map (\<lambda>c. of_nat (of_char c)) c, [])),
     sign_final = (\<lambda>c _. Some (map (\<lambda>c. of_nat (of_char c)) c)),
     verify_final = (\<lambda>c sig _. if c = sig then 1 else 0),
     encrypt_init = (\<lambda>_ k _. k), decrypt_init = (\<lambda>_ k _. k), open_init = (\<lambda>_ k _ _. Some k),
     seal_init = (\<lambda>_ k. Some (k, [], [])), crypt_update = (\<lambda>c x. Some ([], c @ x)),
     crypt_final = (\<lambda>c. Some ([], c))\<rparr>"

definition sample_object :: "(string, string, string) crypto_object" where
  "sample_object = \<lparr>rt_env = sample_env, rt_stack = [], rt_reg = Map.empty, rt_objs = (\<lambda>_ _. LNil),
     rt_calls = [], counts = \<lparr>s_secureContextCount = 0, s_hashCount = 0, s_hmacCount = 0,
       s_signerCount = 0, s_verifierCount = 0, s_cipherCount = 0, s_decipherCount = 0,
       s_openCount = 0, s_sealCount = 0\<rparr>,
     m_context = [], m_outputMode = 0, m_ek = [], m_iv = [], ctx_key = None, ctx_cert = None,
     m_ca_store = [], err = (0, ''no error'')\<rparr>"

lemmas crypto_simps = exec_if result_if exec_case_sum exec_case_option exec_case_prod lua_prim_defs
  set_context_def set_output_mode_def lua_tolstring_def count_object_def encoding_options_def Let_def

text \<open>
  C38: The hexadecimal output of any of the classes determines the bytes: two digits for each,
  and reading them back gives the digest, the signature or the cipher text.
\<close>
theorem crypto_hex_roundtrip:
  "\<exists>hex. exec (encode_output 1 data) s = s\<lparr>rt_stack := rt_stack s @ [LStr hex]\<rparr> \<and>
     length hex = 2 * length data \<and> unhex hex = data"
proof -
  have "length (concat (map tohex data)) = 2 * length data"
    by (induction data) (simp_all add: tohex_digits)
  then show ?thesis
    by (intro exI [of _ "concat (map tohex data)"]) (simp add: encode_output_def lua_push_def unhex_tohex)
qed

text \<open>
  Hashing does not depend on how the data was cut: with a digest that OpenSSL computes
  incrementally, updating with two strings leaves the object as updating with their
  concatenation does, so \<open>final\<close> answers the same; and each update returns the object.
\<close>
theorem hash_update_chunks:
  assumes "\<And>c x y. digest_update E (digest_update E c x) y = digest_update E c (x @ y)"
  shows "exec (Hash_Update E) ((exec (Hash_Update E) (s\<lparr>rt_stack := [LObj p, LStr x]\<rparr>))
       \<lparr>rt_stack := [LObj p, LStr y]\<rparr>) =
     exec (Hash_Update E) (s\<lparr>rt_stack := [LObj p, LStr (x @ y)]\<rparr>) \<and>
     rt_stack (exec (Hash_Update E) (s\<lparr>rt_stack := [LObj p, LStr x]\<rparr>)) = [LObj p] \<and>
     result (Hash_Update E) (s\<lparr>rt_stack := [LObj p, LStr x]\<rparr>) = Inr 1"
  using assms by (simp add: Hash_Update_def crypto_simps as_string_def)

lemma hash_update_chunks_witness:
  "m_context (exec (Hash_Update sample_openssl) ((exec (Hash_Update sample_openssl)
     (sample_object\<lparr>rt_stack := [LObj 1, LStr ''ab'']\<rparr>))\<lparr>rt_stack := [LObj 1, LStr ''c'']\<rparr>)) = ''abc''"
proof -
  have "digest_update sample_openssl (digest_update sample_openssl c x) y =
      digest_update sample_openssl c (x @ y)" for c x y
    by (simp add: sample_openssl_def)
  from hash_update_chunks [where E = sample_openssl and s = sample_object and p = 1
      and x = "''ab''" and y = "''c''", OF this] show ?thesis
    by (simp add: Hash_Update_def crypto_simps as_string_def sample_openssl_def sample_object_def)
qed

text \<open>
  Reading a digest does not end it: \<open>final\<close> works on a copy, so it leaves the context as it
  was, and a second \<open>final\<close> pushes the same string.
\<close>
theorem hash_final_repeats:
  fixes E :: "('c, 'k, 'x) openssl"
  assumes "rt_stack s = [LObj p]"
  defines "t \<equiv> exec (Hash_Final E) s"
  shows "m_context t = m_context s \<and> (\<exists>hex. rt_stack t = [LObj p, LStr hex] \<and>
    unhex hex = digest_final E (m_context s)) \<and>
    rt_stack (exec (Hash_Final E) (t\<lparr>rt_stack := [LObj p]\<rparr>)) = rt_stack t"
  using assms unfolding t_def
  by (simp add: Hash_Final_def crypto_simps none_or_nil_def encode_output_def unhex_tohex)

lemma hash_final_repeats_witness:
  "\<exists>hex. rt_stack (exec (Hash_Final sample_openssl) (sample_object\<lparr>rt_stack := [LObj 1], m_context := ''A''\<rparr>)) =
     [LObj 1, LStr hex] \<and> unhex hex = [65]"
  using hash_final_repeats [of "sample_object\<lparr>rt_stack := [LObj 1], m_context := ''A''\<rparr>" 1 sample_openssl]
  by (simp add: sample_object_def sample_openssl_def)

text \<open>
  \<open>verify\<close> answers a signature that does not match with the text of an OpenSSL error, a
  value that Lua takes for true: the pushed \<^verbatim>\<open>false\<close> lies under the two values that the error
  report pushes, and the method returns only the topmost one.
\<close>
theorem verify_mismatch_is_truthy:
  assumes "as_string (rt_env s) cert = Some pem" and "as_string (rt_env s) sg = Some signature"
    and "bio_write E pem" and "pem_x509 E pem = Some x" and "x509_pubkey E x = Some k"
    and "verify_final E (m_context s) signature k \<noteq> 1"
  shows "result (thunk_methods (Verifier_Verify E) [LObj p, cert, sg]) s = Inr [LStr (snd (err s))] \<and>
    to_boolean (LStr (snd (err s)))"
  using assms
  by (simp add: thunk_methods_def Verifier_Verify_def crypto_simps push_error_def to_boolean_def)

lemma verify_mismatch_is_truthy_witness:
  "result (thunk_methods (Verifier_Verify sample_openssl) [LObj 1, LStr ''CERT'', LStr ''forged''])
     (sample_object\<lparr>m_context := ''signed''\<rparr>) = Inr [LStr ''no error'']"
  using verify_mismatch_is_truthy [of "sample_object\<lparr>m_context := ''signed''\<rparr>" "LStr ''CERT''"
      "''CERT''" "LStr ''forged''" "''forged''" sample_openssl "''CERT''" "''CERT''" 1]
  by (simp add: sample_openssl_def sample_object_def as_string_def)

text \<open>
  Creating a cipher writes beyond its buffers exactly when Lua passes a key longer than
  OpenSSL's longest key or a vector longer than its longest vector, whatever the cipher;
  otherwise the cipher is made with the key and the vector padded with zeros.
\<close>
theorem cipher_key_overrun:
  assumes "rt_stack s = [LStr algorithm, LStr key, LNil, LStr iv]"
    and "get_cipher E algorithm = Some c"
  shows "if max_key_length E < length key \<or> max_iv_length E < length iv
     then result (Cipher_ctor E) s = Overrun
     else result (Cipher_ctor E) s = Made \<and> m_context (exec (Cipher_ctor E) s) = encrypt_init E c
       (key @ replicate (max_key_length E - length key) (CHR 0x00))
       (Some (iv @ replicate (max_iv_length E - length iv) (CHR 0x00)))"
  using assms
  by (auto simp: Cipher_ctor_def crypto_simps as_string_def none_or_nil_def key_and_iv_def
      memcpy_into_def split: if_splits)

lemma cipher_key_overrun_witness:
  "result (Cipher_ctor sample_openssl) (sample_object\<lparr>rt_stack :=
     [LStr ''aes'', LStr (replicate 65 (CHR ''k'')), LNil, LStr []]\<rparr>) = Overrun"
  using cipher_key_overrun [of "sample_object\<lparr>rt_stack :=
     [LStr ''aes'', LStr (replicate 65 (CHR ''k'')), LNil, LStr []]\<rparr>" "''aes''"
     "replicate 65 (CHR ''k'')" "[]" sample_openssl 2]
  by (simp add: sample_openssl_def)

end
