(* ===== verification/Output_Tty.thy ===== *)
theory Output_Tty
  imports Prelude
begin

unbundle bit_operations_syntax

section \<open>Writing to a Windows console (\<^verbatim>\<open>src/detail/windows/output_tty.cpp\<close>)\<close>

text \<open>
  \<^verbatim>\<open>OutputTtyStream\<close>: bytes go through a UTF-8 decoder, an ANSI escape parser and an
  end-of-line filter into a UTF-16 buffer; escape sequences become console calls.  The
  decoder, the parser and the filter are functions on the context record; the console is the
  environment: what a call answers after a history of calls is a parameter of the state.

  The loops that retry a call when the console was resized may run for ever, so commands
  return an option, where \<open>None\<close> means that the call does not return (nor does it after
  \<^verbatim>\<open>abort()\<close>).  The properties: the parser's state stays consistent, so the program never
  aborts there and returns whenever the console stops refusing; text and newlines come out
  as they should; positions are clipped to the virtual window; the parser does not depend
  on how a message is cut into writes.
\<close>

subsection \<open>State\<close>

definition ANSI_NORMAL :: "8 word" where "ANSI_NORMAL = 0x00"
definition ANSI_ESCAPE_SEEN :: "8 word" where "ANSI_ESCAPE_SEEN = 0x02"
definition ANSI_CSI :: "8 word" where "ANSI_CSI = 0x04"
definition ANSI_ST_CONTROL :: "8 word" where "ANSI_ST_CONTROL = 0x08"
definition ANSI_IGNORE :: "8 word" where "ANSI_IGNORE = 0x10"
definition ANSI_IN_ARG :: "8 word" where "ANSI_IN_ARG = 0x20"
definition ANSI_IN_STRING :: "8 word" where "ANSI_IN_STRING = 0x40"
definition ANSI_BACKSLASH_SEEN :: "8 word" where "ANSI_BACKSLASH_SEEN = 0x80"
definition UNICODE_REPLACEMENT_CHARACTER :: "32 word" where
  "UNICODE_REPLACEMENT_CHARACTER = 0xfffd"
definition UV_HANDLE_TTY_SAVED_POSITION :: "32 word" where
  "UV_HANDLE_TTY_SAVED_POSITION = 0x00400000"
definition UV_HANDLE_TTY_SAVED_ATTRIBUTES :: "32 word" where
  "UV_HANDLE_TTY_SAVED_ATTRIBUTES = 0x00800000"
definition UV_HANDLE_TTY_RAW :: "32 word" where "UV_HANDLE_TTY_RAW = 0x00080000"

lemmas ansi_consts = ANSI_NORMAL_def ANSI_ESCAPE_SEEN_def ANSI_CSI_def ANSI_ST_CONTROL_def
  ANSI_IGNORE_def ANSI_IN_ARG_def ANSI_IN_STRING_def ANSI_BACKSLASH_SEEN_def

text \<open>Constants of the Windows headers.\<close>

definition ERROR_INVALID_PARAMETER :: "32 word" where "ERROR_INVALID_PARAMETER = 87"
definition FOREGROUND_BLUE :: "16 word" where "FOREGROUND_BLUE = 0x01"
definition FOREGROUND_GREEN :: "16 word" where "FOREGROUND_GREEN = 0x02"
definition FOREGROUND_RED :: "16 word" where "FOREGROUND_RED = 0x04"
definition FOREGROUND_INTENSITY :: "16 word" where "FOREGROUND_INTENSITY = 0x08"
definition BACKGROUND_BLUE :: "16 word" where "BACKGROUND_BLUE = 0x10"
definition BACKGROUND_GREEN :: "16 word" where "BACKGROUND_GREEN = 0x20"
definition BACKGROUND_RED :: "16 word" where "BACKGROUND_RED = 0x40"
definition BACKGROUND_INTENSITY :: "16 word" where "BACKGROUND_INTENSITY = 0x80"

record tty_context =
  utf8_bytes_left :: "8 word"
  utf8_codepoint :: "32 word"
  previous_eol :: "8 word"
  ansi_parser_state :: "8 word"
  ansi_csi_argc :: "8 word"
  ansi_csi_argv :: "16 word list"
  saved_position :: "int \<times> int"
  saved_attributes :: "16 word"
  tty_flags :: "32 word"

record console_info =
  dwSize_X :: int
  dwSize_Y :: int
  dwCursorPosition_X :: int
  dwCursorPosition_Y :: int
  srWindow_Top :: int
  srWindow_Bottom :: int
  wAttributes :: "16 word"

datatype con_call =
    WriteConsoleW "16 word list"
  | GetConsoleScreenBufferInfo
  | SetConsoleTextAttribute "16 word"
  | SetConsoleCursorPosition int int
  | FillConsoleOutputCharacterW "32 word" "int \<times> int"
  | FillConsoleOutputAttribute "16 word" "32 word" "int \<times> int"

text \<open>
  \<open>con_fail\<close> is the last error when a call fails and \<open>None\<close> when it succeeds;
  \<open>con_info\<close> what the information structure holds after \<^verbatim>\<open>GetConsoleScreenBufferInfo\<close>
  (anything, when that call failed and the structure was never written);
  \<open>con_written\<close> how many cells a fill reports.  \<open>tty_error\<close> and \<open>utf16_buf\<close> are the
  local variables of \<open>ProcessMessage\<close>; the virtual window is three static variables.
\<close>

record tty = tty_context +
  uv_tty_virtual_offset :: int
  uv_tty_virtual_height :: int
  uv_tty_virtual_width :: int
  tty_error :: "32 word"
  utf16_buf :: "16 word list"
  con_calls :: "con_call list"
  con_fail :: "con_call list \<Rightarrow> con_call \<Rightarrow> 32 word option"
  con_info :: "con_call list \<Rightarrow> console_info"
  con_written :: "con_call list \<Rightarrow> con_call \<Rightarrow> 32 word"

definition con_do :: "con_call \<Rightarrow> tty \<Rightarrow> 32 word option \<times> tty" where
  "con_do c s = (con_fail s (con_calls s) c, s\<lparr>con_calls := con_calls s @ [c]\<rparr>)"

definition get_info :: "tty \<Rightarrow> 32 word option \<times> console_info \<times> tty" where
  "get_info s = (let (e, s') = con_do GetConsoleScreenBufferInfo s in (e, con_info s (con_calls s), s'))"

text \<open>What the constructor sets, over the uninitialised rest of the context.\<close>

definition tty_init :: "'a tty_context_scheme \<Rightarrow> 'a tty_context_scheme" where
  "tty_init s = s\<lparr>utf8_bytes_left := 0, utf8_codepoint := 0, previous_eol := 0,
     ansi_parser_state := ANSI_NORMAL\<rparr>"

subsection \<open>The virtual window\<close>

definition uv_tty_update_virtual_window :: "console_info \<Rightarrow> tty \<Rightarrow> tty" where
  "uv_tty_update_virtual_window info s = (
     let height = srWindow_Bottom info - srWindow_Top info + 1;
         width = dwSize_X info;
         off1 = (if uv_tty_virtual_offset s = -1 then dwCursorPosition_Y info
           else if uv_tty_virtual_offset s < dwCursorPosition_Y info - height + 1
           then dwCursorPosition_Y info - height + 1
           else uv_tty_virtual_offset s);
         off2 = (if off1 + height > dwSize_Y info then dwSize_Y info - height else off1);
         off3 = (if off2 < 0 then 0 else off2)
     in s\<lparr>uv_tty_virtual_offset := off3, uv_tty_virtual_height := height,
          uv_tty_virtual_width := width\<rparr>)"

text \<open>\<^verbatim>\<open>COORD\<close> holds signed 16-bit values.\<close>

definition to_short :: "int \<Rightarrow> int" where
  "to_short x = sint (word_of_int x :: 16 word)"

definition uv_tty_make_real_coord ::
    "console_info \<Rightarrow> int \<Rightarrow> bool \<Rightarrow> int \<Rightarrow> bool \<Rightarrow> tty \<Rightarrow> (int \<times> int) \<times> tty" where
  "uv_tty_make_real_coord info x x_relative y y_relative s0 = (
     let s = uv_tty_update_virtual_window info s0;
         y1 = (if y_relative then dwCursorPosition_Y info + y else uv_tty_virtual_offset s + y);
         y2 = (if y1 < uv_tty_virtual_offset s then uv_tty_virtual_offset s
           else if y1 \<ge> uv_tty_virtual_offset s + uv_tty_virtual_height s
           then uv_tty_virtual_offset s + uv_tty_virtual_height s - 1
           else y1);
         x1 = (if x_relative then dwCursorPosition_X info + x else x);
         x2 = (if x1 < 0 then 0
           else if x1 \<ge> uv_tty_virtual_width s then uv_tty_virtual_width s - 1
           else x1)
     in ((to_short x2, to_short y2), s))"

subsection \<open>Console commands\<close>

text \<open>
  The body of a \<^verbatim>\<open>retry:\<close> loop answers whether to go round again, its result and the state.
\<close>

partial_function (option) retry :: "(tty \<Rightarrow> bool \<times> int \<times> tty) \<Rightarrow> tty \<Rightarrow> (int \<times> tty) option" where
  "retry body s = (if fst (body s) then retry body (snd (snd (body s))) else Some (snd (body s)))"

definition move_caret_body :: "int \<Rightarrow> bool \<Rightarrow> int \<Rightarrow> bool \<Rightarrow> tty \<Rightarrow> bool \<times> int \<times> tty" where
  "move_caret_body x x_relative y y_relative s = (
     let (e, info, s1) = get_info s;
         s2 = (case e of None \<Rightarrow> s1 | Some k \<Rightarrow> s1\<lparr>tty_error := k\<rparr>);
         (pos, s3) = uv_tty_make_real_coord info x x_relative y y_relative s2;
         (f, s4) = con_do (SetConsoleCursorPosition (fst pos) (snd pos)) s3
     in case f of
          None \<Rightarrow> (False, 0, s4)
        | Some k \<Rightarrow> if k = ERROR_INVALID_PARAMETER then (True, 0, s4)
                   else (False, -1, s4\<lparr>tty_error := k\<rparr>))"

definition uv_tty_move_caret :: "int \<Rightarrow> bool \<Rightarrow> int \<Rightarrow> bool \<Rightarrow> tty \<Rightarrow> (int \<times> tty) option" where
  "uv_tty_move_caret x x_relative y y_relative s =
     (if tty_error s \<noteq> 0 then Some (-1, s) else retry (move_caret_body x x_relative y y_relative) s)"

text \<open>The two fills, the second with the count the first reports.\<close>

definition fill_blank :: "32 word \<Rightarrow> 16 word \<Rightarrow> int \<times> int \<Rightarrow> tty \<Rightarrow> 32 word option \<times> tty" where
  "fill_blank count attr start s = (
     let c = FillConsoleOutputCharacterW count start;
         written = con_written s (con_calls s) c;
         (e, s1) = con_do c s
     in case e of Some k \<Rightarrow> (Some k, s1)
        | None \<Rightarrow> con_do (FillConsoleOutputAttribute attr written start) s1)"

definition clear_body ::
    "int \<Rightarrow> bool \<Rightarrow> int \<Rightarrow> bool \<Rightarrow> int \<Rightarrow> bool \<Rightarrow> int \<Rightarrow> bool \<Rightarrow> tty \<Rightarrow> bool \<times> int \<times> tty" where
  "clear_body x1 x1r y1 y1r x2 x2r y2 y2r s = (
     let (e, info, s1) = get_info s in
     case e of Some k \<Rightarrow> (False, -1, s1\<lparr>tty_error := k\<rparr>)
     | None \<Rightarrow>
         let (start, s2) = uv_tty_make_real_coord info x1 x1r y1 y1r s1;
             (end', s3) = uv_tty_make_real_coord info x2 x2r y2 y2r s2;
             count = (snd end' * dwSize_X info + fst end') - (snd start * dwSize_X info + fst start) + 1;
             (f, s4) = fill_blank (word_of_int count) (wAttributes info) start s3
         in case f of
              None \<Rightarrow> (False, 0, s4)
            | Some k \<Rightarrow> if k = ERROR_INVALID_PARAMETER then (True, 0, s4)
                       else (False, -1, s4\<lparr>tty_error := k\<rparr>))"

definition uv_tty_clear :: "int \<Rightarrow> bool \<Rightarrow> tty \<Rightarrow> (int \<times> tty) option" where
  "uv_tty_clear dir entire_screen s = (
     if tty_error s \<noteq> 0 then Some (-1, s)
     else
       let x1 = 0; x1r = (dir = 0);
           x2 = (if dir = 1 then 0 else 0xffff); x2r = (dir = 1);
           y1 = (if entire_screen then x1 else 0); y1r = (if entire_screen then x1r else True);
           y2 = (if entire_screen then x2 else 0); y2r = (if entire_screen then x2r else True)
       in retry (clear_body x1 x1r y1 y1r x2 x2r y2 y2r) s)"

definition uv_tty_save_state :: "bool \<Rightarrow> tty \<Rightarrow> int \<times> tty" where
  "uv_tty_save_state save_attributes s = (
     if tty_error s \<noteq> 0 then (-1, s)
     else
       let (e, info, s1) = get_info s in
       case e of Some k \<Rightarrow> (-1, s1\<lparr>tty_error := k\<rparr>)
       | None \<Rightarrow>
           let s2 = uv_tty_update_virtual_window info s1;
               s3 = s2\<lparr>saved_position := (dwCursorPosition_X info,
                        to_short (dwCursorPosition_Y info - uv_tty_virtual_offset s2)),
                      tty_flags := tty_flags s2 OR UV_HANDLE_TTY_SAVED_POSITION\<rparr>
           in (0, if save_attributes
                  then s3\<lparr>saved_attributes := wAttributes info AND (FOREGROUND_INTENSITY OR BACKGROUND_INTENSITY),
                         tty_flags := tty_flags s3 OR UV_HANDLE_TTY_SAVED_ATTRIBUTES\<rparr>
                  else s3))"

definition restore_attributes_part :: "bool \<Rightarrow> tty \<Rightarrow> int \<times> tty" where
  "restore_attributes_part restore_attributes s = (
     if restore_attributes \<and> tty_flags s AND UV_HANDLE_TTY_SAVED_ATTRIBUTES \<noteq> 0 then
       let (e, info, s1) = get_info s in
       case e of Some k \<Rightarrow> (-1, s1\<lparr>tty_error := k\<rparr>)
       | None \<Rightarrow>
           let new_attributes = (wAttributes info AND NOT (FOREGROUND_INTENSITY OR BACKGROUND_INTENSITY))
                 OR saved_attributes s1;
               (f, s2) = con_do (SetConsoleTextAttribute new_attributes) s1
           in case f of Some k \<Rightarrow> (-1, s2\<lparr>tty_error := k\<rparr>) | None \<Rightarrow> (0, s2)
     else (0, s))"

definition uv_tty_restore_state :: "bool \<Rightarrow> tty \<Rightarrow> (int \<times> tty) option" where
  "uv_tty_restore_state restore_attributes s = (
     if tty_error s \<noteq> 0 then Some (-1, s)
     else if tty_flags s AND UV_HANDLE_TTY_SAVED_POSITION \<noteq> 0 then
       Option.bind (uv_tty_move_caret (fst (saved_position s)) False (snd (saved_position s)) False s)
         (\<lambda>(r, s1). if r \<noteq> 0 then Some (-1, s1) else Some (restore_attributes_part restore_attributes s1))
     else Some (restore_attributes_part restore_attributes s))"

definition reset_body :: "16 word \<Rightarrow> tty \<Rightarrow> bool \<times> int \<times> tty" where
  "reset_body char_attrs s = (
     let (e, info, s1) = get_info s in
     case e of Some k \<Rightarrow> (False, -1, s1\<lparr>tty_error := k\<rparr>)
     | None \<Rightarrow>
         let (f, s2) = fill_blank (word_of_int (dwSize_X info * dwSize_Y info)) char_attrs (0, 0) s1
         in case f of
              None \<Rightarrow> (False, 0, uv_tty_update_virtual_window info (s2\<lparr>uv_tty_virtual_offset := 0\<rparr>))
            | Some k \<Rightarrow> if k = ERROR_INVALID_PARAMETER then (True, 0, s2)
                       else (False, -1, s2\<lparr>tty_error := k\<rparr>))"

definition tty_Reset :: "tty \<Rightarrow> (int \<times> tty) option" where
  "tty_Reset s = (
     let char_attrs = FOREGROUND_RED OR FOREGROUND_GREEN OR FOREGROUND_RED in
     if tty_error s \<noteq> 0 then Some (-1, s)
     else case con_do (SetConsoleTextAttribute char_attrs) s of
       (Some k, s1) \<Rightarrow> Some (-1, s1\<lparr>tty_error := k\<rparr>)
     | (None, s1) \<Rightarrow> (case con_do (SetConsoleCursorPosition 0 0) s1 of
         (Some k, s2) \<Rightarrow> Some (-1, s2\<lparr>tty_error := k\<rparr>)
       | (None, s2) \<Rightarrow> retry (reset_body char_attrs) s2))"

subsection \<open>Text attributes\<close>

text \<open>The four variables of \<^verbatim>\<open>tty_SetStyle\<close>; -1 means unchanged.\<close>

record tty_style =
  fg_color :: int
  bg_color :: int
  fg_bright :: int
  bg_bright :: int

definition style_unchanged :: tty_style where
  "style_unchanged = \<lparr>fg_color = -1, bg_color = -1, fg_bright = -1, bg_bright = -1\<rparr>"

definition style_reset :: tty_style where
  "style_reset = \<lparr>fg_color = 7, bg_color = 0, fg_bright = 0, bg_bright = 0\<rparr>"

definition style_arg :: "int \<Rightarrow> tty_style \<Rightarrow> tty_style" where
  "style_arg arg st = (
     if arg = 0 then style_reset
     else if arg = 1 then st\<lparr>fg_bright := 1\<rparr>
     else if arg = 2 then st\<lparr>fg_bright := 0, bg_bright := 0\<rparr>
     else if arg = 5 then st\<lparr>bg_bright := 1\<rparr>
     else if arg = 21 \<or> arg = 22 then st\<lparr>fg_bright := 0\<rparr>
     else if arg = 25 then st\<lparr>bg_bright := 0\<rparr>
     else if 30 \<le> arg \<and> arg \<le> 37 then st\<lparr>fg_color := arg - 30\<rparr>
     else if arg = 39 then st\<lparr>fg_color := 7, fg_bright := 0\<rparr>
     else if 40 \<le> arg \<and> arg \<le> 47 then st\<lparr>bg_color := arg - 40\<rparr>
     else if arg = 49 then st\<lparr>bg_color := 0\<rparr>
     else if 90 \<le> arg \<and> arg \<le> 97 then st\<lparr>fg_bright := 1, fg_color := arg - 90\<rparr>
     else if 100 \<le> arg \<and> arg \<le> 107 then st\<lparr>bg_bright := 1, bg_color := arg - 100\<rparr>
     else st)"

definition style_of_args :: "16 word list \<Rightarrow> tty_style" where
  "style_of_args args = fold (\<lambda>a. style_arg (sint a)) args
     (if args = [] then style_reset else style_unchanged)"

definition color_bits :: "int \<Rightarrow> 16 word \<Rightarrow> 16 word \<Rightarrow> 16 word \<Rightarrow> 16 word \<Rightarrow> 16 word" where
  "color_bits c red green blue w = (
     let w0 = w AND NOT (red OR green OR blue);
         w1 = (if bit c 0 then w0 OR red else w0);
         w2 = (if bit c 1 then w1 OR green else w1)
     in if bit c 2 then w2 OR blue else w2)"

definition style_attributes :: "tty_style \<Rightarrow> 16 word \<Rightarrow> 16 word" where
  "style_attributes st w = (
     let w1 = (if fg_color st \<noteq> -1
           then color_bits (fg_color st) FOREGROUND_RED FOREGROUND_GREEN FOREGROUND_BLUE w else w);
         w2 = (if fg_bright st \<noteq> -1
           then (if fg_bright st \<noteq> 0 then w1 OR FOREGROUND_INTENSITY else w1 AND NOT FOREGROUND_INTENSITY)
           else w1);
         w3 = (if bg_color st \<noteq> -1
           then color_bits (bg_color st) BACKGROUND_RED BACKGROUND_GREEN BACKGROUND_BLUE w2 else w2)
     in if bg_bright st \<noteq> -1
        then (if bg_bright st \<noteq> 0 then w3 OR BACKGROUND_INTENSITY else w3 AND NOT BACKGROUND_INTENSITY)
        else w3)"

definition tty_SetStyle :: "tty \<Rightarrow> int \<times> tty" where
  "tty_SetStyle s = (
     let st = style_of_args (take (unat (ansi_csi_argc s)) (ansi_csi_argv s)) in
     if st = style_unchanged then (0, s)
     else
       let (e, info, s1) = get_info s in
       case e of Some k \<Rightarrow> (-1, s1\<lparr>tty_error := k\<rparr>)
       | None \<Rightarrow> (case con_do (SetConsoleTextAttribute (style_attributes st (wAttributes info))) s1 of
           (Some k, s2) \<Rightarrow> (-1, s2\<lparr>tty_error := k\<rparr>)
         | (None, s2) \<Rightarrow> (0, s2)))"

subsection \<open>The UTF-8 decoder\<close>

text \<open>\<^verbatim>\<open>_BitScanReverse\<close>: the index of the highest set bit, none for 0.\<close>

definition bit_scan_reverse :: "8 word \<Rightarrow> nat option" where
  "bit_scan_reverse w = List.find (\<lambda>i. bit w i) [7, 6, 5, 4, 3, 2, 1, 0]"

text \<open>
  One byte: the new context, and whether the byte has to be looked at again (\<^verbatim>\<open>j--\<close>).
\<close>

definition utf8_step :: "8 word \<Rightarrow> 'a tty_context_scheme \<Rightarrow> 'a tty_context_scheme \<times> bool" where
  "utf8_step c s = (
     if utf8_bytes_left s = 0 then
       (case bit_scan_reverse (NOT c) of
          Some first_zero_bit \<Rightarrow>
            if first_zero_bit = 7 then (s\<lparr>utf8_codepoint := ucast c\<rparr>, False)
            else if first_zero_bit \<le> 5 then
              (s\<lparr>utf8_codepoint := drop_bit (8 - first_zero_bit) 0xff AND ucast c,
                utf8_bytes_left := of_nat (6 - first_zero_bit)\<rparr>, False)
            else (s\<lparr>utf8_codepoint := UNICODE_REPLACEMENT_CHARACTER\<rparr>, False)
        | None \<Rightarrow> (s\<lparr>utf8_codepoint := UNICODE_REPLACEMENT_CHARACTER\<rparr>, False))
     else if c AND 0xc0 = 0x80 then
       (s\<lparr>utf8_bytes_left := utf8_bytes_left s - 1,
         utf8_codepoint := push_bit 6 (utf8_codepoint s) OR (ucast c AND 0x3f)\<rparr>, False)
     else (s\<lparr>utf8_bytes_left := 0, utf8_codepoint := UNICODE_REPLACEMENT_CHARACTER\<rparr>, True))"

subsection \<open>The ANSI parser\<close>

text \<open>
  What one decoded character asks for: a command (run after the pending text is flushed;
  \<open>Cmd_Flush\<close> is the flush alone), and whether the character is swallowed
  (\<^verbatim>\<open>continue\<close>), emitted as text, or met in a state that should not exist.
\<close>

datatype tty_cmd =
    Cmd_Flush | Cmd_Reset | Cmd_Save bool | Cmd_Restore bool
  | Cmd_Move int bool int bool | Cmd_Clear int bool | Cmd_Style

datatype outcome = Swallow | Emit | Inconsistent

definition csi_arg :: "nat \<Rightarrow> 'a tty_context_scheme \<Rightarrow> int" where
  "csi_arg i s = uint (ansi_csi_argv s ! i)"

text \<open>The count of a relative move defaults to 1, a position is 1-based and defaults to 0.\<close>

definition csi_count :: "'a tty_context_scheme \<Rightarrow> int" where
  "csi_count s = (if ansi_csi_argc s \<noteq> 0 then csi_arg 0 s else 1)"

definition csi_position :: "nat \<Rightarrow> 'a tty_context_scheme \<Rightarrow> int" where
  "csi_position i s = (if i < unat (ansi_csi_argc s) \<and> csi_arg i s \<noteq> 0 then csi_arg i s - 1 else 0)"

definition csi_clear :: "bool \<Rightarrow> 'a tty_context_scheme \<Rightarrow> tty_cmd" where
  "csi_clear entire s = (
     let d = (if ansi_csi_argc s \<noteq> 0 then csi_arg 0 s else 0)
     in if 0 \<le> d \<and> d \<le> 2 then Cmd_Clear d entire else Cmd_Flush)"

definition csi_command :: "32 word \<Rightarrow> 'a tty_context_scheme \<Rightarrow> tty_cmd option" where
  "csi_command cp s = (
     if cp = 0x41 then Some (Cmd_Move 0 True (- csi_count s) True)
     else if cp = 0x42 then Some (Cmd_Move 0 True (csi_count s) True)
     else if cp = 0x43 then Some (Cmd_Move (csi_count s) True 0 True)
     else if cp = 0x44 then Some (Cmd_Move (- csi_count s) True 0 True)
     else if cp = 0x45 then Some (Cmd_Move 0 False (csi_count s) True)
     else if cp = 0x46 then Some (Cmd_Move 0 False (- csi_count s) True)
     else if cp = 0x47 then Some (Cmd_Move (csi_position 0 s) False 0 True)
     else if cp = 0x48 \<or> cp = 0x66
     then Some (Cmd_Move (csi_position 1 s) False (csi_position 0 s) False)
     else if cp = 0x4A then Some (csi_clear True s)
     else if cp = 0x4B then Some (csi_clear False s)
     else if cp = 0x6D then Some Cmd_Style
     else if cp = 0x73 then Some (Cmd_Save False)
     else if cp = 0x75 then Some (Cmd_Restore False)
     else None)"

definition escape_step :: "'a tty_context_scheme \<Rightarrow> 'a tty_context_scheme \<times> tty_cmd option \<times> outcome" where
  "escape_step s = (
     let cp = utf8_codepoint s; normal = s\<lparr>ansi_parser_state := ANSI_NORMAL\<rparr> in
     if cp = 0x5B then (s\<lparr>ansi_parser_state := ANSI_CSI, ansi_csi_argc := 0\<rparr>, None, Swallow)
     else if cp = 0x5E \<or> cp = 0x5F \<or> cp = 0x50 \<or> cp = 0x5D
     then (s\<lparr>ansi_parser_state := ANSI_ST_CONTROL\<rparr>, None, Swallow)
     else if cp = 0x1B then (s, None, Swallow)
     else if cp = 0x63 then (normal, Some Cmd_Reset, Swallow)
     else if cp = 0x37 then (normal, Some (Cmd_Save True), Swallow)
     else if cp = 0x38 then (normal, Some (Cmd_Restore True), Swallow)
     else if 0x40 \<le> cp \<and> cp \<le> 0x5F then (normal, None, Swallow)
     else (normal, None, Emit))"

definition csi_digit :: "'a tty_context_scheme \<Rightarrow> 'a tty_context_scheme" where
  "csi_digit s = (
     let cp = utf8_codepoint s; st = ansi_parser_state s; argc = ansi_csi_argc s in
     if st AND ANSI_IN_ARG = 0 then
       (if 4 \<le> argc then s\<lparr>ansi_parser_state := st OR ANSI_IGNORE\<rparr>
        else s\<lparr>ansi_parser_state := st OR ANSI_IN_ARG, ansi_csi_argc := argc + 1,
               ansi_csi_argv := (ansi_csi_argv s)[unat argc := ucast cp - 0x30]\<rparr>)
     else
       let value = 10 * (ucast (ansi_csi_argv s ! unat (argc - 1)) :: 32 word) in
       if 0xFFFF < value then s\<lparr>ansi_parser_state := st OR ANSI_IGNORE\<rparr>
       else s\<lparr>ansi_csi_argv := (ansi_csi_argv s)[unat (argc - 1) := ucast value + ucast (cp - 0x30)]\<rparr>)"

definition csi_semicolon :: "'a tty_context_scheme \<Rightarrow> 'a tty_context_scheme" where
  "csi_semicolon s = (
     let st = ansi_parser_state s; argc = ansi_csi_argc s in
     if st AND ANSI_IN_ARG \<noteq> 0 then s\<lparr>ansi_parser_state := st AND NOT ANSI_IN_ARG\<rparr>
     else if 4 \<le> argc then s\<lparr>ansi_parser_state := st OR ANSI_IGNORE\<rparr>
     else s\<lparr>ansi_csi_argc := argc + 1, ansi_csi_argv := (ansi_csi_argv s)[unat argc := 0]\<rparr>)"

definition csi_step :: "'a tty_context_scheme \<Rightarrow> 'a tty_context_scheme \<times> tty_cmd option \<times> outcome" where
  "csi_step s = (
     let cp = utf8_codepoint s; st = ansi_parser_state s;
         normal = s\<lparr>ansi_parser_state := ANSI_NORMAL\<rparr> in
     if st AND ANSI_IGNORE = 0 then
       (if 0x30 \<le> cp \<and> cp \<le> 0x39 then (csi_digit s, None, Swallow)
        else if cp = 0x3B then (csi_semicolon s, None, Swallow)
        else if 0x40 \<le> cp \<and> cp \<le> 0x7E \<and> (0 < ansi_csi_argc s \<or> cp \<noteq> 0x5B)
        then (normal, csi_command cp s, Swallow)
        else (s\<lparr>ansi_parser_state := st OR ANSI_IGNORE\<rparr>, None, Swallow))
     else (if 0x40 \<le> cp \<and> cp \<le> 0x7E then normal else s, None, Swallow))"

definition st_control_state :: "32 word \<Rightarrow> 8 word \<Rightarrow> 8 word" where
  "st_control_state cp st = (
     if st AND ANSI_IN_STRING \<noteq> 0 then
       (if st AND ANSI_BACKSLASH_SEEN = 0 then
          (if cp = 0x22 then st AND NOT ANSI_IN_STRING
           else if cp = 0x5C then st OR ANSI_BACKSLASH_SEEN else st)
        else st AND NOT ANSI_BACKSLASH_SEEN)
     else if cp = 0x07 \<or> (cp = 0x5C \<and> st AND ANSI_ESCAPE_SEEN \<noteq> 0) then ANSI_NORMAL
     else if cp = 0x1B then st OR ANSI_ESCAPE_SEEN
     else if cp = 0x22
     then ((st OR ANSI_IN_STRING) AND NOT ANSI_ESCAPE_SEEN) AND NOT ANSI_BACKSLASH_SEEN
     else st AND NOT ANSI_ESCAPE_SEEN)"

definition ansi_step :: "'a tty_context_scheme \<Rightarrow> 'a tty_context_scheme \<times> tty_cmd option \<times> outcome" where
  "ansi_step s = (
     let cp = utf8_codepoint s; st = ansi_parser_state s in
     if st = ANSI_NORMAL then
       (if cp = 0x1B then (s\<lparr>ansi_parser_state := ANSI_ESCAPE_SEEN\<rparr>, None, Swallow)
        else if cp = 0x9B
        then (s\<lparr>ansi_parser_state := ANSI_CSI, ansi_csi_argc := 0\<rparr>, None, Swallow)
        else (s, None, Emit))
     else if st = ANSI_ESCAPE_SEEN then escape_step s
     else if st AND ANSI_CSI \<noteq> 0 then csi_step s
     else if st AND ANSI_ST_CONTROL \<noteq> 0
     then (s\<lparr>ansi_parser_state := st_control_state cp st\<rparr>, None, Swallow)
     else (s, None, Inconsistent))"

subsection \<open>Text output\<close>

definition tty_WriteTextW :: "16 word list \<Rightarrow> tty \<Rightarrow> tty" where
  "tty_WriteTextW buffer s = (
     if tty_error s \<noteq> 0 then s
     else case con_do (WriteConsoleW buffer) s of
       (Some k, s1) \<Rightarrow> s1\<lparr>tty_error := k\<rparr>
     | (None, s1) \<Rightarrow> s1)"

definition FLUSH_TEXT :: "tty \<Rightarrow> tty" where
  "FLUSH_TEXT s = (if 0 < length (utf16_buf s)
     then (tty_WriteTextW (utf16_buf s) s)\<lparr>utf16_buf := []\<rparr> else s)"

definition make_room :: "nat \<Rightarrow> tty \<Rightarrow> tty" where
  "make_room n s = (if 8192 - length (utf16_buf s) < n
     then (tty_WriteTextW (utf16_buf s) s)\<lparr>utf16_buf := []\<rparr> else s)"

definition emit_char :: "tty \<Rightarrow> tty" where
  "emit_char s0 = (
     let s = (if 0xffff < utf8_codepoint s0
           then s0\<lparr>utf8_codepoint := UNICODE_REPLACEMENT_CHARACTER\<rparr> else s0);
         cp = utf8_codepoint s
     in if cp = 0x0a \<or> cp = 0x0d then
          (if previous_eol s = 0 \<or> cp = ucast (previous_eol s) then
             (let s1 = make_room 2 s in
              s1\<lparr>utf16_buf := utf16_buf s1 @ [0x0d, 0x0a], previous_eol := ucast cp\<rparr>)
           else s\<lparr>previous_eol := 0\<rparr>)
        else if cp \<le> 0xffff then
          (let s1 = make_room 1 s in
           s1\<lparr>utf16_buf := utf16_buf s1 @ [ucast cp], previous_eol := 0\<rparr>)
        else s)"

definition exec_cmd :: "tty_cmd \<Rightarrow> tty \<Rightarrow> (int \<times> tty) option" where
  "exec_cmd k s = (case k of
     Cmd_Flush \<Rightarrow> Some (0, s)
   | Cmd_Reset \<Rightarrow> tty_Reset s
   | Cmd_Save b \<Rightarrow> Some (uv_tty_save_state b s)
   | Cmd_Restore b \<Rightarrow> uv_tty_restore_state b s
   | Cmd_Move x xr y yr \<Rightarrow> uv_tty_move_caret x xr y yr s
   | Cmd_Clear d entire \<Rightarrow> uv_tty_clear d entire s
   | Cmd_Style \<Rightarrow> Some (tty_SetStyle s))"

text \<open>The rest of the loop body, for a complete character.\<close>

definition process_char :: "tty \<Rightarrow> tty option" where
  "process_char s = (case ansi_step s of (s1, cmd, out) \<Rightarrow>
     Option.bind (case cmd of None \<Rightarrow> Some s1 | Some k \<Rightarrow> map_option snd (exec_cmd k (FLUSH_TEXT s1)))
       (\<lambda>s2. case out of Swallow \<Rightarrow> Some s2 | Emit \<Rightarrow> Some (emit_char s2) | Inconsistent \<Rightarrow> None))"

definition one_round :: "8 word \<Rightarrow> tty \<Rightarrow> (bool \<times> tty) option" where
  "one_round c s = (let (s1, again) = utf8_step c s in
     if utf8_bytes_left s1 \<noteq> 0 then Some (again, s1)
     else map_option (Pair again) (process_char s1))"

text \<open>
  The loop over a byte: \<^verbatim>\<open>j--\<close> and the \<^verbatim>\<open>j++\<close> of the loop make the next round look at the same byte.
\<close>

partial_function (option) process_byte :: "8 word \<Rightarrow> tty \<Rightarrow> tty option" where
  "process_byte c s = Option.bind (one_round c s) (\<lambda>r. if fst r then process_byte c (snd r) else Some (snd r))"

primrec process_bytes :: "8 word list \<Rightarrow> tty \<Rightarrow> tty option" where
  "process_bytes [] s = Some s"
| "process_bytes (c # cs) s = Option.bind (process_byte c s) (process_bytes cs)"

definition ProcessMessage :: "8 word list \<Rightarrow> tty \<Rightarrow> (int \<times> tty) option" where
  "ProcessMessage message s =
     Option.bind (process_bytes message (s\<lparr>tty_error := 0, utf16_buf := []\<rparr>))
       (\<lambda>s1. let s2 = FLUSH_TEXT s1 in Some (if tty_error s2 = 0 then 0 else -1, s2))"

text \<open>\<^verbatim>\<open>getWindowSize\<close>: the two results, or the error code of the Lua error.\<close>

definition GetWindowSize :: "tty \<Rightarrow> (32 word + int \<times> int) \<times> tty" where
  "GetWindowSize s = (
     let (e, info, s1) = get_info s in
     case e of Some k \<Rightarrow> (Inl k, s1)
     | None \<Rightarrow> (Inr (dwSize_X info, dwSize_Y info), uv_tty_update_virtual_window info s1))"

subsection \<open>What commands leave alone\<close>

text \<open>
  A command keeps the decoder and parser state, the pending text and the environment
  (\<open>tty_view\<close>), and makes calls.
\<close>

definition tty_view :: "tty \<Rightarrow> _" where
  "tty_view s = (utf8_bytes_left s, utf8_codepoint s, previous_eol s, ansi_parser_state s,
     ansi_csi_argc s, ansi_csi_argv s, utf16_buf s, con_fail s, con_info s, con_written s)"

definition n_calls :: "tty \<Rightarrow> nat" where
  "n_calls s = length (con_calls s)"

lemma tty_view_updates [simp]:
  "tty_view (s\<lparr>tty_error := k\<rparr>) = tty_view s" "n_calls (s\<lparr>tty_error := k\<rparr>) = n_calls s"
  "tty_view (s\<lparr>tty_flags := w\<rparr>) = tty_view s" "n_calls (s\<lparr>tty_flags := w\<rparr>) = n_calls s"
  "tty_view (s\<lparr>saved_position := p\<rparr>) = tty_view s" "n_calls (s\<lparr>saved_position := p\<rparr>) = n_calls s"
  "tty_view (s\<lparr>saved_attributes := a\<rparr>) = tty_view s"
  "n_calls (s\<lparr>saved_attributes := a\<rparr>) = n_calls s"
  "tty_view (s\<lparr>uv_tty_virtual_offset := i\<rparr>) = tty_view s"
  "n_calls (s\<lparr>uv_tty_virtual_offset := i\<rparr>) = n_calls s"
  by (simp_all add: tty_view_def n_calls_def)

lemma con_do_simps [simp]:
  "fst (con_do c s) = con_fail s (con_calls s) c" "tty_view (snd (con_do c s)) = tty_view s"
  "n_calls (snd (con_do c s)) = Suc (n_calls s)" "con_fail (snd (con_do c s)) = con_fail s"
  "con_calls (snd (con_do c s)) = con_calls s @ [c]"
  by (simp_all add: con_do_def tty_view_def n_calls_def)

lemma get_info_simps [simp]:
  "fst (get_info s) = con_fail s (con_calls s) GetConsoleScreenBufferInfo"
  "fst (snd (get_info s)) = con_info s (con_calls s)"
  "snd (snd (get_info s)) = snd (con_do GetConsoleScreenBufferInfo s)"
  by (simp_all add: get_info_def case_prod_unfold Let_def)

lemma virtual_window_simps [simp]:
  "tty_view (uv_tty_update_virtual_window i s) = tty_view s"
  "n_calls (uv_tty_update_virtual_window i s) = n_calls s"
  "con_fail (uv_tty_update_virtual_window i s) = con_fail s"
  "con_calls (uv_tty_update_virtual_window i s) = con_calls s"
  by (simp_all add: uv_tty_update_virtual_window_def tty_view_def n_calls_def Let_def)

lemma real_coord_simps [simp]:
  "snd (uv_tty_make_real_coord i x xr y yr s) = uv_tty_update_virtual_window i s"
  by (simp add: uv_tty_make_real_coord_def Let_def)

lemma fill_blank_simps [simp]:
  "tty_view (snd (fill_blank n a p s)) = tty_view s" "n_calls s < n_calls (snd (fill_blank n a p s))"
  by (simp_all add: fill_blank_def case_prod_unfold Let_def split: option.split)

lemma tty_view_bodies:
  "tty_view (snd (snd (move_caret_body x xr y yr s))) = tty_view s"
  "tty_view (snd (snd (clear_body x xr y yr x' xr' y' yr' s))) = tty_view s"
  "tty_view (snd (snd (reset_body a s))) = tty_view s"
  by (simp_all add: move_caret_body_def clear_body_def reset_body_def case_prod_unfold Let_def
      split: option.split)

lemma n_calls_bodies:
  "n_calls s < n_calls (snd (snd (move_caret_body x xr y yr s)))"
  "n_calls s < n_calls (snd (snd (clear_body x xr y yr x' xr' y' yr' s)))"
  "n_calls s < n_calls (snd (snd (reset_body a s)))"
proof -
  have fill: "n_calls t < n_calls u \<Longrightarrow> n_calls t < n_calls (snd (fill_blank n b p u))" for t u n b p
    by (erule less_trans) (rule fill_blank_simps)
  show "n_calls s < n_calls (snd (snd (move_caret_body x xr y yr s)))"
    by (simp add: move_caret_body_def case_prod_unfold Let_def split: option.split)
  show "n_calls s < n_calls (snd (snd (clear_body x xr y yr x' xr' y' yr' s)))"
    "n_calls s < n_calls (snd (snd (reset_body a s)))"
    by (simp_all add: clear_body_def reset_body_def case_prod_unfold Let_def fill split: option.split)
qed

lemma tty_view_retry:
  assumes "retry body s = Some r" and "\<And>s. tty_view (snd (snd (body s))) = tty_view s"
  shows "tty_view (snd r) = tty_view s"
proof -
  have "(\<forall>s. tty_view (snd (snd (body s))) = tty_view s) \<longrightarrow> tty_view (snd r) = tty_view s"
    by (rule retry.raw_induct [OF _ assms(1)]) (auto split: if_splits simp del: split_paired_All,
      metis snd_conv)
  with assms(2) show ?thesis by blast
qed

lemma tty_view_save: "tty_view (snd (uv_tty_save_state b s)) = tty_view s"
  by (simp add: uv_tty_save_state_def case_prod_unfold Let_def split: option.split)

lemma tty_view_restore_part: "tty_view (snd (restore_attributes_part b s)) = tty_view s"
  by (simp add: restore_attributes_part_def case_prod_unfold Let_def split: option.split)

lemma tty_view_style: "tty_view (snd (tty_SetStyle s)) = tty_view s"
  by (simp add: tty_SetStyle_def case_prod_unfold Let_def split: option.split)

lemma tty_view_move: "uv_tty_move_caret x xr y yr s = Some r \<Longrightarrow> tty_view (snd r) = tty_view s"
  by (auto simp: uv_tty_move_caret_def tty_view_bodies split: if_splits dest: tty_view_retry)

lemma tty_view_clear: "uv_tty_clear d b s = Some r \<Longrightarrow> tty_view (snd r) = tty_view s"
  unfolding uv_tty_clear_def Let_def
  by (cases "tty_error s \<noteq> 0") (auto simp: tty_view_bodies simp del: if_split_asm dest: tty_view_retry)

lemma tty_view_restore: "uv_tty_restore_state b s = Some r \<Longrightarrow> tty_view (snd r) = tty_view s"
  by (auto simp: uv_tty_restore_state_def bind_eq_Some_conv tty_view_restore_part
      split: if_splits dest!: tty_view_move)

lemma tty_view_reset: "tty_Reset s = Some r \<Longrightarrow> tty_view (snd r) = tty_view s"
proof -
  assume r: "tty_Reset s = Some r"
  let ?a = "FOREGROUND_RED OR FOREGROUND_GREEN OR FOREGROUND_RED"
  let ?s1 = "snd (con_do (SetConsoleTextAttribute ?a) s)"
  have "tty_view (snd q) = tty_view t" if "retry (reset_body a) t = Some q" for a t q
    using tty_view_retry [OF that] by (simp add: tty_view_bodies)
  then show ?thesis
    using r by (cases "tty_error s \<noteq> 0")
      (auto simp: tty_Reset_def case_prod_unfold Let_def split: option.splits prod.splits)
qed

lemma tty_view_exec_cmd: "exec_cmd k s = Some r \<Longrightarrow> tty_view (snd r) = tty_view s"
  by (cases k) (auto simp: exec_cmd_def tty_view_save tty_view_style
      dest: tty_view_reset tty_view_restore tty_view_move tty_view_clear)

subsection \<open>The retry loops end\<close>

text \<open>
  The console settles: from some call on it does not refuse a parameter any more (it is not
  resized for ever).
\<close>

definition con_settles :: "tty \<Rightarrow> bool" where
  "con_settles s \<longleftrightarrow>
     (\<exists>n. \<forall>h c. n \<le> length h \<longrightarrow> con_fail s h c \<noteq> Some ERROR_INVALID_PARAMETER)"

lemma con_settles_view: "tty_view t = tty_view s \<Longrightarrow> con_settles t = con_settles s"
  by (simp add: con_settles_def tty_view_def)

lemma con_settles_updates [simp]:
  "con_settles (snd (con_do c s)) = con_settles s"
  by (simp add: con_settles_def)

lemma fill_blank_settled:
  assumes "\<forall>h c. n \<le> length h \<longrightarrow> con_fail s h c \<noteq> Some ERROR_INVALID_PARAMETER"
    and "n \<le> n_calls s"
  shows "fst (fill_blank k a p s) \<noteq> Some ERROR_INVALID_PARAMETER"
  using assms by (auto simp: fill_blank_def case_prod_unfold Let_def n_calls_def split: option.split)

text \<open>A body goes round again only because a call late in it was refused.\<close>

lemma body_settled:
  assumes "\<forall>h c. n \<le> length h \<longrightarrow> con_fail s h c \<noteq> Some ERROR_INVALID_PARAMETER"
    and "n \<le> n_calls s"
  shows "\<not> fst (move_caret_body x xr y yr s)"
    "\<not> fst (clear_body x xr y yr x' xr' y' yr' s)" "\<not> fst (reset_body a s)"
proof -
  have late: "fst (fill_blank k b p t) \<noteq> Some ERROR_INVALID_PARAMETER"
    if "con_fail t = con_fail s" "n \<le> n_calls t" for k b p t
    by (rule fill_blank_settled [where n = n]) (use assms that in simp_all)
  show "\<not> fst (move_caret_body x xr y yr s)"
    using assms by (auto simp: move_caret_body_def case_prod_unfold Let_def n_calls_def split: option.split)
  show "\<not> fst (clear_body x xr y yr x' xr' y' yr' s)" "\<not> fst (reset_body a s)"
    using assms(2) late
    by (auto simp: clear_body_def reset_body_def case_prod_unfold Let_def split: option.split)
qed

lemma retry_total:
  assumes view: "\<And>s. tty_view (snd (snd (body s))) = tty_view s"
    and calls: "\<And>s. n_calls s < n_calls (snd (snd (body s)))"
    and settled: "\<And>s n. \<forall>h c. n \<le> length h \<longrightarrow> con_fail s h c \<noteq> Some ERROR_INVALID_PARAMETER \<Longrightarrow>
      n \<le> n_calls s \<Longrightarrow> \<not> fst (body s)"
    and "con_settles s"
  shows "retry body s \<noteq> None"
proof -
  from assms(4) obtain n where
    "\<forall>h c. n \<le> length h \<longrightarrow> con_fail s h c \<noteq> Some ERROR_INVALID_PARAMETER"
    unfolding con_settles_def by blast
  then show ?thesis
  proof (induction "n - n_calls s" arbitrary: s rule: less_induct)
    case less
    show ?case
    proof (cases "fst (body s)")
      case True
      then have "\<not> n \<le> n_calls s" using settled less.prems by blast
      moreover have "con_fail (snd (snd (body s))) = con_fail s"
        using view [of s] by (simp add: tty_view_def)
      ultimately have "retry body (snd (snd (body s))) \<noteq> None"
        using less.prems calls [of s] by (intro less.hyps) auto
      then show ?thesis using True by (subst retry.simps) simp
    qed (subst retry.simps, simp)
  qed
qed

lemma retry_bodies_total:
  assumes "con_settles s"
  shows "retry (move_caret_body x xr y yr) s \<noteq> None"
    "retry (clear_body x xr y yr x' xr' y' yr') s \<noteq> None" "retry (reset_body a) s \<noteq> None"
  by (rule retry_total, fact tty_view_bodies, fact n_calls_bodies, fact body_settled, fact assms)+

lemma exec_cmd_total:
  assumes "con_settles s"
  shows "exec_cmd k s \<noteq> None"
proof -
  have move: "uv_tty_move_caret x xr y yr s \<noteq> None" for x xr y yr
    using retry_bodies_total(1) [OF assms] by (simp add: uv_tty_move_caret_def)
  have restore: "uv_tty_restore_state b s \<noteq> None" for b
    using move [of "fst (saved_position s)" False "snd (saved_position s)" False]
    by (auto simp: uv_tty_restore_state_def)
  have clear: "uv_tty_clear d b s \<noteq> None" for d b
    using retry_bodies_total(2) [OF assms] by (simp add: uv_tty_clear_def Let_def)
  have "tty_Reset s \<noteq> None"
    using retry_bodies_total(3) [of "snd (con_do (SetConsoleCursorPosition 0 0) t)" for t] assms
    by (simp add: tty_Reset_def case_prod_unfold Let_def split: option.split prod.split)
  then show ?thesis
    using move restore clear by (cases k) (simp_all add: exec_cmd_def)
qed

subsection \<open>The parser state stays consistent\<close>

text \<open>
  The ten values \<open>ansi_parser_state\<close> takes, and what the parser relies on when it indexes the
  arguments: at most four, and at least one while a number is being read.
\<close>

definition ansi_states :: "8 word set" where
  "ansi_states = {0x00, 0x02, 0x04, 0x14, 0x24, 0x34, 0x08, 0x0A, 0x48, 0xC8}"

definition tty_ok :: "'a tty_context_scheme \<Rightarrow> bool" where
  "tty_ok s \<longleftrightarrow> ansi_parser_state s \<in> ansi_states \<and> length (ansi_csi_argv s) = 4 \<and>
     (ansi_parser_state s AND ANSI_CSI \<noteq> 0 \<longrightarrow> ansi_csi_argc s \<le> 4) \<and>
     (ansi_parser_state s AND ANSI_IN_ARG \<noteq> 0 \<longrightarrow> 0 < ansi_csi_argc s)"

lemma ansi_states_cases:
  assumes "st \<in> ansi_states"
  obtains "st = 0" | "st = 2" | "st = 4" | "st = 0x14" | "st = 0x24" | "st = 0x34"
  | "st = 8" | "st = 0x0A" | "st = 0x48" | "st = 0xC8"
  using assms by (auto simp: ansi_states_def)

lemma argc_step: "\<not> 4 \<le> (a :: 8 word) \<Longrightarrow> a + 1 \<le> 4 \<and> 0 < a + 1"
  by (simp add: word_le_nat_alt word_less_nat_alt unat_word_ariths)

lemma tty_ok_utf8: "tty_ok s \<Longrightarrow> tty_ok (fst (utf8_step c s))"
  by (simp add: utf8_step_def tty_ok_def split: option.split)

lemma tty_ok_st_control:
  "st \<in> {0x08, 0x0A, 0x48, 0xC8} \<Longrightarrow> st_control_state cp st \<in> {0, 0x08, 0x0A, 0x48, 0xC8}"
  by (auto simp: st_control_state_def ansi_consts)

lemma tty_ok_escape: "tty_ok s \<Longrightarrow> ansi_parser_state s = 2 \<Longrightarrow> tty_ok (fst (escape_step s))"
  by (simp add: escape_step_def tty_ok_def Let_def ansi_consts ansi_states_def)

lemma tty_ok_digit:
  assumes "tty_ok s" and "ansi_parser_state s = 4 \<or> ansi_parser_state s = 0x24"
  shows "tty_ok (csi_digit s)"
  using assms(2)
proof
  assume "ansi_parser_state s = 4"
  then show ?thesis
    using assms(1) argc_step [of "ansi_csi_argc s"]
    by (cases "4 \<le> ansi_csi_argc s")
      (simp_all add: csi_digit_def tty_ok_def Let_def ansi_consts ansi_states_def)
next
  assume "ansi_parser_state s = 0x24"
  then show ?thesis
    using assms(1) by (simp add: csi_digit_def tty_ok_def Let_def ansi_consts ansi_states_def)
qed

lemma tty_ok_semicolon:
  assumes "tty_ok s" and "ansi_parser_state s = 4 \<or> ansi_parser_state s = 0x24"
  shows "tty_ok (csi_semicolon s)"
  using assms(2)
proof
  assume "ansi_parser_state s = 4"
  then show ?thesis
    using assms(1) argc_step [of "ansi_csi_argc s"]
    by (cases "4 \<le> ansi_csi_argc s")
      (simp_all add: csi_semicolon_def tty_ok_def Let_def ansi_consts ansi_states_def)
next
  assume "ansi_parser_state s = 0x24"
  then show ?thesis
    using assms(1) by (simp add: csi_semicolon_def tty_ok_def Let_def ansi_consts ansi_states_def)
qed

lemma tty_ok_normal: "tty_ok s \<Longrightarrow> tty_ok (s\<lparr>ansi_parser_state := 0\<rparr>)"
  by (simp add: tty_ok_def ansi_consts ansi_states_def)

lemma tty_ok_ignore:
  assumes "tty_ok s" and "ansi_parser_state s = 4 \<or> ansi_parser_state s = 0x24"
  shows "tty_ok (s\<lparr>ansi_parser_state := ansi_parser_state s OR 0x10\<rparr>)"
  using assms(2) by rule (use assms(1) in \<open>simp_all add: tty_ok_def ansi_consts ansi_states_def\<close>)

lemma tty_ok_csi:
  assumes "tty_ok s" and "ansi_parser_state s \<in> {4, 0x14, 0x24, 0x34}"
  shows "tty_ok (fst (csi_step s))"
proof (cases "ansi_parser_state s AND ANSI_IGNORE = 0")
  case True
  then have "ansi_parser_state s = 4 \<or> ansi_parser_state s = 0x24"
    using assms(2) by (auto simp: ansi_consts)
  note st = assms(1) this
  show ?thesis
    using True assms(1) tty_ok_digit [OF st] tty_ok_semicolon [OF st] tty_ok_normal [OF assms(1)]
      tty_ok_ignore [OF st]
    by (simp add: csi_step_def Let_def ansi_consts)
next
  case False
  then show ?thesis
    using assms(1) tty_ok_normal [OF assms(1)] by (simp add: csi_step_def Let_def ansi_consts)
qed

lemma csi_escape_outcome:
  "snd (snd (csi_step s)) = Swallow" "snd (snd (escape_step s)) \<noteq> Inconsistent"
  by (simp_all add: csi_step_def escape_step_def Let_def)

lemma tty_ok_st:
  assumes "tty_ok s" and "ansi_parser_state s \<in> {0x08, 0x0A, 0x48, 0xC8}"
  shows "tty_ok (s\<lparr>ansi_parser_state := st_control_state cp (ansi_parser_state s)\<rparr>)"
  using tty_ok_st_control [OF assms(2), of cp] assms(1)
  by (auto simp: tty_ok_def ansi_consts ansi_states_def)

lemma tty_ok_new_csi: "tty_ok s \<Longrightarrow> tty_ok (s\<lparr>ansi_parser_state := 4, ansi_csi_argc := 0\<rparr>)"
  by (simp add: tty_ok_def ansi_consts ansi_states_def)

lemma tty_ok_ansi:
  assumes "tty_ok s"
  shows "tty_ok (fst (ansi_step s))"
proof -
  consider "ansi_parser_state s = 0" | "ansi_parser_state s = 2"
    | "ansi_parser_state s \<in> {4, 0x14, 0x24, 0x34}" | "ansi_parser_state s \<in> {0x08, 0x0A, 0x48, 0xC8}"
    using assms by (auto simp: tty_ok_def ansi_states_def)
  then show ?thesis
  proof cases
    case 1
    moreover have "tty_ok (s\<lparr>ansi_parser_state := 2\<rparr>)"
      using assms by (simp add: tty_ok_def ansi_consts ansi_states_def)
    ultimately show ?thesis
      using assms tty_ok_new_csi [OF assms] by (simp add: ansi_step_def Let_def ansi_consts)
  next
    case 2
    then show ?thesis
      using tty_ok_escape [OF assms] by (simp add: ansi_step_def Let_def ansi_consts)
  next
    case 3
    with tty_ok_csi [OF assms 3] show ?thesis
      by (auto simp: ansi_step_def Let_def ansi_consts)
  next
    case 4
    with tty_ok_st [OF assms 4] show ?thesis
      by (auto simp: ansi_step_def Let_def ansi_consts)
  qed
qed

lemma ansi_consistent:
  assumes "tty_ok s"
  shows "snd (snd (ansi_step s)) \<noteq> Inconsistent"
proof -
  have "ansi_parser_state s \<in> ansi_states" using assms by (simp add: tty_ok_def)
  then show ?thesis
    by (cases rule: ansi_states_cases)
      (simp_all add: ansi_step_def Let_def ansi_consts csi_escape_outcome)
qed

subsection \<open>The parser without the console\<close>

text \<open>
  \<open>ctx_of\<close> keeps what the decoder, the parser and the end-of-line filter use;
  \<open>parse_byte\<close> is what a byte does to it.
\<close>

definition ctx_of :: "'a tty_context_scheme \<Rightarrow> tty_context" where
  "ctx_of s = \<lparr>utf8_bytes_left = utf8_bytes_left s, utf8_codepoint = utf8_codepoint s,
     previous_eol = previous_eol s, ansi_parser_state = ansi_parser_state s,
     ansi_csi_argc = ansi_csi_argc s, ansi_csi_argv = ansi_csi_argv s,
     saved_position = (0, 0), saved_attributes = 0, tty_flags = 0\<rparr>"

definition emit_ctx :: "tty_context \<Rightarrow> tty_context" where
  "emit_ctx s = (
     let cp = (if 0xffff < utf8_codepoint s then UNICODE_REPLACEMENT_CHARACTER else utf8_codepoint s)
     in s\<lparr>utf8_codepoint := cp, previous_eol :=
          (if (cp = 0x0a \<or> cp = 0x0d) \<and> (previous_eol s = 0 \<or> cp = ucast (previous_eol s))
           then ucast cp else 0)\<rparr>)"

definition parse_char :: "tty_context \<Rightarrow> tty_context" where
  "parse_char s = (case ansi_step s of (s1, _, out) \<Rightarrow> if out = Emit then emit_ctx s1 else s1)"

definition parse_round :: "8 word \<Rightarrow> tty_context \<Rightarrow> bool \<times> tty_context" where
  "parse_round c s = (let (s1, again) = utf8_step c s in
     (again, if utf8_bytes_left s1 \<noteq> 0 then s1 else parse_char s1))"

text \<open>A byte that is looked at again is complete in the next round: lemma \<open>utf8_again\<close>.\<close>

definition parse_byte :: "8 word \<Rightarrow> tty_context \<Rightarrow> tty_context" where
  "parse_byte c s = (let (again, s1) = parse_round c s in if again then snd (parse_round c s1) else s1)"

lemma ctx_of_sel [simp]:
  "utf8_bytes_left (ctx_of s) = utf8_bytes_left s" "utf8_codepoint (ctx_of s) = utf8_codepoint s"
  "previous_eol (ctx_of s) = previous_eol s" "ansi_parser_state (ctx_of s) = ansi_parser_state s"
  "ansi_csi_argc (ctx_of s) = ansi_csi_argc s" "ansi_csi_argv (ctx_of s) = ansi_csi_argv s"
  by (simp_all add: ctx_of_def)

lemma ctx_of_upd [simp]:
  "ctx_of (s\<lparr>utf8_bytes_left := b\<rparr>) = (ctx_of s)\<lparr>utf8_bytes_left := b\<rparr>"
  "ctx_of (s\<lparr>utf8_codepoint := cp\<rparr>) = (ctx_of s)\<lparr>utf8_codepoint := cp\<rparr>"
  "ctx_of (s\<lparr>previous_eol := e\<rparr>) = (ctx_of s)\<lparr>previous_eol := e\<rparr>"
  "ctx_of (s\<lparr>ansi_parser_state := a\<rparr>) = (ctx_of s)\<lparr>ansi_parser_state := a\<rparr>"
  "ctx_of (s\<lparr>ansi_csi_argc := n\<rparr>) = (ctx_of s)\<lparr>ansi_csi_argc := n\<rparr>"
  "ctx_of (s\<lparr>ansi_csi_argv := v\<rparr>) = (ctx_of s)\<lparr>ansi_csi_argv := v\<rparr>"
  by (simp_all add: ctx_of_def)

lemma ctx_of_upd_tty [simp]:
  "ctx_of (t\<lparr>utf16_buf := xs\<rparr>) = ctx_of t" "ctx_of (t\<lparr>tty_error := k\<rparr>) = ctx_of t"
  "ctx_of (t\<lparr>con_calls := cs\<rparr>) = ctx_of t"
  by (simp_all add: ctx_of_def)

lemma ctx_of_view: "tty_view t = tty_view s \<Longrightarrow> ctx_of t = ctx_of s"
  by (simp add: tty_view_def ctx_of_def)

lemma tty_ok_ctx: "tty_ok (ctx_of s) = tty_ok s"
  by (simp add: tty_ok_def)

lemma ctx_of_utf8:
  "ctx_of (fst (utf8_step c s)) = fst (utf8_step c (ctx_of s))"
  "snd (utf8_step c (ctx_of s)) = snd (utf8_step c s)"
  by (simp_all add: utf8_step_def split: option.split)

lemma ctx_of_csi_command: "csi_command cp (ctx_of s) = csi_command cp s"
  by (simp add: csi_command_def csi_clear_def csi_count_def csi_position_def csi_arg_def Let_def)

lemma ctx_of_csi_parts:
  "ctx_of (csi_digit s) = csi_digit (ctx_of s)" "ctx_of (csi_semicolon s) = csi_semicolon (ctx_of s)"
  by (simp_all add: csi_digit_def csi_semicolon_def Let_def)

lemma ctx_of_steps:
  "ctx_of (fst (csi_step s)) = fst (csi_step (ctx_of s))"
  "snd (csi_step (ctx_of s)) = snd (csi_step s)"
  "ctx_of (fst (escape_step s)) = fst (escape_step (ctx_of s))"
  "snd (escape_step (ctx_of s)) = snd (escape_step s)"
  by (auto simp: csi_step_def escape_step_def Let_def ctx_of_csi_parts ctx_of_csi_command)

lemma ctx_of_ansi:
  "ctx_of (fst (ansi_step s)) = fst (ansi_step (ctx_of s))"
  "snd (ansi_step (ctx_of s)) = snd (ansi_step s)"
  by (simp_all add: ansi_step_def Let_def ctx_of_steps)

lemma ctx_of_write [simp]:
  "ctx_of (tty_WriteTextW b s) = ctx_of s" "ctx_of (FLUSH_TEXT s) = ctx_of s"
  "ctx_of (make_room n s) = ctx_of s"
  by (simp_all add: tty_WriteTextW_def FLUSH_TEXT_def make_room_def con_do_def split: option.split)

lemma write_fields [simp]:
  "con_fail (tty_WriteTextW b s) = con_fail s" "con_fail (FLUSH_TEXT s) = con_fail s"
  "con_fail (make_room n s) = con_fail s" "con_fail (emit_char s) = con_fail s"
  by (simp_all add: tty_WriteTextW_def FLUSH_TEXT_def make_room_def con_do_def emit_char_def Let_def
      split: option.split)

lemma ctx_of_emit: "ctx_of (emit_char s) = emit_ctx (ctx_of s)"
proof -
  have sel: "previous_eol (make_room n s) = previous_eol s" "utf8_codepoint (make_room n s) = utf8_codepoint s"
    for n s
    using ctx_of_write(3) [of n s] by (metis ctx_of_sel(3), metis ctx_of_write(3) ctx_of_sel(2))
  show ?thesis
    by (simp add: emit_char_def emit_ctx_def Let_def UNICODE_REPLACEMENT_CHARACTER_def sel)
qed

text \<open>
  The whole of \<open>ProcessMessage\<close> at the level of the context: when the console settles it
  returns, in a consistent state, with the context the bytes alone determine.
\<close>

lemma con_settles_fail: "con_fail t = con_fail s \<Longrightarrow> con_settles t = con_settles s"
  by (simp add: con_settles_def)

lemma exec_cmd_done:
  assumes "con_settles s"
  obtains r t where "exec_cmd k s = Some (r, t)" "ctx_of t = ctx_of s" "con_fail t = con_fail s"
proof -
  obtain r t where k: "exec_cmd k s = Some (r, t)"
    using exec_cmd_total [OF assms, of k] by (cases "exec_cmd k s") auto
  have "tty_view t = tty_view s" using tty_view_exec_cmd [OF k] by simp
  then have "ctx_of t = ctx_of s" "con_fail t = con_fail s"
    by (rule ctx_of_view, simp add: tty_view_def)
  with k show ?thesis by (rule that)
qed

lemma utf8_step_fail [simp]: "con_fail (fst (utf8_step c s)) = con_fail (s :: tty)"
  by (simp add: utf8_step_def split: option.split)

lemma csi_parts_fail: "con_fail (csi_digit s) = con_fail s" "con_fail (csi_semicolon s) = con_fail s"
  by (simp_all add: csi_digit_def csi_semicolon_def Let_def)

lemma ansi_step_fail [simp]: "con_fail (fst (ansi_step s)) = con_fail (s :: tty)"
  by (auto simp: ansi_step_def csi_step_def escape_step_def Let_def csi_parts_fail)

lemma process_char_done:
  assumes "tty_ok s" and "con_settles s"
  obtains t where "process_char s = Some t" "ctx_of t = parse_char (ctx_of s)" "con_fail t = con_fail s"
proof -
  obtain s1 cmd out where step: "ansi_step s = (s1, cmd, out)" by (cases "ansi_step s")
  have s1: "con_fail s1 = con_fail s" "ctx_of s1 = fst (ansi_step (ctx_of s))"
    "snd (ansi_step (ctx_of s)) = (cmd, out)"
    using ansi_step_fail [of s] ctx_of_ansi [of s] step by simp_all
  have out: "out \<noteq> Inconsistent" using ansi_consistent [OF assms(1)] step by simp
  obtain s2 where s2: "(case cmd of None \<Rightarrow> Some s1 | Some k \<Rightarrow>
      map_option snd (exec_cmd k (FLUSH_TEXT s1))) = Some s2" "ctx_of s2 = ctx_of s1"
    "con_fail s2 = con_fail s1"
  proof (cases cmd)
    case None
    then show ?thesis using that by simp
  next
    case (Some k)
    have "con_settles (FLUSH_TEXT s1)"
      using assms(2) con_settles_fail [of "FLUSH_TEXT s1" s] by (simp add: s1)
    then obtain r t where "exec_cmd k (FLUSH_TEXT s1) = Some (r, t)" "ctx_of t = ctx_of s1"
      "con_fail t = con_fail s1"
      by (rule exec_cmd_done [of _ k]) simp
    with Some that show ?thesis by simp
  qed
  have parse: "parse_char (ctx_of s) = (if out = Emit then emit_ctx (ctx_of s1) else ctx_of s1)"
    using s1 by (simp add: parse_char_def case_prod_unfold)
  show ?thesis
    using out s1 s2 parse step that
    by (cases out) (simp_all add: process_char_def ctx_of_emit)
qed

lemma one_round_done:
  assumes "tty_ok s" and "con_settles s"
  obtains t where "one_round c s = Some (snd (utf8_step c s), t)" "ctx_of t = snd (parse_round c (ctx_of s))"
    "con_fail t = con_fail s"
proof -
  obtain s1 again where step: "utf8_step c s = (s1, again)" by (cases "utf8_step c s")
  have s1: "ctx_of s1 = fst (utf8_step c (ctx_of s))" "con_fail s1 = con_fail s"
    using ctx_of_utf8(1) [of c s] utf8_step_fail [of c s] step by simp_all
  have bl: "utf8_bytes_left (fst (utf8_step c (ctx_of s))) = utf8_bytes_left s1"
    using s1(1) [symmetric] by simp
  have "tty_ok s1" using tty_ok_utf8 [OF assms(1), of c] step by simp
  moreover have "con_settles s1" using assms(2) con_settles_fail s1(2) by blast
  ultimately obtain t where "process_char s1 = Some t" "ctx_of t = parse_char (ctx_of s1)"
    "con_fail t = con_fail s1"
    by (rule process_char_done)
  with s1 bl step that [of "if utf8_bytes_left s1 \<noteq> 0 then s1 else t"] show ?thesis
    by (simp add: one_round_def parse_round_def case_prod_unfold Let_def split: if_splits)
qed

lemma tty_ok_parse_char: "tty_ok s \<Longrightarrow> tty_ok (parse_char s)"
  using tty_ok_ansi [of s]
  by (simp add: parse_char_def case_prod_unfold emit_ctx_def Let_def tty_ok_def)

lemma tty_ok_parse_round: "tty_ok s \<Longrightarrow> tty_ok (snd (parse_round c s))"
  using tty_ok_utf8 [of s c] by (simp add: parse_round_def case_prod_unfold Let_def tty_ok_parse_char)

lemma tty_ok_parse_byte: "tty_ok s \<Longrightarrow> tty_ok (parse_byte c s)"
  by (simp add: parse_byte_def case_prod_unfold Let_def tty_ok_parse_round)

lemma fst_parse_round: "fst (parse_round c (ctx_of s)) = snd (utf8_step c s)"
  by (simp add: parse_round_def case_prod_unfold Let_def ctx_of_utf8)

text \<open>
  The loop over a byte ends: a round that asks for another has set the count of missing bytes to
  0, no later part of the round changes that, and with the count at 0 no round asks for another.
\<close>

lemma utf8_again: "snd (utf8_step c s) \<Longrightarrow> utf8_bytes_left (fst (utf8_step c s)) = 0"
  by (auto simp: utf8_step_def split: option.splits if_splits)

lemma utf8_complete: "utf8_bytes_left s = 0 \<Longrightarrow> \<not> snd (utf8_step c s)"
  by (simp add: utf8_step_def split: option.split)

lemma ansi_step_left: "utf8_bytes_left (fst (ansi_step s)) = utf8_bytes_left s"
  by (auto simp: ansi_step_def csi_step_def escape_step_def csi_digit_def csi_semicolon_def Let_def)

lemma parse_char_left: "utf8_bytes_left (parse_char s) = utf8_bytes_left s"
  using ansi_step_left [of s] by (simp add: parse_char_def case_prod_unfold emit_ctx_def Let_def)

lemma parse_round_left:
  "fst (parse_round c s) \<Longrightarrow> utf8_bytes_left (snd (parse_round c s)) = 0"
  using utf8_again [of c s] by (auto simp: parse_round_def case_prod_unfold Let_def parse_char_left)

lemma process_byte_done:
  assumes "tty_ok s" and "con_settles s"
  obtains t where "process_byte c s = Some t" "ctx_of t = parse_byte c (ctx_of s)"
    "con_fail t = con_fail s"
proof -
  from one_round_done [OF assms, of c] obtain t where
    t: "one_round c s = Some (snd (utf8_step c s), t)" "ctx_of t = snd (parse_round c (ctx_of s))"
    "con_fail t = con_fail s" .
  have "tty_ok t" using tty_ok_parse_round assms(1) tty_ok_ctx t(2) by metis
  moreover have "con_settles t" using assms(2) con_settles_fail t(3) by blast
  ultimately obtain u where
    u: "one_round c t = Some (snd (utf8_step c t), u)" "ctx_of u = snd (parse_round c (ctx_of t))"
    "con_fail u = con_fail t"
    by (rule one_round_done [of _ c])
  show ?thesis
  proof (cases "snd (utf8_step c s)")
    case True
    then have "fst (parse_round c (ctx_of s))" by (simp add: fst_parse_round)
    then have "utf8_bytes_left t = 0" using parse_round_left t(2) by (metis ctx_of_sel(1))
    then have "process_byte c t = Some u"
      using u(1) by (simp add: process_byte.simps [of c t] utf8_complete)
    then have "process_byte c s = Some u" using t(1) True by (simp add: process_byte.simps [of c s])
    moreover have "ctx_of u = parse_byte c (ctx_of s)"
      using True t(2) u(2) by (simp add: parse_byte_def case_prod_unfold Let_def fst_parse_round)
    ultimately show ?thesis using that t(3) u(3) by simp
  next
    case False
    then have "process_byte c s = Some t" using t(1) by (simp add: process_byte.simps [of c s])
    moreover have "ctx_of t = parse_byte c (ctx_of s)"
      using False t(2) by (simp add: parse_byte_def case_prod_unfold Let_def fst_parse_round)
    ultimately show ?thesis using that t(3) by simp
  qed
qed

lemma process_bytes_done:
  assumes "tty_ok s" and "con_settles s"
  shows "\<exists>t. process_bytes cs s = Some t \<and> ctx_of t = fold parse_byte cs (ctx_of s) \<and>
    con_fail t = con_fail s \<and> tty_ok t"
  using assms
proof (induction cs arbitrary: s)
  case (Cons c cs)
  from process_byte_done [OF Cons.prems, of c] obtain t where
    t: "process_byte c s = Some t" "ctx_of t = parse_byte c (ctx_of s)" "con_fail t = con_fail s" .
  have "tty_ok t" using tty_ok_parse_byte Cons.prems(1) tty_ok_ctx t(2) by metis
  moreover have "con_settles t" using Cons.prems(2) con_settles_fail t(3) by blast
  ultimately show ?case using Cons.IH [of t] t by simp
qed simp

lemma ProcessMessage_done:
  assumes "tty_ok s" and "con_settles s"
  obtains r t where "ProcessMessage m s = Some (r, t)" "ctx_of t = fold parse_byte m (ctx_of s)"
    "tty_ok t" "con_settles t"
proof -
  let ?s = "s\<lparr>tty_error := 0, utf16_buf := []\<rparr>"
  have s: "tty_ok ?s" "con_settles ?s" "ctx_of ?s = ctx_of s"
    using assms by (simp_all add: tty_ok_def con_settles_def)
  from process_bytes_done [OF s(1,2), of m] obtain t where
    t: "process_bytes m ?s = Some t" "ctx_of t = fold parse_byte m (ctx_of s)"
    "con_fail t = con_fail s" "tty_ok t"
    by (auto simp: s(3))
  have "tty_ok (FLUSH_TEXT t)" using t(4) tty_ok_ctx ctx_of_write(2) by metis
  moreover have "con_settles (FLUSH_TEXT t)"
    using assms(2) con_settles_fail [of "FLUSH_TEXT t" s] t(3) by simp
  ultimately show ?thesis
    using t that by (simp add: ProcessMessage_def Let_def)
qed

subsection \<open>What reaches the screen\<close>

text \<open>The text of the write calls so far, and with the pending buffer.\<close>

fun payload :: "con_call \<Rightarrow> 16 word list" where
  "payload (WriteConsoleW b) = b"
| "payload _ = []"

definition written :: "con_call list \<Rightarrow> 16 word list" where
  "written cs = concat (map payload cs)"

definition shown :: "tty \<Rightarrow> 16 word list" where
  "shown s = written (con_calls s) @ utf16_buf s"

definition writes_ok :: "tty \<Rightarrow> bool" where
  "writes_ok s \<longleftrightarrow> (\<forall>h b. con_fail s h (WriteConsoleW b) = None)"

text \<open>
  What characters look like on the screen: a pair of different line ends counts once, and the
  console, which has no surrogate pairs, shows U+FFFD for what is above the basic plane.
\<close>

fun screen_text :: "8 word \<Rightarrow> 32 word list \<Rightarrow> 16 word list" where
  "screen_text p [] = []"
| "screen_text p (cp # cps) =
     (if cp = 0x0a \<or> cp = 0x0d then
        (if p = 0 \<or> cp = ucast p then 0x0d # 0x0a # screen_text (ucast cp) cps else screen_text 0 cps)
      else (if 0xffff < cp then 0xFFFD else ucast cp) # screen_text 0 cps)"

lemma write_ok:
  assumes "writes_ok s" and "tty_error s = 0"
  shows "tty_WriteTextW b s = s\<lparr>con_calls := con_calls s @ [WriteConsoleW b]\<rparr>"
  using assms by (simp add: tty_WriteTextW_def con_do_def writes_ok_def)

lemma flush_shown:
  assumes "writes_ok s" and "tty_error s = 0"
  shows "shown (FLUSH_TEXT s) = shown s" "tty_error (FLUSH_TEXT s) = 0"
    "utf16_buf (FLUSH_TEXT s) = []"
  using assms by (simp_all add: FLUSH_TEXT_def write_ok shown_def written_def)

lemma make_room_shown:
  assumes "writes_ok s" and "tty_error s = 0"
  shows "written (con_calls (make_room n s)) @ utf16_buf (make_room n s) = shown s"
    "tty_error (make_room n s) = 0" "previous_eol (make_room n s) = previous_eol s"
  using assms by (simp_all add: make_room_def write_ok shown_def written_def)

lemma emit_shown:
  fixes s :: tty
  assumes "writes_ok s" and "tty_error s = 0"
  defines "cp \<equiv> utf8_codepoint s"
  shows "shown (emit_char s) = shown s @ (if cp = 0x0a \<or> cp = 0x0d
       then (if previous_eol s = 0 \<or> cp = ucast (previous_eol s) then [0x0d, 0x0a] else [])
       else [if 0xffff < cp then 0xFFFD else ucast cp])"
    "tty_error (emit_char s) = 0"
    "previous_eol (emit_char s) = (if cp = 0x0a \<or> cp = 0x0d
       then (if previous_eol s = 0 \<or> cp = ucast (previous_eol s) then ucast cp else 0) else 0)"
proof -
  let ?s = "s\<lparr>utf8_codepoint := UNICODE_REPLACEMENT_CHARACTER\<rparr>"
  have ok: "writes_ok ?s" "tty_error ?s = 0" using assms by (simp_all add: writes_ok_def)
  have s: "shown ?s = shown s" by (simp add: shown_def)
  note room = make_room_shown [OF assms(1,2)] make_room_shown [OF ok]
  have low: "cp \<le> 0xffff" "cp \<noteq> 0x0a" "cp \<noteq> 0x0d" if "\<not> 0xffff < cp" "\<not> (cp = 0x0a \<or> cp = 0x0d)" using that by auto
  have high: "cp \<noteq> 0x0a" "cp \<noteq> 0x0d" if "0xffff < cp" using that by auto
  show "shown (emit_char s) = shown s @ (if cp = 0x0a \<or> cp = 0x0d
       then (if previous_eol s = 0 \<or> cp = ucast (previous_eol s) then [0x0d, 0x0a] else [])
       else [if 0xffff < cp then 0xFFFD else ucast cp])"
    "tty_error (emit_char s) = 0"
    "previous_eol (emit_char s) = (if cp = 0x0a \<or> cp = 0x0d
       then (if previous_eol s = 0 \<or> cp = ucast (previous_eol s) then ucast cp else 0) else 0)"
    using room high low s assms(2)
    by (auto simp: emit_char_def Let_def shown_def cp_def UNICODE_REPLACEMENT_CHARACTER_def)
qed

lemma high_bit:
  assumes "w < 2 ^ n" and "n \<le> m"
  shows "\<not> bit (w :: 'a::len word) m"
proof -
  have "uint w < 2 ^ n"
    using assms(1) by (cases "n < size w") (simp_all add: word_2p_lem lt2p_lem word_size)
  then have "take_bit n (uint w) = uint w"
    by (simp add: take_bit_int_eq_self)
  then show ?thesis
    using assms(2) by (metis bit_take_bit_iff bit_uint_iff bit_imp_le_length not_le)
qed

lemma ascii_bit7: "(c :: 8 word) < 0x80 \<Longrightarrow> \<not> bit c 7"
  by (rule high_bit [of _ 7]) simp_all

lemma utf8_ascii:
  "c < 0x80 \<Longrightarrow> utf8_bytes_left s = 0 \<Longrightarrow> utf8_step c s = (s\<lparr>utf8_codepoint := ucast c\<rparr>, False)"
  by (simp add: utf8_step_def bit_scan_reverse_def bit_not_iff ascii_bit7)

lemma emit_state:
  "utf8_bytes_left (emit_char s) = utf8_bytes_left s"
  "ansi_parser_state (emit_char s) = ansi_parser_state s"
proof -
  have "utf8_bytes_left (ctx_of (emit_char s)) = utf8_bytes_left s"
    "ansi_parser_state (ctx_of (emit_char s)) = ansi_parser_state s"
    unfolding ctx_of_emit emit_ctx_def Let_def by simp_all
  then show "utf8_bytes_left (emit_char s) = utf8_bytes_left s"
    "ansi_parser_state (emit_char s) = ansi_parser_state s" by simp_all
qed

subsection \<open>The decoder inverts the encoding\<close>

text \<open>The UTF-8 encoding of a code point of up to 21 bits, which is all of Unicode.\<close>

definition utf8_encode :: "32 word \<Rightarrow> 8 word list" where
  "utf8_encode cp =
     (if cp < 0x80 then [ucast cp]
      else if cp < 0x800 then [0xC0 OR ucast (drop_bit 6 cp), 0x80 OR (ucast cp AND 0x3F)]
      else if cp < 0x10000
      then [0xE0 OR ucast (drop_bit 12 cp), 0x80 OR (ucast (drop_bit 6 cp) AND 0x3F),
            0x80 OR (ucast cp AND 0x3F)]
      else [0xF0 OR ucast (drop_bit 18 cp), 0x80 OR (ucast (drop_bit 12 cp) AND 0x3F),
            0x80 OR (ucast (drop_bit 6 cp) AND 0x3F), 0x80 OR (ucast cp AND 0x3F)])"

lemma word8_bits [simp]:
  "bit (0xC0 :: int) n \<longleftrightarrow> n = 6 \<or> n = 7" "bit (0xE0 :: int) n \<longleftrightarrow> n = 5 \<or> n = 6 \<or> n = 7"
  "bit (0xF0 :: int) n \<longleftrightarrow> 4 \<le> n \<and> n < 8" "bit (0x3F000 :: int) n \<longleftrightarrow> 12 \<le> n \<and> n < 18" "bit (0x07 :: int) n \<longleftrightarrow> n < 3" "bit (0x80 :: int) n \<longleftrightarrow> n = 7" "bit (0x3F :: int) n \<longleftrightarrow> n < 6"
  "bit (0xFC0 :: int) n \<longleftrightarrow> 6 \<le> n \<and> n < 12" "bit (0x1F :: int) n \<longleftrightarrow> n < 5" "bit (0x0F :: int) n \<longleftrightarrow> n < 4"
  by (auto simp: bit_numeral_rec bit_1_iff split: nat.splits)

lemma utf8_continuation:
  assumes "utf8_bytes_left s \<noteq> 0"
  shows "utf8_step (0x80 OR (w AND 0x3F)) s =
    (s\<lparr>utf8_bytes_left := utf8_bytes_left s - 1,
       utf8_codepoint := push_bit 6 (utf8_codepoint s) OR (ucast w AND 0x3f)\<rparr>, False)"
proof -
  have "(0x80 OR (w AND 0x3F)) AND 0xC0 = (0x80 :: 8 word)"
    by (rule bit_word_eqI) (auto simp: bit_or_iff bit_and_iff)
  moreover have "(ucast (0x80 OR (w AND 0x3F) :: 8 word) :: 32 word) AND 0x3f = ucast w AND 0x3f"
    by (rule bit_word_eqI) (auto simp: bit_or_iff bit_and_iff bit_ucast_iff)
  ultimately show ?thesis
    using assms by (simp add: utf8_step_def)
qed

lemma utf8_start2:
  assumes "utf8_bytes_left s = 0" and "\<And>n. 5 \<le> n \<Longrightarrow> \<not> bit (w :: 8 word) n"
  shows "utf8_step (0xC0 OR w) s = (s\<lparr>utf8_codepoint := ucast w, utf8_bytes_left := 1\<rparr>, False)"
proof -
  have "bit (NOT (0xC0 OR w)) n \<longleftrightarrow> n < 8 \<and> \<not> (n = 6 \<or> n = 7) \<and> \<not> bit w n" for n
    by (simp only: bit_not_iff bit_or_iff possible_bit_word) auto
  then have z: "bit_scan_reverse (NOT (0xC0 OR w)) = Some 5"
    using assms(2) [of 5] by (simp only: bit_scan_reverse_def) simp
  have "drop_bit 3 0xff AND ucast (0xC0 OR w) = (ucast w :: 32 word)"
    using assms(2)
    by (intro bit_word_eqI)
      (auto simp: bit_or_iff bit_and_iff bit_ucast_iff bit_drop_bit_eq, meson not_le)
  with z assms(1) show ?thesis by (simp add: utf8_step_def)
qed

lemma utf8_start3:
  assumes "utf8_bytes_left s = 0" and "\<And>n. 4 \<le> n \<Longrightarrow> \<not> bit (w :: 8 word) n"
  shows "utf8_step (0xE0 OR w) s = (s\<lparr>utf8_codepoint := ucast w, utf8_bytes_left := 2\<rparr>, False)"
proof -
  have "bit (NOT (0xE0 OR w)) n \<longleftrightarrow> n < 8 \<and> \<not> (n = 5 \<or> n = 6 \<or> n = 7) \<and> \<not> bit w n" for n
    by (simp only: bit_not_iff bit_or_iff possible_bit_word) auto
  then have z: "bit_scan_reverse (NOT (0xE0 OR w)) = Some 4"
    using assms(2) [of 4] by (simp only: bit_scan_reverse_def) simp
  have "drop_bit 4 0xff AND ucast (0xE0 OR w) = (ucast w :: 32 word)"
    using assms(2)
    by (intro bit_word_eqI)
      (auto simp: bit_or_iff bit_and_iff bit_ucast_iff bit_drop_bit_eq, meson not_le)
  with z assms(1) show ?thesis by (simp add: utf8_step_def)
qed

lemma utf8_start4:
  assumes "utf8_bytes_left s = 0" and "\<And>n. 3 \<le> n \<Longrightarrow> \<not> bit (w :: 8 word) n"
  shows "utf8_step (0xF0 OR w) s = (s\<lparr>utf8_codepoint := ucast w, utf8_bytes_left := 3\<rparr>, False)"
proof -
  have "bit (NOT (0xF0 OR w)) n \<longleftrightarrow> n < 4 \<and> \<not> bit w n" for n
    using assms(2) [of n] by (simp only: bit_not_iff bit_or_iff possible_bit_word) auto
  then have z: "bit_scan_reverse (NOT (0xF0 OR w)) = Some 3"
    using assms(2) [of 3] by (simp only: bit_scan_reverse_def) simp
  have "drop_bit 5 0xff AND ucast (0xF0 OR w) = (ucast w :: 32 word)"
    using assms(2)
    by (intro bit_word_eqI)
      (auto simp: bit_or_iff bit_and_iff bit_ucast_iff bit_drop_bit_eq, meson not_le)
  with z assms(1) show ?thesis by (simp add: utf8_step_def)
qed

lemma utf8_join4:
  assumes "\<And>n. 21 \<le> n \<Longrightarrow> \<not> bit (cp :: 32 word) n"
  shows "push_bit 6 (push_bit 6 (push_bit 6 (ucast (ucast (drop_bit 18 cp) :: 8 word)) OR
      (ucast (ucast (drop_bit 12 cp) :: 8 word) AND 0x3F)) OR
      (ucast (ucast (drop_bit 6 cp) :: 8 word) AND 0x3F)) OR (ucast (ucast cp :: 8 word) AND 0x3F) = cp"
proof (rule bit_word_eqI)
  fix n
  assume n: "n < LENGTH(32)"
  consider "n < 6" | "6 \<le> n" "n < 12" | "12 \<le> n" "n < 18" | "18 \<le> n" "n < 21" | "21 \<le> n" by linarith
  then show "bit (push_bit 6 (push_bit 6 (push_bit 6 (ucast (ucast (drop_bit 18 cp) :: 8 word)) OR
      (ucast (ucast (drop_bit 12 cp) :: 8 word) AND 0x3F)) OR
      (ucast (ucast (drop_bit 6 cp) :: 8 word) AND 0x3F)) OR (ucast (ucast cp :: 8 word) AND 0x3F)
      :: 32 word) n = bit cp n"
    using assms
    by cases (auto simp: bit_or_iff bit_and_iff bit_ucast_iff bit_push_bit_iff bit_drop_bit_eq)
qed

lemma utf8_join:
  assumes "\<And>n. k \<le> n \<Longrightarrow> \<not> bit (cp :: 32 word) n" and "k \<le> 14"
  shows "push_bit 6 (ucast (ucast (drop_bit 6 cp) :: 8 word)) OR (ucast (ucast cp :: 8 word) AND 0x3F) = cp"
proof (rule bit_word_eqI)
  fix n
  assume "n < LENGTH(32)"
  show "bit (push_bit 6 (ucast (ucast (drop_bit 6 cp) :: 8 word)) OR
      (ucast (ucast cp :: 8 word) AND 0x3F) :: 32 word) n = bit cp n"
  proof (cases "n < 14")
    case True
    then show ?thesis
      by (cases "n < 6") (auto simp: bit_or_iff bit_and_iff bit_ucast_iff bit_push_bit_iff bit_drop_bit_eq)
  next
    case False
    then have "\<not> bit cp n" using assms by (meson le_trans not_le)
    with False show ?thesis
      by (simp add: bit_or_iff bit_and_iff bit_ucast_iff bit_push_bit_iff bit_drop_bit_eq)
  qed
qed

lemma utf8_join3:
  assumes "\<And>n. 16 \<le> n \<Longrightarrow> \<not> bit (cp :: 32 word) n"
  shows "push_bit 6 (push_bit 6 (ucast (ucast (drop_bit 12 cp) :: 8 word)) OR
      (ucast (ucast (drop_bit 6 cp) :: 8 word) AND 0x3F)) OR (ucast (ucast cp :: 8 word) AND 0x3F) = cp"
proof (rule bit_word_eqI)
  fix n
  assume n: "n < LENGTH(32)"
  consider "n < 6" | "6 \<le> n" "n < 12" | "12 \<le> n" "n < 16" | "16 \<le> n" by linarith
  then show "bit (push_bit 6 (push_bit 6 (ucast (ucast (drop_bit 12 cp) :: 8 word)) OR
      (ucast (ucast (drop_bit 6 cp) :: 8 word) AND 0x3F)) OR (ucast (ucast cp :: 8 word) AND 0x3F)
      :: 32 word) n = bit cp n"
    using assms
    by cases (auto simp: bit_or_iff bit_and_iff bit_ucast_iff bit_push_bit_iff bit_drop_bit_eq)
qed

text \<open>A byte that does not have to be looked at again.\<close>

lemma process_byte_step:
  assumes "utf8_step c s = (s1, False)"
  shows "process_byte c s = (if utf8_bytes_left s1 \<noteq> 0 then Some s1 else process_char s1)"
proof (cases "utf8_bytes_left s1 = 0")
  case True
  then show ?thesis
    using assms by (cases "process_char s1") (simp_all add: process_byte.simps [of c s] one_round_def)
qed (simp add: process_byte.simps [of c s] one_round_def assms)

lemma process_bytes_Nil: "process_bytes [] = Some"
  by (simp add: fun_eq_iff)

lemma process_code_point:
  fixes s :: tty
  assumes "utf8_bytes_left s = 0" and "cp < 0x200000"
  shows "process_bytes (utf8_encode cp) s = process_char (s\<lparr>utf8_codepoint := cp\<rparr>)"
proof -
  have left: "s\<lparr>utf8_codepoint := cp, utf8_bytes_left := 0\<rparr> = s\<lparr>utf8_codepoint := cp\<rparr>"
    "s\<lparr>utf8_bytes_left := 0, utf8_codepoint := cp\<rparr> = s\<lparr>utf8_codepoint := cp\<rparr>"
    using assms(1) by simp_all
  consider "cp < 0x80" | "\<not> cp < 0x80" "cp < 0x800" | "\<not> cp < 0x800" "\<not> cp < 0x80" "cp < 0x10000"
    | "\<not> cp < 0x10000" "\<not> cp < 0x800" "\<not> cp < 0x80"
    by (meson le_less_trans not_le)
  then show ?thesis
  proof cases
    case 1
    have "n < 7" if "bit cp n" for n
      using 1 high_bit [of cp 7 n] that by (cases "7 \<le> n") simp_all
    then have "ucast (ucast cp :: 8 word) = cp"
      by (intro bit_word_eqI) (fastforce simp: bit_ucast_iff)
    moreover have "unat (ucast cp :: 8 word) \<le> unat cp"
      by (simp add: unsigned_ucast_eq)
    then have "(ucast cp :: 8 word) < 0x80"
      using 1 by (simp add: word_less_nat_alt)
    ultimately show ?thesis
      using 1 assms(1) process_byte_step [OF utf8_ascii [of "ucast cp" s]]
      by (simp add: utf8_encode_def process_bytes_Nil)
  next
    case 2
    have hi: "\<not> bit cp n" if "11 \<le> n" for n using 2 that by (intro high_bit [of _ 11]) simp_all
    have "\<not> bit (ucast (drop_bit 6 cp) :: 8 word) n" if "5 \<le> n" for n
      using hi [of "6 + n"] that by (simp add: bit_ucast_iff bit_drop_bit_eq)
    note start = process_byte_step [OF utf8_start2 [OF assms(1) this]]
    show ?thesis
      using 2 utf8_join [OF hi] assms(1)
      by (simp add: utf8_encode_def start process_byte_step [OF utf8_continuation] process_bytes_Nil left)
  next
    case 3
    have hi: "\<not> bit cp n" if "16 \<le> n" for n using 3(3) that by (intro high_bit [of _ 16]) simp_all
    have "\<not> bit (ucast (drop_bit 12 cp) :: 8 word) n" if "4 \<le> n" for n
      using hi [of "12 + n"] that by (simp add: bit_ucast_iff bit_drop_bit_eq)
    note start = process_byte_step [OF utf8_start3 [OF assms(1) this]]
    show ?thesis
      using 3 utf8_join3 [OF hi] assms(1)
      by (simp add: utf8_encode_def start process_byte_step [OF utf8_continuation] process_bytes_Nil left)
  next
    case 4
    have hi: "\<not> bit cp n" if "21 \<le> n" for n using assms(2) that by (intro high_bit [of _ 21]) simp_all
    have "\<not> bit (ucast (drop_bit 18 cp) :: 8 word) n" if "3 \<le> n" for n
      using hi [of "18 + n"] that by (simp add: bit_ucast_iff bit_drop_bit_eq)
    note start = process_byte_step [OF utf8_start4 [OF assms(1) this]]
    show ?thesis
      using 4 utf8_join4 [OF hi] assms(1)
      by (simp add: utf8_encode_def start process_byte_step [OF utf8_continuation] process_bytes_Nil left)
  qed
qed

definition text_char :: "32 word \<Rightarrow> bool" where
  "text_char cp \<longleftrightarrow> cp < 0x200000 \<and> cp \<noteq> 0x1B \<and> cp \<noteq> 0x9B"

lemma process_text_char:
  assumes "text_char cp" and "utf8_bytes_left s = 0" and "ansi_parser_state s = ANSI_NORMAL"
  shows "process_bytes (utf8_encode cp) s = Some (emit_char (s\<lparr>utf8_codepoint := cp\<rparr>))"
  using assms by (simp add: process_code_point text_char_def process_char_def ansi_step_def Let_def)

lemma process_bytes_append:
  "process_bytes (xs @ ys) s = Option.bind (process_bytes xs s) (process_bytes ys)"
proof (induction xs arbitrary: s)
  case (Cons x xs)
  then show ?case by (cases "process_byte x s") simp_all
qed simp

lemma process_text:
  assumes "\<forall>cp\<in>set cps. text_char cp" and "utf8_bytes_left s = 0" and "ansi_parser_state s = ANSI_NORMAL"
    and "writes_ok s" and "tty_error s = 0"
  shows "\<exists>t. process_bytes (concat (map utf8_encode cps)) s = Some t \<and>
    shown t = shown s @ screen_text (previous_eol s) cps \<and> writes_ok t \<and> tty_error t = 0"
  using assms
proof (induction cps arbitrary: s)
  case (Cons cp cps)
  let ?s = "s\<lparr>utf8_codepoint := cp\<rparr>"
  have ok: "writes_ok ?s" "tty_error ?s = 0"
    using Cons.prems by (simp_all add: writes_ok_def)
  note emit = emit_shown [OF ok]
  have "process_bytes (utf8_encode cp) s = Some (emit_char ?s)"
    using Cons.prems by (intro process_text_char) simp_all
  moreover have "\<exists>t. process_bytes (concat (map utf8_encode cps)) (emit_char ?s) = Some t \<and>
      shown t = shown (emit_char ?s) @ screen_text (previous_eol (emit_char ?s)) cps \<and>
      writes_ok t \<and> tty_error t = 0"
    using Cons.prems emit(2)
    by (intro Cons.IH) (simp_all add: emit_state writes_ok_def)
  moreover have "shown ?s = shown s" by (simp add: shown_def)
  ultimately show ?case
    using emit(1,3) by (auto simp: process_bytes_append)
qed simp

subsection \<open>Properties\<close>

interpretation tty: byte_machine ProcessMessage "\<lambda>s. tty_ok s \<and> con_settles s" ctx_of parse_byte
  by unfold_locales (metis ProcessMessage_done)

definition sample_info :: console_info where
  "sample_info = \<lparr>dwSize_X = 80, dwSize_Y = 300, dwCursorPosition_X = 10, dwCursorPosition_Y = 40,
     srWindow_Top = 30, srWindow_Bottom = 54, wAttributes = 7\<rparr>"

definition sample_tty :: tty where
  "sample_tty = \<lparr>utf8_bytes_left = 0, utf8_codepoint = 0, previous_eol = 0, ansi_parser_state = 0,
     ansi_csi_argc = 0, ansi_csi_argv = [0, 0, 0, 0], saved_position = (0, 0), saved_attributes = 0,
     tty_flags = 0, uv_tty_virtual_offset = -1, uv_tty_virtual_height = -1,
     uv_tty_virtual_width = -1, tty_error = 0, utf16_buf = [], con_calls = [],
     con_fail = (\<lambda>h c. if h = [] \<and> c = SetConsoleCursorPosition 0 0 then Some 87 else None),
     con_info = (\<lambda>_. sample_info), con_written = (\<lambda>_ _. 0)\<rparr>"

lemma sample_tty_ok: "tty_ok sample_tty \<and> con_settles sample_tty"
proof -
  have "con_settles sample_tty"
    unfolding con_settles_def by (rule exI [of _ 1]) (simp add: sample_tty_def)
  then show ?thesis by (simp add: sample_tty_def tty_ok_def ansi_states_def ansi_consts)
qed

text \<open>
  C26: Writing to the console returns, with the parser in one of its ten states and its argument
  array in bounds, whatever the bytes are, once the console stops refusing positions (which is
  what ends the retries of a command): the loop over the bytes looks at no byte for ever although
  it goes back for a start byte in the middle of a sequence, and the "inconsistent state" branch,
  which aborts the program, is not reachable.
\<close>
theorem tty_write_returns:
  assumes "tty_ok s" and "con_settles s"
  shows "\<exists>r t. ProcessMessage m s = Some (r, t) \<and> tty_ok t"
  using tty.run_done [of s m] assms by auto

lemma tty_write_returns_witness:
  "\<exists>r t. ProcessMessage [0x1B, 0x5B, 0x48, 0xFF, 0x80] sample_tty = Some (r, t) \<and> tty_ok t"
  by (rule tty_write_returns) (simp_all add: sample_tty_ok)

text \<open>
  C27: The parser does not depend on how the output is cut into writes, nor on what the console
  answers: after two writes its state (pending UTF-8 sequence, escape sequence, arguments,
  last line end) is the one after a single write of both.
\<close>
theorem tty_chunks:
  assumes "tty_ok s" and "con_settles s"
    and "ProcessMessage m s = Some (r, t)" and "ProcessMessage m' t = Some (q, u)"
    and "ProcessMessage (m @ m') s' = Some (p, v)"
    and "tty_ok s'" and "con_settles s'" and "ctx_of s' = ctx_of s"
  shows "ctx_of u = ctx_of v"
  using assms tty.run_ok [of s m r t] tty.run_ok [of t m' q u] tty.run_ok [of s' "m @ m'" p v] by simp

lemma tty_chunks_witness:
  "\<exists>r t q u p v. ProcessMessage [0x1B] sample_tty = Some (r, t) \<and>
     ProcessMessage [0x5B, 0x37] t = Some (q, u) \<and>
     ProcessMessage ([0x1B] @ [0x5B, 0x37]) sample_tty = Some (p, v) \<and> ctx_of u = ctx_of v"
proof -
  note ok = sample_tty_ok [THEN conjunct1] sample_tty_ok [THEN conjunct2]
  obtain r t where t: "ProcessMessage [0x1B] sample_tty = Some (r, t)" "tty_ok t" "con_settles t"
    using tty.run_done [OF sample_tty_ok, of "[0x1B]"] by auto
  obtain q u where u: "ProcessMessage [0x5B, 0x37] t = Some (q, u)"
    using tty.run_done [of t "[0x5B, 0x37]"] t(2,3) by auto
  obtain p v where v: "ProcessMessage ([0x1B] @ [0x5B, 0x37]) sample_tty = Some (p, v)"
    using tty.run_done [OF sample_tty_ok, of "[0x1B] @ [0x5B, 0x37]"] by auto
  from tty_chunks [OF ok t(1) u v ok refl] t(1) u v show ?thesis by blast
qed

text \<open>
  C28: Text reaches the screen as it is: the UTF-8 encoding of any list of code points of up to 21
  bits, so of one to four bytes each, without the two characters that start an escape sequence, is
  decoded to this list, and when the writes succeed the characters written are these, in order,
  with U+FFFD for each code point above the basic plane and every \<^verbatim>\<open>\r\<close>, \<^verbatim>\<open>\n\<close>, \<^verbatim>\<open>\r\n\<close> or
  \<^verbatim>\<open>\n\r\<close> as one \<^verbatim>\<open>\r\n\<close>, however long the text is (the 8192-character buffer is flushed in
  between and does not show).
\<close>
theorem tty_utf8_roundtrip:
  assumes "\<forall>cp\<in>set cps. text_char cp" and "utf8_bytes_left s = 0" and "ansi_parser_state s = ANSI_NORMAL"
    and "writes_ok s"
  shows "\<exists>t. ProcessMessage (concat (map utf8_encode cps)) s = Some (0, t) \<and>
    written (con_calls t) = written (con_calls s) @ screen_text (previous_eol s) cps"
proof -
  let ?s = "s\<lparr>tty_error := 0, utf16_buf := []\<rparr>"
  have "\<exists>t. process_bytes (concat (map utf8_encode cps)) ?s = Some t \<and>
      shown t = shown ?s @ screen_text (previous_eol ?s) cps \<and> writes_ok t \<and> tty_error t = 0"
    using assms by (intro process_text) (simp_all add: writes_ok_def)
  then obtain t where t: "process_bytes (concat (map utf8_encode cps)) ?s = Some t" "writes_ok t" "tty_error t = 0"
    "shown t = written (con_calls s) @ screen_text (previous_eol s) cps"
    by (auto simp: shown_def)
  with flush_shown [OF t(2,3)] show ?thesis
    by (simp add: ProcessMessage_def shown_def)
qed

lemma tty_utf8_roundtrip_witness:
  "\<exists>t. ProcessMessage (concat (map utf8_encode [0x41, 0x0D, 0x0A, 0xE9, 0x20AC, 0x1F600])) sample_tty = Some (0, t) \<and>
     written (con_calls t) = [0x41, 0x0D, 0x0A, 0xE9, 0x20AC, 0xFFFD]"
proof -
  have "\<exists>t. ProcessMessage (concat (map utf8_encode [0x41, 0x0D, 0x0A, 0xE9, 0x20AC, 0x1F600])) sample_tty = Some (0, t) \<and>
     written (con_calls t) = written (con_calls sample_tty) @
       screen_text (previous_eol sample_tty) [0x41, 0x0D, 0x0A, 0xE9, 0x20AC, 0x1F600]"
    by (rule tty_utf8_roundtrip) (simp_all add: sample_tty_def writes_ok_def text_char_def ansi_consts)
  then show ?thesis by (simp add: sample_tty_def written_def)
qed

text \<open>Screen information as Windows reports it.\<close>

definition sane_info :: "console_info \<Rightarrow> bool" where
  "sane_info i \<longleftrightarrow> 0 < dwSize_X i \<and> dwSize_X i < 2 ^ 15 \<and> 0 < dwSize_Y i \<and> dwSize_Y i < 2 ^ 15 \<and>
     srWindow_Top i \<le> srWindow_Bottom i \<and> srWindow_Bottom i - srWindow_Top i < dwSize_Y i \<and>
     0 \<le> dwCursorPosition_Y i \<and> dwCursorPosition_Y i < dwSize_Y i"

lemma to_short_id: "0 \<le> x \<Longrightarrow> x < 2 ^ 15 \<Longrightarrow> to_short x = x"
  by (simp add: to_short_def signed_of_int signed_take_bit_int_eq_self)

text \<open>
  Positions are clipped to the virtual window: for any sane screen information, whatever
  the requested coordinates, relative or absolute, the position passed to the console is a cell
  of the screen buffer, inside the virtual window, whose rows lie within the buffer.
\<close>
theorem tty_position_clipped:
  fixes x y :: int and xr yr :: bool and s :: tty
  assumes "sane_info i"
  defines "r \<equiv> uv_tty_make_real_coord i x xr y yr s"
  defines "off \<equiv> uv_tty_virtual_offset (snd r)"
  shows "0 \<le> fst (fst r) \<and> fst (fst r) < dwSize_X i \<and>
    off \<le> snd (fst r) \<and> snd (fst r) < off + uv_tty_virtual_height (snd r) \<and>
    0 \<le> off \<and> off + uv_tty_virtual_height (snd r) \<le> dwSize_Y i"
proof -
  let ?s = "uv_tty_update_virtual_window i s"
  let ?h = "uv_tty_virtual_height ?s"
  have w: "uv_tty_virtual_width ?s = dwSize_X i" "?h = srWindow_Bottom i - srWindow_Top i + 1"
    by (simp_all add: uv_tty_update_virtual_window_def Let_def)
  have off: "0 \<le> uv_tty_virtual_offset ?s" "uv_tty_virtual_offset ?s + ?h \<le> dwSize_Y i"
    using assms(1) by (auto simp: uv_tty_update_virtual_window_def sane_info_def Let_def)
  have h: "0 < ?h" using assms(1) w by (simp add: sane_info_def)
  define y1 where "y1 = (if yr then dwCursorPosition_Y i + y else uv_tty_virtual_offset ?s + y)"
  define x1 where "x1 = (if xr then dwCursorPosition_X i + x else x)"
  define y2 where "y2 = (if y1 < uv_tty_virtual_offset ?s then uv_tty_virtual_offset ?s
    else if y1 \<ge> uv_tty_virtual_offset ?s + ?h then uv_tty_virtual_offset ?s + ?h - 1 else y1)"
  define x2 where "x2 = (if x1 < 0 then 0 else if x1 \<ge> dwSize_X i then dwSize_X i - 1 else x1)"
  have r: "r = ((to_short x2, to_short y2), ?s)"
    by (simp add: r_def uv_tty_make_real_coord_def x1_def x2_def y1_def y2_def w Let_def)
  have y: "uv_tty_virtual_offset ?s \<le> y2" "y2 < uv_tty_virtual_offset ?s + ?h"
    using h by (auto simp: y2_def)
  have x: "0 \<le> x2" "x2 < dwSize_X i" using assms(1) by (auto simp: x2_def sane_info_def)
  have "to_short x2 = x2" "to_short y2 = y2"
    using x y off assms(1) by (auto simp: sane_info_def intro!: to_short_id)
  with r x y off show ?thesis by (simp add: off_def)
qed

lemma tty_position_clipped_witness:
  "0 \<le> fst (fst (uv_tty_make_real_coord sample_info 70000 False (-5) True sample_tty)) \<and>
   fst (fst (uv_tty_make_real_coord sample_info 70000 False (-5) True sample_tty)) < 80"
  using tty_position_clipped [of sample_info 70000 False "-5" True sample_tty]
  by (simp add: sane_info_def sample_info_def)

text \<open>
  The guard against too large an argument in an escape sequence does not work: it tests
  the number before the last digit is added, so 65536 passes it and is stored as 0 (and
  65537 as 1), without the sequence being ignored.
\<close>
theorem tty_csi_argument_wraps:
  assumes "ansi_parser_state s = ANSI_CSI OR ANSI_IN_ARG" and "ansi_csi_argc s = 1"
    and "ansi_csi_argv s = [6553, a, b, c]" and "utf8_codepoint s = 0x36"
  shows "csi_digit s = s\<lparr>ansi_csi_argv := [0, a, b, c]\<rparr> \<and>
    ansi_parser_state (csi_digit s) AND ANSI_IGNORE = 0"
  using assms by (simp add: csi_digit_def Let_def ansi_consts)

lemma tty_csi_argument_wraps_witness:
  "ansi_csi_argv (csi_digit (sample_tty\<lparr>ansi_parser_state := 0x24, ansi_csi_argc := 1,
     ansi_csi_argv := [6553, 0, 0, 0], utf8_codepoint := 0x36\<rparr>)) = [0, 0, 0, 0]"
  using tty_csi_argument_wraps [of "sample_tty\<lparr>ansi_parser_state := 0x24, ansi_csi_argc := 1,
     ansi_csi_argv := [6553, 0, 0, 0], utf8_codepoint := 0x36\<rparr>" 0 0 0]
  by (simp add: ansi_consts)

text \<open>
  After an input or output error the rest of the message should only be parsed, but the
  attributes command still talks to the console: with an error recorded, \<open>tty_SetStyle\<close>
  asks for the screen information and may clear the attributes.
\<close>
theorem tty_style_after_error:
  assumes "tty_error s \<noteq> 0" and "ansi_csi_argc s = 0"
  shows "\<exists>c. con_calls (snd (tty_SetStyle s)) = con_calls s @ GetConsoleScreenBufferInfo # c"
  using assms
  by (simp add: tty_SetStyle_def style_of_args_def style_reset_def style_unchanged_def con_do_def
      get_info_def Let_def split: option.split)

lemma tty_style_after_error_witness:
  "\<exists>c. con_calls (snd (tty_SetStyle (sample_tty\<lparr>tty_error := 6\<rparr>))) = GetConsoleScreenBufferInfo # c"
  using tty_style_after_error [of "sample_tty\<lparr>tty_error := 6\<rparr>"] by (simp add: sample_tty_def)

end
