(* ===== verification/Input_Tty.thy ===== *)
theory Input_Tty
  imports Lua_Api
begin

section \<open>Console input on Windows (\<^verbatim>\<open>src/detail/windows/input_tty.cpp\<close>, \<^verbatim>\<open>windows_tty.cpp\<close>)\<close>

text \<open>
  \<^verbatim>\<open>InputTtyStream\<close> reads key events from the console in a thread and turns them into the bytes
  a VT100 terminal would send.  \<open>key_loop\<close> is the loop of \<^verbatim>\<open>ReadConsoleHandler\<close>, one call for each
  round; \<open>get_vt100_fn_key\<close> is the table of the function keys.

  Parameters: \<open>wctomb\<close> is \<^verbatim>\<open>WideCharToMultiByte\<close> to UTF-8, \<open>kept\<close> the strings a \<^verbatim>\<open>luaL_Buffer\<close> has
  left on the Lua stack when it was given some bytes (none as long as its own array holds
  them), and \<open>it_accepts\<close> what \<^verbatim>\<open>SetConsoleMode\<close> answers.

  The properties: the loop ends and gives, for every sequence of events, what a description of
  the typed text says (\<open>typed\<close>); the key buffer is never overrun; what is lost when a surrogate
  pair or too many bytes come at the wrong time; and that closing and reading again leaves two
  threads reading.
\<close>

subsection \<open>Events\<close>

record key_event =
  bKeyDown :: bool
  wRepeatCount :: "16 word"
  wVirtualKeyCode :: nat
  UnicodeChar :: "16 word"
  dwControlKeyState :: "32 word"

datatype input_record = KEY_EVENT key_event | WINDOW_BUFFER_SIZE_EVENT | FOCUS_EVENT | OTHER_EVENT

definition RIGHT_ALT_PRESSED :: "32 word" where "RIGHT_ALT_PRESSED = 0x01"
definition LEFT_ALT_PRESSED :: "32 word" where "LEFT_ALT_PRESSED = 0x02"
definition RIGHT_CTRL_PRESSED :: "32 word" where "RIGHT_CTRL_PRESSED = 0x04"
definition LEFT_CTRL_PRESSED :: "32 word" where "LEFT_CTRL_PRESSED = 0x08"
definition SHIFT_PRESSED :: "32 word" where "SHIFT_PRESSED = 0x10"
definition ENHANCED_KEY :: "32 word" where "ENHANCED_KEY = 0x100"

definition held :: "32 word \<Rightarrow> key_event \<Rightarrow> bool" where
  "held m k = (and (dwControlKeyState k) m \<noteq> 0)"

definition ALT_PRESSED :: "32 word" where "ALT_PRESSED = or LEFT_ALT_PRESSED RIGHT_ALT_PRESSED"
definition CTRL_PRESSED :: "32 word" where "CTRL_PRESSED = or LEFT_CTRL_PRESSED RIGHT_CTRL_PRESSED"

text \<open>The virtual key codes of \<^verbatim>\<open>winuser.h\<close>.\<close>

definition VK_CLEAR :: nat where "VK_CLEAR = 0x0C"
definition VK_MENU :: nat where "VK_MENU = 0x12"
definition VK_PRIOR :: nat where "VK_PRIOR = 0x21"
definition VK_NEXT :: nat where "VK_NEXT = 0x22"
definition VK_END :: nat where "VK_END = 0x23"
definition VK_HOME :: nat where "VK_HOME = 0x24"
definition VK_LEFT :: nat where "VK_LEFT = 0x25"
definition VK_UP :: nat where "VK_UP = 0x26"
definition VK_RIGHT :: nat where "VK_RIGHT = 0x27"
definition VK_DOWN :: nat where "VK_DOWN = 0x28"
definition VK_INSERT :: nat where "VK_INSERT = 0x2D"
definition VK_DELETE :: nat where "VK_DELETE = 0x2E"
definition VK_NUMPAD :: "nat \<Rightarrow> nat" where "VK_NUMPAD n = 0x60 + n"
definition VK_DECIMAL :: nat where "VK_DECIMAL = 0x6E"
definition VK_F :: "nat \<Rightarrow> nat" where "VK_F n = 0x6F + n"

lemmas vk_defs = VK_CLEAR_def VK_MENU_def VK_PRIOR_def VK_NEXT_def VK_END_def VK_HOME_def VK_LEFT_def
  VK_UP_def VK_RIGHT_def VK_DOWN_def VK_INSERT_def VK_DELETE_def VK_NUMPAD_def VK_DECIMAL_def VK_F_def

subsection \<open>Function keys\<close>

text \<open>
  One row for each \<^verbatim>\<open>VK_CASE\<close>: the code, and what is sent plain, with shift, with control and
  with both.  The length the code returns is that of the text with the escape character.
\<close>

definition vt100_rows :: "(nat \<times> string \<times> string \<times> string \<times> string) list" where
  "vt100_rows = [
     (VK_INSERT,   ''[2~'', ''[2;2~'', ''[2;5~'', ''[2;6~''),
     (VK_END,      ''[4~'', ''[4;2~'', ''[4;5~'', ''[4;6~''),
     (VK_DOWN,     ''[B'',  ''[1;2B'', ''[1;5B'', ''[1;6B''),
     (VK_NEXT,     ''[6~'', ''[6;2~'', ''[6;5~'', ''[6;6~''),
     (VK_LEFT,     ''[D'',  ''[1;2D'', ''[1;5D'', ''[1;6D''),
     (VK_CLEAR,    ''[G'',  ''[1;2G'', ''[1;5G'', ''[1;6G''),
     (VK_RIGHT,    ''[C'',  ''[1;2C'', ''[1;5C'', ''[1;6C''),
     (VK_UP,       ''[A'',  ''[1;2A'', ''[1;5A'', ''[1;6A''),
     (VK_HOME,     ''[1~'', ''[1;2~'', ''[1;5~'', ''[1;6~''),
     (VK_PRIOR,    ''[5~'', ''[5;2~'', ''[5;5~'', ''[5;6~''),
     (VK_DELETE,   ''[3~'', ''[3;2~'', ''[3;5~'', ''[3;6~''),
     (VK_NUMPAD 0, ''[2~'', ''[2;2~'', ''[2;5~'', ''[2;6~''),
     (VK_NUMPAD 1, ''[4~'', ''[4;2~'', ''[4;5~'', ''[4;6~''),
     (VK_NUMPAD 2, ''[B'',  ''[1;2B'', ''[1;5B'', ''[1;6B''),
     (VK_NUMPAD 3, ''[6~'', ''[6;2~'', ''[6;5~'', ''[6;6~''),
     (VK_NUMPAD 4, ''[D'',  ''[1;2D'', ''[1;5D'', ''[1;6D''),
     (VK_NUMPAD 5, ''[G'',  ''[1;2G'', ''[1;5G'', ''[1;6G''),
     (VK_NUMPAD 6, ''[C'',  ''[1;2C'', ''[1;5C'', ''[1;6C''),
     (VK_NUMPAD 7, ''[A'',  ''[1;2A'', ''[1;5A'', ''[1;6A''),
     (VK_NUMPAD 8, ''[1~'', ''[1;2~'', ''[1;5~'', ''[1;6~''),
     (VK_NUMPAD 9, ''[5~'', ''[5;2~'', ''[5;5~'', ''[5;6~''),
     (VK_DECIMAL,  ''[3~'', ''[3;2~'', ''[3;5~'', ''[3;6~''),
     (VK_F 1,  ''[[A'',  ''[23~'', ''[11^'', ''[23^''),
     (VK_F 2,  ''[[B'',  ''[24~'', ''[12^'', ''[24^''),
     (VK_F 3,  ''[[C'',  ''[25~'', ''[13^'', ''[25^''),
     (VK_F 4,  ''[[D'',  ''[26~'', ''[14^'', ''[26^''),
     (VK_F 5,  ''[[E'',  ''[28~'', ''[15^'', ''[28^''),
     (VK_F 6,  ''[17~'', ''[29~'', ''[17^'', ''[29^''),
     (VK_F 7,  ''[18~'', ''[31~'', ''[18^'', ''[31^''),
     (VK_F 8,  ''[19~'', ''[32~'', ''[19^'', ''[32^''),
     (VK_F 9,  ''[20~'', ''[33~'', ''[20^'', ''[33^''),
     (VK_F 10, ''[21~'', ''[34~'', ''[21^'', ''[34^''),
     (VK_F 11, ''[23~'', ''[23$'', ''[23^'', ''[23@''),
     (VK_F 12, ''[24~'', ''[24$'', ''[24^'', ''[24@'')]"

definition ESC :: char where "ESC = CHR 0x1B"

definition get_vt100_fn_key :: "nat \<Rightarrow> bool \<Rightarrow> bool \<Rightarrow> string option" where
  "get_vt100_fn_key code shift ctrl =
     (case map_of vt100_rows code of
        None \<Rightarrow> None
      | Some (normal_str, shift_str, ctrl_str, shift_ctrl_str) \<Rightarrow>
          Some (ESC # (if shift \<and> ctrl then shift_ctrl_str else if shift then shift_str
            else if ctrl then ctrl_str else normal_str)))"

subsection \<open>The translation of a key\<close>

record key_context =
  original_console_mode :: "32 word"
  ctx_flags :: "32 word"
  last_key :: string
  last_key_offset :: "8 word"
  last_key_len :: "8 word"
  last_input_record :: input_record
  last_utf16_high_surrogate :: "16 word"

definition ignored_key :: "key_event \<Rightarrow> bool" where
  "ignored_key k =
     (\<not> bKeyDown k \<and> \<not> ((held LEFT_ALT_PRESSED k \<or> wVirtualKeyCode k = VK_MENU) \<and> UnicodeChar k \<noteq> 0) \<or>
      held LEFT_ALT_PRESSED k \<and> \<not> held ENHANCED_KEY k \<and>
      wVirtualKeyCode k \<in> set ([VK_INSERT, VK_END, VK_DOWN, VK_NEXT, VK_LEFT, VK_CLEAR, VK_RIGHT, VK_HOME,
        VK_UP, VK_PRIOR] @ map VK_NUMPAD [0..<10]))"

text \<open>Bytes written into an array from a place on.\<close>

definition write_at :: "nat \<Rightarrow> string \<Rightarrow> string \<Rightarrow> string" where
  "write_at p bs xs = take p xs @ bs @ drop (p + length bs) xs"

definition set_key :: "bool \<Rightarrow> string \<Rightarrow> key_context \<Rightarrow> key_context" where
  "set_key esc bs c =
     (let key = (if esc then (last_key c)[0 := ESC] else last_key c); prefix_len = of_bool esc in
      c\<lparr>last_key := write_at prefix_len bs key, last_key_len := of_nat (prefix_len + length bs),
        last_key_offset := 0\<rparr>)"

definition take_key :: "(16 word list \<Rightarrow> string) \<Rightarrow> key_event \<Rightarrow> key_context \<Rightarrow> key_context" where
  "take_key wctomb k c =
     (let u = UnicodeChar k in
      if ignored_key k then c
      else if u \<noteq> 0 then
        (if 0xD800 \<le> u \<and> u < 0xDC00 then c\<lparr>last_utf16_high_surrogate := u\<rparr>
         else set_key (held ALT_PRESSED k \<and> \<not> held CTRL_PRESSED k \<and> bKeyDown k)
           (wctomb (if 0xDC00 \<le> u \<and> u < 0xE000 then [last_utf16_high_surrogate c, u] else [u]))
           (c\<lparr>last_utf16_high_surrogate := 0\<rparr>))
      else (case get_vt100_fn_key (wVirtualKeyCode k) (held SHIFT_PRESSED k) (held CTRL_PRESSED k) of
          None \<Rightarrow> c
        | Some vt100 \<Rightarrow> set_key (held ALT_PRESSED k) vt100 c))"

definition take_record :: "(16 word list \<Rightarrow> string) \<Rightarrow> input_record \<Rightarrow> key_context \<Rightarrow> key_context" where
  "take_record wctomb r c =
     (case r of
        KEY_EVENT k \<Rightarrow> take_key wctomb k (c\<lparr>last_input_record := r\<rparr>)
      | _ \<Rightarrow> c\<lparr>last_input_record := r\<rparr>)"

subsection \<open>The loop\<close>

text \<open>
  \<open>count_down\<close> is \<^verbatim>\<open>--wRepeatCount\<close>, on 16 bits.  The record it is applied to is a key event
  (\<open>key_pending\<close> below); for another one the model stops repeating.
\<close>

definition count_down :: "key_context \<Rightarrow> 16 word \<times> key_context" where
  "count_down c = (case last_input_record c of
     KEY_EVENT k \<Rightarrow> let n = wRepeatCount k - 1 in
       (n, c\<lparr>last_input_record := KEY_EVENT (k\<lparr>wRepeatCount := n\<rparr>)\<rparr>)
   | _ \<Rightarrow> (0, c))"

definition repeats_left :: "key_context \<Rightarrow> nat" where
  "repeats_left c = (case last_input_record c of KEY_EVENT k \<Rightarrow> unat (wRepeatCount k - 1) | _ \<Rightarrow> 0)"

lemma count_down_fields [simp]:
  "last_key (snd (count_down c)) = last_key c" "last_key_len (snd (count_down c)) = last_key_len c"
  "last_key_offset (snd (count_down c)) = last_key_offset c"
  "last_utf16_high_surrogate (snd (count_down c)) = last_utf16_high_surrogate c"
  by (simp_all add: count_down_def Let_def split: input_record.split)

lemma count_down_repeats:
  "unat (fst (count_down c)) = repeats_left c"
  "fst (count_down c) \<noteq> 0 \<Longrightarrow> repeats_left c = Suc (repeats_left (snd (count_down c)))"
proof -
  have dec: "unat w = Suc (unat (w - 1))" if "w \<noteq> 0" for w :: "16 word"
    using that unat_minus_one [OF that] unat_eq_0 [of w] by simp
  show "unat (fst (count_down c)) = repeats_left c"
    by (simp add: count_down_def repeats_left_def Let_def split: input_record.split)
  show "fst (count_down c) \<noteq> 0 \<Longrightarrow> repeats_left c = Suc (repeats_left (snd (count_down c)))"
  proof (cases "last_input_record c")
    case (KEY_EVENT k)
    then show "fst (count_down c) \<noteq> 0 \<Longrightarrow> ?thesis"
      using dec [of "wRepeatCount k - 1"] by (simp add: count_down_def repeats_left_def Let_def)
  qed (simp_all add: count_down_def)
qed

lemma byte_step:
  assumes "x < (y :: 8 word)"
  shows "unat (x + 1) = Suc (unat x)"
proof -
  have "unat x < unat y" "unat y < 256" using assms byte_unat_less by (simp_all add: word_less_nat_alt)
  then show ?thesis by (simp add: unat_word_ariths)
qed

function key_loop :: "(16 word list \<Rightarrow> string) \<Rightarrow> input_record list \<Rightarrow> key_context \<Rightarrow> string \<Rightarrow>
    key_context \<times> string" where
  "key_loop wctomb records c buffer =
     (if records = [] \<and> last_key_len c = 0 then (c, buffer)
      else if last_key_len c = 0 then
        key_loop wctomb (tl records) (take_record wctomb (hd records) c) buffer
      else if last_key_offset c < last_key_len c then
        key_loop wctomb records (c\<lparr>last_key_offset := last_key_offset c + 1\<rparr>)
          (buffer @ [last_key c ! unat (last_key_offset c)])
      else (case count_down c of (n, c) \<Rightarrow>
        if 0 < n then key_loop wctomb records (c\<lparr>last_key_offset := 0\<rparr>) buffer
        else key_loop wctomb records (c\<lparr>last_key_len := 0\<rparr>) buffer))"
  by pat_completeness auto

termination
proof (relation "measures [\<lambda>(w, rs, c, b). length rs, \<lambda>(w, rs, c, b). of_bool (last_key_len c \<noteq> 0),
    \<lambda>(w, rs, c, b). repeats_left c, \<lambda>(w, rs, c, b). unat (last_key_len c) - unat (last_key_offset c)]",
    goal_cases)
  case (2 w rs c b)
  then show ?case by (cases rs) auto
next
  case (3 w rs c b)
  then have "unat (last_key_offset c + 1) = Suc (unat (last_key_offset c))"
    by (intro byte_step) simp
  with 3 show ?case by (auto simp: repeats_left_def word_less_nat_alt)
next
  case (4 w rs c b n d)
  then have "d = snd (count_down c)" "n = fst (count_down c)" by (metis fst_conv snd_conv)+
  with 4 count_down_repeats(2) [of c] show ?case by (auto simp: repeats_left_def)
next
  case (5 w rs c b n d)
  then have "d = snd (count_down c)" by (metis snd_conv)
  with 5 show ?case by auto
qed simp

declare key_loop.simps [simp del]

subsection \<open>What is typed\<close>

text \<open>
  The description of the loop's work: each key event stands for some bytes, repeated; a high
  surrogate waits for its partner; everything else stands for nothing.
\<close>

definition key_bytes :: "(16 word list \<Rightarrow> string) \<Rightarrow> 16 word \<Rightarrow> key_event \<Rightarrow> string" where
  "key_bytes wctomb high k =
     (let u = UnicodeChar k in
      if ignored_key k \<or> 0xD800 \<le> u \<and> u < 0xDC00 then []
      else if u \<noteq> 0 then
        (if held ALT_PRESSED k \<and> \<not> held CTRL_PRESSED k \<and> bKeyDown k then [ESC] else []) @
        wctomb (if 0xDC00 \<le> u \<and> u < 0xE000 then [high, u] else [u])
      else (case get_vt100_fn_key (wVirtualKeyCode k) (held SHIFT_PRESSED k) (held CTRL_PRESSED k) of
          None \<Rightarrow> []
        | Some vt100 \<Rightarrow> (if held ALT_PRESSED k then [ESC] else []) @ vt100))"

definition next_high :: "16 word \<Rightarrow> key_event \<Rightarrow> 16 word" where
  "next_high high k =
     (let u = UnicodeChar k in
      if ignored_key k \<or> u = 0 then high
      else if 0xD800 \<le> u \<and> u < 0xDC00 then u else 0)"

text \<open>A repeat count of 0 wraps around: the key is repeated 65536 times.\<close>

definition repeats :: "key_event \<Rightarrow> nat" where
  "repeats k = (if wRepeatCount k = 0 then 65536 else unat (wRepeatCount k))"

fun typed :: "(16 word list \<Rightarrow> string) \<Rightarrow> 16 word \<Rightarrow> input_record list \<Rightarrow> string" where
  "typed wctomb high [] = []"
| "typed wctomb high (KEY_EVENT k # rs) =
     concat (replicate (repeats k) (key_bytes wctomb high k)) @ typed wctomb (next_high high k) rs"
| "typed wctomb high (_ # rs) = typed wctomb high rs"

text \<open>What is documented of the conversion: a code unit gives at most three bytes of UTF-8.\<close>

definition utf8_sized :: "(16 word list \<Rightarrow> string) \<Rightarrow> bool" where
  "utf8_sized wctomb \<longleftrightarrow> (\<forall>us. length (wctomb us) \<le> 3 * length us)"

lemma vt100_rows_short:
  "list_all (\<lambda>(_, a, b, c, d). length a \<le> 5 \<and> length b \<le> 5 \<and> length c \<le> 5 \<and> length d \<le> 5) vt100_rows"
  by (simp add: vt100_rows_def)

lemma vt100_short: "get_vt100_fn_key code shift ctrl = Some vt \<Longrightarrow> vt \<noteq> [] \<and> length vt \<le> 6"
proof -
  assume vt: "get_vt100_fn_key code shift ctrl = Some vt"
  then obtain a b c d where row: "map_of vt100_rows code = Some (a, b, c, d)"
    by (auto simp: get_vt100_fn_key_def split: option.splits)
  from map_of_SomeD [OF this] vt100_rows_short
  have "length a \<le> 5 \<and> length b \<le> 5 \<and> length c \<le> 5 \<and> length d \<le> 5" by (auto simp: list_all_iff)
  with vt row show ?thesis by (auto simp: get_vt100_fn_key_def split: if_splits)
qed

text \<open>The key buffer: eight bytes, and a count within them that belongs to a key event.\<close>

definition key_wf :: "key_context \<Rightarrow> bool" where
  "key_wf c \<longleftrightarrow> length (last_key c) = 8 \<and> unat (last_key_len c) \<le> 8 \<and>
     (last_key_len c \<noteq> 0 \<longrightarrow> (\<exists>k. last_input_record c = KEY_EVENT k))"

lemma set_key_fields:
  assumes "length (last_key c) = 8" and "length bs \<le> 7"
  shows "length (last_key (set_key esc bs c)) = 8"
    "unat (last_key_len (set_key esc bs c)) = of_bool esc + length bs"
    "take (of_bool esc + length bs) (last_key (set_key esc bs c)) = (if esc then [ESC] else []) @ bs"
    "last_key_offset (set_key esc bs c) = 0" "last_input_record (set_key esc bs c) = last_input_record c"
    "last_utf16_high_surrogate (set_key esc bs c) = last_utf16_high_surrogate c"
proof -
  have small: "unat (of_nat n :: 8 word) = n" if "n \<le> 8" for n
    using that by (simp add: unat_of_nat take_bit_nat_eq_self)
  show "unat (last_key_len (set_key esc bs c)) = of_bool esc + length bs"
    using assms(2) small [of "of_bool esc + length bs"] by (simp add: set_key_def Let_def)
  obtain x xs where "last_key c = x # xs" using assms(1) by (cases "last_key c") auto
  then show "take (of_bool esc + length bs) (last_key (set_key esc bs c)) = (if esc then [ESC] else []) @ bs"
    by (cases esc) (simp_all add: set_key_def write_at_def Let_def)
  show "length (last_key (set_key esc bs c)) = 8"
    using assms by (cases esc) (simp_all add: set_key_def write_at_def Let_def)
qed (simp_all add: set_key_def Let_def)

lemma take_key_fields:
  fixes k :: key_event and c :: key_context
  assumes "key_wf c" and "last_key_len c = 0" and "utf8_sized wctomb"
  defines "c' \<equiv> take_key wctomb k c" and "bs \<equiv> key_bytes wctomb (last_utf16_high_surrogate c) k"
  shows "length (last_key c') = 8" "unat (last_key_len c') = length bs" "length bs \<le> 8"
    "take (length bs) (last_key c') = bs" "bs \<noteq> [] \<longrightarrow> last_key_offset c' = 0"
    "last_input_record c' = last_input_record c"
    "last_utf16_high_surrogate c' = next_high (last_utf16_high_surrogate c) k"
proof -
  have "length (wctomb us) \<le> 7" if "length us \<le> 2" for us
    using assms(3) that by (fastforce simp: utf8_sized_def dest: spec [of _ us])
  then have w: "length (wctomb (if b then [u, v] else [v])) \<le> 7" for b u v by simp
  have len: "length (last_key c) = 8" using assms(1) by (simp add: key_wf_def)
  then have len0: "length (last_key (c\<lparr>last_utf16_high_surrogate := 0\<rparr>)) = 8" by simp
  let ?u = "UnicodeChar k" and ?sur = "last_utf16_high_surrogate c"
  let ?fn = "get_vt100_fn_key (wVirtualKeyCode k) (held SHIFT_PRESSED k) (held CTRL_PRESSED k)"
  have "length (last_key c') = 8 \<and> unat (last_key_len c') = length bs \<and> length bs \<le> 8 \<and>
    take (length bs) (last_key c') = bs \<and> (bs \<noteq> [] \<longrightarrow> last_key_offset c' = 0) \<and>
    last_input_record c' = last_input_record c \<and>
    last_utf16_high_surrogate c' = next_high ?sur k"
  proof (cases "ignored_key k \<or> 0xD800 \<le> ?u \<and> ?u < 0xDC00 \<or> ?u = 0 \<and> ?fn = None")
    case True
    then have "bs = []" by (auto simp: bs_def key_bytes_def Let_def)
    with True len assms(2) show ?thesis
      by (auto simp: c'_def take_key_def next_high_def Let_def)
  next
    case False
    show ?thesis
    proof (cases "?u = 0")
      case True
      then obtain vt where vt: "?fn = Some vt" using False by auto
      note f = set_key_fields [OF len, of vt "held ALT_PRESSED k"]
      have "length vt \<le> 6" using vt100_short [OF vt] by simp
      moreover have "bs = (if held ALT_PRESSED k then [ESC] else []) @ vt" "c' = set_key (held ALT_PRESSED k) vt c"
        "next_high ?sur k = ?sur"
        using False True vt by (simp_all add: bs_def c'_def key_bytes_def take_key_def next_high_def)
      ultimately show ?thesis using f by (cases "held ALT_PRESSED k") simp_all
    next
      case u: False
      let ?esc = "held ALT_PRESSED k \<and> \<not> held CTRL_PRESSED k \<and> bKeyDown k"
      let ?bs = "wctomb (if 0xDC00 \<le> ?u \<and> ?u < 0xE000 then [?sur, ?u] else [?u])"
      note f = set_key_fields [OF len0 w, of ?esc "0xDC00 \<le> ?u \<and> ?u < 0xE000" ?sur ?u]
      have "length ?bs \<le> 7" by (rule w)
      moreover have "bs = (if ?esc then [ESC] else []) @ ?bs" "c' = set_key ?esc ?bs (c\<lparr>last_utf16_high_surrogate := 0\<rparr>)"
        "next_high ?sur k = 0"
        using False u unfolding bs_def c'_def key_bytes_def take_key_def next_high_def Let_def by auto
      ultimately show ?thesis using f by (cases ?esc) simp_all
    qed
  qed
  then show "length (last_key c') = 8" "unat (last_key_len c') = length bs" "length bs \<le> 8"
    "take (length bs) (last_key c') = bs" "bs \<noteq> [] \<longrightarrow> last_key_offset c' = 0"
    "last_input_record c' = last_input_record c" "last_utf16_high_surrogate c' = next_high ?sur k"
    by simp_all
qed

subsection \<open>The loop does what the description says\<close>

text \<open>The rounds that hand out what is left of the key.\<close>

lemma key_loop_copy:
  assumes "last_key_len c \<noteq> 0" and "unat (last_key_len c) \<le> length (last_key c)"
    and "last_key_offset c \<le> last_key_len c"
  shows "key_loop wctomb rs c buf = key_loop wctomb rs (c\<lparr>last_key_offset := last_key_len c\<rparr>)
    (buf @ take (unat (last_key_len c) - unat (last_key_offset c)) (drop (unat (last_key_offset c)) (last_key c)))"
  using assms
proof (induction "unat (last_key_len c) - unat (last_key_offset c)" arbitrary: c buf)
  case 0
  then have "last_key_offset c = last_key_len c" by (simp add: word_le_nat_alt word_unat_eq_iff)
  then have eq: "c\<lparr>last_key_offset := last_key_len c\<rparr> = c" and "last_key_offset c = last_key_len c"
    by (cases c; simp)+
  then show ?case unfolding eq by simp
next
  case (Suc n)
  let ?o = "last_key_offset c" and ?l = "last_key_len c"
  have less: "?o < ?l" using Suc.hyps(2) by (simp add: word_less_nat_alt)
  then have o: "unat (?o + 1) = Suc (unat ?o)" by (rule byte_step)
  have "key_loop wctomb rs c buf =
      key_loop wctomb rs (c\<lparr>last_key_offset := ?o + 1\<rparr>) (buf @ [last_key c ! unat ?o])"
    using less Suc.prems(1) by (subst key_loop.simps) simp
  also have "\<dots> = key_loop wctomb rs (c\<lparr>last_key_offset := ?l\<rparr>) (buf @ (last_key c ! unat ?o #
      take (unat ?l - unat (?o + 1)) (drop (unat (?o + 1)) (last_key c))))"
    using Suc.hyps(1) [of "c\<lparr>last_key_offset := ?o + 1\<rparr>" "buf @ [last_key c ! unat ?o]"]
      Suc.hyps(2) Suc.prems o less by (simp add: word_le_nat_alt word_less_nat_alt)
  also have "last_key c ! unat ?o # take (unat ?l - unat (?o + 1)) (drop (unat (?o + 1)) (last_key c)) =
      take (unat ?l - unat ?o) (drop (unat ?o) (last_key c))"
  proof -
    have "unat ?o < length (last_key c)" using less Suc.prems(2) by (simp add: word_less_nat_alt)
    then have "drop (unat ?o) (last_key c) = last_key c ! unat ?o # drop (Suc (unat ?o)) (last_key c)"
      by (rule Cons_nth_drop_Suc [symmetric])
    moreover have "unat ?l - unat ?o = Suc (unat ?l - Suc (unat ?o))" using less by (simp add: word_less_nat_alt)
    ultimately show ?thesis using o by simp
  qed
  finally show ?case by simp
qed

text \<open>All the rounds of one key.\<close>

lemma key_loop_key:
  assumes "last_key_len c \<noteq> 0" and "unat (last_key_len c) \<le> length (last_key c)"
    and "last_key_offset c = 0"
  shows "\<exists>c'. key_loop wctomb rs c buf = key_loop wctomb rs c'
      (buf @ concat (replicate (Suc (repeats_left c)) (take (unat (last_key_len c)) (last_key c)))) \<and>
    last_key_len c' = 0 \<and> last_key c' = last_key c \<and>
    last_utf16_high_surrogate c' = last_utf16_high_surrogate c"
  using assms
proof (induction "repeats_left c" arbitrary: c buf rule: less_induct)
  case less
  let ?key = "take (unat (last_key_len c)) (last_key c)"
  define d where "d = c\<lparr>last_key_offset := last_key_len c\<rparr>"
  define e where "e = snd (count_down d)"
  have copy: "key_loop wctomb rs c buf = key_loop wctomb rs d (buf @ ?key)"
    using key_loop_copy [OF less.prems(1,2)] less.prems(3) by (simp add: d_def)
  have d: "last_key_len d \<noteq> 0" "last_key_offset d = last_key_len d" "repeats_left d = repeats_left c"
    using less.prems(1) by (simp_all add: d_def repeats_left_def)
  have e: "last_key_len e = last_key_len c" "last_key e = last_key c"
    "last_utf16_high_surrogate e = last_utf16_high_surrogate c"
    by (simp_all add: e_def d_def)
  show ?case
  proof (cases "fst (count_down d) = 0")
    case True
    then have "repeats_left c = 0" using count_down_repeats(1) [of d] d(3) by simp
    moreover have "key_loop wctomb rs d (buf @ ?key) = key_loop wctomb rs (e\<lparr>last_key_len := 0\<rparr>) (buf @ ?key)"
      using d True by (subst key_loop.simps) (simp add: e_def case_prod_unfold)
    ultimately show ?thesis
      using copy e by (intro exI [of _ "e\<lparr>last_key_len := 0\<rparr>"]) simp
  next
    case False
    have r: "repeats_left c = Suc (repeats_left e)"
      using count_down_repeats(2) [OF False] d(3) by (simp add: e_def)
    have "0 < fst (count_down d)" using False by (simp add: word_neq_0_conv)
    with d have round: "key_loop wctomb rs d (buf @ ?key) =
        key_loop wctomb rs (e\<lparr>last_key_offset := 0\<rparr>) (buf @ ?key)"
      by (subst key_loop.simps) (simp add: e_def case_prod_unfold)
    have "repeats_left (e\<lparr>last_key_offset := 0\<rparr>) = repeats_left e" by (simp add: repeats_left_def)
    with less.hyps [of "e\<lparr>last_key_offset := 0\<rparr>" "buf @ ?key"] r e less.prems(1,2)
    obtain c' where "key_loop wctomb rs (e\<lparr>last_key_offset := 0\<rparr>) (buf @ ?key) = key_loop wctomb rs c'
        ((buf @ ?key) @ concat (replicate (Suc (repeats_left e)) ?key))"
      "last_key_len c' = 0" "last_key c' = last_key c"
      "last_utf16_high_surrogate c' = last_utf16_high_surrogate c" by auto
    with copy round r show ?thesis by (intro exI [of _ c']) simp
  qed
qed

lemma repeats_left_key: "last_input_record c = KEY_EVENT k \<Longrightarrow> Suc (repeats_left c) = repeats k"
  using unat_minus_one [of "wRepeatCount k"] unat_eq_0 [of "wRepeatCount k"]
  by (auto simp: repeats_left_def repeats_def unsigned_minus_1_eq_mask mask_eq_exp_minus_1)

lemma key_loop_typed:
  assumes "utf8_sized wctomb" and "key_wf c" and "last_key_len c = 0"
  shows "\<exists>c'. key_loop wctomb rs c buf = (c', buf @ typed wctomb (last_utf16_high_surrogate c) rs) \<and>
    key_wf c' \<and> last_key_len c' = 0"
  using assms(2,3)
proof (induction rs arbitrary: c buf)
  case Nil
  then show ?case by (subst key_loop.simps) simp
next
  case (Cons r rs)
  have round: "key_loop wctomb (r # rs) c buf = key_loop wctomb rs (take_record wctomb r c) buf"
    using Cons.prems(2) by (subst key_loop.simps) simp
  show ?case
  proof (cases r)
    case (KEY_EVENT k)
    define d where "d = c\<lparr>last_input_record := r\<rparr>"
    have d: "key_wf d" "last_key_len d = 0" "last_utf16_high_surrogate d = last_utf16_high_surrogate c"
      using Cons.prems by (simp_all add: d_def key_wf_def)
    let ?bs = "key_bytes wctomb (last_utf16_high_surrogate c) k"
    define e where "e = take_key wctomb k d"
    note e = take_key_fields [OF d(1,2) assms(1), of k, folded e_def, unfolded d(3)]
    have re: "take_record wctomb r c = e" by (simp add: take_record_def KEY_EVENT e_def d_def)
    have rec: "last_input_record e = KEY_EVENT k" using e(6) KEY_EVENT by (simp add: d_def)
    show ?thesis
    proof (cases "?bs = []")
      case True
      then have z: "last_key_len e = 0" using e(2) by (simp add: unat_eq_0)
      then have "key_wf e" using e(1) by (simp add: key_wf_def)
      from Cons.IH [OF this z, of buf] round re KEY_EVENT True e(7) show ?thesis by simp
    next
      case False
      then have nz: "last_key_len e \<noteq> 0" using e(2) by (metis length_0_conv unat_0)
      have "unat (last_key_len e) \<le> length (last_key e)" "last_key_offset e = 0" using e False by simp_all
      from key_loop_key [OF nz this, of wctomb rs buf] obtain c' where
        c': "key_loop wctomb rs e buf = key_loop wctomb rs c' (buf @ concat (replicate (repeats k) ?bs))"
        "last_key_len c' = 0" "last_key c' = last_key e"
        "last_utf16_high_surrogate c' = last_utf16_high_surrogate e"
        using e(2,4) repeats_left_key [OF rec] by auto
      have "key_wf c'" using c'(2,3) e(1) by (simp add: key_wf_def)
      from Cons.IH [OF this c'(2), of "buf @ concat (replicate (repeats k) ?bs)"]
      show ?thesis using round re KEY_EVENT c' e(7) by simp
    qed
  qed (use round Cons.IH [of "c\<lparr>last_input_record := r\<rparr>" buf] Cons.prems in
      \<open>simp_all add: take_record_def key_wf_def\<close>)
qed

subsection \<open>The handler\<close>

text \<open>
  The handler works on the copy of the context that was bound when the batch was posted.
  \<open>kept bs\<close> are the strings the \<^verbatim>\<open>luaL_Buffer\<close> has pushed while it was given \<open>bs\<close>; they lie under
  the object the handler fetches.  \<^verbatim>\<open>luaL_pushresult\<close> leaves the whole string on top.
\<close>

fun push_strings :: "string list \<Rightarrow> ('a rt_scheme, unit) state" where
  "push_strings [] = ret ()"
| "push_strings (x # xs) = do { lua_push (LStr x); push_strings xs }"

definition ReadConsoleHandler :: "(16 word list \<Rightarrow> string) \<Rightarrow> (string \<Rightarrow> string list) \<Rightarrow>
    'a rt_scheme lua_fun \<Rightarrow> int \<Rightarrow> key_context \<Rightarrow> input_record list \<Rightarrow> ('a rt_scheme, unit) state" where
  "ReadConsoleHandler wctomb kept lua m_self_reference tty_context records =
     (let bytes = snd (key_loop wctomb records tty_context []) in
      whenM (bytes \<noteq> []) (do {
        push_strings (kept bytes);
        lua_rawgeti m_self_reference;
        lua_getfield 1 ''read_callback'';
        t \<leftarrow> lua_type 2;
        whenM (t = TFunction) (do {
          lua_pushvalue 1;
          lua_push (LStr bytes);
          vm_call lua 2
        });
        lua_settop 0
      }))"

subsection \<open>The stream\<close>

text \<open>
  \<open>it_thread\<close>: \<^verbatim>\<open>m_tty_reader_thread\<close> is set; \<open>it_work\<close>: \<^verbatim>\<open>m_input_asio_work\<close> is; \<open>it_readers\<close> is the
  number of threads that are in \<open>Run\<close>, waiting for the console; \<open>it_posted\<close> are the handlers
  they have posted, each with the context that was copied into it; \<open>it_wakes\<close> counts the focus
  events written to the console; \<open>it_modes\<close> are the modes the console was given.
\<close>

record input_tty =
  m_run :: bool
  m_tty_context :: key_context
  it_thread :: bool
  it_work :: bool
  it_readers :: nat
  it_posted :: "(key_context \<times> input_record list) list"
  it_wakes :: nat
  it_modes :: "32 word list"
  it_accepts :: "32 word list \<Rightarrow> 32 word \<Rightarrow> bool"

definition UV_HANDLE_TTY_RAW :: "32 word" where "UV_HANDLE_TTY_RAW = 0x00080000"
definition ENABLE_PROCESSED_INPUT :: "32 word" where "ENABLE_PROCESSED_INPUT = 0x01"
definition ENABLE_LINE_INPUT :: "32 word" where "ENABLE_LINE_INPUT = 0x02"
definition ENABLE_ECHO_INPUT :: "32 word" where "ENABLE_ECHO_INPUT = 0x04"
definition ENABLE_WINDOW_INPUT :: "32 word" where "ENABLE_WINDOW_INPUT = 0x08"
definition ENABLE_INSERT_MODE :: "32 word" where "ENABLE_INSERT_MODE = 0x20"
definition ENABLE_QUICK_EDIT_MODE :: "32 word" where "ENABLE_QUICK_EDIT_MODE = 0x40"
definition ENABLE_EXTENDED_FLAGS :: "32 word" where "ENABLE_EXTENDED_FLAGS = 0x80"

definition is_raw :: "key_context \<Rightarrow> bool" where
  "is_raw c = (and (ctx_flags c) UV_HANDLE_TTY_RAW \<noteq> 0)"

definition console_mode :: "key_context \<Rightarrow> bool \<Rightarrow> 32 word" where
  "console_mode c mode =
     or (if and (original_console_mode c) ENABLE_QUICK_EDIT_MODE \<noteq> 0
         then or ENABLE_QUICK_EDIT_MODE ENABLE_EXTENDED_FLAGS else 0)
        (if mode then ENABLE_WINDOW_INPUT
         else or ENABLE_ECHO_INPUT (or ENABLE_INSERT_MODE (or ENABLE_LINE_INPUT
           (or ENABLE_EXTENDED_FLAGS ENABLE_PROCESSED_INPUT))))"

definition uv_tty_set_mode :: "bool \<Rightarrow> (input_tty, int) state" where
  "uv_tty_set_mode mode = do {
     c \<leftarrow> gets m_tty_context;
     if mode = is_raw c then ret 0
     else do {
       let flags = console_mode c mode;
       ok \<leftarrow> gets (\<lambda>s. it_accepts s (it_modes s) flags);
       modify (\<lambda>s. s\<lparr>it_modes := it_modes s @ [flags]\<rparr>);
       if \<not> ok then ret (-1)
       else do {
         modify (\<lambda>s. s\<lparr>m_tty_context := c\<lparr>ctx_flags :=
           or (and (ctx_flags c) (not UV_HANDLE_TTY_RAW)) (if mode then UV_HANDLE_TTY_RAW else 0)\<rparr>\<rparr>);
         ret 0
       }
     }
   }"

text \<open>
  \<open>mode\<close> is what \<^verbatim>\<open>GetConsoleMode\<close> answers; when it fails the key state stays as it was found.
  \<^verbatim>\<open>m_run\<close> is not set.
\<close>

definition InputTtyStream_ctor :: "32 word option \<Rightarrow> input_tty \<Rightarrow> input_tty" where
  "InputTtyStream_ctor mode s =
     (let c = (m_tty_context s)\<lparr>ctx_flags := 0\<rparr>;
          s = s\<lparr>it_thread := False, it_work := False\<rparr> in
      case mode of
        None \<Rightarrow> s\<lparr>m_tty_context := c\<rparr>
      | Some m \<Rightarrow> s\<lparr>m_tty_context := c\<lparr>original_console_mode := m, last_key_offset := 0, last_key_len := 0,
          last_utf16_high_surrogate := 0, last_input_record := OTHER_EVENT\<rparr>\<rparr>)"

definition InputTtyStream_PostConstruct :: "('a rt_scheme, int) state" where
  "InputTtyStream_PostConstruct = do {
     v \<leftarrow> gets (\<lambda>s. stack_top (rt_stack s));
     lua_push v;
     luaL_ref
   }"

definition wake_reader :: "(input_tty, unit) state" where
  "wake_reader = modify (\<lambda>s. s\<lparr>it_wakes := it_wakes s + 1\<rparr>)"

definition InputTtyStream_Start :: "(input_tty, unit) state" where
  "InputTtyStream_Start = do {
     thread \<leftarrow> gets it_thread;
     whenM (\<not> thread) (do {
       modify (\<lambda>s. s\<lparr>m_run := True\<rparr>);
       modify (\<lambda>s. s\<lparr>it_thread := True, it_readers := it_readers s + 1\<rparr>);
       modify (\<lambda>s. s\<lparr>it_work := True\<rparr>)
     })
   }"

definition InputTtyStream_Stop :: "(input_tty, unit) state" where
  "InputTtyStream_Stop = do {
     run \<leftarrow> gets m_run;
     whenM run (do {
       modify (\<lambda>s. s\<lparr>m_run := False\<rparr>);
       wake_reader;
       modify (\<lambda>s. s\<lparr>it_thread := False\<rparr>);
       modify (\<lambda>s. s\<lparr>it_work := False\<rparr>)
     })
   }"

definition InputTtyStream_dtor :: "(input_tty, unit) state" where
  "InputTtyStream_dtor = do { _ \<leftarrow> uv_tty_set_mode False; InputTtyStream_Stop }"

definition InputTtyStream_Read :: "(input_tty, unit) state" where
  "InputTtyStream_Read = InputTtyStream_Start"

definition InputTtyStream_Close :: "(input_tty, unit) state" where
  "InputTtyStream_Close = InputTtyStream_Stop"

text \<open>
  \<open>Pause\<close> waits for its thread to end; without a thread it follows a null pointer (\<open>False\<close>).
\<close>

definition InputTtyStream_Pause :: "(input_tty, bool) state" where
  "InputTtyStream_Pause = do {
     modify (\<lambda>s. s\<lparr>m_run := False\<rparr>);
     wake_reader;
     thread \<leftarrow> gets it_thread;
     if \<not> thread then ret False
     else do {
       modify (\<lambda>s. s\<lparr>it_readers := it_readers s - 1\<rparr>);
       modify (\<lambda>s. s\<lparr>it_thread := False\<rparr>);
       modify (\<lambda>s. s\<lparr>it_work := False\<rparr>);
       ret True
     }
   }"

text \<open>\<open>raw\<close> is the truth value of the argument; \<open>False\<close>: the error \<^verbatim>\<open>SetRawMode failed\<close> is raised.\<close>

definition InputTtyStream_SetRawMode :: "bool \<Rightarrow> (input_tty, bool) state" where
  "InputTtyStream_SetRawMode raw = do {
     r \<leftarrow> uv_tty_set_mode raw;
     ret (\<not> raw \<or> r = 0)
   }"

text \<open>
  One round of \<open>Run\<close> in one of the threads: \<^verbatim>\<open>ReadConsoleInput\<close> returns records (at most 128,
  a lone focus event is dropped) or fails, with a closed handle or otherwise; then the
  condition of the loop is tested.
\<close>

datatype console_read = Read_Records "input_record list" | Read_Invalid_Handle | Read_Error

definition leave_if_stopped :: "(input_tty, unit) state" where
  "leave_if_stopped = do {
     run \<leftarrow> gets m_run;
     whenM (\<not> run) (modify (\<lambda>s. s\<lparr>it_readers := it_readers s - 1\<rparr>))
   }"

fun InputTtyStream_Run_round :: "console_read \<Rightarrow> (input_tty, unit) state" where
  "InputTtyStream_Run_round (Read_Records records) = do {
     whenM (records \<noteq> [FOCUS_EVENT] \<and> records \<noteq> [])
       (modify (\<lambda>s. s\<lparr>it_posted := it_posted s @ [(m_tty_context s, records)]\<rparr>));
     leave_if_stopped
   }"
| "InputTtyStream_Run_round Read_Invalid_Handle =
     modify (\<lambda>s. s\<lparr>it_work := False, it_readers := it_readers s - 1\<rparr>)"
| "InputTtyStream_Run_round Read_Error = modify (\<lambda>s. s\<lparr>it_readers := it_readers s - 1\<rparr>)"

subsection \<open>Steps of the program\<close>

inductive input_step :: "input_tty \<Rightarrow> input_tty \<Rightarrow> bool" where
  input_read: "input_step s (exec InputTtyStream_Read s)"
| input_close: "input_step s (exec InputTtyStream_Close s)"
| input_pause: "it_thread s \<Longrightarrow> input_step s (exec InputTtyStream_Pause s)"
| input_raw: "input_step s (exec (InputTtyStream_SetRawMode raw) s)"
| input_round: "0 < it_readers s \<Longrightarrow> input_step s (exec (InputTtyStream_Run_round r) s)"
| input_handled: "it_posted s = p # ps \<Longrightarrow> input_step s (s\<lparr>it_posted := ps\<rparr>)"

inductive_cases input_stepE: "input_step s t"

text \<open>The key state a stream starts with, and what a constructor that succeeds leaves.\<close>

definition key_clear :: "key_context \<Rightarrow> bool" where
  "key_clear c \<longleftrightarrow> length (last_key c) = 8 \<and> last_key_len c = 0 \<and> last_utf16_high_surrogate c = 0"

definition input_init :: "input_tty \<Rightarrow> bool" where
  "input_init s \<longleftrightarrow> (\<exists>t m. s = InputTtyStream_ctor (Some m) t \<and> length (last_key (m_tty_context t)) = 8 \<and>
     it_posted t = [] \<and> it_readers t = 0)"

definition input_inv :: "input_tty \<Rightarrow> bool" where
  "input_inv s \<longleftrightarrow> key_clear (m_tty_context s) \<and> (\<forall>p\<in>set (it_posted s). key_clear (fst p))"

lemma input_inv_init: "input_init s \<Longrightarrow> input_inv s"
  by (auto simp: input_init_def input_inv_def InputTtyStream_ctor_def key_clear_def Let_def)

lemma input_inv_quiet:
  "input_inv (s\<lparr>m_run := b\<rparr>) = input_inv s" "input_inv (s\<lparr>it_thread := b\<rparr>) = input_inv s"
  "input_inv (s\<lparr>it_work := b\<rparr>) = input_inv s" "input_inv (s\<lparr>it_readers := n\<rparr>) = input_inv s"
  "input_inv (s\<lparr>it_wakes := n\<rparr>) = input_inv s" "input_inv (s\<lparr>it_modes := ms\<rparr>) = input_inv s"
  by (simp_all add: input_inv_def)

lemma input_inv_mode: "input_inv s \<Longrightarrow> input_inv (exec (uv_tty_set_mode mode) s)"
  by (auto simp: uv_tty_set_mode_def exec_if Let_def input_inv_def key_clear_def)

lemma input_inv_round: "input_inv s \<Longrightarrow> input_inv (exec (InputTtyStream_Run_round r) s)"
  by (cases r) (auto simp: leave_if_stopped_def exec_whenM input_inv_def)

lemma input_inv_step: "input_inv s \<Longrightarrow> input_step s t \<Longrightarrow> input_inv t"
  by (erule input_stepE)
    (auto simp: InputTtyStream_Read_def InputTtyStream_Start_def InputTtyStream_Close_def InputTtyStream_Stop_def
      InputTtyStream_Pause_def InputTtyStream_SetRawMode_def wake_reader_def exec_whenM exec_if input_inv_quiet
      input_inv_mode input_inv_round, auto simp: input_inv_def)

subsection \<open>Properties\<close>

definition plain_key :: "16 word \<Rightarrow> key_event" where
  "plain_key u = \<lparr>bKeyDown = True, wRepeatCount = 1, wVirtualKeyCode = 0, UnicodeChar = u, dwControlKeyState = 0\<rparr>"

definition fresh_keys :: key_context where
  "fresh_keys = \<lparr>original_console_mode = 0, ctx_flags = 0, last_key = replicate 8 (CHR 0x00), last_key_offset = 0,
     last_key_len = 0, last_input_record = OTHER_EVENT, last_utf16_high_surrogate = 0\<rparr>"

definition sample_input :: input_tty where
  "sample_input = InputTtyStream_ctor (Some 7)
     \<lparr>m_run = False, m_tty_context = fresh_keys, it_thread = False, it_work = False, it_readers = 0, it_posted = [],
       it_wakes = 0, it_modes = [], it_accepts = (\<lambda>_ _. True)\<rparr>"

text \<open>A conversion for the samples: ASCII only.\<close>

definition ascii_bytes :: "16 word list \<Rightarrow> string" where
  "ascii_bytes us = map (\<lambda>u. char_of (unat u)) us"

lemma utf8_sized_ascii: "utf8_sized ascii_bytes"
  by (simp add: utf8_sized_def ascii_bytes_def)

text \<open>
  C13: The loop that translates console events ends for every sequence of events and every
  state of the key buffer the program can be in, never writes outside the buffer, and gives
  exactly what was typed: for each key its bytes, as often as it was repeated, in order.
\<close>
theorem key_loop_gives_typed:
  assumes "utf8_sized wctomb" and "key_wf c" and "last_key_len c = 0"
  shows "\<exists>c'. key_loop wctomb rs c buf = (c', buf @ typed wctomb (last_utf16_high_surrogate c) rs) \<and>
    key_wf c' \<and> last_key_len c' = 0"
  using assms by (rule key_loop_typed)

definition sample_events :: "input_record list" where
  "sample_events = [KEY_EVENT (plain_key 0x61), FOCUS_EVENT,
     KEY_EVENT ((plain_key 0)\<lparr>wVirtualKeyCode := 0x26, wRepeatCount := 2\<rparr>)]"

lemma ascii_a: "char_of (97 :: nat) = CHR ''a''"
  by code_simp

lemma sample_typed: "typed ascii_bytes 0 sample_events = ''a'' @ ESC # ''[A'' @ ESC # ''[A''"
proof -
  let ?up = "(plain_key 0)\<lparr>wVirtualKeyCode := 0x26, wRepeatCount := 2\<rparr>"
  have "key_bytes ascii_bytes h (plain_key 0x61) = ''a''" "repeats (plain_key 0x61) = 1"
    "next_high h (plain_key 0x61) = 0" for h
    using ascii_a
    by (simp_all add: key_bytes_def plain_key_def ignored_key_def held_def vk_defs ascii_bytes_def repeats_def next_high_def)
  moreover have "get_vt100_fn_key 0x26 False False = Some (ESC # ''[A'')" by code_simp
  then have "key_bytes ascii_bytes h ?up = ESC # ''[A''" for h
    by (simp add: key_bytes_def plain_key_def ignored_key_def held_def vk_defs)
  moreover have "repeats ?up = Suc (Suc 0)" by (simp add: repeats_def)
  ultimately show ?thesis unfolding sample_events_def by simp
qed

lemma key_loop_gives_typed_witness:
  "snd (key_loop ascii_bytes sample_events fresh_keys []) = ''a'' @ ESC # ''[A'' @ ESC # ''[A''"
proof -
  have "key_wf fresh_keys" "last_key_len fresh_keys = 0" by (simp_all add: key_wf_def fresh_keys_def)
  from key_loop_gives_typed [OF utf8_sized_ascii this, of sample_events "[]"] sample_typed
  show ?thesis by (auto simp: fresh_keys_def)
qed

text \<open>
  C36: Every batch of events is translated on its own: in every reachable state the key state
  that was bound to a posted batch is the cleared one, so nothing of an earlier batch is
  carried into it.
\<close>
theorem input_batches_apart:
  assumes "reach input_init input_step s" and "(c, rs) \<in> set (it_posted s)" and "utf8_sized wctomb"
  shows "snd (key_loop wctomb rs c []) = typed wctomb 0 rs"
proof -
  have "input_inv s"
    by (rule reach_invariant [OF assms(1)]) (blast intro: input_inv_init input_inv_step)+
  with assms(2) have c: "key_clear c" by (auto simp: input_inv_def)
  then have "key_wf c" "last_key_len c = 0" "last_utf16_high_surrogate c = 0"
    by (simp_all add: key_clear_def key_wf_def)
  with key_loop_typed [OF assms(3) this(1,2), of rs "[]"] show ?thesis by auto
qed

definition sample_batch :: input_tty where
  "sample_batch = exec (InputTtyStream_Run_round (Read_Records [KEY_EVENT (plain_key 0x61)])) (exec InputTtyStream_Read sample_input)"

lemma input_batches_apart_witness:
  "\<exists>c. it_posted sample_batch = [(c, [KEY_EVENT (plain_key 0x61)])] \<and>
    snd (key_loop ascii_bytes [KEY_EVENT (plain_key 0x61)] c []) = typed ascii_bytes 0 [KEY_EVENT (plain_key 0x61)]"
proof -
  have init: "input_init sample_input"
    unfolding input_init_def sample_input_def
    by (intro exI conjI) (rule refl, simp_all add: fresh_keys_def)
  have "reach input_init input_step (exec InputTtyStream_Read sample_input)"
    by (rule reach_step, rule reach_init, rule init, rule input_read)
  moreover have "0 < it_readers (exec InputTtyStream_Read sample_input)"
    by (simp add: InputTtyStream_Read_def InputTtyStream_Start_def exec_whenM sample_input_def InputTtyStream_ctor_def)
  ultimately have reach: "reach input_init input_step sample_batch"
    unfolding sample_batch_def by (blast intro: reach_step input_round)
  obtain c where c: "it_posted sample_batch = [(c, [KEY_EVENT (plain_key 0x61)])]"
    by (simp add: sample_batch_def InputTtyStream_Read_def InputTtyStream_Start_def exec_whenM sample_input_def
        InputTtyStream_ctor_def leave_if_stopped_def)
  from input_batches_apart [OF reach _ utf8_sized_ascii, of c] c show ?thesis by auto
qed

text \<open>
  So a character outside the basic plane is lost when its two halves come in two batches:
  the first gives nothing and the second is converted with a zero for its partner, where one
  batch converts the pair.
\<close>
theorem surrogates_need_one_batch:
  assumes "0xD800 \<le> hi" and "hi < 0xDC00" and "0xDC00 \<le> lo" and "lo < 0xE000"
  shows "typed wctomb 0 [KEY_EVENT (plain_key hi), KEY_EVENT (plain_key lo)] = wctomb [hi, lo] \<and>
    typed wctomb 0 [KEY_EVENT (plain_key hi)] @ typed wctomb 0 [KEY_EVENT (plain_key lo)] = wctomb [0, lo]"
proof -
  have "hi \<noteq> 0" "lo \<noteq> 0" "\<not> lo < 0xDC00" using assms by auto
  with assms show ?thesis
    by (simp add: key_bytes_def next_high_def ignored_key_def plain_key_def held_def vk_defs repeats_def)
qed

lemma surrogates_need_one_batch_witness:
  "typed ascii_bytes 0 [KEY_EVENT (plain_key 0xD83D)] @ typed ascii_bytes 0 [KEY_EVENT (plain_key 0xDE00)] =
    ascii_bytes [0, 0xDE00]"
  using surrogates_need_one_batch [of "0xD83D" "0xDE00" ascii_bytes] by simp

text \<open>
  A key event with a repeat count of 0 is repeated 65536 times: the count is decremented
  before it is tested, and wraps around.
\<close>
theorem zero_repeats_wraps:
  assumes "utf8_sized wctomb" and "key_wf c" and "last_key_len c = 0" and "wRepeatCount k = 0"
  shows "length (snd (key_loop wctomb [KEY_EVENT k] c [])) =
    65536 * length (key_bytes wctomb (last_utf16_high_surrogate c) k)"
proof -
  have "length (concat (replicate n xs)) = n * length xs" for n and xs :: string
    by (simp add: length_concat sum_list_replicate)
  with key_loop_typed [OF assms(1-3), of "[KEY_EVENT k]" "[]"] assms(4) show ?thesis
    by (auto simp: repeats_def)
qed

lemma zero_repeats_wraps_witness:
  "length (snd (key_loop ascii_bytes [KEY_EVENT ((plain_key 0x61)\<lparr>wRepeatCount := 0\<rparr>)] fresh_keys [])) = 65536"
proof -
  have "key_wf fresh_keys" "last_key_len fresh_keys = 0" by (simp_all add: key_wf_def fresh_keys_def)
  from zero_repeats_wraps [OF utf8_sized_ascii this, of "(plain_key 0x61)\<lparr>wRepeatCount := 0\<rparr>"]
  show ?thesis
    by (simp add: plain_key_def key_bytes_def ignored_key_def held_def vk_defs ascii_bytes_def)
qed

text \<open>
  What was typed reaches the read callback in one call, together with the stream, as long
  as the Lua buffer holds it in its own array; as soon as the buffer has to put a part of it
  on the Lua stack, the handler finds that part where it expects the stream, calls nothing and
  the whole batch is lost.
\<close>
theorem console_input_delivered:
  fixes lua :: "'a rt_scheme lua_fun"
  assumes "pure_callback lua" and "rt_stack s = []" and "rt_reg s r = Some (LObj p)"
    and "rt_objs s p ''read_callback'' = LFun f" and "snd (key_loop wctomb rs c []) = bytes" and "bytes \<noteq> []"
  shows "rt_calls (exec (ReadConsoleHandler wctomb kept lua r c rs) s) =
    rt_calls s @ (if kept bytes = [] then [(LFun f, [LObj p, LStr bytes])] else [])"
proof -
  have push: "exec (push_strings xs) t = t\<lparr>rt_stack := rt_stack t @ map LStr xs\<rparr>" for xs and t :: "'a rt_scheme"
    by (induction xs arbitrary: t) (simp_all add: lua_push_def)
  show ?thesis
  proof (cases "kept bytes")
    case Nil
    with assms show ?thesis
      by (simp add: ReadConsoleHandler_def exec_whenM lua_prim_defs vm_call_def pure_callback_def Let_def)
  next
    case (Cons x xs)
    have "stack_at (map LStr xs @ [LObj p, LNil]) (Suc 0) \<in> {LObj p} \<union> range LStr" by (cases xs) auto
    with Cons assms(2,3,5,6) show ?thesis
      by (auto simp: ReadConsoleHandler_def exec_whenM lua_prim_defs push Let_def)
  qed
qed

definition sample_rt :: rt where
  "sample_rt = \<lparr>rt_env = sample_env, rt_stack = [], rt_reg = [1 \<mapsto> LObj 7],
     rt_objs = (\<lambda>p k. if p = 7 \<and> k = ''read_callback'' then LFun 3 else LNil), rt_calls = []\<rparr>"

lemma console_input_delivered_witness:
  "rt_calls (exec (ReadConsoleHandler ascii_bytes (\<lambda>_. []) (\<lambda>_ _. ret []) 1 fresh_keys sample_events) sample_rt) =
    [(LFun 3, [LObj 7, LStr (''a'' @ ESC # ''[A'' @ ESC # ''[A'')])]"
proof -
  have "key_wf fresh_keys" "last_key_len fresh_keys = 0" by (simp_all add: key_wf_def fresh_keys_def)
  from key_loop_typed [OF utf8_sized_ascii this, of sample_events "[]"] sample_typed
  have "snd (key_loop ascii_bytes sample_events fresh_keys []) = ''a'' @ ESC # ''[A'' @ ESC # ''[A''"
    by (auto simp: fresh_keys_def)
  from console_input_delivered [of "\<lambda>_ _. ret []" sample_rt 1 7 3, OF _ _ _ _ this]
  show ?thesis by (simp add: sample_rt_def pure_callback_def)
qed

text \<open>
  Closing and reading again before the next console event leaves two threads reading: the
  first thread is only asked to stop by a flag that the second \<^verbatim>\<open>read\<close> sets again.
\<close>
theorem reopened_input_has_two_readers:
  assumes "m_run s" and "it_thread s" and "it_readers s = 1"
  defines "t \<equiv> exec (do { InputTtyStream_Close; InputTtyStream_Read }) s"
  shows "it_readers t = 2 \<and> m_run t \<and>
    it_readers (exec (InputTtyStream_Run_round (Read_Records [FOCUS_EVENT])) t) = 2"
  using assms(1-3) unfolding t_def
  by (simp add: InputTtyStream_Close_def InputTtyStream_Stop_def InputTtyStream_Read_def InputTtyStream_Start_def
      wake_reader_def leave_if_stopped_def exec_whenM)

lemma reopened_input_has_two_readers_witness:
  "it_readers (exec (do { InputTtyStream_Close; InputTtyStream_Read })
    (sample_input\<lparr>m_run := True, it_thread := True, it_readers := 1\<rparr>)) = 2"
  using reopened_input_has_two_readers [of "sample_input\<lparr>m_run := True, it_thread := True, it_readers := 1\<rparr>"]
  by simp

lemma pause_without_reader:
  "\<not> it_thread s \<Longrightarrow> result InputTtyStream_Pause s = False"
  by (simp add: InputTtyStream_Pause_def wake_reader_def result_if)

end
