(* ===== verification/Event_Loop.thy ===== *)
theory Event_Loop
  imports Lua_Api
begin

section \<open>The event loop and Lua errors (\<^verbatim>\<open>src/luanode.cpp\<close>, \<^verbatim>\<open>src/lua_vm.cpp\<close>, \<^verbatim>\<open>src/lua_runtime.h\<close>)\<close>

text \<open>
  How the process runs Lua code from C++: protected calls with an error handler
  (\<^verbatim>\<open>CLuaRuntime\<close>), what happens to an error nobody caught (\<^verbatim>\<open>CLuaVM::OnError\<close>,
  \<^verbatim>\<open>FatalError\<close>, \<^verbatim>\<open>ReportError\<close>), the tick that Lua code asks for, the main loop and the
  exit code.

  Parameters: \<open>lua\<close> is what calling a Lua function does (an error value, or results) and
  \<open>load\<close> the compiler from source text to a function; \<open>run_io\<close> in \<open>Loop\<close> is
  \<^verbatim>\<open>io_service::run\<close>.

  An operation that Lua unwinds (an error outside of a protected call) ends with \<open>Inl\<close> the
  error value.  \<open>FatalError\<close> and \<open>OnError\<close> call each other through \<open>dostring\<close>; the fuel of the
  definitions counts that nesting, and running out of it is the result \<open>None\<close>.
\<close>

subsection \<open>State\<close>

record runtime = rt +
  need_tick_cb :: bool
  tickCallback :: int
  posted_ticks :: nat
  io_stopped :: bool
  exit_code :: int
  uncaught_exception_counter :: int
  m_error_handler :: int
  rt_globals :: "string \<Rightarrow> lval"
  rt_tables :: "nat \<Rightarrow> bool"
  rt_stderr :: "string list"

type_synonym 'r vm = "(runtime, 'r) state"
type_synonym lua_code = "lval \<Rightarrow> lval list \<Rightarrow> (lval + lval list) vm"
type_synonym compiler = "string \<Rightarrow> lval + lval"

text \<open>\<open>rt_tables\<close> tells which of the named objects are tables.\<close>

definition is_table :: "runtime \<Rightarrow> lval \<Rightarrow> bool" where
  "is_table s v = (case v of LTab _ \<Rightarrow> True | LObj p \<Rightarrow> rt_tables s p | _ \<Rightarrow> False)"

definition lua_istable_top :: "bool vm" where
  "lua_istable_top = gets (\<lambda>s. is_table s (stack_top (rt_stack s)))"

definition lua_getglobal :: "string \<Rightarrow> unit vm" where
  "lua_getglobal k = modify (\<lambda>s. s\<lparr>rt_stack := rt_stack s @ [rt_globals s k]\<rparr>)"

text \<open>Indexing the value on top; anything but a table (or a userdata) raises.\<close>

definition lua_getfield_top :: "string \<Rightarrow> (lval + unit) vm" where
  "lua_getfield_top k = do {
     v \<leftarrow> gets (\<lambda>s. stack_top (rt_stack s));
     if (\<exists>p. v = LObj p) \<or> (\<exists>kvs. v = LTab kvs) then do {
       modify (\<lambda>s. s\<lparr>rt_stack := rt_stack s @ [field_of (rt_objs s) v k]\<rparr>);
       ret (Inr ())
     }
     else ret (Inl (LStr ''attempt to index a non-table value''))
   }"

definition print_stderr :: "string \<Rightarrow> unit vm" where
  "print_stderr x = modify (\<lambda>s. s\<lparr>rt_stderr := rt_stderr s @ [x]\<rparr>)"

subsection \<open>Protected calls\<close>

text \<open>
  \<^verbatim>\<open>lua_pcall(L, n, LUA_MULTRET, h)\<close>: with an error, the handler at index \<open>h\<close> is called with
  the error value and its first result is what is pushed.
\<close>

definition LUA_ERRRUN :: int where "LUA_ERRRUN = 2"
definition LUA_ERRERR :: int where "LUA_ERRERR = 5"

definition lua_pcall :: "lua_code \<Rightarrow> nat \<Rightarrow> nat \<Rightarrow> int vm" where
  "lua_pcall lua n h = do {
     stk \<leftarrow> gets rt_stack;
     let k = length stk - Suc n;
     modify (\<lambda>s. s\<lparr>rt_stack := take k stk, rt_calls := rt_calls s @ [(stk ! k, drop (Suc k) stk)]\<rparr>);
     r \<leftarrow> lua (stk ! k) (drop (Suc k) stk);
     case r of
       Inr results \<Rightarrow> do { modify (\<lambda>s. s\<lparr>rt_stack := take k stk @ results\<rparr>); ret 0 }
     | Inl e \<Rightarrow> do {
         q \<leftarrow> lua (stack_at stk h) [e];
         case q of
           Inr vs \<Rightarrow> do {
             modify (\<lambda>s. s\<lparr>rt_stack := take k stk @ [if vs = [] then LNil else hd vs]\<rparr>);
             ret LUA_ERRRUN
           }
         | Inl e' \<Rightarrow> do { modify (\<lambda>s. s\<lparr>rt_stack := take k stk @ [e']\<rparr>); ret LUA_ERRERR }
       }
   }"

text \<open>An unprotected call that drops the results, as the error reports make it.\<close>

definition lua_call0 :: "lua_code \<Rightarrow> nat \<Rightarrow> (lval + unit) vm" where
  "lua_call0 lua n = do {
     stk \<leftarrow> gets rt_stack;
     let k = length stk - Suc n;
     modify (\<lambda>s. s\<lparr>rt_stack := take k stk, rt_calls := rt_calls s @ [(stk ! k, drop (Suc k) stk)]\<rparr>);
     r \<leftarrow> lua (stk ! k) (drop (Suc k) stk);
     modify (\<lambda>s. s\<lparr>rt_stack := take k stk\<rparr>);
     ret (case r of Inl e \<Rightarrow> Inl e | Inr _ \<Rightarrow> Inr ())
   }"

text \<open>
  \<^verbatim>\<open>pushErrorHandler\<close>: the reference, or \<^verbatim>\<open>debug.traceback\<close> the first time; its recursive
  call pushes the reference just made, which is never \<^verbatim>\<open>LUA_NOREF\<close>.
\<close>

definition pushErrorHandler :: "(lval + unit) vm" where
  "pushErrorHandler = do {
     h \<leftarrow> gets m_error_handler;
     if h \<noteq> LUA_NOREF then do { lua_rawgeti h; ret (Inr ()) }
     else do {
       lua_getglobal ''debug'';
       r \<leftarrow> lua_getfield_top ''traceback'';
       case r of Inl e \<Rightarrow> ret (Inl e)
       | Inr _ \<Rightarrow> do {
           h' \<leftarrow> luaL_ref;
           modify (\<lambda>s. s\<lparr>m_error_handler := h'\<rparr>);
           lua_pop 1;
           lua_rawgeti h';
           ret (Inr ())
         }
     }
   }"

definition setErrorHandler :: "int \<Rightarrow> unit vm" where
  "setErrorHandler reference = modify (\<lambda>s. s\<lparr>m_error_handler := reference\<rparr>)"

text \<open>
  \<open>on_error\<close> is the class's \<^verbatim>\<open>OnError\<close>, given whether there is a stack trace.  The outermost
  option of a result is the fuel, then comes the unwinding error or the result.
\<close>

type_synonym 'r outcome = "(lval + 'r) option"

definition vm_pcall :: "lua_code \<Rightarrow> (bool \<Rightarrow> unit outcome vm) \<Rightarrow> nat \<Rightarrow> int outcome vm" where
  "vm_pcall lua on_error params = do {
     base \<leftarrow> gets (\<lambda>s. length (rt_stack s) - params);
     h \<leftarrow> pushErrorHandler;
     case h of Inl e \<Rightarrow> ret (Some (Inl e))
     | Inr _ \<Rightarrow> do {
         lua_insert base;
         iRet \<leftarrow> lua_pcall lua params base;
         if iRet \<noteq> 0 then do {
           lua_remove base;
           r \<leftarrow> on_error True;
           ret (case r of None \<Rightarrow> None | Some (Inl e) \<Rightarrow> Some (Inl e) | Some (Inr _) \<Rightarrow> Some (Inr iRet))
         }
         else do { lua_remove base; ret (Some (Inr iRet)) }
       }
   }"

definition vm_dostring :: "lua_code \<Rightarrow> compiler \<Rightarrow> (bool \<Rightarrow> unit outcome vm) \<Rightarrow> string \<Rightarrow> nat \<Rightarrow>
    int outcome vm" where
  "vm_dostring lua load on_error chunk params = do {
     base \<leftarrow> gets (\<lambda>s. length (rt_stack s) - params);
     case load chunk of
       Inr f \<Rightarrow> do {
         lua_push f;
         lua_insert (base + 1);
         h \<leftarrow> pushErrorHandler;
         case h of Inl e \<Rightarrow> ret (Some (Inl e))
         | Inr _ \<Rightarrow> do {
             lua_insert (base + 1);
             iRet \<leftarrow> lua_pcall lua params (base + 1);
             r \<leftarrow> (if iRet \<noteq> 0 then on_error True else ret (Some (Inr ())));
             case r of
               None \<Rightarrow> ret None
             | Some (Inl e) \<Rightarrow> ret (Some (Inl e))
             | Some (Inr _) \<Rightarrow> do { lua_remove (base + 1); ret (Some (Inr iRet)) }
           }
       }
     | Inl err \<Rightarrow> do {
         lua_push err;
         r \<leftarrow> on_error False;
         case r of
           None \<Rightarrow> ret None
         | Some (Inl e) \<Rightarrow> ret (Some (Inl e))
         | Some (Inr _) \<Rightarrow> do { lua_pop params; ret (Some (Inr 3)) }
       }
   }"

subsection \<open>Errors nobody caught\<close>

definition stop_io :: "unit vm" where
  "stop_io = modify (\<lambda>s. s\<lparr>io_stopped := True\<rparr>)"

definition add_counter :: "int \<Rightarrow> unit vm" where
  "add_counter d = modify (\<lambda>s. s\<lparr>uncaught_exception_counter := uncaught_exception_counter s + d\<rparr>)"

text \<open>\<^verbatim>\<open>console.error("%s", message)\<close>, or the standard error without it.\<close>

definition console_error :: "lua_code \<Rightarrow> string \<Rightarrow> (lval + unit) vm" where
  "console_error lua message = do {
     lua_getglobal ''console'';
     table \<leftarrow> lua_istable_top;
     if table then do {
       r \<leftarrow> lua_getfield_top ''error'';
       t \<leftarrow> lua_toptype;
       q \<leftarrow> (if t = TFunction then do {
           lua_push (LStr ''%s'');
           lua_push (LStr message);
           lua_call0 lua 2
         }
         else do { print_stderr message; lua_pop 1; ret (Inr ()) });
       case q of Inl e \<Rightarrow> ret (Inl e) | Inr _ \<Rightarrow> do { lua_pop 1; ret (Inr ()) }
     }
     else do { print_stderr message; lua_pop 1; ret (Inr ()) }
   }"

definition ReportError :: "lua_code \<Rightarrow> string \<Rightarrow> (lval + unit) vm" where
  "ReportError lua message = console_error lua message"

definition lua_isstring_top :: "bool vm" where
  "lua_isstring_top = gets (\<lambda>s. as_string (rt_env s) (stack_top (rt_stack s)) \<noteq> None)"

definition lua_tostring_top :: "string vm" where
  "lua_tostring_top = gets (\<lambda>s. case as_string (rt_env s) (stack_top (rt_stack s)) of None \<Rightarrow> [] | Some x \<Rightarrow> x)"

definition CRLF :: string where "CRLF = [CHR 0x0D, CHR 0x0A]"

definition error_message :: "bool \<Rightarrow> bool \<Rightarrow> string \<Rightarrow> string" where
  "error_message hasStackTrace is_string text =
     (if hasStackTrace then (if is_string then text @ CRLF else ''(error object is not a string)'')
      else (if is_string then text @ CRLF else []) @
        ''Stack Traceback'' @ [CHR 0x0A] @ ''==============='' @ [CHR 0x0A, CHR 0x0D])"

text \<open>\<open>fatal\<close> is \<^verbatim>\<open>FatalError\<close>; \<^verbatim>\<open>OnError\<close> reports what it did not handle.\<close>

definition OnError :: "lua_code \<Rightarrow> (string \<Rightarrow> bool outcome vm) \<Rightarrow> bool \<Rightarrow> unit outcome vm" where
  "OnError lua fatal hasStackTrace = do {
     is_string \<leftarrow> lua_isstring_top;
     text \<leftarrow> lua_tostring_top;
     let errorMessage = error_message hasStackTrace is_string text;
     r \<leftarrow> fatal errorMessage;
     case r of
       None \<Rightarrow> ret None
     | Some (Inl e) \<Rightarrow> ret (Some (Inl e))
     | Some (Inr handled) \<Rightarrow>
         if handled then ret (Some (Inr ()))
         else do { q \<leftarrow> console_error lua errorMessage; ret (Some q) }
   }"

definition exit_chunk :: string where "exit_chunk = ''process:exit(1)''"
definition emit_chunk :: string where
  "emit_chunk = ''process:emit('' @ [CHR 0x27] @ ''unhandledError'' @ [CHR 0x27] @ '', ...)''"

fun FatalError :: "nat \<Rightarrow> lua_code \<Rightarrow> compiler \<Rightarrow> string \<Rightarrow> bool outcome vm" where
  "FatalError 0 lua load message = ret None"
| "FatalError (Suc fuel) lua load message = do {
     top \<leftarrow> lua_gettop;
     n \<leftarrow> gets uncaught_exception_counter;
     if 0 < n then do { stop_io; ret (Some (Inr False)) }
     else do {
       lua_getglobal ''process'';
       r \<leftarrow> lua_getfield_top ''_events'';
       case r of Inl e \<Rightarrow> ret (Some (Inl e))
       | Inr _ \<Rightarrow> do {
           table \<leftarrow> lua_istable_top;
           if \<not> table then do {
             add_counter 1;
             q \<leftarrow> vm_dostring lua load (OnError lua (FatalError fuel lua load)) exit_chunk 0;
             case q of None \<Rightarrow> ret None | Some (Inl e) \<Rightarrow> ret (Some (Inl e))
             | Some (Inr _) \<Rightarrow> do { add_counter (-1); ret (Some (Inr False)) }
           }
           else do {
             _ \<leftarrow> lua_getfield_top ''unhandledError'';
             t \<leftarrow> lua_toptype;
             if t \<noteq> TNil then do {
               add_counter 1;
               lua_push (LStr message);
               q \<leftarrow> vm_dostring lua load (OnError lua (FatalError fuel lua load)) emit_chunk 1;
               case q of None \<Rightarrow> ret None | Some (Inl e) \<Rightarrow> ret (Some (Inl e))
               | Some (Inr _) \<Rightarrow> do { add_counter (-1); lua_settop top; ret (Some (Inr True)) }
             }
             else do {
               add_counter 1;
               q \<leftarrow> vm_dostring lua load (OnError lua (FatalError fuel lua load)) exit_chunk 0;
               case q of None \<Rightarrow> ret None | Some (Inl e) \<Rightarrow> ret (Some (Inl e))
               | Some (Inr _) \<Rightarrow> do { add_counter (-1); ret (Some (Inr False)) }
             }
           }
         }
     }
   }"

subsection \<open>Tick, exit, loop\<close>

text \<open>Two levels of nesting are always enough, as \<open>fatal_error_nesting\<close> shows.\<close>

definition fatal :: "lua_code \<Rightarrow> compiler \<Rightarrow> string \<Rightarrow> bool outcome vm" where
  "fatal lua load = FatalError 2 lua load"

definition vm_call_top :: "lua_code \<Rightarrow> compiler \<Rightarrow> nat \<Rightarrow> int outcome vm" where
  "vm_call_top lua load n = vm_pcall lua (OnError lua (fatal lua load)) n"

definition Tick :: "lua_code \<Rightarrow> compiler \<Rightarrow> unit outcome vm" where
  "Tick lua load = do {
     modify (\<lambda>s. s\<lparr>need_tick_cb := False\<rparr>);
     top \<leftarrow> lua_gettop;
     cb \<leftarrow> gets tickCallback;
     lua_rawgeti cb;
     c \<leftarrow> vm_call_top lua load 0;
     case c of None \<Rightarrow> ret None | Some (Inl e) \<Rightarrow> ret (Some (Inl e))
     | Some (Inr _) \<Rightarrow> do {
         now \<leftarrow> lua_gettop;
         is_string \<leftarrow> lua_isstring_top;
         r \<leftarrow> (if now - top \<noteq> 0 \<and> is_string then do {
             message \<leftarrow> lua_tostring_top;
             f \<leftarrow> fatal lua load message;
             case f of None \<Rightarrow> ret None | Some (Inl e) \<Rightarrow> ret (Some (Inl e))
             | Some (Inr handled) \<Rightarrow>
                 if handled then ret (Some (Inr ()))
                 else do { q \<leftarrow> ReportError lua message; ret (Some q) }
           }
           else ret (Some (Inr ())));
         case r of None \<Rightarrow> ret None | Some (Inl e) \<Rightarrow> ret (Some (Inl e))
         | Some (Inr _) \<Rightarrow> do { lua_settop 0; ret (Some (Inr ())) }
       }
   }"

definition NeedTickCallback :: "runtime meth" where
  "NeedTickCallback = do {
     modify (\<lambda>s. s\<lparr>need_tick_cb := True, posted_ticks := posted_ticks s + 1\<rparr>);
     ret_n 0
   }"

definition EXIT_FAILURE :: int where "EXIT_FAILURE = 1"

text \<open>The registered function \<^verbatim>\<open>Exit\<close>; a message goes to the standard error unless the code is 0.\<close>

definition Exit :: "runtime meth" where
  "Exit = do {
     c \<leftarrow> luaL_optinteger 1 EXIT_FAILURE;
     case c of Inl e \<Rightarrow> raise e | Inr code \<Rightarrow> do {
       stop_io;
       env \<leftarrow> gets rt_env;
       whenM (c_int code \<noteq> 0) (print_stderr (''Exit with code '' @ le_num2str env (c_int code)));
       modify (\<lambda>s. s\<lparr>exit_code := c_int code\<rparr>);
       ret_n 0
     }
   }"

definition SignalExit :: "string \<Rightarrow> unit vm" where
  "SignalExit text = do { print_stderr text; stop_io }"

definition Loop :: "ec vm \<Rightarrow> runtime meth" where
  "Loop run_io = do {
     lua_getfield 1 ''_tickcallback'';
     cb \<leftarrow> luaL_ref;
     modify (\<lambda>s. s\<lparr>tickCallback := cb\<rparr>);
     lua_settop 0;
     e \<leftarrow> run_io;
     cb' \<leftarrow> gets tickCallback;
     luaL_unref cb';
     code \<leftarrow> gets exit_code;
     if ec_fails e then do { lua_push LNil; lua_push (LStr (ec_message e)); ret_n 2 }
     else if code \<noteq> 0 then do { lua_push LNil; lua_push (LNum code); ret_n 2 }
     else do { lua_push (LBool True); ret_n 1 }
   }"

text \<open>What \<^verbatim>\<open>main\<close> returns, from what \<^verbatim>\<open>Load\<close> returned.\<close>

definition main_result :: "runtime \<Rightarrow> int \<Rightarrow> int" where
  "main_result s load_result = (if exit_code s \<noteq> 0 then exit_code s else load_result)"

subsection \<open>Nested errors\<close>

text \<open>
  Lua code can not reach \<^verbatim>\<open>uncaught_exception_counter\<close>, a static variable of
  \<^verbatim>\<open>luanode.cpp\<close> that no binding writes.
\<close>

definition keeps_counter :: "lua_code \<Rightarrow> bool" where
  "keeps_counter lua \<longleftrightarrow> (\<forall>f args c. pres (\<lambda>s. uncaught_exception_counter s = c) (lua f args))"

abbreviation counter_is :: "int \<Rightarrow> runtime \<Rightarrow> bool" where
  "counter_is c \<equiv> \<lambda>s. uncaught_exception_counter s = c"

lemma stack_free_counter: "stack_free (counter_is c)"
  by (simp add: stack_free_def)

lemma pres_counter [pres_intros]:
  "pres (counter_is c) luaL_ref" "pres (counter_is c) (lua_getglobal k)"
  "pres (counter_is c) (lua_getfield_top k)" "pres (counter_is c) (print_stderr x)"
  "pres (counter_is c) lua_istable_top" "pres (counter_is c) lua_isstring_top"
  "pres (counter_is c) lua_tostring_top" "pres (counter_is c) stop_io"
  by (auto simp: pres_def exec_luaL_ref Let_def lua_getglobal_def lua_getfield_top_def print_stderr_def
      lua_istable_top_def lua_isstring_top_def lua_tostring_top_def stop_io_def exec_if)

lemma pres_pushErrorHandler [pres_intros]: "pres (counter_is c) pushErrorHandler"
  unfolding pushErrorHandler_def
  by (intro pres_intros stack_free_counter pres_modify) simp_all

lemma pres_pcall [pres_intros]:
  assumes "keeps_counter lua"
  shows "pres (counter_is c) (lua_pcall lua n h)"
proof -
  have lua: "pres (counter_is c) (lua f args)" for f args
    using assms by (simp add: keeps_counter_def)
  show ?thesis
    unfolding lua_pcall_def Let_def by (intro pres_intros lua pres_modify) simp_all
qed

lemma pres_call0 [pres_intros]:
  assumes "keeps_counter lua"
  shows "pres (counter_is c) (lua_call0 lua n)"
proof -
  have lua: "pres (counter_is c) (lua f args)" for f args
    using assms by (simp add: keeps_counter_def)
  show ?thesis
    unfolding lua_call0_def Let_def by (intro pres_intros lua pres_modify) simp_all
qed

text \<open>An operation that returns in every state with the counter at \<open>c\<close>.\<close>

definition returns_at :: "int \<Rightarrow> 'r outcome vm \<Rightarrow> bool" where
  "returns_at c m \<longleftrightarrow> (\<forall>s. uncaught_exception_counter s = c \<longrightarrow> result m s \<noteq> None)"

lemma returns_bind:
  "pres (counter_is c) m \<Longrightarrow> (\<And>x. returns_at c (f x)) \<Longrightarrow> returns_at c (m \<bind> f)"
  by (simp add: returns_at_def pres_def)

lemma returns_ret: "returns_at c (ret (Some x))"
  by (simp add: returns_at_def)

lemma returns_last:
  assumes "returns_at c m" and "\<And>e. \<exists>y. result (f (Some (Inl e))) = (\<lambda>_. Some y)"
    and "\<And>x s. result (f (Some (Inr x))) s \<noteq> None"
  shows "returns_at c (m \<bind> f)"
  unfolding returns_at_def
proof (intro allI impI)
  fix s assume "counter_is c s"
  with assms(1) obtain r where r: "result m s = Some r" by (auto simp: returns_at_def)
  have "\<exists>y. result (f (Some (Inl e))) t = Some y" for e t
    using assms(2) [of e] by auto
  with r assms(3) show "result (m \<bind> f) s \<noteq> None" by (cases r) auto
qed

lemma returns_dostring:
  assumes "keeps_counter lua" and "\<And>b. returns_at c (on_error b)"
  shows "returns_at c (vm_dostring lua load on_error chunk n)"
proof -
  have split: "returns_at c (case load chunk of Inl e \<Rightarrow> a e | Inr f \<Rightarrow> b f)"
    if "\<And>e. returns_at c (a e)" "\<And>f. returns_at c (b f)" for a :: "lval \<Rightarrow> int outcome vm" and b
    using that by (cases "load chunk") simp_all
  have sum: "returns_at c (case h of Inl e \<Rightarrow> ret (Some (Inl e)) | Inr x \<Rightarrow> m)"
    if "returns_at c m" for h :: "lval + unit" and m :: "int outcome vm"
    using that by (cases h) (simp_all add: returns_ret)
  have tail: "returns_at c ((if i \<noteq> 0 then on_error True else ret (Some (Inr ()))) \<bind> f)"
    if "\<And>e. \<exists>y. result (f (Some (Inl e))) = (\<lambda>_. Some y)" "\<And>x s. result (f (Some (Inr x))) s \<noteq> None"
    for i :: int and f :: "unit outcome \<Rightarrow> int outcome vm"
    by (rule returns_last) (use assms(2) that in \<open>auto simp: returns_ret\<close>)
  show ?thesis
    unfolding vm_dostring_def
    by (rule returns_bind, rule pres_gets, rule split)
      (intro returns_bind pres_intros stack_free_counter assms(1) returns_last [OF assms(2)] sum tail;
        auto simp: fun_eq_iff)+
qed

lemma FatalError_nested: "0 < c \<Longrightarrow> returns_at c (FatalError (Suc n) lua load m)"
  by (simp add: returns_at_def result_if lua_gettop_def)

lemma returns_OnError:
  assumes "\<And>m. returns_at c (fat m)"
  shows "returns_at c (OnError lua fat b)"
proof -
  have "result (OnError lua fat b) s \<noteq> None" if "counter_is c s" for s
  proof -
    define t where "t = exec lua_tostring_top (exec lua_isstring_top s)"
    have "counter_is c t"
      using that presD [OF pres_counter(7)] presD [OF pres_counter(6)] by (simp add: t_def)
    then have "result (fat m) t \<noteq> None" for m
      using assms by (simp add: returns_at_def)
    then show ?thesis
      by (auto simp: OnError_def Let_def t_def [symmetric] split: option.splits sum.splits)
  qed
  then show ?thesis by (simp add: returns_at_def)
qed

lemma returns_gets: "returns_at c (f c) \<Longrightarrow> returns_at c (gets uncaught_exception_counter \<bind> f)"
  by (auto simp: returns_at_def)

lemma returns_add: "returns_at 1 m \<Longrightarrow> returns_at 0 (add_counter 1 \<bind> (\<lambda>_. m))"
  by (simp add: returns_at_def add_counter_def)

lemma returns_if: "(b \<Longrightarrow> returns_at c m) \<Longrightarrow> (\<not> b \<Longrightarrow> returns_at c n) \<Longrightarrow> returns_at c (if b then m else n)"
  by simp

lemma returns_sum: "returns_at c m \<Longrightarrow> returns_at c (case h of Inl e \<Rightarrow> ret (Some (Inl e)) | Inr x \<Rightarrow> m)"
  by (cases h) (simp_all add: returns_ret)

lemma returns_FatalError:
  assumes "keeps_counter lua"
  shows "returns_at 0 (FatalError (Suc (Suc n)) lua load m)"
proof -
  have "returns_at 1 (OnError lua (FatalError (Suc n) lua load) b)" for b
    by (rule returns_OnError) (rule FatalError_nested, simp)
  then have run: "returns_at 1 (vm_dostring lua load (OnError lua (FatalError (Suc n) lua load)) chunk k)"
    for chunk k by (rule returns_dostring [OF assms])
  have run_then: "returns_at 1 (vm_dostring lua load (OnError lua (FatalError (Suc n) lua load)) chunk k \<bind> f)"
    if "\<And>e. \<exists>y. result (f (Some (Inl e))) = (\<lambda>_. Some y)" "\<And>x u. result (f (Some (Inr x))) u \<noteq> None"
    for chunk k and f :: "int outcome \<Rightarrow> bool outcome vm"
    by (rule returns_last [OF run that])
  show ?thesis
    unfolding FatalError.simps(2) [of "Suc n"]
    apply (intro returns_bind [of _ lua_gettop] returns_gets pres_intros returns_if)
     apply simp
    apply (intro returns_bind [of _ "lua_getglobal _"] returns_bind [of _ "lua_getfield_top _"]
         returns_bind [of _ lua_istable_top] returns_bind [of _ lua_toptype] returns_sum returns_if
         returns_add pres_intros)
      apply (rule run_then; simp add: fun_eq_iff)
     apply (rule returns_bind [of _ "lua_push _"], rule pres_stack, rule stack_free_counter)
     apply (rule run_then; simp add: fun_eq_iff)
    apply (rule run_then; simp add: fun_eq_iff)
    done
qed

text \<open>
  C20: Errors in error handlers end.  However often the \<^verbatim>\<open>unhandledError\<close> handler, the exit
  handler or the console raise errors themselves, reporting an error nests at most one level:
  two levels of fuel always suffice, from a counter that is not negative.
\<close>
theorem fatal_error_nesting:
  assumes "keeps_counter lua" and "0 \<le> uncaught_exception_counter s" and "2 \<le> fuel"
  shows "result (FatalError fuel lua load message) s \<noteq> None"
proof -
  define n where "n = fuel - 2"
  have fuel: "fuel = Suc (Suc n)" using assms(3) by (simp add: n_def)
  show ?thesis
  proof (cases "0 < uncaught_exception_counter s")
    case True
    then show ?thesis using FatalError_nested [OF True] unfolding fuel returns_at_def by blast
  next
    case False
    then have "counter_is 0 s" using assms(2) by simp
    then show ?thesis using returns_FatalError [OF assms(1)] unfolding fuel returns_at_def by blast
  qed
qed

definition sample_runtime :: runtime where
  "sample_runtime = \<lparr>rt_env = sample_env, rt_stack = [],
     rt_reg = [1 \<mapsto> LFun 1, 2 \<mapsto> LFun 2],
     rt_objs = (\<lambda>p k. if p = 10 \<and> k = ''_events'' then LObj 11
       else if p = 11 \<and> k = ''unhandledError'' then LFun 5 else LNil),
     rt_calls = [], need_tick_cb = True, tickCallback = 1, posted_ticks = 1, io_stopped = False,
     exit_code = 0, uncaught_exception_counter = 0, m_error_handler = 2,
     rt_globals = (\<lambda>k. if k = ''process'' then LObj 10 else LNil),
     rt_tables = (\<lambda>p. p = 11), rt_stderr = []\<rparr>"

text \<open>Function 1 raises, 2 is the error handler, 3 the chunk that emits the event.\<close>

definition sample_lua :: lua_code where
  "sample_lua f args = (if f = LFun 1 then ret (Inl (LStr ''boom''))
     else if f = LFun 2 then ret (Inr [LStr ''boom, at line 1'']) else ret (Inr []))"

definition sample_load :: compiler where
  "sample_load chunk = Inr (LFun 3)"

lemma fatal_error_nesting_witness:
  "result (FatalError 2 (\<lambda>_ _. ret (Inl (LStr ''again''))) sample_load ''boom'') sample_runtime \<noteq> None"
  by (rule fatal_error_nesting) (simp_all add: keeps_counter_def pres_ret sample_runtime_def)

text \<open>The state of a process that handles unhandled errors.\<close>

definition handles_errors :: "runtime \<Rightarrow> nat \<Rightarrow> nat \<Rightarrow> bool" where
  "handles_errors s p q \<longleftrightarrow> rt_globals s ''process'' = LObj p \<and> rt_objs s p ''_events'' = LObj q \<and>
     rt_tables s q \<and> rt_objs s q ''unhandledError'' \<noteq> LNil \<and> m_error_handler s \<noteq> LUA_NOREF \<and>
     uncaught_exception_counter s = 0"

lemma stack_top_append_Cons: "stack_top (xs @ y # ys) = stack_top (y # ys)"
  by (simp add: stack_top_def)

lemmas vm_simps = stack_top_append_Cons nth_append vm_pcall_def vm_dostring_def lua_pcall_def pushErrorHandler_def lua_prim_defs
  lua_getglobal_def lua_getfield_top_def lua_istable_top_def lua_isstring_top_def lua_tostring_top_def
  add_counter_def stop_io_def is_table_def exec_if result_if Let_def

text \<open>A protected call that succeeds, under an error handler that is set.\<close>

lemma vm_call_top_ok:
  assumes "m_error_handler s \<noteq> LUA_NOREF" and "rt_stack s = xs @ f # args" and "length args = n"
    and "lua f args = ret (Inr vs)"
  shows "run_state (vm_call_top lua load n) s =
    (Some (Inr 0), s\<lparr>rt_stack := xs @ vs, rt_calls := rt_calls s @ [(f, args)]\<rparr>)"
proof -
  let ?h = "case rt_reg s (m_error_handler s) of None \<Rightarrow> LNil | Some v \<Rightarrow> v"
  have base: "length (rt_stack s) - n = Suc (length xs)" using assms(2,3) by simp
  have push: "run_state pushErrorHandler s = (Inr (), s\<lparr>rt_stack := xs @ f # args @ [?h]\<rparr>)"
    using assms(1,2) by (simp add: pushErrorHandler_def run_state_split lua_rawgeti_def)
  have ins: "exec (lua_insert (Suc (length xs))) (s\<lparr>rt_stack := xs @ f # args @ [?h]\<rparr>) =
      s\<lparr>rt_stack := xs @ ?h # f # args\<rparr>"
    by (simp add: lua_insert_def Let_def stack_top_def)
  have k: "length (xs @ ?h # f # args) - Suc n = Suc (length xs)"
    "take (Suc (length xs)) (xs @ ?h # f # args) = xs @ [?h]"
    "(xs @ ?h # f # args) ! Suc (length xs) = f"
    using assms(3) by (simp_all add: nth_append)
  have call: "run_state (lua_pcall lua n (Suc (length xs))) (s\<lparr>rt_stack := xs @ ?h # f # args\<rparr>) =
      (0, s\<lparr>rt_stack := xs @ ?h # vs, rt_calls := rt_calls s @ [(f, args)]\<rparr>)"
    by (simp add: lua_pcall_def Let_def run_state_split k assms(4) del: length_append list.size)
  show ?thesis
    using push call by (simp add: vm_call_top_def vm_pcall_def run_state_split base ins exec_if result_if)
      (simp add: lua_remove_def)
qed

text \<open>
  Reporting with a handler that returns: the chunk that emits the event is called with the
  message, and everything else is as before.
\<close>

lemma fatal_handled:
  assumes "handles_errors s p q" and "load emit_chunk = Inr (LFun k)"
    and "\<And>m. lua (LFun k) [LStr m] = ret (Inr [])" and "rt_objs s q ''unhandledError'' = LFun h"
  shows "run_state (FatalError (Suc fuel) lua load message) s =
     (Some (Inr True), s\<lparr>rt_calls := rt_calls s @ [(LFun k, [LStr message])]\<rparr>)"
proof -
  have "result (FatalError (Suc fuel) lua load message) s = Some (Inr True)"
    using assms by (simp add: handles_errors_def vm_simps)
  moreover have "exec (FatalError (Suc fuel) lua load message) s =
      s\<lparr>rt_calls := rt_calls s @ [(LFun k, [LStr message])]\<rparr>"
    using assms by (simp add: handles_errors_def vm_simps)
  ultimately show ?thesis by (simp add: run_state_split)
qed

lemma fatal_handled_run:
  assumes "handles_errors s p q" and "load emit_chunk = Inr (LFun k)"
    and "\<And>m. lua (LFun k) [LStr m] = ret (Inr [])" and "rt_objs s q ''unhandledError'' = LFun h"
  shows "result (fatal lua load message) s = Some (Inr True)"
    and "exec (fatal lua load message) s = s\<lparr>rt_calls := rt_calls s @ [(LFun k, [LStr message])]\<rparr>"
  using fatal_handled [of s p q load k lua h 1 message, OF assms] by (simp_all add: fatal_def result_def exec_def numeral_2_eq_2)

lemma handles_errors_other [simp]:
  "handles_errors (s\<lparr>rt_stack := x\<rparr>) = handles_errors s"
  "handles_errors (s\<lparr>rt_calls := y\<rparr>) = handles_errors s"
  "handles_errors (s\<lparr>need_tick_cb := b\<rparr>) = handles_errors s"
  by (simp_all add: handles_errors_def fun_eq_iff)

text \<open>
  An error in the tick callback is reported twice.  The protected call reports it to the
  \<^verbatim>\<open>unhandledError\<close> handler and leaves the message on the stack, and \<open>Tick\<close> takes what is on
  the stack for an error of its own and emits the event again.
\<close>
theorem tick_error_reported_twice:
  assumes "handles_errors s p q" and "rt_objs s q ''unhandledError'' = LFun u"
    and "rt_stack s = []" and "rt_reg s (tickCallback s) = Some (LFun cb)"
    and "rt_reg s (m_error_handler s) = Some (LFun h)" and "load emit_chunk = Inr (LFun k)"
    and "lua (LFun cb) [] = ret (Inl e)" and "lua (LFun h) [e] = ret (Inr [LStr text])"
    and "\<And>m. lua (LFun k) [LStr m] = ret (Inr [])"
  shows "rt_calls (exec (Tick lua load) s) = rt_calls s @ [(LFun cb, []),
      (LFun k, [LStr (text @ CRLF)]), (LFun k, [LStr text])] \<and>
    result (Tick lua load) s = Some (Inr ()) \<and> rt_stack (exec (Tick lua load) s) = []"
proof -
  note fatal = fatal_handled_run [of _ p q load k lua u, OF _ assms(6,9)]
  have nh: "m_error_handler s \<noteq> LUA_NOREF" using assms(1) by (simp add: handles_errors_def)
  show ?thesis
    using assms(1-5,7,8) nh
    by (simp add: Tick_def vm_call_top_def vm_simps OnError_def error_message_def LUA_ERRRUN_def
        as_string_def fatal)
qed

lemma tick_error_reported_twice_witness:
  "rt_calls (exec (Tick sample_lua sample_load) sample_runtime) = [(LFun 1, []),
     (LFun 3, [LStr (''boom, at line 1'' @ CRLF)]), (LFun 3, [LStr ''boom, at line 1''])]"
  using tick_error_reported_twice [of sample_runtime 10 11 5 1 2 sample_load 3 sample_lua "LStr ''boom''"
      "''boom, at line 1''"]
  by (simp add: handles_errors_def sample_runtime_def sample_lua_def sample_load_def LUA_NOREF_def)

text \<open>
  A tick callback that returns a string is reported as an unhandled error, although it
  succeeded.
\<close>
theorem tick_result_taken_for_error:
  assumes "handles_errors s p q" and "rt_objs s q ''unhandledError'' = LFun u"
    and "rt_stack s = []" and "rt_reg s (tickCallback s) = Some (LFun cb)"
    and "load emit_chunk = Inr (LFun k)" and "lua (LFun cb) [] = ret (Inr [LStr text])"
    and "\<And>m. lua (LFun k) [LStr m] = ret (Inr [])"
  shows "rt_calls (exec (Tick lua load) s) = rt_calls s @ [(LFun cb, []), (LFun k, [LStr text])] \<and>
    rt_stack (exec (Tick lua load) s) = [] \<and> \<not> need_tick_cb (exec (Tick lua load) s)"
proof -
  note fatal = fatal_handled_run [of _ p q load k lua u, OF _ assms(5,7)]
  have nh: "m_error_handler s \<noteq> LUA_NOREF" using assms(1) by (simp add: handles_errors_def)
  show ?thesis
    using assms(1-4,6) nh
    by (simp add: Tick_def vm_call_top_def vm_simps as_string_def fatal)
qed

lemma tick_result_taken_for_error_witness:
  "rt_calls (exec (Tick (\<lambda>f args. if f = LFun 1 then ret (Inr [LStr ''ok'']) else ret (Inr [])) sample_load)
     sample_runtime) = [(LFun 1, []), (LFun 3, [LStr ''ok''])]"
  using tick_result_taken_for_error [of sample_runtime 10 11 5 1 sample_load 3
      "\<lambda>f args. if f = LFun 1 then ret (Inr [LStr ''ok'']) else ret (Inr [])" "''ok''"]
  by (simp add: handles_errors_def sample_runtime_def sample_load_def LUA_NOREF_def)

text \<open>
  The code a program exits with is the status of the process: when the loop was left by
  \<open>Exit\<close> with a code that is not 0 as a C int, \<open>Loop\<close> returns nil and that code, and \<open>main\<close>
  returns it whatever \<open>Load\<close> made of it.  The callback's reference is dropped.
\<close>
theorem exit_code_reaches_main:
  assumes "c_int code \<noteq> 0"
    and "run_io = do { _ \<leftarrow> thunk_methods Exit [LNum code]; ret Ok_Ec }"
    and "rt_stack u = [LObj p]" and "0 \<le> le_newref (rt_env u) (rt_reg u)"
  defines "t \<equiv> exec (Loop run_io) u"
  shows "result (Loop run_io) u = Inr 2 \<and> rt_stack t = [LNil, LNum (c_int code)] \<and>
    main_result t r = c_int code \<and> io_stopped t \<and>
    (rt_objs u p ''_tickcallback'' \<noteq> LNil \<longrightarrow> rt_reg t (tickCallback t) = None)"
  using assms unfolding t_def
  by (auto simp: Loop_def Exit_def thunk_methods_def exec_luaL_ref result_luaL_ref lua_prim_defs stop_io_def
      print_stderr_def exec_whenM exec_if result_if main_result_def none_or_nil_def as_integer_def Let_def)

lemma exit_code_reaches_main_witness:
  "main_result (exec (Loop (do { _ \<leftarrow> thunk_methods Exit [LNum 3]; ret Ok_Ec }))
     (sample_runtime\<lparr>rt_stack := [LObj 10]\<rparr>)) 0 = 3"
  using exit_code_reaches_main [of 3 _ "sample_runtime\<lparr>rt_stack := [LObj 10]\<rparr>" 10 0, OF _ refl]
  by (simp add: sample_runtime_def c_int_def)

end
