(* ===== verification/Command_Line.thy ===== *)
theory Command_Line
  imports Prelude
begin

section \<open>The command line (\<^verbatim>\<open>src/luanode.cpp\<close>)\<close>

text \<open>
  What \<^verbatim>\<open>main\<close> does with its arguments: \<^verbatim>\<open>ParseArgs\<close> takes LuaNode's own options out,
  \<^verbatim>\<open>collectargs\<close> checks the options of the Lua interpreter and finds the script, \<^verbatim>\<open>runargs\<close>
  runs the \<^verbatim>\<open>-e\<close> and \<^verbatim>\<open>-l\<close> options, and \<^verbatim>\<open>process.argv\<close> gets what is left.

  \<open>argv\<close> is the array with its terminating null pointer: cells that are \<open>Some\<close> string or
  \<open>None\<close>.  A read beyond the array, or the use of a null pointer as a string, is the result
  \<open>None\<close> of a function.  Running a chunk or a library is the parameter \<open>E\<close>, what \<^verbatim>\<open>ParseArgs\<close>
  does beside reading its arguments (loggers and printed lines) the parameter \<open>A\<close>.
\<close>

type_synonym argv = "string option list"

definition argv_of :: "string list \<Rightarrow> argv" where
  "argv_of xs = map Some xs @ [None]"

definition char_at :: "string \<Rightarrow> nat \<Rightarrow> char" where
  "char_at a k = (if k < length a then a ! k else CHR 0x00)"

subsection \<open>\<^verbatim>\<open>collectargs\<close>\<close>

record arg_flags =
  has_i :: bool
  has_v :: bool
  has_e :: bool

text \<open>The switch on the letter, \<^verbatim>\<open>notail\<close> included: an option with extra characters is bad.\<close>

datatype option_kind = K_Plain | K_Stop | K_Stdin | K_i | K_v | K_e | K_l | K_Bad

definition option_kind :: "string \<Rightarrow> option_kind" where
  "option_kind a = (let tail = char_at a 2 \<noteq> CHR 0x00 in
     if char_at a 0 \<noteq> CHR ''-'' then K_Plain
     else if char_at a 1 = CHR ''-'' then (if tail then K_Bad else K_Stop)
     else if char_at a 1 = CHR 0x00 then K_Stdin
     else if char_at a 1 = CHR ''i'' then (if tail then K_Bad else K_i)
     else if char_at a 1 = CHR ''v'' then (if tail then K_Bad else K_v)
     else if char_at a 1 = CHR ''e'' then K_e
     else if char_at a 1 = CHR ''l'' then K_l
     else K_Bad)"

definition joined :: "string \<Rightarrow> bool" where
  "joined a = (char_at a 2 \<noteq> CHR 0x00)"

function collectargs :: "argv \<Rightarrow> nat \<Rightarrow> arg_flags \<Rightarrow> (int \<times> arg_flags) option" where
  "collectargs argv i fl =
     (if length argv \<le> i then None
      else case argv ! i of
        None \<Rightarrow> Some (0, fl)
      | Some a \<Rightarrow> (case option_kind a of
          K_Plain \<Rightarrow> Some (int i, fl)
        | K_Stop \<Rightarrow>
            (if length argv \<le> i + 1 then None
             else if argv ! (i + 1) \<noteq> None then Some (int (i + 1), fl) else Some (0, fl))
        | K_Stdin \<Rightarrow> Some (int i, fl)
        | K_i \<Rightarrow> collectargs argv (i + 1) (fl\<lparr>has_i := True, has_v := True\<rparr>)
        | K_v \<Rightarrow> collectargs argv (i + 1) (fl\<lparr>has_v := True\<rparr>)
        | K_e \<Rightarrow>
            (if joined a then collectargs argv (i + 1) (fl\<lparr>has_e := True\<rparr>)
             else if length argv \<le> i + 1 then None
             else if argv ! (i + 1) = None then Some (-1, fl\<lparr>has_e := True\<rparr>)
             else collectargs argv (i + 2) (fl\<lparr>has_e := True\<rparr>))
        | K_l \<Rightarrow>
            (if joined a then collectargs argv (i + 1) fl
             else if length argv \<le> i + 1 then None
             else if argv ! (i + 1) = None then Some (-1, fl)
             else collectargs argv (i + 2) fl)
        | K_Bad \<Rightarrow> Some (-1, fl)))"
  by auto
termination by (relation "measure (\<lambda>(argv, i, _). length argv - i)") auto

subsection \<open>\<^verbatim>\<open>runargs\<close>\<close>

datatype arg_action = Do_String string | Do_Library string

text \<open>\<open>operand argv i\<close>: the text after the two letters of an option, or the next argument.\<close>

definition operand :: "argv \<Rightarrow> nat \<Rightarrow> string \<Rightarrow> (string \<times> nat) option" where
  "operand argv i a =
     (if joined a then Some (drop 2 a, i)
      else if length argv \<le> i + 1 then None
      else map_option (\<lambda>b. (b, i + 1)) (argv ! (i + 1)))"

lemma operand_bound: "operand argv i a = Some (b, j) \<Longrightarrow> i \<le> j"
  by (auto simp: operand_def split: if_splits)

function runargs :: "(arg_action \<Rightarrow> ('s, int) state) \<Rightarrow> argv \<Rightarrow> nat \<Rightarrow> nat \<Rightarrow> ('s, int option) state" where
  "runargs E argv n i =
     (if n \<le> i then ret (Some 0)
      else if length argv \<le> i then ret None
      else case argv ! i of
        None \<Rightarrow> runargs E argv n (i + 1)
      | Some a \<Rightarrow>
          if a = [] then ret None
          else if char_at a 1 = CHR ''e'' then
            (case operand argv i a of
               None \<Rightarrow> ret None
             | Some (chunk, j) \<Rightarrow> do {
                 status \<leftarrow> E (Do_String chunk);
                 if status \<noteq> 0 then ret (Some 1) else runargs E argv n (max i j + 1)
               })
          else if char_at a 1 = CHR ''l'' then
            (case operand argv i a of
               None \<Rightarrow> ret None
             | Some (filename, j) \<Rightarrow> do {
                 status \<leftarrow> E (Do_Library filename);
                 if status \<noteq> 0 then ret (Some 1) else runargs E argv n (max i j + 1)
               })
          else runargs E argv n (i + 1))"
  by auto
termination
  by (relation "measure (\<lambda>(_, argv, n, i). n - i)") auto

text \<open>\<open>max i j\<close> is \<open>j\<close>, the index \<^verbatim>\<open>++i\<close> leaves; it makes the termination evident.\<close>

declare collectargs.simps [simp del] runargs.simps [simp del]

subsection \<open>\<^verbatim>\<open>ParseArgs\<close>\<close>

text \<open>
  What it leaves: the changed array, the index and the debug flag.  What it does to the rest of
  the process is done by the handler \<open>A\<close>: a new logger under a name, and the lines it prints.  A
  name that is the null pointer at the end of the array is a fault.
\<close>

record parsed =
  p_argv :: argv
  option_end_index :: nat
  debug_mode :: bool

datatype parse_end = Run parsed | Exit_Success

datatype parse_action = New_Logger string | Print_Version | Print_Usage

function ParseArgs :: "(parse_action \<Rightarrow> ('s, unit) state) \<Rightarrow> nat \<Rightarrow> nat \<Rightarrow> parsed \<Rightarrow> ('s, parse_end option) state" where
  "ParseArgs A argc i p =
     (if argc \<le> i then ret (Some (Run (p\<lparr>option_end_index := i\<rparr>)))
      else if length (p_argv p) \<le> i + 1 then ret None
      else case p_argv p ! i of
        None \<Rightarrow> ret None
      | Some arg \<Rightarrow>
          if take 7 arg = ''--debug'' then
            ParseArgs A argc (i + 1) (p\<lparr>p_argv := (p_argv p)[i := Some []], debug_mode := True\<rparr>)
          else if arg = ''--version'' \<or> arg = ''-v'' then do { A Print_Version; ret (Some Exit_Success) }
          else if arg = ''--vars'' then ret (Some Exit_Success)
          else if arg = ''--help'' \<or> arg = ''-h'' then do { A Print_Usage; ret (Some Exit_Success) }
          else if arg = ''--logname'' then
            (case p_argv p ! (i + 1) of
               None \<Rightarrow> ret None
             | Some app_name \<Rightarrow> do {
                 A (New_Logger app_name);
                 ParseArgs A argc (i + 2) (p\<lparr>p_argv := (p_argv p)[i := Some [], i + 1 := Some []]\<rparr>)
               })
          else if char_at arg 0 \<noteq> CHR ''-'' then ret (Some (Run (p\<lparr>option_end_index := i\<rparr>)))
          else ParseArgs A argc (i + 1) p)"
  by auto
termination by (relation "measure (\<lambda>(_, argc, i, _). argc - i)") auto

declare ParseArgs.simps [simp del]

subsection \<open>Start\<close>

definition parse :: "(parse_action \<Rightarrow> ('s, unit) state) \<Rightarrow> string list \<Rightarrow> ('s, parse_end option) state" where
  "parse A xs = ParseArgs A (length xs) 1 \<lparr>p_argv = argv_of xs, option_end_index = 0, debug_mode = False\<rparr>"

text \<open>\<^verbatim>\<open>process.argv\<close> from index 0 on: the arguments from \<open>option_end_index\<close>.\<close>

definition process_argv :: "nat \<Rightarrow> parsed \<Rightarrow> string option list" where
  "process_argv argc p = drop (option_end_index p) (take argc (p_argv p))"

datatype started = Exited | Usage | Status int "string option list" | Ready "string option list"

text \<open>The head of \<^verbatim>\<open>Load\<close>; \<open>fl\<close> are the uninitialised flags.\<close>

definition start_up :: "(parse_action \<Rightarrow> ('s, unit) state) \<Rightarrow> (arg_action \<Rightarrow> ('s, int) state) \<Rightarrow> arg_flags \<Rightarrow>
    string list \<Rightarrow> ('s, started option) state" where
  "start_up A E fl xs = do {
     e \<leftarrow> parse A xs;
     case e of
       None \<Rightarrow> ret None
     | Some Exit_Success \<Rightarrow> ret (Some Exited)
     | Some (Run p) \<Rightarrow> (case collectargs (p_argv p) 1 fl of
         None \<Rightarrow> ret None
       | Some (script, _) \<Rightarrow>
           if script < 0 then ret (Some Usage)
           else do {
             r \<leftarrow> runargs E (p_argv p) (if 0 < script then nat script else length xs) 1;
             ret (case r of
                 None \<Rightarrow> None
               | Some status \<Rightarrow>
                   if status \<noteq> 0 then Some (Status status (process_argv (length xs) p))
                   else Some (Ready (process_argv (length xs) p)))
           })
   }"

subsection \<open>Reading the arguments safely\<close>

text \<open>
  The array all the loops see: every cell before the last is a string; the last is the null
  pointer.
\<close>

definition terminated :: "argv \<Rightarrow> bool" where
  "terminated argv \<longleftrightarrow> argv \<noteq> [] \<and> (\<forall>j < length argv - 1. argv ! j \<noteq> None) \<and> argv ! (length argv - 1) = None"

lemma terminated_argv_of: "terminated (argv_of xs)"
  by (auto simp: terminated_def argv_of_def nth_append)

lemma char_at_nil [simp]: "char_at [] k = CHR 0x00" "option_kind [] = K_Plain"
  by (simp_all add: char_at_def option_kind_def)

lemma terminated_next:
  assumes "terminated argv" and "i < length argv" and "argv ! i = Some a" and "option_kind a \<noteq> K_Plain"
  shows "i + 1 < length argv" and "argv ! (i + 1) \<noteq> None \<Longrightarrow> i + 2 < length argv"
proof -
  show 1: "i + 1 < length argv"
  proof (rule ccontr)
    assume "\<not> ?thesis"
    then have "i = length argv - 1" using assms(2) by simp
    with assms show False by (simp add: terminated_def)
  qed
  show "i + 2 < length argv" if "argv ! (i + 1) \<noteq> None"
  proof (rule ccontr)
    assume "\<not> ?thesis"
    with 1 have "i + 1 = length argv - 1" by simp
    with that assms(1) show False by (simp add: terminated_def)
  qed
qed

definition good_scan :: "argv \<Rightarrow> nat \<Rightarrow> (int \<times> arg_flags) option \<Rightarrow> bool" where
  "good_scan argv i x \<longleftrightarrow> (\<exists>r fl. x = Some (r, fl) \<and>
     (r = -1 \<or> r = 0 \<or> int i \<le> r \<and> r < int (length argv)))"

lemma good_scan_simps:
  "good_scan argv i (Some (-1, fl))" "good_scan argv i (Some (0, fl))"
  "i < length argv \<Longrightarrow> good_scan argv i (Some (int i, fl))"
  "i + 1 < length argv \<Longrightarrow> good_scan argv i (Some (1 + int i, fl))"
  by (auto simp: good_scan_def)

lemma good_scan_later: "good_scan argv j x \<Longrightarrow> i \<le> j \<Longrightarrow> good_scan argv i x"
  by (auto simp: good_scan_def)

lemma terminated_null:
  assumes "terminated argv" and "j < length argv" and "argv ! j = None"
  shows "j = length argv - 1"
proof (rule ccontr)
  assume "j \<noteq> length argv - 1"
  with assms(2) have "j < length argv - 1" by simp
  with assms(1) have "argv ! j \<noteq> None" unfolding terminated_def by blast
  with assms(3) show False by simp
qed

lemma collectargs_returns:
  assumes "terminated argv" and "i < length argv"
  shows "good_scan argv i (collectargs argv i fl)"
  using assms(2)
proof (induction "length argv - i" arbitrary: i fl rule: less_induct)
  case less
  note eq = collectargs.simps [of argv i fl]
  show ?case
  proof (cases "argv ! i")
    case None
    then show ?thesis using less.prems by (simp add: eq good_scan_simps)
  next
    case (Some a)
    show ?thesis
    proof (cases "option_kind a = K_Plain")
      case True
      then show ?thesis using less.prems Some by (simp add: eq good_scan_simps)
    next
      case False
      note nx = terminated_next [OF assms(1) less.prems Some False]
      have 1: "good_scan argv i (collectargs argv (Suc i) g)" for g
        by (rule good_scan_later [of _ "Suc i"]) (use less.hyps [of "Suc i"] nx(1) in simp_all)
      have 2: "good_scan argv i (collectargs argv (Suc (Suc i)) g)"
        if "argv ! Suc i = Some b" for g b
        by (rule good_scan_later [of _ "Suc (Suc i)"]) (use less.hyps [of "Suc (Suc i)"] nx(2) that in simp_all)
      show ?thesis
        using False Some nx(1) less.prems 1 2
        by (cases "option_kind a"; cases "argv ! Suc i") (simp_all add: eq good_scan_simps)
    qed
  qed
qed

text \<open>
  \<open>runargs\<close> walks the same arguments: as long as it has not reached the end that
  \<open>collectargs\<close> found, both stand on the same option.
\<close>

lemma option_kind_letters:
  "option_kind a = K_e \<Longrightarrow> char_at a 1 = CHR ''e''" "option_kind a = K_l \<Longrightarrow> char_at a 1 = CHR ''l''"
  "option_kind a = K_i \<Longrightarrow> char_at a 1 = CHR ''i''" "option_kind a = K_v \<Longrightarrow> char_at a 1 = CHR ''v''"
  "option_kind a = K_Stop \<Longrightarrow> char_at a 1 = CHR ''-''"
  by (auto simp: option_kind_def Let_def split: if_splits)

lemmas option_letters = option_kind_letters [unfolded One_nat_def]

lemma runargs_stop: "n \<le> i \<Longrightarrow> runargs E argv n i = ret (Some 0)"
  by (simp add: runargs.simps)

lemma runargs_step:
  assumes "i < n" and "i < length argv" and "argv ! i = Some a" and "a \<noteq> []"
  shows "option_kind a \<in> {K_i, K_v, K_Stop} \<Longrightarrow> runargs E argv n i = runargs E argv n (i + 1)"
    and "option_kind a = K_e \<Longrightarrow> operand argv i a = Some (b, j) \<Longrightarrow> runargs E argv n i = do {
       status \<leftarrow> E (Do_String b);
       if status \<noteq> 0 then ret (Some 1) else runargs E argv n (j + 1) }"
    and "option_kind a = K_l \<Longrightarrow> operand argv i a = Some (b, j) \<Longrightarrow> runargs E argv n i = do {
       status \<leftarrow> E (Do_Library b);
       if status \<noteq> 0 then ret (Some 1) else runargs E argv n (j + 1) }"
proof -
  show "option_kind a \<in> {K_i, K_v, K_Stop} \<Longrightarrow> runargs E argv n i = runargs E argv n (i + 1)"
    using assms by (elim insertE emptyE) (simp_all add: runargs.simps [of E argv n i] option_letters)
  have "max i j = j" if "operand argv i a = Some (b, j)"
    using operand_bound [OF that] by simp
  then show "option_kind a = K_e \<Longrightarrow> operand argv i a = Some (b, j) \<Longrightarrow> runargs E argv n i = do {
       status \<leftarrow> E (Do_String b);
       if status \<noteq> 0 then ret (Some 1) else runargs E argv n (j + 1) }"
    "option_kind a = K_l \<Longrightarrow> operand argv i a = Some (b, j) \<Longrightarrow> runargs E argv n i = do {
       status \<leftarrow> E (Do_Library b);
       if status \<noteq> 0 then ret (Some 1) else runargs E argv n (j + 1) }"
    using assms by (simp_all add: runargs.simps [of E argv n i] option_letters cong: if_cong)
qed

lemma runargs_returns:
  assumes "terminated argv" and "0 \<le> r" and "n = (if 0 < r then nat r else length argv - 1)"
    and "collectargs argv i fl = Some (r, fl')" and "0 < i"
  shows "result (runargs E argv n i) s \<noteq> None"
  using assms(4,5)
proof (induction "n - i" arbitrary: i fl s rule: less_induct)
  case less
  note eq = collectargs.simps [of argv i fl]
  show ?case
  proof (cases "n \<le> i")
    case True
    then show ?thesis by (simp add: runargs_stop)
  next
    case False
    have len: "i < length argv"
      using less.prems(1) by (auto simp: eq split: if_splits)
    obtain a where a: "argv ! i = Some a"
    proof (cases "argv ! i")
      case None
      then have "r = 0" using less.prems(1) len by (simp add: eq)
      moreover from None have "i = length argv - 1" by (rule terminated_null [OF assms(1) len])
      ultimately show ?thesis using False assms(3) by simp
    qed
    have dash: "option_kind a \<noteq> K_Plain" "option_kind a \<noteq> K_Stdin" "option_kind a \<noteq> K_Bad"
      using less.prems a len False assms(2,3) by (auto simp: eq)
    then have ne: "a \<noteq> []" by auto
    note nx = terminated_next [OF assms(1) len a dash(1)]
    have IH: "result (runargs E argv n j) s' \<noteq> None"
      if "collectargs argv j g = Some (r, fl')" "i < j" for j g s'
      using less.hyps [of j g s'] that False by simp
    note step = runargs_step [OF _ len a ne, of n]
    show ?thesis
    proof (cases "option_kind a \<in> {K_e, K_l}")
      case True
      obtain g j b where next_op: "operand argv i a = Some (b, j)"
        "collectargs argv (j + 1) g = Some (r, fl')" "i \<le> j"
        using True less.prems(1) a len nx(1) assms(2)
        by (cases "joined a"; cases "argv ! Suc i") (auto simp: eq operand_def)
      then have "result (runargs E argv n (j + 1)) s' \<noteq> None" for s'
        by (intro IH) simp_all
      moreover obtain act where "runargs E argv n i = do {
          status \<leftarrow> E act; if status \<noteq> 0 then ret (Some 1) else runargs E argv n (j + 1) }"
      proof (cases "option_kind a = K_e")
        case True
        then show ?thesis using step(2) [OF _ _ next_op(1), of E] False that by simp
      next
        case l: False
        then have "option_kind a = K_l" using True by simp
        then show ?thesis using step(3) [OF _ _ next_op(1), of E] False that by simp
      qed
      ultimately show ?thesis by (simp add: result_if del: not_None_eq)
    next
      case other: False
      have "result (runargs E argv n (i + 1)) s \<noteq> None"
      proof (cases "option_kind a = K_Stop")
        case True
        then have "n \<le> i + 1"
          using less.prems(1) a len nx(1) assms(3) terminated_null [OF assms(1) nx(1)]
          by (auto simp: eq split: if_splits)
        then show ?thesis by (simp add: runargs_stop)
      next
        case False
        with other dash less.prems(1) a len obtain g where "collectargs argv (i + 1) g = Some (r, fl')"
          by (cases "option_kind a") (auto simp: eq)
        then show ?thesis by (rule IH) simp
      qed
      moreover have "option_kind a \<in> {K_i, K_v, K_Stop}"
        using other dash by (cases "option_kind a") simp_all
      ultimately show ?thesis using step(1) [of E] False by simp
    qed
  qed
qed

subsection \<open>What \<open>ParseArgs\<close> does\<close>

text \<open>
  On the list of the arguments after the program: what is done for each of them in order, and
  how the scan ends.
\<close>

datatype scan_end = Goes_On | Exits | No_Name

fun scan_args :: "string list \<Rightarrow> parse_action list \<times> scan_end" where
  "scan_args [] = ([], Goes_On)"
| "scan_args (a # as) =
     (if take 7 a = ''--debug'' then scan_args as
      else if a = ''--version'' \<or> a = ''-v'' then ([Print_Version], Exits)
      else if a = ''--vars'' then ([], Exits)
      else if a = ''--help'' \<or> a = ''-h'' then ([Print_Usage], Exits)
      else if a = ''--logname'' then
        (case as of
           [] \<Rightarrow> ([], No_Name)
         | name # bs \<Rightarrow> (New_Logger name # fst (scan_args bs), snd (scan_args bs)))
      else if char_at a 0 \<noteq> CHR ''-'' then ([], Goes_On)
      else scan_args as)"

fun perform :: "(parse_action \<Rightarrow> ('s, unit) state) \<Rightarrow> parse_action list \<Rightarrow> ('s, unit) state" where
  "perform A [] = ret ()"
| "perform A (x # xs) = do { A x; perform A xs }"

text \<open>How an end of the loop over the array agrees with one of the list.\<close>

definition parse_ends :: "nat \<Rightarrow> nat \<Rightarrow> argv \<Rightarrow> scan_end \<Rightarrow> parse_end option \<Rightarrow> bool" where
  "parse_ends argc i argv how r \<longleftrightarrow> (case how of
       No_Name \<Rightarrow> r = None
     | Exits \<Rightarrow> r = Some Exit_Success
     | Goes_On \<Rightarrow> (\<exists>q. r = Some (Run q) \<and> terminated (p_argv q) \<and> length (p_argv q) = argc + 1 \<and>
         (\<forall>j < i. p_argv q ! j = argv ! j)))"

lemma parse_ends_later:
  assumes "parse_ends argc k argv' how r" and "i \<le> k" and "\<And>j. j < i \<Longrightarrow> argv' ! j = argv ! j"
  shows "parse_ends argc i argv how r"
  using assms unfolding parse_ends_def by (cases how) (auto intro: less_le_trans)

lemma terminated_blank: "terminated argv \<Longrightarrow> i < length argv - 1 \<Longrightarrow> terminated (argv[i := Some x])"
  unfolding terminated_def by (auto simp: nth_list_update)

lemma drop_cells:
  assumes "drop i xs = y # ys"
  shows "i < length xs" "xs ! i = y" "drop (Suc i) xs = ys"
proof -
  show i: "i < length xs" using assms by (metis drop_all leI list.distinct(1))
  show "xs ! i = y" "drop (Suc i) xs = ys" using assms Cons_nth_drop_Suc [OF i] by simp_all
qed

lemma ParseArgs_scan:
  assumes "terminated (p_argv p)" and "length (p_argv p) = argc + 1" and "drop i (p_argv p) = map Some as @ [None]"
  shows "exec (ParseArgs A argc i p) s = exec (perform A (fst (scan_args as))) s \<and>
    parse_ends argc i (p_argv p) (snd (scan_args as)) (result (ParseArgs A argc i p) s)"
  using assms
proof (induction as arbitrary: i p s rule: scan_args.induct)
  case 1
  have "length (drop i (p_argv p)) = length (map Some ([] :: string list) @ [None])" by (simp only: 1(3))
  then have "argc \<le> i" using 1(2) by simp
  with 1 show ?case by (simp add: ParseArgs.simps [of A argc i] parse_ends_def)
next
  case (2 a as)
  note prems = "2.prems" and IH = "2.IH"
  note eq = ParseArgs.simps [of A argc i p]
  have len: "argc - i = Suc (length as)" using arg_cong [OF prems(3), of length] prems(2) by simp
  then have i: "i < argc" "i + 1 < length (p_argv p)" "i < length (p_argv p) - 1" using prems(2) by simp_all
  have cells: "drop i (p_argv p) = Some a # map Some as @ [None]" using prems(3) by simp
  note at = drop_cells(2) [OF cells] and rest = drop_cells(3) [OF cells]
  have one: "exec (ParseArgs A argc (i + 1) p') s = exec (perform A (fst (scan_args as))) s \<and>
      parse_ends argc i (p_argv p) (snd (scan_args as)) (result (ParseArgs A argc (i + 1) p') s)"
    if IH: "\<And>j q s. terminated (p_argv q) \<Longrightarrow> length (p_argv q) = argc + 1 \<Longrightarrow> drop j (p_argv q) = map Some as @ [None] \<Longrightarrow>
        exec (ParseArgs A argc j q) s = exec (perform A (fst (scan_args as))) s \<and>
        parse_ends argc j (p_argv q) (snd (scan_args as)) (result (ParseArgs A argc j q) s)"
      and p': "p_argv p' = p_argv p \<or> p_argv p' = (p_argv p)[i := Some []]" for p'
  proof -
    have "terminated (p_argv p')" "length (p_argv p') = argc + 1" "drop (i + 1) (p_argv p') = map Some as @ [None]"
      using p' prems(1,2) rest i terminated_blank by auto
    note ih = IH [OF this, of s]
    then have "parse_ends argc i (p_argv p) (snd (scan_args as)) (result (ParseArgs A argc (i + 1) p') s)"
      by (elim conjE parse_ends_later) (use p' in auto)
    with ih show ?thesis by blast
  qed
  show ?case
  proof (cases "take 7 a = ''--debug''")
    case True
    let ?p = "p\<lparr>p_argv := (p_argv p)[i := Some []], debug_mode := True\<rparr>"
    have "ParseArgs A argc i p = ParseArgs A argc (i + 1) ?p" "scan_args (a # as) = scan_args as"
      using i(1,2) True at by (simp_all add: eq)
    moreover have "exec (ParseArgs A argc (i + 1) ?p) s = exec (perform A (fst (scan_args as))) s \<and>
        parse_ends argc i (p_argv p) (snd (scan_args as)) (result (ParseArgs A argc (i + 1) ?p) s)"
      by (intro one IH(1) True) simp_all
    ultimately show ?thesis by (simp only:)
  next
    case no_debug: False
    show ?thesis
    proof (cases "a = ''--logname''")
      case True
      show ?thesis
      proof (cases as)
        case Nil
        then have "p_argv p ! Suc i = None" using rest by (intro drop_cells(2)) simp
        with Nil True at i show ?thesis by (simp add: eq parse_ends_def)
      next
        case (Cons name bs)
        let ?p = "p\<lparr>p_argv := (p_argv p)[i := Some [], i + 1 := Some []]\<rparr>"
        have "drop (Suc i) (p_argv p) = Some name # map Some bs @ [None]" using rest Cons by simp
        note name = drop_cells(2) [OF this] and bs = drop_cells(3) [OF this]
        have "terminated (p_argv ?p)" "length (p_argv ?p) = argc + 1" "drop (i + 2) (p_argv ?p) = map Some bs @ [None]"
          using prems(1,2) bs i len Cons by (auto intro!: terminated_blank)
        note ih = IH(2) [OF _ _ _ _ _ Cons this, of "exec (A (New_Logger name)) s"]
        have step: "exec (ParseArgs A argc (i + 2) ?p) (exec (A (New_Logger name)) s) =
              exec (perform A (fst (scan_args bs))) (exec (A (New_Logger name)) s)"
          "parse_ends argc (i + 2) (p_argv ?p) (snd (scan_args bs))
            (result (ParseArgs A argc (i + 2) ?p) (exec (A (New_Logger name)) s))"
          using ih True by simp_all
        from step(2) have "parse_ends argc i (p_argv p) (snd (scan_args bs))
            (result (ParseArgs A argc (i + 2) ?p) (exec (A (New_Logger name)) s))"
          by (rule parse_ends_later) simp_all
        with step(1) show ?thesis using True at i name Cons by (simp add: eq)
      qed
    next
      case no_name: False
      show ?thesis
      proof (cases "a \<in> {''--version'', ''-v'', ''--vars'', ''--help'', ''-h''} \<or> char_at a 0 \<noteq> CHR ''-''")
        case True
        then show ?thesis using no_debug no_name at i prems(1,2) by (auto simp: eq parse_ends_def char_at_def)
      next
        case False
        then have "exec (ParseArgs A argc (i + 1) p) s = exec (perform A (fst (scan_args as))) s \<and>
            parse_ends argc i (p_argv p) (snd (scan_args as)) (result (ParseArgs A argc (i + 1) p) s)"
          using no_debug no_name by (intro one IH(4)) simp_all
        with False show ?thesis using no_debug no_name at i by (simp add: eq)
      qed
    qed
  qed
qed

lemma parse_scan:
  assumes "xs \<noteq> []"
  shows "exec (parse A xs) s = exec (perform A (fst (scan_args (tl xs)))) s"
    and "parse_ends (length xs) 1 (argv_of xs) (snd (scan_args (tl xs))) (result (parse A xs) s)"
proof -
  obtain x as where xs: "xs = x # as" using assms by (cases xs) auto
  have "drop 1 (argv_of xs) = map Some (tl xs) @ [None]" by (simp add: xs argv_of_def)
  from ParseArgs_scan [of "\<lparr>p_argv = argv_of xs, option_end_index = 0, debug_mode = False\<rparr>" "length xs" 1 "tl xs" A s]
  show "exec (parse A xs) s = exec (perform A (fst (scan_args (tl xs)))) s"
    and "parse_ends (length xs) 1 (argv_of xs) (snd (scan_args (tl xs))) (result (parse A xs) s)"
    using terminated_argv_of [of xs] \<open>drop 1 _ = _\<close> by (simp_all add: parse_def argv_of_def)
qed

subsection \<open>Properties\<close>

text \<open>
  C22: The start reads only the cells of the argument array and never takes its null pointer for a
  string, that is, \<open>ParseArgs\<close>, \<open>collectargs\<close> and \<open>runargs\<close> all return, exactly unless there is no
  argument at all, where it reads behind the terminator, or \<open>ParseArgs\<close> finds \<^verbatim>\<open>--logname\<close> as the
  last argument, where it takes the null pointer for the name of the log.
\<close>
theorem start_up_reads_inside:
  "result (start_up A E fl xs) s = None \<longleftrightarrow> xs = [] \<or> snd (scan_args (tl xs)) = No_Name"
proof (cases "xs = []")
  case True
  then show ?thesis by (simp add: start_up_def parse_def ParseArgs.simps collectargs.simps argv_of_def)
next
  case False
  note ends = parse_scan(2) [OF False, of A s]
  show ?thesis
  proof (cases "snd (scan_args (tl xs))")
    case Goes_On
    then obtain q where q: "result (parse A xs) s = Some (Run q)" "terminated (p_argv q)" "length (p_argv q) = length xs + 1"
      using ends by (auto simp: parse_ends_def)
    have "good_scan (p_argv q) 1 (collectargs (p_argv q) 1 fl)"
      by (rule collectargs_returns) (use q False in simp_all)
    then obtain r fl' where c: "collectargs (p_argv q) 1 fl = Some (r, fl')" by (auto simp: good_scan_def)
    define n where "n = (if 0 < r then nat r else length xs)"
    show ?thesis
    proof (cases "r < 0")
      case True
      then show ?thesis using False Goes_On q(1) c by (simp add: start_up_def)
    next
      case r: False
      then have "result (runargs E (p_argv q) n 1) (exec (parse A xs) s) \<noteq> None"
        by (intro runargs_returns [OF q(2) _ _ c]) (simp_all add: q(3) n_def)
      then obtain y where "result (runargs E (p_argv q) n 1) (exec (parse A xs) s) = Some y" by blast
      then show ?thesis using False Goes_On q(1) c r by (simp add: start_up_def n_def [symmetric])
    qed
  qed (use False ends in \<open>simp_all add: start_up_def parse_ends_def\<close>)
qed

definition no_flags :: arg_flags where
  "no_flags = \<lparr>has_i = False, has_v = False, has_e = False\<rparr>"

text \<open>
  The two scans disagree about where the script is.  After \<^verbatim>\<open>-e stat\<close> the first index that
  \<open>ParseArgs\<close> does not skip is the statement itself, so \<^verbatim>\<open>process.argv[0]\<close>, which
  \<^verbatim>\<open>node.lua\<close> runs as the script, is the text of the statement that \<open>runargs\<close> has just run.
\<close>
theorem statement_taken_for_script:
  assumes "\<And>s. result (E (Do_String stat)) s = 0"
    and "char_at stat 0 \<noteq> CHR ''-''" and "char_at script 0 \<noteq> CHR ''-''"
  shows "result (start_up A E fl [prog, ''-e'', stat, script]) s = Some (Ready [Some stat, Some script]) \<and>
    exec (start_up A E fl [prog, ''-e'', stat, script]) s = exec (E (Do_String stat)) s"
proof -
  have dash: "x \<noteq> CHR ''-'' # xs" if "char_at x 0 \<noteq> CHR ''-''" for x xs
    using that by (auto simp: char_at_def)
  have "take 7 stat \<noteq> ''--debug''"
    using dash [OF assms(2)] by (metis append_Cons append_take_drop_id)
  then have p: "parse A [prog, ''-e'', stat, script] = ret (Some (Run \<lparr>p_argv = argv_of [prog, ''-e'', stat, script],
      option_end_index = 2, debug_mode = False\<rparr>))"
    using assms(2) by (simp add: parse_def ParseArgs.simps argv_of_def dash char_at_def [of "''-e''"] numeral_2_eq_2)
  have kind: "option_kind ''-e'' = K_e" "\<not> joined ''-e''"
    by (simp_all add: option_kind_def joined_def char_at_def)
  have c: "collectargs (argv_of [prog, ''-e'', stat, script]) (Suc 0) fl = Some (3, fl\<lparr>has_e := True\<rparr>)"
    using assms(3) by (simp add: collectargs.simps argv_of_def kind option_kind_def [of script] Let_def)
  have r: "runargs E (argv_of [prog, ''-e'', stat, script]) 3 (Suc 0) = do {
      status \<leftarrow> E (Do_String stat);
      if status \<noteq> 0 then ret (Some 1) else ret (Some 0) }"
    by (simp add: runargs.simps [of _ _ _ "Suc 0"] runargs_stop argv_of_def operand_def kind
        char_at_def [of "''-e''"] cong: if_cong)
  show ?thesis
    using assms(1) by (simp add: start_up_def p c r exec_if result_if process_argv_def) (simp add: argv_of_def)
qed

lemma statement_taken_for_script_witness:
  "result (start_up (\<lambda>_. ret ()) (\<lambda>_. ret 0) no_flags [''luanode'', ''-e'', ''x=1'', ''s.lua'']) () =
     Some (Ready [Some ''x=1'', Some ''s.lua''])"
  using statement_taken_for_script [of "\<lambda>_. ret 0" "''x=1''" "''s.lua''" "\<lambda>_. ret ()" no_flags "''luanode''" "()"]
  by (simp add: char_at_def)

text \<open>
  \<^verbatim>\<open>--debug\<close> as the first argument switches the interpreter's own options off: it is blanked
  in the array, \<open>collectargs\<close> takes the blank for the script, and whatever \<^verbatim>\<open>-e\<close> or \<^verbatim>\<open>-l\<close>
  follows is neither run nor reported; only LuaNode's own options still do what they do.
\<close>
theorem debug_option_hides_statements:
  assumes "take 7 dbg = ''--debug''"
  shows "exec (start_up A E fl (prog # dbg # rest)) s = exec (perform A (fst (scan_args rest))) s \<and>
    result (start_up A E fl (prog # dbg # rest)) s \<noteq> Some Usage"
proof -
  let ?xs = "prog # dbg # rest"
  let ?p = "\<lparr>p_argv = (argv_of ?xs)[1 := Some []], option_end_index = 0, debug_mode = True\<rparr>"
  let ?n = "length ?xs"
  have "terminated (p_argv ?p)" using terminated_blank [OF terminated_argv_of [of ?xs], of 1] by (simp add: argv_of_def)
  moreover have "drop 2 (p_argv ?p) = map Some rest @ [None]" by (simp add: argv_of_def numeral_2_eq_2)
  ultimately have scan: "exec (ParseArgs A ?n 2 ?p) s = exec (perform A (fst (scan_args rest))) s"
    "parse_ends ?n 2 (p_argv ?p) (snd (scan_args rest)) (result (ParseArgs A ?n 2 ?p) s)"
    using ParseArgs_scan [of ?p ?n 2 rest A s] by (simp_all add: argv_of_def)
  have parse: "parse A ?xs = ParseArgs A ?n 2 ?p"
    using assms by (simp add: parse_def ParseArgs.simps [of _ _ "Suc 0"] argv_of_def numeral_2_eq_2)
  show ?thesis
  proof (cases "snd (scan_args rest)")
    case Goes_On
    then obtain q where q: "result (ParseArgs A ?n 2 ?p) s = Some (Run q)" "p_argv q ! 1 = Some []" "length (p_argv q) = ?n + 1"
      using scan(2) by (auto simp: parse_ends_def argv_of_def)
    then have "collectargs (p_argv q) 1 fl = Some (1, fl)" by (simp add: collectargs.simps)
    with q(1) scan(1) show ?thesis by (simp add: start_up_def parse runargs_stop)
  qed (use scan in \<open>simp_all add: start_up_def parse parse_ends_def\<close>)
qed

lemma debug_option_hides_statements_witness:
  "exec (start_up (\<lambda>_. ret ()) (\<lambda>a. do { modify (\<lambda>l. l @ [a]); ret 0 }) no_flags
     [''luanode'', ''--debug'', ''-e'', ''x=1'']) [] = []"
  using debug_option_hides_statements [where dbg = "''--debug''" and prog = "''luanode''"
      and rest = "[''-e'', ''x=1'']" and fl = no_flags and s = "[]" and A = "\<lambda>_. ret ()"
      and E = "\<lambda>a. do { modify (\<lambda>l. l @ [a]); ret 0 }"] by (simp add: char_at_def)

text \<open>Options as they are written: with the operand apart or joined to the letter.\<close>

datatype lua_opt = Opt_e string | Opt_l string | Opt_e_joined string | Opt_l_joined string | Opt_v | Opt_i

fun render :: "lua_opt \<Rightarrow> string list" where
  "render (Opt_e x) = [''-e'', x]"
| "render (Opt_l x) = [''-l'', x]"
| "render (Opt_e_joined x) = [''-e'' @ x]"
| "render (Opt_l_joined x) = [''-l'' @ x]"
| "render Opt_v = [''-v'']"
| "render Opt_i = [''-i'']"

fun well_written :: "lua_opt \<Rightarrow> bool" where
  "well_written (Opt_e_joined x) = (char_at x 0 \<noteq> CHR 0x00)"
| "well_written (Opt_l_joined x) = (char_at x 0 \<noteq> CHR 0x00)"
| "well_written _ = True"

fun opt_action :: "lua_opt \<Rightarrow> arg_action list" where
  "opt_action (Opt_e x) = [Do_String x]"
| "opt_action (Opt_l x) = [Do_Library x]"
| "opt_action (Opt_e_joined x) = [Do_String x]"
| "opt_action (Opt_l_joined x) = [Do_Library x]"
| "opt_action _ = []"

fun run_all :: "(arg_action \<Rightarrow> ('s, int) state) \<Rightarrow> arg_action list \<Rightarrow> ('s, int option) state" where
  "run_all E [] = ret (Some 0)"
| "run_all E (a # as) = do {
     status \<leftarrow> E a;
     if status \<noteq> 0 then ret (Some 1) else run_all E as
   }"

lemma char_at_Cons [simp]: "char_at (c # x) (Suc k) = char_at x k" "char_at (c # x) 0 = c"
  by (simp_all add: char_at_def)

lemma option_kinds [simp]:
  "option_kind (CHR ''-'' # CHR ''e'' # x) = K_e" "option_kind (CHR ''-'' # CHR ''l'' # x) = K_l"
  "option_kind ''-v'' = K_v" "option_kind ''-i'' = K_i"
  "joined (c # d # x) = (char_at x 0 \<noteq> CHR 0x00)"
  by (simp_all add: option_kind_def joined_def numeral_2_eq_2)

lemma scan_options:
  assumes "list_all well_written opts" and "char_at script 0 \<noteq> CHR ''-''"
    and "argv = pre @ map Some (concat (map render opts) @ script # rest) @ [None]"
    and "n = length pre + length (concat (map render opts))"
  shows "(\<exists>fl'. collectargs argv (length pre) fl = Some (int n, fl')) \<and>
    runargs E argv n (length pre) = run_all E (concat (map opt_action opts))"
  using assms
proof (induction opts arbitrary: pre fl)
  case Nil
  then show ?case
    by (simp add: collectargs.simps [of _ "length pre"] option_kind_def Let_def runargs_stop)
next
  case (Cons x opts)
  have IH: "(\<exists>fl'. collectargs argv (length q) g = Some (int n, fl')) \<and>
      runargs E argv n (length q) = run_all E (concat (map opt_action opts))"
    if "q = pre @ map Some (render x)" for q g
    by (rule Cons.IH) (use that Cons.prems in simp_all)
  have IH1: "(\<exists>fl'. collectargs argv (Suc (length pre)) g = Some (int n, fl')) \<and>
      runargs E argv n (Suc (length pre)) = run_all E (concat (map opt_action opts))"
    if "length (render x) = 1" for g
    using IH [of "pre @ map Some (render x)" g] that by simp
  have IH2: "(\<exists>fl'. collectargs argv (Suc (Suc (length pre))) g = Some (int n, fl')) \<and>
      runargs E argv n (Suc (Suc (length pre))) = run_all E (concat (map opt_action opts))"
    if "length (render x) = 2" for g
    using IH [of "pre @ map Some (render x)" g] that by simp
  have at: "argv ! length pre = Some (hd (render x))"
    "length (render x) = 2 \<Longrightarrow> argv ! Suc (length pre) = Some (render x ! 1)"
    using Cons.prems(3) by (cases x; simp add: nth_append)+
  have len: "length pre + length (render x) < length argv"
    using Cons.prems(3) by (cases x) simp_all
  have n: "length pre + length (render x) \<le> n" using Cons.prems(4) by simp
  note eq = collectargs.simps [of argv "length pre"] runargs.simps [of E argv n "length pre"]
  show ?case
    using IH1 IH2 at len n Cons.prems(1)
    by (cases x) (simp_all add: eq operand_def cong: if_cong)
qed

text \<open>
  C29: The interpreter's options run in the order in which they are written, each once, until
  one fails, and the script is the first argument after them, whether an operand is joined to
  its letter or stands apart.
\<close>
theorem options_run_in_order:
  assumes "list_all well_written opts" and "char_at script 0 \<noteq> CHR ''-''"
    and "argv = argv_of (prog # concat (map render opts) @ script # rest)"
    and "n = 1 + length (concat (map render opts))"
  shows "(\<exists>fl'. collectargs argv 1 fl = Some (int n, fl')) \<and>
    runargs E argv n 1 = run_all E (concat (map opt_action opts))"
  using scan_options [OF assms(1,2), of argv "[Some prog]" rest n fl E] assms(3,4)
  by (simp add: argv_of_def)

lemma options_run_in_order_witness:
  "runargs (\<lambda>a. do { modify (\<lambda>l. l @ [a]); ret 0 })
     (argv_of [''luanode'', ''-lsocket'', ''-e'', ''x=1'', ''-v'', ''s.lua'', ''arg'']) 5 1 =
   run_all (\<lambda>a. do { modify (\<lambda>l. l @ [a]); ret 0 }) [Do_Library ''socket'', Do_String ''x=1'']"
  using options_run_in_order [where opts = "[Opt_l_joined ''socket'', Opt_e ''x=1'', Opt_v]"
      and script = "''s.lua''" and prog = "''luanode''" and rest = "[''arg'']" and n = 5 and fl = no_flags
      and E = "\<lambda>a. do { modify (\<lambda>l. l @ [a]); ret 0 }", OF _ _ refl]
  by (simp add: char_at_def)

subsection \<open>Running the options as an interface\<close>

text \<open>
  What \<open>runargs\<close> needs to know of the action it runs: \<open>R p status q\<close>, the contract of one
  action, composes over actions that succeed, and the status of a failure does not matter.
  Then the contract holds of the whole run; a run that stops in a fault has only had successes.
\<close>

locale chunk_runner =
  fixes E :: "arg_action \<Rightarrow> ('s, int) state"
    and R :: "'s \<Rightarrow> int \<Rightarrow> 's \<Rightarrow> bool"
  assumes idle: "R p 0 p"
    and compose: "R p 0 q \<Longrightarrow> R q status t \<Longrightarrow> R p status t"
    and failure: "R p k q \<Longrightarrow> k \<noteq> 0 \<Longrightarrow> R p 1 q"
    and action: "R p (result (E a) p) (exec (E a) p)"
begin

lemma run_then:
  assumes "\<And>q. R q (case result rest q of None \<Rightarrow> 0 | Some st \<Rightarrow> st) (exec rest q)"
    and "m = do { status \<leftarrow> E a; if status \<noteq> 0 then ret (Some 1) else rest }"
  shows "R p (case result m p of None \<Rightarrow> 0 | Some st \<Rightarrow> st) (exec m p)"
proof (cases "result (E a) p = 0")
  case True
  then have "R p 0 (exec (E a) p)" using action [of p a] by simp
  then show ?thesis using compose assms True by simp
next
  case False
  then show ?thesis using failure [OF action False] assms(2) by simp
qed

lemma run_arguments:
  "R p (case result (runargs E argv n i) p of None \<Rightarrow> 0 | Some st \<Rightarrow> st) (exec (runargs E argv n i) p)"
proof (induction "n - i" arbitrary: i p rule: less_induct)
  case less
  note eq = runargs.simps [of E argv n i]
  have IH: "R q (case result (runargs E argv n j) q of None \<Rightarrow> 0 | Some st \<Rightarrow> st) (exec (runargs E argv n j) q)"
    if "i < j" "i < n" for j q
    by (rule less.hyps) (use that in simp)
  show ?case
  proof (cases "n \<le> i \<or> length argv \<le> i \<or> argv ! i = None \<or> argv ! i = Some []")
    case True
    then show ?thesis using IH [of "i + 1" p] by (auto simp: eq idle)
  next
    case False
    then obtain a where a: "\<not> n \<le> i" "\<not> length argv \<le> i" "argv ! i = Some a" "a \<noteq> []" by auto
    have option: "R p (case result m p of None \<Rightarrow> 0 | Some st \<Rightarrow> st) (exec m p)"
      if "m = do { status \<leftarrow> E act; if status \<noteq> 0 then ret (Some 1) else runargs E argv n (max i j + 1) }"
      for m act j
      by (rule run_then [OF _ that]) (use IH a in simp)
    show ?thesis
      using a IH [of "i + 1" p]
      by (cases "operand argv i a")
        (auto simp: eq [unfolded One_nat_def] idle intro!: option [unfolded One_nat_def])
  qed
qed

lemma run_status:
  "result (runargs E argv n i) p = Some status \<Longrightarrow> R p status (exec (runargs E argv n i) p)"
  using run_arguments [of p argv n i] by simp

end

end
