(* ===== verification/Http_Parser.thy ===== *)
theory Http_Parser
  imports Prelude
begin

section \<open>The HTTP parser (\<^verbatim>\<open>deps/http-parser/http_parser.c\<close>, \<^verbatim>\<open>http_parser.h\<close>)\<close>

text \<open>
  The byte machine behind LuaNode's HTTP servers and clients, in strict mode, as the sources
  build it.  \<open>switch\<close> is the big \<^verbatim>\<open>switch\<close> of \<^verbatim>\<open>http_parser_execute\<close>: from the parser and the
  current byte it gives the new parser, the macros the case runs (\<open>effect\<close>: set a mark, run a
  callback, skip body bytes) and how the case ends (\<open>ending\<close>).  In every case of the source the
  parser is only changed before the first callback, so the order of the parts is the source's.
  \<open>run_effects\<close> is the meaning of the macros, \<open>reexecute_byte\<close> the label of that name and
  \<open>parse_loop\<close> the loop over the input.

  Callbacks are functions from the parser and an environment to their answer, the parser as
  they leave it, and the environment.  A failed \<^verbatim>\<open>assert\<close> and a read behind a C string are
  results of their own, so that their absence is a theorem and not an assumption.
\<close>

subsection \<open>Characters and tables\<close>

definition NUL :: char where "NUL = CHR 0x00"
definition CR :: char where "CR = CHR 0x0D"
definition LF :: char where "LF = CHR 0x0A"
definition TAB :: char where "TAB = CHR 0x09"
definition FF :: char where "FF = CHR 0x0C"

definition ord :: "char \<Rightarrow> nat" where "ord c = of_char c"

definition LOWER :: "char \<Rightarrow> char" where "LOWER c = char_of (or (ord c) 32)"
definition IS_ALPHA :: "char \<Rightarrow> bool" where
  "IS_ALPHA c = (ord CHR ''a'' \<le> ord (LOWER c) \<and> ord (LOWER c) \<le> ord CHR ''z'')"
definition IS_NUM :: "char \<Rightarrow> bool" where "IS_NUM c = (48 \<le> ord c \<and> ord c \<le> 57)"
definition IS_ALPHANUM :: "char \<Rightarrow> bool" where "IS_ALPHANUM c = (IS_ALPHA c \<or> IS_NUM c)"
definition IS_HEX :: "char \<Rightarrow> bool" where
  "IS_HEX c = (IS_NUM c \<or> ord CHR ''a'' \<le> ord (LOWER c) \<and> ord (LOWER c) \<le> ord CHR ''f'')"
definition IS_MARK :: "char \<Rightarrow> bool" where
  "IS_MARK c = (c \<in> {CHR ''-'', CHR ''_'', CHR ''.'', CHR ''!'', CHR ''~'', CHR ''*'', CHR 0x27,
     CHR ''('', CHR '')''})"
definition IS_USERINFO_CHAR :: "char \<Rightarrow> bool" where
  "IS_USERINFO_CHAR c = (IS_ALPHANUM c \<or> IS_MARK c \<or>
     c \<in> {CHR ''%'', CHR '';'', CHR '':'', CHR ''&'', CHR ''='', CHR ''+'', CHR ''$'', CHR '',''})"
definition IS_HOST_CHAR :: "char \<Rightarrow> bool" where
  "IS_HOST_CHAR c = (IS_ALPHANUM c \<or> c = CHR ''.'' \<or> c = CHR ''-'')"

definition digit :: "char \<Rightarrow> nat" where "digit c = ord c - 48"

text \<open>The number a string of digits spells.\<close>

definition decimal :: "string \<Rightarrow> nat" where
  "decimal ds = foldl (\<lambda>n c. n * 10 + digit c) 0 ds"

text \<open>The tables have 256 entries (32 for the bit set); what the initialisers leave out is 0.\<close>

definition tokens :: string where
  "tokens = replicate 33 NUL @ ''!'' @ [NUL] @ ''#$%&'' @ [CHR 0x27] @ replicate 2 NUL @ ''*+'' @
     [NUL] @ ''-.'' @ [NUL] @ ''0123456789'' @ replicate 7 NUL @ ''abcdefghijklmnopqrstuvwxyz'' @
     replicate 3 NUL @ ''^_`abcdefghijklmnopqrstuvwxyz'' @ [NUL] @ ''|'' @ [NUL] @ ''~'' @ [NUL] @
     replicate 128 NUL"

definition TOKEN :: "char \<Rightarrow> char" where "TOKEN c = tokens ! ord c"

definition unhex :: "int list" where
  "unhex = replicate 48 (-1) @ [0, 1, 2, 3, 4, 5, 6, 7, 8, 9] @ replicate 7 (-1) @
     [10, 11, 12, 13, 14, 15] @ replicate 26 (-1) @ [10, 11, 12, 13, 14, 15] @ replicate 25 (-1) @
     replicate 128 0"

definition normal_url_char :: "nat list" where
  "normal_url_char = [0, 0, 0, 0, 2 + 4 + 16 + 32 + 64 + 128, 255, 255, 127,
     255, 255, 255, 255, 255, 255, 255, 127] @ replicate 16 0"

definition BIT_AT :: "nat list \<Rightarrow> nat \<Rightarrow> bool" where
  "BIT_AT a i = bit (a ! (i div 8)) (i mod 8)"

definition IS_URL_CHAR :: "char \<Rightarrow> bool" where "IS_URL_CHAR c = BIT_AT normal_url_char (ord c)"

subsection \<open>Enumerations\<close>

datatype http_method =
    HTTP_DELETE | HTTP_GET | HTTP_HEAD | HTTP_POST | HTTP_PUT
  | HTTP_CONNECT | HTTP_OPTIONS | HTTP_TRACE
  | HTTP_COPY | HTTP_LOCK | HTTP_MKCOL | HTTP_MOVE | HTTP_PROPFIND | HTTP_PROPPATCH
  | HTTP_SEARCH | HTTP_UNLOCK
  | HTTP_REPORT | HTTP_MKACTIVITY | HTTP_CHECKOUT | HTTP_MERGE
  | HTTP_MSEARCH | HTTP_NOTIFY | HTTP_SUBSCRIBE | HTTP_UNSUBSCRIBE
  | HTTP_PATCH | HTTP_PURGE

fun method_string :: "http_method \<Rightarrow> string" where
  "method_string HTTP_DELETE = ''DELETE''"
| "method_string HTTP_GET = ''GET''"
| "method_string HTTP_HEAD = ''HEAD''"
| "method_string HTTP_POST = ''POST''"
| "method_string HTTP_PUT = ''PUT''"
| "method_string HTTP_CONNECT = ''CONNECT''"
| "method_string HTTP_OPTIONS = ''OPTIONS''"
| "method_string HTTP_TRACE = ''TRACE''"
| "method_string HTTP_COPY = ''COPY''"
| "method_string HTTP_LOCK = ''LOCK''"
| "method_string HTTP_MKCOL = ''MKCOL''"
| "method_string HTTP_MOVE = ''MOVE''"
| "method_string HTTP_PROPFIND = ''PROPFIND''"
| "method_string HTTP_PROPPATCH = ''PROPPATCH''"
| "method_string HTTP_SEARCH = ''SEARCH''"
| "method_string HTTP_UNLOCK = ''UNLOCK''"
| "method_string HTTP_REPORT = ''REPORT''"
| "method_string HTTP_MKACTIVITY = ''MKACTIVITY''"
| "method_string HTTP_CHECKOUT = ''CHECKOUT''"
| "method_string HTTP_MERGE = ''MERGE''"
| "method_string HTTP_MSEARCH = ''M-SEARCH''"
| "method_string HTTP_NOTIFY = ''NOTIFY''"
| "method_string HTTP_SUBSCRIBE = ''SUBSCRIBE''"
| "method_string HTTP_UNSUBSCRIBE = ''UNSUBSCRIBE''"
| "method_string HTTP_PATCH = ''PATCH''"
| "method_string HTTP_PURGE = ''PURGE''"

datatype http_parser_type = HTTP_REQUEST | HTTP_RESPONSE | HTTP_BOTH

datatype flag =
    F_CHUNKED | F_CONNECTION_KEEP_ALIVE | F_CONNECTION_CLOSE | F_TRAILING | F_UPGRADE | F_SKIPBODY

datatype http_errno =
    HPE_OK
  | HPE_CB_message_begin | HPE_CB_status_complete | HPE_CB_url | HPE_CB_header_field
  | HPE_CB_header_value | HPE_CB_headers_complete | HPE_CB_body | HPE_CB_message_complete
  | HPE_INVALID_EOF_STATE | HPE_HEADER_OVERFLOW | HPE_CLOSED_CONNECTION | HPE_INVALID_VERSION
  | HPE_INVALID_STATUS | HPE_INVALID_METHOD | HPE_INVALID_URL | HPE_INVALID_HOST
  | HPE_INVALID_PORT | HPE_INVALID_PATH | HPE_INVALID_QUERY_STRING | HPE_INVALID_FRAGMENT
  | HPE_LF_EXPECTED | HPE_INVALID_HEADER_TOKEN | HPE_INVALID_CONTENT_LENGTH
  | HPE_INVALID_CHUNK_SIZE | HPE_INVALID_CONSTANT | HPE_INVALID_INTERNAL_STATE | HPE_STRICT
  | HPE_PAUSED | HPE_UNKNOWN

datatype pstate =
    s_dead
  | s_start_req_or_res | s_res_or_resp_H | s_start_res | s_res_H | s_res_HT | s_res_HTT
  | s_res_HTTP | s_res_first_http_major | s_res_http_major | s_res_first_http_minor
  | s_res_http_minor | s_res_first_status_code | s_res_status_code | s_res_status
  | s_res_line_almost_done
  | s_start_req
  | s_req_method | s_req_spaces_before_url | s_req_schema | s_req_schema_slash
  | s_req_schema_slash_slash | s_req_server_start | s_req_server | s_req_server_with_at
  | s_req_path | s_req_query_string_start | s_req_query_string | s_req_fragment_start
  | s_req_fragment | s_req_http_start | s_req_http_H | s_req_http_HT | s_req_http_HTT
  | s_req_http_HTTP | s_req_first_http_major | s_req_http_major | s_req_first_http_minor
  | s_req_http_minor | s_req_line_almost_done
  | s_header_field_start | s_header_field | s_header_value_start | s_header_value
  | s_header_value_lws | s_header_almost_done
  | s_chunk_size_start | s_chunk_size | s_chunk_parameters | s_chunk_size_almost_done
  | s_headers_almost_done | s_headers_done
  | s_chunk_data | s_chunk_data_almost_done | s_chunk_data_done
  | s_body_identity | s_body_identity_eof
  | s_message_done

definition PARSING_HEADER :: "pstate \<Rightarrow> bool" where
  "PARSING_HEADER s = (s \<notin> {s_chunk_data, s_chunk_data_almost_done, s_chunk_data_done,
     s_body_identity, s_body_identity_eof, s_message_done})"

datatype header_states =
    h_general | h_C | h_CO | h_CON
  | h_matching_connection | h_matching_proxy_connection | h_matching_content_length
  | h_matching_transfer_encoding | h_matching_upgrade
  | h_connection | h_content_length | h_transfer_encoding | h_upgrade
  | h_matching_transfer_encoding_chunked | h_matching_connection_keep_alive
  | h_matching_connection_close
  | h_transfer_encoding_chunked | h_connection_keep_alive | h_connection_close

subsection \<open>State\<close>

text \<open>
  The struct.  The bit field of flags is the set of the flags that are on; the small counters
  are numbers with their wrap-around written out.
\<close>

record http_parser =
  hp_type :: http_parser_type
  hp_flags :: "flag set"
  hp_state :: pstate
  hp_header_state :: header_states
  hp_index :: nat
  hp_nread :: "32 word"
  hp_content_length :: "64 word"
  hp_http_major :: nat
  hp_http_minor :: nat
  hp_status_code :: nat
  hp_method :: http_method
  hp_errno :: http_errno
  hp_upgrade :: bool

definition ULLONG_MAX :: "64 word" where "ULLONG_MAX = -1"
definition HTTP_MAX_HEADER_SIZE :: "32 word" where "HTTP_MAX_HEADER_SIZE = 80 * 1024"

definition uchar :: "nat \<Rightarrow> nat" where "uchar n = n mod 256"
definition ushort :: "nat \<Rightarrow> nat" where "ushort n = n mod 65536"

definition http_parser_init :: "http_parser_type \<Rightarrow> http_parser" where
  "http_parser_init t = \<lparr>hp_type = t, hp_flags = {},
     hp_state = (if t = HTTP_REQUEST then s_start_req
       else if t = HTTP_RESPONSE then s_start_res else s_start_req_or_res),
     hp_header_state = h_general, hp_index = 0, hp_nread = 0, hp_content_length = 0,
     hp_http_major = 0, hp_http_minor = 0, hp_status_code = 0, hp_method = HTTP_DELETE,
     hp_errno = HPE_OK, hp_upgrade = False\<rparr>"

definition http_message_needs_eof :: "http_parser \<Rightarrow> bool" where
  "http_message_needs_eof p =
     (if hp_type p = HTTP_REQUEST then False
      else if hp_status_code p div 100 = 1 \<or> hp_status_code p = 204 \<or> hp_status_code p = 304 \<or>
        F_SKIPBODY \<in> hp_flags p then False
      else if F_CHUNKED \<in> hp_flags p \<or> hp_content_length p \<noteq> ULLONG_MAX then False
      else True)"

definition http_should_keep_alive :: "http_parser \<Rightarrow> bool" where
  "http_should_keep_alive p =
     (if 0 < hp_http_major p \<and> 0 < hp_http_minor p then
        (if F_CONNECTION_CLOSE \<in> hp_flags p then False else \<not> http_message_needs_eof p)
      else
        (if F_CONNECTION_KEEP_ALIVE \<notin> hp_flags p then False else \<not> http_message_needs_eof p))"

definition http_method_str :: "http_method \<Rightarrow> string" where "http_method_str m = method_string m"

definition start_state :: "http_parser \<Rightarrow> pstate" where
  "start_state p = (if hp_type p = HTTP_REQUEST then s_start_req else s_start_res)"

definition NEW_MESSAGE :: "http_parser \<Rightarrow> pstate" where
  "NEW_MESSAGE p = (if http_should_keep_alive p then start_state p else s_dead)"

definition http_parser_pause :: "bool \<Rightarrow> http_parser \<Rightarrow> http_parser" where
  "http_parser_pause paused p =
     (if hp_errno p = HPE_OK \<or> hp_errno p = HPE_PAUSED
      then p\<lparr>hp_errno := (if paused then HPE_PAUSED else HPE_OK)\<rparr> else p)"

definition http_body_is_final :: "http_parser \<Rightarrow> bool" where
  "http_body_is_final p = (hp_state p = s_message_done)"

subsection \<open>URL characters\<close>

definition parse_server_char :: "char \<Rightarrow> pstate" where
  "parse_server_char ch =
     (if ch = CHR ''/'' then s_req_path
      else if ch = CHR ''?'' then s_req_query_string_start
      else if ch = CHR ''@'' then s_req_server_with_at
      else if IS_USERINFO_CHAR ch \<or> ch = CHR ''['' \<or> ch = CHR '']'' then s_req_server
      else s_dead)"

definition parse_url_char :: "pstate \<Rightarrow> char \<Rightarrow> pstate" where
  "parse_url_char s ch =
     (if ch = CHR '' '' \<or> ch = CR \<or> ch = LF then s_dead
      else if ch = TAB \<or> ch = FF then s_dead
      else case s of
        s_req_spaces_before_url \<Rightarrow>
          (if ch = CHR ''/'' \<or> ch = CHR ''*'' then s_req_path
           else if IS_ALPHA ch then s_req_schema else s_dead)
      | s_req_schema \<Rightarrow>
          (if IS_ALPHA ch then s else if ch = CHR '':'' then s_req_schema_slash else s_dead)
      | s_req_schema_slash \<Rightarrow> (if ch = CHR ''/'' then s_req_schema_slash_slash else s_dead)
      | s_req_schema_slash_slash \<Rightarrow> (if ch = CHR ''/'' then s_req_server_start else s_dead)
      | s_req_server_with_at \<Rightarrow> (if ch = CHR ''@'' then s_dead else parse_server_char ch)
      | s_req_server_start \<Rightarrow> parse_server_char ch
      | s_req_server \<Rightarrow> parse_server_char ch
      | s_req_path \<Rightarrow>
          (if IS_URL_CHAR ch then s
           else if ch = CHR ''?'' then s_req_query_string_start
           else if ch = CHR ''#'' then s_req_fragment_start else s_dead)
      | s_req_query_string_start \<Rightarrow>
          (if IS_URL_CHAR ch \<or> ch = CHR ''?'' then s_req_query_string
           else if ch = CHR ''#'' then s_req_fragment_start else s_dead)
      | s_req_query_string \<Rightarrow>
          (if IS_URL_CHAR ch \<or> ch = CHR ''?'' then s_req_query_string
           else if ch = CHR ''#'' then s_req_fragment_start else s_dead)
      | s_req_fragment_start \<Rightarrow>
          (if IS_URL_CHAR ch \<or> ch = CHR ''?'' then s_req_fragment
           else if ch = CHR ''#'' then s else s_dead)
      | s_req_fragment \<Rightarrow>
          (if IS_URL_CHAR ch \<or> ch = CHR ''?'' \<or> ch = CHR ''#'' then s else s_dead)
      | _ \<Rightarrow> s_dead)"

subsection \<open>What a case of the switch does\<close>

datatype mark = Header_Field | Header_Value | Url | Body
datatype notice = Message_Begin | Status_Complete | Message_Complete

text \<open>
  \<open>Data m\<close> and \<open>Notify n\<close> are \<^verbatim>\<open>CALLBACK_DATA\<close> and \<^verbatim>\<open>CALLBACK_NOTIFY\<close> (the byte counts as
  consumed when the callback stops the parser), \<open>Data_Noadvance\<close> does not count it,
  \<open>Data_Last\<close> hands out the current byte too; \<open>Skip n\<close> is \<^verbatim>\<open>p += n\<close>.
\<close>

datatype effect =
    Mark mark | Data mark | Data_Noadvance mark | Data_Last mark | Notify notice
  | Headers_Complete | Skip nat

datatype ending = Break | Reexecute | Goto_Error | Return_Next | Assert_Fails | Bad_Read

type_synonym step = "http_parser \<times> effect list \<times> ending"

abbreviation brk :: "http_parser \<Rightarrow> step" where "brk p \<equiv> (p, [], Break)"
abbreviation go :: "pstate \<Rightarrow> http_parser \<Rightarrow> step" where
  "go s p \<equiv> (p\<lparr>hp_state := s\<rparr>, [], Break)"
abbreviation fail :: "http_errno \<Rightarrow> http_parser \<Rightarrow> step" where
  "fail e p \<equiv> (p\<lparr>hp_errno := e\<rparr>, [], Goto_Error)"

text \<open>\<^verbatim>\<open>STRICT_CHECK(ch != want)\<close>, and the numbers of the version and of the status.\<close>

abbreviation expect :: "char \<Rightarrow> char \<Rightarrow> http_parser \<Rightarrow> step \<Rightarrow> step" where
  "expect want ch p k \<equiv> (if ch \<noteq> want then fail HPE_STRICT p else k)"

definition more_major :: "char \<Rightarrow> http_parser \<Rightarrow> step" where
  "more_major ch p = (let v = ushort (hp_http_major p * 10 + digit ch); q = p\<lparr>hp_http_major := v\<rparr>
     in if 999 < v then fail HPE_INVALID_VERSION q else brk q)"

definition more_minor :: "char \<Rightarrow> http_parser \<Rightarrow> step" where
  "more_minor ch p = (let v = ushort (hp_http_minor p * 10 + digit ch); q = p\<lparr>hp_http_minor := v\<rparr>
     in if 999 < v then fail HPE_INVALID_VERSION q else brk q)"

definition http_major :: "pstate \<Rightarrow> char \<Rightarrow> http_parser \<Rightarrow> step" where
  "http_major first_minor ch p =
     (if ch = CHR ''.'' then go first_minor p
      else if \<not> IS_NUM ch then fail HPE_INVALID_VERSION p
      else more_major ch p)"

definition first_http_minor :: "pstate \<Rightarrow> char \<Rightarrow> http_parser \<Rightarrow> step" where
  "first_http_minor minor ch p =
     (if \<not> IS_NUM ch then fail HPE_INVALID_VERSION p
      else go minor (p\<lparr>hp_http_minor := digit ch\<rparr>))"

subsection \<open>Status line\<close>

definition clear_message :: "http_parser \<Rightarrow> http_parser" where
  "clear_message p = p\<lparr>hp_flags := {}, hp_content_length := ULLONG_MAX\<rparr>"

definition sw_start_req_or_res :: "char \<Rightarrow> http_parser \<Rightarrow> step" where
  "sw_start_req_or_res ch p =
     (if ch = CR \<or> ch = LF then brk p
      else let q = clear_message p in
        if ch = CHR ''H'' then (q\<lparr>hp_state := s_res_or_resp_H\<rparr>, [Notify Message_Begin], Break)
        else (q\<lparr>hp_type := HTTP_REQUEST, hp_state := s_start_req\<rparr>, [], Reexecute))"

definition sw_res_or_resp_H :: "char \<Rightarrow> http_parser \<Rightarrow> step" where
  "sw_res_or_resp_H ch p =
     (if ch = CHR ''T'' then go s_res_HT (p\<lparr>hp_type := HTTP_RESPONSE\<rparr>)
      else if ch \<noteq> CHR ''E'' then fail HPE_INVALID_CONSTANT p
      else go s_req_method (p\<lparr>hp_type := HTTP_REQUEST, hp_method := HTTP_HEAD, hp_index := 2\<rparr>))"

definition sw_start_res :: "char \<Rightarrow> http_parser \<Rightarrow> step" where
  "sw_start_res ch p = (let q = clear_message p in
     if ch = CHR ''H'' then (q\<lparr>hp_state := s_res_H\<rparr>, [Notify Message_Begin], Break)
     else if ch = CR \<or> ch = LF then (q, [Notify Message_Begin], Break)
     else fail HPE_INVALID_CONSTANT q)"

definition sw_res_first_http_major :: "char \<Rightarrow> http_parser \<Rightarrow> step" where
  "sw_res_first_http_major ch p =
     (if ord ch < 48 \<or> 57 < ord ch then fail HPE_INVALID_VERSION p
      else go s_res_http_major (p\<lparr>hp_http_major := digit ch\<rparr>))"

definition sw_res_http_minor :: "char \<Rightarrow> http_parser \<Rightarrow> step" where
  "sw_res_http_minor ch p =
     (if ch = CHR '' '' then go s_res_first_status_code p
      else if \<not> IS_NUM ch then fail HPE_INVALID_VERSION p
      else more_minor ch p)"

definition sw_res_first_status_code :: "char \<Rightarrow> http_parser \<Rightarrow> step" where
  "sw_res_first_status_code ch p =
     (if \<not> IS_NUM ch then (if ch = CHR '' '' then brk p else fail HPE_INVALID_STATUS p)
      else go s_res_status_code (p\<lparr>hp_status_code := digit ch\<rparr>))"

definition sw_res_status_code :: "char \<Rightarrow> http_parser \<Rightarrow> step" where
  "sw_res_status_code ch p =
     (if \<not> IS_NUM ch then
        (if ch = CHR '' '' then go s_res_status p
         else if ch = CR then go s_res_line_almost_done p
         else if ch = LF then go s_header_field_start p
         else fail HPE_INVALID_STATUS p)
      else let v = ushort (hp_status_code p * 10 + digit ch); q = p\<lparr>hp_status_code := v\<rparr>
        in if 999 < v then fail HPE_INVALID_STATUS q else brk q)"

definition sw_res_status :: "char \<Rightarrow> http_parser \<Rightarrow> step" where
  "sw_res_status ch p =
     (if ch = CR then go s_res_line_almost_done p
      else if ch = LF then go s_header_field_start p
      else brk p)"

definition sw_res_line_almost_done :: "char \<Rightarrow> http_parser \<Rightarrow> step" where
  "sw_res_line_almost_done ch p = expect LF ch p
     (p\<lparr>hp_state := s_header_field_start\<rparr>, [Notify Status_Complete], Break)"

subsection \<open>Request line\<close>

definition sw_start_req :: "char \<Rightarrow> http_parser \<Rightarrow> step" where
  "sw_start_req ch p =
     (if ch = CR \<or> ch = LF then brk p
      else let q = clear_message p in
        if \<not> IS_ALPHA ch then fail HPE_INVALID_METHOD q
        else let q = q\<lparr>hp_method := HTTP_DELETE, hp_index := 1\<rparr>;
                 start = (\<lambda>m. (q\<lparr>hp_method := m, hp_state := s_req_method\<rparr>,
                   [Notify Message_Begin], Break))
          in if ch = CHR ''C'' then start HTTP_CONNECT
             else if ch = CHR ''D'' then start HTTP_DELETE
             else if ch = CHR ''G'' then start HTTP_GET
             else if ch = CHR ''H'' then start HTTP_HEAD
             else if ch = CHR ''L'' then start HTTP_LOCK
             else if ch = CHR ''M'' then start HTTP_MKCOL
             else if ch = CHR ''N'' then start HTTP_NOTIFY
             else if ch = CHR ''O'' then start HTTP_OPTIONS
             else if ch = CHR ''P'' then start HTTP_POST
             else if ch = CHR ''R'' then start HTTP_REPORT
             else if ch = CHR ''S'' then start HTTP_SUBSCRIBE
             else if ch = CHR ''T'' then start HTTP_TRACE
             else if ch = CHR ''U'' then start HTTP_UNLOCK
             else fail HPE_INVALID_METHOD q)"

text \<open>
  Which method the byte leads to (\<open>None\<close>: an error, with or without its number).  The third
  alternative of the source is \<open>index = 2\<close> whatever the method, so an unexpected third byte
  is let through.
\<close>

definition next_method :: "char \<Rightarrow> http_method \<Rightarrow> nat \<Rightarrow> (http_errno option) + http_method" where
  "next_method ch m i =
     (if m = HTTP_CONNECT then
        (if i = 1 \<and> ch = CHR ''H'' then Inr HTTP_CHECKOUT
         else if i = 2 \<and> ch = CHR ''P'' then Inr HTTP_COPY else Inl None)
      else if m = HTTP_MKCOL then
        (if i = 1 \<and> ch = CHR ''O'' then Inr HTTP_MOVE
         else if i = 1 \<and> ch = CHR ''E'' then Inr HTTP_MERGE
         else if i = 1 \<and> ch = CHR ''-'' then Inr HTTP_MSEARCH
         else if i = 2 \<and> ch = CHR ''A'' then Inr HTTP_MKACTIVITY else Inl None)
      else if m = HTTP_SUBSCRIBE then
        (if i = 1 \<and> ch = CHR ''E'' then Inr HTTP_SEARCH else Inl None)
      else if i = 1 \<and> m = HTTP_POST then
        (if ch = CHR ''R'' then Inr HTTP_PROPFIND
         else if ch = CHR ''U'' then Inr HTTP_PUT
         else if ch = CHR ''A'' then Inr HTTP_PATCH else Inl None)
      else if i = 2 then
        (if m = HTTP_PUT then Inr (if ch = CHR ''R'' then HTTP_PURGE else m)
         else if m = HTTP_UNLOCK then Inr (if ch = CHR ''S'' then HTTP_UNSUBSCRIBE else m)
         else Inr m)
      else if i = 4 \<and> m = HTTP_PROPFIND \<and> ch = CHR ''P'' then Inr HTTP_PROPPATCH
      else Inl (Some HPE_INVALID_METHOD))"

definition sw_req_method :: "char \<Rightarrow> http_parser \<Rightarrow> step" where
  "sw_req_method ch p =
     (if ch = NUL then fail HPE_INVALID_METHOD p
      else let matcher = method_string (hp_method p) @ [NUL]; i = hp_index p; next_index = uchar (i + 1) in
        if length matcher \<le> i then (p, [], Bad_Read)
        else if ch = CHR '' '' \<and> matcher ! i = NUL then
          go s_req_spaces_before_url (p\<lparr>hp_index := next_index\<rparr>)
        else if ch = matcher ! i then brk (p\<lparr>hp_index := next_index\<rparr>)
        else case next_method ch (hp_method p) i of
          Inr m \<Rightarrow> brk (p\<lparr>hp_method := m, hp_index := next_index\<rparr>)
        | Inl None \<Rightarrow> (p, [], Goto_Error)
        | Inl (Some e) \<Rightarrow> fail e p)"

text \<open>One more byte of the URL, and the states in which no blank may follow.\<close>

definition url_char :: "char \<Rightarrow> http_parser \<Rightarrow> step" where
  "url_char ch p = (let s = parse_url_char (hp_state p) ch; q = p\<lparr>hp_state := s\<rparr> in
     if s = s_dead then fail HPE_INVALID_URL q else brk q)"

definition sw_req_spaces_before_url :: "char \<Rightarrow> http_parser \<Rightarrow> step" where
  "sw_req_spaces_before_url ch p =
     (if ch = CHR '' '' then brk p
      else let q = (if hp_method p = HTTP_CONNECT then p\<lparr>hp_state := s_req_server_start\<rparr> else p) in
        case url_char ch q of (q', es, e) \<Rightarrow> (q', Mark Url # es, e))"

definition sw_req_schema :: "char \<Rightarrow> http_parser \<Rightarrow> step" where
  "sw_req_schema ch p =
     (if ch = CHR '' '' \<or> ch = CR \<or> ch = LF then fail HPE_INVALID_URL p else url_char ch p)"

definition sw_req_server :: "char \<Rightarrow> http_parser \<Rightarrow> step" where
  "sw_req_server ch p =
     (if ch = CHR '' '' then (p\<lparr>hp_state := s_req_http_start\<rparr>, [Data Url], Break)
      else if ch = CR \<or> ch = LF then
        (p\<lparr>hp_http_major := 0, hp_http_minor := 9,
           hp_state := (if ch = CR then s_req_line_almost_done else s_header_field_start)\<rparr>,
         [Data Url], Break)
      else url_char ch p)"

definition sw_req_http_start :: "char \<Rightarrow> http_parser \<Rightarrow> step" where
  "sw_req_http_start ch p =
     (if ch = CHR ''H'' then go s_req_http_H p
      else if ch = CHR '' '' then brk p
      else fail HPE_INVALID_CONSTANT p)"

definition sw_req_first_http_major :: "char \<Rightarrow> http_parser \<Rightarrow> step" where
  "sw_req_first_http_major ch p =
     (if ord ch < 49 \<or> 57 < ord ch then fail HPE_INVALID_VERSION p
      else go s_req_http_major (p\<lparr>hp_http_major := digit ch\<rparr>))"

definition sw_req_http_minor :: "char \<Rightarrow> http_parser \<Rightarrow> step" where
  "sw_req_http_minor ch p =
     (if ch = CR then go s_req_line_almost_done p
      else if ch = LF then go s_header_field_start p
      else if \<not> IS_NUM ch then fail HPE_INVALID_VERSION p
      else more_minor ch p)"

definition sw_req_line_almost_done :: "char \<Rightarrow> http_parser \<Rightarrow> step" where
  "sw_req_line_almost_done ch p =
     (if ch \<noteq> LF then fail HPE_LF_EXPECTED p else go s_header_field_start p)"

subsection \<open>Header lines\<close>

definition CONNECTION :: string where "CONNECTION = ''connection''"
definition PROXY_CONNECTION :: string where "PROXY_CONNECTION = ''proxy-connection''"
definition CONTENT_LENGTH :: string where "CONTENT_LENGTH = ''content-length''"
definition TRANSFER_ENCODING :: string where "TRANSFER_ENCODING = ''transfer-encoding''"
definition UPGRADE :: string where "UPGRADE = ''upgrade''"
definition CHUNKED :: string where "CHUNKED = ''chunked''"
definition KEEP_ALIVE :: string where "KEEP_ALIVE = ''keep-alive''"
definition CLOSE :: string where "CLOSE = ''close''"

definition sw_header_field_start :: "char \<Rightarrow> http_parser \<Rightarrow> step" where
  "sw_header_field_start ch p =
     (if ch = CR then go s_headers_almost_done p
      else if ch = LF then (p\<lparr>hp_state := s_headers_almost_done\<rparr>, [], Reexecute)
      else let c = TOKEN ch in
        if c = NUL then fail HPE_INVALID_HEADER_TOKEN p
        else (p\<lparr>hp_index := 0, hp_state := s_header_field,
          hp_header_state := (if c = CHR ''c'' then h_C
            else if c = CHR ''p'' then h_matching_proxy_connection
            else if c = CHR ''t'' then h_matching_transfer_encoding
            else if c = CHR ''u'' then h_matching_upgrade
            else h_general)\<rparr>, [Mark Header_Field], Break))"

text \<open>
  One more byte of a constant: \<open>sizeof(name) - 1\<close> is the length, the terminator is part of
  the array.
\<close>

definition matching :: "string \<Rightarrow> header_states \<Rightarrow> char \<Rightarrow> http_parser \<Rightarrow> http_parser" where
  "matching name matched c p = (let i = uchar (hp_index p + 1); q = p\<lparr>hp_index := i\<rparr> in
     if length name < i \<or> c \<noteq> (name @ [NUL]) ! i then q\<lparr>hp_header_state := h_general\<rparr>
     else if i = length name - 1 then q\<lparr>hp_header_state := matched\<rparr>
     else q)"

definition next_index :: "header_states \<Rightarrow> http_parser \<Rightarrow> http_parser" where
  "next_index h p = p\<lparr>hp_index := uchar (hp_index p + 1), hp_header_state := h\<rparr>"

definition field_token :: "char \<Rightarrow> char \<Rightarrow> http_parser \<Rightarrow> http_parser option" where
  "field_token ch c p = (case hp_header_state p of
       h_general \<Rightarrow> Some p
     | h_C \<Rightarrow> Some (next_index (if c = CHR ''o'' then h_CO else h_general) p)
     | h_CO \<Rightarrow> Some (next_index (if c = CHR ''n'' then h_CON else h_general) p)
     | h_CON \<Rightarrow> Some (next_index (if c = CHR ''n'' then h_matching_connection
         else if c = CHR ''t'' then h_matching_content_length else h_general) p)
     | h_matching_connection \<Rightarrow> Some (matching CONNECTION h_connection c p)
     | h_matching_proxy_connection \<Rightarrow> Some (matching PROXY_CONNECTION h_connection c p)
     | h_matching_content_length \<Rightarrow> Some (matching CONTENT_LENGTH h_content_length c p)
     | h_matching_transfer_encoding \<Rightarrow> Some (matching TRANSFER_ENCODING h_transfer_encoding c p)
     | h_matching_upgrade \<Rightarrow> Some (matching UPGRADE h_upgrade c p)
     | h_connection \<Rightarrow> Some (if ch \<noteq> CHR '' '' then p\<lparr>hp_header_state := h_general\<rparr> else p)
     | h_content_length \<Rightarrow> Some (if ch \<noteq> CHR '' '' then p\<lparr>hp_header_state := h_general\<rparr> else p)
     | h_transfer_encoding \<Rightarrow> Some (if ch \<noteq> CHR '' '' then p\<lparr>hp_header_state := h_general\<rparr> else p)
     | h_upgrade \<Rightarrow> Some (if ch \<noteq> CHR '' '' then p\<lparr>hp_header_state := h_general\<rparr> else p)
     | _ \<Rightarrow> None)"

definition sw_header_field :: "char \<Rightarrow> http_parser \<Rightarrow> step" where
  "sw_header_field ch p = (let c = TOKEN ch in
     if c \<noteq> NUL then (case field_token ch c p of
         Some q \<Rightarrow> brk q
       | None \<Rightarrow> (p, [], Assert_Fails))
     else if ch = CHR '':'' then (p\<lparr>hp_state := s_header_value_start\<rparr>, [Data Header_Field], Break)
     else if ch = CR then (p\<lparr>hp_state := s_header_almost_done\<rparr>, [Data Header_Field], Break)
     else if ch = LF then (p\<lparr>hp_state := s_header_field_start\<rparr>, [Data Header_Field], Break)
     else fail HPE_INVALID_HEADER_TOKEN p)"

definition sw_header_value_start :: "char \<Rightarrow> http_parser \<Rightarrow> step" where
  "sw_header_value_start ch p =
     (if ch = CHR '' '' \<or> ch = TAB then brk p
      else let q = p\<lparr>hp_state := s_header_value, hp_index := 0\<rparr>;
               marked = (\<lambda>q. (q, [Mark Header_Value], Break));
               c = LOWER ch
        in if ch = CR then (q\<lparr>hp_header_state := h_general, hp_state := s_header_almost_done\<rparr>,
             [Mark Header_Value, Data Header_Value], Break)
           else if ch = LF then (q\<lparr>hp_state := s_header_field_start\<rparr>,
             [Mark Header_Value, Data Header_Value], Break)
           else case hp_header_state p of
             h_upgrade \<Rightarrow> marked (q\<lparr>hp_flags := insert F_UPGRADE (hp_flags q), hp_header_state := h_general\<rparr>)
           | h_transfer_encoding \<Rightarrow> marked (q\<lparr>hp_header_state :=
               (if CHR ''c'' = c then h_matching_transfer_encoding_chunked else h_general)\<rparr>)
           | h_content_length \<Rightarrow>
               (if \<not> IS_NUM ch then (q\<lparr>hp_errno := HPE_INVALID_CONTENT_LENGTH\<rparr>, [Mark Header_Value], Goto_Error)
                else marked (q\<lparr>hp_content_length := of_nat (digit ch)\<rparr>))
           | h_connection \<Rightarrow> marked (q\<lparr>hp_header_state :=
               (if c = CHR ''k'' then h_matching_connection_keep_alive
                else if c = CHR ''c'' then h_matching_connection_close else h_general)\<rparr>)
           | _ \<Rightarrow> marked (q\<lparr>hp_header_state := h_general\<rparr>))"

text \<open>
  One more digit of a length in base \<open>b\<close>, as for the header and for the chunk size: the test
  for overflow compares with the value before the multiplication.
\<close>

definition more_length :: "64 word \<Rightarrow> 64 word \<Rightarrow> 64 word \<Rightarrow> 64 word option" where
  "more_length b n d = (let t = n * b + d in if t < n \<or> t = ULLONG_MAX then None else Some t)"

definition value_token :: "char \<Rightarrow> char \<Rightarrow> http_parser \<Rightarrow> step" where
  "value_token ch c p = (case hp_header_state p of
       h_general \<Rightarrow> brk p
     | h_connection \<Rightarrow> (p, [], Assert_Fails)
     | h_transfer_encoding \<Rightarrow> (p, [], Assert_Fails)
     | h_content_length \<Rightarrow>
         (if ch = CHR '' '' then brk p
          else if \<not> IS_NUM ch then fail HPE_INVALID_CONTENT_LENGTH p
          else case more_length 10 (hp_content_length p) (of_nat (digit ch)) of
            None \<Rightarrow> fail HPE_INVALID_CONTENT_LENGTH p
          | Some t \<Rightarrow> brk (p\<lparr>hp_content_length := t\<rparr>))
     | h_matching_transfer_encoding_chunked \<Rightarrow> brk (matching CHUNKED h_transfer_encoding_chunked c p)
     | h_matching_connection_keep_alive \<Rightarrow> brk (matching KEEP_ALIVE h_connection_keep_alive c p)
     | h_matching_connection_close \<Rightarrow> brk (matching CLOSE h_connection_close c p)
     | h_transfer_encoding_chunked \<Rightarrow> brk (if ch \<noteq> CHR '' '' then p\<lparr>hp_header_state := h_general\<rparr> else p)
     | h_connection_keep_alive \<Rightarrow> brk (if ch \<noteq> CHR '' '' then p\<lparr>hp_header_state := h_general\<rparr> else p)
     | h_connection_close \<Rightarrow> brk (if ch \<noteq> CHR '' '' then p\<lparr>hp_header_state := h_general\<rparr> else p)
     | _ \<Rightarrow> brk (p\<lparr>hp_state := s_header_value, hp_header_state := h_general\<rparr>))"

definition sw_header_value :: "char \<Rightarrow> http_parser \<Rightarrow> step" where
  "sw_header_value ch p =
     (if ch = CR then (p\<lparr>hp_state := s_header_almost_done\<rparr>, [Data Header_Value], Break)
      else if ch = LF then (p\<lparr>hp_state := s_header_almost_done\<rparr>, [Data_Noadvance Header_Value], Reexecute)
      else value_token ch (LOWER ch) p)"

definition sw_header_almost_done :: "char \<Rightarrow> http_parser \<Rightarrow> step" where
  "sw_header_almost_done ch p = expect LF ch p (brk (p\<lparr>hp_state := s_header_value_lws,
     hp_flags := (case hp_header_state p of
         h_connection_keep_alive \<Rightarrow> insert F_CONNECTION_KEEP_ALIVE (hp_flags p)
       | h_connection_close \<Rightarrow> insert F_CONNECTION_CLOSE (hp_flags p)
       | h_transfer_encoding_chunked \<Rightarrow> insert F_CHUNKED (hp_flags p)
       | _ \<Rightarrow> hp_flags p)\<rparr>))"

definition sw_header_value_lws :: "char \<Rightarrow> http_parser \<Rightarrow> step" where
  "sw_header_value_lws ch p =
     (if ch = CHR '' '' \<or> ch = TAB then go s_header_value_start p
      else (p\<lparr>hp_state := s_header_field_start\<rparr>, [], Reexecute))"

definition new_message :: "http_parser \<Rightarrow> ending \<Rightarrow> step" where
  "new_message p e = (p\<lparr>hp_state := NEW_MESSAGE p\<rparr>, [Notify Message_Complete], e)"

definition sw_headers_almost_done :: "char \<Rightarrow> http_parser \<Rightarrow> step" where
  "sw_headers_almost_done ch p = expect LF ch p
     (if F_TRAILING \<in> hp_flags p then new_message p Break
      else (p\<lparr>hp_state := s_headers_done,
        hp_upgrade := (F_UPGRADE \<in> hp_flags p \<or> hp_method p = HTTP_CONNECT)\<rparr>,
        [Headers_Complete], Reexecute))"

definition sw_headers_done :: "char \<Rightarrow> http_parser \<Rightarrow> step" where
  "sw_headers_done ch p = expect LF ch p (let q = p\<lparr>hp_nread := 0\<rparr> in
     if hp_upgrade q then new_message q Return_Next
     else if F_SKIPBODY \<in> hp_flags q then new_message q Break
     else if F_CHUNKED \<in> hp_flags q then go s_chunk_size_start q
     else if hp_content_length q = 0 then new_message q Break
     else if hp_content_length q \<noteq> ULLONG_MAX then go s_body_identity q
     else if hp_type q = HTTP_REQUEST \<or> \<not> http_message_needs_eof q then new_message q Break
     else go s_body_identity_eof q)"

subsection \<open>Bodies\<close>

text \<open>\<open>rest\<close> is \<open>data + len - p\<close>, the bytes of the input from the current one on.\<close>

definition sw_body_identity :: "nat \<Rightarrow> http_parser \<Rightarrow> step" where
  "sw_body_identity rest p = (let to_read = min (hp_content_length p) (of_nat rest) in
     if hp_content_length p = 0 \<or> hp_content_length p = ULLONG_MAX then (p, [], Assert_Fails)
     else let q = p\<lparr>hp_content_length := hp_content_length p - to_read\<rparr>;
              read = [Mark Body, Skip (unat to_read - 1)]
       in if hp_content_length q = 0
          then (q\<lparr>hp_state := s_message_done\<rparr>, read @ [Data_Last Body], Reexecute)
          else (q, read, Break))"

definition sw_body_identity_eof :: "nat \<Rightarrow> http_parser \<Rightarrow> step" where
  "sw_body_identity_eof rest p = (p, [Mark Body, Skip (rest - 1)], Break)"

definition sw_message_done :: "http_parser \<Rightarrow> step" where
  "sw_message_done p = new_message p Break"

text \<open>\<^verbatim>\<open>assert(parser->flags & F_CHUNKED)\<close>, which all the chunk states start with.\<close>

abbreviation chunked :: "http_parser \<Rightarrow> step \<Rightarrow> step" where
  "chunked p k \<equiv> (if F_CHUNKED \<notin> hp_flags p then (p, [], Assert_Fails) else k)"

definition sw_chunk_size_start :: "char \<Rightarrow> http_parser \<Rightarrow> step" where
  "sw_chunk_size_start ch p =
     (if hp_nread p \<noteq> 1 then (p, [], Assert_Fails)
      else chunked p (let v = unhex ! ord ch in
        if v = -1 then fail HPE_INVALID_CHUNK_SIZE p
        else go s_chunk_size (p\<lparr>hp_content_length := word_of_int v\<rparr>)))"

definition sw_chunk_size :: "char \<Rightarrow> http_parser \<Rightarrow> step" where
  "sw_chunk_size ch p = chunked p
     (if ch = CR then go s_chunk_size_almost_done p
      else let v = unhex ! ord ch in
        if v = -1 then
          (if ch = CHR '';'' \<or> ch = CHR '' '' then go s_chunk_parameters p
           else fail HPE_INVALID_CHUNK_SIZE p)
        else case more_length 16 (hp_content_length p) (word_of_int v) of
          None \<Rightarrow> fail HPE_INVALID_CONTENT_LENGTH p
        | Some t \<Rightarrow> brk (p\<lparr>hp_content_length := t\<rparr>))"

definition sw_chunk_parameters :: "char \<Rightarrow> http_parser \<Rightarrow> step" where
  "sw_chunk_parameters ch p = chunked p
     (if ch = CR then go s_chunk_size_almost_done p else brk p)"

definition sw_chunk_size_almost_done :: "char \<Rightarrow> http_parser \<Rightarrow> step" where
  "sw_chunk_size_almost_done ch p = chunked p (expect LF ch p
     (let q = p\<lparr>hp_nread := 0\<rparr> in
      if hp_content_length q = 0
      then go s_header_field_start (q\<lparr>hp_flags := insert F_TRAILING (hp_flags q)\<rparr>)
      else go s_chunk_data q))"

definition sw_chunk_data :: "nat \<Rightarrow> http_parser \<Rightarrow> step" where
  "sw_chunk_data rest p = (let to_read = min (hp_content_length p) (of_nat rest) in
     chunked p
       (if hp_content_length p = 0 \<or> hp_content_length p = ULLONG_MAX then (p, [], Assert_Fails)
        else let q = p\<lparr>hp_content_length := hp_content_length p - to_read\<rparr>;
                 read = [Mark Body, Skip (unat to_read - 1)]
          in if hp_content_length q = 0 then (q\<lparr>hp_state := s_chunk_data_almost_done\<rparr>, read, Break)
             else (q, read, Break)))"

definition sw_chunk_data_almost_done :: "char \<Rightarrow> http_parser \<Rightarrow> step" where
  "sw_chunk_data_almost_done ch p = chunked p
     (if hp_content_length p \<noteq> 0 then (p, [], Assert_Fails)
      else expect CR ch p (p\<lparr>hp_state := s_chunk_data_done\<rparr>, [Data Body], Break))"

definition sw_chunk_data_done :: "char \<Rightarrow> http_parser \<Rightarrow> step" where
  "sw_chunk_data_done ch p = chunked p (expect LF ch p
     (go s_chunk_size_start (p\<lparr>hp_nread := 0\<rparr>)))"

subsection \<open>The switch\<close>

definition switch :: "nat \<Rightarrow> char \<Rightarrow> http_parser \<Rightarrow> step" where
  "switch rest ch p = (case hp_state p of
       s_dead \<Rightarrow> (if ch = CR \<or> ch = LF then brk p else fail HPE_CLOSED_CONNECTION p)
     | s_start_req_or_res \<Rightarrow> sw_start_req_or_res ch p
     | s_res_or_resp_H \<Rightarrow> sw_res_or_resp_H ch p
     | s_start_res \<Rightarrow> sw_start_res ch p
     | s_res_H \<Rightarrow> expect CHR ''T'' ch p (go s_res_HT p)
     | s_res_HT \<Rightarrow> expect CHR ''T'' ch p (go s_res_HTT p)
     | s_res_HTT \<Rightarrow> expect CHR ''P'' ch p (go s_res_HTTP p)
     | s_res_HTTP \<Rightarrow> expect CHR ''/'' ch p (go s_res_first_http_major p)
     | s_res_first_http_major \<Rightarrow> sw_res_first_http_major ch p
     | s_res_http_major \<Rightarrow> http_major s_res_first_http_minor ch p
     | s_res_first_http_minor \<Rightarrow> first_http_minor s_res_http_minor ch p
     | s_res_http_minor \<Rightarrow> sw_res_http_minor ch p
     | s_res_first_status_code \<Rightarrow> sw_res_first_status_code ch p
     | s_res_status_code \<Rightarrow> sw_res_status_code ch p
     | s_res_status \<Rightarrow> sw_res_status ch p
     | s_res_line_almost_done \<Rightarrow> sw_res_line_almost_done ch p
     | s_start_req \<Rightarrow> sw_start_req ch p
     | s_req_method \<Rightarrow> sw_req_method ch p
     | s_req_spaces_before_url \<Rightarrow> sw_req_spaces_before_url ch p
     | s_req_schema \<Rightarrow> sw_req_schema ch p
     | s_req_schema_slash \<Rightarrow> sw_req_schema ch p
     | s_req_schema_slash_slash \<Rightarrow> sw_req_schema ch p
     | s_req_server_start \<Rightarrow> sw_req_schema ch p
     | s_req_server \<Rightarrow> sw_req_server ch p
     | s_req_server_with_at \<Rightarrow> sw_req_server ch p
     | s_req_path \<Rightarrow> sw_req_server ch p
     | s_req_query_string_start \<Rightarrow> sw_req_server ch p
     | s_req_query_string \<Rightarrow> sw_req_server ch p
     | s_req_fragment_start \<Rightarrow> sw_req_server ch p
     | s_req_fragment \<Rightarrow> sw_req_server ch p
     | s_req_http_start \<Rightarrow> sw_req_http_start ch p
     | s_req_http_H \<Rightarrow> expect CHR ''T'' ch p (go s_req_http_HT p)
     | s_req_http_HT \<Rightarrow> expect CHR ''T'' ch p (go s_req_http_HTT p)
     | s_req_http_HTT \<Rightarrow> expect CHR ''P'' ch p (go s_req_http_HTTP p)
     | s_req_http_HTTP \<Rightarrow> expect CHR ''/'' ch p (go s_req_first_http_major p)
     | s_req_first_http_major \<Rightarrow> sw_req_first_http_major ch p
     | s_req_http_major \<Rightarrow> http_major s_req_first_http_minor ch p
     | s_req_first_http_minor \<Rightarrow> first_http_minor s_req_http_minor ch p
     | s_req_http_minor \<Rightarrow> sw_req_http_minor ch p
     | s_req_line_almost_done \<Rightarrow> sw_req_line_almost_done ch p
     | s_header_field_start \<Rightarrow> sw_header_field_start ch p
     | s_header_field \<Rightarrow> sw_header_field ch p
     | s_header_value_start \<Rightarrow> sw_header_value_start ch p
     | s_header_value \<Rightarrow> sw_header_value ch p
     | s_header_value_lws \<Rightarrow> sw_header_value_lws ch p
     | s_header_almost_done \<Rightarrow> sw_header_almost_done ch p
     | s_chunk_size_start \<Rightarrow> sw_chunk_size_start ch p
     | s_chunk_size \<Rightarrow> sw_chunk_size ch p
     | s_chunk_parameters \<Rightarrow> sw_chunk_parameters ch p
     | s_chunk_size_almost_done \<Rightarrow> sw_chunk_size_almost_done ch p
     | s_headers_almost_done \<Rightarrow> sw_headers_almost_done ch p
     | s_headers_done \<Rightarrow> sw_headers_done ch p
     | s_chunk_data \<Rightarrow> sw_chunk_data rest p
     | s_chunk_data_almost_done \<Rightarrow> sw_chunk_data_almost_done ch p
     | s_chunk_data_done \<Rightarrow> sw_chunk_data_done ch p
     | s_body_identity \<Rightarrow> sw_body_identity rest p
     | s_body_identity_eof \<Rightarrow> sw_body_identity_eof rest p
     | s_message_done \<Rightarrow> sw_message_done p)"

subsection \<open>Callbacks\<close>

type_synonym 'e http_cb = "http_parser \<Rightarrow> 'e \<Rightarrow> int \<times> http_parser \<times> 'e"
type_synonym 'e http_data_cb = "http_parser \<Rightarrow> string \<Rightarrow> 'e \<Rightarrow> int \<times> http_parser \<times> 'e"

record 'e http_parser_settings =
  on_message_begin :: "'e http_cb option"
  on_url :: "'e http_data_cb option"
  on_status_complete :: "'e http_cb option"
  on_header_field :: "'e http_data_cb option"
  on_header_value :: "'e http_data_cb option"
  on_headers_complete :: "'e http_cb option"
  on_body :: "'e http_data_cb option"
  on_message_complete :: "'e http_cb option"

fun notify_cb :: "'e http_parser_settings \<Rightarrow> notice \<Rightarrow> 'e http_cb option \<times> http_errno" where
  "notify_cb se Message_Begin = (on_message_begin se, HPE_CB_message_begin)"
| "notify_cb se Status_Complete = (on_status_complete se, HPE_CB_status_complete)"
| "notify_cb se Message_Complete = (on_message_complete se, HPE_CB_message_complete)"

fun data_cb :: "'e http_parser_settings \<Rightarrow> mark \<Rightarrow> 'e http_data_cb option \<times> http_errno" where
  "data_cb se Header_Field = (on_header_field se, HPE_CB_header_field)"
| "data_cb se Header_Value = (on_header_value se, HPE_CB_header_value)"
| "data_cb se Url = (on_url se, HPE_CB_url)"
| "data_cb se Body = (on_body se, HPE_CB_body)"

text \<open>The local variables of \<^verbatim>\<open>http_parser_execute\<close>: \<open>p\<close> and the marks are offsets in \<open>data\<close>.\<close>

record 'e locals =
  x_parser :: http_parser
  x_env :: 'e
  x_p :: nat
  x_mark :: "mark \<Rightarrow> nat option"

datatype stop = Returned nat | Assertion_Failed | Read_Outside | No_Fuel

type_synonym 'e run = "'e locals \<Rightarrow> stop option \<times> 'e locals"

text \<open>
  After a callback: its answer sets the error number, and anything but \<^verbatim>\<open>HPE_OK\<close> (an error or
  a pause) returns \<open>er\<close>.
\<close>

definition after_callback :: "http_errno \<Rightarrow> nat \<Rightarrow> int \<times> http_parser \<times> 'e \<Rightarrow> 'e run" where
  "after_callback err er answer x = (case answer of (r, q, e) \<Rightarrow>
     let q' = (if r \<noteq> 0 then q\<lparr>hp_errno := err\<rparr> else q); y = x\<lparr>x_parser := q', x_env := e\<rparr>
     in if hp_errno q' \<noteq> HPE_OK then (Some (Returned er), y) else (None, y))"

definition CALLBACK_NOTIFY :: "'e http_parser_settings \<Rightarrow> notice \<Rightarrow> nat \<Rightarrow> 'e run" where
  "CALLBACK_NOTIFY se n er x =
     (if hp_errno (x_parser x) \<noteq> HPE_OK then (Some Assertion_Failed, x)
      else case notify_cb se n of
        (None, _) \<Rightarrow> (None, x)
      | (Some f, err) \<Rightarrow> after_callback err er (f (x_parser x) (x_env x)) x)"

definition clear_mark :: "mark \<Rightarrow> 'e locals \<Rightarrow> 'e locals" where
  "clear_mark m x = x\<lparr>x_mark := (x_mark x)(m := None)\<rparr>"

text \<open>\<open>stop_at\<close> is the end of the piece: \<^verbatim>\<open>LEN\<close> is \<open>stop_at - mark\<close>.\<close>

definition CALLBACK_DATA ::
    "'e http_parser_settings \<Rightarrow> string \<Rightarrow> mark \<Rightarrow> nat \<Rightarrow> nat \<Rightarrow> 'e run" where
  "CALLBACK_DATA se data m stop_at er x =
     (if hp_errno (x_parser x) \<noteq> HPE_OK then (Some Assertion_Failed, x)
      else case x_mark x m of
        None \<Rightarrow> (None, x)
      | Some k \<Rightarrow> (case data_cb se m of
          (None, _) \<Rightarrow> (None, clear_mark m x)
        | (Some f, err) \<Rightarrow>
            (case after_callback err er
                (f (x_parser x) (take (stop_at - k) (drop k data)) (x_env x)) x of
               (None, y) \<Rightarrow> (None, clear_mark m y)
             | stopped \<Rightarrow> stopped)))"

definition MARK :: "mark \<Rightarrow> 'e locals \<Rightarrow> 'e locals" where
  "MARK m x = (if x_mark x m = None then x\<lparr>x_mark := (x_mark x)(m \<mapsto> x_p x)\<rparr> else x)"

text \<open>\<^verbatim>\<open>on_headers_complete\<close>: 1 means there is no body, anything else but 0 is an error.\<close>

definition headers_complete :: "'e http_parser_settings \<Rightarrow> 'e run" where
  "headers_complete se x = (case on_headers_complete se of
       None \<Rightarrow> (if hp_errno (x_parser x) \<noteq> HPE_OK then (Some (Returned (x_p x)), x) else (None, x))
     | Some f \<Rightarrow> (case f (x_parser x) (x_env x) of (r, q, e) \<Rightarrow>
         if r \<noteq> 0 \<and> r \<noteq> 1 then
           (Some (Returned (x_p x)), x\<lparr>x_parser := q\<lparr>hp_errno := HPE_CB_headers_complete\<rparr>, x_env := e\<rparr>)
         else let q' = (if r = 1 then q\<lparr>hp_flags := insert F_SKIPBODY (hp_flags q)\<rparr> else q);
                  y = x\<lparr>x_parser := q', x_env := e\<rparr>
           in if hp_errno q' \<noteq> HPE_OK then (Some (Returned (x_p x)), y) else (None, y)))"

fun run_effect :: "'e http_parser_settings \<Rightarrow> string \<Rightarrow> effect \<Rightarrow> 'e run" where
  "run_effect se data (Mark m) x = (None, MARK m x)"
| "run_effect se data (Data m) x = CALLBACK_DATA se data m (x_p x) (x_p x + 1) x"
| "run_effect se data (Data_Noadvance m) x = CALLBACK_DATA se data m (x_p x) (x_p x) x"
| "run_effect se data (Data_Last m) x = CALLBACK_DATA se data m (x_p x + 1) (x_p x) x"
| "run_effect se data (Notify n) x = CALLBACK_NOTIFY se n (x_p x + 1) x"
| "run_effect se data Headers_Complete x = headers_complete se x"
| "run_effect se data (Skip n) x = (None, x\<lparr>x_p := x_p x + n\<rparr>)"

fun run_effects :: "'e http_parser_settings \<Rightarrow> string \<Rightarrow> effect list \<Rightarrow> 'e run" where
  "run_effects se data [] x = (None, x)"
| "run_effects se data (f # fs) x = (case run_effect se data f x of
     (None, y) \<Rightarrow> run_effects se data fs y
   | stopped \<Rightarrow> stopped)"

subsection \<open>The loop\<close>

text \<open>The label \<^verbatim>\<open>error\<close>.\<close>

definition error_exit :: "'e run" where
  "error_exit x = (Some (Returned (x_p x)),
     if hp_errno (x_parser x) = HPE_OK
     then x\<lparr>x_parser := (x_parser x)\<lparr>hp_errno := HPE_UNKNOWN\<rparr>\<rparr> else x)"

fun reexecute_byte :: "nat \<Rightarrow> 'e http_parser_settings \<Rightarrow> string \<Rightarrow> char \<Rightarrow> 'e run" where
  "reexecute_byte 0 se data ch x = (Some No_Fuel, x)"
| "reexecute_byte (Suc fuel) se data ch x =
     (case switch (length data - x_p x) ch (x_parser x) of (q, effects, ending) \<Rightarrow>
        (case run_effects se data effects (x\<lparr>x_parser := q\<rparr>) of
           (Some r, y) \<Rightarrow> (Some r, y)
         | (None, y) \<Rightarrow> (case ending of
             Break \<Rightarrow> (None, y)
           | Reexecute \<Rightarrow> reexecute_byte fuel se data ch y
           | Goto_Error \<Rightarrow> error_exit y
           | Return_Next \<Rightarrow> (Some (Returned (x_p y + 1)), y)
           | Assert_Fails \<Rightarrow> (Some Assertion_Failed, y)
           | Bad_Read \<Rightarrow> (Some Read_Outside, y))))"

definition reexecutions :: nat where "reexecutions = 5"

text \<open>The body of the loop: count a header byte, then the switch.\<close>

definition one_byte :: "'e http_parser_settings \<Rightarrow> string \<Rightarrow> 'e run" where
  "one_byte se data x = (let ch = data ! x_p x; p = x_parser x in
     if PARSING_HEADER (hp_state p) then
       (let q = p\<lparr>hp_nread := hp_nread p + 1\<rparr>; y = x\<lparr>x_parser := q\<rparr> in
        if HTTP_MAX_HEADER_SIZE < hp_nread q
        then error_exit (y\<lparr>x_parser := q\<lparr>hp_errno := HPE_HEADER_OVERFLOW\<rparr>\<rparr>)
        else reexecute_byte reexecutions se data ch y)
     else reexecute_byte reexecutions se data ch x)"

text \<open>After the loop: at most one mark is left, whose piece is handed out.\<close>

definition marks_set :: "'e locals \<Rightarrow> mark list" where
  "marks_set x = filter (\<lambda>m. x_mark x m \<noteq> None) [Header_Field, Header_Value, Url, Body]"

definition left_over_marks :: "'e http_parser_settings \<Rightarrow> string \<Rightarrow> 'e locals \<Rightarrow> stop \<times> 'e locals" where
  "left_over_marks se data x =
     (if 1 < length (marks_set x) then (Assertion_Failed, x)
      else case run_effects se data
          [Data_Noadvance Header_Field, Data_Noadvance Header_Value, Data_Noadvance Url,
           Data_Noadvance Body] x of
        (Some r, y) \<Rightarrow> (r, y)
      | (None, y) \<Rightarrow> (Returned (length data), y))"

text \<open>No macro moves \<open>p\<close> back, which bounds the loop by the length of the input.\<close>

lemma x_p_after_callback [simp]: "x_p (snd (after_callback err er a x)) = x_p x"
  by (simp add: after_callback_def Let_def split: prod.splits)

lemma x_p_callback_data [simp]: "x_p (snd (CALLBACK_DATA se data m b er x)) = x_p x"
proof -
  have "x_p (snd (case r of (None, y) \<Rightarrow> (None, clear_mark m y) | stopped \<Rightarrow> stopped)) = x_p (snd r)"
    for r :: "stop option \<times> 'a locals"
    by (cases r) (auto simp: clear_mark_def split: option.splits)
  then show ?thesis
    by (simp add: CALLBACK_DATA_def clear_mark_def split: option.splits prod.splits)
qed

lemma x_p_callback_notify [simp]: "x_p (snd (CALLBACK_NOTIFY se n er x)) = x_p x"
  by (simp add: CALLBACK_NOTIFY_def split: option.splits prod.splits)

lemma x_p_headers_complete [simp]: "x_p (snd (headers_complete se x)) = x_p x"
  by (simp add: headers_complete_def Let_def split: option.splits prod.splits)

lemma x_p_run_effect: "x_p x \<le> x_p (snd (run_effect se data f x))"
  by (cases f) (simp_all add: MARK_def)

lemma x_p_run_effects: "x_p x \<le> x_p (snd (run_effects se data fs x))"
proof (induction fs arbitrary: x)
  case (Cons f fs)
  have "x_p x \<le> x_p (snd (run_effect se data f x))" by (rule x_p_run_effect)
  with Cons show ?case
    by (auto split: prod.splits option.splits intro: le_trans)
qed simp

lemma x_p_reexecute: "x_p x \<le> x_p (snd (reexecute_byte n se data ch x))"
proof (induction n arbitrary: x)
  case (Suc n)
  obtain q fs e where s: "switch (length data - x_p x) ch (x_parser x) = (q, fs, e)"
    by (metis prod_cases3)
  obtain r y where r: "run_effects se data fs (x\<lparr>x_parser := q\<rparr>) = (r, y)" by force
  have "x_p x \<le> x_p y"
    using x_p_run_effects [of "x\<lparr>x_parser := q\<rparr>" se data fs] r by simp
  with Suc [of y] show ?case
    by (auto simp: s r error_exit_def split: option.splits ending.splits)
qed simp

lemma x_p_one_byte: "x_p x \<le> x_p (snd (one_byte se data x))"
  using x_p_reexecute [of "x\<lparr>x_parser := (x_parser x)\<lparr>hp_nread := hp_nread (x_parser x) + 1\<rparr>\<rparr>"]
    x_p_reexecute [of x]
  by (auto simp: one_byte_def Let_def error_exit_def)

function parse_loop :: "'e http_parser_settings \<Rightarrow> string \<Rightarrow> 'e locals \<Rightarrow> stop \<times> 'e locals" where
  "parse_loop se data x =
     (if length data \<le> x_p x then left_over_marks se data x
      else case one_byte se data x of
        (Some r, y) \<Rightarrow> (r, y)
      | (None, y) \<Rightarrow> parse_loop se data (y\<lparr>x_p := x_p y + 1\<rparr>))"
  by pat_completeness auto
termination
proof (relation "measure (\<lambda>(se, data, x). length data - x_p x)", goal_cases)
  case (2 se data x r y)
  then have "x_p x \<le> x_p y" using x_p_one_byte [of x se data] by (metis snd_conv)
  with 2 show ?case by simp
qed simp

declare parse_loop.simps [simp del]

text \<open>The marks of a piece that went on at the end of the last input.\<close>

definition mark_of :: "pstate \<Rightarrow> mark option" where
  "mark_of s =
     (if s = s_header_field then Some Header_Field
      else if s = s_header_value then Some Header_Value
      else if s \<in> {s_req_path, s_req_schema, s_req_schema_slash, s_req_schema_slash_slash,
        s_req_server_start, s_req_server, s_req_server_with_at, s_req_query_string_start,
        s_req_query_string, s_req_fragment_start, s_req_fragment} then Some Url
      else None)"

definition start_marks :: "pstate \<Rightarrow> mark \<Rightarrow> nat option" where
  "start_marks s m = (if mark_of s = Some m then Some 0 else None)"

definition start_locals :: "http_parser \<Rightarrow> 'e \<Rightarrow> 'e locals" where
  "start_locals p e = \<lparr>x_parser = p, x_env = e, x_p = 0, x_mark = start_marks (hp_state p)\<rparr>"

definition http_parser_execute ::
    "'e http_parser_settings \<Rightarrow> string \<Rightarrow> http_parser \<Rightarrow> 'e \<Rightarrow> stop \<times> http_parser \<times> 'e" where
  "http_parser_execute se data p e =
     (if hp_errno p \<noteq> HPE_OK then (Returned 0, p, e)
      else if data = [] then
        (if hp_state p = s_body_identity_eof then
           (case CALLBACK_NOTIFY se Message_Complete 0 (start_locals p e) of
              (Some r, y) \<Rightarrow> (r, x_parser y, x_env y)
            | (None, y) \<Rightarrow> (Returned 0, x_parser y, x_env y))
         else if hp_state p \<in> {s_dead, s_start_req_or_res, s_start_res, s_start_req}
         then (Returned 0, p, e)
         else (Returned 1, p\<lparr>hp_errno := HPE_INVALID_EOF_STATE\<rparr>, e))
      else (case parse_loop se data (start_locals p e) of (r, y) \<Rightarrow> (r, x_parser y, x_env y)))"

subsection \<open>A recorder\<close>

text \<open>
  Callbacks that only write down what they are told, and answer \<open>hc\<close> of the parser to
  \<^verbatim>\<open>on_headers_complete\<close>.
\<close>

datatype http_event =
    Noted notice | Piece mark string | Headers http_parser

definition recorder :: "(http_parser \<Rightarrow> bool) \<Rightarrow> http_event list http_parser_settings" where
  "recorder hc = \<lparr>
     on_message_begin = Some (\<lambda>p log. (0, p, log @ [Noted Message_Begin])),
     on_url = Some (\<lambda>p d log. (0, p, log @ [Piece Url d])),
     on_status_complete = Some (\<lambda>p log. (0, p, log @ [Noted Status_Complete])),
     on_header_field = Some (\<lambda>p d log. (0, p, log @ [Piece Header_Field d])),
     on_header_value = Some (\<lambda>p d log. (0, p, log @ [Piece Header_Value d])),
     on_headers_complete = Some (\<lambda>p log. (if hc p then 1 else 0, p, log @ [Headers p])),
     on_body = Some (\<lambda>p d log. (0, p, log @ [Piece Body d])),
     on_message_complete = Some (\<lambda>p log. (0, p, log @ [Noted Message_Complete]))\<rparr>"

end
