(* ===== verification/Http_Wellformed.thy ===== *)
theory Http_Wellformed
  imports Http_Parser
begin

section \<open>Well-formed HTTP parsers\<close>

text \<open>
  What every byte keeps of a parser: \<open>state_wf\<close> says for each state which values the index
  into a name, the header counter and the content length can have, \<open>numbers_wf\<close> bounds the
  numbers of the head.  \<open>good\<close> is what one case of the big \<^verbatim>\<open>switch\<close> owes the rest: a
  well-formed parser, no failed \<^verbatim>\<open>assert\<close> and no read behind the end of a string, marks that
  are set exactly in the states that need them, and a smaller \<open>rank\<close> when the byte is looked
  at again.  There is one lemma per case or group of cases; \<open>good_switch\<close> collects them.
\<close>

definition field_index :: "header_states \<Rightarrow> nat \<Rightarrow> bool" where
  "field_index h i = (case h of
       h_general \<Rightarrow> True | h_C \<Rightarrow> i = 0 | h_CO \<Rightarrow> i = 1 | h_CON \<Rightarrow> i = 2
     | h_matching_connection \<Rightarrow> i < 9 | h_matching_proxy_connection \<Rightarrow> i < 15
     | h_matching_content_length \<Rightarrow> i < 13 | h_matching_transfer_encoding \<Rightarrow> i < 16
     | h_matching_upgrade \<Rightarrow> i < 6
     | h_connection \<Rightarrow> True | h_content_length \<Rightarrow> True | h_transfer_encoding \<Rightarrow> True | h_upgrade \<Rightarrow> True
     | _ \<Rightarrow> False)"

definition value_index :: "header_states \<Rightarrow> nat \<Rightarrow> bool" where
  "value_index h i = (case h of
       h_general \<Rightarrow> True | h_content_length \<Rightarrow> True
     | h_matching_transfer_encoding_chunked \<Rightarrow> i < 6 | h_matching_connection_keep_alive \<Rightarrow> i < 9
     | h_matching_connection_close \<Rightarrow> i < 4
     | h_transfer_encoding_chunked \<Rightarrow> True | h_connection_keep_alive \<Rightarrow> True | h_connection_close \<Rightarrow> True
     | _ \<Rightarrow> False)"

definition chunk_states :: "pstate set" where
  "chunk_states = {s_chunk_size_start, s_chunk_size, s_chunk_parameters, s_chunk_size_almost_done,
     s_chunk_data, s_chunk_data_almost_done, s_chunk_data_done}"

definition state_wf :: "32 word \<Rightarrow> http_parser \<Rightarrow> bool" where
  "state_wf k p = (case hp_state p of
       s_req_method \<Rightarrow> hp_index p \<le> length (method_string (hp_method p))
     | s_header_field \<Rightarrow> field_index (hp_header_state p) (hp_index p)
     | s_header_value \<Rightarrow> value_index (hp_header_state p) (hp_index p)
     | s_chunk_size_start \<Rightarrow> hp_nread p = k \<and> F_CHUNKED \<in> hp_flags p
     | s_chunk_size \<Rightarrow> F_CHUNKED \<in> hp_flags p \<and> hp_content_length p \<noteq> ULLONG_MAX
     | s_chunk_parameters \<Rightarrow> F_CHUNKED \<in> hp_flags p \<and> hp_content_length p \<noteq> ULLONG_MAX
     | s_chunk_size_almost_done \<Rightarrow> F_CHUNKED \<in> hp_flags p \<and> hp_content_length p \<noteq> ULLONG_MAX
     | s_chunk_data \<Rightarrow> F_CHUNKED \<in> hp_flags p \<and> hp_content_length p \<notin> {0, ULLONG_MAX}
     | s_chunk_data_almost_done \<Rightarrow> F_CHUNKED \<in> hp_flags p \<and> hp_content_length p = 0
     | s_chunk_data_done \<Rightarrow> F_CHUNKED \<in> hp_flags p
     | s_body_identity \<Rightarrow> hp_content_length p \<notin> {0, ULLONG_MAX}
     | _ \<Rightarrow> True)"

definition numbers_wf :: "http_parser \<Rightarrow> bool" where
  "numbers_wf p \<longleftrightarrow> hp_http_major p \<le> 999 \<and> hp_http_minor p \<le> 999 \<and> hp_status_code p \<le> 999 \<and>
     hp_nread p \<le> HTTP_MAX_HEADER_SIZE"

definition parser_wf :: "32 word \<Rightarrow> http_parser \<Rightarrow> bool" where
  "parser_wf k p \<longleftrightarrow> state_wf k p \<and> numbers_wf p \<and> hp_errno p = HPE_OK"

definition url_states :: "pstate set" where
  "url_states = {s_req_path, s_req_schema, s_req_schema_slash, s_req_schema_slash_slash,
        s_req_server_start, s_req_server, s_req_server_with_at, s_req_query_string_start,
        s_req_query_string, s_req_fragment_start, s_req_fragment}"

definition body_states :: "pstate set" where
  "body_states = {s_body_identity, s_body_identity_eof, s_chunk_data, s_chunk_data_almost_done}"

definition marks_ok :: "pstate \<Rightarrow> (mark \<Rightarrow> bool) \<Rightarrow> bool" where
  "marks_ok s M \<longleftrightarrow> M Header_Field = (s = s_header_field) \<and> M Header_Value = (s = s_header_value) \<and>
     M Url = (s \<in> url_states) \<and> (M Body \<longrightarrow> s \<in> body_states)"

fun marks_after :: "effect list \<Rightarrow> (mark \<Rightarrow> bool) \<Rightarrow> mark \<Rightarrow> bool" where
  "marks_after [] M = M"
| "marks_after (Mark m # es) M = marks_after es (M(m := True))"
| "marks_after (Data m # es) M = marks_after es (M(m := False))"
| "marks_after (Data_Noadvance m # es) M = marks_after es (M(m := False))"
| "marks_after (Data_Last m # es) M = marks_after es (M(m := False))"
| "marks_after (_ # es) M = marks_after es M"

fun is_callback :: "effect \<Rightarrow> bool" where
  "is_callback (Mark m) = False"
| "is_callback (Skip n) = False"
| "is_callback _ = True"

fun calls_last :: "effect list \<Rightarrow> bool" where
  "calls_last [] = True"
| "calls_last (f # fs) = (if is_callback f then fs = [] else calls_last fs)"

fun skipped :: "effect list \<Rightarrow> nat" where
  "skipped [] = 0"
| "skipped (Skip n # es) = n + skipped es"
| "skipped (_ # es) = skipped es"

definition calls :: "effect list \<Rightarrow> bool" where "calls es = list_ex is_callback es"

definition effects_ok :: "nat \<Rightarrow> pstate \<Rightarrow> pstate \<Rightarrow> effect list \<Rightarrow> bool" where
  "effects_ok rest s t es \<longleftrightarrow> calls_last es \<and> skipped es \<le> rest - 1 \<and>
     (calls es \<longrightarrow> t \<notin> body_states \<and> mark_of t = None) \<and>
     (\<forall>M. marks_ok s M \<longrightarrow> marks_ok t (marks_after es M))"

fun rank :: "pstate \<Rightarrow> nat" where
  "rank s_header_value_lws = 4"
| "rank s_header_field_start = 3"
| "rank s_headers_almost_done = 2"
| "rank s_header_value = 2"
| "rank s_body_identity = 2"
| "rank s_start_req_or_res = 1"
| "rank _ = 0"

definition good :: "nat \<Rightarrow> pstate \<Rightarrow> step \<Rightarrow> bool" where
  "good rest s st = (case st of (q, es, e) \<Rightarrow> (case e of
       Break \<Rightarrow> parser_wf 0 q \<and> effects_ok rest s (hp_state q) es
     | Return_Next \<Rightarrow> parser_wf 0 q \<and> effects_ok rest s (hp_state q) es
     | Reexecute \<Rightarrow> parser_wf 1 q \<and> hp_state q \<noteq> s_chunk_size_start \<and> effects_ok rest s (hp_state q) es \<and>
         rank (hp_state q) < rank s \<and> (calls es \<longrightarrow> 2 \<le> rank s)
     | Goto_Error \<Rightarrow> \<not> calls es \<and> skipped es = 0 \<and> hp_errno q \<noteq> HPE_PAUSED
     | _ \<Rightarrow> False))"

lemmas sw_defs = sw_start_req_or_res_def sw_res_or_resp_H_def sw_start_res_def
  sw_res_first_http_major_def http_major_def first_http_minor_def more_major_def more_minor_def
  sw_res_http_minor_def sw_res_first_status_code_def sw_res_status_code_def sw_res_status_def
  sw_res_line_almost_done_def sw_start_req_def sw_req_method_def sw_req_spaces_before_url_def
  sw_req_schema_def sw_req_server_def sw_req_http_start_def sw_req_first_http_major_def
  sw_req_http_minor_def sw_req_line_almost_done_def sw_header_field_start_def sw_header_field_def
  sw_header_value_start_def sw_header_value_def sw_header_value_lws_def sw_header_almost_done_def
  sw_headers_almost_done_def sw_headers_done_def sw_body_identity_def sw_body_identity_eof_def
  sw_message_done_def sw_chunk_size_start_def sw_chunk_size_def sw_chunk_parameters_def
  sw_chunk_size_almost_done_def sw_chunk_data_def sw_chunk_data_almost_done_def
  sw_chunk_data_done_def url_char_def new_message_def clear_message_def


lemma digit_le: "IS_NUM c \<Longrightarrow> digit c \<le> 9"
  by (auto simp: IS_NUM_def digit_def)

lemma digit_small: "\<not> 57 < ord c \<Longrightarrow> digit c \<le> 999"
  by (simp add: digit_def)

lemma ord_less: "ord c < 256"
  by (simp add: ord_def)

lemma length_unhex: "length unhex = 256"
  by (simp add: unhex_def)

lemma unhex_bounds: "-1 \<le> unhex ! ord c \<and> unhex ! ord c \<le> 15"
proof -
  have "\<forall>v\<in>set unhex. -1 \<le> v \<and> v \<le> 15" by (auto simp: unhex_def)
  then show ?thesis using ord_less [of c] by (simp add: length_unhex)
qed

lemma unhex_not_max: "unhex ! ord c \<noteq> -1 \<Longrightarrow> word_of_int (unhex ! ord c) \<noteq> ULLONG_MAX"
proof
  assume n: "unhex ! ord c \<noteq> -1" and m: "word_of_int (unhex ! ord c) = ULLONG_MAX"
  have b: "0 \<le> unhex ! ord c" "unhex ! ord c \<le> 15" using unhex_bounds [of c] n by auto
  have "uint (word_of_int (unhex ! ord c) :: 64 word) = unhex ! ord c"
    using b by (simp add: uint_word_of_int)
  moreover have "uint (ULLONG_MAX) = 18446744073709551615" by (simp add: ULLONG_MAX_def unsigned_minus_1_eq_mask mask_eq_exp_minus_1)
  ultimately show False using m b by simp
qed

lemma NEW_MESSAGE_cases: "NEW_MESSAGE p = s_dead \<or> NEW_MESSAGE p = s_start_req \<or> NEW_MESSAGE p = s_start_res"
  by (simp add: NEW_MESSAGE_def start_state_def)

lemma parse_server_char_cases:
  "parse_server_char c \<in> {s_req_path, s_req_query_string_start, s_req_server_with_at, s_req_server, s_dead}"
  by (simp add: parse_server_char_def)

lemma parse_url_char_cases:
  "parse_url_char s c = s_dead \<or> parse_url_char s c \<in> url_states"
  using parse_server_char_cases [of c]
  by (cases s) (auto simp: parse_url_char_def url_states_def)

lemmas good_simps = good_def parser_wf_def state_wf_def numbers_wf_def effects_ok_def marks_ok_def calls_def
  url_states_def body_states_def mark_of_def

lemma good_rules:
  "good rest s (q, es, Break) \<longleftrightarrow> parser_wf 0 q \<and> effects_ok rest s (hp_state q) es"
  "good rest s (q, es, Return_Next) \<longleftrightarrow> parser_wf 0 q \<and> effects_ok rest s (hp_state q) es"
  "good rest s (q, es, Goto_Error) \<longleftrightarrow> \<not> calls es \<and> skipped es = 0 \<and> hp_errno q \<noteq> HPE_PAUSED"
  "good rest s (q, es, Reexecute) \<longleftrightarrow> parser_wf 1 q \<and> hp_state q \<noteq> s_chunk_size_start \<and>
     effects_ok rest s (hp_state q) es \<and> rank (hp_state q) < rank s \<and> (calls es \<longrightarrow> 2 \<le> rank s)"
  "\<not> good rest s (q, es, Assert_Fails)" "\<not> good rest s (q, es, Bad_Read)"
  by (simp_all add: good_def)

lemma calls_simps [simp]: "\<not> calls []" "calls (f # fs) \<longleftrightarrow> is_callback f \<or> calls fs"
  by (simp_all add: calls_def)

lemma good_expect:
  assumes "ch = want \<Longrightarrow> good rest s k"
  shows "good rest s (expect want ch p k)"
  using assms by (simp add: good_def calls_def)

lemma good_start_req_or_res: "parser_wf 1 p \<Longrightarrow> hp_state p = s_start_req_or_res \<Longrightarrow> good rest s_start_req_or_res (sw_start_req_or_res ch p)"
  by (simp add: sw_start_req_or_res_def clear_message_def good_simps Let_def)

lemma good_start_res: "parser_wf 1 p \<Longrightarrow> hp_state p = s_start_res \<Longrightarrow> good rest s_start_res (sw_start_res ch p)"
  by (simp add: sw_start_res_def clear_message_def good_simps Let_def)

lemma good_start_req: "parser_wf 1 p \<Longrightarrow> hp_state p = s_start_req \<Longrightarrow> good rest s_start_req (sw_start_req ch p)"
  by (simp add: sw_start_req_def clear_message_def good_simps Let_def)

lemma good_res_or_resp_H: "parser_wf 1 p \<Longrightarrow> hp_state p = s_res_or_resp_H \<Longrightarrow> good rest s_res_or_resp_H (sw_res_or_resp_H ch p)"
  by (simp add: sw_res_or_resp_H_def good_simps Let_def)

lemma good_res_first_http_major: "parser_wf 1 p \<Longrightarrow> hp_state p = s_res_first_http_major \<Longrightarrow> good rest s_res_first_http_major (sw_res_first_http_major ch p)"
  by (simp add: sw_res_first_http_major_def digit_small good_simps Let_def)

lemma good_res_http_major: "parser_wf 1 p \<Longrightarrow> hp_state p = s_res_http_major \<Longrightarrow> good rest s_res_http_major (http_major s_res_first_http_minor ch p)"
  by (simp add: http_major_def more_major_def good_simps Let_def)

lemma good_req_http_major: "parser_wf 1 p \<Longrightarrow> hp_state p = s_req_http_major \<Longrightarrow> good rest s_req_http_major (http_major s_req_first_http_minor ch p)"
  by (simp add: http_major_def more_major_def good_simps Let_def)

lemma good_res_first_http_minor: "parser_wf 1 p \<Longrightarrow> hp_state p = s_res_first_http_minor \<Longrightarrow> good rest s_res_first_http_minor (first_http_minor s_res_http_minor ch p)"
  by (simp add: first_http_minor_def digit_le le_trans [OF digit_le] good_simps Let_def)

lemma good_req_first_http_minor: "parser_wf 1 p \<Longrightarrow> hp_state p = s_req_first_http_minor \<Longrightarrow> good rest s_req_first_http_minor (first_http_minor s_req_http_minor ch p)"
  by (simp add: first_http_minor_def le_trans [OF digit_le] good_simps Let_def)

lemma good_res_http_minor: "parser_wf 1 p \<Longrightarrow> hp_state p = s_res_http_minor \<Longrightarrow> good rest s_res_http_minor (sw_res_http_minor ch p)"
  by (simp add: sw_res_http_minor_def more_minor_def good_simps Let_def)

lemma good_req_http_minor: "parser_wf 1 p \<Longrightarrow> hp_state p = s_req_http_minor \<Longrightarrow> good rest s_req_http_minor (sw_req_http_minor ch p)"
  by (simp add: sw_req_http_minor_def more_minor_def good_simps Let_def)

lemma good_res_first_status_code: "parser_wf 1 p \<Longrightarrow> hp_state p = s_res_first_status_code \<Longrightarrow> good rest s_res_first_status_code (sw_res_first_status_code ch p)"
  by (simp add: sw_res_first_status_code_def le_trans [OF digit_le] good_simps Let_def)

lemma good_res_status_code: "parser_wf 1 p \<Longrightarrow> hp_state p = s_res_status_code \<Longrightarrow> good rest s_res_status_code (sw_res_status_code ch p)"
  by (simp add: sw_res_status_code_def good_simps Let_def)

lemma good_res_status: "parser_wf 1 p \<Longrightarrow> hp_state p = s_res_status \<Longrightarrow> good rest s_res_status (sw_res_status ch p)"
  by (simp add: sw_res_status_def good_simps Let_def)

lemma good_res_line_almost_done: "parser_wf 1 p \<Longrightarrow> hp_state p = s_res_line_almost_done \<Longrightarrow> good rest s_res_line_almost_done (sw_res_line_almost_done ch p)"
  by (simp add: sw_res_line_almost_done_def good_simps Let_def)

lemma good_req_http_start: "parser_wf 1 p \<Longrightarrow> hp_state p = s_req_http_start \<Longrightarrow> good rest s_req_http_start (sw_req_http_start ch p)"
  by (simp add: sw_req_http_start_def good_simps Let_def)

lemma good_req_first_http_major: "parser_wf 1 p \<Longrightarrow> hp_state p = s_req_first_http_major \<Longrightarrow> good rest s_req_first_http_major (sw_req_first_http_major ch p)"
  by (simp add: sw_req_first_http_major_def digit_small good_simps Let_def)

lemma good_req_line_almost_done: "parser_wf 1 p \<Longrightarrow> hp_state p = s_req_line_almost_done \<Longrightarrow> good rest s_req_line_almost_done (sw_req_line_almost_done ch p)"
  by (simp add: sw_req_line_almost_done_def good_simps Let_def)

lemma good_header_value_lws: "parser_wf 1 p \<Longrightarrow> hp_state p = s_header_value_lws \<Longrightarrow> good rest s_header_value_lws (sw_header_value_lws ch p)"
  by (simp add: sw_header_value_lws_def good_simps Let_def)

lemma good_header_almost_done: "parser_wf 1 p \<Longrightarrow> hp_state p = s_header_almost_done \<Longrightarrow> good rest s_header_almost_done (sw_header_almost_done ch p)"
  by (simp add: sw_header_almost_done_def good_simps Let_def)

lemma good_header_field_start: "parser_wf 1 p \<Longrightarrow> hp_state p = s_header_field_start \<Longrightarrow> good rest s_header_field_start (sw_header_field_start ch p)"
  by (simp add: sw_header_field_start_def field_index_def good_simps Let_def)

lemma good_chunk_size_start: "parser_wf 1 p \<Longrightarrow> hp_state p = s_chunk_size_start \<Longrightarrow> good rest s_chunk_size_start (sw_chunk_size_start ch p)"
  by (simp add: sw_chunk_size_start_def unhex_not_max HTTP_MAX_HEADER_SIZE_def good_simps Let_def)

lemma good_chunk_size: "parser_wf 1 p \<Longrightarrow> hp_state p = s_chunk_size \<Longrightarrow> good rest s_chunk_size (sw_chunk_size ch p)"
  by (simp add: sw_chunk_size_def more_length_def good_simps Let_def split: option.splits)

lemma good_chunk_parameters: "parser_wf 1 p \<Longrightarrow> hp_state p = s_chunk_parameters \<Longrightarrow> good rest s_chunk_parameters (sw_chunk_parameters ch p)"
  by (simp add: sw_chunk_parameters_def good_simps Let_def)

lemma good_chunk_size_almost_done: "parser_wf 1 p \<Longrightarrow> hp_state p = s_chunk_size_almost_done \<Longrightarrow> good rest s_chunk_size_almost_done (sw_chunk_size_almost_done ch p)"
  by (simp add: sw_chunk_size_almost_done_def good_simps Let_def)

lemma good_chunk_data_almost_done: "parser_wf 1 p \<Longrightarrow> hp_state p = s_chunk_data_almost_done \<Longrightarrow> good rest s_chunk_data_almost_done (sw_chunk_data_almost_done ch p)"
  by (simp add: sw_chunk_data_almost_done_def good_simps Let_def)

lemma good_chunk_data_done: "parser_wf 1 p \<Longrightarrow> hp_state p = s_chunk_data_done \<Longrightarrow> good rest s_chunk_data_done (sw_chunk_data_done ch p)"
  by (simp add: sw_chunk_data_done_def good_simps Let_def)

lemma good_headers_almost_done: "parser_wf 1 p \<Longrightarrow> hp_state p = s_headers_almost_done \<Longrightarrow> good rest s_headers_almost_done (sw_headers_almost_done ch p)"
  by (simp add: sw_headers_almost_done_def new_message_def NEW_MESSAGE_def start_state_def good_simps Let_def)

lemma good_headers_done: "parser_wf 1 p \<Longrightarrow> hp_state p = s_headers_done \<Longrightarrow> good rest s_headers_done (sw_headers_done ch p)"
  by (simp add: sw_headers_done_def new_message_def NEW_MESSAGE_def start_state_def good_simps Let_def)

lemma good_message_done: "parser_wf 1 p \<Longrightarrow> hp_state p = s_message_done \<Longrightarrow> good rest s_message_done (sw_message_done p)"
  by (simp add: sw_message_done_def new_message_def NEW_MESSAGE_def start_state_def good_simps Let_def)

lemma good_body_identity_eof: "parser_wf 1 p \<Longrightarrow> hp_state p = s_body_identity_eof \<Longrightarrow> good rest s_body_identity_eof (sw_body_identity_eof rest p)"
  by (simp add: sw_body_identity_eof_def good_simps Let_def)

lemma good_header_value_start: "parser_wf 1 p \<Longrightarrow> hp_state p = s_header_value_start \<Longrightarrow> good rest s_header_value_start (sw_header_value_start ch p)"
  by (simp add: sw_header_value_start_def value_index_def good_simps Let_def split: header_states.splits)

lemma url_char_eq: "url_char ch p = (let s = parse_url_char (hp_state p) ch in
   if s = s_dead then (p\<lparr>hp_state := s, hp_errno := HPE_INVALID_URL\<rparr>, [], Goto_Error)
   else (p\<lparr>hp_state := s\<rparr>, [], Break))"
  by (simp add: url_char_def Let_def)

lemma state_wf_url: "s \<in> url_states \<Longrightarrow> state_wf k (p\<lparr>hp_state := s\<rparr>)"
  by (auto simp: state_wf_def url_states_def)

lemma url_state_kinds: "s \<in> url_states \<Longrightarrow> s \<noteq> s_header_field \<and> s \<noteq> s_header_value \<and> s \<notin> body_states"
  by (auto simp: url_states_def body_states_def)

lemma good_url_char:
  assumes "parser_wf 1 p" and "hp_state p \<in> url_states"
  shows "good rest (hp_state p) (url_char ch p)"
proof -
  from assms(2) have s: "effects_ok rest (hp_state p) t []" if "t \<in> url_states" for t
    using url_state_kinds [OF assms(2)] url_state_kinds [OF that] that
    by (auto simp: effects_ok_def marks_ok_def calls_def)
  show ?thesis
    using assms(1) parse_url_char_cases [of "hp_state p" ch]
    by (auto simp: url_char_eq Let_def good_def parser_wf_def numbers_wf_def state_wf_url s calls_def)
qed

lemma good_req_schema:
  "parser_wf 1 p \<Longrightarrow> hp_state p \<in> url_states \<Longrightarrow> good rest (hp_state p) (sw_req_schema ch p)"
  by (simp add: sw_req_schema_def good_rules good_url_char)

lemma wf_go:
  assumes "parser_wf 1 p" and "t \<in> {s_req_http_start, s_req_line_almost_done, s_header_field_start}"
  shows "parser_wf k (p\<lparr>hp_state := t\<rparr>)"
    "maj \<le> 999 \<Longrightarrow> mnr \<le> 999 \<Longrightarrow> parser_wf k (p\<lparr>hp_http_major := maj, hp_http_minor := mnr, hp_state := t\<rparr>)"
  using assms by (auto simp: parser_wf_def state_wf_def numbers_wf_def)

lemma good_req_server:
  assumes "parser_wf 1 p" and "hp_state p \<in> url_states"
  shows "good rest (hp_state p) (sw_req_server ch p)"
proof -
  have "effects_ok rest (hp_state p) t [Data Url]"
    if "t = s_req_http_start \<or> t = s_req_line_almost_done \<or> t = s_header_field_start" for t
    using that url_state_kinds [OF assms(2)] assms(2)
    by (auto simp: effects_ok_def marks_ok_def body_states_def url_states_def mark_of_def)
  with good_url_char [OF assms] show ?thesis
    by (auto simp: sw_req_server_def good_rules wf_go [OF assms(1)])
qed

lemma good_req_spaces_before_url:
  assumes "parser_wf 1 p" and "hp_state p = s_req_spaces_before_url"
  shows "good rest s_req_spaces_before_url (sw_req_spaces_before_url ch p)"
proof -
  have "effects_ok rest s_req_spaces_before_url t [Mark Url]" if "t \<in> url_states" for t
    using that url_state_kinds [OF that] by (auto simp: effects_ok_def marks_ok_def url_states_def body_states_def)
  moreover have "good rest s_req_spaces_before_url (brk p)"
    using assms by (simp add: good_simps)
  ultimately show ?thesis
    using assms parse_url_char_cases [of s_req_server_start ch]
      parse_url_char_cases [of s_req_spaces_before_url ch]
    by (auto simp: sw_req_spaces_before_url_def url_char_eq Let_def good_rules parser_wf_def numbers_wf_def
        state_wf_url)
qed

lemma method_string_no_NUL: "NUL \<notin> set (method_string m)"
  by (cases m) (simp_all add: NUL_def)

lemma method_string_length: "3 \<le> length (method_string m)" "length (method_string m) \<le> 11"
  by (cases m; simp)+

lemma next_method_length:
  assumes "next_method ch m i = Inr m'" and "i \<le> length (method_string m)"
  shows "i + 1 \<le> length (method_string m')"
  using assms method_string_length(1) [of m']
  by (auto simp: next_method_def split: if_splits)

lemma good_req_method:
  assumes "parser_wf 1 p" and "hp_state p = s_req_method"
  shows "good rest s_req_method (sw_req_method ch p)"
proof -
  let ?m = "method_string (hp_method p)"
  have i: "hp_index p \<le> length ?m" using assms by (simp add: parser_wf_def state_wf_def)
  have u: "uchar (hp_index p + 1) = hp_index p + 1"
    using i method_string_length(2) [of "hp_method p"] by (simp add: uchar_def)
  have "hp_index p + 1 \<le> length ?m" if "ch = (?m @ [NUL]) ! hp_index p" "ch \<noteq> NUL"
    using i that by (cases "hp_index p = length ?m") (auto simp: nth_append)
  moreover have "effects_ok rest s_req_method t []" if "t = s_req_method \<or> t = s_req_spaces_before_url" for t
    using that by (auto simp: effects_ok_def marks_ok_def url_states_def body_states_def)
  moreover have "hp_index p + 1 \<le> length (method_string m)"
    if "next_method ch (hp_method p) (hp_index p) = Inr m" for m
    using next_method_length [OF that i] .
  moreover have "next_method ch m k \<noteq> Inl (Some HPE_PAUSED)" for m k
    by (simp add: next_method_def)
  ultimately show ?thesis
    using assms i u
    by (auto simp: sw_req_method_def Let_def good_rules parser_wf_def numbers_wf_def state_wf_def
        split: sum.splits option.splits)
qed

lemma matching_wf:
  assumes "hp_index p + 1 < length name" "length name < 256"
  shows "matching name h c p = (if c = name ! (hp_index p + 1)
     then p\<lparr>hp_index := hp_index p + 1,
       hp_header_state := (if hp_index p + 2 = length name then h else hp_header_state p)\<rparr>
     else p\<lparr>hp_index := hp_index p + 1, hp_header_state := h_general\<rparr>)"
  using assms by (auto simp: matching_def Let_def uchar_def nth_append)

lemmas names = CONNECTION_def PROXY_CONNECTION_def CONTENT_LENGTH_def TRANSFER_ENCODING_def UPGRADE_def
  CHUNKED_def KEEP_ALIVE_def CLOSE_def

lemma field_token_wf:
  assumes "field_index (hp_header_state p) (hp_index p)"
  shows "\<exists>q. field_token ch c p = Some q \<and> field_index (hp_header_state q) (hp_index q) \<and>
    q = p\<lparr>hp_index := hp_index q, hp_header_state := hp_header_state q\<rparr>"
  using assms
  by (cases "hp_header_state p")
    (auto simp: field_token_def field_index_def next_index_def uchar_def matching_wf names)

lemma good_header_field:
  assumes "parser_wf 1 p" and "hp_state p = s_header_field"
  shows "good rest s_header_field (sw_header_field ch p)"
proof -
  have f: "field_index (hp_header_state p) (hp_index p)" using assms by (simp add: parser_wf_def state_wf_def)
  then obtain q where q: "field_token ch (TOKEN ch) p = Some q" "field_index (hp_header_state q) (hp_index q)"
      "q = p\<lparr>hp_index := hp_index q, hp_header_state := hp_header_state q\<rparr>"
    using field_token_wf by blast
  obtain i h where e: "q = p\<lparr>hp_index := i, hp_header_state := h\<rparr>" using q(3) by blast
  have "parser_wf 0 q" using assms q(2) by (simp add: e parser_wf_def state_wf_def numbers_wf_def)
  then show ?thesis
    using assms q(1) e by (simp add: sw_header_field_def Let_def good_simps good_rules)
qed

lemma more_length_max: "more_length b n d = Some t \<Longrightarrow> t \<noteq> ULLONG_MAX"
  by (auto simp: more_length_def Let_def split: if_splits)

lemma good_header_value:
  assumes "parser_wf 1 p" and "hp_state p = s_header_value"
  shows "good rest s_header_value (sw_header_value ch p)"
proof -
  have v: "value_index (hp_header_state p) (hp_index p)" using assms by (simp add: parser_wf_def state_wf_def)
  have "good rest s_header_value (value_token ch (LOWER ch) p)"
    using v assms
    by (cases "hp_header_state p")
      (auto simp: value_token_def value_index_def matching_wf names good_simps split: option.splits)
  moreover have "effects_ok rest s_header_value s_header_almost_done [f Header_Value]"
    if "f = Data \<or> f = Data_Noadvance" for f
    using that by (auto simp: effects_ok_def marks_ok_def url_states_def body_states_def mark_of_def)
  moreover have "parser_wf k (p\<lparr>hp_state := s_header_almost_done\<rparr>)" for k
    using assms by (simp add: parser_wf_def state_wf_def numbers_wf_def)
  ultimately show ?thesis
    by (simp add: sw_header_value_def good_rules)
qed

lemma body_left:
  fixes n r :: "64 word"
  assumes "n \<noteq> ULLONG_MAX"
  shows "n - min n r \<noteq> ULLONG_MAX" "unat (min n (of_nat k)) - 1 \<le> k - 1"
proof -
  have "unat (min n r) \<le> unat n" by (simp add: word_le_nat_alt [symmetric])
  then have "unat (n - min n r) \<le> unat n" by (simp add: unat_sub_if')
  moreover have "unat n < unat ULLONG_MAX"
    using assms by (metis ULLONG_MAX_def le_neq_implies_less word_le_nat_alt word_order.extremum word_unat_eq_iff)
  ultimately show "n - min n r \<noteq> ULLONG_MAX" by auto
  have "unat (min n (of_nat k)) \<le> unat (of_nat k :: 64 word)" by (simp add: word_le_nat_alt [symmetric])
  also have "\<dots> \<le> k" by (simp add: unat_of_nat)
  finally show "unat (min n (of_nat k)) - 1 \<le> k - 1" by simp
qed

lemma good_body_identity:
  assumes "parser_wf 1 p" and "hp_state p = s_body_identity"
  shows "good rest s_body_identity (sw_body_identity rest p)"
proof -
  define r where "r = min (hp_content_length p) (of_nat rest)"
  have "hp_content_length p \<noteq> ULLONG_MAX" using assms by (simp add: parser_wf_def state_wf_def)
  from body_left [OF this] have "hp_content_length p - r \<noteq> ULLONG_MAX" "unat r - 1 \<le> rest - 1"
    by (simp_all add: r_def)
  then show ?thesis
    using assms by (simp add: sw_body_identity_def Let_def good_simps flip: r_def)
qed

lemma good_chunk_data:
  assumes "parser_wf 1 p" and "hp_state p = s_chunk_data"
  shows "good rest s_chunk_data (sw_chunk_data rest p)"
proof -
  define r where "r = min (hp_content_length p) (of_nat rest)"
  have "hp_content_length p \<noteq> ULLONG_MAX" using assms by (simp add: parser_wf_def state_wf_def)
  from body_left [OF this] have "hp_content_length p - r \<noteq> ULLONG_MAX" "unat r - 1 \<le> rest - 1"
    by (simp_all add: r_def)
  then show ?thesis
    using assms by (simp add: sw_chunk_data_def Let_def good_simps flip: r_def)
qed

lemma good_goes:
  assumes "parser_wf 1 p" "mark_of (hp_state p) = None" "hp_state p \<notin> body_states" "mark_of t = None" "t \<notin> body_states"
    "state_wf 0 (p\<lparr>hp_state := t\<rparr>)"
  shows "good rest (hp_state p) (go t p)"
  using assms by (auto simp: good_rules parser_wf_def numbers_wf_def effects_ok_def marks_ok_def mark_of_def url_states_def split: if_splits)

theorem good_switch:
  assumes "parser_wf 1 p"
  shows "good rest (hp_state p) (switch rest ch p)"
proof (cases "hp_state p \<in> url_states")
  case True
  with good_req_schema [OF assms True, of rest ch] good_req_server [OF assms True, of rest ch] show ?thesis
    by (auto simp: switch_def url_states_def)
next
  case False
  note g = good_start_req_or_res good_start_res good_start_req good_res_or_resp_H
    good_res_first_http_major good_res_http_major good_req_http_major good_res_first_http_minor
    good_req_first_http_minor good_res_http_minor good_req_http_minor good_res_first_status_code
    good_res_status_code good_res_status good_res_line_almost_done good_req_http_start
    good_req_first_http_major good_req_line_almost_done good_header_value_lws good_header_almost_done
    good_header_field_start good_chunk_size_start good_chunk_size good_chunk_parameters
    good_chunk_size_almost_done good_chunk_data_almost_done good_chunk_data_done
    good_headers_almost_done good_headers_done good_message_done good_body_identity_eof
    good_header_value_start good_req_spaces_before_url good_req_method good_header_field
    good_header_value good_body_identity good_chunk_data
  have "good rest s_dead (switch rest ch p)" if "hp_state p = s_dead"
    using assms that by (simp add: switch_def good_simps)
  moreover have "good rest (hp_state p) (go t p)"
    if "mark_of (hp_state p) = None" "hp_state p \<notin> body_states"
      "t \<in> {s_res_HT, s_res_HTT, s_res_HTTP, s_res_first_http_major, s_req_http_HT, s_req_http_HTT,
        s_req_http_HTTP, s_req_first_http_major}" for t
    by (rule good_goes) (use assms that in \<open>auto simp: mark_of_def body_states_def state_wf_def\<close>)
  ultimately show ?thesis
    using False assms
    by (cases "hp_state p")
      (simp_all add: switch_def g good_expect mark_of_def body_states_def url_states_def good_rules)
qed

end
