(* ===== verification/Http_Safety.thy ===== *)
theory Http_Safety
  imports Http_Wellformed
begin

section \<open>The HTTP parser comes back\<close>

text \<open>
  From the single case to the whole call.  \<open>well_behaved\<close> is what the API lets a callback do
  (leave the parser, pause it or initialise it anew), \<open>resting\<close> what a parser is between two
  calls.  The lemmas follow the layers of the model: a callback, the macros of a case, the
  label \<^verbatim>\<open>reexecute_byte\<close>, one byte, the loop.  The locale \<open>parser_client\<close> is the interface
  of the parser's clients.
\<close>

definition api_moves :: "http_parser \<Rightarrow> http_parser \<Rightarrow> bool" where
  "api_moves p q \<longleftrightarrow> (\<exists>e\<in>{HPE_OK, HPE_PAUSED}.
     q = p\<lparr>hp_errno := e\<rparr> \<or> (\<exists>t. q = (http_parser_init t)\<lparr>hp_errno := e\<rparr>))"

definition well_behaved :: "'e http_parser_settings \<Rightarrow> bool" where
  "well_behaved se \<longleftrightarrow> (\<forall>p e. hp_errno p = HPE_OK \<longrightarrow>
     (\<forall>n f. fst (notify_cb se n) = Some f \<longrightarrow> api_moves p (fst (snd (f p e)))) \<and>
     (\<forall>m f d. fst (data_cb se m) = Some f \<longrightarrow> api_moves p (fst (snd (f p d e)))) \<and>
     (\<forall>f. on_headers_complete se = Some f \<longrightarrow> api_moves p (fst (snd (f p e)))))"

definition resting :: "http_parser \<Rightarrow> bool" where
  "resting p \<longleftrightarrow> (hp_errno p \<in> {HPE_OK, HPE_PAUSED} \<longrightarrow> parser_wf 0 (p\<lparr>hp_errno := HPE_OK\<rparr>))"

definition start_states :: "pstate set" where
  "start_states = {s_start_req, s_start_res, s_start_req_or_res}"

lemma wf_init: "parser_wf k (http_parser_init t)"
  by (simp add: parser_wf_def state_wf_def numbers_wf_def http_parser_init_def)

lemma wf_update:
  "parser_wf k (p\<lparr>hp_flags := insert F_SKIPBODY (hp_flags p)\<rparr>) = parser_wf k p"
  "hp_errno p = HPE_OK \<Longrightarrow> p\<lparr>hp_errno := HPE_OK\<rparr> = p"
  by (simp_all add: parser_wf_def state_wf_def numbers_wf_def cong: pstate.case_cong)

lemma wf_wider: "parser_wf k p \<Longrightarrow> hp_state p \<noteq> s_chunk_size_start \<Longrightarrow> parser_wf k' p"
  by (auto simp: parser_wf_def state_wf_def split: pstate.splits)

text \<open>What a callback leaves of a well-formed parser.\<close>

definition after_call :: "http_parser \<Rightarrow> http_parser \<Rightarrow> bool" where
  "after_call q r \<longleftrightarrow> (\<exists>r'. api_moves q r' \<and> (r = r' \<or> r = r'\<lparr>hp_flags := insert F_SKIPBODY (hp_flags r')\<rparr>))"

lemma init_state: "hp_state (http_parser_init t) \<in> start_states" "hp_errno (http_parser_init t) = HPE_OK"
  by (simp_all add: http_parser_init_def start_states_def)

lemma after_call_wf:
  assumes "parser_wf k q" and "after_call q r" and "hp_errno r \<in> {HPE_OK, HPE_PAUSED}"
  shows "parser_wf k (r\<lparr>hp_errno := HPE_OK\<rparr>) \<and> (hp_state r = hp_state q \<or> hp_state r \<in> start_states)"
  using assms wf_init [of k] init_state(1)
  by (auto simp: after_call_def api_moves_def parser_wf_def state_wf_def numbers_wf_def http_parser_init_def
      cong: pstate.case_cong split del: if_split)

text \<open>One callback: it stops the parser with a count, or leaves it as the API allows.\<close>

definition marked :: "'e locals \<Rightarrow> mark \<Rightarrow> bool" where
  "marked x m = (x_mark x m \<noteq> None)"

definition call_post :: "http_parser \<Rightarrow> nat \<Rightarrow> nat \<Rightarrow> (mark \<Rightarrow> bool) \<Rightarrow> stop option \<times> 'e locals \<Rightarrow> bool" where
  "call_post q p lim M ry = (case ry of (r, y) \<Rightarrow> x_p y = p \<and> (case r of
       None \<Rightarrow> marked y = M \<and> hp_errno (x_parser y) = HPE_OK \<and> after_call q (x_parser y)
     | Some st \<Rightarrow> (\<exists>n. st = Returned n \<and> n \<le> lim) \<and>
         (hp_errno (x_parser y) \<in> {HPE_OK, HPE_PAUSED} \<longrightarrow> after_call q (x_parser y))))"

lemma api_moves_refl: "hp_errno q = HPE_OK \<Longrightarrow> api_moves q q"
  by (auto simp: api_moves_def intro!: exI [of _ HPE_OK])

lemma after_call_refl: "hp_errno q = HPE_OK \<Longrightarrow> after_call q q"
  unfolding after_call_def using api_moves_refl by blast

lemma after_callback_post:
  assumes "api_moves q (fst (snd a))" and "err \<notin> {HPE_OK, HPE_PAUSED}" and "er \<le> lim" and "marked x = M"
  shows "call_post q (x_p x) lim M (after_callback err er a x)"
  using assms
  by (auto simp: call_post_def after_callback_def after_call_def marked_def fun_eq_iff Let_def
      split: prod.splits)

lemma cb_errnos: "snd (notify_cb se n) \<notin> {HPE_OK, HPE_PAUSED}" "snd (data_cb se m) \<notin> {HPE_OK, HPE_PAUSED}"
  by (cases n; simp) (cases m; simp)

lemma clear_mark_simps [simp]:
  "x_parser (clear_mark m x) = x_parser x" "x_p (clear_mark m x) = x_p x"
  by (simp_all add: clear_mark_def)

lemma notify_post:
  assumes "well_behaved se" and "hp_errno (x_parser x) = HPE_OK" and "er \<le> lim" and "marked x = M"
  shows "call_post (x_parser x) (x_p x) lim M (CALLBACK_NOTIFY se n er x)"
proof (cases "fst (notify_cb se n)")
  case None
  then show ?thesis using assms
    by (auto simp: CALLBACK_NOTIFY_def call_post_def after_call_refl split: prod.splits)
next
  case (Some f)
  then show ?thesis using assms(1,2) cb_errnos(1) [of se n]
      after_callback_post [OF _ _ assms(3,4), of "x_parser x" "f (x_parser x) (x_env x)" "snd (notify_cb se n)"]
    by (auto simp: CALLBACK_NOTIFY_def well_behaved_def split: prod.splits)
qed

lemma marked_upds [simp]:
  "marked (x\<lparr>x_parser := q\<rparr>) = marked x" "marked (x\<lparr>x_p := n\<rparr>) = marked x"
  by (simp_all add: marked_def fun_eq_iff)

lemma marked_MARK: "marked (MARK m x) = (marked x)(m := True)"
  by (auto simp: marked_def MARK_def fun_eq_iff)

lemma marked_clear: "marked (clear_mark m x) = (marked x)(m := False)"
  by (simp add: marked_def clear_mark_def fun_eq_iff)

lemma data_post:
  assumes "well_behaved se" and "hp_errno (x_parser x) = HPE_OK" and "er \<le> lim" and "marked x = M"
  shows "call_post (x_parser x) (x_p x) lim (M(m := False)) (CALLBACK_DATA se data m stop er x)"
proof (cases "x_mark x m")
  case None
  then have "M m = False" using assms(4) by (auto simp: marked_def)
  then have "M(m := False) = marked x" unfolding assms(4) by (rule fun_upd_idem)
  moreover have "CALLBACK_DATA se data m stop er x = (None, x)"
    using assms(2) None by (simp add: CALLBACK_DATA_def)
  ultimately show ?thesis using assms(2)
    by (simp only: call_post_def prod.case option.case after_call_refl simp_thms)
next
  case (Some k)
  show ?thesis
  proof (cases "fst (data_cb se m)")
    case None
    with Some assms show ?thesis
      by (auto simp: CALLBACK_DATA_def call_post_def after_call_refl marked_clear
          split: prod.splits)
  next
    case f: (Some f)
    let ?a = "f (x_parser x) (take (stop - k) (drop k data)) (x_env x)"
    have "api_moves (x_parser x) (fst (snd ?a))"
      using assms(1,2) f by (auto simp: well_behaved_def)
    from after_callback_post [OF this cb_errnos(2) assms(3,4)]
    have "call_post (x_parser x) (x_p x) lim M (after_callback (snd (data_cb se m)) er ?a x)" .
    moreover obtain err where "data_cb se m = (Some f, err)" using f by (cases "data_cb se m") auto
    ultimately show ?thesis
      using Some assms(2)
      by (auto simp: CALLBACK_DATA_def call_post_def marked_clear split: prod.splits option.splits)
  qed
qed

lemma headers_complete_post:
  assumes "well_behaved se" and "hp_errno (x_parser x) = HPE_OK" and "x_p x \<le> lim" and "marked x = M"
  shows "call_post (x_parser x) (x_p x) lim M (headers_complete se x)"
proof (cases "on_headers_complete se")
  case None
  then show ?thesis using assms
    by (simp add: headers_complete_def call_post_def after_call_refl)
next
  case (Some f)
  obtain r q e where a: "f (x_parser x) (x_env x) = (r, q, e)" by (metis prod_cases3)
  have m: "api_moves (x_parser x) q" using assms(1,2) Some a unfolding well_behaved_def by (metis fst_conv snd_conv)
  show ?thesis
    using assms(3,4) m unfolding headers_complete_def Some
    by (auto simp: a call_post_def after_call_def marked_def fun_eq_iff Let_def)
qed

lemma run_effect_post:
  assumes "well_behaved se" and "hp_errno (x_parser x) = HPE_OK" and "is_callback f" and "marked x = M"
    and "x_p x + 1 \<le> lim"
  shows "call_post (x_parser x) (x_p x) lim (marks_after [f] M) (run_effect se data f x)"
  using assms notify_post [OF assms(1,2) _ assms(4)] data_post [OF assms(1,2) _ assms(4)]
    headers_complete_post [OF assms(1,2) _ assms(4)]
  by (cases f) simp_all

lemma run_effects_post:
  assumes "well_behaved se" and "hp_errno (x_parser x) = HPE_OK" and "calls_last es"
  shows "call_post (x_parser x) (x_p x + skipped es) (x_p x + skipped es + 1) (marks_after es (marked x))
     (run_effects se data es x) \<and>
    (\<not> calls es \<longrightarrow> fst (run_effects se data es x) = None \<and> x_parser (snd (run_effects se data es x)) = x_parser x)"
  using assms(2,3)
proof (induction es arbitrary: x)
  case Nil
  then show ?case by (simp add: call_post_def after_call_refl)
next
  case (Cons f fs)
  show ?case
  proof (cases "is_callback f")
    case True
    then have "skipped [f] = 0" "fs = []" using Cons.prems(2) by (cases f; simp)+
    with run_effect_post [OF assms(1) Cons.prems(1) True refl order_refl, of data] True show ?thesis
      by (auto simp: call_post_def split: prod.splits option.splits)
  next
    case False
    then have fs: "calls_last fs" using Cons.prems(2) by simp
    show ?thesis
    proof (cases f)
      case (Mark m)
      have "x_parser (MARK m x) = x_parser x" "x_p (MARK m x) = x_p x"
        by (simp_all add: MARK_def)
      with Cons.IH [OF _ fs, of "MARK m x"] Cons.prems(1) show ?thesis
        by (simp add: Mark flip: marked_MARK)
    next
      case (Skip n)
      let ?y = "x\<lparr>x_p := x_p x + n\<rparr>"
      from Cons.IH [OF _ fs, of ?y] Cons.prems(1) show ?thesis
        by (simp add: Skip add.assoc)
    qed (use False in simp_all)
  qed
qed

lemma run_effects_marks:
  "\<not> calls es \<Longrightarrow> skipped es = 0 \<Longrightarrow> fst (run_effects se data es x) = None \<and>
     x_p (snd (run_effects se data es x)) = x_p x \<and> x_parser (snd (run_effects se data es x)) = x_parser x"
proof (induction es arbitrary: x)
  case (Cons f fs)
  then show ?case by (cases f) (simp_all add: MARK_def)
qed simp

lemma marks_ok_none: "t \<notin> body_states \<Longrightarrow> mark_of t = None \<Longrightarrow> marks_ok t M \<Longrightarrow> M = (\<lambda>_. False)"
proof (rule ext)
  fix m assume "t \<notin> body_states" "mark_of t = None" "marks_ok t M"
  then show "M m = False"
    by (cases m) (auto simp: marks_ok_def mark_of_def url_states_def split: if_splits)
qed

lemma marks_ok_start: "t \<in> start_states \<Longrightarrow> marks_ok t (\<lambda>_. False)"
  by (auto simp: marks_ok_def start_states_def url_states_def)

lemma rank_start: "t \<in> start_states \<Longrightarrow> rank t \<le> 1 \<and> t \<noteq> s_chunk_size_start"
  by (auto simp: start_states_def)

lemma after_call_rest:
  assumes "parser_wf k q" and "after_call q r" and "k = 0 \<or> hp_state q \<noteq> s_chunk_size_start"
  shows "resting r"
proof -
  have "parser_wf 0 q" using assms wf_wider by blast
  from after_call_wf [OF this assms(2)] show ?thesis by (auto simp: resting_def)
qed

text \<open>The effects of a case, from a parser that is well-formed after its switch.\<close>

definition progress_post :: "nat \<Rightarrow> nat \<Rightarrow> (http_parser \<Rightarrow> bool) \<Rightarrow> stop option \<times> 'e locals \<Rightarrow> bool" where
  "progress_post p lim P ry = (case ry of (r, y) \<Rightarrow> p \<le> x_p y \<and> x_p y < lim \<and> (case r of
       None \<Rightarrow> P (x_parser y) \<and> marks_ok (hp_state (x_parser y)) (marked y)
     | Some st \<Rightarrow> (\<exists>n. st = Returned n \<and> n \<le> lim) \<and> resting (x_parser y)))"

lemma run_effects_progress:
  assumes "well_behaved se" and "parser_wf k (x_parser x)" and "k = 0 \<or> hp_state (x_parser x) \<noteq> s_chunk_size_start"
    and "effects_ok rest s (hp_state (x_parser x)) es" and "marks_ok s (marked x)"
    and "x_p x + rest = lim" and "0 < rest"
  shows "progress_post (x_p x) lim (\<lambda>r. parser_wf k r \<and> (hp_state r = hp_state (x_parser x) \<or>
      (calls es \<and> hp_state r \<in> start_states))) (run_effects se data es x)"
proof -
  let ?q = "x_parser x"
  obtain r y where ry: "run_effects se data es x = (r, y)" by force
  have e: "calls_last es" "skipped es \<le> rest - 1" "marks_ok (hp_state ?q) (marks_after es (marked x))"
    "calls es \<Longrightarrow> hp_state ?q \<notin> body_states \<and> mark_of (hp_state ?q) = None"
    using assms(4,5) by (auto simp: effects_ok_def)
  have ok: "hp_errno ?q = HPE_OK" using assms(2) by (simp add: parser_wf_def)
  from run_effects_post [OF assms(1) ok e(1), of data]
  have post: "call_post ?q (x_p x + skipped es) (x_p x + skipped es + 1) (marks_after es (marked x)) (r, y)"
    and plain: "\<not> calls es \<Longrightarrow> r = None \<and> x_parser y = ?q"
    by (simp_all add: ry)
  then have plain': "calls es \<or> x_parser y = ?q" by blast
  have p: "x_p y = x_p x + skipped es" using post by (simp add: call_post_def)
  have lim: "x_p x + skipped es + 1 \<le> lim" using e(2) assms(6,7) by simp
  show ?thesis
  proof (cases r)
    case None
    with post have y: "marked y = marks_after es (marked x)" "hp_errno (x_parser y) = HPE_OK"
        "after_call ?q (x_parser y)"
      by (simp_all add: call_post_def)
    from after_call_wf [OF assms(2) y(3)] y(2)
    have w: "parser_wf k (x_parser y)" "hp_state (x_parser y) = hp_state ?q \<or> hp_state (x_parser y) \<in> start_states"
      by (simp_all add: wf_update)
    have "marks_ok (hp_state (x_parser y)) (marked y)"
    proof (cases "hp_state (x_parser y) = hp_state ?q")
      case True
      with e(3) y(1) show ?thesis by simp
    next
      case False
      then have "calls es" using plain' by auto
      with e(3,4) marks_ok_none have "marks_after es (marked x) = (\<lambda>_. False)" by blast
      with y(1) w(2) False show ?thesis by (simp add: marks_ok_start)
    qed
    moreover have "hp_state (x_parser y) = hp_state ?q \<or> (calls es \<and> hp_state (x_parser y) \<in> start_states)"
      using w(2) plain' by auto
    ultimately show ?thesis
      using None w(1) p lim by (simp add: progress_post_def ry)
  next
    case (Some st)
    with post have "\<exists>n. st = Returned n \<and> n \<le> x_p x + skipped es + 1"
      "hp_errno (x_parser y) \<in> {HPE_OK, HPE_PAUSED} \<longrightarrow> after_call ?q (x_parser y)"
      by (simp_all add: call_post_def)
    moreover from this(2) after_call_rest [OF assms(2) _ assms(3)] have "resting (x_parser y)"
      by (auto simp: resting_def)
    ultimately show ?thesis
      using Some p lim by (auto simp: progress_post_def ry)
  qed
qed

lemma reexecute_progress:
  assumes "well_behaved se" and "parser_wf 1 (x_parser x)" and "marks_ok (hp_state (x_parser x)) (marked x)"
    and "x_p x < length data" and "rank (hp_state (x_parser x)) < n"
  shows "progress_post (x_p x) (length data) (parser_wf 0) (reexecute_byte n se data ch x)"
  using assms(2-5)
proof (induction n arbitrary: x)
  case (Suc n)
  let ?s = "hp_state (x_parser x)" and ?rest = "length data - x_p x"
  obtain q es e where sw: "switch ?rest ch (x_parser x) = (q, es, e)" by (metis prod_cases3)
  have g: "good ?rest ?s (q, es, e)" using good_switch [OF Suc.prems(1)] sw by metis
  let ?x = "x\<lparr>x_parser := q\<rparr>"
  obtain r y where ry: "run_effects se data es ?x = (r, y)" by force
  have m: "marks_ok ?s (marked ?x)" using Suc.prems(2) by simp
  have rest: "x_p ?x + ?rest = length data" "0 < ?rest" using Suc.prems(3) by simp_all
  note prog = run_effects_progress [OF assms(1) _ _ _ m rest, where data = data and es = es, unfolded ry]
  show ?case
  proof (cases e)
    case Break
    with g have "parser_wf 0 q" "effects_ok ?rest ?s (hp_state q) es" by (simp_all add: good_rules)
    with prog [of 0] show ?thesis
      by (auto simp: sw ry Break progress_post_def split: option.splits)
  next
    case Return_Next
    with g have w: "parser_wf 0 q" "effects_ok ?rest ?s (hp_state q) es" by (simp_all add: good_rules)
    have "resting p" if "parser_wf 0 p" for p using that by (simp add: resting_def parser_wf_def wf_update)
    with w prog [of 0] show ?thesis
      by (auto simp: sw ry Return_Next progress_post_def split: option.splits)
  next
    case Goto_Error
    with g have c: "\<not> calls es" "skipped es = 0" "hp_errno q \<noteq> HPE_PAUSED" by (simp_all add: good_rules)
    then have "x_p y = x_p x \<and> r = None \<and> x_parser y = q"
      using run_effects_marks [OF c(1,2), of se data ?x] ry by simp
    then show ?thesis using Suc.prems(3) c(3)
      by (auto simp: sw ry Goto_Error progress_post_def error_exit_def resting_def)
  next
    case Reexecute
    with g have w: "parser_wf 1 q" "hp_state q \<noteq> s_chunk_size_start" "effects_ok ?rest ?s (hp_state q) es"
      "rank (hp_state q) < rank ?s" "calls es \<Longrightarrow> 2 \<le> rank ?s"
      by (simp_all add: good_rules)
    with prog [of 1] have pp: "progress_post (x_p x) (length data) (\<lambda>r. parser_wf 1 r \<and> (hp_state r = hp_state q \<or>
      (calls es \<and> hp_state r \<in> start_states))) (r, y)" by simp
    show ?thesis
    proof (cases r)
      case None
      with pp have y: "parser_wf 1 (x_parser y)" "marks_ok (hp_state (x_parser y)) (marked y)" "x_p x \<le> x_p y"
        "x_p y < length data" "hp_state (x_parser y) = hp_state q \<or> (calls es \<and> hp_state (x_parser y) \<in> start_states)"
        by (simp_all add: progress_post_def)
      have "rank (hp_state (x_parser y)) < n"
        using y(5) w(4,5) Suc.prems(4) rank_start [of "hp_state (x_parser y)"] by auto
      from Suc.IH [OF y(1,2,4) this] y(3) show ?thesis
        by (auto simp: sw ry Reexecute None progress_post_def split: option.splits)
    next
      case (Some st)
      with pp show ?thesis by (simp add: sw ry Reexecute progress_post_def)
    qed
  qed (use g in \<open>simp_all add: good_rules\<close>)
qed simp

lemma one_byte_progress:
  assumes "well_behaved se" and "parser_wf 0 (x_parser x)" and "marks_ok (hp_state (x_parser x)) (marked x)"
    and "x_p x < length data"
  shows "progress_post (x_p x) (length data) (parser_wf 0) (one_byte se data x)"
proof -
  let ?p = "x_parser x"
  have rank: "rank s < reexecutions" for s
    by (cases s) (simp_all add: reexecutions_def)
  show ?thesis
  proof (cases "PARSING_HEADER (hp_state ?p)")
    case True
    let ?q = "?p\<lparr>hp_nread := hp_nread ?p + 1\<rparr>"
    have "parser_wf 1 ?q" if "\<not> HTTP_MAX_HEADER_SIZE < hp_nread ?q"
      using assms(2) that
      by (auto simp: parser_wf_def state_wf_def numbers_wf_def HTTP_MAX_HEADER_SIZE_def split: pstate.splits)
    with reexecute_progress [OF assms(1), of "x\<lparr>x_parser := ?q\<rparr>" data reexecutions "data ! x_p x"] assms(3,4) rank True
    show ?thesis
      by (auto simp: one_byte_def Let_def progress_post_def error_exit_def resting_def not_less)
  next
    case False
    then have "hp_state ?p \<noteq> s_chunk_size_start" by (auto simp: PARSING_HEADER_def)
    with wf_wider assms(2) have "parser_wf 1 ?p" by blast
    with reexecute_progress [OF assms(1) _ assms(3,4), of reexecutions "data ! x_p x"] rank False show ?thesis
      by (simp add: one_byte_def Let_def)
  qed
qed

definition finished :: "string \<Rightarrow> stop \<Rightarrow> http_parser \<Rightarrow> bool" where
  "finished data r q \<longleftrightarrow> (\<exists>n. r = Returned n \<and> n \<le> length data) \<and> resting q"

lemma wf_resting: "parser_wf 0 p \<Longrightarrow> resting p"
  by (simp add: resting_def parser_wf_def wf_update)

lemma left_overs:
  assumes "well_behaved se" and "parser_wf 0 (x_parser x)" and "x_p x \<le> length data"
  shows "case run_effects se data (map Data_Noadvance ms) x of (r, y) \<Rightarrow>
     (case r of None \<Rightarrow> parser_wf 0 (x_parser y) | Some st \<Rightarrow> finished data st (x_parser y))"
  using assms(2,3)
proof (induction ms arbitrary: x)
  case (Cons m ms)
  have ok: "hp_errno (x_parser x) = HPE_OK" using Cons.prems(1) by (simp add: parser_wf_def)
  obtain r y where ry: "CALLBACK_DATA se data m (x_p x) (x_p x) x = (r, y)" by force
  from data_post [OF assms(1) ok order_refl refl, where m = m and data = data and stop = "x_p x" and er = "x_p x"]
  have post: "call_post (x_parser x) (x_p x) (x_p x) ((marked x)(m := False)) (r, y)" by (simp add: ry)
  show ?case
  proof (cases r)
    case None
    with post have "after_call (x_parser x) (x_parser y)" "hp_errno (x_parser y) = HPE_OK" "x_p y = x_p x"
      by (simp_all add: call_post_def)
    moreover from this have "parser_wf 0 (x_parser y)"
      using after_call_wf [OF Cons.prems(1), of "x_parser y"] by (simp add: wf_update)
    ultimately show ?thesis
      using Cons.IH [of y] Cons.prems(2) by (simp add: ry None)
  next
    case (Some st)
    with post Cons.prems(2) after_call_wf [OF Cons.prems(1), of "x_parser y"] show ?thesis
      by (auto simp: ry call_post_def finished_def resting_def)
  qed
qed simp

lemma marks_ok_one: "marks_ok s (marked x) \<Longrightarrow> length (marks_set x) \<le> 1"
  by (auto simp: marks_ok_def marks_set_def marked_def url_states_def body_states_def)

lemma parse_loop_finishes:
  assumes "well_behaved se" and "parser_wf 0 (x_parser x)" and "marks_ok (hp_state (x_parser x)) (marked x)"
    and "x_p x \<le> length data"
  shows "case parse_loop se data x of (r, y) \<Rightarrow> finished data r (x_parser y)"
  using assms(2-4)
proof (induction "length data - x_p x" arbitrary: x rule: less_induct)
  case less
  show ?case
  proof (cases "length data \<le> x_p x")
    case True
    have "map Data_Noadvance [Header_Field, Header_Value, Url, Body] =
      [Data_Noadvance Header_Field, Data_Noadvance Header_Value, Data_Noadvance Url, Data_Noadvance Body]"
      by simp
    with left_overs [OF assms(1) less.prems(1,3), of "[Header_Field, Header_Value, Url, Body]"] True
      marks_ok_one [OF less.prems(2)]
    show ?thesis
      by (subst parse_loop.simps)
        (auto simp: left_over_marks_def finished_def wf_resting simp del: run_effects.simps
          split: prod.splits option.splits)
  next
    case False
    then have lt: "x_p x < length data" by simp
    obtain r y where ry: "one_byte se data x = (r, y)" by force
    from one_byte_progress [OF assms(1) less.prems(1,2) lt]
    have post: "progress_post (x_p x) (length data) (parser_wf 0) (r, y)" by (simp add: ry)
    show ?thesis
    proof (cases r)
      case None
      let ?z = "y\<lparr>x_p := x_p y + 1\<rparr>"
      from post None have "parser_wf 0 (x_parser ?z)" "marks_ok (hp_state (x_parser ?z)) (marked ?z)"
        "x_p ?z \<le> length data" "x_p x < x_p ?z"
        by (simp_all add: progress_post_def)
      with less.hyps [of ?z] lt False show ?thesis
        by (subst parse_loop.simps) (simp add: ry None)
    next
      case (Some st)
      with post False show ?thesis
        by (subst parse_loop.simps) (auto simp: ry progress_post_def finished_def)
    qed
  qed
qed

lemma start_marks_ok: "marks_ok (hp_state p) (marked (start_locals p e))"
  by (auto simp: marks_ok_def marked_def start_locals_def start_marks_def mark_of_def url_states_def)

lemma execute_ends:
  assumes "well_behaved se" and "resting p"
  shows "case http_parser_execute se data p e of (r, q, f) \<Rightarrow>
    (\<exists>n. r = Returned n \<and> (n \<le> length data \<or> data = [] \<and> n = 1 \<and> hp_errno q = HPE_INVALID_EOF_STATE)) \<and>
    resting q"
proof -
  consider "hp_errno p \<noteq> HPE_OK" | "hp_errno p = HPE_OK" "data = []" | "hp_errno p = HPE_OK" "data \<noteq> []" by blast
  then show ?thesis
  proof cases
    case 1
    then show ?thesis using assms(2) by (simp add: http_parser_execute_def)
  next
    case 2
    have w: "parser_wf 0 p" using 2 assms(2) by (simp add: resting_def wf_update)
    let ?x = "start_locals p e"
    have x: "x_parser ?x = p" "x_p ?x = 0" by (simp_all add: start_locals_def)
    obtain r y where ry: "CALLBACK_NOTIFY se Message_Complete 0 ?x = (r, y)" by force
    from notify_post [OF assms(1), of ?x 0 0 "marked ?x" Message_Complete] 2(1)
    have post: "call_post p 0 0 (marked ?x) (r, y)" by (simp add: ry x)
    show ?thesis
      using 2 w post after_call_wf [OF w, of "x_parser y"] wf_resting [OF w]
      by (auto simp: http_parser_execute_def ry call_post_def resting_def wf_update split: option.splits)
  next
    case 3
    have w: "parser_wf 0 p" using 3 assms(2) by (simp add: resting_def wf_update)
    let ?x = "start_locals p e"
    have x: "x_parser ?x = p" "x_p ?x = 0" by (simp_all add: start_locals_def)
    obtain r y where ry: "parse_loop se data ?x = (r, y)" by force
    from parse_loop_finishes [OF assms(1), of ?x data] w start_marks_ok [of p e] x
    have "finished data r (x_parser y)" by (simp add: ry)
    with 3 show ?thesis by (auto simp: http_parser_execute_def ry finished_def)
  qed
qed

subsection \<open>The interface of a client\<close>

text \<open>The client's calls on one input after the other.\<close>

fun execute_all :: "'e http_parser_settings \<Rightarrow> string list \<Rightarrow> http_parser \<Rightarrow> 'e \<Rightarrow> http_parser \<times> 'e" where
  "execute_all se [] p e = (p, e)"
| "execute_all se (d # ds) p e = (case http_parser_execute se d p e of (r, q, f) \<Rightarrow> execute_all se ds q f)"

locale parser_client =
  fixes se :: "'e http_parser_settings"
  assumes allowed: "well_behaved se"
begin

lemma rests:
  "resting p \<Longrightarrow> http_parser_execute se data p e = (r, q, f) \<Longrightarrow> resting q"
  using execute_ends [OF allowed, of p data e] by simp

lemma returns:
  assumes "resting p" and "data \<noteq> []"
  obtains n q f where "http_parser_execute se data p e = (Returned n, q, f)" "n \<le> length data" "resting q"
  using execute_ends [OF allowed assms(1), of data e] assms(2) by (auto split: prod.splits)

lemma all_rest: "resting p \<Longrightarrow> resting (fst (execute_all se ds p e))"
proof (induction ds arbitrary: p e)
  case (Cons d ds)
  obtain r q f where e: "http_parser_execute se d p e = (r, q, f)" by (rule prod_cases3)
  with Cons.IH rests [OF Cons.prems e] show ?case by simp
qed simp

end

text \<open>The recorder never stops the parser.\<close>

lemma well_behaved_recorder: "well_behaved (recorder hc)"
proof -
  have "fst (snd (f p e)) = p" if "fst (notify_cb (recorder hc) n) = Some f" for n f p e
    using that by (cases n) (auto simp: recorder_def)
  moreover have "fst (snd (f p d e)) = p" if "fst (data_cb (recorder hc) m) = Some f" for m f p d e
    using that by (cases m) (auto simp: recorder_def)
  moreover have "fst (snd (f p e)) = p" if "on_headers_complete (recorder hc) = Some f" for f p e
    using that by (auto simp: recorder_def)
  ultimately show ?thesis
    unfolding well_behaved_def by (intro allI impI conjI) (simp_all add: api_moves_refl)
qed

interpretation rec: parser_client "recorder hc"
  for hc :: "http_parser \<Rightarrow> bool"
  by unfold_locales (rule well_behaved_recorder)

lemma init_rests: "resting (http_parser_init t)"
  using wf_init by (rule wf_resting)

subsection \<open>The properties\<close>

text \<open>
  C5: A call of \<^verbatim>\<open>http_parser_execute\<close> on a parser at rest always returns, with a count of no
  more bytes than it was given (1 for an end of input the parser does not expect), leaves the
  parser at rest, and on the way no \<^verbatim>\<open>assert\<close> fails, no byte outside a string is read and no
  byte is looked at more than five times, whatever the input and whatever callbacks do that
  leave the parser, pause it or initialise it anew.
\<close>
theorem execute_finishes:
  assumes "well_behaved se" and "resting p"
  shows "case http_parser_execute se data p e of (r, q, f) \<Rightarrow>
    (\<exists>n. r = Returned n \<and> (n \<le> length data \<or> data = [] \<and> n = 1 \<and> hp_errno q = HPE_INVALID_EOF_STATE)) \<and>
    resting q"
  using assms by (rule execute_ends)

theorem execute_finishes_witness:
  "case http_parser_execute (recorder (\<lambda>_. True)) ''HEAD /x HTTP/1.1'' (http_parser_init HTTP_BOTH) [] of (r, q, f) \<Rightarrow>
    (\<exists>n. r = Returned n \<and> (n \<le> length ''HEAD /x HTTP/1.1'' \<or> ''HEAD /x HTTP/1.1'' = [] \<and> n = 1 \<and>
       hp_errno q = HPE_INVALID_EOF_STATE)) \<and> resting q"
  by (rule execute_finishes [OF well_behaved_recorder init_rests])

text \<open>
  C8: Whatever inputs a parser has been given since it was initialised, unless it stands on an
  error the status code and both version numbers have at most three digits, the head counter is
  at most \<^verbatim>\<open>HTTP_MAX_HEADER_SIZE\<close>, and the index into the method's name lies inside the name.
\<close>
theorem parser_numbers_bounded:
  assumes "well_behaved se" and "execute_all se ds (http_parser_init t) e = (q, f)"
    and "hp_errno q \<in> {HPE_OK, HPE_PAUSED}"
  shows "hp_status_code q \<le> 999 \<and> hp_http_major q \<le> 999 \<and> hp_http_minor q \<le> 999 \<and>
    hp_nread q \<le> HTTP_MAX_HEADER_SIZE \<and>
    (hp_state q = s_req_method \<longrightarrow> hp_index q \<le> length (method_string (hp_method q)))"
proof -
  have "resting q"
    using parser_client.all_rest [OF parser_client.intro [OF assms(1)] init_rests [of t], of ds e] assms(2)
    by simp
  then have "parser_wf 0 (q\<lparr>hp_errno := HPE_OK\<rparr>)" using assms(3) by (auto simp: resting_def)
  then have "state_wf 0 (q\<lparr>hp_errno := HPE_OK\<rparr>)" "numbers_wf q"
    by (simp_all add: parser_wf_def numbers_wf_def)
  then show ?thesis by (auto simp: state_wf_def numbers_wf_def)
qed

theorem parser_numbers_bounded_witness:
  "\<exists>q f. execute_all (recorder (\<lambda>_. False)) [''HTTP/1'', ''.1 2''] (http_parser_init HTTP_RESPONSE) [] = (q, f) \<and>
    hp_errno q = HPE_OK \<and> hp_status_code q \<le> 999 \<and> hp_nread q \<le> HTTP_MAX_HEADER_SIZE"
proof -
  have ok: "hp_errno (fst (execute_all (recorder (\<lambda>_. False)) [''HTTP/1'', ''.1 2''] (http_parser_init HTTP_RESPONSE) [])) = HPE_OK"
    by code_simp
  obtain q f where qf: "execute_all (recorder (\<lambda>_. False)) [''HTTP/1'', ''.1 2''] (http_parser_init HTTP_RESPONSE) [] = (q, f)"
    by (rule prod.exhaust)
  from ok have q: "hp_errno q = HPE_OK" by (simp only: qf fst_conv)
  then have "hp_errno q \<in> {HPE_OK, HPE_PAUSED}" by (simp only: insertI1)
  from parser_numbers_bounded [OF well_behaved_recorder qf this] qf q show ?thesis by blast
qed

end
