(* ===== verification/Http_Stream.thy ===== *)
theory Http_Stream
  imports Http_Safety
begin

section \<open>Single bytes and runs of bytes\<close>

text \<open>
  The parser run on a piece of the input beside the parser run on its bytes one at a time, with
  callbacks that record what they are told.  \<open>flatten\<close> forgets where a recorded piece was cut.
  \<open>same_run\<close> relates the two runs within a byte: the same parser, and the same log when the
  piece that is still open is added to it.  The states that take a whole run of body bytes at
  once (\<open>bulk\<close>) are followed through the run by \<open>feed_run\<close>.
\<close>

text \<open>A log up to the cuts between the pieces.\<close>

fun flat :: "http_event \<Rightarrow> http_event list" where
  "flat (Piece m d) = map (\<lambda>c. Piece m [c]) d"
| "flat e = [e]"

definition flatten :: "http_event list \<Rightarrow> http_event list" where
  "flatten log = concat (map flat log)"

lemma flatten_simps [simp]:
  "flatten [] = []" "flatten (a @ b) = flatten a @ flatten b" "flatten (e # a) = flat e @ flatten a"
  by (simp_all add: flatten_def)

definition piece :: "string \<Rightarrow> nat \<Rightarrow> nat \<Rightarrow> mark \<Rightarrow> http_event list" where
  "piece data k p m = map (\<lambda>c. Piece m [c]) (take (p - k) (drop k data))"

definition open_piece :: "string \<Rightarrow> nat \<Rightarrow> (mark \<Rightarrow> nat option) \<Rightarrow> mark \<Rightarrow> http_event list" where
  "open_piece data p marks m = (case marks m of None \<Rightarrow> [] | Some k \<Rightarrow> piece data k p m)"

definition pending :: "string \<Rightarrow> nat \<Rightarrow> (mark \<Rightarrow> nat option) \<Rightarrow> http_event list" where
  "pending data p marks = concat (map (open_piece data p marks) [Header_Field, Header_Value, Url, Body])"

lemma piece_empty [simp]: "piece data p p m = []"
  by (simp add: piece_def)

lemma piece_Suc: "k \<le> p \<Longrightarrow> p < length data \<Longrightarrow> piece data k (Suc p) m = piece data k p m @ [Piece m [data ! p]]"
  by (simp add: piece_def Suc_diff_le take_Suc_conv_app_nth)

lemma pending_none: "(\<And>m. marks m = None) \<Longrightarrow> pending data p marks = []"
  by (simp add: pending_def open_piece_def)

lemma pending_one:
  assumes "marks m = Some k" and "\<And>m'. m' \<noteq> m \<Longrightarrow> marks m' = None"
  shows "pending data p marks = piece data k p m"
  using assms by (cases m) (simp_all add: pending_def open_piece_def)

lemma rec_notify:
  "hp_errno (x_parser x) = HPE_OK \<Longrightarrow>
   CALLBACK_NOTIFY (recorder hc) n er x = (None, x\<lparr>x_env := x_env x @ [Noted n]\<rparr>)"
  by (cases n) (simp_all add: CALLBACK_NOTIFY_def recorder_def after_callback_def Let_def)

lemma rec_data:
  "hp_errno (x_parser x) = HPE_OK \<Longrightarrow>
   CALLBACK_DATA (recorder hc) data m stop er x = (None, case x_mark x m of None \<Rightarrow> x
     | Some k \<Rightarrow> x\<lparr>x_env := x_env x @ [Piece m (take (stop - k) (drop k data))],
         x_mark := (x_mark x)(m := None)\<rparr>)"
  by (cases m) (simp_all add: CALLBACK_DATA_def recorder_def after_callback_def Let_def clear_mark_def
      split: option.splits)

definition skip_body :: "(http_parser \<Rightarrow> bool) \<Rightarrow> http_parser \<Rightarrow> http_parser" where
  "skip_body hc p = (if hc p then p\<lparr>hp_flags := insert F_SKIPBODY (hp_flags p)\<rparr> else p)"

lemma rec_headers:
  "hp_errno (x_parser x) = HPE_OK \<Longrightarrow>
   headers_complete (recorder hc) x =
     (None, x\<lparr>x_parser := skip_body hc (x_parser x), x_env := x_env x @ [Headers (x_parser x)]\<rparr>)"
  by (simp add: headers_complete_def recorder_def skip_body_def Let_def)

text \<open>
  The state at byte \<open>p\<close> of a long input, and the state of a run over this byte alone that
  starts with the same parser and everything before \<open>p\<close> already delivered.
\<close>

definition same_run :: "string \<Rightarrow> nat \<Rightarrow> http_event list locals \<Rightarrow> http_event list locals \<Rightarrow> bool" where
  "same_run data p x y \<longleftrightarrow> x_parser x = x_parser y \<and> x_p x = p \<and> x_p y = 0 \<and>
     (\<forall>m. m \<noteq> Body \<longrightarrow> marked x m = marked y m) \<and> (marked y Body \<longrightarrow> marked x Body) \<and>
     (\<forall>m k. x_mark x m = Some k \<longrightarrow> k \<le> p) \<and> (\<forall>m k. x_mark y m = Some k \<longrightarrow> k = 0) \<and>
     flatten (x_env y) = flatten (x_env x) @ pending data p (x_mark x)"

lemma flatten_piece: "flatten [Piece m d] = map (\<lambda>c. Piece m [c]) d"
  by simp

lemma same_run_notify:
  assumes "same_run data p x y" and "\<And>m. \<not> marked x m"
  shows "same_run data p (x\<lparr>x_parser := q, x_env := x_env x @ [e]\<rparr>) (y\<lparr>x_parser := q, x_env := x_env y @ [e]\<rparr>)"
    "same_run data p (x\<lparr>x_env := x_env x @ [e]\<rparr>) (y\<lparr>x_env := x_env y @ [e]\<rparr>)"
proof -
  have "pending data p (x_mark x) = []" using assms(2) by (intro pending_none) (simp add: marked_def)
  with assms(1) show
    "same_run data p (x\<lparr>x_parser := q, x_env := x_env x @ [e]\<rparr>) (y\<lparr>x_parser := q, x_env := x_env y @ [e]\<rparr>)"
    "same_run data p (x\<lparr>x_env := x_env x @ [e]\<rparr>) (y\<lparr>x_env := x_env y @ [e]\<rparr>)"
    by (simp_all add: same_run_def marked_def)
qed

lemma same_run_mark:
  assumes "same_run data p x y" and "m \<noteq> Body"
  shows "same_run data p (MARK m x) (MARK m y)"
proof -
  have "pending data p (x_mark (MARK m x)) = pending data p (x_mark x)"
    using assms(1) by (cases m) (auto simp: pending_def open_piece_def MARK_def same_run_def)
  moreover have "x_env (MARK m x) = x_env x" "x_env (MARK m y) = x_env y" by (simp_all add: MARK_def)
  ultimately show ?thesis
    using assms unfolding same_run_def
    by (auto simp: marked_def MARK_def split: if_splits)
qed

definition deliver :: "string \<Rightarrow> nat \<Rightarrow> mark \<Rightarrow> http_event list locals \<Rightarrow> http_event list locals" where
  "deliver data stop m x = (case x_mark x m of None \<Rightarrow> x
     | Some k \<Rightarrow> x\<lparr>x_env := x_env x @ [Piece m (take (stop - k) (drop k data))],
         x_mark := (x_mark x)(m := None)\<rparr>)"

lemma same_run_deliver:
  assumes "same_run data p x y" and "\<And>m'. m' \<noteq> m \<Longrightarrow> \<not> marked x m'"
  shows "same_run data p (deliver data p m x) (deliver [b] 0 m y)"
proof (cases "x_mark x m")
  case None
  then have n: "x_mark x m' = None" for m'
    using assms(2) [of m'] by (cases "m' = m") (auto simp: marked_def)
  then have "x_mark y m' = None" for m'
    using assms(1) by (cases "m' = Body") (auto simp: same_run_def marked_def)
  then show ?thesis using n assms(1) by (simp add: deliver_def)
next
  case (Some k)
  have others: "x_mark x m' = None" if "m' \<noteq> m" for m' using assms(2) [OF that] by (simp add: marked_def)
  have y0: "take (0 - k') (drop k' [b]) = []" for k' by simp
  have p: "pending data p (x_mark x) = piece data k p m"
    by (rule pending_one) (use Some others in auto)
  have "pending data p ((x_mark x)(m := None)) = []"
    by (rule pending_none) (use others in \<open>auto simp: fun_upd_def\<close>)
  with Some p assms(1) show ?thesis
    by (cases "x_mark y m") (auto simp: deliver_def same_run_def piece_def marked_def)
qed

fun plain_effect :: "effect \<Rightarrow> bool" where
  "plain_effect (Mark m) = (m \<noteq> Body)"
| "plain_effect (Skip n) = False"
| "plain_effect (Data_Last m) = False"
| "plain_effect _ = True"

lemma same_run_effects:
  assumes "same_run data p x y" and "hp_errno (x_parser x) = HPE_OK" and "calls_last es"
    and "list_all plain_effect es" and "calls es \<Longrightarrow> marks_after es (marked x) = (\<lambda>_. False)"
  shows "\<exists>x' y'. run_effects (recorder hc) data es x = (None, x') \<and>
    run_effects (recorder hc) [b] es y = (None, y') \<and> same_run data p x' y'"
  using assms
proof (induction es arbitrary: x y)
  case (Cons f fs)
  have py: "x_parser y = x_parser x" "x_p x = p" "x_p y = 0" using Cons.prems(1) by (simp_all add: same_run_def)
  show ?case
  proof (cases "is_callback f")
    case True
    then have fs: "fs = []" using Cons.prems(3) by simp
    have after: "marks_after [f] (marked x) = (\<lambda>_. False)" using Cons.prems(5) True fs by simp
    have data: "\<exists>x' y'. run_effects (recorder hc) data [g] x = (None, x') \<and>
        run_effects (recorder hc) [b] [g] y = (None, y') \<and> same_run data p x' y'"
      if "g = Data m \<or> g = Data_Noadvance m" "(marked x)(m := False) = (\<lambda>_. False)" for g m
    proof -
      have "\<not> marked x m'" if "m' \<noteq> m" for m'
        using fun_cong [OF \<open>(marked x)(m := False) = (\<lambda>_. False)\<close>, of m'] that by simp
      from same_run_deliver [OF Cons.prems(1), of m, OF this] that(1) Cons.prems(2) py
      show ?thesis by (auto simp: rec_data simp flip: deliver_def)
    qed
    show ?thesis
    proof (cases f)
      case (Notify n)
      with after have "\<not> marked x m" for m by (simp add: fun_eq_iff)
      from same_run_notify(2) [OF Cons.prems(1) this, of "Noted n"] show ?thesis
        using Cons.prems(2) py by (simp add: Notify fs rec_notify)
    next
      case Headers_Complete
      with after have "\<not> marked x m" for m by (simp add: fun_eq_iff)
      from same_run_notify(1) [OF Cons.prems(1) this, where e = "Headers (x_parser x)" and q = "skip_body hc (x_parser x)"] show ?thesis
        using Cons.prems(2) py by (simp add: Headers_Complete fs rec_headers)
    next
      case (Data m)
      with data [of f m] after show ?thesis by (simp add: fs)
    next
      case (Data_Noadvance m)
      with data [of f m] after show ?thesis by (simp add: fs)
    qed (use True Cons.prems(4) in simp_all)
  next
    case False
    then obtain m where f: "f = Mark m" "m \<noteq> Body" using Cons.prems(4) by (cases f) auto
    have "\<exists>x' y'. run_effects (recorder hc) data fs (MARK m x) = (None, x') \<and>
        run_effects (recorder hc) [b] fs (MARK m y) = (None, y') \<and> same_run data p x' y'"
    proof (rule Cons.IH)
      show "same_run data p (MARK m x) (MARK m y)" by (rule same_run_mark [OF Cons.prems(1) f(2)])
      show "hp_errno (x_parser (MARK m x)) = HPE_OK" using Cons.prems(2) by (simp add: MARK_def)
      show "marks_after fs (marked (MARK m x)) = (\<lambda>_. False)" if "calls fs"
        using Cons.prems(5) that f by (simp add: marked_MARK)
    qed (use Cons.prems(3,4) f in simp_all)
    then show ?thesis by (simp add: f)
  qed
qed simp

text \<open>All but the three states that read a run of body bytes at once.\<close>

definition bulk :: "pstate set" where "bulk = {s_body_identity, s_body_identity_eof, s_chunk_data}"

lemma matching_upgrade [simp]: "hp_upgrade (matching name h c p) = hp_upgrade p"
  by (simp add: matching_def Let_def)

lemma field_token_upgrade: "field_token ch c p = Some q \<Longrightarrow> hp_upgrade q = hp_upgrade p"
  by (auto simp: field_token_def next_index_def split: header_states.splits if_splits)

definition ends_well :: "(mark \<Rightarrow> bool) \<Rightarrow> http_parser \<Rightarrow> step \<Rightarrow> bool" where
  "ends_well M p st = (case st of (q, es, e) \<Rightarrow>
     (e = Reexecute \<longrightarrow> hp_state q \<notin> bulk) \<and> (e = Return_Next \<longrightarrow> calls es \<and> hp_upgrade q) \<and>
     ((hp_upgrade p \<longrightarrow> hp_state p = s_headers_done) \<longrightarrow>
       (e = Break \<longrightarrow> \<not> hp_upgrade q) \<and> (e = Reexecute \<longrightarrow> hp_upgrade q \<longrightarrow> hp_state q = s_headers_done)) \<and>
     (e = Break \<or> e = Reexecute \<longrightarrow> (M Body \<longrightarrow> hp_state p = s_chunk_data_almost_done) \<longrightarrow> \<not> marks_after es M Body))"

lemma ends_well_switch:
  assumes "hp_state p \<notin> bulk"
  shows "ends_well M p (switch 1 ch p)"
proof (cases "hp_state p = s_header_field")
  case True
  then show ?thesis
    by (cases "field_token ch (TOKEN ch) p")
      (auto simp: ends_well_def switch_def sw_header_field_def Let_def dest: field_token_upgrade)
next
  case False
  with assms show ?thesis
    by (cases "hp_state p")
      (simp_all add: ends_well_def switch_def bulk_def sw_defs value_token_def Let_def
        split: option.splits sum.splits header_states.splits)
qed

lemma switch_plain:
  assumes "hp_state p \<notin> bulk" and "switch rest ch p = (q, es, e)"
  shows "list_all plain_effect es" "switch 1 ch p = (q, es, e)"
    "e = Reexecute \<Longrightarrow> hp_state q \<notin> bulk" "e = Return_Next \<Longrightarrow> calls es \<and> hp_upgrade q"
    "e = Break \<Longrightarrow> (hp_upgrade p \<longrightarrow> hp_state p = s_headers_done) \<Longrightarrow> \<not> hp_upgrade q"
    "e = Reexecute \<Longrightarrow> (hp_upgrade p \<longrightarrow> hp_state p = s_headers_done) \<Longrightarrow> hp_upgrade q \<Longrightarrow> hp_state q = s_headers_done"
    "e = Break \<or> e = Reexecute \<Longrightarrow> (M Body \<longrightarrow> hp_state p = s_chunk_data_almost_done) \<Longrightarrow> \<not> marks_after es M Body"
proof -
  have eq: "switch rest ch p = switch 1 ch p"
    using assms(1) by (cases "hp_state p") (simp_all add: switch_def bulk_def)
  have "list_all plain_effect (fst (snd (switch 1 ch p)))"
    using assms(1)
    by (cases "hp_state p")
      (simp_all add: switch_def bulk_def sw_defs value_token_def Let_def split: option.splits sum.splits header_states.splits)
  moreover note ends_well_switch [OF assms(1), of M ch]
  ultimately show "list_all plain_effect es" "switch 1 ch p = (q, es, e)"
    "e = Reexecute \<Longrightarrow> hp_state q \<notin> bulk" "e = Return_Next \<Longrightarrow> calls es \<and> hp_upgrade q"
    "e = Break \<Longrightarrow> (hp_upgrade p \<longrightarrow> hp_state p = s_headers_done) \<Longrightarrow> \<not> hp_upgrade q"
    "e = Reexecute \<Longrightarrow> (hp_upgrade p \<longrightarrow> hp_state p = s_headers_done) \<Longrightarrow> hp_upgrade q \<Longrightarrow> hp_state q = s_headers_done"
    "e = Break \<or> e = Reexecute \<Longrightarrow> (M Body \<longrightarrow> hp_state p = s_chunk_data_almost_done) \<Longrightarrow> \<not> marks_after es M Body"
    using assms(2) eq by (auto simp: ends_well_def)
qed

text \<open>How the reexecutions of one byte compare.\<close>

definition same_end :: "string \<Rightarrow> nat \<Rightarrow> stop option \<times> http_event list locals \<Rightarrow>
    stop option \<times> http_event list locals \<Rightarrow> bool" where
  "same_end data p rx ry = (case rx of (r, x) \<Rightarrow> case ry of (r', y) \<Rightarrow> same_run data p x y \<and>
     (case r of
       None \<Rightarrow> r' = None \<and> \<not> hp_upgrade (x_parser x) \<and> \<not> marked x Body
     | Some (Returned n) \<Rightarrow> p \<le> n \<and> r' = Some (Returned (n - p)) \<and>
         (hp_errno (x_parser x) = HPE_OK \<longrightarrow> n = p + 1 \<and> hp_upgrade (x_parser x) \<and> (\<forall>m. \<not> marked x m))
     | _ \<Rightarrow> False))"

lemma rec_parser:
  assumes "run_effects (recorder hc) data es x = (None, x')" and "hp_errno (x_parser x) = HPE_OK" and "calls_last es"
  shows "x_parser x' = x_parser x \<or> x_parser x' = skip_body hc (x_parser x)"
  using assms
proof (induction es arbitrary: x)
  case (Cons f fs)
  show ?case
  proof (cases f)
    case (Mark m)
    with Cons.prems Cons.IH [of "MARK m x"] show ?thesis by (simp add: MARK_def split: if_splits)
  next
    case (Skip n)
    with Cons.prems Cons.IH [of "x\<lparr>x_p := x_p x + n\<rparr>"] show ?thesis by simp
  qed (use Cons.prems in \<open>auto simp: rec_data rec_notify rec_headers split: option.splits\<close>)
qed simp

lemma run_effects_state:
  assumes "parser_wf k (x_parser x)" and "run_effects (recorder hc) data es x = (None, x')" and "calls_last es"
  shows "hp_state (x_parser x') = hp_state (x_parser x)" "parser_wf k (x_parser x')"
    "marked x' = marks_after es (marked x)" "x_p x' = x_p x + skipped es"
    "hp_upgrade (x_parser x') = hp_upgrade (x_parser x)"
proof -
  have ok: "hp_errno (x_parser x) = HPE_OK" using assms(1) by (simp add: parser_wf_def)
  from run_effects_post [OF well_behaved_recorder ok assms(3), of hc data] assms(2)
  show "marked x' = marks_after es (marked x)" "x_p x' = x_p x + skipped es"
    by (simp_all add: call_post_def)
  from rec_parser [OF assms(2) ok assms(3)] assms(1)
  show "hp_state (x_parser x') = hp_state (x_parser x)" "parser_wf k (x_parser x')"
    "hp_upgrade (x_parser x') = hp_upgrade (x_parser x)"
    by (auto simp: skip_body_def wf_update split: if_splits)
qed

lemma same_end_return:
  "same_run data p x y \<Longrightarrow> hp_errno (x_parser x) \<noteq> HPE_OK \<Longrightarrow>
   same_end data p (Some (Returned p), x) (Some (Returned 0), y)"
  by (simp add: same_end_def)

lemma same_run_marks:
  assumes "same_run data p x y" and "\<not> calls es" and "list_all plain_effect es"
  shows "\<exists>x' y'. run_effects se data es x = (None, x') \<and> run_effects se [b] es y = (None, y') \<and>
    same_run data p x' y' \<and> x_parser x' = x_parser x"
  using assms
proof (induction es arbitrary: x y)
  case (Cons f fs)
  then obtain m where f: "f = Mark m" "m \<noteq> Body" by (cases f) auto
  have "\<exists>x' y'. run_effects se data fs (MARK m x) = (None, x') \<and> run_effects se [b] fs (MARK m y) = (None, y') \<and>
    same_run data p x' y' \<and> x_parser x' = x_parser (MARK m x)"
    by (rule Cons.IH) (use Cons.prems same_run_mark [OF Cons.prems(1) f(2)] in simp_all)
  moreover have "x_parser (MARK m x) = x_parser x" by (simp add: MARK_def)
  ultimately show ?case by (simp add: f)
qed simp

lemma reexecute_same:
  assumes "same_run data p x y" and "parser_wf 1 (x_parser x)" and "hp_state (x_parser x) \<notin> bulk"
    and "marks_ok (hp_state (x_parser x)) (marked x)" and "rank (hp_state (x_parser x)) < n"
    and "hp_upgrade (x_parser x) \<longrightarrow> hp_state (x_parser x) = s_headers_done" and "p < length data"
  shows "same_end data p (reexecute_byte n (recorder hc) data ch x) (reexecute_byte n (recorder hc) [b] ch y)"
  using assms(1-6)
proof (induction n arbitrary: x y)
  case (Suc n)
  let ?s = "hp_state (x_parser x)"
  have xy: "x_parser y = x_parser x" "x_p x = p" "x_p y = 0" using Suc.prems(1) by (simp_all add: same_run_def)
  obtain q es e where sw: "switch (length data - p) ch (x_parser x) = (q, es, e)" by (metis prod_cases3)
  note plain = switch_plain [OF Suc.prems(3) sw]
  have g: "good (length data - p) ?s (q, es, e)" using good_switch [OF Suc.prems(2)] sw by metis
  let ?x = "x\<lparr>x_parser := q\<rparr>" and ?y = "y\<lparr>x_parser := q\<rparr>"
  have xy': "same_run data p ?x ?y" using Suc.prems(1) by (simp add: same_run_def)
  have unfold: "reexecute_byte (Suc n) (recorder hc) d ch z = (case run_effects (recorder hc) d es (z\<lparr>x_parser := q\<rparr>) of
           (Some r, y) \<Rightarrow> (Some r, y)
         | (None, y) \<Rightarrow> (case e of
             Break \<Rightarrow> (None, y)
           | Reexecute \<Rightarrow> reexecute_byte n (recorder hc) d ch y
           | Goto_Error \<Rightarrow> error_exit y
           | Return_Next \<Rightarrow> (Some (Returned (x_p y + 1)), y)
           | Assert_Fails \<Rightarrow> (Some Assertion_Failed, y)
           | Bad_Read \<Rightarrow> (Some Read_Outside, y)))"
    if "switch (length d - x_p z) ch (x_parser z) = (q, es, e)" for d z
    by (simp add: that)
  have sx: "switch (length data - x_p x) ch (x_parser x) = (q, es, e)" using sw xy by simp
  have sy: "switch (length [b] - x_p y) ch (x_parser y) = (q, es, e)" using plain(2) xy by simp
  note run = unfold [OF sx] unfold [OF sy]
  show ?case
  proof (cases "e = Goto_Error")
    case True
    then have c: "\<not> calls es" "skipped es = 0" "hp_errno q \<noteq> HPE_PAUSED" using g by (simp_all add: good_rules)
    obtain x' y' where r: "run_effects (recorder hc) data es ?x = (None, x')"
        "run_effects (recorder hc) [b] es ?y = (None, y')" "same_run data p x' y'" "x_parser x' = q"
      using same_run_marks [OF xy' c(1) plain(1), of "recorder hc" b] by auto
    then have "same_run data p (snd (error_exit x')) (snd (error_exit y'))"
      by (auto simp: error_exit_def same_run_def marked_def)
    moreover have "hp_errno (x_parser (snd (error_exit x'))) \<noteq> HPE_OK"
      by (simp add: error_exit_def)
    moreover have ex: "error_exit x' = (Some (Returned p), snd (error_exit x'))"
      and ey: "error_exit y' = (Some (Returned 0), snd (error_exit y'))"
      using r(3) by (simp_all add: error_exit_def same_run_def)
    ultimately have "same_end data p (error_exit x') (error_exit y')"
      by (subst ex, subst ey) (rule same_end_return)
    moreover have "reexecute_byte (Suc n) (recorder hc) data ch x = error_exit x'"
      "reexecute_byte (Suc n) (recorder hc) [b] ch y = error_exit y'"
      by (simp_all only: run r True prod.case option.case ending.case)
    ultimately show ?thesis by (simp only:)
  next
    case False
    obtain k where k: "parser_wf k q" "effects_ok (length data - p) ?s (hp_state q) es" "e = Reexecute \<longrightarrow> k = 1"
      using g False by (cases e) (auto simp: good_rules)
    have ok: "hp_errno q = HPE_OK" and last: "calls_last es" and mk: "marks_ok (hp_state q) (marks_after es (marked x))"
      and call: "calls es \<Longrightarrow> marks_after es (marked x) = (\<lambda>_. False)"
      using k Suc.prems(4) marks_ok_none by (auto simp: parser_wf_def effects_ok_def)
    obtain x' y' where r: "run_effects (recorder hc) data es ?x = (None, x')"
        "run_effects (recorder hc) [b] es ?y = (None, y')" "same_run data p x' y'"
      using same_run_effects [OF xy' _ last plain(1), of hc b] ok call by auto
    have st: "hp_state (x_parser x') = hp_state q" "parser_wf k (x_parser x')" "marked x' = marks_after es (marked x)"
        "x_p x' = p" "x_p y' = 0" "hp_upgrade (x_parser x') = hp_upgrade q"
      using run_effects_state [of k ?x, OF _ r(1) last] k(1) r(3) by (simp_all add: same_run_def)
    have body: "marked x Body \<longrightarrow> ?s = s_chunk_data_almost_done"
      using Suc.prems(3,4) by (auto simp: marks_ok_def body_states_def bulk_def)
    show ?thesis
    proof (cases e)
      case Break
      with r st plain(5) plain(7) [of "marked x"] body Suc.prems(6) show ?thesis
        by (simp add: run same_end_def del: reexecute_byte.simps)
    next
      case Reexecute
      then have "reexecute_byte (Suc n) (recorder hc) data ch x = reexecute_byte n (recorder hc) data ch x'"
        "reexecute_byte (Suc n) (recorder hc) [b] ch y = reexecute_byte n (recorder hc) [b] ch y'"
        by (simp_all only: run r prod.case option.case ending.case)
      moreover have "rank (hp_state q) < n" using g Reexecute Suc.prems(5) by (auto simp: good_rules)
      ultimately show ?thesis
        using Suc.IH [OF r(3)] st k(3) Reexecute plain(3) plain(6) Suc.prems(6) mk by simp
    next
      case Return_Next
      with call plain(4) st(3) have "\<not> marked x' m" for m by simp
      with Return_Next r st plain(4) show ?thesis by (simp add: run same_end_def del: reexecute_byte.simps)
    qed (use g False in \<open>simp_all add: good_rules\<close>)
  qed
qed simp

definition at_head :: "string \<Rightarrow> nat \<Rightarrow> http_event list locals \<Rightarrow> http_event list \<Rightarrow> bool" where
  "at_head data p x log \<longleftrightarrow> x_p x = p \<and> p \<le> length data \<and> parser_wf 0 (x_parser x) \<and>
     marks_ok (hp_state (x_parser x)) (marked x) \<and> (\<forall>m k. x_mark x m = Some k \<longrightarrow> k \<le> p) \<and>
     (p < length data \<longrightarrow> marked x Body \<longrightarrow> hp_state (x_parser x) \<notin> bulk) \<and>
     flatten log = flatten (x_env x) @ pending data p (x_mark x)"

lemma at_head_same:
  assumes "at_head data p x log"
  shows "same_run data p x (start_locals (x_parser x) log)"
proof -
  have "pending [b] 0 (x_mark (start_locals q l)) = []" for b q and l :: "http_event list"
    by (simp add: pending_def open_piece_def start_locals_def start_marks_def)
  moreover have "marked x m = marked (start_locals (x_parser x) log) m" if "m \<noteq> Body" for m
    using that assms start_marks_ok [of "x_parser x" log]
    by (cases m) (auto simp: at_head_def marks_ok_def start_locals_def)
  moreover have "\<not> marked (start_locals (x_parser x) log) Body"
    by (simp add: marked_def start_locals_def start_marks_def mark_of_def)
  ultimately show ?thesis
    using assms by (auto simp: same_run_def at_head_def start_locals_def start_marks_def split: if_splits)
qed

lemma one_byte_same:
  assumes "at_head data p x log" and "p < length data" and "hp_state (x_parser x) \<notin> bulk"
    and "\<not> hp_upgrade (x_parser x)"
  shows "same_end data p (one_byte (recorder hc) data x)
    (one_byte (recorder hc) [data ! p] (start_locals (x_parser x) log))"
proof -
  let ?p = "x_parser x" and ?y = "start_locals (x_parser x) log"
  have rank: "rank s < reexecutions" for s
    by (cases s) (simp_all add: reexecutions_def)
  have a: "same_run data p x ?y" "parser_wf 0 ?p" "marks_ok (hp_state ?p) (marked x)" "x_p x = p"
    using assms(1) at_head_same by (auto simp: at_head_def)
  have y: "x_parser ?y = ?p" "x_p ?y = 0" by (simp_all add: start_locals_def)
  show ?thesis
  proof (cases "PARSING_HEADER (hp_state ?p)")
    case True
    let ?q = "?p\<lparr>hp_nread := hp_nread ?p + 1\<rparr>"
    let ?x' = "x\<lparr>x_parser := ?q\<rparr>" and ?y' = "?y\<lparr>x_parser := ?q\<rparr>"
    have s: "same_run data p (x\<lparr>x_parser := r\<rparr>) (?y\<lparr>x_parser := r\<rparr>)" for r using a(1) by (simp add: same_run_def)
    show ?thesis
    proof (cases "HTTP_MAX_HEADER_SIZE < hp_nread ?q")
      case big: True
      then show ?thesis using True a y s [of "?q\<lparr>hp_errno := HPE_HEADER_OVERFLOW\<rparr>"]
        by (simp add: one_byte_def Let_def error_exit_def same_end_def)
    next
      case False
      then have "parser_wf 1 ?q"
        using a(2) by (auto simp: parser_wf_def state_wf_def numbers_wf_def HTTP_MAX_HEADER_SIZE_def split: pstate.splits)
      with reexecute_same [OF s [of ?q] _ _ _ _ _ assms(2), of reexecutions hc "data ! p" "data ! p"] assms(3,4) a rank True False y
      show ?thesis by (simp add: one_byte_def Let_def)
    qed
  next
    case False
    then have "hp_state ?p \<noteq> s_chunk_size_start" by (auto simp: PARSING_HEADER_def)
    with wf_wider a(2) have "parser_wf 1 ?p" by blast
    with reexecute_same [OF a(1) _ assms(3) a(3) _ _ assms(2), of reexecutions hc "data ! p" "data ! p"] rank False y a(4) assms(4) show ?thesis
      by (simp add: one_byte_def Let_def)
  qed
qed

lemma left_over_recorder:
  assumes "parser_wf 0 (x_parser x)" and "marks_ok (hp_state (x_parser x)) (marked x)" and "x_p x = length data"
  shows "\<exists>y. left_over_marks (recorder hc) data x = (Returned (length data), y) \<and> x_parser y = x_parser x \<and>
     flatten (x_env y) = flatten (x_env x) @ pending data (length data) (x_mark x)"
proof -
  have ok: "hp_errno (x_parser x) = HPE_OK" using assms(1) by (simp add: parser_wf_def)
  have one: "\<not> 1 < length (marks_set x)" using marks_ok_one [OF assms(2)] by simp
  have "\<exists>y. run_effects (recorder hc) data (map Data_Noadvance ms) x = (None, y) \<and> x_parser y = x_parser x \<and>
     flatten (x_env y) = flatten (x_env x) @ concat (map (open_piece data (x_p x) (x_mark x)) ms)"
    if "hp_errno (x_parser x) = HPE_OK" "distinct ms" for ms and x :: "http_event list locals"
    using that
  proof (induction ms arbitrary: x)
    case (Cons m ms)
    let ?x = "deliver data (x_p x) m x"
    have d: "x_parser ?x = x_parser x" "x_p ?x = x_p x" "flatten (x_env ?x) = flatten (x_env x) @ open_piece data (x_p x) (x_mark x) m"
      "m' \<noteq> m \<Longrightarrow> x_mark ?x m' = x_mark x m'" for m'
      by (simp_all add: deliver_def open_piece_def piece_def split: option.splits)
    have "map (open_piece data (x_p x) (x_mark ?x)) ms = map (open_piece data (x_p x) (x_mark x)) ms"
    proof (rule map_cong [OF refl])
      fix m' assume "m' \<in> set ms"
      then have "m' \<noteq> m" using Cons.prems(2) by auto
      from d(4) [OF this] show "open_piece data (x_p x) (x_mark ?x) m' = open_piece data (x_p x) (x_mark x) m'"
        by (simp add: open_piece_def)
    qed
    with Cons.IH [of ?x] Cons.prems d(1-3) show ?case
      by (auto simp: rec_data simp flip: deliver_def)
  qed simp
  from this [OF ok, of "[Header_Field, Header_Value, Url, Body]"] one assms(3) show ?thesis
    by (auto simp: left_over_marks_def pending_def simp del: run_effects.simps)
qed

subsection \<open>One byte at a time\<close>

fun feed_bytes :: "(http_parser \<Rightarrow> bool) \<Rightarrow> string \<Rightarrow> http_parser \<Rightarrow> http_event list \<Rightarrow>
    nat \<times> http_parser \<times> http_event list" where
  "feed_bytes hc [] p log = (0, p, log)"
| "feed_bytes hc (c # cs) p log = (case http_parser_execute (recorder hc) [c] p log of (r, q, log') \<Rightarrow>
     (if r = Returned 1 \<and> hp_errno q = HPE_OK \<and> \<not> hp_upgrade q
      then (case feed_bytes hc cs q log' of (n, z) \<Rightarrow> (n + 1, z))
      else (case r of Returned n \<Rightarrow> n | _ \<Rightarrow> 0, q, log')))"

lemma execute_one:
  assumes "hp_errno p = HPE_OK"
  shows "http_parser_execute se [c] p e = (case one_byte se [c] (start_locals p e) of
      (Some r, y) \<Rightarrow> (r, x_parser y, x_env y)
    | (None, y) \<Rightarrow> (case left_over_marks se [c] (y\<lparr>x_p := x_p y + 1\<rparr>) of (r, z) \<Rightarrow> (r, x_parser z, x_env z)))"
proof -
  have "x_p (start_locals p e) = 0" by (simp add: start_locals_def)
  with assms show ?thesis
    by (simp add: http_parser_execute_def parse_loop.simps [of se "[c]" "start_locals p e"] split: prod.splits option.splits)
      (simp add: parse_loop.simps)
qed

lemma feed_same_byte:
  assumes "at_head data p x log" and "p < length data" and "hp_state (x_parser x) \<notin> bulk"
    and "\<not> hp_upgrade (x_parser x)" and "one_byte (recorder hc) data x = (r, y)"
  shows "(r = None \<longrightarrow> (\<exists>log'. http_parser_execute (recorder hc) [data ! p] (x_parser x) log = (Returned 1, x_parser y, log') \<and>
        at_head data (p + 1) (y\<lparr>x_p := x_p y + 1\<rparr>) log' \<and> hp_errno (x_parser y) = HPE_OK \<and> \<not> hp_upgrade (x_parser y) \<and> x_p y = p)) \<and>
     (\<forall>n. r = Some (Returned n) \<longrightarrow> (\<exists>log'. http_parser_execute (recorder hc) [data ! p] (x_parser x) log = (Returned (n - p), x_parser y, log') \<and>
        p \<le> n \<and> (hp_errno (x_parser y) = HPE_OK \<longrightarrow> hp_upgrade (x_parser y) \<and> flatten log' = flatten (x_env y)) \<and>
        (\<exists>z. flatten log' = flatten (x_env y) @ z)))"
proof -
  let ?y = "start_locals (x_parser x) log" and ?c = "data ! p"
  obtain r' y' where ry: "one_byte (recorder hc) [?c] ?y = (r', y')" by force
  have same: "same_end data p (r, y) (r', y')" using one_byte_same [OF assms(1-4), of hc] assms(5) ry by simp
  have h: "parser_wf 0 (x_parser x)" "marks_ok (hp_state (x_parser x)) (marked x)" "x_p x = p" "x_p x < length data"
    using assms(1,2) by (simp_all add: at_head_def)
  have ok: "hp_errno (x_parser x) = HPE_OK" using h(1) by (simp add: parser_wf_def)
  have xy: "same_run data p y y'" using same by (simp add: same_end_def)
  note ex = execute_one [OF ok, of "recorder hc" ?c log, unfolded ry]
  show ?thesis
  proof (cases r)
    case None
    have r': "r' = None" and up: "\<not> hp_upgrade (x_parser y)" and nb: "\<not> marked y Body"
      using same by (simp_all add: same_end_def None)
    have "progress_post (x_p x) (length data) (parser_wf 0) (None, y)"
      using one_byte_progress [OF well_behaved_recorder h(1,2,4), of hc] assms(5) None by simp
    then have w: "parser_wf 0 (x_parser y)" "marks_ok (hp_state (x_parser y)) (marked y)"
      by (simp_all add: progress_post_def)
    have eq: "marked y = marked y'"
      using xy nb by (intro ext) (metis same_run_def)
    let ?z = "y'\<lparr>x_p := x_p y' + 1\<rparr>"
    have z: "x_parser ?z = x_parser y" "x_p ?z = length [?c]" "marked ?z = marked y"
      using xy eq by (simp_all add: same_run_def)
    obtain u where u: "left_over_marks (recorder hc) [?c] ?z = (Returned (length [?c]), u)" "x_parser u = x_parser ?z"
        "flatten (x_env u) = flatten (x_env ?z) @ pending [?c] (length [?c]) (x_mark ?z)"
      using left_over_recorder [of ?z "[?c]" hc] w z by auto
    have grow: "flatten (x_env y) @ pending data (p + 1) (x_mark y) = flatten (x_env u)"
    proof -
      have b: "k \<le> p" if "x_mark y m = Some k" for m k using xy that by (simp add: same_run_def)
      have b': "k = 0" if "x_mark y' m = Some k" for m k using xy that by (simp add: same_run_def)
      have iff: "(x_mark y m = None) = (x_mark y' m = None)" for m using fun_cong [OF eq, of m]
        by (cases "x_mark y m"; cases "x_mark y' m") (simp_all add: marked_def)
      have fl: "flatten (x_env y') = flatten (x_env y) @ pending data p (x_mark y)" using xy by (simp add: same_run_def)
      show ?thesis
      proof (cases "\<forall>m. x_mark y m = None")
        case True
        then have "pending d q (x_mark y) = []" "pending d q (x_mark y') = []" for d q
          using iff by (auto intro!: pending_none)
        with fl u(3) show ?thesis by simp
      next
        case False
        then obtain m k where m: "x_mark y m = Some k" by auto
        then obtain k' where m': "x_mark y' m = Some k'" using iff [of m] by auto
        have o: "x_mark y m' = None" if "m' \<noteq> m" for m'
          using w(2) m that nb unfolding marks_ok_def marked_def
          by (cases m; cases m') (auto simp: url_states_def)
        have o': "x_mark y' m' = None" if "m' \<noteq> m" for m' using o iff that by blast
        have "pending data q (x_mark y) = piece data k q m" for q
          by (rule pending_one [of "x_mark y" m k]) (use m o in auto)
        moreover have "pending [?c] 1 (x_mark y') = [Piece m [?c]]"
          using pending_one [of "x_mark y'" m k' "[?c]" 1] m' o' b' [OF m'] by (simp add: piece_def)
        ultimately show ?thesis
          using fl u(3) piece_Suc [OF b [OF m] assms(2), of m] by simp
      qed
    qed
    have py: "x_p y = p" using xy by (simp add: same_run_def)
    have "x_mark y m = Some k \<Longrightarrow> k \<le> p + 1" for m k using xy by (force simp: same_run_def)
    then have "at_head data (p + 1) (y\<lparr>x_p := x_p y + 1\<rparr>) (x_env u)"
      using w nb grow assms(2) py by (simp add: at_head_def)
    moreover have "hp_errno (x_parser y) = HPE_OK" using w(1) by (simp add: parser_wf_def)
    ultimately show ?thesis
      using None ex r' u up z(1) py by auto
  next
    case (Some st)
    then obtain n where n: "st = Returned n" "p \<le> n" "r' = Some (Returned (n - p))"
        "hp_errno (x_parser y) = HPE_OK \<Longrightarrow> hp_upgrade (x_parser y) \<and> (\<forall>m. \<not> marked y m)"
      using same by (cases st) (auto simp: same_end_def)
    have fl: "flatten (x_env y') = flatten (x_env y) @ pending data p (x_mark y)" "x_parser y' = x_parser y"
      using xy by (simp_all add: same_run_def)
    have "pending data p (x_mark y) = []" if "hp_errno (x_parser y) = HPE_OK"
      using n(4) [OF that] by (intro pending_none) (simp add: marked_def)
    with fl n Some ex show ?thesis by auto
  qed
qed

subsection \<open>Runs of body bytes\<close>

lemma start_locals_body: "hp_state p \<in> bulk \<Longrightarrow> start_marks (hp_state p) = (\<lambda>_. None)"
  by (auto simp: start_marks_def mark_of_def bulk_def)

definition eat_identity :: "64 word \<Rightarrow> http_parser \<Rightarrow> http_parser" where
  "eat_identity k p = (let q = p\<lparr>hp_content_length := hp_content_length p - k\<rparr> in
     if hp_content_length p = k then
       (let q' = q\<lparr>hp_state := s_message_done\<rparr> in q'\<lparr>hp_state := NEW_MESSAGE q'\<rparr>)
     else q)"

definition eat_chunk :: "64 word \<Rightarrow> http_parser \<Rightarrow> http_parser" where
  "eat_chunk k p = (let q = p\<lparr>hp_content_length := hp_content_length p - k\<rparr> in
     if hp_content_length p = k then q\<lparr>hp_state := s_chunk_data_almost_done\<rparr> else q)"

lemma bulk_size:
  assumes "0 < n" and "n < 2 ^ 64" and "c \<noteq> 0" and "k = min c (of_nat n :: 64 word)"
  shows "unat k = min (unat c) n" "0 < unat k"
proof -
  have n: "unat (of_nat n :: 64 word) = n" using assms(2) by (simp add: unat_of_nat)
  show "unat k = min (unat c) n" using n by (auto simp: assms(4) min_def word_le_nat_alt)
  with assms(1,3) show "0 < unat k" by (simp add: unat_gt_0)
qed

lemma reexecutions_Suc: "reexecutions = Suc (Suc (Suc (Suc (Suc 0))))"
  by (simp add: reexecutions_def)

lemma one_byte_identity:
  assumes "parser_wf 0 (x_parser x)" and "hp_state (x_parser x) = s_body_identity" and "x_mark x = (\<lambda>_. None)"
    and "x_p x < length data" and "length data < 2 ^ 64"
    and "k = min (hp_content_length (x_parser x)) (of_nat (length data - x_p x))"
  shows "one_byte (recorder hc) data x = (None,
     if hp_content_length (x_parser x) = k
     then x\<lparr>x_parser := eat_identity k (x_parser x), x_p := x_p x + (unat k - 1),
        x_env := x_env x @ [Piece Body (take (unat k) (drop (x_p x) data)), Noted Message_Complete]\<rparr>
     else x\<lparr>x_parser := eat_identity k (x_parser x), x_p := x_p x + (unat k - 1),
        x_mark := (\<lambda>_. None)(Body := Some (x_p x))\<rparr>)"
proof -
  let ?p = "x_parser x"
  have ok: "hp_errno ?p = HPE_OK" and cl: "hp_content_length ?p \<noteq> 0" "hp_content_length ?p \<noteq> ULLONG_MAX"
    using assms(1,2) by (simp_all add: parser_wf_def state_wf_def)
  have k: "0 < unat k"
    by (rule bulk_size(2) [OF _ _ cl(1) assms(6)]) (use assms(4,5) in simp_all)
  let ?q = "?p\<lparr>hp_content_length := hp_content_length ?p - k\<rparr>"
  let ?read = "[Mark Body, Skip (unat k - 1)]"
  have sw: "switch (length data - x_p x) ch ?p = (if hp_content_length ?q = 0
      then (?q\<lparr>hp_state := s_message_done\<rparr>, ?read @ [Data_Last Body], Reexecute) else (?q, ?read, Break))" for ch
    using assms(2) cl by (simp add: switch_def sw_body_identity_def Let_def flip: assms(6))
  have s: "one_byte (recorder hc) data x = reexecute_byte reexecutions (recorder hc) data (data ! x_p x) x"
    using assms(2) by (simp add: one_byte_def PARSING_HEADER_def Let_def)
  show ?thesis
  proof (cases "hp_content_length ?p = k")
    case True
    have e: "x_p x + (unat k - 1) + 1 - x_p x = unat k" using k by simp
    have m: "switch r ch (?p\<lparr>hp_content_length := 0, hp_state := s_message_done\<rparr>) = (eat_identity k ?p, [Notify Message_Complete], Break)" for r ch
      by (simp add: switch_def sw_message_done_def new_message_def eat_identity_def Let_def True)
    have "hp_errno (eat_identity k ?p) = HPE_OK" using ok by (simp add: eat_identity_def Let_def)
    then show ?thesis
      using True ok assms(3) k
      by (simp add: s reexecutions_Suc sw m MARK_def rec_data rec_notify)
  next
    case False
    then show ?thesis using assms(3)
      by (simp add: s reexecutions_Suc sw MARK_def eat_identity_def Let_def)
  qed
qed

lemma one_byte_chunk:
  assumes "parser_wf 0 (x_parser x)" and "hp_state (x_parser x) = s_chunk_data" and "x_mark x = (\<lambda>_. None)"
    and "k = min (hp_content_length (x_parser x)) (of_nat (length data - x_p x))"
  shows "one_byte (recorder hc) data x = (None,
     x\<lparr>x_parser := eat_chunk k (x_parser x), x_p := x_p x + (unat k - 1),
        x_mark := (\<lambda>_. None)(Body := Some (x_p x))\<rparr>)"
proof -
  let ?p = "x_parser x"
  have cl: "hp_content_length ?p \<noteq> 0" "hp_content_length ?p \<noteq> ULLONG_MAX" "F_CHUNKED \<in> hp_flags ?p"
    using assms(1,2) by (simp_all add: parser_wf_def state_wf_def)
  then have "switch (length data - x_p x) ch ?p = (eat_chunk k ?p, [Mark Body, Skip (unat k - 1)], Break)" for ch
    using assms(2) by (simp add: switch_def sw_chunk_data_def Let_def eat_chunk_def flip: assms(4))
  then show ?thesis
    using assms(2,3) by (simp add: one_byte_def PARSING_HEADER_def Let_def reexecutions_Suc MARK_def)
qed

lemma one_byte_eof:
  assumes "hp_state (x_parser x) = s_body_identity_eof" and "x_mark x = (\<lambda>_. None)"
  shows "one_byte (recorder hc) data x = (None,
     x\<lparr>x_p := x_p x + (length data - x_p x - 1), x_mark := (\<lambda>_. None)(Body := Some (x_p x))\<rparr>)"
  using assms
  by (simp add: one_byte_def PARSING_HEADER_def Let_def reexecutions_Suc switch_def sw_body_identity_eof_def MARK_def)

lemma start_bulk:
  assumes "hp_state p \<in> bulk"
  shows "start_locals p e = \<lparr>x_parser = p, x_env = e, x_p = 0, x_mark = (\<lambda>_. None)\<rparr>"
  using assms by (simp add: start_locals_def start_locals_body)

lemma left_over_body:
  assumes "hp_errno (x_parser x) = HPE_OK" and "x_mark x = (\<lambda>_. None)(Body := Some 0)" and "x_p x = length data"
  shows "left_over_marks (recorder hc) data x =
    (Returned (length data), x\<lparr>x_env := x_env x @ [Piece Body data], x_mark := (\<lambda>_. None)\<rparr>)"
  using assms by (simp add: left_over_marks_def marks_set_def rec_data)

lemma left_over_nothing:
  assumes "hp_errno (x_parser x) = HPE_OK" and "x_mark x = (\<lambda>_. None)"
  shows "left_over_marks (recorder hc) data x = (Returned (length data), x)"
  using assms by (simp add: left_over_marks_def marks_set_def rec_data)

lemma min_one: "c \<noteq> 0 \<Longrightarrow> min c (1 :: 64 word) = 1"
  by (metis min.absorb_iff2 word_gt_0 word_less_1 linorder_not_le)

definition bytes_of :: "string \<Rightarrow> http_event list" where
  "bytes_of cs = map (\<lambda>c. Piece Body [c]) cs"

definition identity_end :: "64 word \<Rightarrow> http_parser \<Rightarrow> http_event list" where
  "identity_end k p = (if hp_content_length p = k then [Noted Message_Complete] else [])"

lemma execute_one_identity:
  assumes "parser_wf 0 p" and "hp_state p = s_body_identity"
  shows "http_parser_execute (recorder hc) [c] p log =
    (Returned 1, eat_identity 1 p, log @ [Piece Body [c]] @ identity_end 1 p)"
proof -
  have ok: "hp_errno p = HPE_OK" and cl: "hp_content_length p \<noteq> 0"
    using assms by (simp_all add: parser_wf_def state_wf_def)
  have b: "hp_state p \<in> bulk" using assms(2) by (simp add: bulk_def)
  let ?x = "start_locals p log"
  have x: "x_parser ?x = p" "x_mark ?x = (\<lambda>_. None)" "x_p ?x = 0" "x_env ?x = log"
    by (simp_all add: start_bulk [OF b])
  have "one_byte (recorder hc) [c] ?x = (None,
     if hp_content_length p = 1
     then ?x\<lparr>x_parser := eat_identity 1 p, x_env := log @ [Piece Body [c], Noted Message_Complete]\<rparr>
     else ?x\<lparr>x_parser := eat_identity 1 p, x_mark := (\<lambda>_. None)(Body := Some 0)\<rparr>)"
    using one_byte_identity [of ?x "[c]" 1 hc] assms x cl
    by (cases ?x) (simp add: min_one)
  moreover have "hp_errno (eat_identity 1 p) = HPE_OK" using ok by (simp add: eat_identity_def Let_def)
  ultimately show ?thesis
    using x by (simp add: execute_one [OF ok] left_over_body left_over_nothing identity_end_def)
qed

lemma execute_one_chunk:
  assumes "parser_wf 0 p" and "hp_state p = s_chunk_data"
  shows "http_parser_execute (recorder hc) [c] p log = (Returned 1, eat_chunk 1 p, log @ [Piece Body [c]])"
proof -
  have ok: "hp_errno p = HPE_OK" and cl: "hp_content_length p \<noteq> 0"
    using assms by (simp_all add: parser_wf_def state_wf_def)
  have b: "hp_state p \<in> bulk" using assms(2) by (simp add: bulk_def)
  let ?x = "start_locals p log"
  have x: "x_parser ?x = p" "x_mark ?x = (\<lambda>_. None)" "x_p ?x = 0" "x_env ?x = log"
    by (simp_all add: start_bulk [OF b])
  have "one_byte (recorder hc) [c] ?x = (None,
     ?x\<lparr>x_parser := eat_chunk 1 p, x_mark := (\<lambda>_. None)(Body := Some 0)\<rparr>)"
    using one_byte_chunk [of ?x 1 "[c]" hc] assms x cl
    by (cases ?x) (simp add: min_one)
  moreover have "hp_errno (eat_chunk 1 p) = HPE_OK" using ok by (simp add: eat_chunk_def Let_def)
  ultimately show ?thesis
    using x by (simp add: execute_one [OF ok] left_over_body)
qed

lemma execute_one_eof:
  assumes "parser_wf 0 p" and "hp_state p = s_body_identity_eof"
  shows "http_parser_execute (recorder hc) [c] p log = (Returned 1, p, log @ [Piece Body [c]])"
proof -
  have ok: "hp_errno p = HPE_OK" using assms by (simp add: parser_wf_def)
  have b: "hp_state p \<in> bulk" using assms(2) by (simp add: bulk_def)
  let ?x = "start_locals p log"
  have x: "x_parser ?x = p" "x_mark ?x = (\<lambda>_. None)" "x_p ?x = 0" "x_env ?x = log"
    by (simp_all add: start_bulk [OF b])
  have "one_byte (recorder hc) [c] ?x = (None, ?x\<lparr>x_mark := (\<lambda>_. None)(Body := Some 0)\<rparr>)"
    using one_byte_eof [of ?x hc "[c]"] assms x by (cases ?x) simp
  then show ?thesis
    using x ok by (simp add: execute_one [OF ok] left_over_body)
qed

text \<open>A run of \<open>n\<close> bytes, eaten one at a time.\<close>

lemma feed_run:
  fixes eat :: "64 word \<Rightarrow> http_parser \<Rightarrow> http_parser" and fin :: "64 word \<Rightarrow> http_parser \<Rightarrow> http_event list"
  assumes one: "\<And>p c log. Q p \<Longrightarrow> http_parser_execute (recorder hc) [c] p log =
      (Returned 1, eat 1 p, log @ [Piece Body [c]] @ fin 1 p)"
    and more: "\<And>p. Q p \<Longrightarrow> 1 < unat (hp_content_length p) \<Longrightarrow> Q (eat 1 p) \<and> fin 1 p = [] \<and>
      hp_content_length (eat 1 p) = hp_content_length p - 1"
    and kept: "\<And>p. Q p \<Longrightarrow> hp_errno (eat 1 p) = HPE_OK \<and> \<not> hp_upgrade (eat 1 p)"
    and split: "\<And>p k. Q p \<Longrightarrow> 1 < unat (hp_content_length p) \<Longrightarrow>
      eat k (eat 1 p) = eat (k + 1) p \<and> fin k (eat 1 p) = fin (k + 1) p"
    and "Q p" and "cs \<noteq> []" and "length cs \<le> unat (hp_content_length p)"
  shows "\<exists>log'. feed_bytes hc (cs @ ds) p log =
      (case feed_bytes hc ds (eat (of_nat (length cs)) p) log' of (n, z) \<Rightarrow> (n + length cs, z)) \<and>
    flatten log' = flatten log @ bytes_of cs @ flatten (fin (of_nat (length cs)) p)"
  using assms(5-)
proof (induction cs arbitrary: p log)
  case (Cons c cs)
  let ?q = "eat 1 p" and ?log = "log @ [Piece Body [c]] @ fin 1 p"
  have feed: "feed_bytes hc (c # xs) p log = (case feed_bytes hc xs ?q ?log of (n, z) \<Rightarrow> (n + 1, z))" for xs
    using one [OF Cons.prems(1)] kept [OF Cons.prems(1)] by simp
  show ?case
  proof (cases "cs = []")
    case True
    then show ?thesis
      using feed [of ds] by (intro exI [of _ ?log]) (simp add: bytes_of_def)
  next
    case False
    then have big: "1 < unat (hp_content_length p)"
      using Cons.prems(3) by (cases cs) auto
    note n = more [OF Cons.prems(1) big]
    have "unat (hp_content_length ?q) = unat (hp_content_length p) - 1"
      using n big by (simp add: unat_sub word_le_nat_alt)
    then have le: "length cs \<le> unat (hp_content_length ?q)" using Cons.prems(3) by simp
    from n Cons.IH [OF _ False le, of ?log]
    obtain log' where l: "feed_bytes hc (cs @ ds) ?q ?log =
        (case feed_bytes hc ds (eat (of_nat (length cs)) ?q) log' of (n, z) \<Rightarrow> (n + length cs, z))"
      "flatten log' = flatten ?log @ bytes_of cs @ flatten (fin (of_nat (length cs)) ?q)"
      by blast
    have Suc: "of_nat (length (c # cs)) = of_nat (length cs) + (1 :: 64 word)" by simp
    obtain m z where r: "feed_bytes hc ds (eat (of_nat (length cs) + 1) p) log' = (m, z)" by (rule prod.exhaust)
    have "feed_bytes hc (cs @ ds) ?q ?log = (m + length cs, z)"
      using l(1) r split [OF Cons.prems(1) big] by simp
    then have "feed_bytes hc ((c # cs) @ ds) p log = (m + length (c # cs), z)"
      using feed [of "cs @ ds"] by simp
    moreover have "flatten log' = flatten log @ bytes_of (c # cs) @ flatten (fin (of_nat (length cs) + 1) p)"
      using l(2) n split [OF Cons.prems(1) big] by (simp add: bytes_of_def)
    ultimately show ?thesis unfolding Suc using r by (intro exI [of _ log']) (simp del: feed_bytes.simps)
  qed
qed simp

lemma body_bounds:
  assumes "parser_wf 0 p" and "hp_state p \<in> {s_body_identity, s_chunk_data}"
  shows "hp_content_length p \<noteq> 0" "hp_content_length p \<noteq> ULLONG_MAX"
  using assms by (auto simp: parser_wf_def state_wf_def)

lemma feed_identity:
  assumes "parser_wf 0 p" and "hp_state p = s_body_identity" and "\<not> hp_upgrade p" and "cs \<noteq> []"
    and "length cs \<le> unat (hp_content_length p)"
  shows "\<exists>log'. feed_bytes hc (cs @ ds) p log =
      (case feed_bytes hc ds (eat_identity (of_nat (length cs)) p) log' of (n, z) \<Rightarrow> (n + length cs, z)) \<and>
    flatten log' = flatten log @ bytes_of cs @ flatten (identity_end (of_nat (length cs)) p)"
proof (rule feed_run [where Q = "\<lambda>p. parser_wf 0 p \<and> hp_state p = s_body_identity \<and> \<not> hp_upgrade p"])
  fix p c log assume p: "parser_wf 0 p \<and> hp_state p = s_body_identity \<and> \<not> hp_upgrade p"
  show "http_parser_execute (recorder hc) [c] p log =
      (Returned 1, eat_identity 1 p, log @ [Piece Body [c]] @ identity_end 1 p)"
    using execute_one_identity p by blast
  show "hp_errno (eat_identity 1 p) = HPE_OK \<and> \<not> hp_upgrade (eat_identity 1 p)"
    using p by (simp add: eat_identity_def Let_def parser_wf_def)
next
  fix p assume p: "parser_wf 0 p \<and> hp_state p = s_body_identity \<and> \<not> hp_upgrade p"
    and big: "1 < unat (hp_content_length p)"
  then have n: "hp_content_length p \<noteq> 1" by auto
  have "hp_content_length p - min (hp_content_length p) 1 \<noteq> ULLONG_MAX"
    using p body_bounds [of p] by (intro body_left(1)) (simp add: bulk_def)
  moreover have "min (hp_content_length p) 1 = 1" using p body_bounds [of p] by (intro min_one) simp
  ultimately have m: "hp_content_length p - 1 \<noteq> ULLONG_MAX" by simp
  have e: "eat_identity 1 p = p\<lparr>hp_content_length := hp_content_length p - 1\<rparr>"
    using n by (simp add: eat_identity_def Let_def)
  show "(parser_wf 0 (eat_identity 1 p) \<and> hp_state (eat_identity 1 p) = s_body_identity \<and> \<not> hp_upgrade (eat_identity 1 p)) \<and>
      identity_end 1 p = [] \<and> hp_content_length (eat_identity 1 p) = hp_content_length p - 1"
    using p n m by (simp add: e identity_end_def parser_wf_def state_wf_def numbers_wf_def)
  fix k
  have "(hp_content_length p - 1 = k) = (hp_content_length p = k + 1)" by (auto simp: algebra_simps)
  with n show "eat_identity k (eat_identity 1 p) = eat_identity (k + 1) p \<and>
      identity_end k (eat_identity 1 p) = identity_end (k + 1) p"
    by (simp add: e eat_identity_def identity_end_def Let_def algebra_simps)
qed (use assms in simp_all)

lemma feed_chunk:
  assumes "parser_wf 0 p" and "hp_state p = s_chunk_data" and "\<not> hp_upgrade p" and "cs \<noteq> []"
    and "length cs \<le> unat (hp_content_length p)"
  shows "\<exists>log'. feed_bytes hc (cs @ ds) p log =
      (case feed_bytes hc ds (eat_chunk (of_nat (length cs)) p) log' of (n, z) \<Rightarrow> (n + length cs, z)) \<and>
    flatten log' = flatten log @ bytes_of cs @ flatten []"
proof (rule feed_run [where Q = "\<lambda>p. parser_wf 0 p \<and> hp_state p = s_chunk_data \<and> \<not> hp_upgrade p" and fin = "\<lambda>_ _. []"])
  fix p c log assume p: "parser_wf 0 p \<and> hp_state p = s_chunk_data \<and> \<not> hp_upgrade p"
  show "http_parser_execute (recorder hc) [c] p log = (Returned 1, eat_chunk 1 p, log @ [Piece Body [c]] @ [])"
    using execute_one_chunk p by simp
  show "hp_errno (eat_chunk 1 p) = HPE_OK \<and> \<not> hp_upgrade (eat_chunk 1 p)"
    using p by (simp add: eat_chunk_def Let_def parser_wf_def)
next
  fix p assume p: "parser_wf 0 p \<and> hp_state p = s_chunk_data \<and> \<not> hp_upgrade p"
    and big: "1 < unat (hp_content_length p)"
  then have n: "hp_content_length p \<noteq> 1" by auto
  have "hp_content_length p - min (hp_content_length p) 1 \<noteq> ULLONG_MAX"
    using p body_bounds [of p] by (intro body_left(1)) (simp add: bulk_def)
  moreover have "min (hp_content_length p) 1 = 1" using p body_bounds [of p] by (intro min_one) simp
  ultimately have m: "hp_content_length p - 1 \<noteq> ULLONG_MAX" by simp
  have e: "eat_chunk 1 p = p\<lparr>hp_content_length := hp_content_length p - 1\<rparr>"
    using n by (simp add: eat_chunk_def Let_def)
  have p': "F_CHUNKED \<in> hp_flags p" "numbers_wf p" "hp_errno p = HPE_OK" "hp_state p = s_chunk_data" "\<not> hp_upgrade p"
    using p by (auto simp: parser_wf_def state_wf_def)
  show "(parser_wf 0 (eat_chunk 1 p) \<and> hp_state (eat_chunk 1 p) = s_chunk_data \<and> \<not> hp_upgrade (eat_chunk 1 p)) \<and>
      ([] :: http_event list) = [] \<and> hp_content_length (eat_chunk 1 p) = hp_content_length p - 1"
    using p' n m by (simp add: e parser_wf_def state_wf_def numbers_wf_def)
  fix k
  have "(hp_content_length p - 1 = k) = (hp_content_length p = k + 1)" by (auto simp: algebra_simps)
  with n show "eat_chunk k (eat_chunk 1 p) = eat_chunk (k + 1) p \<and> ([] :: http_event list) = []"
    by (simp add: e eat_chunk_def Let_def algebra_simps)
qed (use assms in simp_all)

lemma feed_eof:
  assumes "parser_wf 0 p" and "hp_state p = s_body_identity_eof" and "\<not> hp_upgrade p"
  shows "\<exists>log'. feed_bytes hc (cs @ ds) p log = (case feed_bytes hc ds p log' of (n, z) \<Rightarrow> (n + length cs, z)) \<and>
    flatten log' = flatten log @ bytes_of cs @ flatten []"
proof (induction cs arbitrary: log)
  case (Cons c cs)
  obtain log' where l: "feed_bytes hc (cs @ ds) p (log @ [Piece Body [c]]) =
      (case feed_bytes hc ds p log' of (n, z) \<Rightarrow> (n + length cs, z))"
    "flatten log' = flatten (log @ [Piece Body [c]]) @ bytes_of cs @ flatten []"
    using Cons.IH by blast
  have "hp_errno p = HPE_OK" using assms(1) by (simp add: parser_wf_def)
  with l execute_one_eof [OF assms(1,2), of hc c log] assms(3) show ?case
    by (intro exI [of _ log']) (simp add: bytes_of_def split: prod.splits)
qed (auto simp: bytes_of_def)

end
