(* ===== verification/Http_Chunks.thy ===== *)
theory Http_Chunks
  imports Http_Stream
begin

section \<open>How the input is cut does not matter\<close>

text \<open>
  One step of the loop against the bytes it takes (\<open>runs_to\<close>), the whole loop
  (\<open>parse_loop_bytes\<close>), and from that the two properties: the parser reads its input as if it
  came byte by byte, and two calls on two pieces do what one call on the joined piece does.
\<close>

definition runs_to :: "(http_parser \<Rightarrow> bool) \<Rightarrow> string \<Rightarrow> nat \<Rightarrow> http_event list locals \<Rightarrow> http_event list \<Rightarrow>
    nat \<Rightarrow> http_event list locals \<Rightarrow> http_event list \<Rightarrow> bool" where
  "runs_to hc data p x log p' z log' \<longleftrightarrow>
     (\<exists>y. one_byte (recorder hc) data x = (None, y) \<and> z = y\<lparr>x_p := x_p y + 1\<rparr>) \<and> p < p' \<and>
     at_head data p' z log' \<and> \<not> hp_upgrade (x_parser z) \<and>
     feed_bytes hc (drop p data) (x_parser x) log =
       (case feed_bytes hc (drop p' data) (x_parser z) log' of (n, w) \<Rightarrow> (n + (p' - p), w))"

lemma at_head_bulk:
  assumes "at_head data p x log" and "p < length data" and "hp_state (x_parser x) \<in> bulk"
  shows "x_mark x = (\<lambda>_. None)" "flatten log = flatten (x_env x)"
proof -
  have m: "marks_ok (hp_state (x_parser x)) (marked x)" "\<not> marked x Body"
    using assms by (simp_all add: at_head_def)
  have "hp_state (x_parser x) \<notin> url_states \<union> {s_header_field, s_header_value}"
    using assms(3) by (auto simp: bulk_def url_states_def)
  with m have "\<not> marked x m" for m by (cases m) (auto simp: marks_ok_def)
  then show none: "x_mark x = (\<lambda>_. None)" by (intro ext) (simp add: marked_def)
  then show "flatten log = flatten (x_env x)"
    using assms(1) by (simp add: at_head_def pending_none)
qed

lemma at_head_step:
  assumes "at_head data p x log" and "p < length data" and "one_byte (recorder hc) data x = (None, y)"
    and "x_p y + 1 = p'" "p' \<le> length data"
    and "\<And>m k. x_mark y m = Some k \<Longrightarrow> k \<le> p'"
    and "p' < length data \<Longrightarrow> marked y Body \<Longrightarrow> hp_state (x_parser y) \<notin> bulk"
    and "flatten log' = flatten (x_env y) @ pending data p' (x_mark y)"
  shows "at_head data p' (y\<lparr>x_p := x_p y + 1\<rparr>) log'"
proof -
  have "progress_post (x_p x) (length data) (parser_wf 0) (None, y)"
    using one_byte_progress [OF well_behaved_recorder, of x data hc] assms(1-3) by (simp add: at_head_def)
  then show ?thesis
    using assms(4-8) by (simp add: at_head_def progress_post_def)
qed

lemma pending_body: "pending data p' ((\<lambda>_. None)(Body := Some p)) = bytes_of (take (p' - p) (drop p data))"
  using pending_one [of "(\<lambda>_. None)(Body := Some p)" Body p data p'] by (simp add: piece_def bytes_of_def)

lemma flatten_body: "flatten [Piece Body cs] = bytes_of cs"
  by (simp add: bytes_of_def)

text \<open>A whole run of body bytes, and what the single bytes of it make.\<close>

lemma runs_body:
  assumes "at_head data p x log" and "p < length data" and "hp_state (x_parser x) \<in> bulk"
    and "one_byte (recorder hc) data x = (None, y)" and "0 < k" and "p + k \<le> length data"
    and "x_p y + 1 = p + k" and "\<not> hp_upgrade (x_parser y)"
    and run: "\<And>cs ds. length cs = k \<Longrightarrow> \<exists>log'. feed_bytes hc (cs @ ds) (x_parser x) log =
        (case feed_bytes hc ds (x_parser y) log' of (n, z) \<Rightarrow> (n + k, z)) \<and>
      flatten log' = flatten log @ bytes_of cs @ flatten fl"
    and y: "x_mark y = (\<lambda>_. None)(Body := Some p) \<and> x_env y = x_env x \<and> fl = [] \<and>
        (p + k < length data \<longrightarrow> hp_state (x_parser y) \<notin> bulk) \<or>
      x_mark y = (\<lambda>_. None) \<and> x_env y = x_env x @ [Piece Body (take k (drop p data))] @ fl"
  shows "\<exists>p' z log'. runs_to hc data p x log p' z log'"
proof -
  let ?cs = "take k (drop p data)" and ?p' = "p + k" and ?z = "y\<lparr>x_p := x_p y + 1\<rparr>"
  have cs: "length ?cs = k" using assms(6) by simp
  have split: "drop p data = ?cs @ drop ?p' data"
    using append_take_drop_id [of k "drop p data"] by (simp add: add.commute)
  obtain log' where l: "feed_bytes hc (?cs @ drop ?p' data) (x_parser x) log =
      (case feed_bytes hc (drop ?p' data) (x_parser y) log' of (n, z) \<Rightarrow> (n + k, z))"
    "flatten log' = flatten log @ bytes_of ?cs @ flatten fl"
    using run [OF cs, of "drop ?p' data"] by blast
  have log: "flatten log = flatten (x_env x)" by (rule at_head_bulk(2) [OF assms(1-3)])
  have "at_head data ?p' ?z log'"
  proof (rule at_head_step [OF assms(1,2,4,7,6)])
    show "m' \<le> ?p'" if "x_mark y m = Some m'" for m m' using y that by (auto split: if_splits)
    show "hp_state (x_parser y) \<notin> bulk" if "?p' < length data" "marked y Body"
      using y that by (auto simp: marked_def)
    show "flatten log' = flatten (x_env y) @ pending data ?p' (x_mark y)"
      using y l(2) log by (auto simp: pending_none pending_body bytes_of_def)
  qed
  then have "runs_to hc data p x log ?p' ?z log'"
    using assms(4,5,8) l(1) [folded split] by (simp add: runs_to_def)
  then show ?thesis by blast
qed

lemma runs_identity:
  assumes "at_head data p x log" and "p < length data" and "hp_state (x_parser x) = s_body_identity"
    and "\<not> hp_upgrade (x_parser x)" and "length data < 2 ^ 64"
  shows "\<exists>p' z log'. runs_to hc data p x log p' z log'"
proof -
  let ?q = "x_parser x"
  define k where "k = min (hp_content_length ?q) (of_nat (length data - p))"
  have h: "x_p x = p" "parser_wf 0 ?q" and b: "hp_state ?q \<in> bulk"
    using assms(1,3) by (simp_all add: at_head_def bulk_def)
  note x = at_head_bulk [OF assms(1,2) b]
  have cl: "hp_content_length ?q \<noteq> 0" using body_bounds [OF h(2)] assms(3) by simp
  have k: "unat k = min (unat (hp_content_length ?q)) (length data - p)" "0 < unat k"
    using bulk_size [OF _ _ cl k_def] assms(2,5) by simp_all
  define y where "y = (if hp_content_length ?q = k
     then x\<lparr>x_parser := eat_identity k ?q, x_p := p + (unat k - 1),
       x_env := x_env x @ [Piece Body (take (unat k) (drop p data)), Noted Message_Complete]\<rparr>
     else x\<lparr>x_parser := eat_identity k ?q, x_p := p + (unat k - 1), x_mark := (\<lambda>_. None)(Body := Some p)\<rparr>)"
  have one: "one_byte (recorder hc) data x = (None, y)"
    using one_byte_identity [OF h(2) assms(3) x(1), of data k hc] h(1) assms(2,5) k_def by (simp add: y_def)
  have q: "x_parser y = eat_identity k ?q" by (simp add: y_def)
  show ?thesis
  proof (rule runs_body [OF assms(1,2) b one k(2), where fl = "identity_end k ?q"])
    show "\<exists>log'. feed_bytes hc (cs @ ds) ?q log = (case feed_bytes hc ds (x_parser y) log' of (n, z) \<Rightarrow> (n + unat k, z)) \<and>
        flatten log' = flatten log @ bytes_of cs @ flatten (identity_end k ?q)" if "length cs = unat k" for cs ds
    proof -
      have "cs \<noteq> []" "length cs \<le> unat (hp_content_length ?q)" using that k by auto
      from feed_identity [OF h(2) assms(3,4) this, of hc ds log] show ?thesis by (simp add: that q)
    qed
    have "p + unat k = length data" if "hp_content_length ?q \<noteq> k"
      using that k(1) assms(2) by (cases "unat (hp_content_length ?q) \<le> length data - p") (auto simp: word_unat_eq_iff)
    then show "x_mark y = (\<lambda>_. None)(Body := Some p) \<and> x_env y = x_env x \<and> identity_end k ?q = [] \<and>
        (p + unat k < length data \<longrightarrow> hp_state (x_parser y) \<notin> bulk) \<or>
      x_mark y = (\<lambda>_. None) \<and> x_env y = x_env x @ [Piece Body (take (unat k) (drop p data))] @ identity_end k ?q"
      using x(1) by (simp add: y_def identity_end_def)
    show "p + unat k \<le> length data" using k(1) assms(2) by simp
    show "x_p y + 1 = p + unat k" using k(2) by (simp add: y_def)
    show "\<not> hp_upgrade (x_parser y)" using assms(4) by (simp add: q eat_identity_def Let_def)
  qed
qed

lemma runs_chunk:
  assumes "at_head data p x log" and "p < length data" and "hp_state (x_parser x) = s_chunk_data"
    and "\<not> hp_upgrade (x_parser x)" and "length data < 2 ^ 64"
  shows "\<exists>p' z log'. runs_to hc data p x log p' z log'"
proof -
  let ?q = "x_parser x"
  define k where "k = min (hp_content_length ?q) (of_nat (length data - p))"
  have h: "x_p x = p" "parser_wf 0 ?q" and b: "hp_state ?q \<in> bulk"
    using assms(1,3) by (simp_all add: at_head_def bulk_def)
  note x = at_head_bulk [OF assms(1,2) b]
  have cl: "hp_content_length ?q \<noteq> 0" using body_bounds [OF h(2)] assms(3) by simp
  have k: "unat k = min (unat (hp_content_length ?q)) (length data - p)" "0 < unat k"
    using bulk_size [OF _ _ cl k_def] assms(2,5) by simp_all
  define y where "y = x\<lparr>x_parser := eat_chunk k ?q, x_p := p + (unat k - 1), x_mark := (\<lambda>_. None)(Body := Some p)\<rparr>"
  have one: "one_byte (recorder hc) data x = (None, y)"
    using one_byte_chunk [OF h(2) assms(3) x(1), of k data hc] h(1) k_def by (simp add: y_def)
  have q: "x_parser y = eat_chunk k ?q" by (simp add: y_def)
  show ?thesis
  proof (rule runs_body [OF assms(1,2) b one k(2), where fl = "[]"])
    show "\<exists>log'. feed_bytes hc (cs @ ds) ?q log = (case feed_bytes hc ds (x_parser y) log' of (n, z) \<Rightarrow> (n + unat k, z)) \<and>
        flatten log' = flatten log @ bytes_of cs @ flatten []" if "length cs = unat k" for cs ds
    proof -
      have "cs \<noteq> []" "length cs \<le> unat (hp_content_length ?q)" using that k by auto
      from feed_chunk [OF h(2) assms(3,4) this, of hc ds log] show ?thesis by (simp add: that q)
    qed
    have "hp_content_length ?q = k" if "p + unat k < length data"
      using that k(1) by (auto simp: min_def word_unat_eq_iff split: if_splits)
    then show "x_mark y = (\<lambda>_. None)(Body := Some p) \<and> x_env y = x_env x \<and> ([] :: http_event list) = [] \<and>
        (p + unat k < length data \<longrightarrow> hp_state (x_parser y) \<notin> bulk) \<or>
      x_mark y = (\<lambda>_. None) \<and> x_env y = x_env x @ [Piece Body (take (unat k) (drop p data))] @ []"
      by (simp add: y_def eat_chunk_def bulk_def)
    show "p + unat k \<le> length data" using k(1) assms(2) by simp
    show "x_p y + 1 = p + unat k" using k(2) by (simp add: y_def)
    show "\<not> hp_upgrade (x_parser y)" using assms(4) by (simp add: q eat_chunk_def Let_def)
  qed
qed

lemma runs_eof:
  assumes "at_head data p x log" and "p < length data" and "hp_state (x_parser x) = s_body_identity_eof"
    and "\<not> hp_upgrade (x_parser x)"
  shows "\<exists>p' z log'. runs_to hc data p x log p' z log'"
proof -
  let ?q = "x_parser x" and ?k = "length data - p"
  have h: "x_p x = p" "parser_wf 0 ?q" and b: "hp_state ?q \<in> bulk"
    using assms(1,3) by (simp_all add: at_head_def bulk_def)
  note x = at_head_bulk [OF assms(1,2) b]
  let ?y = "x\<lparr>x_p := p + (?k - 1), x_mark := (\<lambda>_. None)(Body := Some p)\<rparr>"
  have one: "one_byte (recorder hc) data x = (None, ?y)"
    using one_byte_eof [OF assms(3) x(1), of hc data] by (simp add: h(1))
  show ?thesis
  proof (rule runs_body [OF assms(1,2) b one, of ?k "[]"])
    show "\<exists>log'. feed_bytes hc (cs @ ds) ?q log = (case feed_bytes hc ds (x_parser ?y) log' of (n, z) \<Rightarrow> (n + ?k, z)) \<and>
        flatten log' = flatten log @ bytes_of cs @ flatten []" if "length cs = ?k" for cs ds
      using feed_eof [OF h(2) assms(3,4), of hc cs ds log] by (simp add: that)
  qed (use assms(2,4) in simp_all)
qed

lemma runs_byte:
  assumes "at_head data p x log" and "p < length data" and "hp_state (x_parser x) \<notin> bulk"
    and "\<not> hp_upgrade (x_parser x)" and "one_byte (recorder hc) data x = (None, y)"
  shows "\<exists>p' z log'. runs_to hc data p x log p' z log'"
proof -
  obtain log' where l: "http_parser_execute (recorder hc) [data ! p] (x_parser x) log = (Returned 1, x_parser y, log')"
      "at_head data (p + 1) (y\<lparr>x_p := x_p y + 1\<rparr>) log'" "hp_errno (x_parser y) = HPE_OK"
      "\<not> hp_upgrade (x_parser y)"
    using feed_same_byte [OF assms] by auto
  have "drop p data = data ! p # drop (p + 1) data" using assms(2) by (simp add: Cons_nth_drop_Suc)
  with l have "feed_bytes hc (drop p data) (x_parser x) log =
      (case feed_bytes hc (drop (p + 1) data) (x_parser y) log' of (n, w) \<Rightarrow> (n + (p + 1 - p), w))"
    by simp
  with l assms(5) have "runs_to hc data p x log (p + 1) (y\<lparr>x_p := x_p y + 1\<rparr>) log'"
    by (simp add: runs_to_def)
  then show ?thesis by blast
qed

lemma runs_bulk:
  assumes "at_head data p x log" and "p < length data" and "hp_state (x_parser x) \<in> bulk"
    and "\<not> hp_upgrade (x_parser x)" and "length data < 2 ^ 64"
  shows "\<exists>p' z log'. runs_to hc data p x log p' z log'"
  using assms(3) runs_identity [OF assms(1,2) _ assms(4,5)] runs_chunk [OF assms(1,2) _ assms(4,5)]
    runs_eof [OF assms(1,2) _ assms(4)]
  by (auto simp: bulk_def)

definition same_result :: "nat \<Rightarrow> stop \<times> http_event list locals \<Rightarrow> nat \<times> http_parser \<times> http_event list \<Rightarrow> bool" where
  "same_result p ry nql = (case ry of (r, y) \<Rightarrow> case nql of (n, q, l) \<Rightarrow>
     r = Returned (p + n) \<and> q = x_parser y \<and> (hp_errno q = HPE_OK \<longrightarrow> flatten l = flatten (x_env y)) \<and>
     (\<exists>z. flatten l = flatten (x_env y) @ z))"

lemma parse_loop_bytes:
  assumes "at_head data p x log" and "\<not> hp_upgrade (x_parser x)" and "length data < 2 ^ 64"
  shows "same_result p (parse_loop (recorder hc) data x) (feed_bytes hc (drop p data) (x_parser x) log)"
  using assms(1,2)
proof (induction "length data - p" arbitrary: p x log rule: less_induct)
  case less
  note head = less.prems(1)
  have h: "x_p x = p" "p \<le> length data" "parser_wf 0 (x_parser x)" "marks_ok (hp_state (x_parser x)) (marked x)"
    "flatten log = flatten (x_env x) @ pending data p (x_mark x)"
    using head by (simp_all add: at_head_def)
  show ?case
  proof (cases "p < length data")
    case False
    with h(2) have p: "p = length data" by simp
    obtain y where "left_over_marks (recorder hc) data x = (Returned (length data), y)" "x_parser y = x_parser x"
        "flatten (x_env y) = flatten (x_env x) @ pending data (length data) (x_mark x)"
      using left_over_recorder [OF h(3,4), of data hc] h(1) p by auto
    then show ?thesis
      using h p by (subst parse_loop.simps) (simp add: same_result_def)
  next
    case True
    obtain r y where ry: "one_byte (recorder hc) data x = (r, y)" by force
    show ?thesis
    proof (cases r)
      case None
      obtain p' z log' where run: "runs_to hc data p x log p' z log'"
        using runs_bulk [OF head True _ less.prems(2) assms(3)]
          runs_byte [OF head True _ less.prems(2) ry [unfolded None]] by blast
      then have z: "z = y\<lparr>x_p := x_p y + 1\<rparr>" "p < p'" "at_head data p' z log'" "\<not> hp_upgrade (x_parser z)"
        using ry None by (auto simp: runs_to_def)
      have "length data - p' < length data - p" using z(2) True by simp
      from less.hyps [OF this z(3,4)]
      have "same_result p' (parse_loop (recorder hc) data z) (feed_bytes hc (drop p' data) (x_parser z) log')" .
      moreover have "feed_bytes hc (drop p data) (x_parser x) log =
          (case feed_bytes hc (drop p' data) (x_parser z) log' of (n, w) \<Rightarrow> (n + (p' - p), w))"
        using run by (simp add: runs_to_def)
      moreover have "parse_loop (recorder hc) data x = parse_loop (recorder hc) data z"
        using True h(1) ry None z(1) by (subst parse_loop.simps) simp
      ultimately show ?thesis
        using z(2) by (auto simp: same_result_def split: prod.splits)
    next
      case (Some st)
      have nb: "hp_state (x_parser x) \<notin> bulk"
        using runs_bulk [OF head True _ less.prems(2) assms(3), of hc] ry Some by (auto simp: runs_to_def)
      have "progress_post (x_p x) (length data) (parser_wf 0) (Some st, y)"
        using one_byte_progress [OF well_behaved_recorder h(3,4), of data hc] True h(1) ry Some by simp
      then obtain n where n: "st = Returned n" by (auto simp: progress_post_def)
      obtain log' where l: "http_parser_execute (recorder hc) [data ! p] (x_parser x) log = (Returned (n - p), x_parser y, log')"
          "p \<le> n" "hp_errno (x_parser y) = HPE_OK \<longrightarrow> hp_upgrade (x_parser y) \<and> flatten log' = flatten (x_env y)"
          "\<exists>z. flatten log' = flatten (x_env y) @ z"
        using feed_same_byte [OF head True nb less.prems(2) ry] Some n by auto
      have "feed_bytes hc (drop p data) (x_parser x) log = (n - p, x_parser y, log')"
        using l(1,3) by (auto simp: True Cons_nth_drop_Suc [symmetric])
      moreover have "parse_loop (recorder hc) data x = (Returned n, y)"
        using True h(1) ry Some n by (subst parse_loop.simps) simp
      ultimately show ?thesis using l by (simp add: same_result_def)
    qed
  qed
qed

lemma at_head_start:
  assumes "parser_wf 0 p" and "flatten log = flatten e"
  shows "at_head data 0 (start_locals p e) log"
proof -
  have "pending data 0 (start_marks s) = []" for s
    by (simp add: pending_def open_piece_def start_marks_def)
  moreover have "\<not> marked (start_locals p e) Body"
    by (simp add: marked_def start_locals_def start_marks_def mark_of_def)
  ultimately show ?thesis
    using assms start_marks_ok [of p e]
    by (auto simp: at_head_def start_locals_def start_marks_def split: if_splits)
qed

lemma execute_bytes:
  assumes "parser_wf 0 p" and "\<not> hp_upgrade p" and "data \<noteq> []" and "length data < 2 ^ 64" and "flatten log = flatten e"
  shows "case http_parser_execute (recorder hc) data p e of (r, q, l) \<Rightarrow>
    case feed_bytes hc data p log of (n, q', l') \<Rightarrow>
     r = Returned n \<and> q = q' \<and> (hp_errno q = HPE_OK \<longrightarrow> flatten l' = flatten l) \<and>
     (\<exists>z. flatten l' = flatten l @ z)"
proof -
  have "hp_errno p = HPE_OK" using assms(1) by (simp add: parser_wf_def)
  with parse_loop_bytes [OF at_head_start [OF assms(1,5), of data], of hc] assms(2-4)
  show ?thesis
    by (auto simp: http_parser_execute_def same_result_def split: prod.splits)
      (simp_all add: start_locals_def)
qed

lemma feed_append:
  assumes "resting p" and "feed_bytes hc a p log = (length a, q, l)" and "hp_errno q = HPE_OK" and "\<not> hp_upgrade q"
  shows "feed_bytes hc (a @ b) p log = (case feed_bytes hc b q l of (n, z) \<Rightarrow> (n + length a, z))"
  using assms(1,2)
proof (induction a arbitrary: p log)
  case (Cons c a)
  obtain r p1 l1 where e: "http_parser_execute (recorder hc) [c] p log = (r, p1, l1)" by (rule prod_cases3)
  obtain n where n: "r = Returned n" "n \<le> 1" and rest: "resting p1"
    using execute_ends [OF well_behaved_recorder Cons.prems(1), of "[c]" hc log] e by (auto simp del: length_Cons)
  show ?case
  proof (cases "n = 1 \<and> hp_errno p1 = HPE_OK \<and> \<not> hp_upgrade p1")
    case True
    then have "feed_bytes hc a p1 l1 = (length a, q, l)"
      using Cons.prems(2) by (auto simp: e n(1) split: prod.splits)
    from Cons.IH [OF rest this] True show ?thesis by (simp add: e n(1) split: prod.splits)
  next
    case False
    then have "n = length (c # a)" "p1 = q" using Cons.prems(2) by (auto simp: e n(1) split: if_splits)
    with n(2) assms(3,4) False show ?thesis by simp
  qed
qed (use assms in simp)

subsection \<open>The properties\<close>

text \<open>
  C9: The parser reads a piece of input as if its bytes came in calls of their own: the same
  count and the same parser afterwards, whether it stops at an error or not.  If it ends with
  errno OK the notifications and data are the same up to where the data are cut; otherwise
  those of the single call are the beginning of those of the calls on the bytes, which have
  reported data that the single call drops when it finds the error.
\<close>
theorem execute_as_bytes:
  assumes "resting p" and "hp_errno p = HPE_OK" and "\<not> hp_upgrade p" and "data \<noteq> []" and "length data < 2 ^ 64"
  shows "case http_parser_execute (recorder hc) data p e of (r, q, l) \<Rightarrow>
    case feed_bytes hc data p e of (n, q', l') \<Rightarrow>
     r = Returned n \<and> q = q' \<and> (hp_errno q = HPE_OK \<longrightarrow> flatten l' = flatten l) \<and>
     (\<exists>z. flatten l' = flatten l @ z)"
proof -
  have "parser_wf 0 p" using assms(1,2) by (simp add: resting_def wf_update)
  from execute_bytes [OF this assms(3-5) refl] show ?thesis .
qed

theorem execute_as_bytes_witness:
  "case http_parser_execute (recorder (\<lambda>_. True)) ''GET /'' (http_parser_init HTTP_BOTH) [] of (r, q, l) \<Rightarrow>
    case feed_bytes (\<lambda>_. True) ''GET /'' (http_parser_init HTTP_BOTH) [] of (n, q', l') \<Rightarrow>
     r = Returned n \<and> q = q' \<and> (hp_errno q = HPE_OK \<longrightarrow> flatten l' = flatten l) \<and>
     (\<exists>z. flatten l' = flatten l @ z)"
  by (rule execute_as_bytes [OF init_rests]) (simp_all add: http_parser_init_def)

text \<open>
  C6: How the input is cut into calls does not matter.  Let a call have taken the whole of a
  piece, and left the parser without an error and not upgraded.  Then the call on the next
  piece leaves the parser that one call on both pieces leaves, and their counts add up.  If
  that parser has no error, the data reported are the same as well; if it has one, the two
  reports are the same up to where one of them ends, since data that wait to be reported when
  an error is found are dropped.
\<close>
theorem execute_split:
  assumes "resting p" and "hp_errno p = HPE_OK" and "\<not> hp_upgrade p"
    and "a \<noteq> []" and "b \<noteq> []" and "length (a @ b) < 2 ^ 64"
    and "http_parser_execute (recorder hc) a p e = (Returned (length a), q, e1)"
    and "hp_errno q = HPE_OK" and "\<not> hp_upgrade q"
  shows "case http_parser_execute (recorder hc) b q e1 of (r, q2, e2) \<Rightarrow>
    case http_parser_execute (recorder hc) (a @ b) p e of (r', q', e') \<Rightarrow>
      \<exists>n. r = Returned n \<and> r' = Returned (length a + n) \<and> q' = q2 \<and>
        (hp_errno q2 = HPE_OK \<longrightarrow> flatten e' = flatten e2) \<and>
        (\<exists>z. flatten e2 = flatten e' @ z \<or> flatten e' = flatten e2 @ z)"
proof -
  have wfp: "parser_wf 0 p" using assms(1,2) by (simp add: resting_def wf_update)
  have "resting q" using rec.rests [OF assms(1,7)] .
  then have wfq: "parser_wf 0 q" using assms(8) by (simp add: resting_def wf_update)
  obtain na qa la where fa: "feed_bytes hc a p e = (na, qa, la)" by (rule prod_cases3)
  have a: "na = length a" "qa = q" "flatten la = flatten e1"
    using execute_bytes [OF wfp assms(3,4), of e e hc] assms(6-8) fa by auto
  obtain nb qb lb where fb: "feed_bytes hc b q la = (nb, qb, lb)" by (rule prod_cases3)
  have ab: "feed_bytes hc (a @ b) p e = (nb + length a, qb, lb)"
    using feed_append [OF assms(1) _ assms(8,9), of hc a e la b] fa a fb by simp
  obtain r q2 e2 where 2: "http_parser_execute (recorder hc) b q e1 = (r, q2, e2)" by (rule prod_cases3)
  obtain r' q' e' where 1: "http_parser_execute (recorder hc) (a @ b) p e = (r', q', e')" by (rule prod_cases3)
  have whole: "r' = Returned (nb + length a)" "q' = qb" "hp_errno q' = HPE_OK \<longrightarrow> flatten lb = flatten e'"
    "\<exists>z. flatten lb = flatten e' @ z"
    using execute_bytes [OF wfp assms(3) _ assms(6), of e e hc] assms(4) ab 1 by auto
  have parts: "r = Returned nb" "q2 = qb" "hp_errno q2 = HPE_OK \<longrightarrow> flatten lb = flatten e2"
    "\<exists>z. flatten lb = flatten e2 @ z"
    using execute_bytes [OF wfq assms(9,5) _ a(3), of hc] assms(6) fb 2 by auto
  from whole(4) parts(4) have "\<exists>z. flatten e2 = flatten e' @ z \<or> flatten e' = flatten e2 @ z"
    by (metis append_eq_append_conv2)
  with whole(1-3) parts(1-3) 1 2 show ?thesis by (simp add: add.commute)
qed

theorem execute_split_witness:
  "case http_parser_execute (recorder (\<lambda>_. False)) ''st HTTP/1.0''
      (fst (snd (http_parser_execute (recorder (\<lambda>_. False)) ''GET /te'' (http_parser_init HTTP_REQUEST) [])))
      (snd (snd (http_parser_execute (recorder (\<lambda>_. False)) ''GET /te'' (http_parser_init HTTP_REQUEST) []))) of (r, q2, e2) \<Rightarrow>
    case http_parser_execute (recorder (\<lambda>_. False)) (''GET /te'' @ ''st HTTP/1.0'') (http_parser_init HTTP_REQUEST) [] of (r', q', e') \<Rightarrow>
      \<exists>n. r = Returned n \<and> r' = Returned (length ''GET /te'' + n) \<and> q' = q2 \<and>
        (hp_errno q2 = HPE_OK \<longrightarrow> flatten e' = flatten e2) \<and>
        (\<exists>z. flatten e2 = flatten e' @ z \<or> flatten e' = flatten e2 @ z)"
proof -
  let ?run = "http_parser_execute (recorder (\<lambda>_. False)) ''GET /te'' (http_parser_init HTTP_REQUEST) []"
  have "fst ?run = Returned 7" "hp_errno (fst (snd ?run)) = HPE_OK" "\<not> hp_upgrade (fst (snd ?run))"
    by code_simp+
  then show ?thesis
    by (intro execute_split [OF init_rests]) (simp_all add: http_parser_init_def prod_eq_iff)
qed

end
