(* ===== verification/Http_Requests.thy ===== *)
theory Http_Requests
  imports Http_Chunks
begin

section \<open>What the HTTP parser reads\<close>

text \<open>
  Concrete messages.  First the request line: the parser follows it byte by byte
  (\<open>feed_bytes\<close>), through the method's name, the URL, the version and the end of the head, and
  \<open>execute_bytes\<close> carries the result to the single call.  \<open>request_at\<close> and \<open>line_at\<close> are the
  parser inside the line, so that each step is an equation between two of them.  Then the value
  of \<^verbatim>\<open>Content-Length\<close>, and the third byte of a method's name, which is not looked at.
\<close>

subsection \<open>Inside the request line\<close>

definition request_at :: "http_method \<Rightarrow> nat \<Rightarrow> nat \<Rightarrow> pstate \<Rightarrow> http_parser" where
  "request_at m i n s = (http_parser_init HTTP_REQUEST)\<lparr>hp_flags := {}, hp_content_length := ULLONG_MAX,
     hp_method := m, hp_index := i, hp_nread := of_nat n, hp_state := s\<rparr>"

lemma nread_small: "n < 81919 \<Longrightarrow> \<not> HTTP_MAX_HEADER_SIZE < (of_nat n :: 32 word) + 1"
proof -
  assume n: "n < 81919"
  then have "(n + 1) mod 2 ^ LENGTH(32) = n + 1" by simp
  then have "unat (of_nat (n + 1) :: 32 word) = n + 1" by (simp only: unat_of_nat)
  then have "unat ((of_nat n :: 32 word) + 1) = n + 1" by (simp add: add.commute)
  moreover have "unat HTTP_MAX_HEADER_SIZE = 81920" by (simp add: HTTP_MAX_HEADER_SIZE_def)
  ultimately show ?thesis using n unfolding word_less_nat_alt by linarith
qed

definition path_states :: "pstate set" where
  "path_states = {s_req_path, s_req_query_string_start, s_req_query_string}"

lemma blanks_no_url: "IS_URL_CHAR c \<Longrightarrow> c \<notin> {CHR '' '', CR, LF, TAB, FF}"
proof -
  have "\<not> IS_URL_CHAR CHR '' ''" "\<not> IS_URL_CHAR CR" "\<not> IS_URL_CHAR LF" "\<not> IS_URL_CHAR TAB" "\<not> IS_URL_CHAR FF"
    by code_simp+
  then show "IS_URL_CHAR c \<Longrightarrow> ?thesis" by auto
qed

lemma url_byte:
  assumes "s \<in> path_states" and "IS_URL_CHAR c \<or> c = CHR ''?''" and "n < 81919"
  shows "\<exists>s'\<in>path_states. http_parser_execute (recorder hc) [c] (request_at m i n s) log =
    (Returned 1, request_at m i (n + 1) s', log @ [Piece Url [c]])"
proof -
  have ok: "hp_errno (request_at m i n s) = HPE_OK" by (simp add: request_at_def http_parser_init_def)
  define s' where "s' = parse_url_char s c"
  have c: "c \<notin> {CHR '' '', CR, LF, TAB, FF}"
    using assms(2) blanks_no_url [of c] by (auto simp: CR_def LF_def TAB_def FF_def)
  have s': "s' \<in> path_states"
    using assms(2) c assms(1)[unfolded path_states_def]
    by (elim insertE emptyE disjE) (simp_all add: s'_def path_states_def parse_url_char_def)
  then have dead: "s' \<noteq> s_dead" by (auto simp: path_states_def)
  let ?x = "start_locals (request_at m i n s) log"
  have "one_byte (recorder hc) [c] ?x = (None, ?x\<lparr>x_parser := request_at m i (n + 1) s'\<rparr>)"
    using s' dead c nread_small [OF assms(3)] s'_def [symmetric] assms(1)[unfolded path_states_def]
    by (elim insertE emptyE) (simp_all add: path_states_def one_byte_def Let_def start_locals_def request_at_def http_parser_init_def
      reexecutions_Suc switch_def sw_req_server_def url_char_def PARSING_HEADER_def)
  then show ?thesis
    using s' assms(1)
    apply (intro bexI [OF _ s'])
    apply (simp add: execute_one [OF ok])
    apply (auto simp: left_over_marks_def marks_set_def rec_data start_locals_def start_marks_def mark_of_def path_states_def request_at_def http_parser_init_def)
    done
qed

lemma path_starts:
  assumes "m \<noteq> HTTP_CONNECT" and "n < 81919"
  shows "http_parser_execute (recorder hc) ''/'' (request_at m i n s_req_spaces_before_url) log =
    (Returned 1, request_at m i (n + 1) s_req_path, log @ [Piece Url ''/''])"
proof -
  have ok: "hp_errno (request_at m i n s) = HPE_OK" for n s by (simp add: request_at_def http_parser_init_def)
  let ?x = "start_locals (request_at m i n s_req_spaces_before_url) log"
  have none: "start_marks s_req_spaces_before_url = (\<lambda>_. None)" by (simp add: start_marks_def mark_of_def fun_eq_iff)
  have "one_byte (recorder hc) ''/'' ?x = (None, ?x\<lparr>x_parser := request_at m i (n + 1) s_req_path, x_mark := (\<lambda>_. None)(Url := Some 0)\<rparr>)"
    using nread_small [OF assms(2)] assms(1)
    by (simp add: one_byte_def Let_def start_locals_def request_at_def http_parser_init_def reexecutions_Suc
      switch_def sw_req_spaces_before_url_def url_char_def PARSING_HEADER_def parse_url_char_def MARK_def none
      CR_def LF_def TAB_def FF_def)
  then show ?thesis
    by (simp add: execute_one [OF ok] left_over_marks_def marks_set_def rec_data ok
      start_locals_def start_marks_def mark_of_def)
qed

lemma url_bytes:
  assumes "s \<in> path_states" and "\<forall>c\<in>set cs. IS_URL_CHAR c \<or> c = CHR ''?''" and "n + length cs < 81920"
  shows "\<exists>s'\<in>path_states. \<exists>l. feed_bytes hc (cs @ ds) (request_at m i n s) log =
      (case feed_bytes hc ds (request_at m i (n + length cs) s') l of (k, z) \<Rightarrow> (k + length cs, z)) \<and>
    flatten l = flatten log @ map (\<lambda>c. Piece Url [c]) cs"
  using assms
proof (induction cs arbitrary: s n log)
  case (Cons c cs)
  have c: "IS_URL_CHAR c \<or> c = CHR ''?''" "n < 81919" using Cons.prems(2,3) by auto
  obtain s1 where s1: "s1 \<in> path_states" "http_parser_execute (recorder hc) [c] (request_at m i n s) log =
      (Returned 1, request_at m i (n + 1) s1, log @ [Piece Url [c]])"
    using url_byte [OF Cons.prems(1) c] by blast
  obtain s' l where l: "s' \<in> path_states" "feed_bytes hc (cs @ ds) (request_at m i (n + 1) s1) (log @ [Piece Url [c]]) =
      (case feed_bytes hc ds (request_at m i (n + 1 + length cs) s') l of (k, z) \<Rightarrow> (k + length cs, z))"
    "flatten l = flatten (log @ [Piece Url [c]]) @ map (\<lambda>c. Piece Url [c]) cs"
    using Cons.IH [OF s1(1), of "n + 1" "log @ [Piece Url [c]]"] Cons.prems(2,3) by auto
  have "hp_errno (request_at m i k t) = HPE_OK" "\<not> hp_upgrade (request_at m i k t)" for k t
    by (simp_all add: request_at_def http_parser_init_def)
  with s1(2) l show ?case
    by (intro bexI [OF _ l(1)] exI [of _ l]) (simp split: prod.splits)
qed auto

definition line_at :: "http_method \<Rightarrow> nat \<Rightarrow> nat \<Rightarrow> pstate \<Rightarrow> nat \<Rightarrow> nat \<Rightarrow> http_parser" where
  "line_at m i n s a b = (request_at m i n s)\<lparr>hp_http_major := a, hp_http_minor := b\<rparr>"

lemma line_at_simps [simp]:
  "hp_state (line_at m i n s a b) = s" "hp_errno (line_at m i n s a b) = HPE_OK"
  "\<not> hp_upgrade (line_at m i n s a b)" "hp_nread (line_at m i n s a b) = of_nat n"
  "hp_method (line_at m i n s a b) = m" "hp_http_major (line_at m i n s a b) = a" "hp_http_minor (line_at m i n s a b) = b"
  "hp_flags (line_at m i n s a b) = {}" "hp_content_length (line_at m i n s a b) = ULLONG_MAX"
  "hp_type (line_at m i n s a b) = HTTP_REQUEST"
  "(line_at m i n s a b)\<lparr>hp_state := t\<rparr> = line_at m i n t a b"
  "(line_at m i n s a b)\<lparr>hp_http_major := a'\<rparr> = line_at m i n s a' b"
  "(line_at m i n s a b)\<lparr>hp_http_minor := b'\<rparr> = line_at m i n s a b'"
  "(line_at m i n s a b)\<lparr>hp_nread := of_nat n + 1\<rparr> = line_at m i (n + 1) s a b"
  "(line_at m i n s a b)\<lparr>hp_nread := 0\<rparr> = line_at m i 0 s a b"
  "(line_at m i n s a b)\<lparr>hp_upgrade := False\<rparr> = line_at m i n s a b"
  "request_at m i n s = line_at m i n s 0 0"
  by (simp_all add: line_at_def request_at_def http_parser_init_def add.commute)

lemma header_byte:
  assumes "n < 81919" and "PARSING_HEADER s" and "start_marks s = (\<lambda>_. None)"
    and "switch 1 c (line_at m i (n + 1) s a b) = (q, [], Break)" and "hp_errno q = HPE_OK"
  shows "http_parser_execute (recorder hc) [c] (line_at m i n s a b) log = (Returned 1, q, log)"
  using nread_small [OF assms(1)] nread_small [OF assms(1), unfolded add.commute [of _ 1]] assms(2-)
  by (simp add: execute_one one_byte_def Let_def start_locals_def reexecutions_Suc left_over_marks_def marks_set_def
     rec_data del: line_at_simps(17))

lemma no_mark: "mark_of s = None \<Longrightarrow> start_marks s = (\<lambda>_. None)"
  by (simp add: start_marks_def fun_eq_iff)

lemma not_zero: "IS_NUM c \<Longrightarrow> c \<noteq> CHR ''0'' \<Longrightarrow> 49 \<le> ord c \<and> ord c \<le> 57"
proof -
  assume c: "IS_NUM c" "c \<noteq> CHR ''0''"
  have "ord CHR ''0'' = 48" by (simp add: ord_def)
  then have "ord c \<noteq> 48" using c(2) by (metis ord_def of_char_eq_iff)
  with c(1) show ?thesis by (simp add: IS_NUM_def)
qed

lemma line_bytes:
  assumes "n < 81919"
  shows
    "http_parser_execute (recorder hc) ''H'' (line_at m i n s_req_http_start a b) log = (Returned 1, line_at m i (n + 1) s_req_http_H a b, log)"
    "http_parser_execute (recorder hc) ''T'' (line_at m i n s_req_http_H a b) log = (Returned 1, line_at m i (n + 1) s_req_http_HT a b, log)"
    "http_parser_execute (recorder hc) ''T'' (line_at m i n s_req_http_HT a b) log = (Returned 1, line_at m i (n + 1) s_req_http_HTT a b, log)"
    "http_parser_execute (recorder hc) ''P'' (line_at m i n s_req_http_HTT a b) log = (Returned 1, line_at m i (n + 1) s_req_http_HTTP a b, log)"
    "http_parser_execute (recorder hc) ''/'' (line_at m i n s_req_http_HTTP a b) log = (Returned 1, line_at m i (n + 1) s_req_first_http_major a b, log)"
    "http_parser_execute (recorder hc) ''.'' (line_at m i n s_req_http_major a b) log = (Returned 1, line_at m i (n + 1) s_req_first_http_minor a b, log)"
    "IS_NUM c \<Longrightarrow> http_parser_execute (recorder hc) [c] (line_at m i n s_req_first_http_minor a b) log = (Returned 1, line_at m i (n + 1) s_req_http_minor a (digit c), log)"
    "http_parser_execute (recorder hc) [CR] (line_at m i n s_req_http_minor a b) log = (Returned 1, line_at m i (n + 1) s_req_line_almost_done a b, log)"
    "http_parser_execute (recorder hc) [LF] (line_at m i n s_req_line_almost_done a b) log = (Returned 1, line_at m i (n + 1) s_header_field_start a b, log)"
    "http_parser_execute (recorder hc) [CR] (line_at m i n s_header_field_start a b) log = (Returned 1, line_at m i (n + 1) s_headers_almost_done a b, log)"
  by (rule header_byte [OF assms]; simp add: no_mark mark_of_def PARSING_HEADER_def switch_def sw_req_http_start_def
      http_major_def first_http_minor_def sw_req_http_minor_def sw_req_line_almost_done_def
      sw_header_field_start_def; fail)+

lemma major_byte:
  assumes "n < 81919" and "IS_NUM c" and "c \<noteq> CHR ''0''"
  shows "http_parser_execute (recorder hc) [c] (line_at m i n s_req_first_http_major a b) log =
    (Returned 1, line_at m i (n + 1) s_req_http_major (digit c) b, log)"
proof (rule header_byte [OF assms(1)])
  from not_zero [OF assms(2,3)] show "switch 1 c (line_at m i (n + 1) s_req_first_http_major a b) =
      (line_at m i (n + 1) s_req_http_major (digit c) b, [], Break)"
    by (auto simp: switch_def sw_req_first_http_major_def)
qed (simp_all add: no_mark mark_of_def PARSING_HEADER_def)

lemma path_ends:
  assumes "s \<in> path_states" and "n < 81919"
  shows "http_parser_execute (recorder hc) '' '' (line_at m i n s 0 0) log =
      (Returned 1, line_at m i (n + 1) s_req_http_start 0 0, log @ [Piece Url []])"
  using nread_small [OF assms(2)] nread_small [OF assms(2), unfolded add.commute [of _ 1]] assms(1)[unfolded path_states_def]
  by (elim insertE emptyE) (simp_all add: execute_one one_byte_def Let_def start_locals_def reexecutions_Suc left_over_marks_def marks_set_def
     rec_data switch_def sw_req_server_def PARSING_HEADER_def start_marks_def mark_of_def del: line_at_simps(17))

lemma head_ends:
  assumes "n < 81919" and "m \<noteq> HTTP_CONNECT"
  shows "http_parser_execute (recorder (\<lambda>_. False)) [LF] (line_at m i n s_headers_almost_done a b) log =
      (Returned 1, line_at m i 0 (if 0 < a \<and> 0 < b then s_start_req else s_dead) a b,
       log @ [Headers (line_at m i (n + 1) s_headers_done a b), Noted Message_Complete])"
proof -
  let ?x = "start_locals (line_at m i n s_headers_almost_done a b) log"
  let ?y = "?x\<lparr>x_parser := line_at m i 0 (if 0 < a \<and> 0 < b then s_start_req else s_dead) a b,
    x_env := log @ [Headers (line_at m i (n + 1) s_headers_done a b), Noted Message_Complete]\<rparr>"
  have none: "x_mark ?x = (\<lambda>_. None)" by (simp add: start_locals_def no_mark mark_of_def)
  have "one_byte (recorder (\<lambda>_. False)) [LF] ?x = (None, ?y)"
    using nread_small [OF assms(1)] nread_small [OF assms(1), unfolded add.commute [of _ 1]] assms(2)
    by (simp add: one_byte_def Let_def start_locals_def reexecutions_Suc
      rec_headers rec_notify skip_body_def switch_def sw_headers_almost_done_def sw_headers_done_def PARSING_HEADER_def
      new_message_def NEW_MESSAGE_def http_should_keep_alive_def http_message_needs_eof_def start_state_def del: line_at_simps(17))
  moreover have "left_over_marks (recorder (\<lambda>_. False)) [LF] (?y\<lparr>x_p := x_p ?y + 1\<rparr>) = (Returned 1, ?y\<lparr>x_p := x_p ?y + 1\<rparr>)"
    using none by (subst left_over_nothing) (simp_all add: start_locals_def)
  ultimately show ?thesis by (simp add: execute_one)
qed

lemma feed_Cons:
  "http_parser_execute (recorder hc) [c] p log = (Returned 1, q, l) \<Longrightarrow> hp_errno q = HPE_OK \<Longrightarrow> \<not> hp_upgrade q \<Longrightarrow>
   feed_bytes hc (c # cs) p log = (case feed_bytes hc cs q l of (n, z) \<Rightarrow> (n + 1, z))"
  by simp

lemma method_bytes:
  "feed_bytes hc (http_method_str m @ '' '') (http_parser_init HTTP_REQUEST) [] =
     (length (http_method_str m) + 1, request_at m (length (http_method_str m) + 1) (length (http_method_str m) + 1) s_req_spaces_before_url,
      [Noted Message_Begin])"
  by (cases m; hypsubst; code_simp)

lemma method_length: "length (http_method_str m) \<le> 11"
  by (cases m) (simp_all add: http_method_str_def)

definition request_line :: "http_method \<Rightarrow> string \<Rightarrow> char \<Rightarrow> char \<Rightarrow> string" where
  "request_line m url a b = http_method_str m @ '' '' @ url @ '' HTTP/'' @ [a] @ ''.'' @ [b, CR, LF, CR, LF]"

lemma line_end:
  assumes "s \<in> path_states" and "n < 81000" and "m \<noteq> HTTP_CONNECT" and "IS_NUM a" and "a \<noteq> CHR ''0''" and "IS_NUM b"
  shows "\<exists>h. feed_bytes (\<lambda>_. False) ('' HTTP/'' @ [a] @ ''.'' @ [b, CR, LF, CR, LF]) (line_at m i n s 0 0) log =
      (13, line_at m i 0 (if 0 < digit a \<and> 0 < digit b then s_start_req else s_dead) (digit a) (digit b),
       log @ [Piece Url [], Headers h, Noted Message_Complete]) \<and>
    hp_method h = m \<and> hp_http_major h = digit a \<and> hp_http_minor h = digit b"
proof -
  have e: "feed_bytes (\<lambda>_. False) [] q l = (0, q, l)" for q l by simp
  have n: "n + k < 81919" if "k \<le> 100" for k using assms(2) that by simp
  show ?thesis
    using assms n
    by (simp add: feed_Cons [OF path_ends] feed_Cons [OF major_byte] feed_Cons [OF line_bytes(1)] feed_Cons [OF line_bytes(2)]
      feed_Cons [OF line_bytes(3)] feed_Cons [OF line_bytes(4)] feed_Cons [OF line_bytes(5)] feed_Cons [OF line_bytes(6)]
      feed_Cons [OF line_bytes(7)] feed_Cons [OF line_bytes(8)] feed_Cons [OF line_bytes(9)] feed_Cons [OF line_bytes(10)]
      feed_Cons [OF head_ends] e del: feed_bytes.simps)
qed

text \<open>
  C7: A request line is read as it was written: for every method but CONNECT, every path of
  URL characters and question marks that fits into the limit for the head, and every version
  with one digit on each side, a single call takes the whole text and reports the start of the
  message, exactly the characters of the URL, the method and the version at the end of the
  head, and the end of the message.  The parser then waits for the next request, or for nothing
  when the minor version is 0.
\<close>
theorem request_line_parses:
  assumes "m \<noteq> HTTP_CONNECT" and "\<forall>c\<in>set cs. IS_URL_CHAR c \<or> c = CHR ''?''" and "length cs \<le> 80000"
    and "IS_NUM a" and "a \<noteq> CHR ''0''" and "IS_NUM b"
  shows "\<exists>q l h. http_parser_execute (recorder (\<lambda>_. False)) (request_line m (CHR ''/'' # cs) a b) (http_parser_init HTTP_REQUEST) [] =
      (Returned (length (request_line m (CHR ''/'' # cs) a b)), q, l) \<and>
    flatten l = [Noted Message_Begin] @ map (\<lambda>c. Piece Url [c]) (CHR ''/'' # cs) @ [Headers h, Noted Message_Complete] \<and>
    hp_method h = m \<and> hp_http_major h = digit a \<and> hp_http_minor h = digit b \<and>
    hp_errno q = HPE_OK \<and> hp_state q = (if 0 < digit b then s_start_req else s_dead)"
proof -
  let ?init = "http_parser_init HTTP_REQUEST" and ?hc = "\<lambda>_ :: http_parser. False" and ?k = "length (http_method_str m)"
  let ?tail = "'' HTTP/'' @ [a] @ ''.'' @ [b, CR, LF, CR, LF]"
  let ?text = "request_line m (CHR ''/'' # cs) a b"
  have k: "?k \<le> 11" by (rule method_length)
  have dig: "0 < digit a" using not_zero [OF assms(4,5)] by (simp add: digit_def)
  have eq: "?text = (http_method_str m @ '' '') @ CHR ''/'' # cs @ ?tail" by (simp add: request_line_def)
  have len: "length ?text < 2 ^ 64" "?text \<noteq> []" "length ?text = ?k + 1 + (1 + length cs + 13)"
    using k assms(3) by (simp_all add: request_line_def)
  obtain s l1 where l1: "s \<in> path_states" "feed_bytes ?hc (cs @ ?tail) (request_at m (?k + 1) (?k + 1 + 1) s_req_path) ([Noted Message_Begin] @ [Piece Url ''/'']) =
      (case feed_bytes ?hc ?tail (request_at m (?k + 1) (?k + 1 + 1 + length cs) s) l1 of (j, z) \<Rightarrow> (j + length cs, z))"
    "flatten l1 = flatten ([Noted Message_Begin] @ [Piece Url ''/'']) @ map (\<lambda>c. Piece Url [c]) cs"
    using url_bytes [of s_req_path cs "?k + 1 + 1" ?hc ?tail m "?k + 1" "[Noted Message_Begin] @ [Piece Url ''/'']"] assms(2,3) k
    by (auto simp: path_states_def)
  define q where "q = line_at m (?k + 1) 0 (if 0 < digit b then s_start_req else s_dead) (digit a) (digit b)"
  obtain h where h: "feed_bytes ?hc ?tail (line_at m (?k + 1) (?k + 1 + 1 + length cs) s 0 0) l1 =
      (13, q, l1 @ [Piece Url [], Headers h, Noted Message_Complete])"
    "hp_method h = m" "hp_http_major h = digit a" "hp_http_minor h = digit b"
    using line_end [OF l1(1) _ assms(1,4-6), of "?k + 1 + 1 + length cs" "?k + 1" l1] k assms(3) dig
    by (auto simp: q_def)
  have slash: "feed_bytes ?hc (CHR ''/'' # ds) (request_at m (?k + 1) (?k + 1) s_req_spaces_before_url) [Noted Message_Begin] =
      (case feed_bytes ?hc ds (request_at m (?k + 1) (?k + 1 + 1) s_req_path) ([Noted Message_Begin] @ [Piece Url ''/'']) of (j, z) \<Rightarrow> (j + 1, z))" for ds
    by (rule feed_Cons, rule path_starts [OF assms(1)]) (use k in simp_all)
  have "feed_bytes ?hc ?text ?init [] = (length ?text, q, l1 @ [Piece Url [], Headers h, Noted Message_Complete])"
    unfolding eq
    using feed_append [OF init_rests, of ?hc "http_method_str m @ '' ''" HTTP_REQUEST "[]" _ _ "CHR ''/'' # cs @ ?tail"]
      method_bytes [of ?hc m] h(1) l1(2) slash by (simp del: feed_bytes.simps)
  moreover have "parser_wf 0 ?init" "\<not> hp_upgrade ?init" by (simp_all add: wf_init) (simp add: http_parser_init_def)
  ultimately obtain l where l: "http_parser_execute (recorder ?hc) ?text ?init [] = (Returned (length ?text), q, l)"
      "flatten l = flatten l1 @ [Headers h, Noted Message_Complete]"
    using execute_bytes [of ?init ?text "[]" "[]" ?hc] len(1,2) by (auto simp: q_def split: prod.splits)
  have "flatten l = [Noted Message_Begin] @ map (\<lambda>c. Piece Url [c]) (CHR ''/'' # cs) @ [Headers h, Noted Message_Complete]"
    using l(2) l1(3) by simp
  moreover have "hp_errno q = HPE_OK" "hp_state q = (if 0 < digit b then s_start_req else s_dead)"
    by (simp_all add: q_def)
  ultimately show ?thesis using l(1) h(2-) by blast
qed

subsection \<open>Numbers and names\<close>

text \<open>The cases of the switch on one byte after the other, as long as none fails.\<close>

fun run_cases :: "string \<Rightarrow> http_parser \<Rightarrow> http_parser option" where
  "run_cases [] p = Some p"
| "run_cases (ch # cs) p = (case switch 1 ch p of
     (q, es, e) \<Rightarrow> if e = Break then run_cases cs q else None)"

lemma foldl_grows: "n \<le> foldl (\<lambda>n c. n * 10 + digit c) n ds"
proof (induction ds arbitrary: n)
  case (Cons c ds)
  have "n \<le> n * 10 + digit c" by simp
  also note Cons.IH
  finally show ?case by simp
qed simp

lemma num_plain: "IS_NUM c \<Longrightarrow> c \<notin> {CHR '' '', TAB, CR, LF}"
  by (auto simp: IS_NUM_def TAB_def CR_def LF_def ord_def)

lemma more_length_exact:
  assumes "n * 10 + d < 2 ^ 64 - 1" 
  shows "more_length 10 (of_nat n) (of_nat d) = Some (of_nat (n * 10 + d))"
proof -
  have u: "unat (of_nat n :: 64 word) = n" "unat (of_nat (n * 10 + d) :: 64 word) = n * 10 + d"
    using assms by (simp_all only: unat_of_nat) simp_all
  have t: "(of_nat n :: 64 word) * 10 + of_nat d = of_nat (n * 10 + d)" by simp
  have "unat (ULLONG_MAX) = 2 ^ 64 - 1" by (simp add: ULLONG_MAX_def unsigned_minus_1_eq_mask mask_eq_exp_minus_1)
  then have "(of_nat (n * 10 + d) :: 64 word) \<noteq> ULLONG_MAX" using u(2) assms by (metis less_irrefl)
  moreover have "\<not> (of_nat (n * 10 + d) :: 64 word) < of_nat n"
    unfolding word_less_nat_alt u by simp
  ultimately show ?thesis by (simp add: more_length_def Let_def t del: of_nat_add of_nat_mult)
qed

lemma length_digits:
  assumes "\<forall>c\<in>set ds. IS_NUM c" and "foldl (\<lambda>n c. n * 10 + digit c) n ds < 2 ^ 64 - 1"
    and "hp_state p = s_header_value" and "hp_header_state p = h_content_length" and "hp_content_length p = of_nat n"
  shows "run_cases ds p = Some (p\<lparr>hp_content_length := of_nat (foldl (\<lambda>n c. n * 10 + digit c) n ds)\<rparr>)"
  using assms
proof (induction ds arbitrary: n p)
  case (Cons c ds)
  let ?n = "n * 10 + digit c"
  have lt: "?n < 2 ^ 64 - 1" using foldl_grows [of ?n ds] Cons.prems(2) by (auto intro: le_less_trans)
  have c: "IS_NUM c" "c \<notin> {CHR '' '', TAB, CR, LF}" using Cons.prems(1) num_plain [of c] by auto
  have "switch 1 c p = brk (p\<lparr>hp_content_length := of_nat ?n\<rparr>)"
    using Cons.prems(3-5) c more_length_exact [OF lt]
    by (simp add: switch_def sw_header_value_def value_token_def)
  with Cons.IH [of ?n "p\<lparr>hp_content_length := of_nat ?n\<rparr>"] Cons.prems show ?case by simp
qed simp

theorem request_line_parses_witness:
  "\<exists>q l h. http_parser_execute (recorder (\<lambda>_. False)) (request_line HTTP_UNSUBSCRIBE ''/a?b?c'' CHR ''1'' CHR ''1'')
      (http_parser_init HTTP_REQUEST) [] =
      (Returned (length (request_line HTTP_UNSUBSCRIBE ''/a?b?c'' CHR ''1'' CHR ''1'')), q, l) \<and>
    flatten l = [Noted Message_Begin] @ map (\<lambda>c. Piece Url [c]) ''/a?b?c'' @ [Headers h, Noted Message_Complete] \<and>
    hp_method h = HTTP_UNSUBSCRIBE \<and> hp_http_major h = digit CHR ''1'' \<and> hp_http_minor h = digit CHR ''1'' \<and>
    hp_errno q = HPE_OK \<and> hp_state q = (if 0 < digit CHR ''1'' then s_start_req else s_dead)"
proof -
  have "\<forall>c\<in>set ''a?b?c''. IS_URL_CHAR c \<or> c = CHR ''?''" "IS_NUM CHR ''1''" by code_simp+
  then show ?thesis by (intro request_line_parses) simp_all
qed

text \<open>
  C12: A \<^verbatim>\<open>Content-Length\<close> of decimal digits is read as the number it spells, whenever that is
  less than the largest unsigned 64 bit number.
\<close>
theorem content_length_read:
  assumes "hp_state p = s_header_value_start" and "hp_header_state p = h_content_length"
    and "ds \<noteq> []" and "\<forall>c\<in>set ds. IS_NUM c" and "decimal ds < 2 ^ 64 - 1"
  shows "run_cases ds p = Some (p\<lparr>hp_state := s_header_value, hp_index := 0, hp_content_length := of_nat (decimal ds)\<rparr>)"
proof -
  obtain c cs where ds: "ds = c # cs" using assms(3) by (cases ds) auto
  have c: "IS_NUM c" "c \<notin> {CHR '' '', TAB, CR, LF}" using assms(4) ds num_plain [of c] by auto
  let ?q = "p\<lparr>hp_state := s_header_value, hp_index := 0, hp_content_length := of_nat (digit c)\<rparr>"
  have "switch 1 c p = (?q, [Mark Header_Value], Break)"
    using assms(1,2) c by (simp add: switch_def sw_header_value_start_def Let_def)
  with length_digits [of cs "digit c" ?q] assms(2,4,5) ds show ?thesis by (simp add: decimal_def)
qed

theorem content_length_read_witness:
  "run_cases ''18446744073709551614'' ((http_parser_init HTTP_BOTH)\<lparr>hp_state := s_header_value_start, hp_header_state := h_content_length\<rparr>) =
     Some ((http_parser_init HTTP_BOTH)\<lparr>hp_state := s_header_value_start, hp_header_state := h_content_length,
       hp_state := s_header_value, hp_index := 0, hp_content_length := of_nat (decimal ''18446744073709551614'')\<rparr>)"
proof -
  have "\<forall>c\<in>set ''18446744073709551614''. IS_NUM c" by code_simp
  moreover have "decimal ''18446744073709551614'' < 2 ^ 64 - 1" by (simp add: decimal_def digit_def ord_def)
  ultimately show ?thesis by (intro content_length_read) simp_all
qed

text \<open>
  The overflow check of \<^verbatim>\<open>Content-Length\<close> is not enough: a request that announces
  23058430092136939520 bytes, five times two to the 62, is accepted with a body of two to the 62
  bytes.
\<close>
theorem content_length_overflow:
  "decimal ''23058430092136939520'' = 5 * 2 ^ 62 \<and>
   (case http_parser_execute (recorder (\<lambda>_. False))
      (''POST / HTTP/1.1'' @ [CR, LF] @ ''Content-Length: 23058430092136939520'' @ [CR, LF, CR, LF])
      (http_parser_init HTTP_REQUEST) [] of (r, q, l) \<Rightarrow>
    hp_errno q = HPE_OK \<and> hp_state q = s_body_identity \<and> hp_content_length q = 4611686018427387904)"
proof
  show "decimal ''23058430092136939520'' = 5 * 2 ^ 62"
    by (simp add: decimal_def digit_def ord_def)
qed code_simp

lemma method_names: "3 \<le> length (method_string m)" "NUL \<notin> set (method_string m)"
  by (cases m; simp add: NUL_def)+

text \<open>
  The third byte of a method is not checked: for every method that begins with another
  letter than C, M and S the parser goes on after any third byte, and except for PUT and UNLOCK
  with the same method.
\<close>
theorem third_method_byte:
  assumes "hp_state p = s_req_method" and "hp_index p = 2" and "ch \<noteq> NUL"
    and "hp_method p \<notin> {HTTP_CONNECT, HTTP_MKCOL, HTTP_SUBSCRIBE}"
  shows "\<exists>m. switch r ch p = (p\<lparr>hp_method := m, hp_index := 3\<rparr>, [], Break) \<and>
    (hp_method p \<notin> {HTTP_PUT, HTTP_UNLOCK} \<longrightarrow> m = hp_method p)"
proof -
  have "2 < length (method_string (hp_method p))" using method_names(1) [of "hp_method p"] by simp
  then have m: "2 < length (method_string (hp_method p))" "(method_string (hp_method p) @ [NUL]) ! 2 \<noteq> NUL"
    using method_names(2) [of "hp_method p"] by (auto simp: nth_append dest: nth_mem)
  obtain n where n: "next_method ch (hp_method p) 2 = Inr n" "hp_method p \<notin> {HTTP_PUT, HTTP_UNLOCK} \<longrightarrow> n = hp_method p"
    using assms(4) by (cases "hp_method p") (simp_all add: next_method_def)
  have i: "uchar 3 = 3" by (simp add: uchar_def)
  have "switch r ch p = sw_req_method ch p" by (simp add: switch_def assms(1))
  also have "\<dots> = (p\<lparr>hp_method := (if ch = (method_string (hp_method p) @ [NUL]) ! 2 then hp_method p else n), hp_index := 3\<rparr>, [], Break)"
    using m assms(2,3) by (simp add: sw_req_method_def Let_def n(1) i)
  finally show ?thesis using n(2) by (intro exI [of _ "if _ then _ else _"] conjI) auto
qed

theorem third_method_byte_witness:
  "\<exists>m. switch 1 CHR ''X'' ((http_parser_init HTTP_REQUEST)\<lparr>hp_state := s_req_method, hp_index := 2, hp_method := HTTP_GET\<rparr>) =
      ((http_parser_init HTTP_REQUEST)\<lparr>hp_state := s_req_method, hp_index := 2, hp_method := HTTP_GET,
         hp_method := m, hp_index := 3\<rparr>, [], Break) \<and>
    (hp_method ((http_parser_init HTTP_REQUEST)\<lparr>hp_state := s_req_method, hp_index := 2, hp_method := HTTP_GET\<rparr>) \<notin>
       {HTTP_PUT, HTTP_UNLOCK} \<longrightarrow>
     m = hp_method ((http_parser_init HTTP_REQUEST)\<lparr>hp_state := s_req_method, hp_index := 2, hp_method := HTTP_GET\<rparr>))"
  by (rule third_method_byte) (simp_all add: NUL_def)

text \<open>The verb GEX is a GET.\<close>

theorem gex_is_get:
  "case http_parser_execute (recorder (\<lambda>_. False)) (''GEX / HTTP/1.1'' @ [CR, LF, CR, LF]) (http_parser_init HTTP_REQUEST) [] of
     (r, q, l) \<Rightarrow> r = Returned 18 \<and> hp_errno q = HPE_OK \<and> hp_method q = HTTP_GET"
  by code_simp

end
