(* ===== verification/Http_Callbacks.thy ===== *)
theory Http_Callbacks
  imports Http_Chunks
begin

section \<open>Two clients of the HTTP parser\<close>

text \<open>
  The parser run for two clients whose environments are related: if each callback of the one
  answers what the same callback of the other answers, and leaves related environments, then
  so does the whole call.  The locale \<open>client_simulation\<close> follows the layers of the model: a
  callback, a macro, the label \<^verbatim>\<open>reexecute_byte\<close>, a byte, the loop.
\<close>

text \<open>What a callback that is not set answers.\<close>

definition answer :: "'e http_cb option \<Rightarrow> 'e http_cb" where
  "answer cb = (case cb of None \<Rightarrow> (\<lambda>p e. (0, p, e)) | Some f \<Rightarrow> f)"

definition answer_data :: "'e http_data_cb option \<Rightarrow> 'e http_data_cb" where
  "answer_data cb = (case cb of None \<Rightarrow> (\<lambda>p d e. (0, p, e)) | Some f \<Rightarrow> f)"

definition same_answer :: "('e \<Rightarrow> 'f \<Rightarrow> bool) \<Rightarrow> int \<times> http_parser \<times> 'e \<Rightarrow> int \<times> http_parser \<times> 'f \<Rightarrow> bool" where
  "same_answer R a b \<longleftrightarrow> fst a = fst b \<and> fst (snd a) = fst (snd b) \<and> R (snd (snd a)) (snd (snd b))"

definition related :: "('e \<Rightarrow> 'f \<Rightarrow> bool) \<Rightarrow> 'e locals \<Rightarrow> 'f locals \<Rightarrow> bool" where
  "related R x y \<longleftrightarrow> x_parser x = x_parser y \<and> x_p x = x_p y \<and> x_mark x = x_mark y \<and> R (x_env x) (x_env y)"

definition related_run :: "('e \<Rightarrow> 'f \<Rightarrow> bool) \<Rightarrow> 'r \<times> 'e locals \<Rightarrow> 'r \<times> 'f locals \<Rightarrow> bool" where
  "related_run R a b \<longleftrightarrow> fst a = fst b \<and> related R (snd a) (snd b)"

lemma related_fields:
  assumes "related R x y"
  shows "x_parser x = x_parser y" "x_p x = x_p y" "x_mark x = x_mark y" "R (x_env x) (x_env y)"
  using assms by (simp_all add: related_def)

lemma related_updates:
  assumes "related R x y"
  shows "related R (x\<lparr>x_parser := q\<rparr>) (y\<lparr>x_parser := q\<rparr>)" "related R (x\<lparr>x_p := k\<rparr>) (y\<lparr>x_p := k\<rparr>)"
    "related R (clear_mark m x) (clear_mark m y)" "related R (MARK m x) (MARK m y)"
  using assms by (simp_all add: related_def clear_mark_def MARK_def)

lemma related_after:
  "related R x y \<Longrightarrow> same_answer R a b \<Longrightarrow> related_run R (after_callback err er a x) (after_callback err er b y)"
  by (cases a; cases b) (auto simp: same_answer_def related_def related_run_def after_callback_def Let_def)

lemma cb_errno_same: "snd (notify_cb se n) = snd (notify_cb sf n)" "snd (data_cb se m) = snd (data_cb sf m)"
  by (cases n; simp) (cases m; simp)

lemma notify_answer:
  "CALLBACK_NOTIFY se n er x = (if hp_errno (x_parser x) \<noteq> HPE_OK then (Some Assertion_Failed, x)
    else after_callback (snd (notify_cb se n)) er (answer (fst (notify_cb se n)) (x_parser x) (x_env x)) x)"
  by (cases "notify_cb se n") (auto simp: CALLBACK_NOTIFY_def answer_def after_callback_def split: option.splits)

lemma data_answer:
  "CALLBACK_DATA se data m stop_at er x = (if hp_errno (x_parser x) \<noteq> HPE_OK then (Some Assertion_Failed, x)
    else case x_mark x m of None \<Rightarrow> (None, x)
    | Some k \<Rightarrow> (case after_callback (snd (data_cb se m)) er
          (answer_data (fst (data_cb se m)) (x_parser x) (take (stop_at - k) (drop k data)) (x_env x)) x of
        (None, y) \<Rightarrow> (None, clear_mark m y)
      | stopped \<Rightarrow> stopped))"
  by (cases "data_cb se m")
    (auto simp: CALLBACK_DATA_def answer_data_def after_callback_def split: option.splits prod.splits)

lemma headers_answer:
  "headers_complete se x = (case answer (on_headers_complete se) (x_parser x) (x_env x) of (r, q, e) \<Rightarrow>
     if r \<noteq> 0 \<and> r \<noteq> 1 then
       (Some (Returned (x_p x)), x\<lparr>x_parser := q\<lparr>hp_errno := HPE_CB_headers_complete\<rparr>, x_env := e\<rparr>)
     else let q' = (if r = 1 then q\<lparr>hp_flags := insert F_SKIPBODY (hp_flags q)\<rparr> else q);
              y = x\<lparr>x_parser := q', x_env := e\<rparr>
       in if hp_errno q' \<noteq> HPE_OK then (Some (Returned (x_p x)), y) else (None, y))"
  by (auto simp: headers_complete_def answer_def Let_def split: option.splits)

definition same_run_result :: "('e \<Rightarrow> 'f \<Rightarrow> bool) \<Rightarrow> stop \<times> http_parser \<times> 'e \<Rightarrow> stop \<times> http_parser \<times> 'f \<Rightarrow> bool" where
  "same_run_result R a b \<longleftrightarrow> fst a = fst b \<and> fst (snd a) = fst (snd b) \<and> R (snd (snd a)) (snd (snd b))"

locale client_simulation =
  fixes R :: "'e \<Rightarrow> 'f \<Rightarrow> bool" and se :: "'e http_parser_settings" and sf :: "'f http_parser_settings"
  assumes notifies: "R e f \<Longrightarrow> same_answer R (answer (fst (notify_cb se n)) p e) (answer (fst (notify_cb sf n)) p f)"
    and delivers: "R e f \<Longrightarrow> same_answer R (answer_data (fst (data_cb se m)) p d e) (answer_data (fst (data_cb sf m)) p d f)"
    and completes: "R e f \<Longrightarrow> same_answer R (answer (on_headers_complete se) p e) (answer (on_headers_complete sf) p f)"
begin

lemma notify: "related R x y \<Longrightarrow> related_run R (CALLBACK_NOTIFY se n er x) (CALLBACK_NOTIFY sf n er y)"
proof -
  assume xy: "related R x y"
  from related_after [OF xy notifies [OF related_fields(4) [OF xy]]] show ?thesis
    unfolding notify_answer related_fields [OF xy] cb_errno_same(1) [of sf n se]
    by (simp add: related_run_def xy)
qed

lemma deliver:
  assumes xy: "related R x y"
  shows "related_run R (CALLBACK_DATA se data m stop_at er x) (CALLBACK_DATA sf data m stop_at er y)"
proof (cases "x_mark y m")
  case None
  then show ?thesis unfolding data_answer using xy by (simp add: related_run_def related_fields [OF xy])
next
  case (Some k)
  let ?d = "take (stop_at - k) (drop k data)"
  let ?a = "after_callback (snd (data_cb se m)) er (answer_data (fst (data_cb se m)) (x_parser y) ?d (x_env x)) x"
  let ?b = "after_callback (snd (data_cb se m)) er (answer_data (fst (data_cb sf m)) (x_parser y) ?d (x_env y)) y"
  have "related_run R ?a ?b" by (rule related_after [OF xy delivers [OF related_fields(4) [OF xy]]])
  then show ?thesis
    unfolding data_answer related_fields(1,3) [OF xy] Some cb_errno_same(2) [of sf m se]
    by (cases ?a; cases ?b; cases "fst ?a") (auto simp: related_run_def xy related_updates)
qed

lemma complete: "related R x y \<Longrightarrow> related_run R (headers_complete se x) (headers_complete sf y)"
proof -
  assume xy: "related R x y"
  obtain r q e where a: "answer (on_headers_complete se) (x_parser y) (x_env x) = (r, q, e)" by (rule prod_cases3)
  obtain r' q' f where b: "answer (on_headers_complete sf) (x_parser y) (x_env y) = (r', q', f)" by (rule prod_cases3)
  have eq: "r = r'" "q = q'" "R e f"
    using completes [OF related_fields(4) [OF xy], of "x_parser y"] by (simp_all add: same_answer_def a b)
  show ?thesis
    unfolding headers_answer related_fields(1,2) [OF xy] a b
    using eq xy by (simp add: related_run_def related_def Let_def)
qed

lemma effect: "related R x y \<Longrightarrow> related_run R (run_effect se data ef x) (run_effect sf data ef y)"
proof -
  assume xy: "related R x y"
  note fields = related_fields(2) [OF xy]
  show ?thesis
    by (cases ef) (simp_all add: fields notify [OF xy] deliver [OF xy] complete [OF xy]
      related_updates [OF xy] related_run_def [of R "(None, _)"])
qed

lemma effects: "related R x y \<Longrightarrow> related_run R (run_effects se data es x) (run_effects sf data es y)"
proof (induction es arbitrary: x y)
  case (Cons ef es)
  obtain r x1 where x1: "run_effect se data ef x = (r, x1)" by (rule prod.exhaust)
  obtain r' y1 where y1: "run_effect sf data ef y = (r', y1)" by (rule prod.exhaust)
  have r: "r' = r" and xy: "related R x1 y1" using effect [OF Cons.prems, of data ef] x1 y1 by (simp_all add: related_run_def)
  show ?case
  proof (cases r)
    case None
    with Cons.IH [OF xy] x1 y1 r show ?thesis by simp
  qed (use xy x1 y1 r in \<open>simp add: related_run_def\<close>)
qed (simp add: related_run_def)

lemma stops: "related R x y \<Longrightarrow> related_run R (error_exit x) (error_exit y)"
  using related_fields [of R x y] by (simp add: error_exit_def related_run_def related_updates)

lemma reexecute: "related R x y \<Longrightarrow> related_run R (reexecute_byte k se data ch x) (reexecute_byte k sf data ch y)"
proof (induction k arbitrary: x y)
  case (Suc k)
  obtain q es en where sw: "switch (length data - x_p y) ch (x_parser y) = (q, es, en)" by (rule prod_cases3)
  obtain r x1 where x1: "run_effects se data es (x\<lparr>x_parser := q\<rparr>) = (r, x1)" by (rule prod.exhaust)
  obtain r' y1 where y1: "run_effects sf data es (y\<lparr>x_parser := q\<rparr>) = (r', y1)" by (rule prod.exhaust)
  have r: "r' = r" and xy: "related R x1 y1"
    using effects [OF related_updates(1) [OF Suc.prems], of data es q] x1 y1 by (simp_all add: related_run_def)
  note fields = related_fields(1,2) [OF Suc.prems]
  show ?case
  proof (cases r)
    case None
    with Suc.IH [OF xy] stops [OF xy] xy related_fields(2) [OF xy] show ?thesis
      by (cases en) (simp_all add: sw x1 y1 r fields related_run_def [of R "(_, x1)"])
  qed (use xy in \<open>simp add: sw x1 y1 r fields related_run_def\<close>)
qed (simp add: related_run_def)

lemma byte:
  assumes xy: "related R x y"
  shows "related_run R (one_byte se data x) (one_byte sf data y)"
  using stops [OF related_updates(1) [OF xy]] reexecute [OF related_updates(1) [OF xy]] reexecute [OF xy]
    related_fields(1,2) [OF xy]
  by (simp add: one_byte_def Let_def)

lemma left_over:
  assumes xy: "related R x y"
  shows "related_run R (left_over_marks se data x) (left_over_marks sf data y)"
proof -
  let ?es = "[Data_Noadvance Header_Field, Data_Noadvance Header_Value, Data_Noadvance Url, Data_Noadvance Body]"
  obtain r x1 where x1: "run_effects se data ?es x = (r, x1)" by (rule prod.exhaust)
  obtain r' y1 where y1: "run_effects sf data ?es y = (r', y1)" by (rule prod.exhaust)
  have "r' = r" "related R x1 y1" using effects [OF xy, of data ?es] x1 y1 by (simp_all add: related_run_def)
  moreover have "marks_set x = marks_set y" using related_fields(3) [OF xy] by (simp add: marks_set_def)
  ultimately show ?thesis
    using xy x1 y1 by (cases r) (simp_all add: left_over_marks_def related_run_def del: run_effects.simps)
qed

lemma loop: "related R x y \<Longrightarrow> related_run R (parse_loop se data x) (parse_loop sf data y)"
proof (induction "length data - x_p x" arbitrary: x y rule: less_induct)
  case less
  note xy = less.prems and p = related_fields(2) [OF less.prems]
  show ?case
  proof (cases "length data \<le> x_p x")
    case True
    then show ?thesis using left_over [OF xy] p by (simp add: parse_loop.simps [of _ data])
  next
    case False
    obtain r x1 where x1: "one_byte se data x = (r, x1)" by (rule prod.exhaust)
    obtain r' y1 where y1: "one_byte sf data y = (r', y1)" by (rule prod.exhaust)
    have r: "r' = r" and rel: "related R x1 y1" using byte [OF xy, of data] x1 y1 by (simp_all add: related_run_def)
    have q: "x_p x1 = x_p y1" by (rule related_fields(2) [OF rel])
    show ?thesis
    proof (cases r)
      case None
      have "x_p x \<le> x_p x1" using x_p_one_byte [of x se data] x1 by simp
      then have "length data - x_p (x1\<lparr>x_p := x_p x1 + 1\<rparr>) < length data - x_p x" using False by simp
      from less.hyps [OF this related_updates(2) [OF rel]] show ?thesis
        using False p x1 y1 r None q by (simp add: parse_loop.simps [of _ data x] parse_loop.simps [of _ data y])
    next
      case (Some st)
      then show ?thesis
        using False p x1 y1 r rel
        by (simp add: parse_loop.simps [of _ data x] parse_loop.simps [of _ data y] related_run_def)
    qed
  qed
qed

lemma execute:
  assumes "R e f"
  shows "same_run_result R (http_parser_execute se data p e) (http_parser_execute sf data p f)"
proof -
  have start: "related R (start_locals p e) (start_locals p f)"
    using assms by (simp add: related_def start_locals_def)
  obtain r x where x: "parse_loop se data (start_locals p e) = (r, x)" by (rule prod.exhaust)
  obtain r' y where y: "parse_loop sf data (start_locals p f) = (r', y)" by (rule prod.exhaust)
  obtain n u where u: "CALLBACK_NOTIFY se Message_Complete 0 (start_locals p e) = (n, u)" by (rule prod.exhaust)
  obtain n' v where v: "CALLBACK_NOTIFY sf Message_Complete 0 (start_locals p f) = (n', v)" by (rule prod.exhaust)
  have l: "r' = r" "related R x y" using loop [OF start, of data] x y by (simp_all add: related_run_def)
  have c: "n' = n" "related R u v" using notify [OF start, of Message_Complete 0] u v by (simp_all add: related_run_def)
  show ?thesis
    using assms l(1) related_fields [OF l(2)] c(1) related_fields [OF c(2)]
    by (cases n) (simp_all add: http_parser_execute_def x y u v same_run_result_def)
qed

end

end
