(* ===== verification/Http_Binding.thy ===== *)
theory Http_Binding
  imports Http_Callbacks Lua_Api
begin

section \<open>The HTTP parser in Lua (\<^verbatim>\<open>src/luanode_http_parser.cpp\<close>, \<^verbatim>\<open>luanode_http_parser.h\<close>)\<close>

text \<open>
  \<^verbatim>\<open>LuaNode::Http::Parser\<close>: the static members that are the callbacks of the C parser, each of
  which fetches the Lua object, looks a function up in it and calls it, and the methods
  \<^verbatim>\<open>execute\<close>, \<^verbatim>\<open>finish\<close> and \<^verbatim>\<open>reinitialize\<close>.  The C parser is the one of \<open>Http_Parser\<close>, run with the
  callbacks of this theory; while it runs, its state is the member \<open>hb_parser\<close>, where Lua code
  can reach it.  The stack is that of the main Lua state, in the frame of the method.

  \<open>binding_simulation\<close> relates the callbacks to a recorder of the parser's reports, so that what
  is proved of the parser holds of what Lua is told; \<open>binding_well_behaved\<close> makes the callbacks
  clients of the parser, whatever the Lua code.
\<close>

subsection \<open>State\<close>

text \<open>
  The object (\<open>hb_this\<close> is its Lua userdata), its members, and the static counter.  \<open>hb_aborted\<close>
  notes a failed \<^verbatim>\<open>assert\<close> of the parser.
\<close>

record http_binding = rt +
  hb_this :: nat
  hb_parser :: http_parser
  hb_got_exception :: bool
  hb_count :: "64 word"
  hb_aborted :: bool

type_synonym http_lua = "http_binding lua_fun"

subsection \<open>Names\<close>

definition http_errno_name :: "http_errno \<Rightarrow> string" where
  "http_errno_name err = (case err of
       HPE_OK \<Rightarrow> ''HPE_OK''
     | HPE_CB_message_begin \<Rightarrow> ''HPE_CB_message_begin''
     | HPE_CB_status_complete \<Rightarrow> ''HPE_CB_status_complete''
     | HPE_CB_url \<Rightarrow> ''HPE_CB_url''
     | HPE_CB_header_field \<Rightarrow> ''HPE_CB_header_field''
     | HPE_CB_header_value \<Rightarrow> ''HPE_CB_header_value''
     | HPE_CB_headers_complete \<Rightarrow> ''HPE_CB_headers_complete''
     | HPE_CB_body \<Rightarrow> ''HPE_CB_body''
     | HPE_CB_message_complete \<Rightarrow> ''HPE_CB_message_complete''
     | HPE_INVALID_EOF_STATE \<Rightarrow> ''HPE_INVALID_EOF_STATE''
     | HPE_HEADER_OVERFLOW \<Rightarrow> ''HPE_HEADER_OVERFLOW''
     | HPE_CLOSED_CONNECTION \<Rightarrow> ''HPE_CLOSED_CONNECTION''
     | HPE_INVALID_VERSION \<Rightarrow> ''HPE_INVALID_VERSION''
     | HPE_INVALID_STATUS \<Rightarrow> ''HPE_INVALID_STATUS''
     | HPE_INVALID_METHOD \<Rightarrow> ''HPE_INVALID_METHOD''
     | HPE_INVALID_URL \<Rightarrow> ''HPE_INVALID_URL''
     | HPE_INVALID_HOST \<Rightarrow> ''HPE_INVALID_HOST''
     | HPE_INVALID_PORT \<Rightarrow> ''HPE_INVALID_PORT''
     | HPE_INVALID_PATH \<Rightarrow> ''HPE_INVALID_PATH''
     | HPE_INVALID_QUERY_STRING \<Rightarrow> ''HPE_INVALID_QUERY_STRING''
     | HPE_INVALID_FRAGMENT \<Rightarrow> ''HPE_INVALID_FRAGMENT''
     | HPE_LF_EXPECTED \<Rightarrow> ''HPE_LF_EXPECTED''
     | HPE_INVALID_HEADER_TOKEN \<Rightarrow> ''HPE_INVALID_HEADER_TOKEN''
     | HPE_INVALID_CONTENT_LENGTH \<Rightarrow> ''HPE_INVALID_CONTENT_LENGTH''
     | HPE_INVALID_CHUNK_SIZE \<Rightarrow> ''HPE_INVALID_CHUNK_SIZE''
     | HPE_INVALID_CONSTANT \<Rightarrow> ''HPE_INVALID_CONSTANT''
     | HPE_INVALID_INTERNAL_STATE \<Rightarrow> ''HPE_INVALID_INTERNAL_STATE''
     | HPE_STRICT \<Rightarrow> ''HPE_STRICT''
     | HPE_PAUSED \<Rightarrow> ''HPE_PAUSED''
     | HPE_UNKNOWN \<Rightarrow> ''HPE_UNKNOWN'')"

definition http_errno_description :: "http_errno \<Rightarrow> string" where
  "http_errno_description err = (case err of
       HPE_OK \<Rightarrow> ''success''
     | HPE_CB_message_begin \<Rightarrow> ''the on_message_begin callback failed''
     | HPE_CB_status_complete \<Rightarrow> ''the on_status_complete callback failed''
     | HPE_CB_url \<Rightarrow> ''the on_url callback failed''
     | HPE_CB_header_field \<Rightarrow> ''the on_header_field callback failed''
     | HPE_CB_header_value \<Rightarrow> ''the on_header_value callback failed''
     | HPE_CB_headers_complete \<Rightarrow> ''the on_headers_complete callback failed''
     | HPE_CB_body \<Rightarrow> ''the on_body callback failed''
     | HPE_CB_message_complete \<Rightarrow> ''the on_message_complete callback failed''
     | HPE_INVALID_EOF_STATE \<Rightarrow> ''stream ended at an unexpected time''
     | HPE_HEADER_OVERFLOW \<Rightarrow> ''too many header bytes seen; overflow detected''
     | HPE_CLOSED_CONNECTION \<Rightarrow> ''data received after completed connection: close message''
     | HPE_INVALID_VERSION \<Rightarrow> ''invalid HTTP version''
     | HPE_INVALID_STATUS \<Rightarrow> ''invalid HTTP status code''
     | HPE_INVALID_METHOD \<Rightarrow> ''invalid HTTP method''
     | HPE_INVALID_URL \<Rightarrow> ''invalid URL''
     | HPE_INVALID_HOST \<Rightarrow> ''invalid host''
     | HPE_INVALID_PORT \<Rightarrow> ''invalid port''
     | HPE_INVALID_PATH \<Rightarrow> ''invalid path''
     | HPE_INVALID_QUERY_STRING \<Rightarrow> ''invalid query string''
     | HPE_INVALID_FRAGMENT \<Rightarrow> ''invalid fragment''
     | HPE_LF_EXPECTED \<Rightarrow> ''LF character expected''
     | HPE_INVALID_HEADER_TOKEN \<Rightarrow> ''invalid character in header''
     | HPE_INVALID_CONTENT_LENGTH \<Rightarrow> ''invalid character in content-length header''
     | HPE_INVALID_CHUNK_SIZE \<Rightarrow> ''invalid character in chunk size header''
     | HPE_INVALID_CONSTANT \<Rightarrow> ''invalid constant string''
     | HPE_INVALID_INTERNAL_STATE \<Rightarrow> ''encountered unexpected internal state''
     | HPE_STRICT \<Rightarrow> ''strict mode assertion failed''
     | HPE_PAUSED \<Rightarrow> ''parser is paused''
     | HPE_UNKNOWN \<Rightarrow> ''an unknown error occurred'')"

definition method_to_str :: "http_method \<Rightarrow> string" where
  "method_to_str m = (case m of
       HTTP_DELETE \<Rightarrow> ''DELETE'' | HTTP_GET \<Rightarrow> ''GET'' | HTTP_HEAD \<Rightarrow> ''HEAD'' | HTTP_POST \<Rightarrow> ''POST''
     | HTTP_PUT \<Rightarrow> ''PUT'' | HTTP_CONNECT \<Rightarrow> ''CONNECT'' | HTTP_OPTIONS \<Rightarrow> ''OPTIONS''
     | HTTP_TRACE \<Rightarrow> ''TRACE'' | HTTP_COPY \<Rightarrow> ''COPY'' | HTTP_LOCK \<Rightarrow> ''LOCK''
     | HTTP_MKCOL \<Rightarrow> ''MKCOL'' | HTTP_MOVE \<Rightarrow> ''MOVE'' | HTTP_PROPFIND \<Rightarrow> ''PROPFIND''
     | HTTP_PROPPATCH \<Rightarrow> ''PROPPATCH'' | HTTP_UNLOCK \<Rightarrow> ''UNLOCK'' | HTTP_REPORT \<Rightarrow> ''REPORT''
     | HTTP_MKACTIVITY \<Rightarrow> ''MKACTIVITY'' | HTTP_CHECKOUT \<Rightarrow> ''CHECKOUT'' | HTTP_MERGE \<Rightarrow> ''MERGE''
     | HTTP_MSEARCH \<Rightarrow> ''M-SEARCH'' | HTTP_NOTIFY \<Rightarrow> ''NOTIFY'' | HTTP_SUBSCRIBE \<Rightarrow> ''SUBSCRIBE''
     | HTTP_UNSUBSCRIBE \<Rightarrow> ''UNSUSCRIBE'' | HTTP_PATCH \<Rightarrow> ''PATCH'' | HTTP_PURGE \<Rightarrow> ''PURGE''
     | _ \<Rightarrow> ''UNKNOWN'')"

subsection \<open>Construction\<close>

text \<open>\<^verbatim>\<open>GetSelf\<close> of the class bridge: the tracking table gives the object of \<^verbatim>\<open>this\<close>.\<close>

definition GetSelf :: "(http_binding, unit) state" where
  "GetSelf = do { this \<leftarrow> gets hb_this; lua_push (LObj this) }"

definition GetParserCount :: "http_binding meth" where
  "GetParserCount = do { n \<leftarrow> gets hb_count; lua_push (LNum (sint n)); ret_n 1 }"

definition Parser_Init :: "http_parser_type \<Rightarrow> (http_binding, unit) state" where
  "Parser_Init t = modify (\<lambda>s. s\<lparr>hb_parser := http_parser_init t\<rparr>)"

definition choose_type :: "nat \<Rightarrow> http_binding meth" where
  "choose_type i = do {
     chosen_option \<leftarrow> luaL_checkoption i None [''request'', ''response''];
     case chosen_option of
       Inl e \<Rightarrow> raise e
     | Inr k \<Rightarrow>
         (if k = 0 then do { Parser_Init HTTP_REQUEST; ret_n 0 }
          else if k = 1 then do { Parser_Init HTTP_RESPONSE; ret_n 0 }
          else raise (Lua_Error ''Constructor argument must be 'request' or 'response' ''))
   }"

definition Parser_ctor :: "http_binding meth" where
  "Parser_ctor = do { modify (\<lambda>s. s\<lparr>hb_count := hb_count s + 1\<rparr>); choose_type 1 }"

definition Parser_dtor :: "(http_binding, unit) state" where
  "Parser_dtor = modify (\<lambda>s. s\<lparr>hb_count := hb_count s - 1\<rparr>)"

definition Reinitialize :: "http_binding meth" where
  "Reinitialize = choose_type 2"

subsection \<open>The callbacks\<close>

text \<open>The part all callbacks end with once the Lua function has returned.\<close>

definition after_lua :: "(http_binding, int) state" where
  "after_lua = do {
     t \<leftarrow> lua_toptype;
     if t = TNil then do {
       modify (\<lambda>s. s\<lparr>hb_got_exception := True\<rparr>);
       lua_settop 0;
       ret (- 1)
     } else do {
       lua_settop 0;
       ret 0
     }
   }"

definition on_notice :: "http_lua \<Rightarrow> string \<Rightarrow> (http_binding, int) state" where
  "on_notice lua name = do {
     GetSelf;
     self \<leftarrow> lua_gettop;
     lua_getfield self name;
     t \<leftarrow> lua_toptype;
     if t = TFunction then do {
       lua_pushvalue self;
       vm_call lua 1;
       after_lua
     } else do {
       lua_settop 0;
       ret 0
     }
   }"

definition on_data :: "http_lua \<Rightarrow> string \<Rightarrow> string \<Rightarrow> (http_binding, int) state" where
  "on_data lua name at = do {
     GetSelf;
     self \<leftarrow> lua_gettop;
     lua_getfield self name;
     t \<leftarrow> lua_toptype;
     if t = TFunction then do {
       lua_pushvalue self;
       lua_push (LStr at);
       lua_push (LNum 0);
       lua_push (LNum (int (length at)));
       vm_call lua 4;
       after_lua
     } else do {
       lua_settop 0;
       ret 0
     }
   }"

definition lua_message_begin :: "http_lua \<Rightarrow> (http_binding, int) state" where
  "lua_message_begin lua = on_notice lua ''onMessageBegin''"

definition lua_url :: "http_lua \<Rightarrow> string \<Rightarrow> (http_binding, int) state" where
  "lua_url lua at = (if at = [] then ret 0 else on_data lua ''onURL'' at)"

definition lua_header_field :: "http_lua \<Rightarrow> string \<Rightarrow> (http_binding, int) state" where
  "lua_header_field lua at = (if at = [] then ret 0 else on_data lua ''onHeaderField'' at)"

definition lua_header_value :: "http_lua \<Rightarrow> string \<Rightarrow> (http_binding, int) state" where
  "lua_header_value lua at = on_data lua ''onHeaderValue'' at"

definition lua_body :: "http_lua \<Rightarrow> string \<Rightarrow> (http_binding, int) state" where
  "lua_body lua at = on_data lua ''onBody'' at"

definition lua_message_complete :: "http_lua \<Rightarrow> (http_binding, int) state" where
  "lua_message_complete lua = on_notice lua ''onMessageComplete''"

text \<open>The table that describes the message.\<close>

definition push_message_info :: "http_parser \<Rightarrow> (http_binding, unit) state" where
  "push_message_info p = do {
     lua_push (LTab []);
     table \<leftarrow> lua_gettop;
     (if hp_type p = HTTP_REQUEST then do {
        lua_push (LStr (method_to_str (hp_method p)));
        lua_setfield table ''method''
      } else whenM (hp_type p = HTTP_RESPONSE) (do {
        lua_push (LNum (int (hp_status_code p)));
        lua_setfield table ''statusCode''
      }));
     lua_push (LNum (int (hp_http_major p)));
     lua_setfield table ''versionMajor'';
     lua_push (LNum (int (hp_http_minor p)));
     lua_setfield table ''versionMinor'';
     lua_push (LBool (http_should_keep_alive p));
     lua_setfield table ''shouldKeepAlive'';
     lua_push (LBool (hp_upgrade p));
     lua_setfield table ''upgrade''
   }"

definition lua_headers_complete :: "http_lua \<Rightarrow> (http_binding, int) state" where
  "lua_headers_complete lua = do {
     p \<leftarrow> gets hb_parser;
     GetSelf;
     self \<leftarrow> lua_gettop;
     lua_getfield self ''onHeadersComplete'';
     t \<leftarrow> lua_toptype;
     if t = TFunction then do {
       lua_pushvalue self;
       push_message_info p;
       vm_call lua 2;
       top \<leftarrow> gets (\<lambda>s. stack_top (rt_stack s));
       if none_or_nil top then do {
         modify (\<lambda>s. s\<lparr>hb_got_exception := True\<rparr>);
         lua_settop 0;
         ret (- 1)
       } else do {
         lua_settop 0;
         ret (if to_boolean top then 1 else 0)
       }
     } else do {
       lua_settop 0;
       ret 0
     }
   }"

text \<open>A static member as a callback of the C parser: \<^verbatim>\<open>p->data\<close> is the object \<open>p\<close> is a member of.\<close>

definition as_cb :: "(http_binding, int) state \<Rightarrow> http_binding http_cb" where
  "as_cb m p e = (let f = e\<lparr>hb_parser := p\<rparr> in (result m f, hb_parser (exec m f), exec m f))"

definition as_data_cb :: "(string \<Rightarrow> (http_binding, int) state) \<Rightarrow> http_binding http_data_cb" where
  "as_data_cb m p d e = as_cb (m d) p e"

definition s_settings :: "http_lua \<Rightarrow> http_binding http_parser_settings" where
  "s_settings lua = \<lparr>
     on_message_begin = Some (as_cb (lua_message_begin lua)),
     on_url = Some (as_data_cb (lua_url lua)),
     on_status_complete = None,
     on_header_field = Some (as_data_cb (lua_header_field lua)),
     on_header_value = Some (as_data_cb (lua_header_value lua)),
     on_headers_complete = Some (as_cb (lua_headers_complete lua)),
     on_body = Some (as_data_cb (lua_body lua)),
     on_message_complete = Some (as_cb (lua_message_complete lua))\<rparr>"

subsection \<open>Methods\<close>

text \<open>
  The bytes \<^verbatim>\<open>buffer + offset\<close> points to: the string, its terminator, and \<open>mem\<close>, whatever lies
  before and behind it.
\<close>

definition byte_at :: "(int \<Rightarrow> char) \<Rightarrow> string \<Rightarrow> int \<Rightarrow> char" where
  "byte_at mem buffer i =
     (if 0 \<le> i \<and> i < int (length buffer) then buffer ! nat i
      else if i = int (length buffer) then NUL else mem i)"

definition bytes_at :: "(int \<Rightarrow> char) \<Rightarrow> string \<Rightarrow> int \<Rightarrow> nat \<Rightarrow> string" where
  "bytes_at mem buffer offset len = map (\<lambda>k. byte_at mem buffer (offset + int k)) [0..<len]"

definition size_t :: "int \<Rightarrow> nat" where "size_t n = nat (n mod 2 ^ 64)"

definition run_parser :: "http_lua \<Rightarrow> string \<Rightarrow> (http_binding, nat) state" where
  "run_parser lua data = do {
     s \<leftarrow> gets id;
     let (r, q, e) = http_parser_execute (s_settings lua) data (hb_parser s) s;
     modify (\<lambda>_. e\<lparr>hb_parser := q\<rparr>);
     case r of
       Returned n \<Rightarrow> ret n
     | _ \<Rightarrow> do { modify (\<lambda>s. s\<lparr>hb_aborted := True\<rparr>); ret 0 }
   }"

definition Execute :: "http_lua \<Rightarrow> (int \<Rightarrow> char) \<Rightarrow> http_binding meth" where
  "Execute lua mem = do {
     arg1 \<leftarrow> luaL_checkstring 2;
     case arg1 of Inl e \<Rightarrow> raise e | Inr buffer \<Rightarrow> do {
     arg2 \<leftarrow> luaL_checkinteger 3;
     case arg2 of Inl e \<Rightarrow> raise e | Inr offset \<Rightarrow> do {
     arg3 \<leftarrow> luaL_checkinteger 4;
     case arg3 of Inl e \<Rightarrow> raise e | Inr len \<Rightarrow> do {
     modify (\<lambda>s. s\<lparr>hb_got_exception := False\<rparr>);
     nparsed \<leftarrow> run_parser lua (bytes_at mem buffer offset (size_t len));
     got \<leftarrow> gets hb_got_exception;
     if got then ret_n 0
     else do {
       p \<leftarrow> gets hb_parser;
       if \<not> hp_upgrade p \<and> nparsed \<noteq> size_t len then do {
         lua_push LNil;
         env \<leftarrow> gets rt_env;
         lua_push (LStr (''Parse error. '' @ le_num2str env (c_int (int nparsed)) @ '' bytes parsed''));
         ret_n 2
       } else do {
         lua_push (LNum (int nparsed));
         ret_n 1
       }
     } } } }
   }"

definition Finish :: "http_lua \<Rightarrow> http_binding meth" where
  "Finish lua = do {
     modify (\<lambda>s. s\<lparr>hb_got_exception := False\<rparr>);
     rv \<leftarrow> run_parser lua [];
     if rv \<noteq> 0 then do {
       p \<leftarrow> gets hb_parser;
       lua_push (LStr (http_errno_name (hp_errno p)));
       ret_n 1
     } else do {
       got \<leftarrow> gets hb_got_exception;
       if got then do { lua_push (LStr ''Parse error (finish).''); ret_n 1 }
       else do { lua_push LNil; ret_n 1 }
     }
   }"

subsection \<open>Lua code that answers\<close>

text \<open>
  Lua functions that leave the state alone and answer \<open>ans\<close>.  \<open>answered\<close> is what the callback
  finds on top of the stack: the last result, or the object itself when there was none.
\<close>

definition answers :: "(lval \<Rightarrow> lval list \<Rightarrow> lval list) \<Rightarrow> http_lua" where
  "answers ans f args = ret (ans f args)"

definition answered :: "(lval \<Rightarrow> lval list \<Rightarrow> lval list) \<Rightarrow> http_binding \<Rightarrow> lval \<Rightarrow> lval list \<Rightarrow> lval" where
  "answered ans s f args = stack_top (LObj (hb_this s) # ans f args)"

definition message_info :: "http_parser \<Rightarrow> lval" where
  "message_info p = LTab
     ((if hp_type p = HTTP_REQUEST then [(LStr ''method'', LStr (method_to_str (hp_method p)))]
       else if hp_type p = HTTP_RESPONSE then [(LStr ''statusCode'', LNum (int (hp_status_code p)))] else []) @
      [(LStr ''versionMajor'', LNum (int (hp_http_major p))), (LStr ''versionMinor'', LNum (int (hp_http_minor p))),
       (LStr ''shouldKeepAlive'', LBool (http_should_keep_alive p)), (LStr ''upgrade'', LBool (hp_upgrade p))])"

definition field_fun :: "http_binding \<Rightarrow> string \<Rightarrow> lval list \<Rightarrow> (lval \<times> lval list) list" where
  "field_fun s name args = (case rt_objs s (hb_this s) name of
     LFun f \<Rightarrow> [(LFun f, LObj (hb_this s) # args)] | _ \<Rightarrow> [])"

lemma stack_top_last: "stack_top (a @ x # xs) = stack_top (x # xs)"
  by (simp add: stack_top_def)

lemma run_answers: "exec (answers ans f args) s = s" "result (answers ans f args) s = ans f args"
  by (simp_all add: answers_def)

lemma type_of_field: "type_of (rt_objs s p name) = TFunction \<longleftrightarrow> (\<exists>f. rt_objs s p name = LFun f)"
  by simp

lemma type_fun_cases: "(type_of v = TFunction) = (case v of LFun f \<Rightarrow> True | _ \<Rightarrow> False)"
  by (cases v) simp_all

lemma stack_top_append: "stack_top (a @ b) = (if b = [] then stack_top a else stack_top b)"
  by (simp add: stack_top_def)

lemma after_lua_run:
  "exec after_lua s = s\<lparr>rt_stack := [], hb_got_exception := hb_got_exception s \<or> stack_top (rt_stack s) = LNil\<rparr>"
  "result after_lua s = (if stack_top (rt_stack s) = LNil then - 1 else 0)"
  by (simp_all add: after_lua_def lua_prim_defs exec_if result_if)

lemma notice_run:
  "exec (on_notice (answers ans) name) s = (case rt_objs s (hb_this s) name of
     LFun f \<Rightarrow> s\<lparr>rt_stack := [], rt_calls := rt_calls s @ [(LFun f, [LObj (hb_this s)])],
       hb_got_exception := hb_got_exception s \<or> answered ans s (LFun f) [LObj (hb_this s)] = LNil\<rparr>
   | _ \<Rightarrow> s\<lparr>rt_stack := []\<rparr>)"
  "result (on_notice (answers ans) name) s = (case rt_objs s (hb_this s) name of
     LFun f \<Rightarrow> if answered ans s (LFun f) [LObj (hb_this s)] = LNil then - 1 else 0 | _ \<Rightarrow> 0)"
  by (cases "rt_objs s (hb_this s) name";
      simp add: on_notice_def GetSelf_def lua_prim_defs vm_call_def exec_if result_if run_answers after_lua_run
        answered_def nth_append stack_top_append Let_def)+

lemma data_run:
  "exec (on_data (answers ans) name d) s = (let args = [LObj (hb_this s), LStr d, LNum 0, LNum (int (length d))] in
   case rt_objs s (hb_this s) name of
     LFun f \<Rightarrow> s\<lparr>rt_stack := [], rt_calls := rt_calls s @ [(LFun f, args)],
       hb_got_exception := hb_got_exception s \<or> answered ans s (LFun f) args = LNil\<rparr>
   | _ \<Rightarrow> s\<lparr>rt_stack := []\<rparr>)"
  "result (on_data (answers ans) name d) s = (let args = [LObj (hb_this s), LStr d, LNum 0, LNum (int (length d))] in
   case rt_objs s (hb_this s) name of
     LFun f \<Rightarrow> if answered ans s (LFun f) args = LNil then - 1 else 0 | _ \<Rightarrow> 0)"
  by (cases "rt_objs s (hb_this s) name";
      simp add: on_data_def GetSelf_def lua_prim_defs vm_call_def exec_if result_if run_answers after_lua_run
        answered_def nth_append stack_top_append Let_def)+

lemma set_top_field:
  "exec (lua_setfield (Suc (length xs)) k) (s\<lparr>rt_stack := xs @ [t, v]\<rparr>) = s\<lparr>rt_stack := xs @ [tab_set (LStr k) v t]\<rparr>"
  by (simp add: lua_setfield_def lua_settab_def list_update_append nth_append)

lemma push_message_info_run: "exec (push_message_info p) s = s\<lparr>rt_stack := rt_stack s @ [message_info p]\<rparr>"
  by (cases "hp_type p")
    (simp_all add: push_message_info_def exec_whenM lua_push_def lua_gettop_def set_top_field message_info_def)

lemma headers_run:
  "exec (lua_headers_complete (answers ans)) s = (let args = [LObj (hb_this s), message_info (hb_parser s)] in
   case rt_objs s (hb_this s) ''onHeadersComplete'' of
     LFun f \<Rightarrow> s\<lparr>rt_stack := [], rt_calls := rt_calls s @ [(LFun f, args)],
       hb_got_exception := hb_got_exception s \<or> none_or_nil (answered ans s (LFun f) args)\<rparr>
   | _ \<Rightarrow> s\<lparr>rt_stack := []\<rparr>)"
  "result (lua_headers_complete (answers ans)) s = (let args = [LObj (hb_this s), message_info (hb_parser s)] in
   case rt_objs s (hb_this s) ''onHeadersComplete'' of
     LFun f \<Rightarrow> if none_or_nil (answered ans s (LFun f) args) then - 1
       else if to_boolean (answered ans s (LFun f) args) then 1 else 0
   | _ \<Rightarrow> 0)"
  by (cases "rt_objs s (hb_this s) ''onHeadersComplete''";
      simp add: lua_headers_complete_def GetSelf_def lua_prim_defs vm_call_def exec_if result_if run_answers push_message_info_run
        answered_def nth_append stack_top_append Let_def)+

text \<open>What Lua is told about a notification, a piece of data and the end of a head.\<close>

fun told :: "http_binding \<Rightarrow> http_event \<Rightarrow> (lval \<times> lval list) list" where
  "told s (Noted Message_Begin) = field_fun s ''onMessageBegin'' []"
| "told s (Noted Status_Complete) = []"
| "told s (Noted Message_Complete) = field_fun s ''onMessageComplete'' []"
| "told s (Piece m d) =
     (if d = [] \<and> m \<in> {Url, Header_Field} then []
      else field_fun s (case m of Header_Field \<Rightarrow> ''onHeaderField'' | Header_Value \<Rightarrow> ''onHeaderValue''
          | Url \<Rightarrow> ''onURL'' | Body \<Rightarrow> ''onBody'')
        [LStr d, LNum 0, LNum (int (length d))])"
| "told s (Headers p) = field_fun s ''onHeadersComplete'' [message_info p]"

text \<open>Whether the answer of \<^verbatim>\<open>onHeadersComplete\<close> makes the parser skip the body.\<close>

definition skips :: "(lval \<Rightarrow> lval list \<Rightarrow> lval list) \<Rightarrow> http_binding \<Rightarrow> http_parser \<Rightarrow> bool" where
  "skips ans s p = (case rt_objs s (hb_this s) ''onHeadersComplete'' of
     LFun f \<Rightarrow> to_boolean (answered ans s (LFun f) [LObj (hb_this s), message_info p]) | _ \<Rightarrow> False)"

text \<open>Two states that differ in the stack, the member \<^verbatim>\<open>m_parser\<close> and what Lua was told.\<close>

definition heard :: "http_binding \<Rightarrow> http_binding \<Rightarrow> http_event list \<Rightarrow> bool" where
  "heard s e log \<longleftrightarrow> rt_env e = rt_env s \<and> rt_reg e = rt_reg s \<and> rt_objs e = rt_objs s \<and>
     hb_this e = hb_this s \<and> hb_got_exception e = hb_got_exception s \<and> hb_count e = hb_count s \<and>
     hb_aborted e = hb_aborted s \<and> rt_calls e = rt_calls s @ concat (map (told s) log)"

definition never_nil :: "(lval \<Rightarrow> lval list \<Rightarrow> lval list) \<Rightarrow> http_binding \<Rightarrow> bool" where
  "never_nil ans s \<longleftrightarrow> (\<forall>f args. \<not> none_or_nil (answered ans s f args))"

lemma answered_self: "hb_this e = hb_this s \<Longrightarrow> answered ans e = answered ans s"
  by (simp add: answered_def fun_eq_iff)

lemma notice_heard:
  assumes "never_nil ans s" and "heard s e log" and "told s ev = field_fun s name []"
  shows "same_answer (heard s) (as_cb (on_notice (answers ans) name) p e) (0, p, log @ [ev])"
  using assms answered_self [of "e\<lparr>hb_parser := p\<rparr>" s ans]
  by (cases "rt_objs s (hb_this s) name")
    (simp_all add: same_answer_def as_cb_def notice_run field_fun_def never_nil_def none_or_nil_def heard_def Let_def)

lemma data_heard:
  assumes "never_nil ans s" and "heard s e log"
    and "told s ev = field_fun s name [LStr d, LNum 0, LNum (int (length d))]"
  shows "same_answer (heard s) (as_cb (on_data (answers ans) name d) p e) (0, p, log @ [ev])"
  using assms answered_self [of "e\<lparr>hb_parser := p\<rparr>" s ans]
  by (cases "rt_objs s (hb_this s) name")
    (simp_all add: same_answer_def as_cb_def data_run field_fun_def never_nil_def none_or_nil_def heard_def Let_def)

lemma nothing_heard:
  assumes "heard s e log" and "told s ev = []"
  shows "same_answer (heard s) (as_cb (ret 0) p e) (0, p, log @ [ev])" "same_answer (heard s) (0, p, e) (0, p, log @ [ev])"
  using assms by (simp_all add: same_answer_def as_cb_def heard_def)

lemma headers_heard:
  assumes "never_nil ans s" and "heard s e log"
  shows "same_answer (heard s) (as_cb (lua_headers_complete (answers ans)) p e)
    (if skips ans s p then 1 else 0, p, log @ [Headers p])"
  using assms answered_self [of "e\<lparr>hb_parser := p\<rparr>" s ans]
  by (cases "rt_objs s (hb_this s) ''onHeadersComplete''")
    (simp_all add: same_answer_def as_cb_def headers_run field_fun_def never_nil_def skips_def heard_def Let_def)

lemma binding_simulation:
  assumes "never_nil ans s"
  shows "client_simulation (heard s) (s_settings (answers ans)) (recorder (skips ans s))"
proof
  fix e log n p assume e: "heard s e log"
  show "same_answer (heard s) (answer (fst (notify_cb (s_settings (answers ans)) n)) p e)
      (answer (fst (notify_cb (recorder (skips ans s)) n)) p log)"
    using notice_heard [OF assms e] nothing_heard(2) [OF e]
    by (cases n) (simp_all add: answer_def s_settings_def recorder_def lua_message_begin_def lua_message_complete_def)
next
  fix e log m p d assume e: "heard s e log"
  show "same_answer (heard s) (answer_data (fst (data_cb (s_settings (answers ans)) m)) p d e)
      (answer_data (fst (data_cb (recorder (skips ans s)) m)) p d log)"
    using data_heard [OF assms e] nothing_heard(1) [OF e]
    by (cases m) (simp_all add: answer_data_def s_settings_def recorder_def as_data_cb_def lua_url_def
      lua_header_field_def lua_header_value_def lua_body_def)
next
  fix e log p assume e: "heard s e log"
  show "same_answer (heard s) (answer (on_headers_complete (s_settings (answers ans))) p e)
      (answer (on_headers_complete (recorder (skips ans s))) p log)"
    using headers_heard [OF assms e] by (simp add: answer_def s_settings_def recorder_def)
qed

interpretation quiet_lua: client_simulation "heard s" "s_settings (answers (\<lambda>_ _. [LBool b]))"
    "recorder (skips (\<lambda>_ _. [LBool b]) s)" for s b
  by (rule binding_simulation) (simp add: never_nil_def answered_def none_or_nil_def)

subsection \<open>Any Lua code\<close>

text \<open>What Lua code may do to the parser in a callback: nothing, or \<^verbatim>\<open>reinitialize\<close>.\<close>

definition polite :: "http_lua \<Rightarrow> bool" where
  "polite lua \<longleftrightarrow> (\<forall>f args s. hp_errno (hb_parser s) = HPE_OK \<longrightarrow>
     api_moves (hb_parser s) (hb_parser (exec (lua f args) s)))"

lemma polite_moves:
  "polite lua \<Longrightarrow> hb_parser s = p \<Longrightarrow> hp_errno p = HPE_OK \<Longrightarrow> api_moves p (hb_parser (exec (lua f args) s))"
  by (auto simp: polite_def)

lemma polite_call:
  assumes "polite lua" and "hb_parser s = p" and "hp_errno p = HPE_OK"
  shows "api_moves p (hb_parser (exec (vm_call lua n) s))"
  unfolding vm_call_def Let_def by simp (rule polite_moves [OF assms(1) _ assms(3)], simp add: assms(2))

lemma parser_kept:
  "hb_parser (exec after_lua s) = hb_parser s" "hb_parser (exec (push_message_info p) s) = hb_parser s"
  by (simp_all add: after_lua_run push_message_info_run)

lemma polite_callbacks:
  assumes "polite lua" and "hp_errno p = HPE_OK"
  shows "api_moves p (fst (snd (as_cb (on_notice lua name) p e)))"
    "api_moves p (fst (snd (as_cb (on_data lua name d) p e)))"
    "api_moves p (fst (snd (as_cb (lua_headers_complete lua) p e)))"
    "api_moves p (fst (snd (as_cb (ret 0) p e)))"
proof -
  note defs = as_cb_def Let_def GetSelf_def lua_prim_defs exec_if parser_kept
  note rules = polite_call [OF assms(1) _ assms(2)] api_moves_refl [OF assms(2)]
  show "api_moves p (fst (snd (as_cb (on_notice lua name) p e)))"
    by (simp add: on_notice_def defs rules)
  show "api_moves p (fst (snd (as_cb (on_data lua name d) p e)))"
    by (simp add: on_data_def defs rules)
  show "api_moves p (fst (snd (as_cb (lua_headers_complete lua) p e)))"
    by (simp add: lua_headers_complete_def defs rules)
  show "api_moves p (fst (snd (as_cb (ret 0) p e)))"
    by (simp add: defs rules)
qed

lemma binding_well_behaved:
  assumes "polite lua"
  shows "well_behaved (s_settings lua)"
proof -
  note cb = polite_callbacks [OF assms]
  have "api_moves p (fst (snd (f p e)))" if "hp_errno p = HPE_OK" "fst (notify_cb (s_settings lua) n) = Some f" for n f p e
    using that cb [OF that(1)] by (cases n) (auto simp: s_settings_def lua_message_begin_def lua_message_complete_def)
  moreover have "api_moves p (fst (snd (f p d e)))" if "hp_errno p = HPE_OK" "fst (data_cb (s_settings lua) m) = Some f" for m f p d e
    using that cb [OF that(1)] by (cases m) (auto simp: s_settings_def as_data_cb_def lua_url_def lua_header_field_def
      lua_header_value_def lua_body_def)
  moreover have "api_moves p (fst (snd (f p e)))" if "hp_errno p = HPE_OK" "on_headers_complete (s_settings lua) = Some f" for f p e
    using that cb [OF that(1)] by (auto simp: s_settings_def)
  ultimately show ?thesis
    unfolding well_behaved_def by (intro allI impI conjI) simp_all
qed

lemma polite_answers: "polite (answers ans)"
  by (auto simp: polite_def run_answers intro: api_moves_refl)

interpretation binding: parser_client "s_settings (answers ans)"
  for ans :: "lval \<Rightarrow> lval list \<Rightarrow> lval list"
  by unfold_locales (rule binding_well_behaved [OF polite_answers])

lemma run_parser_run:
  "exec (run_parser lua data) s = (case http_parser_execute (s_settings lua) data (hb_parser s) s of
     (r, q, e) \<Rightarrow> (case r of Returned n \<Rightarrow> e\<lparr>hb_parser := q\<rparr> | _ \<Rightarrow> e\<lparr>hb_parser := q, hb_aborted := True\<rparr>))"
  "result (run_parser lua data) s = (case http_parser_execute (s_settings lua) data (hb_parser s) s of
     (r, q, e) \<Rightarrow> (case r of Returned n \<Rightarrow> n | _ \<Rightarrow> 0))"
  by (auto simp: run_parser_def Let_def split: prod.splits stop.splits)

text \<open>An object with four of the callbacks.\<close>

definition browser :: "nat \<Rightarrow> string \<Rightarrow> lval" where
  "browser p k = (if k \<in> {''onMessageBegin'', ''onURL'', ''onHeadersComplete'', ''onMessageComplete''} then LFun 1 else LNil)"

definition sample_parser :: "http_parser \<Rightarrow> http_binding" where
  "sample_parser p = \<lparr>rt_env = sample_env, rt_stack = [], rt_reg = Map.empty, rt_objs = browser, rt_calls = [],
     hb_this = 7, hb_parser = p, hb_got_exception = False, hb_count = 1, hb_aborted = False\<rparr>"

lemma first_byte:
  "\<exists>q. http_parser_execute (recorder hc) ''G'' (http_parser_init HTTP_REQUEST) [] = (Returned 1, q, [Noted Message_Begin]) \<and> \<not> hp_upgrade q"
  "\<exists>q. http_parser_execute (recorder hc) ''!'' (http_parser_init HTTP_REQUEST) [] = (Returned 0, q, []) \<and> \<not> hp_upgrade q"
proof -
  let ?run = "\<lambda>c. http_parser_execute (recorder hc) [c] (http_parser_init HTTP_REQUEST) []"
  have "fst (?run CHR ''G'') = Returned 1" "snd (snd (?run CHR ''G'')) = [Noted Message_Begin]" "\<not> hp_upgrade (fst (snd (?run CHR ''G'')))"
    "fst (?run CHR ''!'') = Returned 0" "snd (snd (?run CHR ''!'')) = []" "\<not> hp_upgrade (fst (snd (?run CHR ''!'')))"
    by code_simp+
  then show "\<exists>q. ?run CHR ''G'' = (Returned 1, q, [Noted Message_Begin]) \<and> \<not> hp_upgrade q"
    "\<exists>q. ?run CHR ''!'' = (Returned 0, q, []) \<and> \<not> hp_upgrade q"
    by (metis prod.collapse)+
qed

subsection \<open>Properties\<close>

text \<open>
  C11: Whatever the Lua callbacks do that leave the parser alone or reinitialise it, the C parser
  returns with a count, no assertion fails, and the object is left with a parser that can be
  executed again.
\<close>
theorem parser_survives_lua:
  assumes "polite lua" and "resting (hb_parser s)"
  shows "(\<exists>n. fst (http_parser_execute (s_settings lua) data (hb_parser s) s) = Returned n \<and> n \<le> max 1 (length data)) \<and>
    resting (hb_parser (exec (run_parser lua data) s))"
  using execute_ends [OF binding_well_behaved [OF assms(1)] assms(2), of data s]
  by (auto simp: run_parser_run)

theorem parser_survives_lua_witness:
  "(\<exists>n. fst (http_parser_execute (s_settings (answers (\<lambda>_ _. [LNil]))) ''GET'' (http_parser_init HTTP_REQUEST)
       (sample_parser (http_parser_init HTTP_REQUEST))) = Returned n \<and> n \<le> max 1 (length ''GET'')) \<and>
    resting (hb_parser (exec (run_parser (answers (\<lambda>_ _. [LNil])) ''GET'') (sample_parser (http_parser_init HTTP_REQUEST))))"
proof -
  have p: "hb_parser (sample_parser (http_parser_init HTTP_REQUEST)) = http_parser_init HTTP_REQUEST"
    by (simp add: sample_parser_def)
  have "resting (hb_parser (sample_parser (http_parser_init HTTP_REQUEST)))" unfolding p by (rule init_rests)
  from parser_survives_lua [OF polite_answers this] show ?thesis unfolding p .
qed

lemma size_t_id: "0 \<le> n \<Longrightarrow> n < 2 ^ 64 \<Longrightarrow> size_t n = nat n"
  by (simp add: size_t_def)

lemma bytes_inside:
  assumes "0 \<le> off" and "off + int n \<le> int (length buffer)"
  shows "bytes_at mem buffer off n = take n (drop (nat off) buffer)"
  using assms by (intro nth_equalityI) (auto simp: bytes_at_def byte_at_def nat_add_distrib)

lemma told_cong: "rt_objs t = rt_objs s \<Longrightarrow> hb_this t = hb_this s \<Longrightarrow> told t = told s"
proof (rule ext)
  fix ev assume "rt_objs t = rt_objs s" "hb_this t = hb_this s"
  then have "field_fun t name args = field_fun s name args" for name args
    by (simp add: field_fun_def cong: lval.case_cong)
  then show "told t ev = told s ev" by (cases "(s, ev)" rule: told.cases) auto
qed

lemma execute_run:
  assumes "never_nil ans s"
    and "http_parser_execute (recorder (skips ans s)) (bytes_at mem buffer off (size_t len)) (hb_parser s) [] =
      (Returned n, q, log)"
  shows "result (thunk_methods (Execute (answers ans) mem) [LObj p, LStr buffer, LNum off, LNum len]) s =
      Inr (if \<not> hp_upgrade q \<and> n \<noteq> size_t len
        then [LNil, LStr (''Parse error. '' @ le_num2str (rt_env s) (c_int (int n)) @ '' bytes parsed'')]
        else [LNum (int n)]) \<and>
    (let t = exec (thunk_methods (Execute (answers ans) mem) [LObj p, LStr buffer, LNum off, LNum len]) s in
      hb_parser t = q \<and> rt_calls t = rt_calls s @ concat (map (told s) log) \<and> hb_aborted t = hb_aborted s)"
proof -
  let ?data = "bytes_at mem buffer off (size_t len)"
  let ?s = "s\<lparr>rt_stack := [LObj p, LStr buffer, LNum off, LNum len], hb_got_exception := False\<rparr>"
  have nn: "never_nil ans ?s" using assms(1) by (simp add: never_nil_def answered_def)
  have sk: "skips ans ?s = skips ans s" by (simp add: skips_def answered_def fun_eq_iff split: lval.splits)
  have told: "told ?s = told s" by (rule told_cong) simp_all
  obtain r q' e where e: "http_parser_execute (s_settings (answers ans)) ?data (hb_parser s) ?s = (r, q', e)"
    by (rule prod_cases3)
  have "same_run_result (heard ?s) (r, q', e) (Returned n, q, log)"
    using client_simulation.execute [OF binding_simulation [OF nn], of ?s "[]" ?data "hb_parser s"] assms(2) e
    by (simp add: sk heard_def)
  then have r: "r = Returned n" "q' = q" "heard ?s e log" by (simp_all add: same_run_result_def)
  have h: "rt_env e = rt_env s" "hb_got_exception e = False" "hb_aborted e = hb_aborted s"
    "rt_calls e = rt_calls s @ concat (map (told s) log)"
    using r(3) by (simp_all add: heard_def told)
  show ?thesis
    by (simp add: thunk_methods_def Execute_def lua_prim_defs as_string_def as_integer_def run_parser_run e r(1,2) h exec_if result_if Let_def)
qed

text \<open>
  C10: When the offset and the length lie inside the string and the callbacks answer no nil,
  \<^verbatim>\<open>execute\<close> tells Lua exactly what the C parser reports on that part of the string, in that
  order, and answers the number of bytes parsed, or nil and a message when the parser stopped
  early without an upgrade.
\<close>
theorem execute_tells_lua:
  assumes "never_nil ans s" and "0 \<le> off" and "0 \<le> len" and "off + len \<le> int (length buffer)"
    and "int (length buffer) < 2 ^ 64"
    and "http_parser_execute (recorder (skips ans s)) (take (nat len) (drop (nat off) buffer)) (hb_parser s) [] =
      (Returned n, q, log)"
  shows "result (thunk_methods (Execute (answers ans) mem) [LObj p, LStr buffer, LNum off, LNum len]) s =
      Inr (if \<not> hp_upgrade q \<and> n \<noteq> nat len
        then [LNil, LStr (''Parse error. '' @ le_num2str (rt_env s) (c_int (int n)) @ '' bytes parsed'')]
        else [LNum (int n)]) \<and>
    (let t = exec (thunk_methods (Execute (answers ans) mem) [LObj p, LStr buffer, LNum off, LNum len]) s in
      hb_parser t = q \<and> rt_calls t = rt_calls s @ concat (map (told s) log) \<and> hb_aborted t = hb_aborted s)"
proof -
  have sz: "size_t len = nat len" using assms(2-5) by (intro size_t_id) simp_all
  have d: "bytes_at mem buffer off (size_t len) = take (nat len) (drop (nat off) buffer)"
    unfolding sz using assms(2-4) by (intro bytes_inside) simp_all
  have "http_parser_execute (recorder (skips ans s)) (bytes_at mem buffer off (size_t len)) (hb_parser s) [] =
      (Returned n, q, log)"
    using assms(6) by (simp only: d)
  from execute_run [OF assms(1) this] show ?thesis unfolding sz .
qed

theorem execute_tells_lua_witness:
  "result (thunk_methods (Execute (answers (\<lambda>_ _. [LBool False])) (\<lambda>_. NUL)) [LObj 7, LStr ''xGx'', LNum 1, LNum 1])
     (sample_parser (http_parser_init HTTP_REQUEST)) = Inr [LNum 1] \<and>
   rt_calls (exec (thunk_methods (Execute (answers (\<lambda>_ _. [LBool False])) (\<lambda>_. NUL)) [LObj 7, LStr ''xGx'', LNum 1, LNum 1])
     (sample_parser (http_parser_init HTTP_REQUEST))) = [(LFun 1, [LObj 7])]"
proof -
  let ?s = "sample_parser (http_parser_init HTTP_REQUEST)"
  obtain q where q: "http_parser_execute (recorder (skips (\<lambda>_ _. [LBool False]) ?s)) ''G'' (http_parser_init HTTP_REQUEST) [] =
      (Returned 1, q, [Noted Message_Begin])" "\<not> hp_upgrade q"
    using first_byte(1) by blast
  have "http_parser_execute (recorder (skips (\<lambda>_ _. [LBool False]) ?s)) (take (nat 1) (drop (nat 1) ''xGx'')) (hb_parser ?s) [] =
      (Returned 1, q, [Noted Message_Begin])"
    using q(1) by (simp add: sample_parser_def)
  moreover have "never_nil (\<lambda>_ _. [LBool False]) ?s" by (simp add: never_nil_def answered_def none_or_nil_def)
  moreover have "told ?s (Noted Message_Begin) = [(LFun 1, [LObj 7])]"
    by (simp add: sample_parser_def field_fun_def browser_def)
  moreover have "rt_calls ?s = []" by (simp add: sample_parser_def)
  ultimately show ?thesis
    using execute_tells_lua [of "\<lambda>_ _. [LBool False]" ?s 1 1 "''xGx''" 1 q "[Noted Message_Begin]" "\<lambda>_. NUL" 7]
    by (simp add: Let_def)
qed

text \<open>
  With an offset and a length that lie inside the string \<^verbatim>\<open>execute\<close> reads nothing else: what
  it does depends on no byte before or behind the string, whatever the callbacks do.
\<close>
theorem execute_reads_inside:
  assumes "as_string (rt_env s) (stack_at (rt_stack s) 2) = Some buffer"
    and "as_integer (rt_env s) (stack_at (rt_stack s) 3) = Some off"
    and "as_integer (rt_env s) (stack_at (rt_stack s) 4) = Some len"
    and "0 \<le> off" and "0 \<le> len" and "off + len \<le> int (length buffer)" and "int (length buffer) < 2 ^ 64"
  shows "run_state (Execute lua mem) s = run_state (Execute lua mem') s"
proof -
  have "bytes_at mem buffer off (size_t len) = bytes_at mem' buffer off (size_t len)"
    using assms(4-7) by (simp add: size_t_id bytes_inside)
  with assms(1-3) show ?thesis
    by (simp add: Execute_def lua_prim_defs State_Monad.bind_def)
qed

theorem execute_reads_inside_witness:
  "run_state (Execute (answers (\<lambda>_ _. [])) (\<lambda>_. NUL))
     ((sample_parser (http_parser_init HTTP_REQUEST))\<lparr>rt_stack := [LObj 7, LStr ''GET /'', LNum 4, LNum 1]\<rparr>) =
   run_state (Execute (answers (\<lambda>_ _. [])) (\<lambda>_. CR))
     ((sample_parser (http_parser_init HTTP_REQUEST))\<lparr>rt_stack := [LObj 7, LStr ''GET /'', LNum 4, LNum 1]\<rparr>)"
  by (rule execute_reads_inside [of _ "''GET /''" 4 1]) (simp_all add: as_string_def as_integer_def)

text \<open>
  \<^verbatim>\<open>execute\<close> does not check the offset: for every offset before the string or behind its
  terminator the answer depends on bytes that are not the caller's.
\<close>
theorem execute_reads_outside:
  assumes "off < 0 \<or> int (length buffer) < off" and "hb_parser s = http_parser_init HTTP_REQUEST"
  shows "\<exists>mem mem'. result (thunk_methods (Execute (answers (\<lambda>_ _. [LBool False])) mem) [LObj p, LStr buffer, LNum off, LNum 1]) s \<noteq>
     result (thunk_methods (Execute (answers (\<lambda>_ _. [LBool False])) mem') [LObj p, LStr buffer, LNum off, LNum 1]) s"
proof -
  let ?run = "\<lambda>c. result (thunk_methods (Execute (answers (\<lambda>_ _. [LBool False])) (\<lambda>_. c)) [LObj p, LStr buffer, LNum off, LNum 1]) s"
  have sz: "size_t 1 = 1" by (simp add: size_t_def)
  have d: "bytes_at (\<lambda>_. c) buffer off 1 = [c]" for c
    using assms(1) by (auto simp: bytes_at_def byte_at_def)
  have nn: "never_nil (\<lambda>_ _. [LBool False]) s" by (simp add: never_nil_def answered_def none_or_nil_def)
  note run = execute_run [OF nn, where off = off and len = 1 and buffer = buffer and p = p and mem = "\<lambda>_. c" for c, unfolded sz d assms(2)]
  have "?run CHR ''G'' = Inr [LNum 1]"
    using first_byte(1) run [of "CHR ''G''"] by force
  moreover have "\<exists>msg. ?run CHR ''!'' = Inr [LNil, LStr msg]"
    using first_byte(2) run [of "CHR ''!''"] by force
  ultimately have "?run CHR ''G'' \<noteq> ?run CHR ''!''" by auto
  then show ?thesis by blast
qed

theorem execute_reads_outside_witness:
  "\<exists>mem mem'. result (thunk_methods (Execute (answers (\<lambda>_ _. [LBool False])) mem) [LObj 7, LStr ''GET'', LNum (- 1), LNum 1])
       (sample_parser (http_parser_init HTTP_REQUEST)) \<noteq>
     result (thunk_methods (Execute (answers (\<lambda>_ _. [LBool False])) mem') [LObj 7, LStr ''GET'', LNum (- 1), LNum 1])
       (sample_parser (http_parser_init HTTP_REQUEST))"
  by (rule execute_reads_outside) (simp_all add: sample_parser_def)

text \<open>
  An \<^verbatim>\<open>onHeadersComplete\<close> that returns nothing makes the parser skip the body: the callback
  finds the object itself on top of the stack, which is neither nil nor false, and answers 1.
\<close>
theorem headers_complete_without_results:
  assumes "rt_objs s (hb_this s) ''onHeadersComplete'' = LFun f"
    and "ans (LFun f) [LObj (hb_this s), message_info (hb_parser s)] = []"
  shows "result (lua_headers_complete (answers ans)) s = 1 \<and>
    hb_got_exception (exec (lua_headers_complete (answers ans)) s) = hb_got_exception s"
  using assms by (simp add: headers_run answered_def none_or_nil_def to_boolean_def)

theorem headers_complete_without_results_witness:
  "result (lua_headers_complete (answers (\<lambda>_ _. []))) (sample_parser (http_parser_init HTTP_REQUEST)) = 1 \<and>
    hb_got_exception (exec (lua_headers_complete (answers (\<lambda>_ _. []))) (sample_parser (http_parser_init HTTP_REQUEST))) =
      hb_got_exception (sample_parser (http_parser_init HTTP_REQUEST))"
  by (rule headers_complete_without_results [where f = 1]) (simp_all add: sample_parser_def browser_def)

text \<open>
  With such an answer the body of a request is read as the next request line.
\<close>
theorem body_read_as_request:
  "case http_parser_execute (recorder (\<lambda>_. True)) (''POST / HTTP/1.1'' @ [CR, LF] @ ''Content-Length: 4'' @ [CR, LF, CR, LF] @ ''abcd'')
     (http_parser_init HTTP_REQUEST) [] of (r, q, log) \<Rightarrow> r = Returned 38 \<and> hp_errno q = HPE_INVALID_METHOD \<and>
     Piece Body ''abcd'' \<notin> set log"
  by code_simp

text \<open>
  Once the parser has stopped at an error every further \<^verbatim>\<open>execute\<close> answers nil and a message
  about 0 bytes, and calls nothing.
\<close>
theorem failed_parser_refuses:
  assumes "hp_errno (hb_parser s) \<noteq> HPE_OK" and "\<not> hp_upgrade (hb_parser s)"
    and "size_t len \<noteq> 0"
  shows "result (thunk_methods (Execute lua mem) [LObj p, LStr buffer, LNum off, LNum len]) s =
      Inr [LNil, LStr (''Parse error. '' @ le_num2str (rt_env s) 0 @ '' bytes parsed'')] \<and>
    exec (thunk_methods (Execute lua mem) [LObj p, LStr buffer, LNum off, LNum len]) s = s\<lparr>hb_got_exception := False\<rparr>"
proof -
  have x: "http_parser_execute se d (hb_parser s) e = (Returned 0, hb_parser s, e)" for se :: "http_binding http_parser_settings" and d e
    using assms(1) by (simp add: http_parser_execute_def)
  show ?thesis
    using assms(2,3)
    by (simp add: thunk_methods_def Execute_def lua_prim_defs as_string_def as_integer_def run_parser_run x exec_if result_if Let_def c_int_def)
qed

theorem failed_parser_refuses_witness:
  "result (thunk_methods (Execute (answers (\<lambda>_ _. [])) (\<lambda>_. NUL)) [LObj 7, LStr ''GET'', LNum 0, LNum 3])
     (sample_parser ((http_parser_init HTTP_REQUEST)\<lparr>hp_errno := HPE_CB_url\<rparr>)) =
     Inr [LNil, LStr (''Parse error. '' @ le_num2str sample_env 0 @ '' bytes parsed'')]"
  using failed_parser_refuses [of "sample_parser ((http_parser_init HTTP_REQUEST)\<lparr>hp_errno := HPE_CB_url\<rparr>)" 3
    "answers (\<lambda>_ _. [])" "\<lambda>_. NUL" 7 "''GET''" 0]
  by (simp add: sample_parser_def http_parser_init_def size_t_def)

text \<open>
  The name Lua is given for a method is the name the parser has for it, except for SEARCH,
  which is unknown, and UNSUBSCRIBE, which is misspelt.
\<close>
theorem method_to_str_names:
  "method_to_str m = http_method_str m \<longleftrightarrow> m \<noteq> HTTP_SEARCH \<and> m \<noteq> HTTP_UNSUBSCRIBE"
  by (cases m) (simp_all add: method_to_str_def http_method_str_def)

text \<open>
  A constructor with a bad argument raises an error after it has counted the object, so the
  count is one too high from then on.
\<close>
theorem parser_count_leaks:
  assumes "as_string (rt_env s) (stack_at (rt_stack s) 1) \<notin> {Some ''request'', Some ''response''}"
  shows "result Parser_ctor s = Inl (Arg_Error 1) \<and> hb_count (exec Parser_ctor s) = hb_count s + 1"
  using assms by (auto simp: Parser_ctor_def choose_type_def lua_prim_defs exec_case_sum Let_def split: option.splits)

theorem parser_count_leaks_witness:
  "result Parser_ctor (sample_parser (http_parser_init HTTP_REQUEST)) = Inl (Arg_Error 1) \<and>
    hb_count (exec Parser_ctor (sample_parser (http_parser_init HTTP_REQUEST))) =
      hb_count (sample_parser (http_parser_init HTTP_REQUEST)) + 1"
  by (rule parser_count_leaks) (simp add: sample_parser_def as_string_def)

end
