(* ===== verification/Http_Url.thy ===== *)
theory Http_Url
  imports Http_Wellformed
begin

section \<open>URLs (\<^verbatim>\<open>http_parser_parse_url\<close> in \<^verbatim>\<open>deps/http-parser/http_parser.c\<close>)\<close>

text \<open>
  The second client of the URL machine \<open>parse_url_char\<close>: it runs over a whole URL and notes
  where each part lies, then \<open>http_parse_host\<close> runs over the part between the schema and the
  path and splits it again.  Offsets and lengths are 16 bits wide and wrap.

  The code has a pointer and a length, and follows the pointer.  Here \<open>buf\<close> is the readable
  memory from that pointer on, of which the first \<open>buflen\<close> bytes are the URL; a read behind the
  end of \<open>buf\<close> is a result of its own (\<open>Reads_Outside\<close>).  The struct the caller passes is an
  argument: the code clears two of its members and leaves the rest as it was.
\<close>

subsection \<open>The struct\<close>

datatype url_field =
  UF_SCHEMA | UF_HOST | UF_PORT | UF_PATH | UF_QUERY | UF_FRAGMENT | UF_USERINFO

record http_parser_url =
  u_field_set :: "url_field set"
  u_port :: "16 word"
  u_off :: "url_field \<Rightarrow> 16 word"
  u_len :: "url_field \<Rightarrow> 16 word"

datatype url_end = Url_Invalid | Assertion_Fails | Reads_Outside

type_synonym url_result = "(url_end \<times> http_parser_url) + http_parser_url"

definition next_char :: "url_field \<Rightarrow> http_parser_url \<Rightarrow> http_parser_url" where
  "next_char f u = u\<lparr>u_len := (u_len u)(f := u_len u f + 1)\<rparr>"

definition first_char :: "url_field \<Rightarrow> nat \<Rightarrow> http_parser_url \<Rightarrow> http_parser_url" where
  "first_char f p u = u\<lparr>u_field_set := insert f (u_field_set u),
     u_off := (u_off u)(f := of_nat p), u_len := (u_len u)(f := 1)\<rparr>"

subsection \<open>The parts of a URL\<close>

datatype url_kind = Dead | Delimiter | Part url_field | Unexpected

fun url_case :: "pstate \<Rightarrow> url_kind" where
  "url_case s_dead = Dead"
| "url_case s_req_schema_slash = Delimiter"
| "url_case s_req_schema_slash_slash = Delimiter"
| "url_case s_req_server_start = Delimiter"
| "url_case s_req_query_string_start = Delimiter"
| "url_case s_req_fragment_start = Delimiter"
| "url_case s_req_schema = Part UF_SCHEMA"
| "url_case s_req_server_with_at = Part UF_HOST"
| "url_case s_req_server = Part UF_HOST"
| "url_case s_req_path = Part UF_PATH"
| "url_case s_req_query_string = Part UF_QUERY"
| "url_case s_req_fragment = Part UF_FRAGMENT"
| "url_case _ = Unexpected"

text \<open>The loop over the bytes, with the position, \<^verbatim>\<open>s\<close>, \<^verbatim>\<open>old_uf\<close> and \<^verbatim>\<open>found_at\<close>.\<close>

fun url_loop :: "string \<Rightarrow> nat \<Rightarrow> pstate \<Rightarrow> url_field option \<Rightarrow> bool \<Rightarrow> http_parser_url \<Rightarrow>
    (url_end \<times> http_parser_url) + (bool \<times> http_parser_url)" where
  "url_loop [] p s old_uf found_at u = Inr (found_at, u)"
| "url_loop (ch # cs) p s old_uf found_at u =
    (let s = parse_url_char s ch; found_at = (found_at \<or> s = s_req_server_with_at) in
     case url_case s of
       Dead \<Rightarrow> Inl (Url_Invalid, u)
     | Unexpected \<Rightarrow> Inl (Assertion_Fails, u)
     | Delimiter \<Rightarrow> url_loop cs (Suc p) s old_uf found_at u
     | Part uf \<Rightarrow>
         (if old_uf = Some uf then url_loop cs (Suc p) s old_uf found_at (next_char uf u)
          else url_loop cs (Suc p) s (Some uf) found_at (first_char uf p u)))"

subsection \<open>The parts of the server\<close>

datatype http_host_state =
    s_http_host_dead | s_http_userinfo_start | s_http_userinfo | s_http_host_start
  | s_http_host_v6_start | s_http_host | s_http_host_v6 | s_http_host_v6_end
  | s_http_host_port_start | s_http_host_port

definition http_parse_host_char :: "http_host_state \<Rightarrow> char \<Rightarrow> http_host_state" where
  "http_parse_host_char s ch =
     (if s = s_http_userinfo \<or> s = s_http_userinfo_start then
        (if ch = CHR ''@'' then s_http_host_start
         else if IS_USERINFO_CHAR ch then s_http_userinfo else s_http_host_dead)
      else if s = s_http_host_start then
        (if ch = CHR ''['' then s_http_host_v6_start
         else if IS_HOST_CHAR ch then s_http_host else s_http_host_dead)
      else if s = s_http_host \<and> IS_HOST_CHAR ch then s_http_host
      else if s = s_http_host \<or> s = s_http_host_v6_end then
        (if ch = CHR '':'' then s_http_host_port_start else s_http_host_dead)
      else if s = s_http_host_v6 \<and> ch = CHR '']'' then s_http_host_v6_end
      else if s = s_http_host_v6 \<or> s = s_http_host_v6_start then
        (if IS_HEX ch \<or> ch = CHR '':'' \<or> ch = CHR ''.'' then s_http_host_v6 else s_http_host_dead)
      else if s = s_http_host_port \<or> s = s_http_host_port_start then
        (if IS_NUM ch then s_http_host_port else s_http_host_dead)
      else s_http_host_dead)"

definition host_char :: "http_host_state \<Rightarrow> http_host_state \<Rightarrow> nat \<Rightarrow> http_parser_url \<Rightarrow> http_parser_url" where
  "host_char s new_s p u =
     (if new_s = s_http_host \<or> new_s = s_http_host_v6 then
        next_char UF_HOST (if s \<noteq> new_s then u\<lparr>u_off := (u_off u)(UF_HOST := of_nat p)\<rparr> else u)
      else if new_s = s_http_host_port then
        (if s \<noteq> new_s then first_char UF_PORT p u else next_char UF_PORT u)
      else if new_s = s_http_userinfo then
        (if s \<noteq> new_s then first_char UF_USERINFO p u else next_char UF_USERINFO u)
      else u)"

definition host_open :: "http_host_state \<Rightarrow> bool" where
  "host_open s = (s \<in> {s_http_host_start, s_http_host_v6_start, s_http_host_v6,
     s_http_host_port_start, s_http_userinfo, s_http_userinfo_start})"

text \<open>\<open>n\<close> is the number of bytes from \<open>p\<close> to the end of the part.\<close>

fun host_loop :: "string \<Rightarrow> nat \<Rightarrow> nat \<Rightarrow> http_host_state \<Rightarrow> http_parser_url \<Rightarrow> url_result" where
  "host_loop buf p 0 s u = (if host_open s then Inl (Url_Invalid, u) else Inr u)"
| "host_loop buf p (Suc n) s u =
     (if length buf \<le> p then Inl (Reads_Outside, u)
      else let new_s = http_parse_host_char s (buf ! p) in
        if new_s = s_http_host_dead then Inl (Url_Invalid, u)
        else host_loop buf (Suc p) n new_s (host_char s new_s p u))"

definition http_parse_host :: "string \<Rightarrow> http_parser_url \<Rightarrow> bool \<Rightarrow> url_result" where
  "http_parse_host buf u found_at =
     host_loop buf (unat (u_off u UF_HOST)) (unat (u_len u UF_HOST))
       (if found_at then s_http_userinfo_start else s_http_host_start)
       (u\<lparr>u_len := (u_len u)(UF_HOST := 0)\<rparr>)"

subsection \<open>The port\<close>

text \<open>
  \<^verbatim>\<open>strtoul\<close> with base 10: blanks, a sign, digits; too large a value is \<^verbatim>\<open>ULONG_MAX\<close>.  It stops
  at the first byte that is no digit, and reads that byte: \<open>None\<close> when the memory ends first.
\<close>

fun strtoul_digits :: "int \<Rightarrow> string \<Rightarrow> int option" where
  "strtoul_digits n [] = None"
| "strtoul_digits n (c # cs) = (if IS_NUM c then strtoul_digits (n * 10 + int (digit c)) cs else Some n)"

definition isspace :: "char \<Rightarrow> bool" where
  "isspace c = (c = CHR '' '' \<or> 9 \<le> ord c \<and> ord c \<le> 13)"

definition strtoul :: "string \<Rightarrow> int option" where
  "strtoul cs =
     (let cs = dropWhile isspace cs;
          minus = (cs \<noteq> [] \<and> hd cs = CHR ''-'');
          cs = (if minus \<or> cs \<noteq> [] \<and> hd cs = CHR ''+'' then tl cs else cs)
      in map_option (\<lambda>n. if 2 ^ 64 \<le> n then 2 ^ 64 - 1 else if minus then - n mod 2 ^ 64 else n)
           (strtoul_digits 0 cs))"

definition url_port :: "string \<Rightarrow> http_parser_url \<Rightarrow> url_result" where
  "url_port buf u =
     (if UF_PORT \<in> u_field_set u then
        (case strtoul (drop (unat (u_off u UF_PORT)) buf) of
           None \<Rightarrow> Inl (Reads_Outside, u)
         | Some v \<Rightarrow> if 0xffff < v then Inl (Url_Invalid, u) else Inr (u\<lparr>u_port := of_int v\<rparr>))
      else Inr u)"

definition http_parser_parse_url ::
    "string \<Rightarrow> nat \<Rightarrow> bool \<Rightarrow> http_parser_url \<Rightarrow> url_result" where
  "http_parser_parse_url buf buflen is_connect u =
     (case url_loop (take buflen buf) 0
             (if is_connect then s_req_server_start else s_req_spaces_before_url) None False
             (u\<lparr>u_port := 0, u_field_set := {}\<rparr>) of
        Inl e \<Rightarrow> Inl e
      | Inr (found_at, u) \<Rightarrow>
          (case (if UF_SCHEMA \<in> u_field_set u \<or> UF_HOST \<in> u_field_set u
                 then http_parse_host buf u found_at else Inr u) of
             Inl e \<Rightarrow> Inl e
           | Inr u \<Rightarrow>
               (if is_connect \<and> u_field_set u \<noteq> {UF_HOST, UF_PORT} then Inl (Url_Invalid, u)
                else url_port buf u)))"

subsection \<open>Every part lies in the URL\<close>

definition inside :: "nat \<Rightarrow> http_parser_url \<Rightarrow> url_field \<Rightarrow> bool" where
  "inside p u f = (0 < unat (u_len u f) \<and> unat (u_off u f) + unat (u_len u f) \<le> p)"

definition url_inv :: "nat \<Rightarrow> url_field option \<Rightarrow> http_parser_url \<Rightarrow> bool" where
  "url_inv p old_uf u \<longleftrightarrow> (\<forall>f\<in>u_field_set u. inside p u f) \<and> set_option old_uf \<subseteq> u_field_set u \<and>
     UF_PORT \<notin> u_field_set u \<and> UF_USERINFO \<notin> u_field_set u \<and>
     (UF_HOST \<notin> u_field_set u \<longrightarrow> u_len u UF_HOST = 0)"

lemma inside_mono: "inside p u f \<Longrightarrow> p \<le> q \<Longrightarrow> inside q u f"
  by (simp add: inside_def)

lemma unat_add_one: "unat w < 65535 \<Longrightarrow> unat ((w :: 16 word) + 1) = Suc (unat w)"
  using unat_word_ariths(1) [of w 1] by simp

lemma unat_position: "p < 65536 \<Longrightarrow> unat (of_nat p :: 16 word) = p"
  by (simp add: unat_of_nat take_bit_nat_eq_self)

lemma inside_next_char:
  assumes "inside p u f" and "p < 65535"
  shows "inside (Suc p) (next_char g u) f"
  using assms by (auto simp: inside_def next_char_def unat_add_one)

lemma inside_first_char:
  assumes "f \<noteq> g \<longrightarrow> inside p u f" and "p < 65535"
  shows "inside (Suc p) (first_char g p u) f"
  using assms by (auto simp: inside_def first_char_def unat_position)

lemma url_kind_of_char: "url_case (parse_url_char s c) \<in> {Dead, Delimiter} \<union>
    Part ` {UF_SCHEMA, UF_HOST, UF_PATH, UF_QUERY, UF_FRAGMENT}"
  using parse_url_char_cases [of s c] by (auto simp: url_states_def)

lemma url_inv_char:
  assumes "url_inv p old_uf u" and "p < 65535" and "url_case (parse_url_char s c) = Part f"
  shows "url_inv (Suc p) (Some f) (if old_uf = Some f then next_char f u else first_char f p u)"
proof -
  have f: "f \<noteq> UF_PORT" "f \<noteq> UF_USERINFO" using url_kind_of_char [of s c] assms(3) by auto
  show ?thesis
  proof (cases "old_uf = Some f")
    case True
    then show ?thesis
      using assms(1,2) f by (auto simp: url_inv_def next_char_def [of f u, THEN arg_cong [where f = u_field_set]]
          intro: inside_next_char) (auto simp: next_char_def)
  next
    case False
    then show ?thesis
      using assms(1,2) f by (auto simp: url_inv_def intro!: inside_first_char) (auto simp: first_char_def)
  qed
qed

lemma url_loop_inv:
  assumes "url_inv p old_uf u" and "p + length cs < 65536"
  shows "case url_loop cs p s old_uf at u of
      Inl (e, _) \<Rightarrow> e = Url_Invalid
    | Inr (_, u') \<Rightarrow> \<exists>old. url_inv (p + length cs) old u'"
  using assms
proof (induction cs arbitrary: p s old_uf at u)
  case (Cons c cs)
  let ?s = "parse_url_char s c" and ?at = "at \<or> parse_url_char s c = s_req_server_with_at"
  have skip: "url_inv (Suc p) old_uf u"
    using Cons.prems(1) by (auto simp: url_inv_def intro: inside_mono)
  show ?case
  proof (cases "url_case ?s")
    case Dead
    then show ?thesis by (simp add: Let_def)
  next
    case Delimiter
    then show ?thesis using Cons.IH [OF skip, of ?s ?at] Cons.prems(2)
      by (auto simp: Let_def split: sum.splits)
  next
    case (Part f)
    have "url_inv (Suc p) (Some f) (if old_uf = Some f then next_char f u else first_char f p u)"
      by (rule url_inv_char [OF Cons.prems(1) _ Part]) (use Cons.prems(2) in simp)
    from Cons.IH [OF this, of ?s ?at] Cons.prems(2) Part show ?thesis
      by (auto simp: Let_def split: if_splits sum.splits)
  next
    case Unexpected
    then show ?thesis using url_kind_of_char [of s c] by auto
  qed
qed auto

text \<open>The parts of the server end before \<open>p\<close>, the others before \<open>e\<close>.\<close>

definition found :: "nat \<Rightarrow> nat \<Rightarrow> http_parser_url \<Rightarrow> bool" where
  "found e p u \<longleftrightarrow> (\<forall>f\<in>u_field_set u. f \<noteq> UF_HOST \<longrightarrow>
     inside (if f = UF_PORT \<or> f = UF_USERINFO then p else e) u f)"

definition host_inv :: "nat \<Rightarrow> http_host_state \<Rightarrow> nat \<Rightarrow> http_parser_url \<Rightarrow> bool" where
  "host_inv e s p u \<longleftrightarrow> found e p u \<and>
     unat (u_off u UF_HOST) + unat (u_len u UF_HOST) \<le> p \<and>
     (u_len u UF_HOST = 0 \<longleftrightarrow>
        s \<in> {s_http_userinfo_start, s_http_userinfo, s_http_host_start, s_http_host_v6_start}) \<and>
     (s = s_http_userinfo \<longrightarrow> UF_USERINFO \<in> u_field_set u) \<and>
     (s = s_http_host_port \<longrightarrow> UF_PORT \<in> u_field_set u)"

lemma next_char_simps [simp]:
  "u_field_set (next_char f u) = u_field_set u" "u_off (next_char f u) = u_off u"
  "u_len (next_char f u) g = (if g = f then u_len u f + 1 else u_len u g)"
  by (simp_all add: next_char_def)

lemma first_char_simps [simp]:
  "u_field_set (first_char f p u) = insert f (u_field_set u)"
  "u_off (first_char f p u) g = (if g = f then of_nat p else u_off u g)"
  "u_len (first_char f p u) g = (if g = f then 1 else u_len u g)"
  by (simp_all add: first_char_def)

lemma len_pos: "(w :: 16 word) \<noteq> 0 \<longleftrightarrow> 0 < unat w"
  by (simp add: unat_gt_0)

lemma found_char:
  assumes "host_inv e s p u" and "p < 65535"
  shows "found e (Suc p) (host_char s new_s p u)"
proof -
  let ?q = "\<lambda>g. if g = UF_PORT \<or> g = UF_USERINFO then Suc p else e"
  have old: "inside (?q g) u g" "inside (?q g) (u\<lparr>u_off := (u_off u)(UF_HOST := w)\<rparr>) g"
    if "g \<in> u_field_set u" "g \<noteq> UF_HOST" for g w
  proof -
    have "inside (if g = UF_PORT \<or> g = UF_USERINFO then p else e) u g"
      using assms(1) that by (simp add: host_inv_def found_def)
    then show "inside (?q g) u g" "inside (?q g) (u\<lparr>u_off := (u_off u)(UF_HOST := w)\<rparr>) g"
      using that(2) by (auto simp: inside_def split: if_splits)
  qed
  have port: "inside p u UF_PORT" if "s = s_http_host_port"
    using assms(1) that by (auto simp: host_inv_def found_def)
  have user: "inside p u UF_USERINFO" if "s = s_http_userinfo"
    using assms(1) that by (auto simp: host_inv_def found_def)
  have other: "inside m (next_char g u) f \<longleftrightarrow> inside m u f" "inside m (first_char g q u) f \<longleftrightarrow> inside m u f"
    if "f \<noteq> g" for m f g q u using that by (simp_all add: inside_def)
  show ?thesis
    unfolding found_def
  proof (intro ballI impI)
    fix f assume f: "f \<in> u_field_set (host_char s new_s p u)" "f \<noteq> UF_HOST"
    show "inside (?q f) (host_char s new_s p u) f"
    proof (cases "f = UF_PORT \<and> new_s = s_http_host_port \<or> f = UF_USERINFO \<and> new_s = s_http_userinfo")
      case True
      then show ?thesis
        using assms(2) port user by (auto simp: host_char_def intro!: inside_next_char inside_first_char)
    next
      case False
      with f have "f \<in> u_field_set u" by (auto simp: host_char_def split: if_splits)
      with old [OF this f(2)] f False show ?thesis by (auto simp: host_char_def other split: if_splits)
    qed
  qed
qed

lemma host_inv_char:
  assumes "host_inv e s p u" and "p < 65535" and "http_parse_host_char s c \<noteq> s_http_host_dead"
  shows "host_inv e (http_parse_host_char s c) (Suc p) (host_char s (http_parse_host_char s c) p u)"
proof -
  let ?s = "http_parse_host_char s c" let ?u = "host_char s ?s p u"
  have wrap: "w + 1 \<noteq> 0" "unat (w + 1) = Suc (unat w)" if "unat (w :: 16 word) < 65535" for w
    using unat_add_one [OF that] by auto
  have bound: "unat (u_off u UF_HOST) + unat (u_len u UF_HOST) \<le> p"
    and len: "u_len u UF_HOST = 0 \<longleftrightarrow>
        s \<in> {s_http_userinfo_start, s_http_userinfo, s_http_host_start, s_http_host_v6_start}"
    using assms(1) by (simp_all add: host_inv_def)
  have w: "u_len u UF_HOST + 1 \<noteq> 0" "unat (u_len u UF_HOST + 1) = Suc (unat (u_len u UF_HOST))"
    using wrap [of "u_len u UF_HOST"] bound assms(2) by simp_all
  have rest: "unat (u_off ?u UF_HOST) + unat (u_len ?u UF_HOST) \<le> Suc p \<and>
      (u_len ?u UF_HOST = 0 \<longleftrightarrow>
        ?s \<in> {s_http_userinfo_start, s_http_userinfo, s_http_host_start, s_http_host_v6_start}) \<and>
      (?s = s_http_userinfo \<longrightarrow> UF_USERINFO \<in> u_field_set ?u) \<and>
      (?s = s_http_host_port \<longrightarrow> UF_PORT \<in> u_field_set ?u)"
    using assms(1,3) bound len assms(2)
    by (cases s) (auto simp: host_inv_def http_parse_host_char_def host_char_def unat_position w
        split: if_splits)
  show ?thesis
    unfolding host_inv_def using found_char [OF assms(1,2), of ?s] rest
    by (cases s) (auto simp: http_parse_host_char_def split: if_splits)
qed

lemma found_mono: "found e p u \<Longrightarrow> p \<le> e \<Longrightarrow> found e e u"
  unfolding found_def by (auto split: if_splits intro: inside_mono)

lemma host_loop_inv:
  assumes "host_inv e s p u" and "p + n \<le> e" and "e < 65536" and "e \<le> length buf"
  shows "case host_loop buf p n s u of
      Inl (r, _) \<Rightarrow> r = Url_Invalid
    | Inr u' \<Rightarrow> found e e u' \<and> u_len u' UF_HOST \<noteq> 0 \<and>
        unat (u_off u' UF_HOST) + unat (u_len u' UF_HOST) \<le> e"
  using assms
proof (induction n arbitrary: p s u)
  case 0
  then show ?case using found_mono [of e p u] by (auto simp: host_inv_def host_open_def)
next
  case (Suc n)
  let ?s = "http_parse_host_char s (buf ! p)"
  have "host_inv e ?s (Suc p) (host_char s ?s p u)" if "?s \<noteq> s_http_host_dead"
    by (rule host_inv_char [OF Suc.prems(1) _ that]) (use Suc.prems(2,3) in simp)
  from Suc.IH [OF this] Suc.prems show ?case
    by (cases "?s = s_http_host_dead") (auto simp: Let_def split: sum.splits)
qed

text \<open>\<^verbatim>\<open>strtoul\<close> returns when a byte that is no digit follows.\<close>

lemma strtoul_digits_stops: "\<exists>c\<in>set cs. \<not> IS_NUM c \<Longrightarrow> strtoul_digits n cs \<noteq> None"
  by (induction cs arbitrary: n) auto

lemma strtoul_stops: "strtoul (ds @ NUL # rest) \<noteq> None"
proof -
  have N: "\<not> isspace NUL" "\<not> IS_NUM NUL" "NUL \<noteq> CHR ''-''" "NUL \<noteq> CHR ''+''"
    by (simp_all add: NUL_def ord_def IS_NUM_def isspace_def)
  define cs where "cs = dropWhile isspace (ds @ NUL # rest)"
  have "NUL \<in> set cs" using N(1) by (auto simp: cs_def dropWhile_append)
  then have "NUL \<in> set (if cs \<noteq> [] \<and> hd cs = CHR ''-'' \<or> cs \<noteq> [] \<and> hd cs = CHR ''+'' then tl cs else cs)"
    using N(3,4) by (cases cs) auto
  then show ?thesis
    unfolding strtoul_def Let_def cs_def [symmetric]
    using strtoul_digits_stops N(2) by (metis (no_types, lifting) option.map_disc_iff)
qed

definition parts_inside :: "nat \<Rightarrow> url_result \<Rightarrow> bool" where
  "parts_inside e r = (case r of Inl (x, _) \<Rightarrow> x = Url_Invalid | Inr u \<Rightarrow> \<forall>f\<in>u_field_set u. inside e u f)"

lemma parts_inside_simps [simp]:
  "parts_inside e (Inl (x, u)) = (x = Url_Invalid)"
  "parts_inside e (Inr u) = (\<forall>f\<in>u_field_set u. inside e u f)"
  by (simp_all add: parts_inside_def)

lemma url_port_inside:
  assumes "\<forall>f\<in>u_field_set v. inside e v f" and "e \<le> length buf" and "NUL \<in> set (drop e buf)"
  shows "parts_inside e (url_port buf v)"
proof (cases "UF_PORT \<in> u_field_set v")
  case True
  let ?o = "unat (u_off v UF_PORT)"
  obtain ds rest where "drop e buf = ds @ NUL # rest"
    using assms(3) by (meson in_set_conv_decomp)
  moreover have "?o \<le> e" using assms(1) True by (auto simp: inside_def)
  ultimately have "drop ?o buf = (drop ?o (take e buf) @ ds) @ NUL # rest"
    by (metis append.assoc append_take_drop_id assms(2) drop_append diff_is_0_eq drop_0 length_take min_absorb2)
  then obtain n where "strtoul (drop ?o buf) = Some n"
    using strtoul_stops by (metis not_None_eq)
  with assms(1) True show ?thesis by (simp add: url_port_def inside_def)
qed (use assms(1) in \<open>simp add: url_port_def\<close>)

lemma http_parse_host_inside:
  assumes "url_inv e old v" and "e < 65536" and "e \<le> length buf"
  shows "parts_inside e (http_parse_host buf v at)"
proof (cases "UF_HOST \<in> u_field_set v")
  case True
  let ?o = "unat (u_off v UF_HOST)" and ?n = "unat (u_len v UF_HOST)"
  let ?h = "if at then s_http_userinfo_start else s_http_host_start"
  let ?v = "v\<lparr>u_len := (u_len v)(UF_HOST := 0)\<rparr>"
  have len: "?o + ?n \<le> e" using assms(1) True by (auto simp: url_inv_def inside_def)
  have "host_inv e ?h ?o ?v"
    using assms(1) by (auto simp: host_inv_def found_def url_inv_def inside_def)
  from host_loop_inv [OF this len assms(2,3)] show ?thesis
    by (auto simp: http_parse_host_def parts_inside_def found_def inside_def len_pos
        split: sum.splits if_splits)
next
  case False
  then show ?thesis
    using assms(1) by (auto simp: http_parse_host_def host_open_def url_inv_def fun_upd_idem)
qed

lemma parse_url_inside:
  assumes "buflen < 65536" and "buflen \<le> length buf" and "NUL \<in> set (drop buflen buf)"
    and "u_len u UF_HOST = 0"
  shows "parts_inside buflen (http_parser_parse_url buf buflen is_connect u)"
proof -
  let ?u = "u\<lparr>u_port := 0, u_field_set := {}\<rparr>"
  let ?s = "if is_connect then s_req_server_start else s_req_spaces_before_url"
  have start: "url_inv 0 None ?u" using assms(4) by (simp add: url_inv_def)
  note loop = url_loop_inv [OF start, of "take buflen buf" ?s False]
  show ?thesis
  proof (cases "url_loop (take buflen buf) 0 ?s None False ?u")
    case (Inl e)
    with loop assms(1,2) show ?thesis by (auto simp: http_parser_parse_url_def)
  next
    case (Inr r)
    obtain at v where r: "r = (at, v)" by (cases r)
    obtain old where v: "url_inv buflen old v" using loop assms(1,2) Inr r by auto
    define h where "h = (if UF_SCHEMA \<in> u_field_set v \<or> UF_HOST \<in> u_field_set v
      then http_parse_host buf v at else Inr v)"
    have h: "parts_inside buflen h"
      using http_parse_host_inside [OF v assms(1,2)] v by (simp add: h_def url_inv_def)
    have "http_parser_parse_url buf buflen is_connect u =
        (case h of Inl e \<Rightarrow> Inl e
         | Inr u \<Rightarrow> (if is_connect \<and> u_field_set u \<noteq> {UF_HOST, UF_PORT} then Inl (Url_Invalid, u)
                    else url_port buf u))"
      using Inr r by (simp add: http_parser_parse_url_def h_def)
    with h url_port_inside [OF _ assms(2,3)] show ?thesis by (cases h) auto
  qed
qed

text \<open>
  C15: A URL shorter than 64 KiB in a C string is parsed without reading outside the string,
  if the caller has cleared the length of the host: the call returns, no assertion fails, and
  when it succeeds every part it reports is not empty and lies in the URL.
\<close>
theorem parse_url_safe:
  assumes "buflen < 65536" and "buflen \<le> length buf" and "NUL \<in> set (drop buflen buf)"
    and "u_len u UF_HOST = 0"
  shows "case http_parser_parse_url buf buflen is_connect u of
      Inl (e, _) \<Rightarrow> e = Url_Invalid
    | Inr u' \<Rightarrow> \<forall>f\<in>u_field_set u'. 0 < unat (u_len u' f) \<and>
        unat (u_off u' f) + unat (u_len u' f) \<le> buflen"
  using parse_url_inside [OF assms, of is_connect]
  by (auto simp: parts_inside_def inside_def split: sum.splits)

subsection \<open>Parsing what was put together\<close>

record url_parts =
  up_schema :: string
  up_userinfo :: string
  up_host :: string
  up_port :: string
  up_path :: string
  up_query :: string
  up_fragment :: string

definition server_text :: "url_parts \<Rightarrow> string" where
  "server_text c = (if up_userinfo c = [] then [] else up_userinfo c @ ''@'') @ up_host c @
     (if up_port c = [] then [] else CHR '':'' # up_port c)"

definition tail_text :: "url_parts \<Rightarrow> string" where
  "tail_text c = (if up_query c = [] then [] else CHR ''?'' # up_query c) @
     (if up_fragment c = [] then [] else CHR ''#'' # up_fragment c)"

definition url_text :: "url_parts \<Rightarrow> string" where
  "url_text c = up_schema c @ ''://'' @ server_text c @ up_path c @ tail_text c"

definition url_parts_ok :: "url_parts \<Rightarrow> bool" where
  "url_parts_ok c \<longleftrightarrow>
     up_schema c \<noteq> [] \<and> (\<forall>x\<in>set (up_schema c). IS_ALPHA x) \<and>
     (\<forall>x\<in>set (up_userinfo c). IS_USERINFO_CHAR x) \<and>
     up_host c \<noteq> [] \<and> (\<forall>x\<in>set (up_host c). IS_HOST_CHAR x) \<and>
     (\<forall>x\<in>set (up_port c). IS_NUM x) \<and> decimal (up_port c) < 65536 \<and>
     up_path c \<noteq> [] \<and> hd (up_path c) = CHR ''/'' \<and> (\<forall>x\<in>set (up_path c). IS_URL_CHAR x) \<and>
     (\<forall>x\<in>set (up_query c). IS_URL_CHAR x) \<and> (\<forall>x\<in>set (up_fragment c). IS_URL_CHAR x)"

fun part :: "url_parts \<Rightarrow> url_field \<Rightarrow> string" where
  "part c UF_SCHEMA = up_schema c"
| "part c UF_USERINFO = up_userinfo c"
| "part c UF_HOST = up_host c"
| "part c UF_PORT = up_port c"
| "part c UF_PATH = up_path c"
| "part c UF_QUERY = up_query c"
| "part c UF_FRAGMENT = up_fragment c"

text \<open>What the struct says of a part, in the text of the URL.\<close>

definition url_part :: "string \<Rightarrow> http_parser_url \<Rightarrow> url_field \<Rightarrow> string" where
  "url_part buf u f = take (unat (u_len u f)) (drop (unat (u_off u f)) buf)"

definition put :: "url_field \<Rightarrow> nat \<Rightarrow> nat \<Rightarrow> http_parser_url \<Rightarrow> http_parser_url" where
  "put f p n u = u\<lparr>u_field_set := insert f (u_field_set u), u_off := (u_off u)(f := of_nat p),
     u_len := (u_len u)(f := of_nat n)\<rparr>"

lemma put_simps [simp]:
  "u_field_set (put f p n u) = insert f (u_field_set u)"
  "u_off (put f p n u) g = (if g = f then of_nat p else u_off u g)"
  "u_len (put f p n u) g = (if g = f then of_nat n else u_len u g)"
  "u_port (put f p n u) = u_port u"
  by (simp_all add: put_def)

lemma first_char_put: "first_char f p u = put f p 1 u"
  by (simp add: first_char_def put_def)

lemma next_char_put: "next_char f (put f p n u) = put f p (Suc n) u"
  by (simp add: next_char_def put_def algebra_simps)

subsubsection \<open>Characters\<close>

lemma url_blank_simps:
  "\<not> IS_URL_CHAR CHR '' ''" "\<not> IS_URL_CHAR CR" "\<not> IS_URL_CHAR LF" "\<not> IS_URL_CHAR TAB"
  "\<not> IS_URL_CHAR FF" "\<not> IS_URL_CHAR CHR ''?''" "\<not> IS_URL_CHAR CHR ''#''" "IS_URL_CHAR CHR ''/''"
  by code_simp+

lemma userinfo_blank_simps:
  "\<not> IS_USERINFO_CHAR CHR '' ''" "\<not> IS_USERINFO_CHAR CR" "\<not> IS_USERINFO_CHAR LF"
  "\<not> IS_USERINFO_CHAR TAB" "\<not> IS_USERINFO_CHAR FF" "\<not> IS_USERINFO_CHAR CHR ''?''"
  "\<not> IS_USERINFO_CHAR CHR ''/''" "\<not> IS_USERINFO_CHAR CHR ''@''"
  by code_simp+

lemma userinfo_char_intros:
  "IS_ALPHA c \<Longrightarrow> IS_USERINFO_CHAR c" "IS_NUM c \<Longrightarrow> IS_USERINFO_CHAR c"
  "IS_HOST_CHAR c \<Longrightarrow> IS_USERINFO_CHAR c" "IS_USERINFO_CHAR CHR '':''"
  by (auto simp: IS_USERINFO_CHAR_def IS_ALPHANUM_def IS_HOST_CHAR_def IS_MARK_def)

lemma not_blank:
  "IS_URL_CHAR c \<or> IS_USERINFO_CHAR c \<Longrightarrow>
     c \<noteq> CHR '' '' \<and> c \<noteq> CR \<and> c \<noteq> LF \<and> c \<noteq> TAB \<and> c \<noteq> FF"
  using url_blank_simps(1-5) userinfo_blank_simps(1-5) by (elim disjE) (intro conjI notI; simp)+

lemma server_char:
  assumes "IS_USERINFO_CHAR c" and "s \<in> {s_req_server_start, s_req_server, s_req_server_with_at}"
  shows "parse_url_char s c = s_req_server"
proof -
  have "c \<noteq> CHR ''/''" "c \<noteq> CHR ''?''" "c \<noteq> CHR ''@''"
    using assms(1) userinfo_blank_simps(6-8) by (intro notI; simp)+
  then have "parse_server_char c = s_req_server" using assms(1) by (simp add: parse_server_char_def)
  moreover have "c \<noteq> CHR '' '' \<and> c \<noteq> CR \<and> c \<noteq> LF \<and> c \<noteq> TAB \<and> c \<noteq> FF" using not_blank assms(1) by blast
  ultimately show ?thesis using assms(2) \<open>c \<noteq> CHR ''@''\<close>
    by (elim insertE emptyE) (simp_all add: parse_url_char_def)
qed

lemma schema_char:
  assumes "IS_ALPHA c" and "s \<in> {s_req_spaces_before_url, s_req_schema}"
  shows "parse_url_char s c = s_req_schema"
proof -
  have "\<not> IS_ALPHA CHR ''*''" "\<not> IS_ALPHA CHR ''/''" by code_simp+
  with assms(1) have "c \<noteq> CHR ''/''" "c \<noteq> CHR ''*''" by (intro notI; simp)+
  moreover have "c \<noteq> CHR '' '' \<and> c \<noteq> CR \<and> c \<noteq> LF \<and> c \<noteq> TAB \<and> c \<noteq> FF"
    using not_blank userinfo_char_intros(1) [OF assms(1)] by blast
  ultimately show ?thesis
    using assms by (elim insertE emptyE) (simp_all add: parse_url_char_def)
qed

lemma url_chars:
  assumes "IS_URL_CHAR c"
  shows "parse_url_char s_req_path c = s_req_path"
    and "parse_url_char s_req_query_string c = s_req_query_string"
    and "parse_url_char s_req_query_string_start c = s_req_query_string"
    and "parse_url_char s_req_fragment c = s_req_fragment"
    and "parse_url_char s_req_fragment_start c = s_req_fragment"
  using assms not_blank [of c] by (simp_all add: parse_url_char_def)

lemma delimiters:
  "parse_url_char s_req_schema CHR '':'' = s_req_schema_slash"
  "parse_url_char s_req_schema_slash CHR ''/'' = s_req_schema_slash_slash"
  "parse_url_char s_req_schema_slash_slash CHR ''/'' = s_req_server_start"
  "parse_url_char s_req_server CHR ''@'' = s_req_server_with_at"
  "parse_url_char s_req_server CHR ''/'' = s_req_path"
  "parse_url_char s_req_path CHR ''?'' = s_req_query_string_start"
  "parse_url_char s_req_path CHR ''#'' = s_req_fragment_start"
  "parse_url_char s_req_query_string CHR ''#'' = s_req_fragment_start"
  by code_simp+

subsubsection \<open>The loop over a part\<close>

lemma url_loop_more:
  assumes "\<forall>c\<in>set xs. parse_url_char s c = s" and "url_case s = Part f" and "s \<noteq> s_req_server_with_at"
  shows "url_loop (xs @ ys) p s (Some f) at (put f q n u) =
    url_loop ys (p + length xs) s (Some f) at (put f q (n + length xs) u)"
  using assms(1) by (induction xs arbitrary: p n) (simp_all add: assms(2,3) Let_def next_char_put)

lemma url_loop_part:
  assumes "parse_url_char s0 (hd xs) = s" and "xs \<noteq> []" and "\<forall>c\<in>set (tl xs). parse_url_char s c = s"
    and "url_case s = Part f" and "s \<noteq> s_req_server_with_at" and "old \<noteq> Some f"
  shows "url_loop (xs @ ys) p s0 old at u =
    url_loop ys (p + length xs) s (Some f) at (put f p (length xs) u)"
  using assms url_loop_more [of "tl xs" s f ys "Suc p" at p 1 u]
  by (cases xs) (simp_all add: Let_def first_char_put)

lemma url_loop_server:
  assumes "url_parts_ok c" and "old \<noteq> Some UF_HOST"
  shows "url_loop (server_text c @ ys) p s_req_server_start old False u =
    url_loop ys (p + length (server_text c)) s_req_server (Some UF_HOST) (up_userinfo c \<noteq> [])
      (put UF_HOST p (length (server_text c)) u)"
proof -
  let ?port = "if up_port c = [] then [] else CHR '':'' # up_port c"
  have tail: "\<forall>x\<in>set (up_host c @ ?port). IS_USERINFO_CHAR x"
    using assms(1) by (auto simp: url_parts_ok_def intro: userinfo_char_intros)
  have h: "up_host c \<noteq> []" using assms(1) by (simp add: url_parts_ok_def)
  show ?thesis
  proof (cases "up_userinfo c = []")
    case True
    have "url_loop ((up_host c @ ?port) @ ys) p s_req_server_start old False u =
        url_loop ys (p + length (up_host c @ ?port)) s_req_server (Some UF_HOST) False
          (put UF_HOST p (length (up_host c @ ?port)) u)"
      by (intro url_loop_part ballI server_char) (use tail h assms(2) in \<open>auto dest: list.set_sel\<close>)
    with True show ?thesis by (simp add: server_text_def)
  next
    case False
    let ?ui = "up_userinfo c"
    have ui: "\<forall>x\<in>set ?ui. IS_USERINFO_CHAR x" using assms(1) by (simp add: url_parts_ok_def)
    obtain x xs where hx: "up_host c @ ?port = x # xs" using h by (cases "up_host c") auto
    have "url_loop (?ui @ ''@'' @ (x # xs) @ ys) p s_req_server_start old False u =
        url_loop (''@'' @ (x # xs) @ ys) (p + length ?ui) s_req_server (Some UF_HOST) False
          (put UF_HOST p (length ?ui) u)"
      by (intro url_loop_part ballI server_char) (use ui False assms(2) in \<open>auto dest: list.set_sel\<close>)
    also have "\<dots> = url_loop (xs @ ys) (p + length ?ui + 2) s_req_server (Some UF_HOST) True
          (put UF_HOST p (length ?ui + 2) u)"
      using tail hx by (simp add: Let_def delimiters next_char_put server_char)
    also have "\<dots> = url_loop ys (p + length ?ui + 2 + length xs) s_req_server (Some UF_HOST) True
          (put UF_HOST p (length ?ui + 2 + length xs) u)"
      by (intro url_loop_more ballI server_char) (use tail hx in auto)
    finally show ?thesis using False hx by (simp add: server_text_def add.assoc)
  qed
qed

definition put_if :: "url_field \<Rightarrow> nat \<Rightarrow> string \<Rightarrow> http_parser_url \<Rightarrow> http_parser_url" where
  "put_if f p xs u = (if xs = [] then u else put f p (length xs) u)"

lemma put_if_simps [simp]:
  "u_field_set (put_if f p xs u) = (if xs = [] then u_field_set u else insert f (u_field_set u))"
  "u_off (put_if f p xs u) g = (if g = f \<and> xs \<noteq> [] then of_nat p else u_off u g)"
  "u_len (put_if f p xs u) g = (if g = f \<and> xs \<noteq> [] then of_nat (length xs) else u_len u g)"
  "u_port (put_if f p xs u) = u_port u"
  by (auto simp: put_if_def)

lemma url_loop_tail:
  assumes "url_parts_ok c"
  shows "\<exists>at'. url_loop (tail_text c) p s_req_path (Some UF_PATH) at u = Inr (at,
    put_if UF_FRAGMENT (p + (if up_query c = [] then 0 else Suc (length (up_query c))) + 1) (up_fragment c)
     (put_if UF_QUERY (Suc p) (up_query c) u))"
proof -
  have q: "\<forall>x\<in>set (up_query c). IS_URL_CHAR x" and f: "\<forall>x\<in>set (up_fragment c). IS_URL_CHAR x"
    using assms by (simp_all add: url_parts_ok_def)
  have frag: "url_loop (if up_fragment c = [] then [] else CHR ''#'' # up_fragment c) m s (Some k) at v =
      Inr (at, put_if UF_FRAGMENT (Suc m) (up_fragment c) v)"
    if "s = s_req_path \<and> k = UF_PATH \<or> s = s_req_query_string \<and> k = UF_QUERY" for m s k v
  proof (cases "up_fragment c = []")
    case False
    have "url_loop (up_fragment c @ []) (Suc m) s_req_fragment_start (Some k) at v =
        url_loop [] (Suc m + length (up_fragment c)) s_req_fragment (Some UF_FRAGMENT) at
          (put UF_FRAGMENT (Suc m) (length (up_fragment c)) v)"
      by (rule url_loop_part) (use f False that in \<open>auto simp: url_chars dest: list.set_sel\<close>)
    with False that show ?thesis by (auto simp: Let_def delimiters put_if_def)
  qed (simp add: put_if_def)
  show ?thesis
  proof (cases "up_query c = []")
    case True
    then show ?thesis using frag by (simp add: tail_text_def put_if_def)
  next
    case False
    have "url_loop (up_query c @ ys) (Suc p) s_req_query_string_start (Some UF_PATH) at u =
        url_loop ys (Suc p + length (up_query c)) s_req_query_string (Some UF_QUERY) at
          (put UF_QUERY (Suc p) (length (up_query c)) u)" for ys
      by (rule url_loop_part) (use q False in \<open>auto simp: url_chars dest: list.set_sel\<close>)
    with False frag show ?thesis by (simp add: tail_text_def put_if_def Let_def delimiters)
  qed
qed

definition server_pos :: "url_parts \<Rightarrow> nat" where
  "server_pos c = length (up_schema c) + 3"

definition path_pos :: "url_parts \<Rightarrow> nat" where
  "path_pos c = server_pos c + length (server_text c)"

definition tail_pos :: "url_parts \<Rightarrow> nat" where
  "tail_pos c = path_pos c + length (up_path c)"

definition after_loop :: "url_parts \<Rightarrow> http_parser_url \<Rightarrow> http_parser_url" where
  "after_loop c u =
     put_if UF_FRAGMENT (tail_pos c + (if up_query c = [] then 0 else Suc (length (up_query c))) + 1) (up_fragment c)
       (put_if UF_QUERY (Suc (tail_pos c)) (up_query c)
         (put UF_PATH (path_pos c) (length (up_path c))
           (put UF_HOST (server_pos c) (length (server_text c))
             (put UF_SCHEMA 0 (length (up_schema c)) u))))"

lemma url_loop_text:
  assumes "url_parts_ok c"
  shows "url_loop (url_text c) 0 s_req_spaces_before_url None False u =
    Inr (up_userinfo c \<noteq> [], after_loop c u)"
proof -
  have ok: "up_schema c \<noteq> []" "\<forall>x\<in>set (up_schema c). IS_ALPHA x"
    "up_path c \<noteq> []" "hd (up_path c) = CHR ''/''" "\<forall>x\<in>set (up_path c). IS_URL_CHAR x"
    using assms by (simp_all add: url_parts_ok_def)
  have schema: "url_loop (up_schema c @ ys) 0 s_req_spaces_before_url None False u =
      url_loop ys (length (up_schema c)) s_req_schema (Some UF_SCHEMA) False
        (put UF_SCHEMA 0 (length (up_schema c)) u)" for ys
  proof -
    have "\<forall>x\<in>set (tl (up_schema c)). parse_url_char s_req_schema x = s_req_schema"
      using ok(1,2) by (auto intro!: schema_char dest: list.set_sel)
    with ok(1,2) show ?thesis
      using url_loop_part [of s_req_spaces_before_url "up_schema c" s_req_schema UF_SCHEMA None ys 0 False u]
      by (simp add: schema_char)
  qed
  have path: "url_loop (up_path c @ ys) p s_req_server (Some UF_HOST) at v =
      url_loop ys (p + length (up_path c)) s_req_path (Some UF_PATH) at
        (put UF_PATH p (length (up_path c)) v)" for ys p at v
    by (rule url_loop_part) (use ok in \<open>auto simp: url_chars delimiters dest: list.set_sel\<close>)
  show ?thesis
    using url_loop_tail [OF assms]
    by (simp add: url_text_def schema Let_def delimiters url_loop_server [OF assms] path
        after_loop_def tail_pos_def path_pos_def server_pos_def add.assoc numeral_3_eq_3)
qed

subsubsection \<open>The loop over the server\<close>

fun host_run :: "string \<Rightarrow> nat \<Rightarrow> http_host_state \<Rightarrow> http_parser_url \<Rightarrow> url_result" where
  "host_run [] p s u = (if host_open s then Inl (Url_Invalid, u) else Inr u)"
| "host_run (c # cs) p s u =
     (let new_s = http_parse_host_char s c in
      if new_s = s_http_host_dead then Inl (Url_Invalid, u)
      else host_run cs (Suc p) new_s (host_char s new_s p u))"

lemma host_loop_run:
  "p + n \<le> length buf \<Longrightarrow> host_loop buf p n s u = host_run (take n (drop p buf)) p s u"
proof (induction n arbitrary: p s u)
  case (Suc n)
  then have "take (Suc n) (drop p buf) = buf ! p # take n (drop (Suc p) buf)"
    by (simp flip: Cons_nth_drop_Suc)
  with Suc show ?case by (simp add: Let_def)
qed simp

text \<open>The states in which the bytes of a part are counted.\<close>

fun host_part :: "http_host_state \<Rightarrow> url_field option" where
  "host_part s_http_host = Some UF_HOST"
| "host_part s_http_userinfo = Some UF_USERINFO"
| "host_part s_http_host_port = Some UF_PORT"
| "host_part _ = None"

lemma host_run_more:
  assumes "\<forall>c\<in>set xs. http_parse_host_char s c = s" and "host_part s = Some f"
  shows "host_run (xs @ ys) p s (put f q n u) = host_run ys (p + length xs) s (put f q (n + length xs) u)"
  using assms(1)
proof (induction xs arbitrary: p n)
  case (Cons c cs)
  have "s \<noteq> s_http_host_dead" "host_char s s p (put f q n u) = put f q (Suc n) u"
    using assms(2) by (cases s; simp add: host_char_def next_char_put)+
  with Cons show ?case by (simp add: Let_def)
qed simp

lemma host_run_part:
  assumes "\<forall>c\<in>set xs. http_parse_host_char s c = s" and "host_part s = Some f"
    and "xs \<noteq> []" and "http_parse_host_char s0 (hd xs) = s" and "s0 \<noteq> s"
    and "UF_HOST \<in> u_field_set u" and "u_len u UF_HOST = 0 \<or> f \<noteq> UF_HOST"
  shows "host_run (xs @ ys) p s0 u = host_run ys (p + length xs) s (put f p (length xs) u)"
proof -
  have "s \<noteq> s_http_host_dead" "host_char s0 s p u = put f p 1 u"
    using assms(2,5-7) by (cases s; auto simp: host_char_def first_char_put next_char_def put_def insert_absorb)+
  with assms show ?thesis
    using host_run_more [of "tl xs" s f ys "Suc p" p 1 u] by (cases xs) (simp_all add: Let_def)
qed

definition host_pos :: "url_parts \<Rightarrow> nat" where
  "host_pos c = server_pos c + (if up_userinfo c = [] then 0 else Suc (length (up_userinfo c)))"

definition after_host :: "url_parts \<Rightarrow> http_parser_url \<Rightarrow> http_parser_url" where
  "after_host c u =
     put_if UF_PORT (Suc (host_pos c + length (up_host c))) (up_port c)
       (put UF_HOST (host_pos c) (length (up_host c))
         (put_if UF_USERINFO (server_pos c) (up_userinfo c) (u\<lparr>u_len := (u_len u)(UF_HOST := 0)\<rparr>)))"

lemma host_run_server:
  assumes "url_parts_ok c" and "UF_HOST \<in> u_field_set u"
  shows "host_run (server_text c) (server_pos c)
      (if up_userinfo c \<noteq> [] then s_http_userinfo_start else s_http_host_start)
      (u\<lparr>u_len := (u_len u)(UF_HOST := 0)\<rparr>) = Inr (after_host c u)"
proof -
  let ?u = "u\<lparr>u_len := (u_len u)(UF_HOST := 0)\<rparr>"
  have ok: "\<forall>x\<in>set (up_userinfo c). IS_USERINFO_CHAR x" "up_host c \<noteq> []"
    "\<forall>x\<in>set (up_host c). IS_HOST_CHAR x" "\<forall>x\<in>set (up_port c). IS_NUM x"
    using assms(1) by (simp_all add: url_parts_ok_def)
  have chars: "IS_USERINFO_CHAR x \<Longrightarrow> x \<noteq> CHR ''@''" "IS_HOST_CHAR x \<Longrightarrow> x \<noteq> CHR ''[''" for x
  proof -
    show "IS_USERINFO_CHAR x \<Longrightarrow> x \<noteq> CHR ''@''" using userinfo_blank_simps(8) by auto
    have "\<not> IS_HOST_CHAR CHR ''[''" by code_simp
    then show "IS_HOST_CHAR x \<Longrightarrow> x \<noteq> CHR ''[''" by auto
  qed
  have colon: "\<not> IS_HOST_CHAR CHR '':''" by code_simp
  have port: "host_run (if up_port c = [] then [] else CHR '':'' # up_port c) m s_http_host v =
      Inr (put_if UF_PORT (Suc m) (up_port c) v)" if "UF_HOST \<in> u_field_set v" for m v
  proof (cases "up_port c = []")
    case False
    have "host_run (up_port c @ []) (Suc m) s_http_host_port_start v =
        host_run [] (Suc m + length (up_port c)) s_http_host_port (put UF_PORT (Suc m) (length (up_port c)) v)"
      by (rule host_run_part) (use ok(4) False that in \<open>auto simp: http_parse_host_char_def dest: list.set_sel\<close>)
    with False show ?thesis
      using colon by (simp add: Let_def http_parse_host_char_def host_char_def host_open_def put_if_def)
  qed (simp add: host_open_def put_if_def)
  have host: "host_run (up_host c @ ys) m s_http_host_start v =
      host_run ys (m + length (up_host c)) s_http_host (put UF_HOST m (length (up_host c)) v)"
    if "UF_HOST \<in> u_field_set v" "u_len v UF_HOST = 0" for m v ys
    by (rule host_run_part) (use ok(2,3) that chars in \<open>auto simp: http_parse_host_char_def dest: list.set_sel\<close>)
  show ?thesis
  proof (cases "up_userinfo c = []")
    case True
    then show ?thesis
      using host [of ?u] port assms(2)
      by (simp add: server_text_def host_pos_def after_host_def put_if_def [of UF_USERINFO])
  next
    case False
    have user: "host_run (up_userinfo c @ ys) (server_pos c) s_http_userinfo_start ?u =
        host_run ys (server_pos c + length (up_userinfo c)) s_http_userinfo
          (put UF_USERINFO (server_pos c) (length (up_userinfo c)) ?u)" for ys
      by (rule host_run_part) (use ok(1) assms(2) False chars in \<open>auto simp: http_parse_host_char_def dest: list.set_sel\<close>)
    let ?v = "put UF_USERINFO (server_pos c) (length (up_userinfo c)) ?u"
    have "host_run (''@'' @ up_host c @ ys) m s_http_userinfo ?v =
        host_run ys (Suc m + length (up_host c)) s_http_host (put UF_HOST (Suc m) (length (up_host c)) ?v)" for m ys
      using host [of ?v ys "Suc m"] assms(2) by (simp add: Let_def http_parse_host_char_def host_char_def)
    with False show ?thesis
      using user port assms(2)
      by (simp add: server_text_def host_pos_def after_host_def put_if_def [of UF_USERINFO])
  qed
qed

subsubsection \<open>The port and the round trip\<close>

lemma strtoul_decimal:
  assumes "ds \<noteq> []" and "\<forall>c\<in>set ds. IS_NUM c" and "decimal ds < 65536" and "\<not> IS_NUM c"
  shows "strtoul (ds @ c # rest) = Some (int (decimal ds))"
proof -
  have digits: "strtoul_digits (int n) (xs @ c # rest) = Some (int (foldl (\<lambda>n c. n * 10 + digit c) n xs))"
    if "\<forall>c\<in>set xs. IS_NUM c" for n xs
    using that
  proof (induction xs arbitrary: n)
    case (Cons a xs)
    then show ?case using Cons.IH [of "n * 10 + digit a"] by simp
  qed (simp add: assms(4))
  have first: "\<not> isspace x \<and> x \<noteq> CHR ''-'' \<and> x \<noteq> CHR ''+''" if "IS_NUM x" for x
    using that by (auto simp: IS_NUM_def isspace_def ord_def)
  obtain x xs where ds: "ds = x # xs" using assms(1) by (cases ds) auto
  have "strtoul_digits 0 (ds @ c # rest) = Some (int (decimal ds))"
    using digits [OF assms(2), of 0] by (simp add: decimal_def)
  with ds first [of x] assms(2,3) show ?thesis
    by (simp add: strtoul_def del: strtoul_digits.simps)
qed

lemma url_part_at:
  assumes "u_off v f = of_nat (length pre)" and "u_len v f = of_nat (length x)"
    and "length (pre @ x @ post) < 65536"
  shows "url_part (pre @ x @ post) v f = x"
  using assms by (simp add: url_part_def unat_position)

text \<open>
  C14: Parsing finds what a URL was put together from: for every schema, user information,
  host, port, path, query and fragment made of the characters allowed there (user
  information, port, query and fragment may be missing) with less than 64 KiB in all, the
  call on their URL succeeds, reports exactly the parts that are there, each at the place
  where its text lies, and the port as a number.
\<close>
theorem parse_url_roundtrip:
  assumes "url_parts_ok c" and "length (url_text c) < 65536"
  shows "\<exists>v. http_parser_parse_url (url_text c @ rest) (length (url_text c)) False u = Inr v \<and>
    (\<forall>f. f \<in> u_field_set v \<longleftrightarrow> part c f \<noteq> []) \<and>
    (\<forall>f\<in>u_field_set v. url_part (url_text c) v f = part c f) \<and>
    u_port v = of_nat (decimal (up_port c))"
proof -
  let ?u = "u\<lparr>u_port := 0, u_field_set := {}\<rparr>"
  define w where "w = after_host c (after_loop c ?u)"
  have ok: "up_schema c \<noteq> []" "up_host c \<noteq> []" "up_path c \<noteq> []" "hd (up_path c) = CHR ''/''"
    "\<forall>x\<in>set (up_port c). IS_NUM x" "decimal (up_port c) < 65536"
    using assms(1) by (simp_all add: url_parts_ok_def)
  have len: "length (url_text c) = tail_pos c + length (tail_text c)"
    by (simp add: url_text_def tail_pos_def path_pos_def server_pos_def)
  have small: "server_pos c < 65536" "length (server_text c) < 65536"
    using assms(2) len by (simp_all add: tail_pos_def path_pos_def)
  have sl: "u_off (after_loop c ?u) UF_HOST = of_nat (server_pos c)"
    "u_len (after_loop c ?u) UF_HOST = of_nat (length (server_text c))"
    "UF_HOST \<in> u_field_set (after_loop c ?u)"
    by (simp_all add: after_loop_def)
  have server: "take (length (server_text c)) (drop (server_pos c) (url_text c @ rest)) = server_text c"
    by (simp add: url_text_def server_pos_def numeral_3_eq_3)
  have "http_parse_host (url_text c @ rest) (after_loop c ?u) (up_userinfo c \<noteq> []) = Inr w"
    unfolding http_parse_host_def sl(1,2) unat_position [OF small(1)] unat_position [OF small(2)]
    using host_run_server [OF assms(1) sl(3)] server len
    by (subst host_loop_run) (simp_all add: w_def tail_pos_def path_pos_def)
  then have parse: "http_parser_parse_url (url_text c @ rest) (length (url_text c)) False u =
      url_port (url_text c @ rest) w"
    using url_loop_text [OF assms(1), of ?u] sl(3) by (simp add: http_parser_parse_url_def)
  have set: "f \<in> u_field_set w \<longleftrightarrow> part c f \<noteq> []" for f
    by (cases f) (auto simp: w_def after_host_def after_loop_def ok)
  have at: "url_part (url_text c) w f = part c f"
    if "url_text c = pre @ part c f @ post" "u_off w f = of_nat (length pre)"
      "u_len w f = of_nat (length (part c f))" for f pre post
    unfolding that(1) by (rule url_part_at) (use that assms(2) in simp_all)
  define s1 where "s1 = up_schema c @ ''://''"
  define s2 where "s2 = s1 @ (if up_userinfo c = [] then [] else up_userinfo c @ ''@'')"
  define s3 where "s3 = s1 @ server_text c @ up_path c"
  have parts: "url_part (url_text c) w f = part c f" if "f \<in> u_field_set w" for f
  proof (cases f)
    case UF_SCHEMA
    show ?thesis
      by (rule at [of "[]" _ "''://'' @ server_text c @ up_path c @ tail_text c"])
        (simp_all add: UF_SCHEMA url_text_def w_def after_host_def after_loop_def)
  next
    case UF_HOST
    show ?thesis
      by (rule at [of s2 _ "(if up_port c = [] then [] else CHR '':'' # up_port c) @ up_path c @ tail_text c"])
        (simp_all add: UF_HOST s1_def s2_def url_text_def server_text_def w_def after_host_def
          after_loop_def host_pos_def server_pos_def)
  next
    case UF_PORT
    with that have "up_port c \<noteq> []" using set [of UF_PORT] by simp
    then show ?thesis
      by (intro at [of "s2 @ up_host c @ '':''" _ "up_path c @ tail_text c"])
        (simp_all add: UF_PORT s1_def s2_def url_text_def server_text_def w_def after_host_def
          after_loop_def host_pos_def server_pos_def)
  next
    case UF_PATH
    show ?thesis
      by (rule at [of "s1 @ server_text c" _ "tail_text c"])
        (simp_all add: UF_PATH s1_def url_text_def w_def after_host_def after_loop_def path_pos_def server_pos_def)
  next
    case UF_QUERY
    with that have "up_query c \<noteq> []" using set [of UF_QUERY] by simp
    then show ?thesis
      by (intro at [of "s3 @ ''?''" _ "if up_fragment c = [] then [] else CHR ''#'' # up_fragment c"])
        (simp_all add: UF_QUERY s1_def s3_def url_text_def tail_text_def w_def after_host_def
          after_loop_def tail_pos_def path_pos_def server_pos_def)
  next
    case UF_FRAGMENT
    with that have "up_fragment c \<noteq> []" using set [of UF_FRAGMENT] by simp
    then show ?thesis
      by (intro at [of "s3 @ (if up_query c = [] then [] else CHR ''?'' # up_query c) @ ''#''" _ "[]"])
        (simp_all add: UF_FRAGMENT s1_def s3_def url_text_def tail_text_def w_def after_host_def
          after_loop_def tail_pos_def path_pos_def server_pos_def)
  next
    case UF_USERINFO
    with that have "up_userinfo c \<noteq> []" using set [of UF_USERINFO] by simp
    then show ?thesis
      by (intro at [of s1 _ "''@'' @ up_host c @ (if up_port c = [] then [] else CHR '':'' # up_port c) @
            up_path c @ tail_text c"])
        (simp_all add: UF_USERINFO s1_def url_text_def server_text_def w_def after_host_def
          after_loop_def server_pos_def)
  qed
  show ?thesis
  proof (cases "up_port c = []")
    case True
    with parse set parts show ?thesis
      by (simp add: url_port_def decimal_def w_def after_host_def after_loop_def)
  next
    case False
    have slash: "\<not> IS_NUM CHR ''/''" by code_simp
    have "u_off w UF_PORT = of_nat (length (s2 @ up_host c @ '':''))"
      using False by (simp add: w_def after_host_def s1_def s2_def host_pos_def server_pos_def)
    moreover have "url_text c = (s2 @ up_host c @ '':'') @ up_port c @ up_path c @ tail_text c"
      using False by (simp add: s1_def s2_def url_text_def server_text_def)
    moreover from this assms(2) have "length (s2 @ up_host c @ '':'') < 65536" by simp
    ultimately have "drop (unat (u_off w UF_PORT)) (url_text c @ rest) =
        up_port c @ CHR ''/'' # tl (up_path c) @ tail_text c @ rest"
      using ok(3,4) by (simp only: unat_position) (cases "up_path c"; simp)
    then have "strtoul (drop (unat (u_off w UF_PORT)) (url_text c @ rest)) = Some (int (decimal (up_port c)))"
      using strtoul_decimal [OF False ok(5,6) slash] by simp
    with parse set parts False ok(6) show ?thesis by (simp add: url_port_def url_part_def)
  qed
qed

definition cleared_url :: http_parser_url where
  "cleared_url = \<lparr>u_field_set = {}, u_port = 0, u_off = (\<lambda>_. 0), u_len = (\<lambda>_. 0)\<rparr>"

lemma parse_url_safe_witness:
  "case http_parser_parse_url (''h:80'' @ [NUL]) 4 True cleared_url of
      Inl (e, _) \<Rightarrow> e = Url_Invalid
    | Inr u' \<Rightarrow> \<forall>f\<in>u_field_set u'. 0 < unat (u_len u' f) \<and> unat (u_off u' f) + unat (u_len u' f) \<le> 4"
  by (rule parse_url_safe) (simp_all add: cleared_url_def)

definition sample_url :: url_parts where
  "sample_url = \<lparr>up_schema = ''http'', up_userinfo = ''me:x'', up_host = ''example.com'',
     up_port = ''80'', up_path = ''/a/b'', up_query = ''q=1'', up_fragment = []\<rparr>"

lemma parse_url_roundtrip_witness:
  "\<exists>v. http_parser_parse_url (''http://me:x@example.com:80/a/b?q=1'' @ [NUL])
      (length ''http://me:x@example.com:80/a/b?q=1'') False cleared_url = Inr v \<and>
    u_port v = 80"
proof -
  have chars: "list_all IS_ALPHA ''http''" "list_all IS_USERINFO_CHAR ''me:x''"
    "list_all IS_HOST_CHAR ''example.com''" "list_all IS_NUM ''80''" "list_all IS_URL_CHAR ''/a/b''"
    "list_all IS_URL_CHAR ''q=1''" by code_simp+
  have "decimal ''80'' = 80" by (simp add: decimal_def digit_def ord_def)
  with chars have "url_parts_ok sample_url" unfolding list_all_iff by (simp add: sample_url_def url_parts_ok_def)
  moreover have "url_text sample_url = ''http://me:x@example.com:80/a/b?q=1''"
    by (simp add: url_text_def server_text_def tail_text_def sample_url_def)
  moreover have "decimal (up_port sample_url) = 80"
    by (simp add: sample_url_def decimal_def digit_def ord_def)
  ultimately show ?thesis
    using parse_url_roundtrip [of sample_url "[NUL]" cleared_url] by auto
qed

text \<open>
  The struct the caller passes is not cleared, and a schema is enough for the host to be
  parsed: for a URL without a host the place of the host is what was in that memory before.
  The comment in the code says that parsing such a URL fails.
\<close>
lemma url_without_host_reads_the_old_struct:
  "case http_parser_parse_url (''a:'' @ [NUL]) 2 False cleared_url of
     Inl (e, _) \<Rightarrow> e = Url_Invalid | Inr _ \<Rightarrow> False"
  "case http_parser_parse_url (''a:'' @ [NUL]) 2 False (cleared_url\<lparr>u_off := \<lambda>_. 9, u_len := \<lambda>_. 1\<rparr>) of
     Inl (e, _) \<Rightarrow> e = Reads_Outside | Inr _ \<Rightarrow> False"
  by code_simp+

text \<open>
  The port is read up to the first byte that is no digit, not up to the end of the URL: the
  bytes behind the URL become part of it.
\<close>
lemma url_port_reads_on:
  "map_sum fst u_port (http_parser_parse_url ''h:80 '' 4 True cleared_url) = Inr 80"
  "map_sum fst u_port (http_parser_parse_url ''h:801 '' 4 True cleared_url) = Inr 801"
  by code_simp+

end
