(* ===== verification/Posix_Stream.thy ===== *)
theory Posix_Stream
  imports Async_Op
begin

section \<open>Streams on file descriptors (\<^verbatim>\<open>src/luanode_posix_stream.cpp\<close>, \<^verbatim>\<open>src/luanode_posix_stream.h\<close>)\<close>

text \<open>
  \<^verbatim>\<open>LuaNode::Posix::Stream\<close>: the class behind the standard streams that are files or pipes.
  It follows the pattern of the sockets with fewer operations.  The constructor leaves
  \<^verbatim>\<open>m_close_pending\<close> as it finds it, so its value is an arbitrary one in a new stream.

  The properties: one write at a time, counted; reads counted; live references; no close
  during a write; that \<open>close\<close> does nothing while the handler of a read may close the stream
  on its own; that the bytes of a write are not kept alive; and that a write that fails is
  not reported.
\<close>

subsection \<open>State and construction\<close>

datatype stream_call = Sd_Close

datatype stream_op = Op_Stream_Write int string | Op_Stream_Read int

record posix_stream = "(stream_op, stream_call) async" +
  m_fd :: int
  m_close_pending :: bool
  m_write_shutdown_pending :: bool
  m_pending_writes :: "64 word"
  m_pending_reads :: "64 word"
  m_inputArray :: string

type_synonym 'r posix = "(posix_stream, 'r) state"

text \<open>
  \<open>dup\<close> is the system call (\<open>-1\<close> when it fails), \<open>assign\<close> what Boost answers when a descriptor
  is put under the control of the \<^verbatim>\<open>io_service\<close>.
\<close>

definition Stream_ctor :: "(int \<Rightarrow> int) \<Rightarrow> (int \<Rightarrow> ec) \<Rightarrow> lval list \<Rightarrow> posix_stream \<Rightarrow> lua_error + posix_stream" where
  "Stream_ctor dup assign args s =
     (case as_integer (rt_env s) (stack_at args 1) of
        None \<Rightarrow> Inl (Arg_Error 1)
      | Some n \<Rightarrow>
          let fd = dup (c_int n) in
          if ec_fails (assign fd) then Inl (Cpp_Error (assign fd))
          else Inr (s\<lparr>m_fd := fd, m_write_shutdown_pending := False, m_pending_writes := 0,
            m_pending_reads := 0\<rparr>))"

subsection \<open>Methods\<close>

definition Stream_Write :: "posix_stream meth" where
  "Stream_Write = do {
     pw \<leftarrow> gets m_pending_writes;
     if 0 < pw then do { lua_push (LBool False); ret_n 1 }
     else do {
       reference \<leftarrow> ref_self;
       d \<leftarrow> luaL_checkstring 2;
       case d of Inl e \<Rightarrow> raise e | Inr data \<Rightarrow> do {
         modify (\<lambda>s. s\<lparr>m_pending_writes := m_pending_writes s + 1\<rparr>);
         start_async (Op_Stream_Write reference data);
         lua_push (LBool True);
         ret_n 1
       }
     }
   }"

definition Stream_Read :: "posix_stream meth" where
  "Stream_Read = do {
     reference \<leftarrow> ref_self;
     nothing \<leftarrow> lua_isnoneornil 2;
     if nothing then do {
       modify (\<lambda>s. s\<lparr>m_pending_reads := m_pending_reads s + 1\<rparr>);
       start_async (Op_Stream_Read reference);
       ret_n 0
     }
     else raise (Lua_Error ''for the moment the read must be done with nil or a number'')
   }"

definition Stream_Close :: "posix_stream meth" where
  "Stream_Close = ret_n 0"

subsection \<open>Handlers\<close>

definition Stream_HandleWrite :: "posix_stream lua_fun \<Rightarrow> int \<Rightarrow> ec \<Rightarrow> nat \<Rightarrow> unit posix" where
  "Stream_HandleWrite lua reference error bytes_transferred = do {
     fetch_self reference;
     modify (\<lambda>s. s\<lparr>m_pending_writes := m_pending_writes s - 1\<rparr>);
     whenM (\<not> ec_fails error) (do {
       lua_getfield 1 ''write_callback'';
       t \<leftarrow> lua_type 2;
       whenM (t = TFunction) (do { lua_pushvalue 1; lua_push (LBool True); vm_call lua 2 })
     });
     lua_settop 0
   }"

definition Stream_HandleReadSome :: "posix_stream lua_fun \<Rightarrow> int \<Rightarrow> ec \<Rightarrow> nat \<Rightarrow> unit posix" where
  "Stream_HandleReadSome lua reference error bytes_transferred = do {
     fetch_self reference;
     modify (\<lambda>s. s\<lparr>m_pending_reads := m_pending_reads s - 1\<rparr>);
     lua_getfield 1 ''read_callback'';
     t \<leftarrow> lua_type 2;
     whenM (t = TFunction) (do {
       lua_pushvalue 1;
       (if \<not> ec_fails error then do {
          data \<leftarrow> gets m_inputArray;
          lua_push (LStr (take bytes_transferred data));
          vm_call lua 2
        }
        else do { _ \<leftarrow> BoostErrorCodeToLua error; vm_call lua 4 })
     });
     lua_settop 0;
     c \<leftarrow> gets (\<lambda>s. m_close_pending s \<and> m_pending_writes s = 0 \<and> m_pending_reads s = 0);
     whenM c (do { _ \<leftarrow> os_call Sd_Close; ret () })
   }"

datatype stream_method = Stream_m_close | Stream_m_write | Stream_m_read

fun Stream_methods :: "stream_method \<Rightarrow> posix_stream meth" where
  "Stream_methods Stream_m_close = Stream_Close"
| "Stream_methods Stream_m_write = Stream_Write"
| "Stream_methods Stream_m_read = Stream_Read"

subsection \<open>The stream as a state machine\<close>

fun stream_handler :: "posix_stream lua_fun \<Rightarrow> stream_op \<Rightarrow> ec \<Rightarrow> nat \<Rightarrow> unit posix" where
  "stream_handler lua (Op_Stream_Write r d) e n = Stream_HandleWrite lua r e n"
| "stream_handler lua (Op_Stream_Read r) e n = Stream_HandleReadSome lua r e n"

fun stream_arrive :: "stream_op \<Rightarrow> string \<Rightarrow> posix_stream \<Rightarrow> posix_stream" where
  "stream_arrive (Op_Stream_Read r) d s = s\<lparr>m_inputArray := d @ drop (length d) (m_inputArray s)\<rparr>"
| "stream_arrive _ d s = s"

inductive stream_step :: "(stream_method, posix_stream) script \<Rightarrow> posix_stream \<Rightarrow> posix_stream \<Rightarrow> bool"
  for prog where
  stream_lua: "stream_step prog s (exec (run_acts Stream_methods acts) s)"
| stream_done: "x \<in> set (a_ops s) \<Longrightarrow> length d \<le> 8192 \<Longrightarrow>
    stream_step prog s (exec (stream_handler (scripted Stream_methods prog) x e (length d))
      (stream_arrive x d (take_op x s)))"

inductive_cases stream_stepE: "stream_step prog s t"

text \<open>A new stream; nothing is said of \<^verbatim>\<open>m_close_pending\<close>.\<close>

definition stream_init :: "posix_stream \<Rightarrow> bool" where
  "stream_init s \<longleftrightarrow> finite (dom (rt_reg s)) \<and> newref_ok (rt_env s) \<and> rt_stack s = [] \<and>
     a_ops s = [] \<and> a_trace s = [] \<and> m_pending_writes s = 0 \<and> m_pending_reads s = 0"

fun stream_ref :: "stream_op \<Rightarrow> int" where
  "stream_ref (Op_Stream_Write r d) = r"
| "stream_ref (Op_Stream_Read r) = r"

definition stream_refs :: "stream_op \<Rightarrow> int list" where
  "stream_refs x = [stream_ref x]"

fun is_stream_write :: "stream_op \<Rightarrow> bool" where
  "is_stream_write (Op_Stream_Write r d) = True"
| "is_stream_write (Op_Stream_Read r) = False"

definition is_stream_read :: "stream_op \<Rightarrow> bool" where
  "is_stream_read x = (\<not> is_stream_write x)"

definition stream_cuts :: "stream_call \<Rightarrow> bool" where
  "stream_cuts c = (c = Sd_Close)"

definition stream_inv :: "posix_stream \<Rightarrow> bool" where
  "stream_inv s \<longleftrightarrow>
     live_in stream_ref stream_refs (rt_env s) (rt_reg s) (a_self s) (a_ops s) \<and>
     single_writer is_stream_write (m_pending_writes s) (a_ops s) \<and>
     m_pending_reads s = of_nat (count_if is_stream_read (a_ops s)) \<and>
     quiet_in is_stream_write stream_cuts (a_trace s) (a_ops s)"

lemma stream_refs_ref [simp]: "stream_refs x = [stream_ref x]"
  by (simp add: stream_refs_def)

lemma is_stream_read_simps [simp]:
  "is_stream_read (Op_Stream_Read r)" "\<not> is_stream_read (Op_Stream_Write r d)" "stream_cuts Sd_Close"
  by (simp_all add: is_stream_read_def stream_cuts_def)

lemma call_free_stream_inv: "call_free stream_inv"
  by (simp add: call_free_def stack_free_def stream_inv_def)

lemma stack_free_stream_inv: "stack_free stream_inv"
  using call_free_stream_inv by (simp add: call_free_def)

lemmas stream_inv_simps = stream_inv_def single_writer_def quiet_in_def live_in_start live_in_ref

lemma stream_inv_meth:
  assumes "stream_inv s" and "rt_stack s = LObj (a_self s) # args"
  shows "stream_inv (exec (Stream_methods m) s)"
proof (cases m)
  case Stream_m_close
  then show ?thesis using assms(1) by (simp add: Stream_Close_def)
next
  case Stream_m_write
  have none: "m_pending_writes s = 0 \<Longrightarrow> count_if is_stream_write (a_ops s) = 0"
    using assms(1) single_writer_zero [of is_stream_write] by (auto simp: stream_inv_def)
  show ?thesis
  proof (cases "m_pending_writes s = 0")
    case True
    with Stream_m_write none show ?thesis
      using assms by (auto simp: Stream_Write_def meth_simps stream_inv_simps split: option.splits)
  next
    case False
    with Stream_m_write show ?thesis
      using assms(1) by (simp add: Stream_Write_def meth_simps stream_inv_def word_neq_0_conv)
  qed
next
  case Stream_m_read
  then show ?thesis
    using assms by (auto simp: Stream_Read_def meth_simps stream_inv_simps)
qed

lemma pres_stream_act: "pres stream_inv (run_act Stream_methods x)"
  by (rule pres_run_act)
    (rule stack_free_stream_inv, erule (1) stream_inv_meth, auto simp: stream_inv_def live_in_ref)

lemma pres_stream_scripted: "pres stream_inv (scripted Stream_methods prog f args)"
  by (rule pres_scripted [OF pres_stream_act])

subsection \<open>Every completion keeps the invariant\<close>

lemma stream_inv_completed:
  assumes I: "stream_inv s" and x: "x \<in> set (a_ops s)"
    and "rt_env t = rt_env s" "rt_reg t = (rt_reg s)(stream_ref x := None)" "a_self t = a_self s"
    and "a_ops t = remove1 x (a_ops s)" "a_trace t = a_trace s @ [Completed x]"
    and "m_pending_writes t = (if is_stream_write x then m_pending_writes s - 1 else m_pending_writes s)"
    and "m_pending_reads t = (if is_stream_write x then m_pending_reads s else m_pending_reads s - 1)"
  shows "stream_inv t"
proof -
  have "count_if is_stream_write (a_ops s) = 1" if "is_stream_write x"
    using count_if_pos [of x "a_ops s" is_stream_write] I x that
    by (auto simp: stream_inv_def single_writer_def)
  moreover have "0 < count_if is_stream_read (a_ops s)" if "\<not> is_stream_write x"
    using count_if_pos [of x "a_ops s" is_stream_read] x that by (simp add: is_stream_read_def)
  ultimately show ?thesis
    using assms live_in_complete1 [of stream_ref stream_refs _ _ _ _ x]
    by (auto simp: stream_inv_def single_writer_def quiet_in_complete count_if_remove1 of_nat_diff
        is_stream_read_def)
qed

lemma stream_inv_os_close:
  assumes "stream_inv s" and "m_pending_writes s = 0"
  shows "stream_inv (exec (os_call Sd_Close) s)"
  using assms single_writer_zero [of is_stream_write "m_pending_writes s" "a_ops s"]
  by (auto simp: stream_inv_def quiet_in_called)

lemma stream_inv_done:
  assumes I: "stream_inv s" and x: "x \<in> set (a_ops s)" and lua: "\<And>f args. pres stream_inv (lua f args)"
  shows "stream_inv (exec (stream_handler lua x e n) (stream_arrive x d (take_op x s)))"
proof -
  have r: "0 < stream_ref x" using live_inD(3) [of stream_ref stream_refs] I x by (auto simp: stream_inv_def)
  note intros = pres_intros stack_free_stream_inv call_free_stream_inv lua
  show ?thesis
  proof (cases x)
    case (Op_Stream_Write k data)
    let ?rest = "do {
       whenM (\<not> ec_fails e) (do {
         lua_getfield 1 ''write_callback'';
         t \<leftarrow> lua_type 2;
         whenM (t = TFunction) (do { lua_pushvalue 1; lua_push (LBool True); vm_call lua 2 })
       });
       lua_settop 0 } :: unit posix"
    let ?head = "do { fetch_self k; modify (\<lambda>s. s\<lparr>m_pending_writes := m_pending_writes s - 1\<rparr>) } :: unit posix"
    have "stream_inv (exec ?head (stream_arrive x d (take_op x s)))"
      by (rule stream_inv_completed [OF I x])
        (use r Op_Stream_Write in \<open>simp_all add: exec_fetch_self take_op_def\<close>)
    moreover have "pres stream_inv ?rest" by (intro intros)
    ultimately have "stream_inv (exec ?rest (exec ?head (stream_arrive x d (take_op x s))))"
      by (rule presD [rotated])
    then show ?thesis using Op_Stream_Write by (simp add: Stream_HandleWrite_def)
  next
    case (Op_Stream_Read k)
    let ?call = "do {
       lua_getfield 1 ''read_callback'';
       t \<leftarrow> lua_type 2;
       whenM (t = TFunction) (do {
         lua_pushvalue 1;
         (if \<not> ec_fails e then do {
            data \<leftarrow> gets m_inputArray;
            lua_push (LStr (take n data));
            vm_call lua 2
          }
          else do { _ \<leftarrow> BoostErrorCodeToLua e; vm_call lua 4 })
       });
       lua_settop 0 } :: unit posix"
    let ?head = "do { fetch_self k; modify (\<lambda>s. s\<lparr>m_pending_reads := m_pending_reads s - 1\<rparr>) } :: unit posix"
    define t where "t = exec ?call (exec ?head (stream_arrive x d (take_op x s)))"
    have "stream_inv (exec ?head (stream_arrive x d (take_op x s)))"
      by (rule stream_inv_completed [OF I x])
        (use r Op_Stream_Read in \<open>simp_all add: exec_fetch_self take_op_def\<close>)
    moreover have "pres stream_inv ?call" by (intro intros)
    ultimately have "stream_inv t" unfolding t_def by (rule presD [rotated])
    moreover have "exec (stream_handler lua x e n) (stream_arrive x d (take_op x s)) =
        (if m_close_pending t \<and> m_pending_writes t = 0 \<and> m_pending_reads t = 0
         then exec (os_call Sd_Close) t else t)"
      using Op_Stream_Read by (simp add: Stream_HandleReadSome_def t_def exec_whenM)
    ultimately show ?thesis using stream_inv_os_close by simp
  qed
qed

lemma stream_inv_step: "stream_inv s \<Longrightarrow> stream_step prog s t \<Longrightarrow> stream_inv t"
  by (erule stream_stepE)
    (auto simp: presD [OF pres_run_acts [OF pres_stream_act]] stream_inv_done pres_stream_scripted)

lemma stream_inv_init: "stream_init s \<Longrightarrow> stream_inv s"
  by (simp add: stream_init_def stream_inv_def live_in_def single_writer_def)

lemma stream_inv_facts:
  assumes "stream_inv s"
  shows "live stream_ref stream_refs s"
    "single_writer is_stream_write (m_pending_writes s) (a_ops s)"
    "quiet_in is_stream_write stream_cuts (a_trace s) (a_ops s)"
    "m_pending_reads s = of_nat (count_if is_stream_read (a_ops s))"
  using assms by (simp_all add: stream_inv_def live_def)

interpretation stream: async_writer stream_init "stream_step prog" stream_inv stream_ref stream_refs
  m_pending_writes is_stream_write stream_cuts for prog
  by unfold_locales (fact stream_inv_init stream_inv_step stream_inv_facts)+

interpretation stream_in: async_reader stream_init "stream_step prog" stream_inv stream_ref stream_refs
  m_pending_reads is_stream_read for prog
  by unfold_locales (fact stream_inv_init stream_inv_step stream_inv_facts)+

subsection \<open>Properties\<close>

definition sample_stream :: posix_stream where
  "sample_stream = \<lparr>rt_env = sample_env, rt_stack = [], rt_reg = Map.empty,
     rt_objs = (\<lambda>_ k. if k \<in> {''read_callback'', ''write_callback''} then LFun 1 else LNil),
     rt_calls = [], a_self = 7, a_ops = [], a_os = [], a_trace = [],
     a_ec = (\<lambda>_ _. Ok_Ec), a_addr = (\<lambda>_ _. ([], 0)), m_fd = 5, m_close_pending = True,
     m_write_shutdown_pending = False, m_pending_writes = 0, m_pending_reads = 0, m_inputArray = []\<rparr>"

definition sample_streaming :: posix_stream where
  "sample_streaming = exec (run_acts Stream_methods
     [Invoke Stream_m_write [LStr ''hi''], Invoke Stream_m_read [], Invoke Stream_m_write [LStr ''no'']]) sample_stream"

lemma sample_streaming_fields:
  "a_ops sample_streaming = [Op_Stream_Write 1 ''hi'', Op_Stream_Read 2]"
  "m_pending_writes sample_streaming = 1" "m_pending_reads sample_streaming = 1"
  by (simp_all add: sample_streaming_def sample_stream_def thunk_methods_def Stream_Write_def
      Stream_Read_def meth_simps as_string_def none_or_nil_def)

lemma reach_sample_streaming: "reach stream_init (stream_step prog) sample_streaming"
proof -
  have "stream_init sample_stream" by (simp add: stream_init_def sample_stream_def newref_ok_sample)
  then show ?thesis
    unfolding sample_streaming_def by (rule reach_step [OF reach_init]) (rule stream_lua)
qed

text \<open>
  C31: Whatever Lua code does with a stream: at most one write is outstanding and the two
  counters count the outstanding operations exactly, every outstanding operation keeps the
  stream alive with a reference of its own, and the stream is never closed under a write.
\<close>
theorem stream_operations:
  assumes "reach stream_init (stream_step prog) s"
  shows "m_pending_writes s = of_nat (count_if is_stream_write (a_ops s)) \<and>
    count_if is_stream_write (a_ops s) \<le> 1 \<and>
    m_pending_reads s = of_nat (count_if is_stream_read (a_ops s)) \<and>
    (\<forall>x\<in>set (a_ops s). rt_reg s (stream_ref x) = Some (LObj (a_self s))) \<and>
    quiet is_stream_write stream_cuts 0 (a_trace s)"
  using stream.reach_one_write [OF assms] stream_in.reach_reads [OF assms]
    stream.reach_self_kept [OF assms] stream.reach_quiet [OF assms] by blast

lemma stream_operations_witness:
  "m_pending_reads sample_streaming = of_nat (count_if is_stream_read (a_ops sample_streaming)) \<and>
   rt_reg sample_streaming 2 = Some (LObj (a_self sample_streaming))"
  using stream_operations [OF reach_sample_streaming] by (simp add: sample_streaming_fields)

text \<open>
  \<^verbatim>\<open>m_close_pending\<close> is never written, so the value it happens to have in a new stream decides
  what the completion of the last outstanding operation does when it is a read: with one
  value the stream is never closed, with the other it is closed after any such read,
  although nobody asked for it (\<open>close\<close> itself does nothing).
\<close>
lemma exec_HandleReadSome_close:
  fixes lua :: "posix_stream lua_fun"
  assumes "pure_callback lua" and "m_pending_writes s = 0" and "m_pending_reads s = 1"
  shows "a_os (exec (Stream_HandleReadSome lua r e n) s) =
    a_os s @ (if m_close_pending s then [Sd_Close] else [])"
  using assms
  by (simp add: Stream_HandleReadSome_def exec_fetch_self meth_simps vm_call_def pure_callback_def)

text \<open>
  Closing a stream does nothing, and a stream that was never asked to close may be closed
  by its first read: a new stream's close flag is not initialised, and when it happens to be
  set, the handler of a read that leaves nothing outstanding closes the descriptor.
\<close>
theorem stream_closes_itself:
  fixes lua :: "posix_stream lua_fun"
  assumes "pure_callback lua" and "m_pending_writes s = 0" and "m_pending_reads s = 1"
  shows "exec Stream_Close s = s \<and>
    a_os (exec (Stream_HandleReadSome lua r e n) (s\<lparr>m_close_pending := True\<rparr>)) = a_os s @ [Sd_Close] \<and>
    a_os (exec (Stream_HandleReadSome lua r e n) (s\<lparr>m_close_pending := False\<rparr>)) = a_os s"
  using assms by (simp add: exec_HandleReadSome_close Stream_Close_def)

lemma stream_closes_itself_witness:
  "a_os (exec (Stream_HandleReadSome (\<lambda>_ _. ret []) 1 Ok_Ec 0)
     (sample_stream\<lparr>m_pending_reads := 1, m_close_pending := True\<rparr>)) = [Sd_Close]"
  using stream_closes_itself [of "\<lambda>_ _. ret []" "sample_stream\<lparr>m_pending_reads := 1\<rparr>" 1 Ok_Ec 0]
  by (simp add: sample_stream_def pure_callback_def)

text \<open>
  A write that fails is not reported: its handler frees the write slot and the reference
  and calls nothing, so the program can not tell it from a write that is still under way.
\<close>
theorem stream_write_error_lost:
  assumes "rt_stack s = []" and "0 < r"
  shows "exec (Stream_HandleWrite lua r (Err_Ec k v m) n) s =
    s\<lparr>rt_reg := (rt_reg s)(r := None), m_pending_writes := m_pending_writes s - 1\<rparr>"
  using assms by (simp add: Stream_HandleWrite_def exec_fetch_self meth_simps)

lemma stream_write_error_lost_witness:
  "rt_calls (exec (Stream_HandleWrite (\<lambda>_ _. ret []) 1 (Err_Ec Eof 2 ''End of file'') 0) sample_stream) = []"
  using stream_write_error_lost [of sample_stream 1 "\<lambda>_ _. ret []" Eof 2 "''End of file''" 0]
  by (simp add: sample_stream_def)

text \<open>
  The write is given the bytes of the Lua string where they lie, but the only value it keeps
  alive is the stream: what the registry holds after the call is what it held before, and the
  stream.
\<close>
lemma stream_write_keeps_only_the_stream:
  assumes "rt_stack s = [LObj p, LStr d]" and "m_pending_writes s = 0"
    and "le_newref (rt_env s) (rt_reg s) \<notin> dom (rt_reg s)"
  shows "a_ops (exec Stream_Write s) = a_ops s @ [Op_Stream_Write (le_newref (rt_env s) (rt_reg s)) d] \<and>
    ran (rt_reg (exec Stream_Write s)) = insert (LObj p) (ran (rt_reg s))"
  using assms by (simp add: Stream_Write_def meth_simps as_string_def ran_map_upd domIff)

text \<open>
  A call with a wrong argument has already stored the stream in the registry when it raises,
  and nothing removes it again, so the stream is never collected.
\<close>
lemma stream_bad_argument_leaks:
  assumes "rt_stack s = [LObj p, LTab kvs]" and "m_pending_writes s = 0"
  shows "result Stream_Write s = Inl (Arg_Error 2)"
    and "rt_reg (exec Stream_Write s) (le_newref (rt_env s) (rt_reg s)) = Some (LObj p)"
    and "a_ops (exec Stream_Write s) = a_ops s"
  using assms by (simp_all add: Stream_Write_def meth_simps as_string_def)

end
