(* ===== verification/Posix_Tty.thy ===== *)
theory Posix_Tty
  imports Async_Op
begin

section \<open>Terminals on POSIX systems (\<^verbatim>\<open>src/detail/posix/tty_stream.cpp\<close>)\<close>

text \<open>
  \<^verbatim>\<open>TtyStream\<close>: the class behind the standard streams that are terminals.  Reading is
  asynchronous, as in the other streams; writing blocks.  \<open>uv_tty_set_mode\<close> switches the
  terminal to raw mode and back.  The settings of the first terminal that is switched are kept
  in two static variables, to be restored when the process ends; they are members of the
  state here.

  The numbers of the flags are those of the Linux headers.  What the system answers is a
  parameter, as everywhere: \<open>t_attr\<close> the settings \<^verbatim>\<open>tcgetattr\<close> reads, \<open>t_int\<close> the integer a call
  returns, \<open>t_size\<close> the size of the window.

  The properties: reads are counted and keep their stream alive; the settings that were there
  before raw mode are restored by leaving it; and what goes wrong when raw mode is asked for
  twice, or by a second terminal.
\<close>

subsection \<open>State\<close>

text \<open>The members the code touches; the control characters are indexed by \<^verbatim>\<open>VMIN\<close> and \<^verbatim>\<open>VTIME\<close>.\<close>

record termios =
  c_iflag :: "32 word"
  c_oflag :: "32 word"
  c_cflag :: "32 word"
  c_lflag :: "32 word"
  c_cc :: "nat \<Rightarrow> 8 word"

datatype set_action = TCSANOW | TCSADRAIN | TCSAFLUSH

datatype pty_call =
    Tc_Getattr int | Tc_Setattr int set_action termios | Tc_Dup int
  | Fc_Getfl int | Fc_Setfl int int | Tty_Open int | Tty_Write string | Tty_Close | Tty_Winsize int

datatype pty_op = Op_Tty_Read int

record tty_stream = "(pty_op, pty_call) async" +
  m_fd :: int
  m_orig_termios :: termios
  m_flags :: int
  m_mode :: int
  m_pending_reads :: "64 word"
  m_inputArray :: string
  orig_termios_fd :: int
  orig_termios :: termios
  t_attr :: "pty_call list \<Rightarrow> int \<Rightarrow> termios"
  t_int :: "pty_call list \<Rightarrow> pty_call \<Rightarrow> int"
  t_size :: "pty_call list \<Rightarrow> int \<Rightarrow> int \<times> int"

type_synonym 'r pty = "(tty_stream, 'r) state"

definition sys_int :: "pty_call \<Rightarrow> int pty" where
  "sys_int c = do { n \<leftarrow> gets (\<lambda>s. t_int s (a_os s) c); _ \<leftarrow> os_call c; ret n }"

definition sys_attr :: "int \<Rightarrow> (ec \<times> termios) pty" where
  "sys_attr fd = do { t \<leftarrow> gets (\<lambda>s. t_attr s (a_os s) fd); e \<leftarrow> os_call (Tc_Getattr fd); ret (e, t) }"

definition BRKINT :: "32 word" where "BRKINT = 0x0002"
definition ICRNL :: "32 word" where "ICRNL = 0x0100"
definition INPCK :: "32 word" where "INPCK = 0x0010"
definition ISTRIP :: "32 word" where "ISTRIP = 0x0020"
definition IXON :: "32 word" where "IXON = 0x0400"
definition ONLCR :: "32 word" where "ONLCR = 0x0004"
definition CS8 :: "32 word" where "CS8 = 0x0030"
definition ECHO :: "32 word" where "ECHO = 0x0008"
definition ICANON :: "32 word" where "ICANON = 0x0002"
definition IEXTEN :: "32 word" where "IEXTEN = 0x8000"
definition ISIG :: "32 word" where "ISIG = 0x0001"
definition VTIME :: nat where "VTIME = 5"
definition VMIN :: nat where "VMIN = 6"
definition O_NONBLOCK :: int where "O_NONBLOCK = 0x800"

subsection \<open>Raw mode\<close>

definition make_raw :: "termios \<Rightarrow> termios" where
  "make_raw t = t\<lparr>
     c_iflag := and (c_iflag t) (not (or BRKINT (or ICRNL (or INPCK (or ISTRIP IXON))))),
     c_oflag := or (c_oflag t) ONLCR,
     c_cflag := or (c_cflag t) CS8,
     c_lflag := and (c_lflag t) (not (or ECHO (or ICANON (or IEXTEN ISIG)))),
     c_cc := (c_cc t)(VMIN := 1, VTIME := 0)\<rparr>"

text \<open>The end at the label \<^verbatim>\<open>fatal\<close> sets \<^verbatim>\<open>errno\<close> and answers \<open>-1\<close>.\<close>

definition uv_tty_set_mode :: "bool \<Rightarrow> int pty" where
  "uv_tty_set_mode mode = do {
     fd \<leftarrow> gets m_fd;
     current \<leftarrow> gets m_mode;
     if mode \<and> current = 0 then do {
       r \<leftarrow> sys_attr fd;
       (case r of (e, t) \<Rightarrow>
         if ec_fails e then ret (-1)
         else do {
           modify (\<lambda>s. s\<lparr>m_orig_termios := t\<rparr>);
           first \<leftarrow> gets (\<lambda>s. orig_termios_fd s = -1);
           whenM first (do {
             modify (\<lambda>s. s\<lparr>orig_termios := m_orig_termios s\<rparr>);
             copy \<leftarrow> sys_int (Tc_Dup fd);
             modify (\<lambda>s. s\<lparr>orig_termios_fd := copy\<rparr>)
           });
           raw \<leftarrow> gets (\<lambda>s. make_raw (orig_termios s));
           e \<leftarrow> os_call (Tc_Setattr fd TCSADRAIN raw);
           if ec_fails e then ret (-1)
           else do { modify (\<lambda>s. s\<lparr>m_mode := 1\<rparr>); ret 0 }
         })
     }
     else if \<not> mode \<and> current \<noteq> 0 then do {
       orig \<leftarrow> gets m_orig_termios;
       e \<leftarrow> os_call (Tc_Setattr fd TCSAFLUSH orig);
       if ec_fails e then ret (-1)
       else do { modify (\<lambda>s. s\<lparr>m_mode := 0\<rparr>); ret 0 }
     }
     else ret (-1)
   }"

definition uv_tty_reset_mode :: "unit pty" where
  "uv_tty_reset_mode = do {
     fd \<leftarrow> gets orig_termios_fd;
     orig \<leftarrow> gets orig_termios;
     whenM (0 \<le> fd) (do { _ \<leftarrow> os_call (Tc_Setattr fd TCSANOW orig); ret () })
   }"

subsection \<open>Construction and destruction\<close>

text \<open>
  The last step gives the descriptor to the \<^verbatim>\<open>io_service\<close>, which may refuse it.  The state
  after an error is the one the calls so far have made.
\<close>

definition TtyStream_ctor :: "tty_stream meth" where
  "TtyStream_ctor = do {
     a \<leftarrow> luaL_checkinteger 1;
     case a of Inl e \<Rightarrow> raise e | Inr n \<Rightarrow> do {
       modify (\<lambda>s. s\<lparr>m_fd := c_int n, m_flags := 0, m_mode := 0, m_pending_reads := 0\<rparr>);
       readable \<leftarrow> lua_toboolean 2;
       failed \<leftarrow>
         (if readable then do {
            flags \<leftarrow> sys_int (Fc_Getfl (c_int n));
            modify (\<lambda>s. s\<lparr>m_flags := flags\<rparr>);
            if flags = -1 then ret True
            else do {
              r \<leftarrow> sys_int (Fc_Setfl (c_int n) (or flags O_NONBLOCK));
              ret (r = -1)
            }
          }
          else do {
            copy \<leftarrow> sys_int (Tc_Dup (c_int n));
            modify (\<lambda>s. s\<lparr>m_fd := copy\<rparr>);
            ret False
          });
       if failed then raise (Lua_Error ''fcntl error!'')
       else do {
         fd \<leftarrow> gets m_fd;
         e \<leftarrow> os_call (Tty_Open fd);
         if ec_fails e then raise (Cpp_Error e) else ret_n 0
       }
     }
   }"

definition TtyStream_dtor :: "unit pty" where
  "TtyStream_dtor = do { uv_tty_reset_mode; _ \<leftarrow> os_call Tty_Close; ret () }"

definition TtyStream_Reset :: "unit pty" where
  "TtyStream_Reset = uv_tty_reset_mode"

subsection \<open>Methods\<close>

definition Tty_SetRawMode :: "tty_stream meth" where
  "Tty_SetRawMode = do {
     raw \<leftarrow> lua_toboolean 2;
     if \<not> raw then do { _ \<leftarrow> uv_tty_set_mode False; ret_n 0 }
     else do {
       r \<leftarrow> uv_tty_set_mode True;
       if r \<noteq> 0 then
         raise (Lua_Error ''SetRawMode failed with error Inappropriate ioctl for device'')
       else ret_n 0
     }
   }"

definition Tty_Read :: "tty_stream meth" where
  "Tty_Read = do {
     reference \<leftarrow> ref_self;
     nothing \<leftarrow> lua_isnoneornil 2;
     if nothing then do {
       modify (\<lambda>s. s\<lparr>m_pending_reads := m_pending_reads s + 1\<rparr>);
       start_async (Op_Tty_Read reference);
       ret_n 0
     }
     else raise (Lua_Error ''for the moment the read must be done with nil or a number'')
   }"

definition Tty_Pause :: "tty_stream meth" where "Tty_Pause = ret_n 0"

text \<open>
  The message of the exception is passed for a \<^verbatim>\<open>%e\<close>, which \<^verbatim>\<open>luaL_error\<close> does not know: it
  copies the two characters.
\<close>

definition Tty_Write_method :: "tty_stream meth" where
  "Tty_Write_method = do {
     d \<leftarrow> luaL_checkstring 2;
     case d of Inl e \<Rightarrow> raise e | Inr data \<Rightarrow> do {
       e \<leftarrow> os_call (Tty_Write data);
       if ec_fails e then raise (Lua_Error ''TtyStream::Write - Error writing - %e'')
       else do { lua_push (LBool True); ret_n 1 }
     }
   }"

definition Tty_Close_method :: "tty_stream meth" where
  "Tty_Close_method = do {
     e \<leftarrow> os_call Tty_Close;
     if ec_fails e then raise (Cpp_Error e) else ret_n 0
   }"

definition Tty_GetWindowSize :: "tty_stream meth" where
  "Tty_GetWindowSize = do {
     fd \<leftarrow> gets m_fd;
     ws \<leftarrow> gets (\<lambda>s. t_size s (a_os s) fd);
     e \<leftarrow> os_call (Tty_Winsize fd);
     if ec_fails e then raise (Lua_Error ''fcntl error!'')
     else do { lua_push (LNum (fst ws)); lua_push (LNum (snd ws)); ret_n 2 }
   }"

definition Tty_HandleReadSome :: "tty_stream lua_fun \<Rightarrow> int \<Rightarrow> ec \<Rightarrow> nat \<Rightarrow> unit pty" where
  "Tty_HandleReadSome lua reference error bytes_transferred = do {
     fetch_self reference;
     modify (\<lambda>s. s\<lparr>m_pending_reads := m_pending_reads s - 1\<rparr>);
     lua_getfield 1 ''read_callback'';
     t \<leftarrow> lua_type 2;
     whenM (t = TFunction) (do {
       lua_pushvalue 1;
       (if \<not> ec_fails error then do {
          data \<leftarrow> gets m_inputArray;
          lua_push (LStr (take bytes_transferred data));
          vm_call lua 2
        }
        else do { _ \<leftarrow> BoostErrorCodeToLua error; vm_call lua 4 })
     });
     lua_settop 0
   }"

datatype pty_method = Tty_setRawMode | Tty_write | Tty_read | Tty_pause | Tty_close | Tty_getWindowSize

fun Tty_methods :: "pty_method \<Rightarrow> tty_stream meth" where
  "Tty_methods Tty_setRawMode = Tty_SetRawMode"
| "Tty_methods Tty_write = Tty_Write_method"
| "Tty_methods Tty_read = Tty_Read"
| "Tty_methods Tty_pause = Tty_Pause"
| "Tty_methods Tty_close = Tty_Close_method"
| "Tty_methods Tty_getWindowSize = Tty_GetWindowSize"

subsection \<open>The terminal as a state machine\<close>

definition pty_arrive :: "string \<Rightarrow> tty_stream \<Rightarrow> tty_stream" where
  "pty_arrive d s = s\<lparr>m_inputArray := d @ drop (length d) (m_inputArray s)\<rparr>"

inductive pty_step :: "(pty_method, tty_stream) script \<Rightarrow> tty_stream \<Rightarrow> tty_stream \<Rightarrow> bool"
  for prog where
  pty_lua: "pty_step prog s (exec (run_acts Tty_methods acts) s)"
| pty_done: "Op_Tty_Read r \<in> set (a_ops s) \<Longrightarrow> length d \<le> 128 \<Longrightarrow>
    pty_step prog s (exec (Tty_HandleReadSome (scripted Tty_methods prog) r e (length d))
      (pty_arrive d (take_op (Op_Tty_Read r) s)))"

inductive_cases pty_stepE: "pty_step prog s t"

definition pty_init :: "tty_stream \<Rightarrow> bool" where
  "pty_init s \<longleftrightarrow> finite (dom (rt_reg s)) \<and> newref_ok (rt_env s) \<and> rt_stack s = [] \<and>
     a_ops s = [] \<and> m_pending_reads s = 0 \<and> m_mode s = 0"

fun pty_ref :: "pty_op \<Rightarrow> int" where
  "pty_ref (Op_Tty_Read r) = r"

definition pty_refs :: "pty_op \<Rightarrow> int list" where
  "pty_refs x = [pty_ref x]"

definition pty_inv :: "tty_stream \<Rightarrow> bool" where
  "pty_inv s \<longleftrightarrow> live_in pty_ref pty_refs (rt_env s) (rt_reg s) (a_self s) (a_ops s) \<and>
     m_pending_reads s = of_nat (length (a_ops s))"

lemma pty_refs_ref [simp]: "pty_refs x = [pty_ref x]"
  by (simp add: pty_refs_def)

lemma call_free_pty_inv: "call_free pty_inv"
  by (simp add: call_free_def stack_free_def pty_inv_def)

lemma stack_free_pty_inv: "stack_free pty_inv"
  using call_free_pty_inv by (simp add: call_free_def)

text \<open>Only reading touches what the invariant is about.\<close>

lemma pres_pty_quiet [pres_intros]:
  "pres pty_inv (os_call c)" "pres pty_inv (sys_int c)" "pres pty_inv (sys_attr fd)"
  "pres pty_inv (modify (\<lambda>s. s\<lparr>m_fd := f1 s\<rparr>))" "pres pty_inv (modify (\<lambda>s. s\<lparr>m_flags := f1 s\<rparr>))"
  "pres pty_inv (modify (\<lambda>s. s\<lparr>m_mode := f1 s\<rparr>))" "pres pty_inv (modify (\<lambda>s. s\<lparr>orig_termios_fd := f1 s\<rparr>))"
  "pres pty_inv (modify (\<lambda>s. s\<lparr>m_orig_termios := f2 s\<rparr>))" "pres pty_inv (modify (\<lambda>s. s\<lparr>orig_termios := f2 s\<rparr>))"
  by (simp_all add: pres_def pty_inv_def sys_int_def sys_attr_def)

lemma pres_pty_mode [pres_intros]: "pres pty_inv (uv_tty_set_mode mode)"
  unfolding uv_tty_set_mode_def by (intro pres_intros)

lemma pty_inv_meth:
  assumes "pty_inv s" and "rt_stack s = LObj (a_self s) # args"
  shows "pty_inv (exec (Tty_methods m) s)"
proof (cases "m = Tty_read")
  case True
  then show ?thesis
    using assms by (auto simp: Tty_Read_def meth_simps pty_inv_def live_in_start live_in_ref)
next
  case False
  then have "pres pty_inv (Tty_methods m)"
    by (cases m) (auto simp only: Tty_methods.simps Tty_SetRawMode_def Tty_Pause_def Tty_Write_method_def
        Tty_Close_method_def Tty_GetWindowSize_def intro!: pres_intros stack_free_pty_inv)
  from presD [OF this assms(1)] show ?thesis .
qed

lemma pres_pty_act: "pres pty_inv (run_act Tty_methods x)"
  by (rule pres_run_act) (rule stack_free_pty_inv, erule (1) pty_inv_meth, auto simp: pty_inv_def live_in_ref)

lemma pres_pty_scripted: "pres pty_inv (scripted Tty_methods prog f args)"
  by (rule pres_scripted [OF pres_pty_act])

lemma pty_inv_done:
  assumes I: "pty_inv s" and x: "Op_Tty_Read r \<in> set (a_ops s)" and lua: "\<And>f args. pres pty_inv (lua f args)"
  shows "pty_inv (exec (Tty_HandleReadSome lua r e n) (pty_arrive d (take_op (Op_Tty_Read r) s)))"
proof -
  have live: "live_in pty_ref pty_refs (rt_env s) (rt_reg s) (a_self s) (a_ops s)"
    using I by (simp add: pty_inv_def)
  have "0 < r" using live_inD(3) [OF live x] by simp
  moreover have "0 < length (a_ops s)" using x by (rule length_pos_if_in_set)
  moreover from this have count: "(of_nat (length (a_ops s) - Suc 0) :: 64 word) = of_nat (length (a_ops s)) - 1"
    by (cases "a_ops s") simp_all
  ultimately have head: "pty_inv (exec (do { fetch_self r; modify (\<lambda>s. s\<lparr>m_pending_reads := m_pending_reads s - 1\<rparr>) })
      (pty_arrive d (take_op (Op_Tty_Read r) s)))"
    using I live_in_complete1 [OF live x] x
    by (simp add: exec_fetch_self take_op_def pty_arrive_def pty_inv_def length_remove1 count)
  have "pres pty_inv (do {
     lua_getfield 1 ''read_callback'';
     t \<leftarrow> lua_type 2;
     whenM (t = TFunction) (do {
       lua_pushvalue 1;
       (if \<not> ec_fails e then do {
          data \<leftarrow> gets m_inputArray;
          lua_push (LStr (take n data));
          vm_call lua 2
        }
        else do { _ \<leftarrow> BoostErrorCodeToLua e; vm_call lua 4 })
     });
     lua_settop 0 })"
    by (intro pres_intros stack_free_pty_inv call_free_pty_inv lua)
  from presD [OF this head] show ?thesis by (simp add: Tty_HandleReadSome_def)
qed

lemma pty_inv_step: "pty_inv s \<Longrightarrow> pty_step prog s t \<Longrightarrow> pty_inv t"
  by (erule pty_stepE)
    (auto simp: presD [OF pres_run_acts [OF pres_pty_act]] intro!: pty_inv_done pres_pty_scripted)

lemma pty_inv_init: "pty_init s \<Longrightarrow> pty_inv s"
  by (simp add: pty_init_def pty_inv_def live_in_def)

lemma pty_inv_facts:
  assumes "pty_inv s"
  shows "live pty_ref pty_refs s" "m_pending_reads s = of_nat (count_if (\<lambda>_. True) (a_ops s))"
  using assms by (simp_all add: pty_inv_def live_def count_if_def)

interpretation pty_in: async_reader pty_init "pty_step prog" pty_inv pty_ref pty_refs
  m_pending_reads "\<lambda>_. True" for prog
  by unfold_locales (fact pty_inv_init pty_inv_step pty_inv_facts)+

subsection \<open>Properties\<close>

definition cooked :: termios where
  "cooked = \<lparr>c_iflag = 0x4500, c_oflag = 5, c_cflag = 0xBF, c_lflag = 0x8A3B, c_cc = (\<lambda>_. 4)\<rparr>"

definition sample_pty :: tty_stream where
  "sample_pty = \<lparr>rt_env = sample_env, rt_stack = [], rt_reg = Map.empty,
     rt_objs = (\<lambda>_ k. if k = ''read_callback'' then LFun 1 else LNil), rt_calls = [], a_self = 7,
     a_ops = [], a_os = [], a_trace = [], a_ec = (\<lambda>_ _. Ok_Ec), a_addr = (\<lambda>_ _. ([], 0)),
     m_fd = 0, m_orig_termios = cooked\<lparr>c_lflag := 0\<rparr>, m_flags = 0, m_mode = 0, m_pending_reads = 0,
     m_inputArray = [], orig_termios_fd = -1, orig_termios = cooked\<lparr>c_lflag := 0\<rparr>,
     t_attr = (\<lambda>_ _. cooked), t_int = (\<lambda>_ _. 9), t_size = (\<lambda>_ _. (80, 25))\<rparr>"

text \<open>\<open>make_raw\<close> switches off and on what it should, and a raw terminal stays as it is.\<close>

lemma make_raw_flags:
  "and (c_lflag (make_raw t)) (or ECHO (or ICANON (or IEXTEN ISIG))) = 0"
  "and (c_iflag (make_raw t)) (or BRKINT (or ICRNL (or INPCK (or ISTRIP IXON)))) = 0"
  "make_raw (make_raw t) = make_raw t"
  by (simp_all add: make_raw_def bit_eq_iff bit_simps fun_upd_twist VMIN_def VTIME_def) auto

text \<open>
  Leaving raw mode restores the terminal: when both calls succeed, the last settings given
  to the system are those it reported when raw mode was entered, whatever the stream or
  other terminals had saved before.
\<close>
theorem pty_mode_restored:
  assumes "m_mode s = 0" and "t_attr s (a_os s) (m_fd s) = t"
    and "\<And>h c. a_ec s h c = Ok_Ec"
  shows "\<exists>h. a_os (exec (do { _ \<leftarrow> uv_tty_set_mode True; uv_tty_set_mode False }) s) =
      a_os s @ h @ [Tc_Setattr (m_fd s) TCSAFLUSH t]"
  using assms by (simp add: uv_tty_set_mode_def sys_attr_def sys_int_def meth_simps)

lemma pty_mode_restored_witness:
  "\<exists>h. a_os (exec (do { _ \<leftarrow> uv_tty_set_mode True; uv_tty_set_mode False }) sample_pty) =
      h @ [Tc_Setattr 0 TCSAFLUSH cooked]"
  using pty_mode_restored [of sample_pty cooked] by (simp add: sample_pty_def)

text \<open>
  Raw mode is made from the settings of the first terminal that was ever switched, not from
  those of the terminal that is switched: a second terminal is given the first one's flags.
\<close>
theorem pty_raw_from_first_terminal:
  assumes "m_mode s = 0" and "orig_termios_fd s \<noteq> -1" and "\<And>h c. a_ec s h c = Ok_Ec"
  shows "a_os (exec (uv_tty_set_mode True) s) = a_os s @
      [Tc_Getattr (m_fd s), Tc_Setattr (m_fd s) TCSADRAIN (make_raw (orig_termios s))]"
  using assms by (simp add: uv_tty_set_mode_def sys_attr_def sys_int_def meth_simps)

lemma pty_raw_from_first_terminal_witness:
  "a_os (exec (uv_tty_set_mode True) (sample_pty\<lparr>orig_termios_fd := 9\<rparr>)) =
      [Tc_Getattr 0, Tc_Setattr 0 TCSADRAIN (make_raw (cooked\<lparr>c_lflag := 0\<rparr>))]"
  using pty_raw_from_first_terminal [of "sample_pty\<lparr>orig_termios_fd := 9\<rparr>"] by (simp add: sample_pty_def)

text \<open>
  Asking for raw mode twice is an error, although the terminal is in the mode asked for: the
  second call touches nothing and raises.
\<close>
theorem pty_raw_twice_raises:
  assumes "m_mode s = 1" and "rt_stack s = [LObj p, LBool True]"
  shows "run_state Tty_SetRawMode s =
    (Inl (Lua_Error ''SetRawMode failed with error Inappropriate ioctl for device''), s)"
  using assms by (simp add: run_state_split Tty_SetRawMode_def uv_tty_set_mode_def meth_simps to_boolean_def)

lemma pty_raw_twice_raises_witness:
  "result Tty_SetRawMode (sample_pty\<lparr>m_mode := 1, rt_stack := [LObj 7, LBool True]\<rparr>) =
    Inl (Lua_Error ''SetRawMode failed with error Inappropriate ioctl for device'')"
  using pty_raw_twice_raises [of "sample_pty\<lparr>m_mode := 1, rt_stack := [LObj 7, LBool True]\<rparr>" 7]
  by (simp add: result_def sample_pty_def)

text \<open>Destroying any terminal stream takes the first terminal out of raw mode.\<close>

lemma pty_destroy_resets_first:
  assumes "0 \<le> orig_termios_fd s"
  shows "a_os (exec TtyStream_dtor s) =
    a_os s @ [Tc_Setattr (orig_termios_fd s) TCSANOW (orig_termios s), Tty_Close]"
  using assms by (simp add: TtyStream_dtor_def uv_tty_reset_mode_def meth_simps)

text \<open>
  Reads are counted, and every outstanding read keeps its terminal alive.
\<close>
theorem pty_reads_live:
  assumes "reach pty_init (pty_step prog) s"
  shows "m_pending_reads s = of_nat (length (a_ops s)) \<and>
    (\<forall>x\<in>set (a_ops s). rt_reg s (pty_ref x) = Some (LObj (a_self s)))"
  using pty_in.reach_reads [OF assms] pty_in.reach_self_kept [OF assms] by (simp add: count_if_def)

definition sample_pty_reading :: tty_stream where
  "sample_pty_reading = exec (run_acts Tty_methods [Invoke Tty_read [], Invoke Tty_setRawMode [LBool True]]) sample_pty"

lemma pty_reads_live_witness: "m_pending_reads sample_pty_reading = of_nat (length (a_ops sample_pty_reading))"
proof -
  have "pty_init sample_pty" by (simp add: pty_init_def sample_pty_def newref_ok_sample)
  then have "reach pty_init (pty_step (\<lambda>_ _ _. ([], []))) sample_pty_reading"
    unfolding sample_pty_reading_def by (rule reach_step [OF reach_init]) (rule pty_lua)
  from pty_reads_live [OF this] show ?thesis by simp
qed

end
