(* ===== verification/Dns.thy ===== *)
theory Dns
  imports Async_Op
begin

section \<open>Name resolution (\<^verbatim>\<open>src/luanode_dns.cpp\<close>)\<close>

text \<open>
  \<^verbatim>\<open>LuaNode::Dns::Resolver\<close>.  A lookup holds one registry reference, to its callback, and none
  to the resolver, which its handler does not need.  The handler runs the callback with
  \<^verbatim>\<open>lua_call\<close>, not with the protected call of the other handlers: a Lua error there unwinds
  the handler (\<open>Inl\<close> the error).

  The properties: every outstanding lookup holds a callback of its own, whatever Lua code does,
  so each lookup reports once; what it reports on each branch; and that an error of the
  callback leaves the handler without the program's error handling.
\<close>

subsection \<open>State\<close>

record endpoint =
  ep_address :: string
  ep_port :: int
  ep_is_v6 :: bool
  ep_is_v4 :: bool

datatype resolve_op = Op_Resolve int string bool string

datatype resolve_call = No_Call

type_synonym resolver = "(resolve_op, resolve_call) async"
type_synonym 'r dns = "(resolver, 'r) state"

text \<open>The counter of the module, an unsigned long of 64 bits.\<close>

definition GetResolverCount :: "64 word \<Rightarrow> 'a rt_scheme meth" where
  "GetResolverCount n = do { lua_push (LNum (sint n)); ret_n 1 }"

definition Resolver_ctor :: "64 word \<Rightarrow> 64 word" where "Resolver_ctor n = n + 1"
definition Resolver_dtor :: "64 word \<Rightarrow> 64 word" where "Resolver_dtor n = n - 1"

subsection \<open>Lookup\<close>

definition luaL_checktype :: "nat \<Rightarrow> ltype \<Rightarrow> ('a rt_scheme, lua_error + unit) state" where
  "luaL_checktype i t = gets (\<lambda>s.
     if type_of (stack_at (rt_stack s) i) = t then Inr () else Inl (Arg_Error i))"

definition Resolver_Lookup :: "resolver meth" where
  "Resolver_Lookup = do {
     d \<leftarrow> luaL_checkstring 2;
     v \<leftarrow> luaL_checkstring 3;
     f \<leftarrow> luaL_checktype 4 TFunction;
     case d of Inl e \<Rightarrow> raise e | Inr domain \<Rightarrow>
     (case v of Inl e \<Rightarrow> raise e | Inr service \<Rightarrow>
     (case f of Inl e \<Rightarrow> raise e | Inr _ \<Rightarrow> do {
       lua_pushvalue 4;
       callback \<leftarrow> luaL_ref;
       enumerateAll \<leftarrow> lua_toboolean 5;
       start_async (Op_Resolve callback domain enumerateAll service);
       ret_n 0
     }))
   }"

subsection \<open>The handler\<close>

type_synonym 's lua_try = "lval \<Rightarrow> lval list \<Rightarrow> ('s, lval + lval list) state"

definition lua_call_any :: "'a rt_scheme lua_try \<Rightarrow> nat \<Rightarrow> ('a rt_scheme, lval + unit) state" where
  "lua_call_any lua n = do {
     stk \<leftarrow> gets rt_stack;
     let k = length stk - Suc n;
     modify (\<lambda>s. s\<lparr>rt_stack := take k stk,
       rt_calls := rt_calls s @ [(stk ! k, drop (Suc k) stk)]\<rparr>);
     res \<leftarrow> lua (stk ! k) (drop (Suc k) stk);
     (case res of
        Inl e \<Rightarrow> ret (Inl e)
      | Inr vs \<Rightarrow> do { modify (\<lambda>s. s\<lparr>rt_stack := take k stk @ vs\<rparr>); ret (Inr ()) })
   }"

text \<open>\<^verbatim>\<open>lua_setfield(L, -2, k)\<close>: the table lies under the value.\<close>

definition lua_setfield_below :: "string \<Rightarrow> ('a rt_scheme, unit) state" where
  "lua_setfield_below k = do { n \<leftarrow> lua_gettop; lua_setfield (n - 1) k }"

definition EndpointToLua :: "endpoint \<Rightarrow> ('a rt_scheme, unit) state" where
  "EndpointToLua ep = do {
     lua_push (LTab []);
     lua_push (LStr (ep_address ep));
     lua_setfield_below ''address'';
     lua_push (LNum (ep_port ep));
     lua_setfield_below ''port'';
     (if ep_is_v6 ep then lua_push (LNum 6)
      else if ep_is_v4 ep then lua_push (LNum 4)
      else lua_push (LStr ''unknown''));
     lua_setfield_below ''family''
   }"

fun push_endpoints :: "nat \<Rightarrow> int \<Rightarrow> endpoint list \<Rightarrow> ('a rt_scheme, unit) state" where
  "push_endpoints table i [] = ret ()"
| "push_endpoints table i (ep # eps) = do {
     EndpointToLua ep;
     lua_rawseti table (i + 1);
     push_endpoints table (i + 1) eps
   }"

definition then_clear :: "('a rt_scheme, lval + unit) state \<Rightarrow> ('a rt_scheme, lval + unit) state" where
  "then_clear m = do {
     r \<leftarrow> m;
     case r of Inl e \<Rightarrow> ret (Inl e) | Inr _ \<Rightarrow> do { lua_settop 0; ret (Inr ()) }
   }"

text \<open>\<open>eps\<close> is what is left of the iterator; \<open>host_not_found\<close> is Boost's error.\<close>

definition Resolver_HandleResolve ::
    "ec \<Rightarrow> resolver lua_try \<Rightarrow> int \<Rightarrow> string \<Rightarrow> bool \<Rightarrow> ec \<Rightarrow> endpoint list \<Rightarrow> (lval + unit) dns" where
  "Resolver_HandleResolve host_not_found lua callback domain enumerateAll error eps = do {
     lua_rawgeti callback;
     luaL_unref callback;
     if ec_fails error then do {
       lua_push (LStr (ec_message error));
       lua_push (LNum (ec_value error));
       then_clear (lua_call_any lua 2)
     }
     else if eps = [] then do {
       lua_push (LStr (ec_message host_not_found));
       lua_push (LNum (ec_value host_not_found));
       then_clear (lua_call_any lua 2)
     }
     else do {
       lua_push LNil;
       (if enumerateAll then do {
          lua_push (LTab []);
          table \<leftarrow> lua_gettop;
          push_endpoints table 0 eps
        }
        else EndpointToLua (hd eps));
       lua_push (LStr domain);
       then_clear (lua_call_any lua 3)
     }
   }"

datatype resolver_method = Resolver_lookup

fun Resolver_methods :: "resolver_method \<Rightarrow> resolver meth" where
  "Resolver_methods Resolver_lookup = Resolver_Lookup"

subsection \<open>The resolver as a state machine\<close>

text \<open>
  A callback runs actions, then returns values or raises.  When it raises, the process is
  gone; the state it leaves is still one the step relation talks about.
\<close>

type_synonym resolver_script = "lval \<Rightarrow> lval list \<Rightarrow> resolver \<Rightarrow>
  resolver_method act list \<times> (lval + lval list)"

definition try_script :: "resolver_script \<Rightarrow> resolver lua_try" where
  "try_script prog f args = do {
     choice \<leftarrow> gets (prog f args);
     run_acts Resolver_methods (fst choice);
     ret (snd choice)
   }"

inductive resolver_step :: "ec \<Rightarrow> resolver_script \<Rightarrow> resolver \<Rightarrow> resolver \<Rightarrow> bool"
  for nf prog where
  resolver_lua: "resolver_step nf prog s (exec (run_acts Resolver_methods acts) s)"
| resolver_done: "Op_Resolve r d all v \<in> set (a_ops s) \<Longrightarrow>
    resolver_step nf prog s (exec (Resolver_HandleResolve nf (try_script prog) r d all e eps)
      (take_op (Op_Resolve r d all v) s))"

inductive_cases resolver_stepE: "resolver_step nf prog s t"

definition resolver_init :: "resolver \<Rightarrow> bool" where
  "resolver_init s \<longleftrightarrow> finite (dom (rt_reg s)) \<and> newref_ok (rt_env s) \<and> a_ops s = []"

fun resolve_ref :: "resolve_op \<Rightarrow> int" where
  "resolve_ref (Op_Resolve r d all v) = r"

definition resolver_inv :: "resolver \<Rightarrow> bool" where
  "resolver_inv s \<longleftrightarrow> finite (dom (rt_reg s)) \<and> newref_ok (rt_env s) \<and>
     distinct (map resolve_ref (a_ops s)) \<and>
     (\<forall>x\<in>set (a_ops s). 0 < resolve_ref x \<and> (\<exists>f. rt_reg s (resolve_ref x) = Some (LFun f)))"

lemma call_free_resolver_inv: "call_free resolver_inv"
  by (simp add: call_free_def stack_free_def resolver_inv_def)

lemma stack_free_resolver_inv: "stack_free resolver_inv"
  using call_free_resolver_inv by (simp add: call_free_def)

lemma resolver_inv_ref:
  assumes "resolver_inv s"
  shows "resolver_inv (s\<lparr>rt_reg := (rt_reg s)(le_newref (rt_env s) (rt_reg s) \<mapsto> v)\<rparr>)"
    "le_newref (rt_env s) (rt_reg s) \<notin> resolve_ref ` set (a_ops s)" "0 < le_newref (rt_env s) (rt_reg s)"
proof -
  have new: "le_newref (rt_env s) (rt_reg s) \<notin> dom (rt_reg s)" "0 < le_newref (rt_env s) (rt_reg s)"
    using assms by (auto simp: resolver_inv_def newref_ok_def)
  have "resolve_ref x \<in> dom (rt_reg s)" if "x \<in> set (a_ops s)" for x
    using assms that by (auto simp: resolver_inv_def)
  then have away: "resolve_ref x \<noteq> le_newref (rt_env s) (rt_reg s)" if "x \<in> set (a_ops s)" for x
    using new(1) that by metis
  then show "le_newref (rt_env s) (rt_reg s) \<notin> resolve_ref ` set (a_ops s)" by (metis imageE)
  show "0 < le_newref (rt_env s) (rt_reg s)" by (rule new(2))
  show "resolver_inv (s\<lparr>rt_reg := (rt_reg s)(le_newref (rt_env s) (rt_reg s) \<mapsto> v)\<rparr>)"
    using assms away by (auto simp: resolver_inv_def)
qed

lemma resolver_inv_Lookup:
  assumes I: "resolver_inv s"
  shows "resolver_inv (exec Resolver_Lookup s)"
proof -
  have "resolver_inv (s\<lparr>rt_reg := (rt_reg s)(le_newref (rt_env s) (rt_reg s) \<mapsto> LFun f),
      a_ops := a_ops s @ [Op_Resolve (le_newref (rt_env s) (rt_reg s)) d all v], a_trace := tr\<rparr>)" for f d all v tr
    using I resolver_inv_ref [OF I] by (auto simp: resolver_inv_def)
  then show ?thesis
    using I by (auto simp: Resolver_Lookup_def luaL_checktype_def meth_simps split: option.splits)
qed

lemma pres_resolver_act: "pres resolver_inv (run_act Resolver_methods x)"
proof (rule pres_run_act)
  show "resolver_inv (exec (Resolver_methods m) s)" if "resolver_inv s" for m s
    using resolver_inv_Lookup [OF that] by (cases m) simp
qed (use stack_free_resolver_inv resolver_inv_ref(1) in \<open>auto simp: resolver_inv_def\<close>)

lemma pres_try_script: "pres resolver_inv (try_script prog f args)"
  unfolding try_script_def by (intro pres_intros pres_run_acts pres_resolver_act)

lemma pres_lua_call_any [pres_intros]:
  assumes "call_free I" and "\<And>f args. pres I (lua f args)"
  shows "pres I (lua_call_any lua n)"
  unfolding lua_call_any_def Let_def
  by (intro pres_intros assms(2) pres_modify)
    (use assms(1) in \<open>auto simp: call_free_def stack_free_def\<close>)

lemma pres_endpoints [pres_intros]:
  assumes "stack_free I"
  shows "pres I (EndpointToLua ep)" "pres I (push_endpoints table i eps)" "pres I m \<Longrightarrow> pres I (then_clear m)"
proof -
  have ep: "pres I (EndpointToLua ep)" for ep
    unfolding EndpointToLua_def lua_setfield_below_def by (intro pres_intros assms)
  show "pres I (EndpointToLua ep)" by (rule ep)
  show "pres I (push_endpoints table i eps)"
    by (induction eps arbitrary: i) (auto intro!: pres_intros ep assms)
  show "pres I (then_clear m)" if "pres I m"
    unfolding then_clear_def by (intro pres_intros assms that)
qed

lemma distinct_map_remove1:
  assumes "distinct (map f xs)" and "x \<in> set xs"
  shows "distinct (map f (remove1 x xs))" "f x \<notin> f ` set (remove1 x xs)"
  using assms by (induction xs) (auto simp: image_iff dest: in_set_remove1D)

lemma resolver_inv_done:
  assumes I: "resolver_inv s" and x: "Op_Resolve r d all v \<in> set (a_ops s)"
    and lua: "\<And>f args. pres resolver_inv (lua f args)"
  shows "resolver_inv (exec (Resolver_HandleResolve nf lua r d all e eps) (take_op (Op_Resolve r d all v) s))"
proof -
  let ?ops = "remove1 (Op_Resolve r d all v) (a_ops s)"
  have "0 < r" using I x by (auto simp: resolver_inv_def)
  have dist: "distinct (map resolve_ref (a_ops s))" using I by (simp add: resolver_inv_def)
  note rest = distinct_map_remove1 [OF dist x]
  have head: "resolver_inv (exec (do { lua_rawgeti r; luaL_unref r }) (take_op (Op_Resolve r d all v) s))"
    using I rest \<open>0 < r\<close>
    by (auto simp: lua_prim_defs take_op_def resolver_inv_def image_iff dest: in_set_remove1D)
  have "pres resolver_inv (if ec_fails e then do {
       lua_push (LStr (ec_message e));
       lua_push (LNum (ec_value e));
       then_clear (lua_call_any lua 2)
     }
     else if eps = [] then do {
       lua_push (LStr (ec_message nf));
       lua_push (LNum (ec_value nf));
       then_clear (lua_call_any lua 2)
     }
     else do {
       lua_push LNil;
       (if all then do {
          lua_push (LTab []);
          table \<leftarrow> lua_gettop;
          push_endpoints table 0 eps
        }
        else EndpointToLua (hd eps));
       lua_push (LStr d);
       then_clear (lua_call_any lua 3)
     })"
    by (intro pres_intros stack_free_resolver_inv call_free_resolver_inv lua)
  from presD [OF this head] show ?thesis
    by (simp add: Resolver_HandleResolve_def exec_if)
qed

lemma resolver_inv_step: "resolver_inv s \<Longrightarrow> resolver_step nf prog s t \<Longrightarrow> resolver_inv t"
  by (erule resolver_stepE)
    (auto simp: presD [OF pres_run_acts [OF pres_resolver_act]] resolver_inv_done pres_try_script)

lemma resolver_inv_init: "resolver_init s \<Longrightarrow> resolver_inv s"
  by (simp add: resolver_init_def resolver_inv_def)

subsection \<open>What the callback is given\<close>

definition endpoint_table :: "endpoint \<Rightarrow> lval" where
  "endpoint_table ep = LTab [(LStr ''address'', LStr (ep_address ep)), (LStr ''port'', LNum (ep_port ep)),
     (LStr ''family'', if ep_is_v6 ep then LNum 6 else if ep_is_v4 ep then LNum 4 else LStr ''unknown'')]"

fun numbered :: "int \<Rightarrow> endpoint list \<Rightarrow> (lval \<times> lval) list" where
  "numbered i [] = []"
| "numbered i (ep # eps) = (LNum (i + 1), endpoint_table ep) # numbered (i + 1) eps"

lemma exec_EndpointToLua [simp]:
  "exec (EndpointToLua ep) s = s\<lparr>rt_stack := rt_stack s @ [endpoint_table ep]\<rparr>"
  by (simp add: EndpointToLua_def lua_setfield_below_def endpoint_table_def lua_prim_defs exec_if
      list_update_append)

lemma exec_push_endpoints:
  assumes "rt_stack s = xs @ [LTab kvs]" and "\<And>p. p \<in> set kvs \<Longrightarrow> \<exists>j \<le> i. fst p = LNum j"
  shows "exec (push_endpoints (Suc (length xs)) i eps) s = s\<lparr>rt_stack := xs @ [LTab (kvs @ numbered i eps)]\<rparr>"
  using assms
proof (induction eps arbitrary: i kvs s)
  case (Cons ep eps)
  have "filter (\<lambda>p. fst p \<noteq> LNum (i + 1)) kvs = kvs"
    using Cons.prems(2) by (intro filter_True) fastforce
  then have "exec (lua_rawseti (Suc (length xs)) (i + 1)) (exec (EndpointToLua ep) s) =
      s\<lparr>rt_stack := xs @ [LTab (kvs @ [(LNum (i + 1), endpoint_table ep)])]\<rparr>"
    using Cons.prems(1) by (simp add: lua_prim_defs Let_def list_update_append)
  then show ?case
    using Cons.IH [of "s\<lparr>rt_stack := xs @ [LTab (kvs @ [(LNum (i + 1), endpoint_table ep)])]\<rparr>"
        "kvs @ [(LNum (i + 1), endpoint_table ep)]" "i + 1"] Cons.prems(2)
    by (fastforce simp del: lua_prim_defs)
qed simp

definition resolve_args :: "ec \<Rightarrow> string \<Rightarrow> bool \<Rightarrow> ec \<Rightarrow> endpoint list \<Rightarrow> lval list" where
  "resolve_args nf domain all e eps =
     (if ec_fails e then [LStr (ec_message e), LNum (ec_value e)]
      else if eps = [] then [LStr (ec_message nf), LNum (ec_value nf)]
      else [LNil, if all then LTab (numbered 0 eps) else endpoint_table (hd eps), LStr domain])"

lemma run_then_call:
  assumes "rt_stack s = LFun f # args"
  shows "run_state (then_clear (lua_call_any lua (length args))) s =
    (case run_state (lua (LFun f) args) (s\<lparr>rt_stack := [], rt_calls := rt_calls s @ [(LFun f, args)]\<rparr>) of
       (Inl e, u) \<Rightarrow> (Inl e, u)
     | (Inr vs, u) \<Rightarrow> (Inr (), u\<lparr>rt_stack := []\<rparr>))"
  using assms by (auto simp: then_clear_def lua_call_any_def lua_settop_def Let_def split: prod.splits sum.splits)

text \<open>The handler is the call of the callback with these arguments.\<close>

lemma run_bind: "run_state (m \<bind> k) s = run_state (k (result m s)) (exec m s)"
  by (simp add: exec_def result_def case_prod_unfold)

lemma run_HandleResolve:
  fixes nf e :: ec and d :: string and all :: bool and eps :: "endpoint list"
  assumes "rt_stack s = []" and "rt_reg s r = Some (LFun f)" and "0 < r"
  defines "args \<equiv> resolve_args nf d all e eps"
  shows "run_state (Resolver_HandleResolve nf lua r d all e eps) s =
    (case run_state (lua (LFun f) args)
        (s\<lparr>rt_reg := (rt_reg s)(r := None), rt_calls := rt_calls s @ [(LFun f, args)]\<rparr>) of
       (Inl x, u) \<Rightarrow> (Inl x, u)
     | (Inr vs, u) \<Rightarrow> (Inr (), u\<lparr>rt_stack := []\<rparr>))"
proof -
  let ?s = "s\<lparr>rt_reg := (rt_reg s)(r := None), rt_stack := LFun f # args\<rparr>"
  have stack: "s\<lparr>rt_reg := g, rt_stack := [], rt_calls := c\<rparr> = s\<lparr>rt_reg := g, rt_calls := c\<rparr>" for g c
    using assms(1) by simp
  have push: "exec (push_endpoints 3 0 eps) (u\<lparr>rt_stack := [x, y, LTab []]\<rparr>) =
      u\<lparr>rt_stack := [x, y, LTab (numbered 0 eps)]\<rparr>" for u :: resolver and x y
    using exec_push_endpoints [of "u\<lparr>rt_stack := [x, y, LTab []]\<rparr>" "[x, y]" "[]" 0 eps]
    by (simp add: numeral_3_eq_3)
  have "run_state (Resolver_HandleResolve nf lua r d all e eps) s =
      run_state (then_clear (lua_call_any lua (length args))) ?s"
    using assms(1-3) push [of "LFun f" LNil "s\<lparr>rt_reg := (rt_reg s)(r := None)\<rparr>"]
    by (simp add: Resolver_HandleResolve_def args_def resolve_args_def run_bind exec_if lua_prim_defs
        eval_nat_numeral run_state_split [of "push_endpoints t i xs" for t i xs]
        run_state_split [of "EndpointToLua ep" for ep])
  with run_then_call [of ?s f args lua] stack show ?thesis by simp
qed

text \<open>
  C16: A lookup reports to its callback exactly once and with everything it found: an error as
  message and number, no result as the error for an unknown host, otherwise nil, the first
  endpoint or (when asked to enumerate) all of them in order in a table numbered from 1, and
  the name that was looked up.  The reference to the callback is given back.
\<close>
theorem resolver_reports:
  assumes "rt_stack s = []" and "rt_reg s r = Some (LFun f)" and "0 < r"
    and "\<And>g xs u. run_state (lua g xs) u = (Inr [], u)"
  shows "run_state (Resolver_HandleResolve nf lua r d all e eps) s =
    (Inr (), s\<lparr>rt_reg := (rt_reg s)(r := None),
       rt_calls := rt_calls s @ [(LFun f, resolve_args nf d all e eps)]\<rparr>)"
  using assms by (simp add: run_HandleResolve)

text \<open>
  An error in the callback of a lookup is not handled: the handler calls it with
  \<^verbatim>\<open>lua_call\<close>, so the error leaves the handler, where the other handlers would report it to
  the program's handler of uncaught errors.
\<close>
theorem resolver_error_escapes:
  assumes "rt_stack s = []" and "rt_reg s r = Some (LFun f)" and "0 < r"
    and "\<And>g xs u. run_state (lua g xs) u = (Inl x, u)"
  shows "result (Resolver_HandleResolve nf lua r d all e eps) s = Inl x"
  using assms by (simp add: run_HandleResolve result_def)

text \<open>
  C32: Whatever Lua code does, every outstanding lookup holds a registry reference of its own,
  to a function: the callback it will report to can neither be collected nor be taken for
  another lookup's.
\<close>
theorem resolver_callbacks_kept:
  assumes "reach resolver_init (resolver_step nf prog) s"
  shows "distinct (map resolve_ref (a_ops s)) \<and>
    (\<forall>x\<in>set (a_ops s). \<exists>f. rt_reg s (resolve_ref x) = Some (LFun f))"
proof -
  have "resolver_inv s"
    by (rule reach_invariant [OF assms]) (blast intro: resolver_inv_init resolver_inv_step)+
  then show ?thesis by (simp add: resolver_inv_def)
qed

definition sample_resolver :: resolver where
  "sample_resolver = \<lparr>rt_env = sample_env, rt_stack = [], rt_reg = Map.empty, rt_objs = (\<lambda>_ _. LNil),
     rt_calls = [], a_self = 7, a_ops = [], a_os = [], a_trace = [], a_ec = (\<lambda>_ _. Ok_Ec),
     a_addr = (\<lambda>_ _. ([], 0))\<rparr>"

definition sample_lookup :: resolver where
  "sample_lookup = exec (run_acts Resolver_methods
     [Invoke Resolver_lookup [LStr ''host'', LStr ''80'', LFun 4]]) sample_resolver"

lemma sample_lookup_fields:
  "a_ops sample_lookup = [Op_Resolve 1 ''host'' False ''80'']" "rt_stack sample_lookup = []"
  "rt_reg sample_lookup 1 = Some (LFun 4)" "rt_calls sample_lookup = []"
  by (simp_all add: sample_lookup_def sample_resolver_def thunk_methods_def Resolver_Lookup_def
      luaL_checktype_def meth_simps as_string_def to_boolean_def)

lemma resolver_reports_witness:
  "rt_calls (exec (Resolver_HandleResolve (Err_Ec Host_Not_Found 1 ''Host not found'')
      (\<lambda>_ _. ret (Inr [])) 1 ''host'' False Ok_Ec [\<lparr>ep_address = ''::1'', ep_port = 80, ep_is_v6 = True, ep_is_v4 = False\<rparr>])
      sample_lookup) =
    [(LFun 4, [LNil, LTab [(LStr ''address'', LStr ''::1''), (LStr ''port'', LNum 80), (LStr ''family'', LNum 6)],
      LStr ''host''])]"
  using resolver_reports [of sample_lookup 1 4 "\<lambda>_ _. ret (Inr [])" "Err_Ec Host_Not_Found 1 ''Host not found''"
      "''host''" False Ok_Ec "[\<lparr>ep_address = ''::1'', ep_port = 80, ep_is_v6 = True, ep_is_v4 = False\<rparr>]"]
  by (simp add: sample_lookup_fields exec_def resolve_args_def endpoint_table_def)

lemma resolver_error_escapes_witness:
  "result (Resolver_HandleResolve Ok_Ec (\<lambda>_ _. ret (Inl (LStr ''bad''))) 1 ''host'' False (Err_Ec Eof 2 ''x'') [])
    sample_lookup = Inl (LStr ''bad'')"
  using resolver_error_escapes [of sample_lookup 1 4 "\<lambda>_ _. ret (Inl (LStr ''bad''))" "LStr ''bad''"]
  by (simp add: sample_lookup_fields)

lemma resolver_callbacks_kept_witness:
  "a_ops sample_lookup = [Op_Resolve 1 ''host'' False ''80''] \<and> (\<exists>f. rt_reg sample_lookup 1 = Some (LFun f))"
proof -
  have "resolver_init sample_resolver" by (simp add: resolver_init_def sample_resolver_def newref_ok_sample)
  then have "reach resolver_init (resolver_step Ok_Ec (\<lambda>_ _ _. ([], Inr []))) sample_lookup"
    unfolding sample_lookup_def by (rule reach_step [OF reach_init]) (rule resolver_lua)
  from resolver_callbacks_kept [OF this] show ?thesis by (simp add: sample_lookup_fields(1))
qed

end
