(* ===== verification/Hrtime.thy ===== *)
theory Hrtime
  imports Lua_Api
begin

section \<open>The high resolution clock (\<^verbatim>\<open>src/luanode_hrtime.cpp\<close>)\<close>

text \<open>
  Times are unsigned 64-bit numbers of nanoseconds in userdata of their own kind; their
  metamethods subtract, compare, print and split them.  \<open>hr_values\<close> is what these userdata
  hold; \<open>hr_raw\<close> is what a read of eight bytes finds in a userdata of any other kind, if it
  is readable at all, a parameter.

  A number that is handed to Lua is a double: \<open>to_double\<close> is the conversion, to the nearest
  with ties to even.

  The properties: splitting loses nothing; differences print as what they are, negative ones
  too (they wrap and are printed as signed numbers); and \<^verbatim>\<open>hrtime\<close> reads whatever userdata it
  is given as a time.
\<close>

subsection \<open>The clock\<close>

definition NANOSEC :: "64 word" where "NANOSEC = 1000000000"
definition NANOS_PER_SEC :: "64 word" where "NANOS_PER_SEC = 1000000000"

text \<open>
  \<^verbatim>\<open>clock_gettime\<close> answers seconds and nanoseconds, the Mach clock a count and a fraction.
  (The Windows branch divides doubles.)
\<close>

definition posix_time :: "int \<Rightarrow> int \<Rightarrow> 64 word" where
  "posix_time tv_sec tv_nsec = of_int tv_sec * NANOSEC + of_int tv_nsec"

definition mach_time :: "64 word \<Rightarrow> 32 word \<Rightarrow> 32 word \<Rightarrow> 64 word" where
  "mach_time count numer denom = count * ucast numer div ucast denom"

subsection \<open>Numbers for Lua\<close>

definition to_double :: "nat \<Rightarrow> nat" where
  "to_double n =
     (let k = length (filter (\<lambda>i. 2 ^ i \<le> n) [53..<64]); q = n div 2 ^ k; r = n mod 2 ^ k in
      (if 2 ^ k < 2 * r \<or> 2 ^ k = 2 * r \<and> odd q then Suc q else q) * 2 ^ k)"

definition lua_number :: "64 word \<Rightarrow> lval" where
  "lua_number w = LNum (int (to_double (unat w)))"

subsection \<open>State\<close>

text \<open>\<open>hr_names\<close> are the entries of the metatable, once it exists; \<open>hr_next\<close> names the next userdata.\<close>

record hr_state = rt +
  hr_values :: "nat \<rightharpoonup> 64 word"
  hr_next :: nat
  hr_names :: "string list option"
  hr_raw :: "lval \<Rightarrow> 64 word option"

type_synonym hr_meth = "hr_state meth"

definition luaL_checktime :: "nat \<Rightarrow> (hr_state, lua_error + 64 word) state" where
  "luaL_checktime i = gets (\<lambda>s.
     case stack_at (rt_stack s) i of
       LObj p \<Rightarrow> (case hr_values s p of None \<Rightarrow> Inl (Arg_Error i) | Some t \<Rightarrow> Inr t)
     | _ \<Rightarrow> Inl (Arg_Error i))"

text \<open>\<open>names\<close> fill the metatable when the call creates it.\<close>

definition push_time :: "string list \<Rightarrow> 64 word \<Rightarrow> (hr_state, unit) state" where
  "push_time names t = do {
     p \<leftarrow> gets hr_next;
     modify (\<lambda>s. s\<lparr>hr_values := (hr_values s)(p \<mapsto> t), hr_next := Suc p\<rparr>);
     lua_push (LObj p);
     modify (\<lambda>s. s\<lparr>hr_names := (case hr_names s of None \<Rightarrow> Some names | Some ns \<Rightarrow> Some ns)\<rparr>)
   }"

subsection \<open>The metamethods\<close>

definition substract :: hr_meth where
  "substract = do {
     a \<leftarrow> luaL_checktime 1;
     b \<leftarrow> luaL_checktime 2;
     case a of Inl e \<Rightarrow> raise e | Inr t1 \<Rightarrow>
     (case b of Inl e \<Rightarrow> raise e | Inr t2 \<Rightarrow> do {
       push_time [] (t1 - t2);
       ret_n 1
     })
   }"

definition less_than :: hr_meth where
  "less_than = do {
     a \<leftarrow> luaL_checktime 1;
     b \<leftarrow> luaL_checktime 2;
     case a of Inl e \<Rightarrow> raise e | Inr t1 \<Rightarrow>
     (case b of Inl e \<Rightarrow> raise e | Inr t2 \<Rightarrow> do {
       lua_push (LBool (t1 < t2));
       ret_n 1
     })
   }"

text \<open>The decimal digits of \<^verbatim>\<open>sprintf\<close>; the branch for POSIX systems prints the time as signed.\<close>

fun digits_of :: "nat \<Rightarrow> nat \<Rightarrow> string" where
  "digits_of 0 n = []"
| "digits_of (Suc k) n = (if n < 10 then [] else digits_of k (n div 10)) @ [char_of (48 + n mod 10)]"

definition print_int :: "int \<Rightarrow> string" where
  "print_int n = (if n < 0 then ''-'' else []) @ digits_of 20 (nat \<bar>n\<bar>)"

definition hr_tostring :: "bool \<Rightarrow> hr_meth" where
  "hr_tostring win32 = do {
     a \<leftarrow> luaL_checktime 1;
     case a of Inl e \<Rightarrow> raise e | Inr t \<Rightarrow> do {
       lua_push (LStr (print_int (if win32 then uint t else sint t)));
       ret_n 1
     }
   }"

definition hr_split :: hr_meth where
  "hr_split = do {
     a \<leftarrow> luaL_checktime 1;
     case a of Inl e \<Rightarrow> raise e | Inr t \<Rightarrow> do {
       lua_push (lua_number (t div NANOS_PER_SEC));
       lua_push (lua_number (t mod NANOS_PER_SEC));
       ret_n 2
     }
   }"

definition as_microseconds :: hr_meth where
  "as_microseconds = do {
     a \<leftarrow> luaL_checktime 1;
     case a of Inl e \<Rightarrow> raise e | Inr t \<Rightarrow> do { lua_push (lua_number (t div 1000)); ret_n 1 }
   }"

definition as_milliseconds :: hr_meth where
  "as_milliseconds = do {
     a \<leftarrow> luaL_checktime 1;
     case a of Inl e \<Rightarrow> raise e | Inr t \<Rightarrow> do { lua_push (lua_number (t div 1000000)); ret_n 1 }
   }"

subsection \<open>\<^verbatim>\<open>process.hrtime\<close>\<close>

text \<open>
  \<open>now\<close> is the clock.  A userdata argument is read as a time without a look at its kind;
  reading memory that is not there is the result \<open>None\<close>.
\<close>

definition touserdata :: "hr_state \<Rightarrow> lval \<Rightarrow> 64 word option" where
  "touserdata s v = (case v of
     LObj p \<Rightarrow> (case hr_values s p of Some t \<Rightarrow> Some t | None \<Rightarrow> hr_raw s v)
   | _ \<Rightarrow> hr_raw s v)"

definition hr_metatable :: "string list" where
  "hr_metatable = [''__sub'', ''__lt'', ''__tostring'', ''split'', ''us'', ''ms'', ''__index'']"

definition HighresTime_Get :: "64 word \<Rightarrow> (hr_state, nat option) state" where
  "HighresTime_Get now = do {
     v \<leftarrow> lua_value 1;
     start \<leftarrow> gets (\<lambda>s.
       if type_of v = TUserdata \<or> type_of v = TLight then touserdata s v else Some 0);
     case start of None \<Rightarrow> ret None
     | Some t \<Rightarrow> do { push_time hr_metatable (now - t); ret (Some 1) }
   }"

subsection \<open>Properties\<close>

lemma to_double_exact:
  assumes "n < 2 ^ 53"
  shows "to_double n = n"
proof -
  have "\<not> 2 ^ i \<le> n" if "i \<in> set [53..<64]" for i
  proof -
    have "53 \<le> i" using that by auto
    then have "(2 :: nat) ^ 53 \<le> 2 ^ i" by (rule power_increasing) simp
    with assms show ?thesis by linarith
  qed
  then have "filter (\<lambda>i. 2 ^ i \<le> n) [53..<64] = []" unfolding filter_empty_conv by blast
  then show ?thesis by (simp add: to_double_def del: upt_rec_numeral)
qed

lemma lua_number_exact: "unat w < 2 ^ 53 \<Longrightarrow> lua_number w = LNum (uint w)"
  by (simp add: lua_number_def to_double_exact)

lemma unat_time_less: "unat (t :: 64 word) < 2 ^ 64"
proof -
  have "unat t < 2 ^ LENGTH(64)" by (rule unsigned_less)
  then show ?thesis by simp
qed

definition times :: "64 word \<Rightarrow> 64 word \<Rightarrow> hr_state" where
  "times t1 t2 = \<lparr>rt_env = sample_env, rt_stack = [LObj 0, LObj 1], rt_reg = Map.empty, rt_objs = (\<lambda>_ _. LNil),
     rt_calls = [], hr_values = [0 \<mapsto> t1, 1 \<mapsto> t2], hr_next = 2, hr_names = Some hr_metatable, hr_raw = (\<lambda>_. None)\<rparr>"

text \<open>
  C37: Splitting a time loses nothing: for every time the two numbers Lua gets are exact, the
  second is less than a second, and together they are the time.
\<close>
theorem hr_split_exact:
  assumes "rt_stack s = [LObj p]" and "hr_values s p = Some t"
  shows "\<exists>sec ns. rt_stack (exec hr_split s) = [LObj p, LNum sec, LNum ns] \<and>
    0 \<le> ns \<and> ns < 1000000000 \<and> sec * 1000000000 + ns = uint t"
proof -
  have n: "unat NANOS_PER_SEC = 1000000000" "uint NANOS_PER_SEC = 1000000000"
    by (simp_all add: NANOS_PER_SEC_def)
  have "unat (t div NANOS_PER_SEC) < 2 ^ 53" "unat (t mod NANOS_PER_SEC) < 2 ^ 53"
    using unat_time_less [of t] by (simp_all add: unat_div unat_mod n)
  then have "lua_number (t div NANOS_PER_SEC) = LNum (uint t div 1000000000)"
    "lua_number (t mod NANOS_PER_SEC) = LNum (uint t mod 1000000000)"
    by (simp_all only: lua_number_exact uint_div uint_mod n)
  then have "rt_stack (exec hr_split s) = [LObj p, LNum (uint t div 1000000000), LNum (uint t mod 1000000000)]"
    using assms by (simp add: hr_split_def luaL_checktime_def exec_case_sum lua_push_def)
  moreover have "uint t div 1000000000 * 1000000000 + uint t mod 1000000000 = uint t" by simp
  moreover have "0 \<le> uint t mod 1000000000" "uint t mod 1000000000 < 1000000000" by simp_all
  ultimately show ?thesis by blast
qed

text \<open>
  Milliseconds are exact for every time, microseconds for times below 285 years.
\<close>
theorem hr_units_exact:
  assumes "rt_stack s = [LObj p]" and "hr_values s p = Some t"
  shows "rt_stack (exec as_milliseconds s) = [LObj p, LNum (uint t div 1000000)] \<and>
    (unat t < 2 ^ 53 * 1000 \<longrightarrow> rt_stack (exec as_microseconds s) = [LObj p, LNum (uint t div 1000)])"
proof -
  have "unat (t div 1000000) < 2 ^ 53" using unat_time_less [of t] by (simp add: unat_div)
  then have "lua_number (t div 1000000) = LNum (uint t div 1000000)"
    by (simp only: lua_number_exact uint_div) simp
  moreover have "lua_number (t div 1000) = LNum (uint t div 1000)" if "unat t < 2 ^ 53 * 1000"
  proof -
    have "unat (t div 1000) < 2 ^ 53" using that by (simp add: unat_div less_mult_imp_div_less)
    then show ?thesis by (simp only: lua_number_exact uint_div) simp
  qed
  ultimately show ?thesis
    using assms by (simp add: as_milliseconds_def as_microseconds_def luaL_checktime_def exec_case_sum
        lua_push_def)
qed

lemma hr_microseconds_rounded:
  "rt_stack (exec as_microseconds ((times 9007199254740993000 0)\<lparr>rt_stack := [LObj 0]\<rparr>)) =
    [LObj 0, LNum 9007199254740992]"
  by (simp add: as_microseconds_def luaL_checktime_def times_def exec_case_sum lua_push_def lua_number_def
      to_double_def upt_rec)

subsubsection \<open>Differences\<close>

definition number :: "string \<Rightarrow> nat" where
  "number ds = foldl (\<lambda>n c. n * 10 + (of_char c - 48)) 0 ds"

lemma digits_of_number: "n < 10 ^ k \<Longrightarrow> number (digits_of k n) = n"
proof (induction k arbitrary: n)
  case (Suc k)
  have d: "of_char (char_of (48 + n mod 10) :: char) = 48 + n mod 10"
    by simp
  show ?case
  proof (cases "n < 10")
    case False
    have "number (digits_of k (n div 10)) = n div 10" using Suc by (simp add: less_mult_imp_div_less)
    with False d show ?thesis by (simp add: number_def)
  qed (use d in \<open>simp add: number_def\<close>)
qed (simp add: number_def)

text \<open>
  On POSIX systems the difference of two times prints as what it is: for times less than
  292 years apart, subtracting and printing gives the decimal digits of the distance, with a
  minus sign when the second time is the later one.
\<close>
theorem hr_difference_prints:
  assumes "rt_stack s = [LObj p, LObj q]" and "hr_values s p = Some t1" and "hr_values s q = Some t2"
    and "\<bar>uint t1 - uint t2\<bar> < 2 ^ 63" and "hr_next s \<notin> {p, q}"
  shows "\<exists>ds. rt_stack (exec (do { _ \<leftarrow> substract; modify (\<lambda>s. s\<lparr>rt_stack := drop 2 (rt_stack s)\<rparr>); hr_tostring False }) s) =
      [LObj (hr_next s), LStr ((if uint t1 < uint t2 then ''-'' else []) @ ds)] \<and>
    int (number ds) = \<bar>uint t1 - uint t2\<bar>"
proof -
  have "sint (t1 - t2) = sint (word_of_int (uint t1 - uint t2) :: 64 word)" by simp
  also have "\<dots> = signed_take_bit 63 (uint t1 - uint t2)"
    by (simp only: signed_of_int) simp
  also have "\<dots> = uint t1 - uint t2" using assms(4) by (intro signed_take_bit_int_eq_self) simp_all
  finally have diff: "sint (t1 - t2) = uint t1 - uint t2" .
  have "nat \<bar>uint t1 - uint t2\<bar> < 10 ^ 20" using assms(4) by simp
  then have "number (digits_of 20 (nat \<bar>uint t1 - uint t2\<bar>)) = nat \<bar>uint t1 - uint t2\<bar>"
    by (rule digits_of_number)
  with assms diff show ?thesis
    by (simp add: substract_def hr_tostring_def luaL_checktime_def exec_case_sum lua_push_def push_time_def
        print_int_def del: digits_of.simps)
qed

lemma hr_split_exact_witness:
  "\<exists>sec ns. rt_stack (exec hr_split ((times 5000000007 0)\<lparr>rt_stack := [LObj 0]\<rparr>)) = [LObj 0, LNum sec, LNum ns] \<and>
    sec * 1000000000 + ns = 5000000007"
  using hr_split_exact [of "(times 5000000007 0)\<lparr>rt_stack := [LObj 0]\<rparr>" 0 5000000007]
  by (auto simp: times_def)

lemma hr_units_exact_witness:
  "rt_stack (exec as_milliseconds ((times 5000000007 0)\<lparr>rt_stack := [LObj 0]\<rparr>)) = [LObj 0, LNum 5000]"
  using hr_units_exact [of "(times 5000000007 0)\<lparr>rt_stack := [LObj 0]\<rparr>" 0 5000000007]
  by (simp add: times_def)

lemma hr_difference_prints_witness:
  "\<exists>ds. rt_stack (exec (do { _ \<leftarrow> substract; modify (\<lambda>s. s\<lparr>rt_stack := drop 2 (rt_stack s)\<rparr>); hr_tostring False })
      (times 5 12)) = [LObj 2, LStr (CHR ''-'' # ds)] \<and> number ds = 7"
  using hr_difference_prints [of "times 5 12" 0 1 5 12] by (simp add: times_def)

text \<open>
  A negative difference prints as negative, but it compares as later than every difference
  that is not negative.
\<close>
lemma hr_negative_difference_is_late:
  fixes t1 t2 d :: "64 word"
  assumes "uint t1 < uint t2" and "uint t2 - uint t1 < 2 ^ 63" and "uint d < 2 ^ 63"
  shows "d < t1 - t2"
proof -
  have "uint (t1 - t2) = (uint t1 - uint t2) mod 2 ^ 64" by (simp add: uint_word_ariths)
  also have "\<dots> = (uint t1 - uint t2 + 2 ^ 64) mod 2 ^ 64" by (rule mod_add_self2 [symmetric])
  also have "\<dots> = uint t1 - uint t2 + 2 ^ 64"
    by (rule mod_pos_pos_trivial) (use assms(1,2) in simp_all)
  finally show ?thesis using assms by (simp add: word_less_def)
qed

text \<open>
  \<^verbatim>\<open>hrtime\<close> takes any userdata for a start time: given an object of another class (a socket,
  a light pointer) it subtracts the eight bytes found there, its C++ pointer, from the clock.
\<close>
theorem hr_reads_any_userdata:
  assumes "rt_stack s = [LObj p]" and "hr_values s p = None"
  shows "run_state (HighresTime_Get now) s =
    (case hr_raw s (LObj p) of
       None \<Rightarrow> (None, s)
     | Some bytes \<Rightarrow> (Some 1, exec (push_time hr_metatable (now - bytes)) s))"
  using assms
  by (simp add: HighresTime_Get_def touserdata_def lua_value_def run_state_split [of "push_time ns t" for ns t]
      split: option.splits)

lemma hr_reads_any_userdata_witness:
  "run_state (HighresTime_Get 100) ((times 0 0)\<lparr>rt_stack := [LObj 9], hr_raw := (\<lambda>_. Some 40)\<rparr>) =
    (Some 1, exec (push_time hr_metatable 60) ((times 0 0)\<lparr>rt_stack := [LObj 9], hr_raw := (\<lambda>_. Some 40)\<rparr>))"
  using hr_reads_any_userdata [of "(times 0 0)\<lparr>rt_stack := [LObj 9], hr_raw := (\<lambda>_. Some 40)\<rparr>" 9 100]
  by (simp add: times_def)

end
