(* ===== verification/Preloader.thy ===== *)
theory Preloader
  imports Event_Loop "HOL-Library.Countable"
begin

section \<open>The preloaded modules (\<^verbatim>\<open>lib/preloader.cpp\<close>)\<close>

text \<open>
  LuaNode's own Lua modules are compiled into the executable.  \<^verbatim>\<open>PreloadModules\<close> enters one C
  function for each in \<^verbatim>\<open>package.preload\<close>; when \<^verbatim>\<open>require\<close> calls it, it loads the
  compiled text and runs it with the arguments it got.

  \<open>pre src name\<close> is what \<^verbatim>\<open>luaL_loadbuffer\<close> makes of the bytes of the generated file: an error
  message or a function.  \<open>fn\<close> gives a C function, by its name, its Lua value.
\<close>

type_synonym precompiled = "string \<Rightarrow> string \<Rightarrow> lval + lval"
type_synonym opener = "lua_code \<Rightarrow> precompiled \<Rightarrow> (lval + nat) vm"

subsection \<open>Calling a C function\<close>

text \<open>\<^verbatim>\<open>lua_call(L, n, 1)\<close>: one result, nil when the function gave none.\<close>

definition lua_call1 :: "lua_code \<Rightarrow> nat \<Rightarrow> (lval + unit) vm" where
  "lua_call1 lua n = do {
     stk \<leftarrow> gets rt_stack;
     let k = length stk - Suc n;
     modify (\<lambda>s. s\<lparr>rt_stack := take k stk, rt_calls := rt_calls s @ [(stk ! k, drop (Suc k) stk)]\<rparr>);
     r \<leftarrow> lua (stk ! k) (drop (Suc k) stk);
     case r of Inl e \<Rightarrow> ret (Inl e)
     | Inr vs \<Rightarrow> do {
         modify (\<lambda>s. s\<lparr>rt_stack := take k stk @ [if vs = [] then LNil else hd vs]\<rparr>);
         ret (Inr ())
       }
   }"

text \<open>A C function runs in a frame of its own; its last \<open>n\<close> values are its results.\<close>

definition c_call :: "(lval + nat) vm \<Rightarrow> lval list \<Rightarrow> (lval + lval list) vm" where
  "c_call f args = do {
     saved \<leftarrow> gets rt_stack;
     modify (\<lambda>s. s\<lparr>rt_stack := args\<rparr>);
     r \<leftarrow> f;
     stk \<leftarrow> gets rt_stack;
     modify (\<lambda>s. s\<lparr>rt_stack := saved\<rparr>);
     ret (case r of Inl e \<Rightarrow> Inl e | Inr n \<Rightarrow> Inr (drop (length stk - n) stk))
   }"

subsection \<open>The openers\<close>

text \<open>The body they share: load, put the chunk under the arguments, call it for one result.\<close>

definition luaopen_chunk :: "string \<Rightarrow> string \<Rightarrow> opener" where
  "luaopen_chunk src name lua pre = do {
     arg \<leftarrow> lua_gettop;
     case pre src name of
       Inl err \<Rightarrow> do { lua_push err; ret (Inl err) }
     | Inr f \<Rightarrow> do {
         lua_push f;
         lua_insert 1;
         c \<leftarrow> lua_call1 lua arg;
         ret (case c of Inl e \<Rightarrow> Inl e | Inr _ \<Rightarrow> Inr 1)
       }
   }"

definition luaopen_LuaNode_Class :: opener where
  "luaopen_LuaNode_Class = luaopen_chunk ''class.precomp'' ''luanode.class''"

definition luaopen_LuaNode_ChildProcess :: opener where
  "luaopen_LuaNode_ChildProcess = luaopen_chunk ''child_process.precomp'' ''luanode.child_process''"

definition luaopen_LuaNode_Crypto :: opener where
  "luaopen_LuaNode_Crypto = luaopen_chunk ''crypto.precomp'' ''luanode.crypto''"

definition luaopen_LuaNode_Dns :: opener where
  "luaopen_LuaNode_Dns = luaopen_chunk ''dns.precomp'' ''luanode.dns''"

definition luaopen_LuaNode_EventEmitter :: opener where
  "luaopen_LuaNode_EventEmitter = luaopen_chunk ''event_emitter.precomp'' ''luanode.event_emitter''"

definition luaopen_LuaNode_FreeList :: opener where
  "luaopen_LuaNode_FreeList = luaopen_chunk ''free_list.precomp'' ''luanode.freelist''"

definition luaopen_LuaNode_Fs :: opener where
  "luaopen_LuaNode_Fs = luaopen_chunk ''fs.precomp'' ''luanode.fs''"

definition luaopen_LuaNode_Http :: opener where
  "luaopen_LuaNode_Http = luaopen_chunk ''http.precomp'' ''luanode.http''"

definition luaopen_LuaNode_Net :: opener where
  "luaopen_LuaNode_Net = luaopen_chunk ''net.precomp'' ''luanode.net''"

definition luaopen_LuaNode_Datagram :: opener where
  "luaopen_LuaNode_Datagram = luaopen_chunk ''datagram.precomp'' ''luanode.datagram''"

definition luaopen_LuaNode_Path :: opener where
  "luaopen_LuaNode_Path = luaopen_chunk ''path.precomp'' ''luanode.path''"

definition luaopen_LuaNode_QueryString :: opener where
  "luaopen_LuaNode_QueryString = luaopen_chunk ''querystring.precomp'' ''luanode.querystring''"

definition luaopen_LuaNode_Stream :: opener where
  "luaopen_LuaNode_Stream = luaopen_chunk ''stream.precomp'' ''luanode.stream''"

definition luaopen_LuaNode_Url :: opener where
  "luaopen_LuaNode_Url = luaopen_chunk ''url.precomp'' ''luanode.url''"

definition luaopen_LuaNode_Timers :: opener where
  "luaopen_LuaNode_Timers = luaopen_chunk ''timers.precomp'' ''luanode.timers''"

definition luaopen_LuaNode_Console :: opener where
  "luaopen_LuaNode_Console = luaopen_chunk ''console.precomp'' ''luanode.console''"

definition luaopen_LuaNode_Utils :: opener where
  "luaopen_LuaNode_Utils = luaopen_chunk ''utils.precomp'' ''luanode.utils''"

definition luaopen_LuaNode_Script :: opener where
  "luaopen_LuaNode_Script = luaopen_chunk ''script.precomp'' ''luanode.script''"

definition luaopen_LuaNode_Tty :: opener where
  "luaopen_LuaNode_Tty = luaopen_chunk ''tty.precomp'' ''luanode.tty''"

definition luaopen_LuaNode_Repl :: opener where
  "luaopen_LuaNode_Repl = luaopen_chunk ''repl.precomp'' ''luanode.repl''"

definition luaopen_LuaNode_Readline :: opener where
  "luaopen_LuaNode_Readline = luaopen_chunk ''readline.precomp'' ''luanode.readline''"

definition luaopen_StackTracePlus :: opener where
  "luaopen_StackTracePlus = luaopen_chunk ''StackTracePlus.precomp'' ''StackTracePlus''"

definition luaopen_LuaNode_Private_Url :: opener where
  "luaopen_LuaNode_Private_Url = luaopen_chunk ''__private_url.precomp'' ''luanode.__private_url''"

definition luaopen_LuaNode_Private_Traverse :: opener where
  "luaopen_LuaNode_Private_Traverse = luaopen_chunk ''__private_traverse.precomp'' ''luanode.__private_traverse''"

definition luaopen_LuaNode_Private_LuaState :: opener where
  "luaopen_LuaNode_Private_LuaState = luaopen_chunk ''__private_luastate.precomp'' ''luanode.__private_luastate''"

definition luaopen_LuaNode_Introspect :: opener where
  "luaopen_LuaNode_Introspect = luaopen_chunk ''introspect.precomp'' ''luanode.introspect''"

lemmas opener_defs =
  luaopen_LuaNode_Class_def luaopen_LuaNode_ChildProcess_def luaopen_LuaNode_Crypto_def luaopen_LuaNode_Dns_def luaopen_LuaNode_EventEmitter_def luaopen_LuaNode_FreeList_def luaopen_LuaNode_Fs_def luaopen_LuaNode_Http_def luaopen_LuaNode_Net_def luaopen_LuaNode_Datagram_def luaopen_LuaNode_Path_def luaopen_LuaNode_QueryString_def luaopen_LuaNode_Stream_def luaopen_LuaNode_Url_def luaopen_LuaNode_Timers_def luaopen_LuaNode_Console_def luaopen_LuaNode_Utils_def luaopen_LuaNode_Script_def luaopen_LuaNode_Tty_def luaopen_LuaNode_Repl_def luaopen_LuaNode_Readline_def luaopen_StackTracePlus_def luaopen_LuaNode_Private_Url_def luaopen_LuaNode_Private_Traverse_def luaopen_LuaNode_Private_LuaState_def luaopen_LuaNode_Introspect_def

subsection \<open>Registration\<close>

text \<open>
  \<^verbatim>\<open>lua_pushcfunction\<close> and \<^verbatim>\<open>lua_setfield(L, -2, k)\<close>: the table below the top gets the function.
\<close>

definition set_preload :: "string \<Rightarrow> lval \<Rightarrow> (lval + unit) vm" where
  "set_preload k f = do {
     lua_push f;
     n \<leftarrow> gets (\<lambda>s. length (rt_stack s) - 1);
     t \<leftarrow> gets (\<lambda>s. stack_at (rt_stack s) n);
     case t of
       LObj q \<Rightarrow> do {
         modify (\<lambda>s. s\<lparr>rt_objs := (rt_objs s)(q := (rt_objs s q)(k := f))\<rparr>);
         lua_pop 1;
         ret (Inr ())
       }
     | LTab _ \<Rightarrow> do { lua_setfield n k; ret (Inr ()) }
     | _ \<Rightarrow> ret (Inl (LStr ''attempt to index a non-table value''))
   }"

fun preload_all :: "(string \<times> lval) list \<Rightarrow> (lval + unit) vm" where
  "preload_all [] = ret (Inr ())"
| "preload_all ((k, f) # kvs) = do {
     r \<leftarrow> set_preload k f;
     case r of Inl e \<Rightarrow> ret (Inl e) | Inr _ \<Rightarrow> preload_all kvs
   }"

definition preload_into :: "(string \<times> lval) list \<Rightarrow> (lval + unit) vm" where
  "preload_into kvs = do {
     lua_getglobal ''package'';
     r \<leftarrow> lua_getfield_top ''preload'';
     case r of Inl e \<Rightarrow> ret (Inl e)
     | Inr _ \<Rightarrow> do {
         q \<leftarrow> preload_all kvs;
         case q of Inl e \<Rightarrow> ret (Inl e) | Inr _ \<Rightarrow> do { lua_pop 2; ret (Inr ()) }
       }
   }"

definition preload_table :: "(string \<Rightarrow> nat) \<Rightarrow> (string \<times> lval) list" where
  "preload_table fn = [
     (''luanode.class'', LFun (fn ''luaopen_LuaNode_Class'')),
     (''luanode.child_process'', LFun (fn ''luaopen_LuaNode_ChildProcess'')),
     (''luanode.crypto'', LFun (fn ''luaopen_LuaNode_Crypto'')),
     (''luanode.dns'', LFun (fn ''luaopen_LuaNode_Dns'')),
     (''luanode.event_emitter'', LFun (fn ''luaopen_LuaNode_EventEmitter'')),
     (''luanode.free_list'', LFun (fn ''luaopen_LuaNode_FreeList'')),
     (''luanode.fs'', LFun (fn ''luaopen_LuaNode_Fs'')),
     (''luanode.introspect'', LFun (fn ''luaopen_LuaNode_Introspect'')),
     (''luanode.http'', LFun (fn ''luaopen_LuaNode_Http'')),
     (''luanode.net'', LFun (fn ''luaopen_LuaNode_Net'')),
     (''luanode.datagram'', LFun (fn ''luaopen_LuaNode_Datagram'')),
     (''luanode.path'', LFun (fn ''luaopen_LuaNode_Path'')),
     (''luanode.querystring'', LFun (fn ''luaopen_LuaNode_QueryString'')),
     (''luanode.stream'', LFun (fn ''luaopen_LuaNode_Stream'')),
     (''luanode.url'', LFun (fn ''luaopen_LuaNode_Url'')),
     (''luanode.timers'', LFun (fn ''luaopen_LuaNode_Timers'')),
     (''luanode.console'', LFun (fn ''luaopen_LuaNode_Console'')),
     (''luanode.utils'', LFun (fn ''luaopen_LuaNode_Utils'')),
     (''luanode.script'', LFun (fn ''luaopen_LuaNode_Script'')),
     (''luanode.tty'', LFun (fn ''luaopen_LuaNode_Tty'')),
     (''luanode.repl'', LFun (fn ''luaopen_LuaNode_Repl'')),
     (''luanode.readline'', LFun (fn ''luaopen_LuaNode_Readline'')),
     (''luanode.__private_url'', LFun (fn ''luaopen_LuaNode_Private_Url'')),
     (''luanode.__private_traverse'', LFun (fn ''luaopen_LuaNode_Private_Traverse'')),
     (''luanode.__private_luastate'', LFun (fn ''luaopen_LuaNode_Private_LuaState''))]"

definition PreloadModules :: "(string \<Rightarrow> nat) \<Rightarrow> (lval + unit) vm" where
  "PreloadModules fn = preload_into (preload_table fn)"

definition PreloadAdditionalModules :: "(string \<Rightarrow> nat) \<Rightarrow> (lval + unit) vm" where
  "PreloadAdditionalModules fn = preload_into [(''stacktraceplus'', LFun (fn ''luaopen_StackTracePlus''))]"

text \<open>What a C function of this file does when Lua calls it.\<close>

definition openers :: "(string \<times> opener) list" where
  "openers = [
     (''luaopen_LuaNode_Class'', luaopen_LuaNode_Class),
     (''luaopen_LuaNode_ChildProcess'', luaopen_LuaNode_ChildProcess),
     (''luaopen_LuaNode_Crypto'', luaopen_LuaNode_Crypto),
     (''luaopen_LuaNode_Dns'', luaopen_LuaNode_Dns),
     (''luaopen_LuaNode_EventEmitter'', luaopen_LuaNode_EventEmitter),
     (''luaopen_LuaNode_FreeList'', luaopen_LuaNode_FreeList),
     (''luaopen_LuaNode_Fs'', luaopen_LuaNode_Fs),
     (''luaopen_LuaNode_Http'', luaopen_LuaNode_Http),
     (''luaopen_LuaNode_Net'', luaopen_LuaNode_Net),
     (''luaopen_LuaNode_Datagram'', luaopen_LuaNode_Datagram),
     (''luaopen_LuaNode_Path'', luaopen_LuaNode_Path),
     (''luaopen_LuaNode_QueryString'', luaopen_LuaNode_QueryString),
     (''luaopen_LuaNode_Stream'', luaopen_LuaNode_Stream),
     (''luaopen_LuaNode_Url'', luaopen_LuaNode_Url),
     (''luaopen_LuaNode_Timers'', luaopen_LuaNode_Timers),
     (''luaopen_LuaNode_Console'', luaopen_LuaNode_Console),
     (''luaopen_LuaNode_Utils'', luaopen_LuaNode_Utils),
     (''luaopen_LuaNode_Script'', luaopen_LuaNode_Script),
     (''luaopen_LuaNode_Tty'', luaopen_LuaNode_Tty),
     (''luaopen_LuaNode_Repl'', luaopen_LuaNode_Repl),
     (''luaopen_LuaNode_Readline'', luaopen_LuaNode_Readline),
     (''luaopen_StackTracePlus'', luaopen_StackTracePlus),
     (''luaopen_LuaNode_Private_Url'', luaopen_LuaNode_Private_Url),
     (''luaopen_LuaNode_Private_Traverse'', luaopen_LuaNode_Private_Traverse),
     (''luaopen_LuaNode_Private_LuaState'', luaopen_LuaNode_Private_LuaState),
     (''luaopen_LuaNode_Introspect'', luaopen_LuaNode_Introspect)]"

definition with_openers :: "(string \<Rightarrow> nat) \<Rightarrow> precompiled \<Rightarrow> lua_code \<Rightarrow> lua_code" where
  "with_openers fn pre lua f args = (case find (\<lambda>o'. f = LFun (fn (fst o'))) openers of
     None \<Rightarrow> lua f args
   | Some o' \<Rightarrow> c_call (snd o' lua pre) args)"

subsection \<open>The specification: which name is which file\<close>

definition module_files :: "(string \<times> string \<times> string) list" where
  "module_files = [
     (''luanode.class'', ''luaopen_LuaNode_Class'', ''class.precomp''),
     (''luanode.child_process'', ''luaopen_LuaNode_ChildProcess'', ''child_process.precomp''),
     (''luanode.crypto'', ''luaopen_LuaNode_Crypto'', ''crypto.precomp''),
     (''luanode.dns'', ''luaopen_LuaNode_Dns'', ''dns.precomp''),
     (''luanode.event_emitter'', ''luaopen_LuaNode_EventEmitter'', ''event_emitter.precomp''),
     (''luanode.free_list'', ''luaopen_LuaNode_FreeList'', ''free_list.precomp''),
     (''luanode.fs'', ''luaopen_LuaNode_Fs'', ''fs.precomp''),
     (''luanode.introspect'', ''luaopen_LuaNode_Introspect'', ''introspect.precomp''),
     (''luanode.http'', ''luaopen_LuaNode_Http'', ''http.precomp''),
     (''luanode.net'', ''luaopen_LuaNode_Net'', ''net.precomp''),
     (''luanode.datagram'', ''luaopen_LuaNode_Datagram'', ''datagram.precomp''),
     (''luanode.path'', ''luaopen_LuaNode_Path'', ''path.precomp''),
     (''luanode.querystring'', ''luaopen_LuaNode_QueryString'', ''querystring.precomp''),
     (''luanode.stream'', ''luaopen_LuaNode_Stream'', ''stream.precomp''),
     (''luanode.url'', ''luaopen_LuaNode_Url'', ''url.precomp''),
     (''luanode.timers'', ''luaopen_LuaNode_Timers'', ''timers.precomp''),
     (''luanode.console'', ''luaopen_LuaNode_Console'', ''console.precomp''),
     (''luanode.utils'', ''luaopen_LuaNode_Utils'', ''utils.precomp''),
     (''luanode.script'', ''luaopen_LuaNode_Script'', ''script.precomp''),
     (''luanode.tty'', ''luaopen_LuaNode_Tty'', ''tty.precomp''),
     (''luanode.repl'', ''luaopen_LuaNode_Repl'', ''repl.precomp''),
     (''luanode.readline'', ''luaopen_LuaNode_Readline'', ''readline.precomp''),
     (''luanode.__private_url'', ''luaopen_LuaNode_Private_Url'', ''__private_url.precomp''),
     (''luanode.__private_traverse'', ''luaopen_LuaNode_Private_Traverse'', ''__private_traverse.precomp''),
     (''luanode.__private_luastate'', ''luaopen_LuaNode_Private_LuaState'', ''__private_luastate.precomp'')]"

lemma set_preload_run:
  assumes "rt_stack s = xs @ [LObj q]"
  shows "result (set_preload k f) s = Inr ()"
    and "exec (set_preload k f) s = s\<lparr>rt_objs := (rt_objs s)(q := (rt_objs s q)(k := f))\<rparr>"
  using assms by (simp_all add: set_preload_def lua_prim_defs)

lemma preload_all_run:
  assumes "rt_stack s = xs @ [LObj q]"
  shows "run_state (preload_all kvs) s = (Inr (),
      s\<lparr>rt_objs := (rt_objs s)(q := (\<lambda>k. case map_of (rev kvs) k of None \<Rightarrow> rt_objs s q k | Some f \<Rightarrow> f))\<rparr>)"
  using assms
proof (induction kvs arbitrary: s)
  case (Cons kv kvs)
  obtain k f where kv: "kv = (k, f)" by (cases kv)
  let ?s = "s\<lparr>rt_objs := (rt_objs s)(q := (rt_objs s q)(k := f))\<rparr>"
  have s: "rt_stack ?s = xs @ [LObj q]" using Cons.prems by simp
  show ?case
    using Cons.IH [OF s] set_preload_run [OF Cons.prems, of k f]
    by (auto simp: kv run_state_split fun_eq_iff map_add_def split: option.splits)
qed (simp add: run_state_split)

lemma preload_into_run:
  assumes "rt_globals s ''package'' = LObj p" and "rt_objs s p ''preload'' = LObj q"
  shows "result (preload_into kvs) s = Inr ()"
    and "exec (preload_into kvs) s =
      s\<lparr>rt_objs := (rt_objs s)(q := (\<lambda>k. case map_of (rev kvs) k of None \<Rightarrow> rt_objs s q k | Some f \<Rightarrow> f))\<rparr>"
proof -
  let ?s = "s\<lparr>rt_stack := rt_stack s @ [LObj p, LObj q]\<rparr>"
  have "rt_stack ?s = (rt_stack s @ [LObj p]) @ [LObj q]" by simp
  note run = preload_all_run [OF this, of kvs]
  have get: "exec (lua_getfield_top ''preload'') (exec (lua_getglobal ''package'') s) = ?s"
    "result (lua_getfield_top ''preload'') (exec (lua_getglobal ''package'') s) = Inr ()"
    using assms by (simp_all add: lua_getglobal_def lua_getfield_top_def)
  show "result (preload_into kvs) s = Inr ()"
    and "exec (preload_into kvs) s =
      s\<lparr>rt_objs := (rt_objs s)(q := (\<lambda>k. case map_of (rev kvs) k of None \<Rightarrow> rt_objs s q k | Some f \<Rightarrow> f))\<rparr>"
    using run by (simp_all add: preload_into_def get lua_prim_defs run_state_split cong: option.case_cong)
qed

lemma luaopen_chunk_run:
  assumes "pre src name = Inr f"
  shows "exec (c_call (luaopen_chunk src name lua pre) args) s =
      (exec (lua f args) (s\<lparr>rt_stack := [], rt_calls := rt_calls s @ [(f, args)]\<rparr>))\<lparr>rt_stack := rt_stack s\<rparr>"
    and "result (c_call (luaopen_chunk src name lua pre) args) s =
      (case result (lua f args) (s\<lparr>rt_stack := [], rt_calls := rt_calls s @ [(f, args)]\<rparr>) of
         Inl e \<Rightarrow> Inl e | Inr vs \<Rightarrow> Inr [if vs = [] then LNil else hd vs])"
  using assms
  by (auto simp: c_call_def luaopen_chunk_def lua_call1_def Let_def lua_prim_defs stack_top_def split: sum.splits)

lemma preload_keys: "distinct (map fst (preload_table fn))"
  by (simp add: preload_table_def)

lemma preload_table_spec: "preload_table fn = map (\<lambda>(name, opener, src). (name, LFun (fn opener))) module_files"
  by (simp add: preload_table_def module_files_def)

lemma module_entry:
  assumes "(name, opener, src) \<in> set module_files"
  shows "map_of (rev (preload_table fn)) name = Some (LFun (fn opener))"
proof -
  have "(name, LFun (fn opener)) \<in> set (rev (preload_table fn))"
    using assms by (force simp: preload_table_spec)
  then show ?thesis
    using preload_keys [of fn] by (intro map_of_is_SomeI) (simp_all add: rev_map [symmetric])
qed

text \<open>The chunk's name, in messages: that of the module but for one.\<close>

definition chunk_name :: "string \<Rightarrow> string" where
  "chunk_name name = (if name = ''luanode.free_list'' then ''luanode.freelist'' else name)"

lemma openers_spec:
  assumes "(name, opener, src) \<in> set module_files"
  shows "map_of openers opener = Some (luaopen_chunk src (chunk_name name))"
proof -
  have "set (map (\<lambda>(name, opener, src). (opener, luaopen_chunk src (chunk_name name))) module_files) \<subseteq> set openers"
    by (simp add: module_files_def openers_def opener_defs chunk_name_def)
  with assms have "(opener, luaopen_chunk src (chunk_name name)) \<in> set openers" by force
  moreover have "distinct (map fst openers)" by (simp add: openers_def)
  ultimately show ?thesis by (simp add: map_of_is_SomeI)
qed

lemma find_opener:
  assumes "inj fn"
  shows "find (\<lambda>o'. fn n = fn (fst o')) os = map_option (Pair n) (map_of os n)"
  by (induction os) (auto simp: inj_eq [OF assms])

lemma opener_entry:
  assumes "inj fn" and "(name, opener, src) \<in> set module_files"
  shows "with_openers fn pre lua (LFun (fn opener)) args =
    c_call (luaopen_chunk src (chunk_name name) lua pre) args"
  by (simp add: with_openers_def find_opener [OF assms(1)] openers_spec [OF assms(2)])

text \<open>
  C24: After \<open>PreloadModules\<close> every module of LuaNode can be required: the field of its name in
  \<^verbatim>\<open>package.preload\<close> is the function that runs the compiled text of that module, with the
  arguments of \<^verbatim>\<open>require\<close> and in a frame of its own, and gives its first result; an error of
  the module is an error of the call.  No other field and nothing else of the state changes.
\<close>
theorem modules_are_preloaded:
  fixes args :: "lval list"
  assumes "inj fn" and "rt_globals s ''package'' = LObj p" and "rt_objs s p ''preload'' = LObj q"
    and "(name, opener, src) \<in> set module_files" and "pre src (chunk_name name) = Inr f"
  defines "t \<equiv> exec (PreloadModules fn) s"
  defines "u \<equiv> t\<lparr>rt_stack := [], rt_calls := rt_calls t @ [(f, args)]\<rparr>"
  shows "result (PreloadModules fn) s = Inr () \<and>
    t = s\<lparr>rt_objs := (rt_objs s)(q := (\<lambda>k. case map_of (rev (preload_table fn)) k of
      None \<Rightarrow> rt_objs s q k | Some v \<Rightarrow> v))\<rparr> \<and>
    exec (with_openers fn pre lua (rt_objs t q name) args) t =
      (exec (lua f args) u)\<lparr>rt_stack := rt_stack s\<rparr> \<and>
    result (with_openers fn pre lua (rt_objs t q name) args) t =
      (case result (lua f args) u of Inl e \<Rightarrow> Inl e | Inr vs \<Rightarrow> Inr [if vs = [] then LNil else hd vs])"
proof -
  note pre = preload_into_run [OF assms(2,3), of "preload_table fn", folded PreloadModules_def]
  note run = luaopen_chunk_run [of pre src "chunk_name name" f, OF assms(5), where lua = lua and args = args and s = t, folded u_def]
  have "rt_objs t q name = LFun (fn opener)"
    using pre(2) module_entry [OF assms(4), of fn] by (simp add: t_def)
  moreover have "rt_stack t = rt_stack s" using pre(2) by (simp add: t_def)
  ultimately show ?thesis
    using pre run opener_entry [OF assms(1,4), of pre lua args] by (simp add: t_def)
qed

definition package_runtime :: runtime where
  "package_runtime = \<lparr>rt_env = sample_env, rt_stack = [], rt_reg = (\<lambda>_. None),
     rt_objs = (\<lambda>p k. if p = 1 \<and> k = ''preload'' then LObj 2 else LNil), rt_calls = [],
     need_tick_cb = False, tickCallback = LUA_NOREF, posted_ticks = 0, io_stopped = False, exit_code = 0,
     uncaught_exception_counter = 0, m_error_handler = LUA_NOREF,
     rt_globals = (\<lambda>k. if k = ''package'' then LObj 1 else LNil), rt_tables = (\<lambda>_. True), rt_stderr = []\<rparr>"

lemma modules_are_preloaded_witness:
  "result (with_openers to_nat (\<lambda>src name. if src = ''net.precomp'' then Inr (LFun 3) else Inl LNil)
     (\<lambda>f args. ret (if f = LFun 3 then Inr args else Inl LNil))
     (rt_objs (exec (PreloadModules to_nat) package_runtime) 2 ''luanode.net'') [LStr ''luanode.net''])
     (exec (PreloadModules to_nat) package_runtime) = Inr [LStr ''luanode.net'']"
proof -
  note m = modules_are_preloaded [where fn = to_nat and s = package_runtime and p = 1 and q = 2
      and name = "''luanode.net''" and opener = "''luaopen_LuaNode_Net''" and src = "''net.precomp''"
      and pre = "\<lambda>src name. if src = ''net.precomp'' then Inr (LFun 3) else Inl LNil" and f = "LFun 3"
      and args = "[LStr ''luanode.net'']" and lua = "\<lambda>f args. ret (if f = LFun 3 then Inr args else Inl LNil)"]
  have "rt_globals package_runtime ''package'' = LObj 1" "rt_objs package_runtime 1 ''preload'' = LObj 2"
    "(''luanode.net'', ''luaopen_LuaNode_Net'', ''net.precomp'') \<in> set module_files"
    by (simp_all add: package_runtime_def module_files_def)
  from m [OF inj_to_nat this, THEN conjunct2, THEN conjunct2, THEN conjunct2] show ?thesis
    by simp
qed

end
