(* ===== verification/Start_Up.thy ===== *)
theory Start_Up
  imports Preloader Command_Line
begin

section \<open>The life of the process (\<^verbatim>\<open>src/luanode.cpp\<close>, \<^verbatim>\<open>src/platform_linux.cpp\<close>)\<close>

text \<open>
  \<^verbatim>\<open>main\<close> and \<^verbatim>\<open>Load\<close>: the chunks of the command line run under \<^verbatim>\<open>docall\<close> with the
  interpreter's own error reports, the table \<^verbatim>\<open>process\<close> is built (\<^verbatim>\<open>argv\<close>, \<^verbatim>\<open>env\<close>,
  \<^verbatim>\<open>execPath\<close> and the functions), \<^verbatim>\<open>node.lua\<close> is called with it, and what \<^verbatim>\<open>Load\<close> made or
  \<^verbatim>\<open>main\<close> allocated is released at the end or by \<^verbatim>\<open>AtExit\<close>.

  The state is the Lua runtime of \<^verbatim>\<open>Event_Loop\<close> with what the C side of the process adds: the
  signal dispositions and the two global objects.  Parameters: \<open>lua\<close> and \<open>load\<close> as in
  \<^verbatim>\<open>Event_Loop\<close>, \<open>loadfile\<close> the compiler of files, \<open>readlink\<close> the system call.
\<close>

subsection \<open>State\<close>

datatype sig_action = SIG_DFL | SIG_IGN | Laction | Signal_Exit

record process =
  pr_vm :: runtime
  on_sigint :: sig_action
  on_sigterm :: sig_action
  on_sigpipe :: sig_action
  gc_runs :: nat
  luaVm :: "nat option"
  logger :: "nat option"
  pr_live :: "nat set"
  pr_next :: nat
  bad_delete :: bool

type_synonym 'r proc = "(process, 'r) state"

definition on_vm :: "'r vm \<Rightarrow> 'r proc" where
  "on_vm m = State (\<lambda>p. (result m (pr_vm p), p\<lparr>pr_vm := exec m (pr_vm p)\<rparr>))"

lemma run_on_vm [simp]:
  "result (on_vm m) p = result m (pr_vm p)"
  "exec (on_vm m) p = p\<lparr>pr_vm := exec m (pr_vm p)\<rparr>"
  by (simp_all add: on_vm_def result_def exec_def)

definition LUANODE_PROGNAME :: string where "LUANODE_PROGNAME = ''LuaNode''"
definition LUANODE_VERSION :: string where "LUANODE_VERSION = ''0.0.2''"
definition EXIT_SUCCESS :: int where "EXIT_SUCCESS = 0"

subsection \<open>Messages of the interpreter\<close>

text \<open>One line of the standard error.\<close>

definition l_message :: "string option \<Rightarrow> string \<Rightarrow> unit vm" where
  "l_message pname msg =
     print_stderr ((case pname of None \<Rightarrow> [] | Some p \<Rightarrow> p @ '': '') @ msg)"

definition report_text :: "lua_env \<Rightarrow> lval \<Rightarrow> string" where
  "report_text env v = (case as_string env v of
     None \<Rightarrow> ''(error object is not a string)'' | Some msg \<Rightarrow> msg)"

definition report :: "int \<Rightarrow> int vm" where
  "report status = do {
     v \<leftarrow> gets (\<lambda>s. stack_top (rt_stack s));
     env \<leftarrow> gets rt_env;
     whenM (status \<noteq> 0 \<and> v \<noteq> LNil) (do {
       l_message (Some LUANODE_PROGNAME) (report_text env v);
       lua_pop 1
     });
     ret status
   }"

subsection \<open>\<^verbatim>\<open>traceback\<close> and \<^verbatim>\<open>docall\<close>\<close>

text \<open>
  \<open>TRACEBACK\<close> is the C function pushed as the error handler; \<open>with_traceback\<close> runs it in a
  frame of its own when it is called, and is \<open>lua\<close> for every other function.
\<close>

definition TRACEBACK :: lval where "TRACEBACK = LFun 0"

definition traceback :: "lua_code \<Rightarrow> (lval + nat) vm" where
  "traceback lua = do {
     isstring \<leftarrow> gets (\<lambda>s. as_string (rt_env s) (stack_at (rt_stack s) 1) \<noteq> None);
     if \<not> isstring then ret (Inr 1)
     else do {
       lua_getglobal ''debug'';
       table \<leftarrow> lua_istable_top;
       if \<not> table then do { lua_pop 1; ret (Inr 1) }
       else do {
         r \<leftarrow> lua_getfield_top ''traceback'';
         t \<leftarrow> lua_toptype;
         if t \<noteq> TFunction then do { lua_pop 2; ret (Inr 1) }
         else do {
           lua_pushvalue 1;
           lua_push (LNum 2);
           c \<leftarrow> lua_call1 lua 2;
           ret (case c of Inl e \<Rightarrow> Inl e | Inr _ \<Rightarrow> Inr 1)
         }
       }
     }
   }"

definition with_traceback :: "lua_code \<Rightarrow> lua_code" where
  "with_traceback lua f args = (if f = TRACEBACK then c_call (traceback lua) args else lua f args)"

text \<open>\<open>clear\<close> asks for no results instead of all of them.\<close>

definition docall :: "lua_code \<Rightarrow> nat \<Rightarrow> bool \<Rightarrow> int proc" where
  "docall lua narg clear = do {
     top \<leftarrow> on_vm lua_gettop;
     let base = top - narg;
     on_vm (lua_push TRACEBACK);
     on_vm (lua_insert base);
     modify (\<lambda>p. p\<lparr>on_sigint := Laction\<rparr>);
     status \<leftarrow> on_vm (lua_pcall (with_traceback lua) narg base);
     whenM (clear \<and> status = 0) (on_vm (lua_settop base));
     modify (\<lambda>p. p\<lparr>on_sigint := SIG_DFL\<rparr>);
     on_vm (lua_remove base);
     whenM (status \<noteq> 0) (modify (\<lambda>p. p\<lparr>gc_runs := gc_runs p + 1\<rparr>));
     ret status
   }"

subsection \<open>Chunks, files and libraries\<close>

text \<open>
  \<^verbatim>\<open>luaL_load... || docall(...)\<close> is 1 for whatever status either of them had.
\<close>

definition run_loaded :: "lua_code \<Rightarrow> lval + lval \<Rightarrow> int proc" where
  "run_loaded lua chunk = do {
     status \<leftarrow> (case chunk of
         Inl err \<Rightarrow> do { on_vm (lua_push err); ret 1 }
       | Inr f \<Rightarrow> do {
           on_vm (lua_push f);
           st \<leftarrow> docall lua 0 True;
           ret (if st \<noteq> 0 then 1 else 0)
         });
     on_vm (report status)
   }"

definition dofile :: "lua_code \<Rightarrow> compiler \<Rightarrow> string \<Rightarrow> int proc" where
  "dofile lua loadfile name = run_loaded lua (loadfile name)"

definition dostring :: "lua_code \<Rightarrow> compiler \<Rightarrow> string \<Rightarrow> int proc" where
  "dostring lua load s = run_loaded lua (load s)"

definition dolibrary :: "lua_code \<Rightarrow> string \<Rightarrow> int proc" where
  "dolibrary lua name = do {
     on_vm (lua_getglobal ''require'');
     on_vm (lua_push (LStr name));
     status \<leftarrow> docall lua 1 True;
     on_vm (report status)
   }"

text \<open>What \<open>runargs\<close> does with the options it finds.\<close>

fun run_action :: "lua_code \<Rightarrow> compiler \<Rightarrow> arg_action \<Rightarrow> int proc" where
  "run_action lua load (Do_String s) = dostring lua load s"
| "run_action lua load (Do_Library name) = dolibrary lua name"

definition handle_luainit :: "lua_code \<Rightarrow> compiler \<Rightarrow> compiler \<Rightarrow> string option \<Rightarrow> int proc" where
  "handle_luainit lua load loadfile init = (case init of
     None \<Rightarrow> ret 0
   | Some x \<Rightarrow>
       if char_at x 0 = CHR ''@'' then dofile lua loadfile (drop 1 x)
       else dostring lua load x)"

subsection \<open>What a chunk leaves behind\<close>

lemma stack_at_base:
  "length xs = n \<Longrightarrow> stack_at (xs @ y # ys) (Suc n) = y"
  by simp

lemma lua_pcall_stack:
  fixes lua :: lua_code
  assumes "rt_stack s = xs @ h # f # args" and "length args = n"
  defines "r \<equiv> result (lua_pcall lua n (Suc (length xs))) s"
    and "t \<equiv> exec (lua_pcall lua n (Suc (length xs))) s"
  shows "r = 0 \<and> (\<exists>vs. rt_stack t = xs @ h # vs) \<or>
    (r = LUA_ERRRUN \<or> r = LUA_ERRERR) \<and> (\<exists>v. rt_stack t = xs @ [h, v])"
proof -
  have k: "length (rt_stack s) - Suc n = Suc (length xs)"
    "take (Suc (length xs)) (rt_stack s) = xs @ [h]"
    using assms(1,2) by simp_all
  show ?thesis
    unfolding r_def t_def lua_pcall_def
    by (auto simp: k Let_def exec_case_sum split: sum.splits)
qed

lemma docall_run:
  fixes lua :: lua_code and clear :: bool
  assumes "rt_stack (pr_vm p) = xs @ f # args" and "length args = n"
  defines "r \<equiv> result (docall lua n clear) p" and "q \<equiv> exec (docall lua n clear) p"
  shows "on_sigint q = SIG_DFL" and "q = p\<lparr>pr_vm := pr_vm q, on_sigint := SIG_DFL, gc_runs := gc_runs q\<rparr>"
    and "r = 0 \<and> (\<exists>vs. rt_stack (pr_vm q) = xs @ vs \<and> (clear \<longrightarrow> vs = [])) \<or>
      r \<noteq> 0 \<and> (\<exists>v. rt_stack (pr_vm q) = xs @ [v])"
proof -
  let ?s = "(pr_vm p)\<lparr>rt_stack := xs @ TRACEBACK # f # args\<rparr>"
  have ins: "exec (lua_insert (Suc (length xs))) (exec (lua_push TRACEBACK) (pr_vm p)) = ?s"
    using assms(1) by (simp add: lua_prim_defs Let_def stack_top_def)
  have base: "result lua_gettop (pr_vm p) - n = Suc (length xs)"
    using assms(1,2) by (simp add: lua_prim_defs)
  have s: "rt_stack ?s = xs @ TRACEBACK # f # args" by simp
  note run = lua_pcall_stack [OF s assms(2), of "with_traceback lua"]
  have gettop: "exec lua_gettop t = t" for t :: runtime
    by (simp add: lua_gettop_def)
  note defs = docall_def Let_def base gettop ins exec_whenM
  show "on_sigint q = SIG_DFL" and "q = p\<lparr>pr_vm := pr_vm q, on_sigint := SIG_DFL, gc_runs := gc_runs q\<rparr>"
    by (simp_all add: q_def defs)
  let ?t = "exec (lua_pcall (with_traceback lua) n (Suc (length xs))) ?s"
  have r: "r = result (lua_pcall (with_traceback lua) n (Suc (length xs))) ?s"
    by (simp add: r_def defs)
  have q: "pr_vm q = exec (lua_remove (Suc (length xs)))
      (if clear \<and> r = 0 then exec (lua_settop (Suc (length xs))) ?t else ?t)"
    by (simp add: q_def r defs)
  show "r = 0 \<and> (\<exists>vs. rt_stack (pr_vm q) = xs @ vs \<and> (clear \<longrightarrow> vs = [])) \<or>
      r \<noteq> 0 \<and> (\<exists>v. rt_stack (pr_vm q) = xs @ [v])"
    using run by (auto simp: q simp flip: r) (auto simp: lua_prim_defs LUA_ERRRUN_def LUA_ERRERR_def)
qed

text \<open>
  \<open>tidy\<close>: how a chunk that \<open>report\<close> has seen leaves the process.  A status of 0 means the
  stack is as it was; an error is off the stack and on the standard error, unless the error
  value is nil, which \<open>report\<close> leaves where it is.
\<close>

definition tidy :: "process \<Rightarrow> int \<Rightarrow> process \<Rightarrow> bool" where
  "tidy p status q \<longleftrightarrow>
     q = p\<lparr>pr_vm := pr_vm q, on_sigint := on_sigint q, gc_runs := gc_runs q\<rparr> \<and>
     on_sigint q \<in> {on_sigint p, SIG_DFL} \<and>
     (rt_stack (pr_vm q) = rt_stack (pr_vm p) \<and>
        (status \<noteq> 0 \<longrightarrow> (\<exists>pre msg. rt_stderr (pr_vm q) = pre @ [''LuaNode: '' @ msg])) \<or>
      status \<noteq> 0 \<and> rt_stack (pr_vm q) = rt_stack (pr_vm p) @ [LNil])"

lemma report_run:
  assumes "status \<noteq> 0" and "rt_stack s = xs @ [v]"
  shows "result (report status) s = status"
    and "rt_stack (exec (report status) s) = xs \<and>
        (\<exists>pre msg. rt_stderr (exec (report status) s) = pre @ [''LuaNode: '' @ msg]) \<or>
      rt_stack (exec (report status) s) = xs @ [LNil]"
  using assms by (auto simp: report_def l_message_def print_stderr_def LUANODE_PROGNAME_def lua_prim_defs
      exec_whenM exec_if)

lemma report_0: "run_state (report 0) s = (0, s)"
  by (simp add: report_def run_state_split exec_whenM)

lemma tidy_docall:
  fixes lua :: lua_code
  assumes "rt_stack (pr_vm p') = xs @ f # args" and "length args = n" and "xs = rt_stack (pr_vm p)"
    and "p' = p\<lparr>pr_vm := pr_vm p'\<rparr>" and "g 0 = 0" and "\<And>k. k \<noteq> 0 \<Longrightarrow> g k \<noteq> 0"
  defines "q \<equiv> exec (docall lua n True) p'" and "st \<equiv> g (result (docall lua n True) p')"
  shows "tidy p (result (report st) (pr_vm q)) (q\<lparr>pr_vm := exec (report st) (pr_vm q)\<rparr>)"
proof -
  note run = docall_run [OF assms(1,2), of lua True, folded q_def]
  have frame: "q\<lparr>pr_vm := x\<rparr> = p\<lparr>pr_vm := x, on_sigint := SIG_DFL, gc_runs := gc_runs q\<rparr>" for x
    by (subst run(2), subst assms(4)) simp
  from run(3) show ?thesis
  proof (elim disjE conjE exE)
    fix vs
    assume r: "result (docall lua n True) p' = 0" and vs: "rt_stack (pr_vm q) = xs @ vs" "True \<longrightarrow> vs = []"
    then have "st = 0" by (simp add: st_def assms(5))
    with vs show ?thesis
      using report_0 [of "pr_vm q"] by (simp add: tidy_def frame assms(3) result_def exec_def)
  next
    fix v
    assume "result (docall lua n True) p' \<noteq> 0" and v: "rt_stack (pr_vm q) = xs @ [v]"
    then have st: "st \<noteq> 0" by (simp add: st_def assms(6))
    from report_run [OF this v] st show ?thesis
      by (auto simp: tidy_def frame assms(3))
  qed
qed

lemma tidy_run_loaded:
  fixes lua :: lua_code
  shows "tidy p (result (run_loaded lua chunk) p) (exec (run_loaded lua chunk) p)"
proof (cases chunk)
  case (Inl err)
  have "rt_stack (exec (lua_push err) (pr_vm p)) = rt_stack (pr_vm p) @ [err]"
    by (simp add: lua_prim_defs)
  from report_run [OF _ this, of 1] show ?thesis
    by (auto simp: Inl run_loaded_def tidy_def lua_prim_defs)
next
  case (Inr f)
  let ?p' = "p\<lparr>pr_vm := exec (lua_push f) (pr_vm p)\<rparr>"
  have "tidy p (result (report st) (pr_vm q)) (q\<lparr>pr_vm := exec (report st) (pr_vm q)\<rparr>)"
    if "q = exec (docall lua 0 True) ?p'"
      "st = (\<lambda>k. if k \<noteq> 0 then 1 else 0) (result (docall lua 0 True) ?p')" for q st
    unfolding that by (rule tidy_docall [OF _ _ refl]) (auto simp: lua_prim_defs)
  then show ?thesis by (simp add: Inr run_loaded_def)
qed

lemma tidy_dolibrary:
  fixes lua :: lua_code
  shows "tidy p (result (dolibrary lua name) p) (exec (dolibrary lua name) p)"
proof -
  let ?p' = "p\<lparr>pr_vm := exec (lua_push (LStr name)) (exec (lua_getglobal ''require'') (pr_vm p))\<rparr>"
  have "tidy p (result (report st) (pr_vm q)) (q\<lparr>pr_vm := exec (report st) (pr_vm q)\<rparr>)"
    if "q = exec (docall lua 1 True) ?p'" "st = id (result (docall lua 1 True) ?p')" for q st
    unfolding that by (rule tidy_docall [OF _ _ refl]) (auto simp: lua_prim_defs lua_getglobal_def)
  then show ?thesis by (simp add: dolibrary_def)
qed

lemma tidy_run_action:
  fixes lua :: lua_code
  shows "tidy p (result (run_action lua load a) p) (exec (run_action lua load a) p)"
  by (cases a) (simp_all add: dostring_def tidy_run_loaded tidy_dolibrary)

lemma tidy_handle_luainit:
  fixes lua :: lua_code
  assumes "init = Some x"
  shows "tidy p (result (handle_luainit lua load loadfile init) p)
    (exec (handle_luainit lua load loadfile init) p)"
  by (simp add: assms handle_luainit_def dofile_def dostring_def tidy_run_loaded exec_if result_if)

lemma tidy_refl: "tidy p 0 p"
  by (simp add: tidy_def)

lemma tidy_trans:
  assumes "tidy p 0 q" and "tidy q status t"
  shows "tidy p status t"
proof -
  have p: "q = p\<lparr>pr_vm := pr_vm q, on_sigint := on_sigint q, gc_runs := gc_runs q\<rparr>"
    and stack: "rt_stack (pr_vm q) = rt_stack (pr_vm p)" and int: "on_sigint q \<in> {on_sigint p, SIG_DFL}"
    using assms(1) by (auto simp: tidy_def)
  have "t = q\<lparr>pr_vm := pr_vm t, on_sigint := on_sigint t, gc_runs := gc_runs t\<rparr>"
    using assms(2) by (simp add: tidy_def)
  then have "t = p\<lparr>pr_vm := pr_vm t, on_sigint := on_sigint t, gc_runs := gc_runs t\<rparr>"
    by (subst (asm) p) simp
  then show ?thesis
    using assms(2) stack int by (auto simp: tidy_def)
qed

lemma tidy_status:
  "tidy p k q \<Longrightarrow> k \<noteq> 0 \<Longrightarrow> tidy p 1 q"
  by (auto simp: tidy_def)

text \<open>What the options of the command line do is tidy, so the whole run is.\<close>

interpretation chunks: chunk_runner "run_action lua load" tidy for lua :: lua_code and load :: compiler
  by unfold_locales (fact tidy_refl tidy_trans tidy_status tidy_run_action)+

text \<open>
  The run of an option before \<open>report\<close> sees it: with a status that is not 0 the error value is on
  top of the stack.
\<close>

fun unreported :: "lua_code \<Rightarrow> compiler \<Rightarrow> arg_action \<Rightarrow> int proc" where
  "unreported lua load (Do_String x) = (case load x of
     Inl err \<Rightarrow> do { on_vm (lua_push err); ret 1 }
   | Inr f \<Rightarrow> do { on_vm (lua_push f); docall lua 0 True })"
| "unreported lua load (Do_Library name) = do {
     on_vm (lua_getglobal ''require'');
     on_vm (lua_push (LStr name));
     docall lua 1 True
   }"

text \<open>\<open>reported r xs t\<close>: from the machine \<open>r\<close>, with an error value on top of \<open>xs\<close>, \<open>report\<close> makes \<open>t\<close>.\<close>

definition reported :: "runtime \<Rightarrow> lval list \<Rightarrow> runtime \<Rightarrow> bool" where
  "reported r xs t \<longleftrightarrow> (let v = stack_top (rt_stack r) in rt_stack r = xs @ [v] \<and>
     t = (if v = LNil then r
       else r\<lparr>rt_stack := xs, rt_stderr := rt_stderr r @ [''LuaNode: '' @ report_text (rt_env r) v]\<rparr>))"

lemma reported_report:
  assumes "status \<noteq> 0" and "rt_stack r = xs @ [v]"
  shows "reported r xs (exec (report status) r)"
  using assms by (auto simp: reported_def Let_def stack_top_def report_def l_message_def print_stderr_def
      LUANODE_PROGNAME_def lua_prim_defs exec_whenM exec_if)

lemma result_report [simp]: "result (report status) s = status"
  by (simp add: report_def)

lemma action_reported:
  fixes lua :: lua_code
  assumes "result (run_action lua load a) p \<noteq> 0"
  shows "reported (pr_vm (exec (unreported lua load a) p)) (rt_stack (pr_vm p)) (pr_vm (exec (run_action lua load a) p))"
proof -
  have docall: "reported (pr_vm q) (rt_stack (pr_vm p)) (exec (report st) (pr_vm q))"
    if "rt_stack (pr_vm p') = rt_stack (pr_vm p) @ f # args" "length args = n" "result (docall lua n True) p' \<noteq> 0"
      "q = exec (docall lua n True) p'" "st \<noteq> 0" for p' f args n st q
    using docall_run(3) [OF that(1,2), of lua True] that(3,5) reported_report unfolding that(4) by blast
  show ?thesis
  proof (cases a)
    case (Do_String x)
    show ?thesis
    proof (cases "load x")
      case (Inl err)
      then show ?thesis
        using reported_report [of 1 "exec (lua_push err) (pr_vm p)" "rt_stack (pr_vm p)" err]
        by (simp add: Do_String dostring_def run_loaded_def lua_prim_defs)
    next
      case (Inr f)
      let ?p = "p\<lparr>pr_vm := exec (lua_push f) (pr_vm p)\<rparr>"
      have fail: "result (docall lua 0 True) ?p \<noteq> 0"
        using assms by (auto simp: Do_String dostring_def run_loaded_def Inr)
      have "rt_stack (pr_vm ?p) = rt_stack (pr_vm p) @ f # []" by (simp add: lua_prim_defs)
      from docall [OF this _ fail refl, of 1] fail show ?thesis
        by (simp add: Do_String dostring_def run_loaded_def Inr)
    qed
  next
    case (Do_Library name)
    let ?p = "p\<lparr>pr_vm := exec (lua_push (LStr name)) (exec (lua_getglobal ''require'') (pr_vm p))\<rparr>"
    have fail: "result (docall lua 1 True) ?p \<noteq> 0"
      using assms by (simp add: Do_Library dolibrary_def)
    have "rt_stack (pr_vm ?p) = rt_stack (pr_vm p) @ rt_globals (pr_vm p) ''require'' # [LStr name]"
      by (simp add: lua_prim_defs lua_getglobal_def)
    from docall [OF this _ fail refl fail] show ?thesis
      by (simp add: Do_Library dolibrary_def)
  qed
qed

text \<open>The run as a whole: the options that succeeded, and the one that failed.\<close>

lemma run_all_append:
  assumes "result (run_all E as) p = Some 0"
  shows "run_state (run_all E (as @ bs)) p = run_state (run_all E bs) (exec (run_all E as) p)"
  using assms by (induction as arbitrary: p) (auto simp: run_state_split result_if exec_if split: if_splits)

definition trace_of :: "(arg_action \<Rightarrow> int proc) \<Rightarrow> process \<Rightarrow> int \<Rightarrow> process \<Rightarrow> bool" where
  "trace_of E p status q \<longleftrightarrow> (\<exists>as. result (run_all E as) p = Some 0 \<and>
     (if status = 0 then q = exec (run_all E as) p
      else \<exists>a. result (E a) (exec (run_all E as) p) \<noteq> 0 \<and> q = exec (E a) (exec (run_all E as) p)))"

interpretation traces: chunk_runner E "trace_of E" for E :: "arg_action \<Rightarrow> int proc"
proof unfold_locales
  show "trace_of E p 0 p" for p unfolding trace_of_def by (intro exI [of _ "[]"]) simp
  show "trace_of E p status t" if t: "trace_of E p 0 q" "trace_of E q status t" for p q t status
  proof -
    obtain as where as: "result (run_all E as) p = Some 0" "q = exec (run_all E as) p"
      using t(1) by (auto simp: trace_of_def)
    obtain bs where bs: "result (run_all E bs) q = Some 0" "if status = 0 then t = exec (run_all E bs) q
        else \<exists>a. result (E a) (exec (run_all E bs) q) \<noteq> 0 \<and> t = exec (E a) (exec (run_all E bs) q)"
      using t(2) by (auto simp: trace_of_def)
    have "result (run_all E (as @ bs)) p = Some 0" "exec (run_all E (as @ bs)) p = exec (run_all E bs) q"
      using run_all_append [OF as(1), of bs] as(2) bs(1) by (simp_all add: run_state_split)
    with bs show ?thesis unfolding trace_of_def by (intro exI [of _ "as @ bs"]) simp
  qed
  show "trace_of E p 1 q" if "trace_of E p k q" "k \<noteq> 0" for p k q
    using that by (auto simp: trace_of_def)
  show "trace_of E p (result (E a) p) (exec (E a) p)" for p a
  proof (cases "result (E a) p = 0")
    case True
    then show ?thesis unfolding trace_of_def by (intro exI [of _ "[a]"]) (simp add: result_if exec_if)
  next
    case False
    then show ?thesis unfolding trace_of_def by (intro exI [of _ "[]"]) auto
  qed
qed

lemma run_all_tidy:
  fixes lua :: lua_code
  assumes "result (run_all (run_action lua load) as) p = Some 0"
  shows "tidy p 0 (exec (run_all (run_action lua load) as) p)"
  using assms
proof (induction as arbitrary: p)
  case (Cons a as)
  then have a: "result (run_action lua load a) p = 0" "result (run_all (run_action lua load) as) (exec (run_action lua load a) p) = Some 0"
    by (auto simp: result_if split: if_splits)
  from tidy_trans [OF _ Cons.IH [OF a(2)], of p] tidy_run_action [of p lua load a] a(1) show ?case
    by (simp add: exec_if)
qed (simp add: tidy_refl)

lemma run_action_sigint:
  fixes lua :: lua_code
  assumes "result (run_action lua load a) p = 0"
  shows "on_sigint (exec (run_action lua load a) p) = SIG_DFL"
proof -
  have report: "status = 0" if "result (report status) s = 0" for status s
    using that by (simp add: report_def)
  have chunk: "on_sigint (exec (run_loaded lua c) p) = SIG_DFL" if "result (run_loaded lua c) p = 0" for c
    using that by (cases c) (auto simp: run_loaded_def docall_def Let_def exec_whenM dest: report)
  have library: "on_sigint (exec (dolibrary lua name) p) = SIG_DFL" for name
    by (simp add: dolibrary_def docall_def Let_def exec_whenM)
  from assms show ?thesis
    by (cases a) (simp_all add: dostring_def chunk library)
qed

lemma run_all_sigint:
  fixes lua :: lua_code
  assumes "as \<noteq> []" and "result (run_all (run_action lua load) as) p = Some 0"
  shows "on_sigint (exec (run_all (run_action lua load) as) p) = SIG_DFL"
  using assms
proof (induction as arbitrary: p)
  case (Cons a as)
  from Cons.prems(2) have a: "result (run_action lua load a) p = 0"
    by (auto simp: result_if split: if_splits)
  show ?case
  proof (cases "as = []")
    case True
    then show ?thesis using a run_action_sigint [OF a] by simp
  next
    case False
    then show ?thesis using Cons.IH [of "exec (run_action lua load a) p"] Cons.prems(2) a by simp
  qed
qed simp

subsection \<open>Signals\<close>

datatype sig_name =
    SIGABRT | SIGFPE | SIGILL | SIGINT | SIGSEGV | SIGTERM | SIGALRM | SIGHUP | SIGKILL | SIGPIPE
  | SIGQUIT | SIGUSR1 | SIGUSR2 | SIGCHLD | SIGCONT | SIGSTOP | SIGTSTP | SIGTTIN | SIGTTOU
  | SIGBUS | SIGPOLL | SIGPROF | SIGSYS | SIGTRAP | SIGURG | SIGVTALRM | SIGXCPU | SIGXFSZ
  | Other_Signal int

fun SignalNumberToString :: "sig_name \<Rightarrow> string" where
  "SignalNumberToString SIGABRT = ''SIGABRT''"
| "SignalNumberToString SIGFPE = ''SIGFPE''"
| "SignalNumberToString SIGILL = ''SIGILL''"
| "SignalNumberToString SIGINT = ''SIGINT''"
| "SignalNumberToString SIGSEGV = ''SIGSEGV''"
| "SignalNumberToString SIGTERM = ''SIGTERM''"
| "SignalNumberToString SIGALRM = ''SIGALRM''"
| "SignalNumberToString SIGHUP = ''SIGHUP''"
| "SignalNumberToString SIGKILL = ''SIGKILL''"
| "SignalNumberToString SIGPIPE = ''SIGPIPE''"
| "SignalNumberToString SIGQUIT = ''SIGQUIT''"
| "SignalNumberToString SIGUSR1 = ''SIGUSR1''"
| "SignalNumberToString SIGUSR2 = ''SIGUSR2''"
| "SignalNumberToString SIGCHLD = ''SIGCHLD''"
| "SignalNumberToString SIGCONT = ''SIGCONT''"
| "SignalNumberToString SIGSTOP = ''SIGSTOP''"
| "SignalNumberToString SIGTSTP = ''SIGTSTP''"
| "SignalNumberToString SIGTTIN = ''SIGTTIN''"
| "SignalNumberToString SIGTTOU = ''SIGTTOU''"
| "SignalNumberToString SIGBUS = ''SIGBUS''"
| "SignalNumberToString SIGPOLL = ''SIGPOLL''"
| "SignalNumberToString SIGPROF = ''SIGPROF''"
| "SignalNumberToString SIGSYS = ''SIGSYS''"
| "SignalNumberToString SIGTRAP = ''SIGTRAP''"
| "SignalNumberToString SIGURG = ''SIGURG''"
| "SignalNumberToString SIGVTALRM = ''SIGVTALRM''"
| "SignalNumberToString SIGXCPU = ''SIGXCPU''"
| "SignalNumberToString SIGXFSZ = ''SIGXFSZ''"
| "SignalNumberToString (Other_Signal n) = ''unknown''"

text \<open>The signals whose disposition the program sets; \<open>deliver\<close> is what one of them then does.\<close>

fun RegisterSignalHandler :: "sig_name \<Rightarrow> sig_action \<Rightarrow> unit proc" where
  "RegisterSignalHandler SIGINT h = modify (\<lambda>p. p\<lparr>on_sigint := h\<rparr>)"
| "RegisterSignalHandler SIGTERM h = modify (\<lambda>p. p\<lparr>on_sigterm := h\<rparr>)"
| "RegisterSignalHandler SIGPIPE h = modify (\<lambda>p. p\<lparr>on_sigpipe := h\<rparr>)"
| "RegisterSignalHandler _ h = ret ()"

definition register_signals :: "unit proc" where
  "register_signals = do {
     RegisterSignalHandler SIGPIPE SIG_IGN;
     RegisterSignalHandler SIGINT Signal_Exit;
     RegisterSignalHandler SIGTERM Signal_Exit
   }"

subsection \<open>\<^verbatim>\<open>process.env\<close> and \<^verbatim>\<open>process.argv\<close>\<close>

text \<open>The name and the value of an entry; an entry without \<^verbatim>\<open>=\<close> has an empty value.\<close>

definition env_name :: "string \<Rightarrow> string" where
  "env_name entry = takeWhile (\<lambda>c. c \<noteq> CHR ''='') entry"

definition env_value :: "string \<Rightarrow> string" where
  "env_value entry = drop (length (env_name entry) + 1) entry"

text \<open>\<^verbatim>\<open>lua_settable\<close>: the value on top and the key below it go into the table at an index.\<close>

definition lua_settable :: "nat \<Rightarrow> unit vm" where
  "lua_settable t = modify (\<lambda>s. let xs = rt_stack s; n = length xs - 2; ys = take n xs in
     s\<lparr>rt_stack := ys[t - 1 := tab_set (xs ! n) (stack_top xs) (stack_at ys t)]\<rparr>)"

fun env_loop :: "nat \<Rightarrow> string list \<Rightarrow> unit vm" where
  "env_loop envTable [] = ret ()"
| "env_loop envTable (entry # environ) = do {
     lua_push (LStr (env_name entry));
     lua_push (LStr (env_value entry));
     lua_settable envTable;
     env_loop envTable environ
   }"

definition push_env :: "string list \<Rightarrow> unit vm" where
  "push_env environ = do {
     lua_push (LTab []);
     envTable \<leftarrow> lua_gettop;
     env_loop envTable environ
   }"

text \<open>\<^verbatim>\<open>lua_pushstring\<close> pushes nil for a null pointer.\<close>

definition arg_value :: "string option \<Rightarrow> lval" where
  "arg_value a = (case a of None \<Rightarrow> LNil | Some x \<Rightarrow> LStr x)"

fun argv_loop :: "nat \<Rightarrow> nat \<Rightarrow> string option list \<Rightarrow> unit vm" where
  "argv_loop argArray j [] = ret ()"
| "argv_loop argArray j (a # args) = do {
     lua_push (arg_value a);
     lua_rawseti argArray (int j);
     argv_loop argArray (j + 1) args
   }"

definition push_argv :: "nat \<Rightarrow> parsed \<Rightarrow> unit vm" where
  "push_argv argc p = do {
     lua_push (LTab []);
     argArray \<leftarrow> lua_gettop;
     lua_push (arg_value (hd (p_argv p)));
     lua_rawseti argArray (-1);
     argv_loop argArray 0 (process_argv argc p)
   }"

text \<open>Looking into a table that is a value.\<close>

fun tab_get :: "lval \<Rightarrow> lval \<Rightarrow> lval" where
  "tab_get (LTab kvs) k = (case map_of kvs k of None \<Rightarrow> LNil | Some v \<Rightarrow> v)"
| "tab_get _ k = LNil"

fun is_tab :: "lval \<Rightarrow> bool" where
  "is_tab (LTab _) = True"
| "is_tab _ = False"

lemma field_of_tab: "is_tab t \<Longrightarrow> field_of h t k = tab_get t (LStr k)"
  by (cases t) auto

lemma is_tab_set [simp]: "is_tab (tab_set k v t) = is_tab t"
  by (cases t) auto

lemma map_of_filter_key: "map_of (filter (\<lambda>p. fst p \<noteq> k) kvs) k' = (if k = k' then None else map_of kvs k')"
  by (induction kvs) auto

lemma tab_get_set [simp]:
  "is_tab t \<Longrightarrow> tab_get (tab_set k v t) k' = (if k' = k then v else tab_get t k')"
  by (cases t) (auto simp: map_of_filter_key map_add_def split: option.splits)

lemma settable_run:
  "exec (lua_settable (Suc (length xs))) (s\<lparr>rt_stack := xs @ [t, k, v]\<rparr>) = s\<lparr>rt_stack := xs @ [tab_set k v t]\<rparr>"
  by (simp add: lua_settable_def Let_def stack_top_def nth_append)

lemma settab_run:
  "exec (lua_settab (Suc (length xs)) k) (s\<lparr>rt_stack := xs @ [t, v]\<rparr>) = s\<lparr>rt_stack := xs @ [tab_set k v t]\<rparr>"
  by (simp add: lua_settab_def Let_def stack_top_def)

lemma env_loop_run:
  "exec (env_loop (Suc (length xs)) environ) (s\<lparr>rt_stack := xs @ [t]\<rparr>) =
   s\<lparr>rt_stack := xs @ [fold (\<lambda>e. tab_set (LStr (env_name e)) (LStr (env_value e))) environ t]\<rparr>"
  by (induction environ arbitrary: t) (simp_all add: lua_push_def settable_run)

lemma argv_loop_run:
  "exec (argv_loop (Suc (length xs)) j args) (s\<lparr>rt_stack := xs @ [t]\<rparr>) =
   s\<lparr>rt_stack := xs @ [fold (\<lambda>(i, a). tab_set (LNum (int i)) (arg_value a)) (enumerate j args) t]\<rparr>"
  by (induction args arbitrary: t j) (simp_all add: lua_push_def lua_rawseti_def settab_run)

definition env_table :: "string list \<Rightarrow> lval" where
  "env_table environ = fold (\<lambda>e. tab_set (LStr (env_name e)) (LStr (env_value e))) environ (LTab [])"

definition argv_table :: "nat \<Rightarrow> parsed \<Rightarrow> lval" where
  "argv_table argc p = fold (\<lambda>(i, a). tab_set (LNum (int i)) (arg_value a)) (enumerate 0 (process_argv argc p))
     (tab_set (LNum (-1)) (arg_value (hd (p_argv p))) (LTab []))"

lemma push_env_run:
  "exec (push_env environ) s = s\<lparr>rt_stack := rt_stack s @ [env_table environ]\<rparr>"
  using env_loop_run [where xs = "rt_stack s" and t = "LTab []" and s = s and environ = environ]
  by (simp add: push_env_def lua_push_def lua_gettop_def env_table_def)

lemma push_argv_run:
  "exec (push_argv argc p) s = s\<lparr>rt_stack := rt_stack s @ [argv_table argc p]\<rparr>"
  using argv_loop_run [where xs = "rt_stack s" and j = 0 and args = "process_argv argc p" and s = s
      and t = "tab_set (LNum (-1)) (arg_value (hd (p_argv p))) (LTab [])"]
  by (simp add: push_argv_def lua_push_def lua_gettop_def lua_rawseti_def argv_table_def settab_run)

lemma fold_tab_set_is_tab: "is_tab t \<Longrightarrow> is_tab (fold (\<lambda>e. tab_set (k e) (v e)) es t)"
  by (induction es arbitrary: t) simp_all

lemma tab_get_fold:
  assumes "is_tab t"
  shows "tab_get (fold (\<lambda>e. tab_set (k e) (v e)) es t) x =
    (case map_of (rev (map (\<lambda>e. (k e, v e)) es)) x of None \<Rightarrow> tab_get t x | Some y \<Rightarrow> y)"
  using assms by (induction es arbitrary: t) (auto simp: map_add_def split: option.splits)

lemma is_tab_tables: "is_tab (env_table environ)" "is_tab (argv_table argc p)"
  by (auto simp: env_table_def argv_table_def case_prod_unfold intro!: fold_tab_set_is_tab)

text \<open>A name and a value as an entry of the environment; of two entries with the name the last one counts.\<close>

fun env_entry :: "string \<times> string \<Rightarrow> string" where
  "env_entry (name, val) = name @ CHR ''='' # val"

lemma env_entry_read:
  assumes "CHR ''='' \<notin> set name"
  shows "env_name (env_entry (name, val)) = name" and "env_value (env_entry (name, val)) = val"
proof -
  show "env_name (env_entry (name, val)) = name"
    using assms by (auto simp: env_name_def takeWhile_append)
  then show "env_value (env_entry (name, val)) = val"
    by (simp add: env_value_def)
qed

lemma env_lookup:
  assumes "\<forall>b\<in>set bindings. CHR ''='' \<notin> set (fst b)"
  shows "tab_get (env_table (map env_entry bindings)) (LStr name) =
    (case map_of (rev bindings) name of None \<Rightarrow> LNil | Some v \<Rightarrow> LStr v)"
proof -
  have "rev (map (\<lambda>e. (LStr (env_name e), LStr (env_value e))) (map env_entry bindings)) =
      map (\<lambda>(n, v). (LStr n, LStr v)) (rev bindings)"
    using assms env_entry_read by (auto simp: case_prod_unfold rev_map)
  moreover have "map_of (map (\<lambda>(n, v). (LStr n, LStr v)) bs) (LStr name) = map_option LStr (map_of bs name)"
    for bs :: "(string \<times> string) list"
    by (induction bs) auto
  ultimately show ?thesis
    unfolding env_table_def
    by (subst tab_get_fold) (simp_all only: is_tab.simps, simp split: option.splits)
qed

lemma argv_fold_get:
  assumes "is_tab t"
  shows "tab_get (fold (\<lambda>(i, a). tab_set (LNum (int i)) (arg_value a)) (enumerate j args) t) (LNum k) =
    (if int j \<le> k \<and> k < int j + int (length args) then arg_value (args ! nat (k - int j))
     else tab_get t (LNum k))"
  using assms
proof (induction args arbitrary: j t)
  case (Cons a args)
  have "nat (k - int j) = Suc (nat (k - (1 + int j)))" if "1 + int j \<le> k" using that by simp
  with Cons show ?case by auto
qed auto

lemma argv_lookup:
  "tab_get (argv_table argc p) (LNum k) =
    (if k = -1 then arg_value (hd (p_argv p))
     else if 0 \<le> k \<and> k < int (length (process_argv argc p)) then arg_value (process_argv argc p ! nat k)
     else LNil)"
  by (simp add: argv_table_def argv_fold_get)

subsection \<open>The path of the executable\<close>

text \<open>
  \<^verbatim>\<open>Platform::GetExecutablePath\<close> on Linux: \<open>readlink n\<close> is the target of
  \<^verbatim>\<open>/proc/self/exe\<close> cut to \<open>n\<close> bytes, or \<open>None\<close> for its \<^verbatim>\<open>-1\<close>.  \<open>sz\<close> is a \<^verbatim>\<open>size_t\<close>.
  A store outside of the buffer is the result \<open>None\<close>.
\<close>

definition GetExecutablePath ::
    "(nat \<Rightarrow> string option) \<Rightarrow> string \<Rightarrow> 64 word \<Rightarrow> (int \<times> string \<times> 64 word) option" where
  "GetExecutablePath readlink buffer sz =
     (let link = readlink (unat (sz - 1));
          buffer' = (case link of None \<Rightarrow> buffer | Some x \<Rightarrow> x @ drop (length x) buffer);
          size' = (case link of None \<Rightarrow> word_of_int (-1) | Some x \<Rightarrow> word_of_int (int (length x)))
      in if size' \<le> 0 then Some (-1, buffer', size')
         else if unat size' < length buffer' then Some (0, buffer'[unat size' := CHR 0x00], size')
         else None)"

definition c_string :: "string \<Rightarrow> string" where
  "c_string buffer = takeWhile (\<lambda>c. c \<noteq> CHR 0x00) buffer"

text \<open>What \<^verbatim>\<open>process.execPath\<close> gets: the path, or \<^verbatim>\<open>argv[0]\<close> when there is none.\<close>

definition exec_path :: "(nat \<Rightarrow> string option) \<Rightarrow> parsed \<Rightarrow> lval option" where
  "exec_path readlink p = (case GetExecutablePath readlink (replicate 2048 (CHR 0x00)) 2048 of
     None \<Rightarrow> None
   | Some (rc, buffer, sz) \<Rightarrow>
       if rc \<noteq> 0 then Some (arg_value (hd (p_argv p))) else Some (LStr (c_string buffer)))"

lemma exec_path_fails: "readlink 2047 = None \<Longrightarrow> exec_path readlink p = None"
  by (simp add: exec_path_def GetExecutablePath_def Let_def unsigned_minus_1_eq_mask mask_eq_exp_minus_1)

lemma exec_path_works:
  assumes "readlink 2047 = Some x" and "x \<noteq> []" and "length x \<le> 2047" and "CHR 0x00 \<notin> set x"
  shows "exec_path readlink p = Some (LStr x)"
proof -
  have small: "unat (word_of_int (int (length x)) :: 64 word) = length x"
    using assms(3) by (simp add: unat_of_nat take_bit_nat_eq_self)
  have pos: "\<not> (word_of_int (int (length x)) :: 64 word) \<le> 0"
    using small assms(2) by (metis length_0_conv unat_0 word_le_0_iff)
  have buf: "(x @ drop (length x) (replicate 2048 (CHR 0x00)))[length x := CHR 0x00] =
      x @ replicate (2048 - length x) (CHR 0x00)"
    using assms(3) by (cases "2048 - length x") (simp_all add: list_update_append)
  have "takeWhile (\<lambda>c. c \<noteq> CHR 0x00) (x @ replicate (2048 - length x) (CHR 0x00)) = x"
    using assms(4) by (auto simp: takeWhile_append)
  then show ?thesis
    using assms(1,3) small pos buf by (simp add: exec_path_def GetExecutablePath_def Let_def c_string_def)
qed

subsection \<open>The table \<^verbatim>\<open>process\<close>\<close>

text \<open>
  What \<open>Load\<close> asks the system: \<open>h_fn\<close> gives a C function, by its name, its Lua value, and
  \<open>h_constants\<close> and \<open>h_module_api\<close> are the values that \<^verbatim>\<open>DefineConstants\<close> and
  \<^verbatim>\<open>ModuleApi::Register\<close> push.
\<close>

record host =
  h_initialized :: bool
  h_platform :: string
  h_environ :: "string list"
  h_pid :: int
  h_readlink :: "nat \<Rightarrow> string option"
  h_luainit :: "string option"
  h_source_path :: string
  h_constants :: lval
  h_module_api :: lval
  h_fn :: "string \<Rightarrow> nat"

fun set_fields :: "nat \<Rightarrow> (string \<times> lval) list \<Rightarrow> unit vm" where
  "set_fields table [] = ret ()"
| "set_fields table ((k, v) # fs) = do {
     lua_push v;
     lua_setfield table k;
     set_fields table fs
   }"

definition internal_fields :: "host \<Rightarrow> (string \<times> lval) list" where
  "internal_fields H = (let f = (\<lambda>c. LFun (h_fn H c)) in
     [(''LogDebug'', f ''LogDebug''), (''LogInfo'', f ''LogInfo''), (''LogProfile'', f ''LogProfile''),
      (''LogWarning'', f ''LogWarning''), (''LogError'', f ''LogError''), (''LogFatal'', f ''LogFatal''),
      (''_SOURCE_PATH'', LStr (h_source_path H)),
      (''populate_introspect_counters'', f ''PopulateIntrospectCounters'')])"

definition make_process :: "host \<Rightarrow> nat \<Rightarrow> parsed \<Rightarrow> unit option vm" where
  "make_process H argc p = (let f = (\<lambda>c. LFun (h_fn H c)) in do {
     lua_push (LTab []);
     process \<leftarrow> lua_gettop;
     set_fields process [
       (''version'', LStr LUANODE_VERSION), (''platform'', LStr (h_platform H)),
       (''set_process_title'', f ''SetProcessTitle''), (''get_process_title'', f ''GetProcessTitle''),
       (''guess_handle_type'', f ''GetHandleType'')];
     lua_push (LTab []);
     internal \<leftarrow> lua_gettop;
     set_fields internal (internal_fields H);
     lua_setfield process ''__internal'';
     push_argv argc p;
     lua_setfield process ''argv'';
     push_env (h_environ H);
     lua_setfield process ''env'';
     set_fields process [(''pid'', LNum (h_pid H)), (''hrtime'', f ''HighresTime::Get''),
       (''constants'', h_constants H), (''module_api'', h_module_api H)];
     case exec_path (h_readlink H) p of
       None \<Rightarrow> ret None
     | Some path \<Rightarrow> do {
         set_fields process [(''execPath'', path), (''loop'', f ''Loop''), (''cwd'', f ''Cwd''),
           (''_needTickCallback'', f ''NeedTickCallback''), (''_exit'', f ''Exit'')];
         ret (Some ())
       }
   })"

definition fields_of :: "(string \<times> lval) list \<Rightarrow> lval \<Rightarrow> lval" where
  "fields_of fs t = fold (\<lambda>(k, v). tab_set (LStr k) v) fs t"

definition process_fields :: "host \<Rightarrow> nat \<Rightarrow> parsed \<Rightarrow> lval \<Rightarrow> (string \<times> lval) list" where
  "process_fields H argc p path = (let f = (\<lambda>c. LFun (h_fn H c)) in
     [(''version'', LStr LUANODE_VERSION), (''platform'', LStr (h_platform H)),
      (''set_process_title'', f ''SetProcessTitle''), (''get_process_title'', f ''GetProcessTitle''),
      (''guess_handle_type'', f ''GetHandleType''), (''__internal'', fields_of (internal_fields H) (LTab [])),
      (''argv'', argv_table argc p), (''env'', env_table (h_environ H)), (''pid'', LNum (h_pid H)),
      (''hrtime'', f ''HighresTime::Get''), (''constants'', h_constants H), (''module_api'', h_module_api H),
      (''execPath'', path), (''loop'', f ''Loop''), (''cwd'', f ''Cwd''),
      (''_needTickCallback'', f ''NeedTickCallback''), (''_exit'', f ''Exit'')])"

lemma set_fields_run:
  "exec (set_fields (Suc (length xs)) fs) (s\<lparr>rt_stack := xs @ [t]\<rparr>) =
   s\<lparr>rt_stack := xs @ [fields_of fs t]\<rparr>"
  by (induction fs arbitrary: t)
    (auto simp: fields_of_def lua_push_def lua_setfield_def settab_run)

lemma set_fields_run2:
  "exec (set_fields (Suc (Suc (length xs))) fs) (s\<lparr>rt_stack := xs @ [t, u]\<rparr>) =
   s\<lparr>rt_stack := xs @ [t, fields_of fs u]\<rparr>"
  using set_fields_run [where xs = "xs @ [t]" and t = u and s = s and fs = fs] by simp

lemma fields_of_append: "fields_of (as @ bs) t = fields_of bs (fields_of as t)"
  by (simp add: fields_of_def)

lemma make_process_run:
  assumes "exec_path (h_readlink H) p = Some path"
  shows "result (make_process H argc p) s = Some ()"
    and "exec (make_process H argc p) s =
      s\<lparr>rt_stack := rt_stack s @ [fields_of (process_fields H argc p path) (LTab [])]\<rparr>"
proof -
  have split: "fields_of (process_fields H argc p path) (LTab []) =
     (let f = (\<lambda>c. LFun (h_fn H c)) in
      fields_of [(''execPath'', path), (''loop'', f ''Loop''), (''cwd'', f ''Cwd''),
           (''_needTickCallback'', f ''NeedTickCallback''), (''_exit'', f ''Exit'')]
       (fields_of [(''pid'', LNum (h_pid H)), (''hrtime'', f ''HighresTime::Get''),
         (''constants'', h_constants H), (''module_api'', h_module_api H)]
        (tab_set (LStr ''env'') (env_table (h_environ H))
         (tab_set (LStr ''argv'') (argv_table argc p)
          (tab_set (LStr ''__internal'') (fields_of (internal_fields H) (LTab []))
           (fields_of [(''version'', LStr LUANODE_VERSION), (''platform'', LStr (h_platform H)),
             (''set_process_title'', f ''SetProcessTitle''), (''get_process_title'', f ''GetProcessTitle''),
             (''guess_handle_type'', f ''GetHandleType'')] (LTab [])))))))"
    by (simp add: fields_of_def process_fields_def Let_def)
  note steps = set_fields_run [where xs = "rt_stack s"] set_fields_run2 [where xs = "rt_stack s"]
    settab_run [where xs = "rt_stack s"]
  show "result (make_process H argc p) s = Some ()"
    by (simp add: make_process_def Let_def assms)
  show "exec (make_process H argc p) s =
      s\<lparr>rt_stack := rt_stack s @ [fields_of (process_fields H argc p path) (LTab [])]\<rparr>"
    unfolding split make_process_def Let_def
    by (simp add: assms lua_push_def lua_gettop_def lua_setfield_def push_argv_run push_env_run steps
        del: set_fields.simps)
qed

lemma tab_get_fields:
  "is_tab t \<Longrightarrow> tab_get (fields_of fs t) (LStr k) =
    (case map_of (rev fs) k of None \<Rightarrow> tab_get t (LStr k) | Some v \<Rightarrow> v)"
  by (induction fs arbitrary: t) (auto simp: fields_of_def map_add_def split: option.splits)

subsection \<open>\<^verbatim>\<open>Load\<close>\<close>

text \<open>Going on after an operation that may be unwound by an error or run out of fuel.\<close>

definition and_then :: "'a outcome \<Rightarrow> ('a \<Rightarrow> ('s, 'b outcome) state) \<Rightarrow> ('s, 'b outcome) state" where
  "and_then r f = (case r of
     None \<Rightarrow> ret None
   | Some (Inl e) \<Rightarrow> ret (Some (Inl e))
   | Some (Inr x) \<Rightarrow> f x)"

lemma and_then_simps [simp]:
  "and_then None f = ret None" "and_then (Some (Inl e)) f = ret (Some (Inl e))"
  "and_then (Some (Inr x)) f = f x"
  by (simp_all add: and_then_def)

definition set_global :: "string \<Rightarrow> lval \<Rightarrow> unit vm" where
  "set_global k v = modify (\<lambda>s. s\<lparr>rt_globals := (rt_globals s)(k := v)\<rparr>)"

definition LUA_QL :: "string \<Rightarrow> string" where
  "LUA_QL x = [CHR 0x27] @ x @ [CHR 0x27]"

definition usage_lines :: "string list" where
  "usage_lines = [
     ''usage: '' @ LUANODE_PROGNAME @ '' [options] [script [args]].'',
     ''Available options are:'',
     ''  -e stat  execute string '' @ LUA_QL ''stat'',
     ''  -l name  require library '' @ LUA_QL ''name'',
     ''  -i       enter interactive mode after executing '' @ LUA_QL ''script'',
     ''  -v       show version information'',
     ''  --       stop handling options'',
     ''  -        execute stdin and stop handling options'']"

definition PrintUsage :: "unit vm" where
  "PrintUsage = modify (\<lambda>s. s\<lparr>rt_stderr := rt_stderr s @ usage_lines\<rparr>)"

text \<open>\<^verbatim>\<open>stacktraceplus\<close> becomes the error handler; its module stays on the stack.\<close>

definition load_error_handler :: "lua_code \<Rightarrow> unit outcome vm" where
  "load_error_handler lua = do {
     lua_getglobal ''require'';
     lua_push (LStr ''stacktraceplus'');
     c \<leftarrow> lua_call1 lua 1;
     and_then (Some c) (\<lambda>_. do {
       r \<leftarrow> lua_getfield_top ''stacktrace'';
       and_then (Some r) (\<lambda>_. do {
         reference \<leftarrow> luaL_ref;
         setErrorHandler reference;
         ret (Some (Inr ()))
       })
     })
   }"

text \<open>The chunk of \<^verbatim>\<open>node.lua\<close> on top of the stack: the compiled one, or the file when debugging.\<close>

definition load_node :: "lua_code \<Rightarrow> compiler \<Rightarrow> compiler \<Rightarrow> precompiled \<Rightarrow> host \<Rightarrow> bool \<Rightarrow> unit outcome vm" where
  "load_node lua load loadfile pre H debug =
     (if \<not> debug then do {
        r \<leftarrow> PreloadModules (h_fn H);
        and_then (Some r) (\<lambda>_.
          case pre ''node.precomp'' ''luanode'' of
            Inl err \<Rightarrow> do { lua_push err; ret (Some (Inl err)) }
          | Inr f \<Rightarrow> do { lua_push f; ret (Some (Inr ())) })
      }
      else do {
        set_global ''DEBUG'' (LBool True);
        case loadfile (h_source_path H @ ''/src/node.lua'') of
          Inl err \<Rightarrow> do { lua_push err; OnError lua (fatal lua load) False }
        | Inr f \<Rightarrow> do { lua_push f; ret (Some (Inr ())) }
      })"

text \<open>\<^verbatim>\<open>call(0, 1)\<close>: a call that succeeds leaves one result.\<close>

definition call_for_one :: "lua_code \<Rightarrow> compiler \<Rightarrow> int outcome vm" where
  "call_for_one lua load = do {
     top \<leftarrow> lua_gettop;
     c \<leftarrow> vm_call_top lua load 0;
     whenM (c = Some (Inr 0)) (lua_settop top);
     ret c
   }"

definition exit_event :: string where
  "exit_event = ''process:emit('' @ [CHR 0x27] @ ''exit'' @ [CHR 0x27] @ '')''"

definition run_node :: "lua_code \<Rightarrow> compiler \<Rightarrow> compiler \<Rightarrow> precompiled \<Rightarrow> host \<Rightarrow> bool \<Rightarrow> nat \<Rightarrow>
    int outcome vm" where
  "run_node lua load loadfile pre H debug process = do {
     n \<leftarrow> load_node lua load loadfile pre H debug;
     and_then n (\<lambda>_. do {
       c \<leftarrow> call_for_one lua load;
       and_then c (\<lambda>_. do {
         function \<leftarrow> lua_gettop;
         t \<leftarrow> lua_type function;
         if t \<noteq> TFunction then do { lua_settop 0; ret (Some (Inr EXIT_FAILURE)) }
         else do {
           lua_pushvalue process;
           r \<leftarrow> vm_call_top lua load 1;
           and_then r (\<lambda>status.
             if status \<noteq> 0 then do {
               q \<leftarrow> vm_dostring lua load (OnError lua (fatal lua load)) exit_event 0;
               and_then q (\<lambda>_. ret (Some (Inr EXIT_FAILURE)))
             }
             else do {
               v \<leftarrow> gets (\<lambda>s. stack_top (rt_stack s));
               ret (Some (Inr (case v of LNum k \<Rightarrow> c_int k | _ \<Rightarrow> EXIT_SUCCESS)))
             })
         }
       })
     })
   }"

text \<open>
  The whole of \<open>Load\<close>.  \<open>classes\<close> stands for the \<^verbatim>\<open>Register\<close> calls of the C++ classes, which
  \<^verbatim>\<open>Class_Bridge\<close> models on its own state.
\<close>

definition Load :: "lua_code \<Rightarrow> compiler \<Rightarrow> compiler \<Rightarrow> precompiled \<Rightarrow> unit vm \<Rightarrow> host \<Rightarrow> arg_flags \<Rightarrow>
    nat \<Rightarrow> parsed \<Rightarrow> int outcome proc" where
  "Load lua load loadfile pre classes H fl argc p = do {
     status \<leftarrow> handle_luainit lua load loadfile (h_luainit H);
     if status \<noteq> 0 then ret (Some (Inr EXIT_FAILURE))
     else case collectargs (p_argv p) 1 fl of
       None \<Rightarrow> ret None
     | Some (script, _) \<Rightarrow>
         if script < 0 then do { on_vm PrintUsage; ret (Some (Inr 1)) }
         else do {
           r \<leftarrow> runargs (run_action lua load) (p_argv p) (if 0 < script then nat script else argc) 1;
           case r of
             None \<Rightarrow> ret None
           | Some status' \<Rightarrow>
               if status' \<noteq> 0 \<or> \<not> h_initialized H then ret (Some (Inr EXIT_FAILURE))
               else do {
                 on_vm (set_global ''_LUANODE'' (LBool True));
                 made \<leftarrow> on_vm (make_process H argc p);
                 case made of
                   None \<Rightarrow> ret None
                 | Some _ \<Rightarrow> do {
                     process \<leftarrow> on_vm lua_gettop;
                     on_vm classes;
                     a \<leftarrow> on_vm (PreloadAdditionalModules (h_fn H));
                     and_then (Some a) (\<lambda>_. do {
                       h \<leftarrow> on_vm (load_error_handler lua);
                       and_then h (\<lambda>_. on_vm (run_node lua load loadfile pre H (debug_mode p) process))
                     })
                   }
               }
         }
   }"

subsection \<open>\<^verbatim>\<open>main\<close> and \<^verbatim>\<open>AtExit\<close>\<close>

definition new_object :: "nat proc" where
  "new_object = do {
     q \<leftarrow> gets pr_next;
     modify (\<lambda>p. p\<lparr>pr_next := q + 1, pr_live := insert q (pr_live p)\<rparr>);
     ret q
   }"

definition delete_object :: "nat option \<Rightarrow> unit proc" where
  "delete_object x = (case x of
     None \<Rightarrow> ret ()
   | Some q \<Rightarrow> modify (\<lambda>p. if q \<in> pr_live p then p\<lparr>pr_live := pr_live p - {q}\<rparr>
       else p\<lparr>bad_delete := True\<rparr>))"

definition AtExit :: "unit proc" where
  "AtExit = do {
     v \<leftarrow> gets luaVm;
     whenM (v \<noteq> None) (do { delete_object v; modify (\<lambda>p. p\<lparr>luaVm := None\<rparr>) });
     l \<leftarrow> gets logger;
     whenM (l \<noteq> None) (do { delete_object l; modify (\<lambda>p. p\<lparr>logger := None\<rparr>) })
   }"

text \<open>
  What \<open>ParseArgs\<close> does to the process.  The variable \<open>logger\<close> is overwritten, whatever it held; the
  line of \<^verbatim>\<open>PrintVersion\<close> goes to the standard output, which is not part of the state.
\<close>

definition new_logger :: "unit proc" where
  "new_logger = do { l \<leftarrow> new_object; modify (\<lambda>q. q\<lparr>logger := Some l\<rparr>) }"

fun parse_effect :: "parse_action \<Rightarrow> unit proc" where
  "parse_effect (New_Logger app_name) = new_logger"
| "parse_effect Print_Version = ret ()"
| "parse_effect Print_Usage = on_vm PrintUsage"

text \<open>Between \<open>ParseArgs\<close> and \<open>Load\<close>: the log if there is none yet, the machine, the signals.\<close>

definition main_start :: "unit proc" where
  "main_start = do {
     l \<leftarrow> gets logger;
     whenM (l = None) new_logger;
     v \<leftarrow> new_object;
     modify (\<lambda>q. q\<lparr>luaVm := Some v\<rparr>);
     register_signals
   }"

definition main_finish :: "int \<Rightarrow> int proc" where
  "main_finish status = do {
     v \<leftarrow> gets luaVm;
     delete_object v;
     modify (\<lambda>q. q\<lparr>luaVm := None\<rparr>);
     l \<leftarrow> gets logger;
     delete_object l;
     modify (\<lambda>q. q\<lparr>logger := None\<rparr>);
     gets (\<lambda>q. main_result (pr_vm q) status)
   }"

text \<open>
  An error that unwinds \<open>Load\<close> ends in Lua's panic function and \<^verbatim>\<open>exit(EXIT_FAILURE)\<close>; that
  and the return of \<open>main\<close> both run \<open>AtExit\<close>.  An exit inside \<open>ParseArgs\<close> does not: \<open>AtExit\<close> is
  registered later.
\<close>

definition main_run :: "(parsed \<Rightarrow> int outcome proc) \<Rightarrow> parsed \<Rightarrow> int option proc" where
  "main_run load_step p = do {
     main_start;
     r \<leftarrow> load_step p;
     case r of
       None \<Rightarrow> ret None
     | Some (Inl e) \<Rightarrow> do { AtExit; ret (Some EXIT_FAILURE) }
     | Some (Inr status) \<Rightarrow> do { code \<leftarrow> main_finish status; AtExit; ret (Some code) }
   }"

definition main :: "lua_code \<Rightarrow> compiler \<Rightarrow> compiler \<Rightarrow> precompiled \<Rightarrow> unit vm \<Rightarrow> host \<Rightarrow> arg_flags \<Rightarrow>
    string list \<Rightarrow> int option proc" where
  "main lua load loadfile pre classes H fl argv = do {
     e \<leftarrow> parse parse_effect argv;
     case e of
       None \<Rightarrow> ret None
     | Some Exit_Success \<Rightarrow> ret (Some EXIT_SUCCESS)
     | Some (Run p) \<Rightarrow> main_run (Load lua load loadfile pre classes H fl (length argv)) p
   }"

subsection \<open>Ownership\<close>

definition owned :: "process \<Rightarrow> nat option \<times> nat option \<times> nat set \<times> nat \<times> bool" where
  "owned p = (luaVm p, logger p, pr_live p, pr_next p, bad_delete p)"

lemma owned_other [simp]:
  "owned (p\<lparr>pr_vm := a\<rparr>) = owned p" "owned (p\<lparr>on_sigint := b\<rparr>) = owned p"
  "owned (p\<lparr>on_sigterm := b\<rparr>) = owned p" "owned (p\<lparr>on_sigpipe := b\<rparr>) = owned p"
  "owned (p\<lparr>gc_runs := c\<rparr>) = owned p"
  by (simp_all add: owned_def)

lemma pres_owned [pres_intros]:
  "pres (\<lambda>p. owned p = o') (on_vm m)"
  "pres (\<lambda>p. owned p = o') (modify (\<lambda>p. p\<lparr>on_sigint := b\<rparr>))"
  "pres (\<lambda>p. owned p = o') (modify (\<lambda>p. p\<lparr>gc_runs := gc_runs p + 1\<rparr>))"
  by (simp_all add: pres_def)

lemma pres_owned_docall [pres_intros]: "pres (\<lambda>p. owned p = o') (docall lua n clear)"
  unfolding docall_def Let_def by (intro pres_intros)

lemma pres_owned_chunks [pres_intros]:
  "pres (\<lambda>p. owned p = o') (run_loaded lua c)"
  "pres (\<lambda>p. owned p = o') (dolibrary lua name)"
  unfolding run_loaded_def dolibrary_def by (intro pres_intros)+

lemma pres_owned_actions [pres_intros]:
  "pres (\<lambda>p. owned p = o') (run_action lua load a)"
  "pres (\<lambda>p. owned p = o') (handle_luainit lua load loadfile init)"
  by (cases a; simp add: dostring_def; intro pres_intros)
    (unfold handle_luainit_def dofile_def dostring_def, intro pres_intros)

interpretation ownership: chunk_runner "run_action lua load" "\<lambda>p _ q. owned q = owned p"
    for lua :: lua_code and load :: compiler
proof unfold_locales
  show "owned (exec (run_action lua load a) p) = owned p" for a p
    using pres_owned_actions(1) [of "owned p" lua load a] by (simp add: pres_def)
qed simp_all

lemma pres_owned_runargs [pres_intros]:
  "pres (\<lambda>p. owned p = o') (runargs (run_action lua load) argv n i)"
  by (simp add: pres_def ownership.run_arguments)

lemma pres_owned_Load: "pres (\<lambda>p. owned p = o') (Load lua load loadfile pre classes H fl argc p)"
  unfolding Load_def and_then_def by (intro pres_intros)

text \<open>How many logs \<open>ParseArgs\<close> makes.\<close>

fun count_logs :: "parse_action list \<Rightarrow> nat" where
  "count_logs [] = 0"
| "count_logs (New_Logger _ # xs) = Suc (count_logs xs)"
| "count_logs (_ # xs) = count_logs xs"

lemma owned_perform:
  assumes "owned q = (v, if k = 0 then None else Some (n + k - 1), {n..<n + k}, n + k, False)"
  shows "owned (exec (perform parse_effect xs) q) = (v, if k + count_logs xs = 0 then None else Some (n + (k + count_logs xs) - 1),
    {n..<n + (k + count_logs xs)}, n + (k + count_logs xs), False)"
  using assms
proof (induction xs arbitrary: q k rule: count_logs.induct)
  case (2 name xs)
  have "owned (exec new_logger q) = (v, Some (n + Suc k - 1), {n..<n + Suc k}, n + Suc k, False)"
    using "2.prems" by (auto simp: owned_def new_logger_def new_object_def)
  then show ?case using "2.IH" [of "exec new_logger q" "Suc k"] by simp
qed simp_all

lemma owned_start:
  assumes "owned q = (None, if k = 0 then None else Some (n + k - 1), {n..<n + k}, n + k, False)"
  defines "m \<equiv> n + (if k = 0 then 1 else k)"
  shows "owned (exec main_start q) = (Some m, Some (m - 1), {n..m}, Suc m, False)"
proof -
  have "luaVm q = None" "logger q = (if k = 0 then None else Some (n + k - 1))" "pr_live q = {n..<n + k}" "pr_next q = n + k"
    "\<not> bad_delete q"
    using assms(1) by (simp_all add: owned_def)
  then show ?thesis
    by (cases "k = 0") (auto simp: m_def main_start_def new_logger_def new_object_def register_signals_def exec_whenM owned_def)
qed

lemma owned_AtExit:
  assumes "owned q = (Some v, Some l, L, n, False)" and "v \<noteq> l" and "v \<in> L" and "l \<in> L"
  shows "owned (exec AtExit q) = (None, None, L - {v, l}, n, False)"
    and "owned (exec AtExit (exec (main_finish status) q)) = (None, None, L - {v, l}, n, False)"
proof -
  have q: "luaVm q = Some v" "logger q = Some l" "pr_live q = L" "pr_next q = n" "\<not> bad_delete q"
    using assms(1) by (simp_all add: owned_def)
  then show "owned (exec AtExit q) = (None, None, L - {v, l}, n, False)"
    and "owned (exec AtExit (exec (main_finish status) q)) = (None, None, L - {v, l}, n, False)"
    using assms(2-4) by (auto simp: AtExit_def main_finish_def delete_object_def exec_whenM owned_def)
qed

text \<open>
  C23: What becomes of the objects that \<open>main\<close> and \<open>ParseArgs\<close> allocate (numbered from \<open>n\<close> on), when
  the process ends.  When \<open>ParseArgs\<close> goes on, so on a return from \<open>main\<close> with any status and on an
  error that unwinds \<open>Load\<close>: the virtual machine and the log in use have been freed, both pointers
  are null, no pointer was deleted twice although \<open>AtExit\<close> runs after \<open>main\<close> has deleted them
  itself, and what is left are the logs of all \<^verbatim>\<open>--logname\<close> options but the last, none when there
  are fewer than two.  When an option like \<^verbatim>\<open>--help\<close> makes \<open>ParseArgs\<close> exit, the logs of all
  \<^verbatim>\<open>--logname\<close> options before it are left.
\<close>
theorem main_releases:
  assumes "owned q = (None, None, {}, n, False)" and "argv \<noteq> []"
    and "result (main lua load loadfile pre classes H fl argv) q = Some code"
  defines "k \<equiv> count_logs (fst (scan_args (tl argv)))"
  shows "owned (exec (main lua load loadfile pre classes H fl argv) q) =
    (if snd (scan_args (tl argv)) = Exits
     then (None, if k = 0 then None else Some (n + k - 1), {n..<n + k}, n + k, False)
     else (None, None, {n..<n + k - 1}, n + (if k = 0 then 1 else k) + 1, False))"
proof -
  let ?how = "snd (scan_args (tl argv))" and ?q = "exec (parse parse_effect argv) q"
  note ends = parse_scan(2) [OF assms(2), of parse_effect q]
  have q: "owned ?q = (None, if k = 0 then None else Some (n + k - 1), {n..<n + k}, n + k, False)"
    using owned_perform [of q None 0 n "fst (scan_args (tl argv))"] assms(1)
    by (simp add: parse_scan(1) [OF assms(2)] k_def)
  show ?thesis
  proof (cases ?how)
    case Goes_On
    then obtain p where p: "result (parse parse_effect argv) q = Some (Run p)" using ends by (auto simp: parse_ends_def)
    let ?load = "Load lua load loadfile pre classes H fl (length argv) p" and ?m = "n + (if k = 0 then 1 else k)"
    have t: "owned (exec ?load (exec main_start ?q)) = (Some ?m, Some (?m - 1), {n..?m}, Suc ?m, False)"
      using pres_owned_Load [of "owned (exec main_start ?q)"] owned_start [OF q] by (simp add: pres_def)
    have "{n..?m} - {?m, ?m - 1} = {n..<n + k - 1}" by (cases "k = 0") auto
    with owned_AtExit [OF t] have
      "owned (exec AtExit (exec ?load (exec main_start ?q))) = (None, None, {n..<n + k - 1}, Suc ?m, False)"
      "owned (exec AtExit (exec (main_finish status) (exec ?load (exec main_start ?q)))) =
        (None, None, {n..<n + k - 1}, Suc ?m, False)" for status
      by simp_all
    with assms(3) p Goes_On show ?thesis
      by (cases "result ?load (exec main_start ?q)") (auto simp: main_def main_run_def split: sum.splits)
  next
    case Exits
    with ends q show ?thesis by (simp add: main_def parse_ends_def)
  next
    case No_Name
    with ends assms(3) show ?thesis by (simp add: main_def parse_ends_def)
  qed
qed

subsection \<open>The command line on the process\<close>

text \<open>
  C21: What the chunks and libraries of the command line leave behind.  When all of them succeed,
  the stack is as it was.  When one fails, the run stops right there, after a row of options that
  succeeded, and the option that failed had left one error value on the stack as it was at the
  start: if the value is not nil it is off the stack and its text, under the program's name, is the
  last line on the standard error; if it is nil it stays on the stack and nothing is reported.  The
  rest of the process is untouched but for the disposition of \<^verbatim>\<open>SIGINT\<close>, which stays or is at its
  default, and the count of collections.
\<close>
theorem command_line_tidy:
  assumes "result (runargs (run_action lua load) argv n i) p = Some status"
  defines "q \<equiv> exec (runargs (run_action lua load) argv n i) p"
  shows "q = p\<lparr>pr_vm := pr_vm q, on_sigint := on_sigint q, gc_runs := gc_runs q\<rparr> \<and>
    on_sigint q \<in> {on_sigint p, SIG_DFL} \<and>
    (if status = 0 then rt_stack (pr_vm q) = rt_stack (pr_vm p)
     else \<exists>as a p' r v. result (run_all (run_action lua load) as) p = Some 0 \<and>
       p' = exec (run_all (run_action lua load) as) p \<and> q = exec (run_action lua load a) p' \<and>
       r = pr_vm (exec (unreported lua load a) p') \<and> rt_stack r = rt_stack (pr_vm p) @ [v] \<and>
       pr_vm q = (if v = LNil then r
         else r\<lparr>rt_stack := rt_stack (pr_vm p), rt_stderr := rt_stderr r @ [''LuaNode: '' @ report_text (rt_env r) v]\<rparr>))"
proof -
  let ?E = "run_action lua load"
  have t: "tidy p status q" using chunks.run_status [OF assms(1), folded q_def] .
  show ?thesis
  proof (cases "status = 0")
    case True
    with t show ?thesis by (simp add: tidy_def)
  next
    case False
    obtain as a where as: "result (run_all ?E as) p = Some 0" "result (?E a) (exec (run_all ?E as) p) \<noteq> 0"
      "q = exec (?E a) (exec (run_all ?E as) p)"
      using traces.run_status [OF assms(1), folded q_def] False by (auto simp: trace_of_def)
    have "rt_stack (pr_vm (exec (run_all ?E as) p)) = rt_stack (pr_vm p)"
      using run_all_tidy [OF as(1)] by (simp add: tidy_def)
    with action_reported [OF as(2)] as have "\<exists>as a p' r v. result (run_all ?E as) p = Some 0 \<and>
       p' = exec (run_all ?E as) p \<and> q = exec (?E a) p' \<and>
       r = pr_vm (exec (unreported lua load a) p') \<and> rt_stack r = rt_stack (pr_vm p) @ [v] \<and>
       pr_vm q = (if v = LNil then r
         else r\<lparr>rt_stack := rt_stack (pr_vm p), rt_stderr := rt_stderr r @ [''LuaNode: '' @ report_text (rt_env r) v]\<rparr>)"
      unfolding reported_def Let_def by metis
    with t False show ?thesis by (simp add: tidy_def)
  qed
qed

definition sample_process :: process where
  "sample_process = \<lparr>pr_vm = sample_runtime\<lparr>rt_stack := []\<rparr>, on_sigint = SIG_DFL, on_sigterm = SIG_DFL,
     on_sigpipe = SIG_DFL, gc_runs = 0, luaVm = None, logger = None, pr_live = {}, pr_next = 0,
     bad_delete = False\<rparr>"

lemma sample_chunk_runs:
  "result (runargs (run_action (\<lambda>_ _. ret (Inr [LNum 1])) (\<lambda>_. Inr (LFun 4)))
     (argv_of [''luanode'', ''-ex=1'', ''s.lua'']) 2 1) p = Some 0"
  by (simp add: runargs.simps argv_of_def operand_def joined_def char_at_def dostring_def run_loaded_def
      docall_def Let_def lua_pcall_def with_traceback_def TRACEBACK_def lua_prim_defs stack_top_def nth_append
      report_def exec_whenM result_if)

lemma command_line_tidy_witness:
  "rt_stack (pr_vm (exec (runargs (run_action (\<lambda>_ _. ret (Inr [LNum 1])) (\<lambda>_. Inr (LFun 4)))
     (argv_of [''luanode'', ''-ex=1'', ''s.lua'']) 2 1) sample_process)) = []"
  using command_line_tidy [OF sample_chunk_runs, of sample_process]
  by (simp add: sample_process_def)

text \<open>
  C40: The interpreter's own handling of \<^verbatim>\<open>SIGINT\<close> takes the one of the program away: \<open>main\<close>
  has \<open>SignalExit\<close> called, \<open>docall\<close> puts the default back, so after an \<^verbatim>\<open>-e\<close> or \<^verbatim>\<open>-l\<close>
  option that succeeded an interrupt kills the process, and neither the loop nor \<open>AtExit\<close>
  get to run.  \<^verbatim>\<open>SIGTERM\<close> keeps its handler.
\<close>
theorem interrupt_handler_lost:
  fixes lua :: lua_code and load :: compiler
  assumes "list_all well_written opts" and "char_at script 0 \<noteq> CHR ''-''"
    and "argv = argv_of (prog # concat (map render opts) @ script # rest)"
    and "n = 1 + length (concat (map render opts))" and "concat (map opt_action opts) \<noteq> []"
  defines "m \<equiv> do { register_signals; runargs (run_action lua load) argv n 1 }"
  assumes "result m p = Some 0"
  shows "on_sigint (exec m p) = SIG_DFL \<and> on_sigterm (exec m p) = Signal_Exit \<and>
    on_sigpipe (exec m p) = SIG_IGN"
proof -
  let ?q = "exec register_signals p"
  let ?r = "runargs (run_action lua load) argv n 1"
  have run: "?r = run_all (run_action lua load) (concat (map opt_action opts))"
    using scan_options [OF assms(1,2), of argv "[Some prog]" rest n no_flags "run_action lua load"] assms(3,4)
    by (simp add: argv_of_def)
  have ok: "result ?r ?q = Some 0" using assms(7) by (simp add: m_def)
  have "on_sigint (exec ?r ?q) = SIG_DFL"
    using run_all_sigint [OF assms(5)] ok unfolding run by blast
  moreover have frame: "exec ?r ?q = ?q\<lparr>pr_vm := pr_vm (exec ?r ?q), on_sigint := on_sigint (exec ?r ?q),
      gc_runs := gc_runs (exec ?r ?q)\<rparr>"
    using chunks.run_status [OF ok] by (simp add: tidy_def)
  from arg_cong [OF frame, of on_sigterm] arg_cong [OF frame, of on_sigpipe]
  have "on_sigterm (exec ?r ?q) = on_sigterm ?q" "on_sigpipe (exec ?r ?q) = on_sigpipe ?q" by simp_all
  ultimately show ?thesis by (simp add: m_def register_signals_def)
qed

lemma interrupt_handler_lost_witness:
  "on_sigint (exec (do { register_signals;
     runargs (run_action (\<lambda>_ _. ret (Inr [LNum 1])) (\<lambda>_. Inr (LFun 4)))
       (argv_of [''luanode'', ''-ex=1'', ''s.lua'']) 2 1 }) sample_process) = SIG_DFL"
  using interrupt_handler_lost [where opts = "[Opt_e_joined ''x=1'']" and script = "''s.lua''" and rest = "[]"
      and prog = "''luanode''" and argv = "argv_of [''luanode'', ''-ex=1'', ''s.lua'']" and n = 2
      and lua = "\<lambda>_ _. ret (Inr [LNum 1])" and load = "\<lambda>_. Inr (LFun 4)" and p = sample_process]
    sample_chunk_runs
  by (simp add: char_at_def)

subsection \<open>What the program is given\<close>

text \<open>
  C19: The table \<^verbatim>\<open>process\<close> that \<^verbatim>\<open>node.lua\<close> is called with is one new value on the stack.  Its
  \<^verbatim>\<open>env\<close> has the environment the process was started with, the last of two entries with the
  same name, whatever the values contain; its \<^verbatim>\<open>argv\<close> has the program at -1 and the
  arguments \<open>ParseArgs\<close> left from 0 on and nothing else; \<^verbatim>\<open>execPath\<close> is the path of the
  executable and \<^verbatim>\<open>pid\<close> the process's number.
\<close>
theorem process_table_built:
  assumes "h_environ H = map env_entry bindings" and "\<forall>b\<in>set bindings. CHR ''='' \<notin> set (fst b)"
    and "h_readlink H 2047 = Some x" and "x \<noteq> []" and "length x \<le> 2047" and "CHR 0x00 \<notin> set x"
  shows "\<exists>t. run_state (make_process H argc p) s = (Some (), s\<lparr>rt_stack := rt_stack s @ [t]\<rparr>) \<and>
    (\<forall>name. tab_get (tab_get t (LStr ''env'')) (LStr name) =
       (case map_of (rev bindings) name of None \<Rightarrow> LNil | Some v \<Rightarrow> LStr v)) \<and>
    (\<forall>k. tab_get (tab_get t (LStr ''argv'')) (LNum k) =
       (if k = -1 then arg_value (hd (p_argv p))
        else if 0 \<le> k \<and> k < int (length (process_argv argc p)) then arg_value (process_argv argc p ! nat k)
        else LNil)) \<and>
    tab_get t (LStr ''execPath'') = LStr x \<and> tab_get t (LStr ''pid'') = LNum (h_pid H)"
proof -
  let ?t = "fields_of (process_fields H argc p (LStr x)) (LTab [])"
  note run = make_process_run [OF exec_path_works [where readlink = "h_readlink H", OF assms(3-6)], where argc = argc and s = s]
  have "tab_get ?t (LStr ''env'') = env_table (h_environ H)" "tab_get ?t (LStr ''argv'') = argv_table argc p"
    "tab_get ?t (LStr ''execPath'') = LStr x" "tab_get ?t (LStr ''pid'') = LNum (h_pid H)"
    by (simp_all add: tab_get_fields process_fields_def Let_def)
  then show ?thesis
    using run env_lookup [OF assms(2)] by (intro exI [of _ ?t]) (simp add: run_state_split assms(1) argv_lookup)
qed

definition sample_host :: host where
  "sample_host = \<lparr>h_initialized = True, h_platform = ''linux'', h_environ = [''HOME=/root'', ''A=b=c''],
     h_pid = 17, h_readlink = (\<lambda>_. Some ''/bin/luanode''), h_luainit = None, h_source_path = [],
     h_constants = LTab [], h_module_api = LObj 5, h_fn = (\<lambda>_. 9)\<rparr>"

definition sample_parsed :: parsed where
  "sample_parsed = \<lparr>p_argv = argv_of [''luanode'', ''s.lua'', ''x''], option_end_index = 1,
     debug_mode = False\<rparr>"

lemma process_table_built_witness:
  "\<exists>t. rt_stack (exec (make_process sample_host 3 sample_parsed) sample_runtime) = [t] \<and>
     tab_get (tab_get t (LStr ''env'')) (LStr ''A'') = LStr ''b=c'' \<and>
     tab_get (tab_get t (LStr ''argv'')) (LNum 1) = LStr ''x''"
proof -
  have "h_environ sample_host = map env_entry [(''HOME'', ''/root''), (''A'', ''b=c'')]"
    by (simp add: sample_host_def)
  from process_table_built [OF this, where x = "''/bin/luanode''" and argc = 3 and p = sample_parsed
      and s = sample_runtime]
  obtain t where t: "run_state (make_process sample_host 3 sample_parsed) sample_runtime =
      (Some (), sample_runtime\<lparr>rt_stack := rt_stack sample_runtime @ [t]\<rparr>)"
    "tab_get (tab_get t (LStr ''env'')) (LStr ''A'') = LStr ''b=c''"
    "tab_get (tab_get t (LStr ''argv'')) (LNum 1) =
      (if length (process_argv 3 sample_parsed) > 1 then arg_value (process_argv 3 sample_parsed ! 1) else LNil)"
    by (auto simp: sample_host_def)
  then show ?thesis
    by (intro exI [of _ t]) (simp add: exec_def process_argv_def sample_parsed_def argv_of_def arg_value_def
        sample_runtime_def)
qed

text \<open>
  When \<^verbatim>\<open>readlink\<close> fails its -1 becomes the largest \<^verbatim>\<open>size_t\<close>, which the test for an error
  \<^verbatim>\<open>*size <= 0\<close> does not see: the terminating zero is stored outside of the buffer and
  the fall back to \<^verbatim>\<open>argv[0]\<close> is never reached.  A link that fits is read in full.
\<close>
theorem executable_path_checked_late:
  "(h_readlink H 2047 = None \<longrightarrow> result (make_process H argc p) s = None) \<and>
   (\<forall>x. h_readlink H 2047 = Some x \<and> x \<noteq> [] \<and> length x \<le> 2047 \<and> CHR 0x00 \<notin> set x \<longrightarrow>
     exec_path (h_readlink H) p = Some (LStr x))"
  by (auto simp: make_process_def Let_def exec_path_fails exec_path_works)

lemma executable_path_checked_late_witness:
  "result (make_process (sample_host\<lparr>h_readlink := (\<lambda>_. None)\<rparr>) 3 sample_parsed) sample_runtime = None \<and>
   exec_path (h_readlink sample_host) sample_parsed = Some (LStr ''/bin/luanode'')"
  using executable_path_checked_late [of "sample_host\<lparr>h_readlink := (\<lambda>_. None)\<rparr>" 3 sample_parsed sample_runtime]
    executable_path_checked_late [of sample_host 3 sample_parsed sample_runtime]
  by (simp add: sample_host_def)

lemma main_releases_witness:
  "owned (exec (main (\<lambda>_ _. ret (Inr [])) (\<lambda>_. Inr (LFun 3)) (\<lambda>_. Inr (LFun 3)) (\<lambda>_ _. Inr (LFun 3)) (ret ())
     (sample_host\<lparr>h_initialized := False\<rparr>) no_flags [''luanode'', ''s.lua'']) sample_process) =
   (None, None, {}, 2, False)"
proof -
  let ?p = "\<lparr>p_argv = argv_of [''luanode'', ''s.lua''], option_end_index = 1, debug_mode = False\<rparr>"
  let ?m = "main (\<lambda>_ _. ret (Inr [])) (\<lambda>_. Inr (LFun 3)) (\<lambda>_. Inr (LFun 3)) (\<lambda>_ _. Inr (LFun 3)) (ret ())
     (sample_host\<lparr>h_initialized := False\<rparr>) no_flags [''luanode'', ''s.lua'']"
  have p: "parse parse_effect [''luanode'', ''s.lua''] = ret (Some (Run ?p))"
    by (simp add: parse_def ParseArgs.simps argv_of_def char_at_def)
  have c: "collectargs (argv_of [''luanode'', ''s.lua'']) (Suc 0) no_flags = Some (1, no_flags)"
    by (simp add: collectargs.simps argv_of_def option_kind_def char_at_def)
  have "\<exists>code. result ?m sample_process = Some code"
    by (simp add: main_def main_run_def p Load_def handle_luainit_def sample_host_def c runargs_stop)
  then obtain code where "result ?m sample_process = Some code" ..
  from main_releases [OF _ _ this, of 0] show ?thesis
    by (simp add: owned_def sample_process_def char_at_def)
qed

subsection \<open>Console events (Windows)\<close>

datatype ctrl_event =
    CTRL_C_EVENT | CTRL_BREAK_EVENT | CTRL_CLOSE_EVENT | CTRL_LOGOFF_EVENT | CTRL_SHUTDOWN_EVENT
  | Other_Event

text \<open>The log, when there is one, is not part of the state.\<close>

definition SafeLog :: "string \<Rightarrow> unit proc" where
  "SafeLog message = do {
     l \<leftarrow> gets logger;
     whenM (l = None) (on_vm (print_stderr message))
   }"

definition ConsoleControlHandler :: "ctrl_event \<Rightarrow> bool proc" where
  "ConsoleControlHandler ctrl = do {
     SafeLog ''***** Console Event Detected *****'';
     case ctrl of
       CTRL_LOGOFF_EVENT \<Rightarrow> do { SafeLog ''Event: CTRL-LOGOFF Event''; ret True }
     | CTRL_C_EVENT \<Rightarrow> do {
         SafeLog ''Event: CTRL-C or CTRL-BREAK Event'';
         on_vm stop_io;
         SafeLog ''After CTRL-C event'';
         ret True
       }
     | CTRL_BREAK_EVENT \<Rightarrow> do {
         SafeLog ''Event: CTRL-C or CTRL-BREAK Event'';
         on_vm stop_io;
         SafeLog ''After CTRL-C event'';
         ret True
       }
     | CTRL_CLOSE_EVENT \<Rightarrow> do {
         SafeLog ''Event: CTRL-CLOSE or CTRL-SHUTDOWN Event'';
         on_vm stop_io;
         ret True
       }
     | CTRL_SHUTDOWN_EVENT \<Rightarrow> do {
         SafeLog ''Event: CTRL-CLOSE or CTRL-SHUTDOWN Event'';
         on_vm stop_io;
         ret True
       }
     | Other_Event \<Rightarrow> ret False
   }"

text \<open>
  A console event stops the loop unless it is a log-off or an unknown one; the known ones are
  handled, and nothing but the loop's flag and the messages changes.
\<close>
lemma console_event_stops_loop:
  "io_stopped (pr_vm (exec (ConsoleControlHandler ctrl) p)) =
     (io_stopped (pr_vm p) \<or> ctrl \<notin> {CTRL_LOGOFF_EVENT, Other_Event}) \<and>
   result (ConsoleControlHandler ctrl) p = (ctrl \<noteq> Other_Event) \<and>
   owned (exec (ConsoleControlHandler ctrl) p) = owned p"
  by (cases ctrl) (simp_all add: ConsoleControlHandler_def SafeLog_def exec_whenM stop_io_def print_stderr_def)

subsection \<open>The status of the process\<close>

text \<open>
  The function that \<^verbatim>\<open>node.lua\<close> returns is called with the table \<^verbatim>\<open>process\<close>, and the last
  value it gives is the status of \<open>Load\<close>: as a C int when it is a number, success when it is
  anything else.
\<close>
theorem node_decides_status:
  fixes H :: host and load loadfile :: compiler
  assumes "rt_globals s ''package'' = LObj p" and "rt_objs s p ''preload'' = LObj q"
    and "pre ''node.precomp'' ''luanode'' = Inr f" and "m_error_handler s \<noteq> LUA_NOREF"
    and "1 \<le> process" and "process \<le> length (rt_stack s)" and "t = stack_at (rt_stack s) process"
    and "lua f [] = ret (Inr [LFun g])" and "lua (LFun g) [t] = ret (Inr vs)" and "vs \<noteq> []"
  defines "m \<equiv> run_node lua load loadfile pre H False process"
  shows "result m s = Some (Inr (case last vs of LNum k \<Rightarrow> c_int k | _ \<Rightarrow> EXIT_SUCCESS)) \<and>
    rt_calls (exec m s) = rt_calls s @ [(f, []), (LFun g, [t])] \<and>
    rt_stack (exec m s) = rt_stack s @ vs"
proof -
  let ?xs = "rt_stack s"
  let ?s1 = "(exec (PreloadModules (h_fn H)) s)\<lparr>rt_stack := ?xs @ [f]\<rparr>"
  let ?s2 = "?s1\<lparr>rt_stack := ?xs @ [LFun g], rt_calls := rt_calls s @ [(f, [])]\<rparr>"
  note preload = preload_into_run [OF assms(1,2), of "preload_table (h_fn H)", folded PreloadModules_def]
  have same: "rt_stack (exec (PreloadModules (h_fn H)) s) = ?xs"
    "rt_calls (exec (PreloadModules (h_fn H)) s) = rt_calls s"
    "m_error_handler (exec (PreloadModules (h_fn H)) s) = m_error_handler s"
    by (simp_all add: preload(2))
  have "run_state (load_node lua load loadfile pre H False) s = (Some (Inr ()), ?s1)"
    using preload(1) assms(3) same(1) by (simp add: load_node_def run_state_split lua_push_def)
  moreover have "run_state (vm_call_top lua load 0) ?s1 = (Some (Inr 0), ?s2)"
    using vm_call_top_ok [of ?s1 ?xs f "[]" 0 lua "[LFun g]"] assms(4,8) same by simp
  then have "run_state (call_for_one lua load) ?s1 = (Some (Inr 0), ?s2)"
    by (simp add: call_for_one_def run_state_split exec_whenM lua_gettop_def lua_settop_def)
  moreover have "stack_at (?xs @ [LFun g]) process = t" using assms(6,7) by simp
  moreover have "run_state (vm_call_top lua load 1) (?s2\<lparr>rt_stack := ?xs @ [LFun g, t]\<rparr>) =
      (Some (Inr 0), ?s2\<lparr>rt_stack := ?xs @ vs, rt_calls := rt_calls s @ [(f, []), (LFun g, [t])]\<rparr>)"
    using vm_call_top_ok [of "?s2\<lparr>rt_stack := ?xs @ [LFun g, t]\<rparr>" ?xs "LFun g" "[t]" 1 lua vs] assms(4,9) same
    by simp
  moreover have "stack_top (?xs @ vs) = last vs" using assms(10) by (simp add: stack_top_def)
  ultimately show ?thesis
    by (simp add: m_def run_node_def run_state_split lua_gettop_def lua_type_def lua_pushvalue_def)
qed

lemma node_decides_status_witness:
  "result (run_node (\<lambda>f args. if f = LFun 3 then ret (Inr [LFun 6]) else ret (Inr [LNum 4])) (\<lambda>_. Inr LNil)
     (\<lambda>_. Inr LNil) (\<lambda>_ _. Inr (LFun 3)) sample_host False 1)
     (package_runtime\<lparr>rt_stack := [LObj 8], m_error_handler := 1\<rparr>) = Some (Inr 4)"
  using node_decides_status [where s = "package_runtime\<lparr>rt_stack := [LObj 8], m_error_handler := 1\<rparr>" and p = 1
      and q = 2 and pre = "\<lambda>_ _. Inr (LFun 3)" and f = "LFun 3" and process = 1 and t = "LObj 8" and g = 6
      and vs = "[LNum 4]" and lua = "\<lambda>f args. if f = LFun 3 then ret (Inr [LFun 6]) else ret (Inr [LNum 4])"
      and H = sample_host and load = "\<lambda>_. Inr LNil" and loadfile = "\<lambda>_. Inr LNil"]
  by (simp add: package_runtime_def LUA_NOREF_def c_int_def)

end
