(* ===== verification/Platform.thy ===== *)
theory Platform
  imports Preloader
begin

section \<open>The operating system and native modules (\<^verbatim>\<open>src/luanode_os.cpp\<close>, \<^verbatim>\<open>src/luanode_module_api.cpp\<close>, \<^verbatim>\<open>src/platform_*.cpp\<close>)\<close>

text \<open>
  The queries that go through the event loop (\<^verbatim>\<open>getHostname\<close>, the calls that native modules
  post), the ownership of callbacks (\<^verbatim>\<open>LuaCallbackRef\<close>), and the direct queries of the
  platform files: the process's title, the kind of a handle, the working directory.

  The state is the Lua runtime, the work posted to the event loop, and the reference that
  \<^verbatim>\<open>luanode_module_api.cpp\<close> keeps.  System calls are parameters.
\<close>

subsection \<open>State\<close>

datatype os_post =
    Hostname_Post int int string
  | Module_Post string string int nat

record os =
  os_vm :: runtime
  os_posts :: "os_post list"
  postbackCallback :: int

definition in_vm :: "'r vm \<Rightarrow> (os, 'r) state" where
  "in_vm m = State (\<lambda>p. (result m (os_vm p), p\<lparr>os_vm := exec m (os_vm p)\<rparr>))"

lemma run_in_vm [simp]:
  "result (in_vm m) p = result m (os_vm p)"
  "exec (in_vm m) p = p\<lparr>os_vm := exec m (os_vm p)\<rparr>"
  by (simp_all add: in_vm_def result_def exec_def)

subsection \<open>\<^verbatim>\<open>getHostname\<close>\<close>

text \<open>
  \<open>gethostname\<close> is the status and what the array of 255 characters then holds.  The C string in
  an array, \<open>None\<close> when the array has no terminator and reading it goes on past its end.
\<close>

definition string_in :: "string \<Rightarrow> string option" where
  "string_in arr = (if CHR 0x00 \<in> set arr then Some (takeWhile (\<lambda>c. c \<noteq> CHR 0x00) arr) else None)"

definition GetHostname_callback :: "lua_code \<Rightarrow> int \<Rightarrow> int \<Rightarrow> string \<Rightarrow> (lval + unit) vm" where
  "GetHostname_callback lua callback status hostname = do {
     lua_rawgeti callback;
     luaL_unref callback;
     lua_push (if status < 0 then LNil else LStr hostname);
     r \<leftarrow> lua_call0 lua 1;
     case r of Inl e \<Rightarrow> ret (Inl e) | Inr _ \<Rightarrow> do { lua_settop 0; ret (Inr ()) }
   }"

definition GetHostname :: "int \<times> string \<Rightarrow> (os, (lua_error + nat) option) state" where
  "GetHostname gethostname = do {
     t \<leftarrow> in_vm (lua_type 1);
     if t \<noteq> TFunction then ret (Some (Inl (Arg_Error 1)))
     else do {
       callback \<leftarrow> in_vm luaL_ref;
       case string_in (snd gethostname) of
         None \<Rightarrow> ret None
       | Some hostname \<Rightarrow> do {
           modify (\<lambda>p. p\<lparr>os_posts := os_posts p @ [Hostname_Post callback (fst gethostname) hostname]\<rparr>);
           ret (Some (Inr 0))
         }
     }
   }"

subsection \<open>Calls posted by native modules\<close>

definition HandleModuleCallback :: "lua_code \<Rightarrow> compiler \<Rightarrow> string \<Rightarrow> string \<Rightarrow> int \<Rightarrow> nat \<Rightarrow>
    (os, unit outcome) state" where
  "HandleModuleCallback lua load module_name function_name key userdata = do {
     cb \<leftarrow> gets postbackCallback;
     r \<leftarrow> (if cb = LUA_NOREF then do {
         in_vm (lua_getglobal ''process'');
         g \<leftarrow> in_vm (lua_getfield_top ''_postBackToModule'');
         case g of Inl e \<Rightarrow> ret (Inl e)
         | Inr _ \<Rightarrow> do {
             cb' \<leftarrow> in_vm luaL_ref;
             modify (\<lambda>p. p\<lparr>postbackCallback := cb'\<rparr>);
             in_vm (lua_pop 1);
             ret (Inr ())
           }
       }
       else ret (Inr ()));
     case r of Inl e \<Rightarrow> ret (Some (Inl e))
     | Inr _ \<Rightarrow> do {
         cb'' \<leftarrow> gets postbackCallback;
         in_vm (lua_rawgeti cb'');
         in_vm (lua_push (LStr module_name));
         in_vm (lua_push (LStr function_name));
         in_vm (lua_push (LNum key));
         in_vm (lua_push (LLight userdata));
         c \<leftarrow> in_vm (vm_call_top lua load 4);
         case c of None \<Rightarrow> ret None | Some (Inl e) \<Rightarrow> ret (Some (Inl e))
         | Some (Inr status) \<Rightarrow> do {
             q \<leftarrow> (if status \<noteq> 0
               then in_vm (vm_dostring lua load (OnError lua (fatal lua load)) exit_chunk 0)
               else ret (Some (Inr 0)));
             case q of None \<Rightarrow> ret None | Some (Inl e) \<Rightarrow> ret (Some (Inl e))
             | Some (Inr _) \<Rightarrow> do { in_vm (lua_settop 0); ret (Some (Inr ())) }
           }
       }
   }"

definition LuaNode_Post :: "string \<Rightarrow> string \<Rightarrow> int \<Rightarrow> nat \<Rightarrow> (os, bool) state" where
  "LuaNode_Post module_name function_name key userdata = do {
     modify (\<lambda>p. p\<lparr>os_posts := os_posts p @ [Module_Post module_name function_name key userdata]\<rparr>);
     ret True
   }"

text \<open>The event loop runs the posted work in order; \<open>os_run\<close> goes on until none is left or an error escapes.\<close>

fun run_post :: "lua_code \<Rightarrow> compiler \<Rightarrow> os_post \<Rightarrow> (os, unit outcome) state" where
  "run_post lua load (Hostname_Post callback status hostname) =
     do { r \<leftarrow> in_vm (GetHostname_callback lua callback status hostname); ret (Some r) }"
| "run_post lua load (Module_Post m f key userdata) = HandleModuleCallback lua load m f key userdata"


subsection \<open>\<^verbatim>\<open>LuaCallbackRef\<close>\<close>

text \<open>
  \<open>thread\<close> is the Lua value of the thread, \<open>is_main\<close> the answer of \<^verbatim>\<open>lua_pushthread\<close>.
\<close>

record callback_ref =
  m_thread_reference :: int
  m_callback_reference :: int

definition LuaCallbackRef :: "lval \<Rightarrow> bool \<Rightarrow> nat \<Rightarrow> ('a rt_scheme, callback_ref) state" where
  "LuaCallbackRef thread is_main ref_index = do {
     lua_pushvalue ref_index;
     c \<leftarrow> luaL_ref;
     lua_push thread;
     if is_main then do {
       lua_pop 1;
       ret \<lparr>m_thread_reference = LUA_NOREF, m_callback_reference = c\<rparr>
     }
     else do {
       t \<leftarrow> luaL_ref;
       ret \<lparr>m_thread_reference = t, m_callback_reference = c\<rparr>
     }
   }"

definition delete_CallbackRef :: "callback_ref \<Rightarrow> ('a rt_scheme, unit) state" where
  "delete_CallbackRef r = do {
     whenM (m_thread_reference r \<noteq> LUA_NOREF) (luaL_unref (m_thread_reference r));
     luaL_unref (m_callback_reference r)
   }"

definition PushCallback :: "callback_ref \<Rightarrow> ('a rt_scheme, unit) state" where
  "PushCallback r = lua_rawgeti (m_callback_reference r)"

subsection \<open>Direct queries\<close>

text \<open>The name of the process: 16 characters that the kernel keeps with their terminator.\<close>

definition strncpy :: "nat \<Rightarrow> string \<Rightarrow> string" where
  "strncpy n x = take n x @ replicate (n - length x) (CHR 0x00)"

definition SetProcessTitle :: "string \<Rightarrow> string" where
  "SetProcessTitle title = (strncpy 16 title)[15 := CHR 0x00]"

definition GetProcessTitle :: "string \<Rightarrow> string \<times> int" where
  "GetProcessTitle kernel_name = (let title = takeWhile (\<lambda>c. c \<noteq> CHR 0x00) kernel_name in
     (title, int (length title)))"

datatype file_mode = S_Socket | S_Fifo | S_Other

text \<open>\<open>isatty\<close> and \<open>fstat\<close> of the descriptor; \<open>None\<close> for a failure.\<close>

definition unknown_handle :: "lval list" where
  "unknown_handle = [LNil, LStr ''Unknown handle'']"

definition GetHandleType :: "(int \<Rightarrow> bool) \<Rightarrow> (int \<Rightarrow> file_mode option) \<Rightarrow> int \<Rightarrow> lval list" where
  "GetHandleType isatty fstat fd =
     (if fd < 0 then unknown_handle
      else if isatty fd then [LStr ''TTY'']
      else case fstat fd of
        None \<Rightarrow> unknown_handle
      | Some mode \<Rightarrow>
          if mode \<noteq> S_Socket \<and> mode \<noteq> S_Fifo then [LStr ''FILE''] else [LStr ''PIPE''])"

datatype win_file_type = FILE_TYPE_CHAR | FILE_TYPE_PIPE | FILE_TYPE_DISK | FILE_TYPE_UNKNOWN

definition GetHandleType_win :: "(int \<Rightarrow> bool) \<Rightarrow> (int \<Rightarrow> win_file_type) \<Rightarrow> int \<Rightarrow> lval list" where
  "GetHandleType_win has_console_mode file_type fd =
     (if fd < 0 then unknown_handle
      else case file_type fd of
        FILE_TYPE_CHAR \<Rightarrow> if has_console_mode fd then [LStr ''TTY''] else [LStr ''FILE'']
      | FILE_TYPE_PIPE \<Rightarrow> [LStr ''PIPE'']
      | FILE_TYPE_DISK \<Rightarrow> [LStr ''FILE'']
      | FILE_TYPE_UNKNOWN \<Rightarrow> unknown_handle)"

text \<open>\<open>getcwd n\<close>: the path if it fits with its terminator in \<open>n\<close> bytes, or the error's text.\<close>

definition Cwd :: "(nat \<Rightarrow> string + string) \<Rightarrow> runtime meth" where
  "Cwd getcwd = (case getcwd 2047 of
     Inl message \<Rightarrow> raise (Lua_Error message)
   | Inr path \<Rightarrow> do { lua_push (LStr path); ret_n 1 })"

definition IsATTY :: "(int \<Rightarrow> bool) \<Rightarrow> runtime meth" where
  "IsATTY isatty = do {
     c \<leftarrow> luaL_checkinteger 1;
     case c of Inl e \<Rightarrow> raise e
     | Inr fd \<Rightarrow> do { lua_push (LBool (isatty (c_int fd))); ret_n 1 }
   }"

subsection \<open>Properties\<close>

lemma newref_facts:
  assumes "newref_ok (rt_env s)" and "finite (dom (rt_reg s))"
  shows "le_newref (rt_env s) (rt_reg s) \<notin> dom (rt_reg s)" and "0 < le_newref (rt_env s) (rt_reg s)"
    and "rt_reg s (le_newref (rt_env s) (rt_reg s)) = None"
  using assms by (auto simp: newref_ok_def)

lemma hostname_callback_run:
  assumes "rt_reg u cb = Some f" and "0 \<le> cb" and "v = (if status < 0 then LNil else LStr hostname)"
    and "lua f [v] = ret r"
  defines "m \<equiv> GetHostname_callback lua cb status hostname"
  shows "rt_calls (exec m u) = rt_calls u @ [(f, [v])] \<and> rt_reg (exec m u) = (rt_reg u)(cb := None) \<and>
    result m u = (case r of Inl e \<Rightarrow> Inl e | Inr _ \<Rightarrow> Inr ()) \<and>
    rt_stack (exec m u) = (case r of Inl e \<Rightarrow> rt_stack u | Inr _ \<Rightarrow> [])"
  using assms(1,2,4) unfolding m_def assms(3)
  by (auto simp: GetHostname_callback_def lua_call0_def lua_prim_defs nth_append Let_def split: sum.splits)

text \<open>
  \<^verbatim>\<open>getHostname(f)\<close> registers \<open>f\<close> under a new reference and posts one piece of work; nothing is
  called yet.  When the loop runs it, in whatever state that reference still is \<open>f\<close>, the function
  is called once, with the name or with nil when the system call failed, and the reference is
  dropped first, also when the function then raises an error, which leaves the handler unprotected.
\<close>
theorem hostname_is_delivered:
  assumes "rt_stack (os_vm p) = [LFun f]" and "newref_ok (rt_env (os_vm p))" and "finite (dom (rt_reg (os_vm p)))"
    and "CHR 0x00 \<in> set arr" and "name = takeWhile (\<lambda>c. c \<noteq> CHR 0x00) arr"
    and "v = (if status < 0 then LNil else LStr name)" and "lua (LFun f) [v] = ret r"
  defines "q \<equiv> exec (GetHostname (status, arr)) p"
  shows "\<exists>cb. os_posts q = os_posts p @ [Hostname_Post cb status name] \<and>
    cb \<notin> dom (rt_reg (os_vm p)) \<and> rt_reg (os_vm q) = (rt_reg (os_vm p))(cb \<mapsto> LFun f) \<and>
    rt_calls (os_vm q) = rt_calls (os_vm p) \<and> result (GetHostname (status, arr)) p = Some (Inr 0) \<and>
    (\<forall>t. rt_reg (os_vm t) cb = Some (LFun f) \<longrightarrow>
      rt_calls (os_vm (exec (run_post lua load (Hostname_Post cb status name)) t)) =
        rt_calls (os_vm t) @ [(LFun f, [v])] \<and>
      rt_reg (os_vm (exec (run_post lua load (Hostname_Post cb status name)) t)) = (rt_reg (os_vm t))(cb := None) \<and>
      result (run_post lua load (Hostname_Post cb status name)) t =
        Some (case r of Inl e \<Rightarrow> Inl e | Inr _ \<Rightarrow> Inr ()))"
proof -
  let ?cb = "le_newref (rt_env (os_vm p)) (rt_reg (os_vm p))"
  note new = newref_facts [OF assms(2,3)]
  have run: "result (GetHostname (status, arr)) p = Some (Inr 0)"
    "os_posts q = os_posts p @ [Hostname_Post ?cb status name]"
    "rt_reg (os_vm q) = (rt_reg (os_vm p))(?cb \<mapsto> LFun f)" "rt_calls (os_vm q) = rt_calls (os_vm p)"
    using assms(1,4,5)
    by (simp_all add: q_def GetHostname_def string_in_def lua_type_def exec_luaL_ref result_luaL_ref)
  have cb: "0 \<le> ?cb" using new(2) by simp
  note post = hostname_callback_run [where cb = ?cb and f = "LFun f" and lua = lua and hostname = name,
      OF _ cb assms(6,7)]
  show ?thesis
    using run new post by (intro exI [of _ ?cb]) simp
qed

definition sample_os :: os where
  "sample_os = \<lparr>os_vm = package_runtime\<lparr>rt_stack := [LFun 7]\<rparr>, os_posts = [], postbackCallback = LUA_NOREF\<rparr>"

lemma hostname_is_delivered_witness:
  "\<exists>cb. os_posts (exec (GetHostname (0, ''box'' @ [CHR 0x00])) sample_os) = [Hostname_Post cb 0 ''box'']"
  using hostname_is_delivered [of sample_os 7 "''box'' @ [CHR 0x00]" "''box''" "LStr ''box''" 0
      "\<lambda>_ _. ret (Inr [])" "Inr []"]
  by (auto simp: sample_os_def package_runtime_def newref_ok_sample)

text \<open>
  \<^verbatim>\<open>luaL_ref\<close> takes the value on top of the stack, not the argument that was checked: with a
  second argument that one is registered, and later called instead of the function.  A host
  name that fills the array is not terminated, and then the string is read past the array.
\<close>
theorem hostname_argument_slips:
  "(\<forall>f x. rt_stack (os_vm p) = [LFun f, x] \<and> x \<noteq> LNil \<and> CHR 0x00 \<in> set (snd g) \<longrightarrow>
     rt_reg (os_vm (exec (GetHostname g) p)) =
       (rt_reg (os_vm p))(le_newref (rt_env (os_vm p)) (rt_reg (os_vm p)) \<mapsto> x)) \<and>
   (\<forall>f. rt_stack (os_vm p) = [LFun f] \<and> CHR 0x00 \<notin> set (snd g) \<longrightarrow> result (GetHostname g) p = None)"
  by (auto simp: GetHostname_def string_in_def lua_type_def exec_luaL_ref result_luaL_ref)

lemma hostname_argument_slips_witness:
  "result (GetHostname (0, ''box'')) sample_os = None"
  using hostname_argument_slips [of sample_os "(0, ''box'')"] by (simp add: sample_os_def)

type_synonym module_call = "string \<times> string \<times> int \<times> nat"

fun module_post :: "module_call \<Rightarrow> os_post" where
  "module_post (m, f, key, userdata) = Module_Post m f key userdata"


lemma post_all: "os_posts (exec (LuaNode_Post m f key u) p) = os_posts p @ [module_post (m, f, key, u)]"
  by (simp add: LuaNode_Post_def)






text \<open>
  A \<^verbatim>\<open>LuaCallbackRef\<close> holds what it was made for until it is destroyed: between, \<open>PushCallback\<close>
  pushes the value at the index it was given, and its destruction leaves the registry and the
  stack as they were before it was made, on the main thread and on any other.
\<close>
theorem callback_ref_balanced:
  fixes s :: "'a rt_scheme"
  assumes "newref_ok (rt_env s)" and "finite (dom (rt_reg s))" and "\<forall>k\<in>dom (rt_reg s). 0 < k"
    and "v = stack_at (rt_stack s) i" and "v \<noteq> LNone" and "thread \<noteq> LNil"
    and "run_state (LuaCallbackRef thread is_main i) s = (r, t)"
  shows "rt_stack t = rt_stack s \<and> exec (PushCallback r) t = t\<lparr>rt_stack := rt_stack s @ [v]\<rparr> \<and>
    exec (delete_CallbackRef r) t = s"
proof -
  let ?c = "le_newref (rt_env s) (rt_reg s)"
  let ?g = "if v = LNil then rt_reg s else (rt_reg s)(?c \<mapsto> v)"
  let ?t = "le_newref (rt_env s) ?g"
  have c: "rt_reg s ?c = None" "0 < ?c"
    using assms(1,2) by (auto simp: newref_ok_def)
  have t: "?g ?t = None" "0 < ?t" "rt_reg s ?t = None"
  proof -
    have "finite (dom ?g)" using assms(2) by simp
    then show "?g ?t = None" "0 < ?t"
      using assms(1) unfolding newref_ok_def by blast+
    then show "rt_reg s ?t = None" by (auto split: if_splits)
  qed
  have "\<not> 0 < (-1 :: int)" by simp
  then have "-1 \<notin> dom (rt_reg s)" using assms(3) by blast
  then have nil: "rt_reg s (-1) = None" by (simp add: domIff)
  have r: "r = \<lparr>m_thread_reference = (if is_main then LUA_NOREF else ?t),
      m_callback_reference = (if v = LNil then LUA_REFNIL else ?c)\<rparr>"
    and st: "t = s\<lparr>rt_reg := (if is_main then ?g else ?g(?t \<mapsto> thread))\<rparr>"
    using assms(4,6,7)
    by (auto simp: LuaCallbackRef_def run_state_split lua_pushvalue_def lua_push_def lua_pop_def exec_luaL_ref
        result_luaL_ref)
  show ?thesis
    using c t nil by (auto simp: r st PushCallback_def delete_CallbackRef_def lua_rawgeti_def luaL_unref_def
        LUA_REFNIL_def LUA_NOREF_def exec_whenM fun_upd_idem fun_upd_twist)
qed

lemma callback_ref_balanced_witness:
  "exec (delete_CallbackRef (result (LuaCallbackRef (LObj 3) False 1) (os_vm sample_os)))
     (exec (LuaCallbackRef (LObj 3) False 1) (os_vm sample_os)) = os_vm sample_os"
  by (rule callback_ref_balanced [of _ "LFun 7" 1 "LObj 3" False, THEN conjunct2, THEN conjunct2])
    (simp_all add: sample_os_def package_runtime_def newref_ok_sample run_state_split del: exec_bind result_bind)

text \<open>
  The title of the process survives in its first fifteen characters: what
  \<^verbatim>\<open>get_process_title\<close> answers after \<^verbatim>\<open>set_process_title\<close> is the title cut there.
\<close>
theorem process_title_cut:
  assumes "CHR 0x00 \<notin> set title"
  shows "GetProcessTitle (SetProcessTitle title) = (take 15 title, int (min 15 (length title)))"
proof -
  have "takeWhile (\<lambda>c. c \<noteq> CHR 0x00) (SetProcessTitle title) = take 15 title"
  proof (cases "length title < 15")
    case True
    then have "SetProcessTitle title = title @ replicate (16 - length title) (CHR 0x00)"
      by (simp add: SetProcessTitle_def strncpy_def list_update_append list_update_same_conv)
    then show ?thesis
      using True assms by (auto simp: takeWhile_append)
  next
    case False
    have "SetProcessTitle title = take 15 title @ [CHR 0x00]"
    proof (cases "length title = 15")
      case True
      then show ?thesis by (simp add: SetProcessTitle_def strncpy_def list_update_append)
    next
      case longer: False
      then have "take 16 title = take 15 title @ [title ! 15]"
        using False take_Suc_conv_app_nth [of 15 title] by simp
      then show ?thesis
        using False longer by (simp add: SetProcessTitle_def strncpy_def list_update_append)
    qed
    then show ?thesis
      using assms by (auto simp: takeWhile_append dest: in_set_takeD)
  qed
  then show ?thesis by (simp add: GetProcessTitle_def Let_def min_def)
qed

lemma process_title_cut_witness:
  "GetProcessTitle (SetProcessTitle ''a very long process title'') = (''a very long pro'', 15)"
  using process_title_cut [of "''a very long process title''"] by simp

end
