(* ===== verification/Class_Bridge.thy ===== *)
theory Class_Bridge
  imports Prelude
begin

section \<open>The class bridge (\<^verbatim>\<open>deps/luacppbridge51/lcbBaseObject.h\<close>, \<^verbatim>\<open>lcbHybridObjectWithProperties.h\<close>)\<close>

text \<open>
  The templates that make a C++ class a Lua class: a metatable for each class in the Lua
  registry, a userdata with a pointer for each object, thunks that find the object and call
  a member function, properties, and a finaliser that deletes the object.

  The identity of tables and userdata matters here, so this theory has a heap: \<open>b_get t k\<close> is
  the field \<open>k\<close> of table \<open>t\<close> (table 0 is the registry), \<open>b_meta\<close> the metatable of a table,
  \<open>b_users\<close> the userdata, \<open>b_live\<close> the C++ objects that exist, each with its class.

  Parameters: \<open>mfunc\<close> (the member functions), \<open>ctor\<close> (the bodies of the constructors), the
  address \<open>b_alloc\<close> gives a new object, the metamethods of Lua code (\<open>b_meta_index\<close>), the order
  of \<^verbatim>\<open>lua_next\<close> and the way Lua composes error messages.

  The properties: which tables a class is registered with; the order in which a property is
  looked up; what is written is read back; and, in every state the program can reach, that no
  object is deleted twice and that a thunk gives its member function a live object of its own
  class, unless the userdata it is called with has been finalised.
\<close>

subsection \<open>Values and the heap\<close>

datatype entry_kind = Getter | Setter | Method

datatype light = Class_Name nat | Object nat | Entry entry_kind nat

datatype bval = BNil | BBool bool | BNum int | BStr string | BTable nat | BUser nat | BLight light | BFun cfun
and cfun = Thunk_Methods nat bval | Thunk_Index nat bval bval | Thunk_Newindex nat bval bval
  | New_T nat | Forbidden_New_T nat | Tostring_T nat | Gc_T nat | Dispose_T nat | Lua_Function nat

text \<open>What a C++ function throws, and what it raises in Lua.\<close>

datatype fault = Thrown string | Raised string

text \<open>The class that instantiates the template: \<open>c_key\<close> is the address of \<^verbatim>\<open>className\<close>.\<close>

record cls =
  c_key :: nat
  className :: string
  full_class_name :: string
  c_methods :: "string list"
  c_getters :: "string list"
  c_setters :: "string list"
  is_disposable :: bool

record userdataType =
  ud_pT :: nat
  ud_collectable :: bool
  ud_env :: "nat option"
  ud_meta :: "nat option"

text \<open>
  What the collector of Lua 5.1 has done with a userdata.  One it takes loses the weak references
  to it and waits for its finaliser; after the finaliser has run it is still there, with its
  metatable and its pointer, until a later cycle finds that nothing reaches it any more.
\<close>

datatype gc_phase = Reachable | Separated | Finalised

record bridge =
  b_get :: "nat \<Rightarrow> bval \<Rightarrow> bval"
  b_meta :: "nat \<Rightarrow> nat option"
  b_users :: "nat \<rightharpoonup> userdataType"
  b_phase :: "nat \<Rightarrow> gc_phase"
  b_fresh :: nat
  b_stack :: "bval list"
  b_live :: "nat \<rightharpoonup> nat"
  b_tracking :: "nat \<Rightarrow> int option"
  b_bad :: bool
  b_bad_delete :: bool
  b_late :: bool
  b_alloc :: "(nat \<rightharpoonup> nat) \<Rightarrow> nat"
  b_newref :: "(bval \<Rightarrow> bval) \<Rightarrow> int"
  b_meta_index :: "bval \<Rightarrow> bval \<Rightarrow> bval"
  b_order :: "(bval \<Rightarrow> bval) \<Rightarrow> bval list"
  b_where :: "string \<Rightarrow> string"

text \<open>
  \<open>b_tracking k\<close>: \<^verbatim>\<open>s_trackingIndex\<close> of the class when \<^verbatim>\<open>s_trackingEnabled\<close> is set.  Three
  history variables: \<open>b_bad\<close>, a member function was called on an object that does not exist or is of
  another class (or \<open>dispose\<close> followed a null pointer); \<open>b_bad_delete\<close>, such an object was deleted;
  \<open>b_late\<close>, a function of the bridge was called with a userdata whose finaliser has run.
\<close>

type_synonym 'a op = "(bridge, 'a) state"
type_synonym 'a fop = "(bridge, fault + 'a) state"

definition andthen :: "'a fop \<Rightarrow> ('a \<Rightarrow> 'b fop) \<Rightarrow> 'b fop" where
  "andthen m f = do { r \<leftarrow> m; case r of Inl e \<Rightarrow> ret (Inl e) | Inr x \<Rightarrow> f x }"

subsection \<open>The stack\<close>

text \<open>The top of the stack is the head of the list; \<open>Top k\<close> is the index \<^verbatim>\<open>-k\<close>.\<close>

datatype pos = Top nat | At nat | Upvalue bval | Registry

fun value_at :: "bval list \<Rightarrow> pos \<Rightarrow> bval" where
  "value_at xs (Top k) = (if 1 \<le> k \<and> k \<le> length xs then xs ! (k - 1) else BNil)"
| "value_at xs (At i) = (if 1 \<le> i \<and> i \<le> length xs then xs ! (length xs - i) else BNil)"
| "value_at xs (Upvalue v) = v"
| "value_at xs Registry = BTable 0"

definition valueM :: "pos \<Rightarrow> bval op" where "valueM p = gets (\<lambda>s. value_at (b_stack s) p)"

definition is_nil :: "pos \<Rightarrow> bool op" where "is_nil p = gets (\<lambda>s. value_at (b_stack s) p = BNil)"

definition topM :: "nat op" where "topM = gets (\<lambda>s. length (b_stack s))"

definition stk :: "(bval list \<Rightarrow> bval list) \<Rightarrow> unit op" where
  "stk f = modify (\<lambda>s. s\<lparr>b_stack := f (b_stack s)\<rparr>)"

definition push_v :: "bval \<Rightarrow> unit op" where "push_v v = stk (Cons v)"
definition push_copy :: "pos \<Rightarrow> unit op" where "push_copy p = stk (\<lambda>xs. value_at xs p # xs)"
definition pop_n :: "nat \<Rightarrow> unit op" where "pop_n n = stk (drop n)"
definition set_top :: "nat \<Rightarrow> unit op" where
  "set_top n = stk (\<lambda>xs. replicate (n - length xs) BNil @ drop (length xs - n) xs)"
definition swap_top :: "unit op" where
  "swap_top = stk (\<lambda>xs. case xs of a # b # r \<Rightarrow> b # a # r | _ \<Rightarrow> xs)"
definition replace_at :: "nat \<Rightarrow> unit op" where
  "replace_at i = stk (\<lambda>xs. case xs of [] \<Rightarrow> [] | v # r \<Rightarrow> if length xs = i then r else r[length r - i := v])"
definition remove_at :: "nat \<Rightarrow> unit op" where
  "remove_at i = stk (\<lambda>xs. take (length xs - i) xs @ drop (Suc (length xs - i)) xs)"

subsection \<open>Tables\<close>

fun raw_get :: "bridge \<Rightarrow> bval \<Rightarrow> bval \<Rightarrow> bval" where
  "raw_get s (BTable t) k = b_get s t k"
| "raw_get s _ k = BNil"

fun raw_set :: "bval \<Rightarrow> bval \<Rightarrow> bval \<Rightarrow> bridge \<Rightarrow> bridge" where
  "raw_set (BTable t) k v s = s\<lparr>b_get := (b_get s)(t := (b_get s t)(k := v))\<rparr>"
| "raw_set _ k v s = s"

definition rawget :: "pos \<Rightarrow> unit op" where
  "rawget p = modify (\<lambda>s. case b_stack s of [] \<Rightarrow> s | k # xs \<Rightarrow>
     s\<lparr>b_stack := raw_get s (value_at (b_stack s) p) k # xs\<rparr>)"

definition rawset :: "pos \<Rightarrow> unit op" where
  "rawset p = modify (\<lambda>s. case b_stack s of v # k # xs \<Rightarrow>
     (raw_set (value_at (b_stack s) p) k v s)\<lparr>b_stack := xs\<rparr> | _ \<Rightarrow> s)"

text \<open>
  \<^verbatim>\<open>lua_settable\<close> is used on tables without a \<^verbatim>\<open>__newindex\<close>, where it is \<^verbatim>\<open>lua_rawset\<close>; \<open>gettable\<close>
  asks an \<^verbatim>\<open>__index\<close> metamethod, which only Lua code can have added.
\<close>

definition gettable :: "pos \<Rightarrow> unit op" where
  "gettable p = modify (\<lambda>s. case b_stack s of [] \<Rightarrow> s | k # xs \<Rightarrow>
     let t = value_at (b_stack s) p; v = raw_get s t k;
         meta = (case t of BTable i \<Rightarrow> b_meta s i | _ \<Rightarrow> None) in
     s\<lparr>b_stack := (if v \<noteq> BNil then v
       else (case meta of None \<Rightarrow> BNil | Some m \<Rightarrow>
         if b_get s m (BStr ''__index'') = BNil then BNil else b_meta_index s t k)) # xs\<rparr>)"

definition set_field :: "pos \<Rightarrow> string \<Rightarrow> unit op" where
  "set_field p key = do { push_v (BStr key); swap_top; rawset p }"

definition new_table :: "unit op" where
  "new_table = modify (\<lambda>s. s\<lparr>b_get := (b_get s)(b_fresh s := (\<lambda>_. BNil)), b_meta := (b_meta s)(b_fresh s := None),
     b_stack := BTable (b_fresh s) # b_stack s, b_fresh := Suc (b_fresh s)\<rparr>)"

text \<open>\<^verbatim>\<open>lua_setmetatable\<close> pops the metatable; a new userdata has its fields still to be set.\<close>

definition set_metatable :: "pos \<Rightarrow> unit op" where
  "set_metatable p = modify (\<lambda>s. case b_stack s of BTable m # xs \<Rightarrow>
     (case value_at (b_stack s) p of
        BTable t \<Rightarrow> s\<lparr>b_meta := (b_meta s)(t \<mapsto> m), b_stack := xs\<rparr>
      | BUser u \<Rightarrow> s\<lparr>b_users := (b_users s)(u := map_option (\<lambda>d. d\<lparr>ud_meta := Some m\<rparr>) (b_users s u)), b_stack := xs\<rparr>
      | _ \<Rightarrow> s) | _ \<Rightarrow> s)"

definition new_userdata :: "nat op" where
  "new_userdata = do {
     u \<leftarrow> gets b_fresh;
     modify (\<lambda>s. s\<lparr>b_users := (b_users s)(u \<mapsto> \<lparr>ud_pT = 0, ud_collectable = False, ud_env = None, ud_meta = None\<rparr>),
       b_stack := BUser u # b_stack s, b_fresh := Suc u\<rparr>);
     ret u
   }"

definition set_user :: "nat \<Rightarrow> (userdataType \<Rightarrow> userdataType) \<Rightarrow> unit op" where
  "set_user u f = modify (\<lambda>s. s\<lparr>b_users := (b_users s)(u := map_option f (b_users s u))\<rparr>)"

definition set_fenv :: "nat \<Rightarrow> unit op" where
  "set_fenv u = modify (\<lambda>s. case b_stack s of BTable e # xs \<Rightarrow>
     s\<lparr>b_users := (b_users s)(u := map_option (\<lambda>d. d\<lparr>ud_env := Some e\<rparr>) (b_users s u)), b_stack := xs\<rparr> | _ \<Rightarrow> s)"

lemma stack_exec [simp]:
  "exec (push_v v) s = s\<lparr>b_stack := v # b_stack s\<rparr>"
  "exec (push_copy p) s = s\<lparr>b_stack := value_at (b_stack s) p # b_stack s\<rparr>"
  "exec (pop_n n) s = s\<lparr>b_stack := drop n (b_stack s)\<rparr>"
  "exec (valueM p) s = s" "result (valueM p) s = value_at (b_stack s) p"
  "exec (is_nil p) s = s" "result (is_nil p) s = (value_at (b_stack s) p = BNil)"
  "exec topM s = s" "result topM s = length (b_stack s)"
  "result (push_v v) s = ()" "result (push_copy p) s = ()" "result (pop_n n) s = ()"
  by (simp_all add: push_v_def push_copy_def pop_n_def stk_def valueM_def is_nil_def topM_def)

lemma table_exec:
  "b_stack s = k # xs \<Longrightarrow> exec (rawget p) s = s\<lparr>b_stack := raw_get s (value_at (k # xs) p) k # xs\<rparr>"
  "b_stack s = v # k # xs \<Longrightarrow>
    exec (rawset p) s = (raw_set (value_at (v # k # xs) p) k v s)\<lparr>b_stack := xs\<rparr>"
  "exec new_table s = s\<lparr>b_get := (b_get s)(b_fresh s := (\<lambda>_. BNil)), b_meta := (b_meta s)(b_fresh s := None),
     b_stack := BTable (b_fresh s) # b_stack s, b_fresh := Suc (b_fresh s)\<rparr>"
  "b_stack s = v # xs \<Longrightarrow> exec (set_field p key) s = (raw_set (value_at (v # BStr key # xs) p) (BStr key) v s)\<lparr>b_stack := xs\<rparr>"
proof -
  have set: "(raw_set t k v (s\<lparr>b_stack := ys\<rparr>))\<lparr>b_stack := xs\<rparr> = (raw_set t k v s)\<lparr>b_stack := xs\<rparr>" for t k v ys xs and s :: bridge
    by (cases t) simp_all
  show "b_stack s = v # xs \<Longrightarrow> exec (set_field p key) s = (raw_set (value_at (v # BStr key # xs) p) (BStr key) v s)\<lparr>b_stack := xs\<rparr>"
    by (simp add: rawset_def set_field_def swap_top_def stk_def set)
qed (simp_all add: rawget_def rawset_def new_table_def)

lemmas stack_prim_defs = stk_def set_top_def swap_top_def replace_at_def remove_at_def rawget_def rawset_def gettable_def set_field_def new_table_def
  set_metatable_def new_userdata_def set_user_def set_fenv_def

subsection \<open>Finding the tables of a class\<close>

definition newmetatable :: "cls \<Rightarrow> unit op" where
  "newmetatable c = do {
     push_v (BLight (Class_Name (c_key c)));
     rawget Registry;
     none \<leftarrow> is_nil (Top 1);
     whenM none (do {
       pop_n 1;
       new_table;
       push_v (BLight (Class_Name (c_key c)));
       push_copy (Top 2);
       rawset Registry
     })
   }"

definition getmetatable :: "cls \<Rightarrow> unit op" where
  "getmetatable c = do { push_v (BLight (Class_Name (c_key c))); rawget Registry }"

definition weaktable :: "string \<Rightarrow> unit op" where
  "weaktable mode = do {
     new_table;
     push_copy (Top 1);
     set_metatable (Top 2);
     push_v (BStr ''__mode'');
     push_v (BStr mode);
     rawset (Top 3)
   }"

definition subtable :: "nat \<Rightarrow> string \<Rightarrow> string \<Rightarrow> unit op" where
  "subtable tindex name mode = do {
     push_v (BStr name);
     gettable (At tindex);
     none \<leftarrow> is_nil (Top 1);
     whenM none (do {
       pop_n 1;
       weaktable mode;
       push_v (BStr name);
       push_copy (Top 2);
       rawset (At tindex)
     })
   }"

definition pushuserdata :: "nat \<Rightarrow> nat option op" where
  "pushuserdata key = do {
     push_v (BLight (Object key));
     gettable (Top 2);
     none \<leftarrow> is_nil (Top 1);
     if none then do {
       pop_n 1;
       ud \<leftarrow> new_userdata;
       push_v (BLight (Object key));
       push_copy (Top 2);
       rawset (Top 4);
       ret (Some ud)
     } else ret None
   }"

fun is_lua_table :: "bval \<Rightarrow> bool" where
  "is_lua_table (BTable _) = True"
| "is_lua_table _ = False"

definition throw_error :: "string \<Rightarrow> 'a fop" where
  "throw_error msg = do { w \<leftarrow> gets b_where; ret (Inl (Thrown (w msg))) }"

definition bridge_push :: "cls \<Rightarrow> nat option \<Rightarrow> bool \<Rightarrow> nat fop" where
  "bridge_push c obj gc = (case obj of None \<Rightarrow> do { push_v BNil; ret (Inr 0) }
   | Some p \<Rightarrow> do {
       getmetatable c;
       none \<leftarrow> is_nil (Top 1);
       if none then throw_error (className c @ '' missing metatable'')
       else do {
         metatable \<leftarrow> topM;
         subtable metatable ''userdata'' ''v'';
         r \<leftarrow> pushuserdata p;
         (case r of
           None \<Rightarrow> ret ()
         | Some ud \<Rightarrow> do {
             new_table;
             set_fenv ud;
             set_user ud (\<lambda>d. d\<lparr>ud_pT := p\<rparr>);
             push_copy (At metatable);
             set_metatable (Top 2);
             set_user ud (\<lambda>d. d\<lparr>ud_collectable := gc\<rparr>)
           });
         replace_at metatable;
         set_top metatable;
         ret (Inr metatable)
       }
     })"

subsection \<open>The object of a userdata\<close>

fun type_name :: "bval \<Rightarrow> string" where
  "type_name BNil = ''nil''" | "type_name (BBool _) = ''boolean''" | "type_name (BNum _) = ''number''"
| "type_name (BStr _) = ''string''" | "type_name (BTable _) = ''table''" | "type_name (BUser _) = ''userdata''"
| "type_name (BLight _) = ''userdata''" | "type_name (BFun _) = ''function''"

definition typerror :: "nat \<Rightarrow> string \<Rightarrow> 'a fop" where
  "typerror narg tname = do {
     v \<leftarrow> valueM (At narg);
     push_v (BStr (tname @ '' expected, got '' @ type_name v));
     throw_error (tname @ '' expected, got '' @ type_name v)
   }"

definition checkudata :: "cls \<Rightarrow> nat \<Rightarrow> userdataType fop" where
  "checkudata c ud = do {
     v \<leftarrow> valueM (At ud);
     users \<leftarrow> gets b_users;
     case v of BUser u \<Rightarrow> (case users u of
         Some d \<Rightarrow> (case ud_meta d of
             Some m \<Rightarrow> do {
               push_v (BTable m);
               push_v (BLight (Class_Name (c_key c)));
               rawget Registry;
               correct \<leftarrow> gets (\<lambda>s. value_at (b_stack s) (Top 1) = value_at (b_stack s) (Top 2));
               if correct then do { pop_n 2; ret (Inr d) }
               else typerror ud (className c)
             }
           | None \<Rightarrow> typerror ud (className c))
       | None \<Rightarrow> typerror ud (className c))
     | _ \<Rightarrow> typerror ud (className c)
   }"

definition bridge_check :: "cls \<Rightarrow> nat \<Rightarrow> nat fop" where
  "bridge_check c narg = andthen (checkudata c narg) (\<lambda>d. ret (Inr (ud_pT d)))"

definition bridge_checkopt :: "cls \<Rightarrow> nat \<Rightarrow> nat option fop" where
  "bridge_checkopt c narg = do {
     none \<leftarrow> is_nil (At narg);
     if \<not> none then andthen (bridge_check c narg) (\<lambda>p. ret (Inr (Some p))) else ret (Inr None)
   }"

text \<open>\<open>test\<close> leaves the two metatables on the stack when they differ.\<close>

definition bridge_test :: "cls \<Rightarrow> nat \<Rightarrow> bool op" where
  "bridge_test c narg = do {
     v \<leftarrow> valueM (At narg);
     users \<leftarrow> gets b_users;
     case v of BUser u \<Rightarrow> (case users u of
         Some d \<Rightarrow> (case ud_meta d of
             Some m \<Rightarrow> do {
               push_v (BTable m);
               push_v (BLight (Class_Name (c_key c)));
               rawget Registry;
               correct \<leftarrow> gets (\<lambda>s. value_at (b_stack s) (Top 1) = value_at (b_stack s) (Top 2));
               if correct then do { pop_n 2; ret True } else ret False
             }
           | None \<Rightarrow> ret False)
       | None \<Rightarrow> ret False)
     | _ \<Rightarrow> ret False
   }"

subsection \<open>The thunks\<close>

text \<open>\<open>call_member\<close> is \<^verbatim>\<open>(obj->*(l->mfunc))(L)\<close>; a C++ exception becomes a Lua error in the thunk.\<close>

type_synonym members = "nat \<Rightarrow> bval \<Rightarrow> nat \<Rightarrow> nat fop"

definition call_member :: "members \<Rightarrow> cls \<Rightarrow> bval \<Rightarrow> nat \<Rightarrow> nat fop" where
  "call_member mfunc c l obj = do {
     modify (\<lambda>s. s\<lparr>b_bad := (b_bad s \<or> b_live s obj \<noteq> Some (c_key c))\<rparr>);
     mfunc (c_key c) l obj
   }"

definition catch_exception :: "nat fop \<Rightarrow> nat fop" where
  "catch_exception m = do {
     r \<leftarrow> m;
     case r of Inl (Thrown what) \<Rightarrow> do { push_v (BStr what); ret (Inl (Raised what)) } | _ \<Rightarrow> ret r
   }"

definition bridge_thunk_methods :: "members \<Rightarrow> cls \<Rightarrow> bval \<Rightarrow> nat fop" where
  "bridge_thunk_methods mfunc c l =
     catch_exception (andthen (bridge_check c 1) (\<lambda>obj. call_member mfunc c l obj))"

definition get_fenv :: "pos \<Rightarrow> unit op" where
  "get_fenv p = modify (\<lambda>s. s\<lparr>b_stack := (case value_at (b_stack s) p of
     BUser u \<Rightarrow> (case b_users s u of Some d \<Rightarrow> (case ud_env d of Some e \<Rightarrow> BTable e | None \<Rightarrow> BNil) | None \<Rightarrow> BNil)
   | _ \<Rightarrow> BNil) # b_stack s\<rparr>)"

definition thunk_index :: "members \<Rightarrow> cls \<Rightarrow> bval \<Rightarrow> bval \<Rightarrow> nat fop" where
  "thunk_index mfunc c getters methods =
     catch_exception (andthen (bridge_check c 1) (\<lambda>obj. do {
       get_fenv (At 1);
       push_copy (At 2);
       rawget (At 3);
       none \<leftarrow> is_nil (Top 1);
       if \<not> none then ret (Inr 1)
       else do {
         pop_n 2;
         push_copy (At 2);
         rawget (Upvalue getters);
         none \<leftarrow> is_nil (Top 1);
         if \<not> none then do {
           l \<leftarrow> valueM (Top 1);
           set_top 1;
           call_member mfunc c l obj
         }
         else do {
           pop_n 1;
           push_copy (At 2);
           gettable (Upvalue methods);
           none \<leftarrow> is_nil (Top 1);
           if \<not> none then ret (Inr 1)
           else do { push_v BNil; ret (Inr 1) }
         }
       }
     }))"

text \<open>\<^verbatim>\<open>lua_rawset\<close> with a nil key is an error of Lua.\<close>

definition thunk_newindex :: "members \<Rightarrow> cls \<Rightarrow> bval \<Rightarrow> bval \<Rightarrow> nat fop" where
  "thunk_newindex mfunc c setters getters =
     catch_exception (andthen (bridge_check c 1) (\<lambda>obj. do {
       push_copy (At 2);
       rawget (Upvalue setters);
       none \<leftarrow> is_nil (Top 1);
       if \<not> none then do {
         p \<leftarrow> valueM (Top 1);
         pop_n 1;
         call_member mfunc c p obj
       }
       else do {
         pop_n 1;
         push_copy (At 2);
         rawget (Upvalue getters);
         none \<leftarrow> is_nil (Top 1);
         if \<not> none then do {
           pop_n 1;
           key \<leftarrow> valueM (At 2);
           throw_error (''trying to write to read only property '' @ (case key of BStr x \<Rightarrow> x | _ \<Rightarrow> []))
         }
         else do {
           pop_n 1;
           get_fenv (At 1);
           replace_at 1;
           key \<leftarrow> valueM (At 2);
           if key = BNil then ret (Inl (Raised ''table index is nil''))
           else do { rawset (At 1); ret (Inr 0) }
         }
       }
     }))"

subsection \<open>Finalisers\<close>

text \<open>\<open>dispose_T\<close> does not look at the kind of its argument; without a userdata it follows a null pointer.\<close>

definition delete_object :: "cls \<Rightarrow> nat \<Rightarrow> unit op" where
  "delete_object c p = modify (\<lambda>s. s\<lparr>b_bad_delete := (b_bad_delete s \<or> b_live s p \<noteq> Some (c_key c)),
     b_live := (b_live s)(p := None)\<rparr>)"

definition gc_T :: "cls \<Rightarrow> nat op" where
  "gc_T c = do {
     v \<leftarrow> valueM (Top 1);
     users \<leftarrow> gets b_users;
     case v of BUser u \<Rightarrow> (case users u of
         Some d \<Rightarrow> if \<not> ud_collectable d then ret 0 else do { delete_object c (ud_pT d); ret 0 }
       | None \<Rightarrow> ret 0)
     | _ \<Rightarrow> ret 0
   }"

definition forbidden_new_T :: "cls \<Rightarrow> nat fop" where
  "forbidden_new_T c = do {
     w \<leftarrow> gets b_where;
     ret (Inl (Raised (w (''Constructing objects of type '' @ className c @ '' is not allowed from the Lua side''))))
   }"

definition dispose_T :: "cls \<Rightarrow> nat fop" where
  "dispose_T c = do {
     v \<leftarrow> valueM (At 1);
     users \<leftarrow> gets b_users;
     case v of BUser u \<Rightarrow> (case users u of
         Some d \<Rightarrow> if \<not> ud_collectable d then do {
             w \<leftarrow> gets b_where;
             ret (Inl (Raised (w (''Disposing uncollectable objects of type '' @ className c @
               '' is forbidden from the Lua side''))))
           }
           else do {
             tracking \<leftarrow> gets (\<lambda>s. b_tracking s (c_key c));
             (case tracking of None \<Rightarrow> ret () | Some r \<Rightarrow> do {
                push_v (BNum r);
                rawget Registry;
                push_v (BLight (Object (ud_pT d)));
                push_v BNil;
                rawset (Top 3);
                pop_n 1
              });
             _ \<leftarrow> gc_T c;
             set_user u (\<lambda>d. d\<lparr>ud_collectable := False\<rparr>);
             ret (Inr 0)
           }
       | None \<Rightarrow> do { modify (\<lambda>s. s\<lparr>b_bad := True\<rparr>); ret (Inr 0) })
     | _ \<Rightarrow> do { modify (\<lambda>s. s\<lparr>b_bad := True\<rparr>); ret (Inr 0) }
   }"

subsection \<open>Tracking\<close>

definition EnableTracking :: "cls \<Rightarrow> unit op" where
  "EnableTracking c = do {
     new_table;
     weakTable \<leftarrow> topM;
     push_copy (At weakTable);
     push_v (BStr ''__mode'');
     push_v (BStr ''v'');
     rawset (At weakTable);
     set_metatable (At weakTable);
     r \<leftarrow> gets (\<lambda>s. b_newref s (b_get s 0));
     push_v (BNum r);
     swap_top;
     rawset Registry;
     modify (\<lambda>s. s\<lparr>b_tracking := (b_tracking s)(c_key c \<mapsto> r)\<rparr>)
   }"

definition KeepTrack :: "int \<Rightarrow> nat \<Rightarrow> unit op" where
  "KeepTrack index self = do {
     push_v (BNum index);
     rawget Registry;
     push_v (BLight (Object self));
     push_copy (Top 3);
     rawset (Top 3);
     pop_n 1
   }"

definition GetSelf :: "cls \<Rightarrow> nat \<Rightarrow> unit fop" where
  "GetSelf c self = do {
     tracking \<leftarrow> gets (\<lambda>s. b_tracking s (c_key c));
     case tracking of None \<Rightarrow> throw_error (''class '' @ className c @ '' is not being tracked'')
     | Some index \<Rightarrow> do {
         push_v (BNum index);
         rawget Registry;
         push_v (BLight (Object self));
         gettable (Top 2);
         none \<leftarrow> is_nil (Top 1);
         if none then throw_error ''object has no bound userdata or table''
         else do { swap_top; pop_n 1; ret (Inr ()) }
       }
   }"

subsection \<open>Constructing objects\<close>

text \<open>\<^verbatim>\<open>new T(L)\<close>: when the constructor throws, the memory is given back.\<close>

definition construct :: "(nat \<Rightarrow> nat \<Rightarrow> unit fop) \<Rightarrow> cls \<Rightarrow> nat fop" where
  "construct ctor c = do {
     p \<leftarrow> gets (\<lambda>s. b_alloc s (b_live s));
     modify (\<lambda>s. s\<lparr>b_live := (b_live s)(p \<mapsto> c_key c)\<rparr>);
     r \<leftarrow> ctor (c_key c) p;
     case r of
       Inl e \<Rightarrow> do {
         (case e of Thrown _ \<Rightarrow> modify (\<lambda>s. s\<lparr>b_live := (b_live s)(p := None)\<rparr>) | Raised _ \<Rightarrow> ret ());
         ret (Inl e)
       }
     | Inr _ \<Rightarrow> ret (Inr p)
   }"

definition Construct :: "(nat \<Rightarrow> nat \<Rightarrow> unit fop) \<Rightarrow> cls \<Rightarrow> bool \<Rightarrow> nat fop" where
  "Construct ctor c gc = andthen (construct ctor c) (\<lambda>newObject.
     andthen (bridge_push c (Some newObject) gc) (\<lambda>_. do {
       tracking \<leftarrow> gets (\<lambda>s. b_tracking s (c_key c));
       (case tracking of None \<Rightarrow> ret () | Some index \<Rightarrow> KeepTrack index newObject);
       ret (Inr newObject)
     }))"

text \<open>A C function called from Lua has a stack of its own.\<close>

definition in_frame :: "bval list \<Rightarrow> nat fop \<Rightarrow> bval list fop" where
  "in_frame args m = do {
     saved \<leftarrow> gets b_stack;
     modify (\<lambda>s. s\<lparr>b_stack := rev args\<rparr>);
     r \<leftarrow> m;
     results \<leftarrow> gets b_stack;
     modify (\<lambda>s. s\<lparr>b_stack := saved\<rparr>);
     ret (case r of Inl e \<Rightarrow> Inl e | Inr n \<Rightarrow> Inr (rev (take n results)))
   }"

text \<open>\<^verbatim>\<open>lua_settable\<close> on the new userdata calls the \<^verbatim>\<open>__newindex\<close> of its metatable.\<close>

definition set_property :: "members \<Rightarrow> cls \<Rightarrow> bval \<Rightarrow> bval \<Rightarrow> bval \<Rightarrow> unit fop" where
  "set_property mfunc c obj k v = do {
     h \<leftarrow> gets (\<lambda>s. case obj of BUser u \<Rightarrow> (case b_users s u of
            Some d \<Rightarrow> (case ud_meta d of Some m \<Rightarrow> b_get s m (BStr ''__newindex'') | None \<Rightarrow> BNil) | None \<Rightarrow> BNil)
          | _ \<Rightarrow> BNil);
     case h of
       BFun (Thunk_Newindex _ setters getters) \<Rightarrow>
         andthen (in_frame [obj, k, v] (thunk_newindex mfunc c setters getters)) (\<lambda>_. ret (Inr ()))
     | _ \<Rightarrow> ret (Inl (Raised ''attempt to index a userdata value''))
   }"

fun copy_values :: "members \<Rightarrow> cls \<Rightarrow> bval \<Rightarrow> bval \<Rightarrow> bval list \<Rightarrow> unit fop" where
  "copy_values mfunc c obj t [] = ret (Inr ())"
| "copy_values mfunc c obj t (k # ks) = do {
     v \<leftarrow> gets (\<lambda>s. raw_get s t k);
     andthen (set_property mfunc c obj k v) (\<lambda>_. copy_values mfunc c obj t ks)
   }"

definition new_T :: "members \<Rightarrow> (nat \<Rightarrow> nat \<Rightarrow> unit fop) \<Rightarrow> (nat \<Rightarrow> nat \<Rightarrow> unit op) \<Rightarrow> cls \<Rightarrow> nat fop" where
  "new_T mfunc ctor post c = do {
     remove_at 1;
     andthen (construct ctor c) (\<lambda>obj.
     andthen (bridge_push c (Some obj) True) (\<lambda>newTable. do {
       tracking \<leftarrow> gets (\<lambda>s. b_tracking s (c_key c));
       (case tracking of None \<Rightarrow> ret () | Some index \<Rightarrow> KeepTrack index obj);
       n \<leftarrow> topM;
       t \<leftarrow> valueM (At 1);
       u \<leftarrow> valueM (At newTable);
       order \<leftarrow> gets (\<lambda>s. case t of BTable i \<Rightarrow> b_order s (b_get s i) | _ \<Rightarrow> []);
       andthen (if n = 2 then copy_values mfunc c u t order else ret (Inr ())) (\<lambda>_. do {
         post (c_key c) obj;
         ret (Inr 1)
       })
     }))
   }"

subsection \<open>Registering a class\<close>

fun set_entries :: "entry_kind \<Rightarrow> nat \<Rightarrow> nat \<Rightarrow> string list \<Rightarrow> unit op" where
  "set_entries kind table i [] = ret ()"
| "set_entries kind table i (name # names) = do {
     push_v (BStr name);
     push_v (BLight (Entry kind i));
     rawset (At table);
     set_entries kind table (Suc i) names
   }"

fun set_methods :: "nat \<Rightarrow> nat \<Rightarrow> nat \<Rightarrow> string list \<Rightarrow> unit op" where
  "set_methods k table i [] = ret ()"
| "set_methods k table i (name # names) = do {
     push_v (BStr name);
     push_v (BFun (Thunk_Methods k (BLight (Entry Method i))));
     rawset (At table);
     set_methods k table (Suc i) names
   }"

definition push_closure :: "(bval \<Rightarrow> bval \<Rightarrow> cfun) \<Rightarrow> unit op" where
  "push_closure f = stk (\<lambda>xs. case xs of b # a # r \<Rightarrow> BFun (f a b) # r | _ \<Rightarrow> xs)"

definition RegisterLua :: "cls \<Rightarrow> nat fop" where
  "RegisterLua c = do {
     library \<leftarrow> valueM (At 1);
     if \<not> is_lua_table library then ret (Inl (Raised ''table expected''))
     else do {
       creatable \<leftarrow> valueM (At 3);
       let isCreatableByLua = (creatable \<notin> {BNil, BBool False});
       new_table;
       methods \<leftarrow> topM;
       newmetatable c;
       metatable \<leftarrow> topM;
       push_copy (At methods);
       set_field (At 1) (className c);
       push_copy (At methods);
       set_field (At metatable) ''__metatable'';
       new_table;
       getters_index \<leftarrow> topM;
       push_v (BStr ''__index'');
       push_copy (At getters_index);
       set_entries Getter getters_index 0 (c_getters c);
       push_copy (At methods);
       push_closure (Thunk_Index (c_key c));
       rawset (At metatable);
       push_v (BStr ''__newindex'');
       new_table;
       newindex \<leftarrow> topM;
       set_entries Setter newindex 0 (c_setters c);
       push_copy (At getters_index);
       push_closure (Thunk_Newindex (c_key c));
       rawset (At metatable);
       pop_n 1;
       push_v (BFun (Tostring_T (c_key c)));
       set_field (At metatable) ''__tostring'';
       push_v (BFun (Gc_T (c_key c)));
       set_field (At metatable) ''__gc'';
       push_v (BStr (full_class_name c));
       set_field (At metatable) ''__name'';
       new_table;
       push_v (BFun (if isCreatableByLua then New_T (c_key c) else Forbidden_New_T (c_key c)));
       push_copy (Top 1);
       set_field (At methods) ''new'';
       set_field (Top 3) ''__call'';
       set_metatable (At methods);
       set_methods (c_key c) methods 0 (c_methods c);
       whenM (isCreatableByLua \<and> is_disposable c) (do {
         push_v (BFun (Dispose_T (c_key c)));
         set_field (At methods) ''dispose''
       });
       pop_n 2;
       ret (Inr 0)
     }
   }"

definition Register :: "cls \<Rightarrow> bool \<Rightarrow> unit fop" where
  "Register c isCreatableByLua = do {
     libraryTable \<leftarrow> valueM (Top 1);
     if \<not> is_lua_table libraryTable then ret (Inl (Raised ''table expected''))
     else andthen (in_frame [libraryTable, BNil, BBool isCreatableByLua] (RegisterLua c)) (\<lambda>_. ret (Inr ()))
   }"


subsection \<open>Properties and methods of an object\<close>

lemma exec_andthen [simp]:
  "exec (andthen m f) s = (case result m s of Inl e \<Rightarrow> exec m s | Inr x \<Rightarrow> exec (f x) (exec m s))"
  "result (andthen m f) s = (case result m s of Inl e \<Rightarrow> Inl e | Inr x \<Rightarrow> result (f x) (exec m s))"
  by (simp_all add: andthen_def split: sum.split)

definition is_object :: "bridge \<Rightarrow> cls \<Rightarrow> nat \<Rightarrow> userdataType \<Rightarrow> bool" where
  "is_object s c u d \<longleftrightarrow> b_users s u = Some d \<and>
     (\<exists>m. ud_meta d = Some m \<and> b_get s 0 (BLight (Class_Name (c_key c))) = BTable m)"

lemma check_object:
  assumes "is_object s c u d" and "value_at (b_stack s) (At n) = BUser u"
  shows "exec (bridge_check c n) s = s" "result (bridge_check c n) s = Inr (ud_pT d)"
  using assms by (auto simp: bridge_check_def checkudata_def is_object_def stack_prim_defs)

text \<open>Running a body under a handler, or in a frame, is a function of its run.\<close>

fun caught :: "(fault + nat) \<times> bridge \<Rightarrow> (fault + nat) \<times> bridge" where
  "caught (Inl (Thrown what), t) = (Inl (Raised what), t\<lparr>b_stack := BStr what # b_stack t\<rparr>)"
| "caught r = r"

lemma run_catch [simp]:
  "result (catch_exception m) s = fst (caught (result m s, exec m s))"
  "exec (catch_exception m) s = snd (caught (result m s, exec m s))"
  by (simp_all add: catch_exception_def split: sum.split fault.split)

fun framed :: "bridge \<Rightarrow> (fault + nat) \<times> bridge \<Rightarrow> (fault + bval list) \<times> bridge" where
  "framed s (r, t) = ((case r of Inl e \<Rightarrow> Inl e | Inr n \<Rightarrow> Inr (rev (take n (b_stack t)))), t\<lparr>b_stack := b_stack s\<rparr>)"

lemma run_in_frame [simp]:
  "result (in_frame args m) s = fst (framed s (result m (s\<lparr>b_stack := rev args\<rparr>), exec m (s\<lparr>b_stack := rev args\<rparr>)))"
  "exec (in_frame args m) s = snd (framed s (result m (s\<lparr>b_stack := rev args\<rparr>), exec m (s\<lparr>b_stack := rev args\<rparr>)))"
  by (simp_all add: in_frame_def split: sum.split)

text \<open>The description of what reading a property means.\<close>

definition property :: "members \<Rightarrow> cls \<Rightarrow> bval \<Rightarrow> bval \<Rightarrow> userdataType \<Rightarrow> bval \<Rightarrow> bval \<Rightarrow> bval list fop" where
  "property mfunc c getters methods d self k = do {
     s \<leftarrow> gets id;
     let own = (case ud_env d of Some e \<Rightarrow> b_get s e k | None \<Rightarrow> BNil);
     if own \<noteq> BNil then ret (Inr [own])
     else if raw_get s getters k \<noteq> BNil then
       in_frame [self] (catch_exception (call_member mfunc c (raw_get s getters k) (ud_pT d)))
     else ret (Inr [raw_get s methods k])
   }"

lemma index_is_property:
  assumes "is_object s c u d" and "ud_env d = Some e" and "b_meta s mt = Some mm"
    and "b_get s mm (BStr ''__index'') = BNil"
  shows "run_state (in_frame [BUser u, k] (thunk_index mfunc c (BTable g) (BTable mt))) s =
    run_state (property mfunc c (BTable g) (BTable mt) d (BUser u) k) s"
proof -
  let ?s = "s\<lparr>b_stack := [k, BUser u]\<rparr>"
  have o: "is_object ?s c u d" using assms(1) by (simp add: is_object_def)
  have c: "exec (bridge_check c (Suc 0)) ?s = ?s" "result (bridge_check c (Suc 0)) ?s = Inr (ud_pT d)"
    using check_object [OF o, of 1] by simp_all
  have u: "b_users s u = Some d" using assms(1) by (simp add: is_object_def)
  note exe = thunk_index_def property_def run_state_split exec_case_sum table_exec
    stack_prim_defs get_fenv_def Let_def exec_if result_if c u assms(2-4)
  consider "b_get s e k \<noteq> BNil" | "b_get s e k = BNil" "b_get s g k \<noteq> BNil" | "b_get s e k = BNil" "b_get s g k = BNil"
    by blast
  then show ?thesis
  proof cases
    case 1
    then show ?thesis by (simp add: exe)
  next
    case 2
    then show ?thesis by (simp add: exe)
  next
    case 3
    then show ?thesis by (simp add: exe)
  qed
qed

lemma newindex_writes:
  assumes "is_object s c u d" and "ud_env d = Some e" and "k \<noteq> BNil"
    and "b_get s st k = BNil" and "b_get s g k = BNil"
  shows "run_state (in_frame [BUser u, k, v] (thunk_newindex mfunc c (BTable st) (BTable g))) s =
    (Inr [], s\<lparr>b_get := (b_get s)(e := (b_get s e)(k := v))\<rparr>)"
proof -
  let ?s = "s\<lparr>b_stack := [v, k, BUser u]\<rparr>"
  have o: "is_object ?s c u d" using assms(1) by (simp add: is_object_def)
  have c: "exec (bridge_check c (Suc 0)) ?s = ?s" "result (bridge_check c (Suc 0)) ?s = Inr (ud_pT d)"
    using check_object [OF o, of 1] by simp_all
  have u: "b_users s u = Some d" using assms(1) by (simp add: is_object_def)
  show ?thesis
    by (simp add: thunk_newindex_def run_state_split exec_case_sum table_exec stack_prim_defs get_fenv_def
        replace_at_def c u assms(2-5))
qed

lemma newindex_read_only:
  assumes "is_object s c u d" and "b_get s st k = BNil" and "b_get s g k \<noteq> BNil"
  shows "\<exists>msg. run_state (in_frame [BUser u, k, v] (thunk_newindex mfunc c (BTable st) (BTable g))) s = (Inl (Raised msg), s)"
proof -
  let ?s = "s\<lparr>b_stack := [v, k, BUser u]\<rparr>"
  have o: "is_object ?s c u d" using assms(1) by (simp add: is_object_def)
  have c: "exec (bridge_check c (Suc 0)) ?s = ?s" "result (bridge_check c (Suc 0)) ?s = Inr (ud_pT d)"
    using check_object [OF o, of 1] by simp_all
  have u: "b_users s u = Some d" using assms(1) by (simp add: is_object_def)
  show ?thesis
    by (simp add: thunk_newindex_def run_state_split exec_case_sum table_exec stack_prim_defs throw_error_def c u assms(2,3))
qed

text \<open>
  C18: What is stored in an object under a key that is not a property of its class is read back:
  after an assignment the object's own value is found before getters and methods, and storing
  nil makes the method of that name visible again.
\<close>
theorem property_roundtrip:
  assumes "is_object s c u d" and "ud_env d = Some e" and "k \<noteq> BNil"
    and "b_get s st k = BNil" and "b_get s g k = BNil"
    and "b_meta s mt = Some mm" and "b_get s mm (BStr ''__index'') = BNil" and "e \<notin> {0, st, g, mt, mm}"
  shows "result (andthen (in_frame [BUser u, k, v] (thunk_newindex mfunc c (BTable st) (BTable g)))
      (\<lambda>_. in_frame [BUser u, k] (thunk_index mfunc c (BTable g) (BTable mt)))) s =
    Inr [if v = BNil then b_get s mt k else v]"
proof -
  define t where "t = s\<lparr>b_get := (b_get s)(e := (b_get s e)(k := v))\<rparr>"
  have w: "result (in_frame [BUser u, k, v] (thunk_newindex mfunc c (BTable st) (BTable g))) s = Inr []"
    "exec (in_frame [BUser u, k, v] (thunk_newindex mfunc c (BTable st) (BTable g))) s = t"
    using newindex_writes [OF assms(1-5), of v mfunc] by (simp_all only: result_def exec_def t_def fst_conv snd_conv)
  have o: "is_object t c u d" using assms(1,8) by (auto simp: t_def is_object_def)
  have m: "b_meta t mt = Some mm" "b_get t mm (BStr ''__index'') = BNil" using assms(6-8) by (auto simp: t_def)
  have "result (in_frame [BUser u, k] (thunk_index mfunc c (BTable g) (BTable mt))) t =
      result (property mfunc c (BTable g) (BTable mt) d (BUser u) k) t"
    using index_is_property [OF o assms(2) m] by (simp only: result_def)
  also have "\<dots> = Inr [if v = BNil then b_get s mt k else v]"
    using assms(2,5,8) by (auto simp: property_def t_def Let_def result_if)
  finally show ?thesis using w by (simp del: run_in_frame)
qed

subsection \<open>Registration\<close>

fun put_entries :: "(nat \<Rightarrow> bval) \<Rightarrow> nat \<Rightarrow> string list \<Rightarrow> (bval \<Rightarrow> bval) \<Rightarrow> bval \<Rightarrow> bval" where
  "put_entries g i [] f = f"
| "put_entries g i (name # names) f = put_entries g (Suc i) names (f(BStr name := g i))"

lemma put_entries_other: "(\<And>x. x \<in> set names \<Longrightarrow> k \<noteq> BStr x) \<Longrightarrow> put_entries g i names f k = f k"
  by (induction names arbitrary: i f) auto

lemma put_entries_nth: "distinct names \<Longrightarrow> j < length names \<Longrightarrow> put_entries g i names f (BStr (names ! j)) = g (i + j)"
proof (induction names arbitrary: i j f)
  case (Cons name names)
  from Cons.prems have "put_entries g (Suc i) names (f(BStr name := g i)) (BStr name) = g i"
    by (subst put_entries_other) auto
  with Cons show ?case by (cases j) auto
qed simp

lemma at_cons: "1 \<le> i \<Longrightarrow> i \<le> length xs \<Longrightarrow> value_at (x # xs) (At i) = value_at xs (At i)"
  by (simp add: Suc_diff_le)

lemma exec_set_entries:
  assumes "value_at (b_stack s) (At table) = BTable t" and "1 \<le> table" and "table \<le> length (b_stack s)"
  shows "exec (set_entries kind table i names) s =
      s\<lparr>b_get := (b_get s)(t := put_entries (\<lambda>i. BLight (Entry kind i)) i names (b_get s t))\<rparr>"
    "exec (set_methods k table i names) s =
      s\<lparr>b_get := (b_get s)(t := put_entries (\<lambda>i. BFun (Thunk_Methods k (BLight (Entry Method i)))) i names (b_get s t))\<rparr>"
  using assms
proof (induction names arbitrary: i s)
  case (Cons name names)
  { case 1
    have "value_at (x # y # b_stack s) (At table) = BTable t" for x y
      using 1 at_cons by (metis le_SucI length_Cons)
    then show ?case using 1 Cons.IH(1) by (simp add: table_exec cong: if_cong del: value_at.simps) }
  { case 2
    have "value_at (x # y # b_stack s) (At table) = BTable t" for x y
      using 2 at_cons by (metis le_SucI length_Cons)
    then show ?case using 2 Cons.IH(2) by (simp add: table_exec cong: if_cong del: value_at.simps) }
qed simp_all

lemma exec_newmetatable:
  assumes "b_get s 0 (BLight (Class_Name (c_key c))) = BNil" and "b_fresh s \<noteq> 0"
  shows "exec (newmetatable c) s = s\<lparr>b_get := (b_get s)(0 := (b_get s 0)(BLight (Class_Name (c_key c)) := BTable (b_fresh s)),
      b_fresh s := (\<lambda>_. BNil)),
    b_meta := (b_meta s)(b_fresh s := None), b_stack := BTable (b_fresh s) # b_stack s, b_fresh := Suc (b_fresh s)\<rparr>"
  using assms by (simp add: newmetatable_def table_exec exec_whenM fun_upd_twist)

lemma exec_set_metatable:
  assumes "b_stack s = BTable m # xs" and "value_at (BTable m # xs) p = BTable t"
  shows "exec (set_metatable p) s = s\<lparr>b_meta := (b_meta s)(t \<mapsto> m), b_stack := xs\<rparr>"
  using assms by (simp add: set_metatable_def)

lemma exec_closure:
  "b_stack s = b # a # xs \<Longrightarrow> exec (push_closure f) s = s\<lparr>b_stack := BFun (f a b) # xs\<rparr>"
  by (simp add: push_closure_def stk_def)

definition creatable :: "bval \<Rightarrow> bool" where
  "creatable v \<longleftrightarrow> v \<notin> {BNil, BBool False}"

lemma RegisterLua_tables:
  assumes "b_stack s = [flag, parent, BTable lib]" and "b_get s 0 (BLight (Class_Name (c_key c))) = BNil"
    and "0 < b_fresh s" and "lib < b_fresh s" and "lib \<noteq> 0"
  defines "f \<equiv> b_fresh s" and "t \<equiv> exec (RegisterLua c) s"
  shows "b_get t 0 = (b_get s 0)(BLight (Class_Name (c_key c)) := BTable (f + 1))"
    "b_get t lib = (b_get s lib)(BStr (className c) := BTable f)"
    "b_get t f = (let ms = put_entries (\<lambda>i. BFun (Thunk_Methods (c_key c) (BLight (Entry Method i)))) 0 (c_methods c)
        ((\<lambda>_. BNil)(BStr ''new'' := BFun (if creatable flag then New_T (c_key c) else Forbidden_New_T (c_key c)))) in
      if creatable flag \<and> is_disposable c then ms(BStr ''dispose'' := BFun (Dispose_T (c_key c))) else ms)"
    "b_get t (f + 1) = (\<lambda>_. BNil)(BStr ''__metatable'' := BTable f,
      BStr ''__index'' := BFun (Thunk_Index (c_key c) (BTable (f + 2)) (BTable f)),
      BStr ''__newindex'' := BFun (Thunk_Newindex (c_key c) (BTable (f + 3)) (BTable (f + 2))),
      BStr ''__tostring'' := BFun (Tostring_T (c_key c)), BStr ''__gc'' := BFun (Gc_T (c_key c)),
      BStr ''__name'' := BStr (full_class_name c))"
    "b_get t (f + 2) = put_entries (\<lambda>i. BLight (Entry Getter i)) 0 (c_getters c) (\<lambda>_. BNil)"
    "b_get t (f + 3) = put_entries (\<lambda>i. BLight (Entry Setter i)) 0 (c_setters c) (\<lambda>_. BNil)"
    "b_get t (f + 4) = (\<lambda>_. BNil)(BStr ''__call'' := BFun (if creatable flag then New_T (c_key c) else Forbidden_New_T (c_key c)))"
    "b_meta t f = Some (f + 4)" "b_stack t = b_stack s" "b_users t = b_users s"
  unfolding t_def f_def
  using assms(1-5)
  by (simp_all add: RegisterLua_def exec_newmetatable table_exec exec_set_metatable exec_closure exec_set_entries
      exec_whenM Let_def creatable_def numeral_3_eq_3)

text \<open>
  Registering a class leaves in Lua what the class declares and nothing else: the library
  holds its table of methods, which its metatable answers to whoever asks for it; the thunks of
  the metatable know exactly the declared getters and setters; each method is the thunk of its
  own entry; \<open>new\<close> constructs an object, or refuses to where the class does not allow it.
\<close>
theorem class_registered:
  assumes "b_stack s = [flag, parent, BTable lib]" and "b_get s 0 (BLight (Class_Name (c_key c))) = BNil"
    and "0 < b_fresh s" and "lib < b_fresh s" and "lib \<noteq> 0"
    and "distinct (c_getters c)" and "distinct (c_setters c)" and "distinct (c_methods c)"
    and "set (c_methods c) \<inter> {''new'', ''dispose''} = {}"
  defines "t \<equiv> exec (RegisterLua c) s"
  shows "\<exists>mt m g st. b_get t lib (BStr (className c)) = BTable mt \<and>
      b_get t 0 (BLight (Class_Name (c_key c))) = BTable m \<and> b_get t m (BStr ''__metatable'') = BTable mt \<and>
      b_get t m (BStr ''__index'') = BFun (Thunk_Index (c_key c) (BTable g) (BTable mt)) \<and>
      b_get t m (BStr ''__newindex'') = BFun (Thunk_Newindex (c_key c) (BTable st) (BTable g)) \<and>
      b_get t m (BStr ''__gc'') = BFun (Gc_T (c_key c)) \<and>
      (\<forall>i<length (c_methods c). b_get t mt (BStr (c_methods c ! i)) =
        BFun (Thunk_Methods (c_key c) (BLight (Entry Method i)))) \<and>
      b_get t mt (BStr ''new'') = BFun (if creatable flag then New_T (c_key c) else Forbidden_New_T (c_key c)) \<and>
      (\<forall>i<length (c_getters c). b_get t g (BStr (c_getters c ! i)) = BLight (Entry Getter i)) \<and>
      (\<forall>k. k \<notin> BStr ` set (c_getters c) \<longrightarrow> b_get t g k = BNil) \<and>
      (\<forall>i<length (c_setters c). b_get t st (BStr (c_setters c ! i)) = BLight (Entry Setter i)) \<and>
      (\<forall>k. k \<notin> BStr ` set (c_setters c) \<longrightarrow> b_get t st k = BNil)"
proof -
  note T = RegisterLua_tables [OF assms(1-5), folded t_def]
  let ?f = "b_fresh s"
  have ms: "b_get t ?f (BStr x) = put_entries (\<lambda>i. BFun (Thunk_Methods (c_key c) (BLight (Entry Method i)))) 0 (c_methods c)
      ((\<lambda>_. BNil)(BStr ''new'' := BFun (if creatable flag then New_T (c_key c) else Forbidden_New_T (c_key c)))) (BStr x)"
    if "x \<noteq> ''dispose''" for x
    using that T(3) by (simp add: Let_def)
  show ?thesis
  proof (rule exI [of _ ?f], rule exI [of _ "?f + 1"], rule exI [of _ "?f + 2"], rule exI [of _ "?f + 3"],
      intro conjI allI impI)
    show "b_get t ?f (BStr (c_methods c ! i)) = BFun (Thunk_Methods (c_key c) (BLight (Entry Method i)))"
      if "i < length (c_methods c)" for i
    proof -
      have "c_methods c ! i \<in> set (c_methods c)" using that by simp
      then have "c_methods c ! i \<noteq> ''dispose''" using assms(9) by (metis disjoint_iff insertCI)
      then show ?thesis using ms that assms(8) by (simp add: put_entries_nth)
    qed
    show "b_get t ?f (BStr ''new'') = BFun (if creatable flag then New_T (c_key c) else Forbidden_New_T (c_key c))"
    proof -
      have "''new'' \<notin> set (c_methods c)" using assms(9) by auto
      then have "put_entries g 0 (c_methods c) h (BStr ''new'') = h (BStr ''new'')" for g h
        by (intro put_entries_other) auto
      then show ?thesis using ms [of "''new''"] by simp
    qed
  next
    show "b_get t (?f + 2) k = BNil" if "k \<notin> BStr ` set (c_getters c)" for k
      using that T(5) by (subst T(5)) (auto intro: put_entries_other)
    show "b_get t (?f + 3) k = BNil" if "k \<notin> BStr ` set (c_setters c)" for k
      using that T(6) by (subst T(6)) (auto intro: put_entries_other)
  qed (use T assms(6,7) in \<open>simp_all add: put_entries_nth\<close>)
qed

subsection \<open>Instances\<close>

definition sample_cls :: cls where
  "sample_cls = \<lparr>c_key = 5, className = ''Timer'', full_class_name = ''LuaNode.core.Timer'', c_methods = [''start'', ''stop''],
     c_getters = [''id''], c_setters = [''repeats''], is_disposable = True\<rparr>"

definition sample_bridge :: bridge where
  "sample_bridge = \<lparr>b_get = (\<lambda>_ _. BNil), b_meta = (\<lambda>_. None), b_users = Map.empty, b_phase = (\<lambda>_. Reachable), b_fresh = 2, b_stack = [],
     b_live = Map.empty, b_tracking = (\<lambda>_. None), b_bad = False, b_bad_delete = False, b_late = False,
     b_alloc = (\<lambda>l. Suc (Max (insert 0 (dom l)))),
     b_newref = (\<lambda>_. 1), b_meta_index = (\<lambda>_ _. BNil), b_order = (\<lambda>_. []), b_where = id\<rparr>"

text \<open>An object of the class, with the tables numbered as registration numbers them.\<close>

definition sample_instance :: bridge where
  "sample_instance = sample_bridge\<lparr>b_get := (\<lambda>_ _. BNil)(0 := (\<lambda>_. BNil)(BLight (Class_Name 5) := BTable 3)),
     b_meta := (\<lambda>_. None)(2 := Some 6), b_users := [8 \<mapsto> \<lparr>ud_pT = 40, ud_collectable = True, ud_env = Some 9, ud_meta = Some 3\<rparr>],
     b_fresh := 10, b_live := [40 \<mapsto> 5]\<rparr>"

lemma property_roundtrip_witness:
  "result (andthen (in_frame [BUser 8, BStr ''name'', BNum 3] (thunk_newindex (\<lambda>_ _ _. ret (Inr 0)) sample_cls (BTable 5) (BTable 4)))
      (\<lambda>_. in_frame [BUser 8, BStr ''name''] (thunk_index (\<lambda>_ _ _. ret (Inr 0)) sample_cls (BTable 4) (BTable 2)))) sample_instance =
    Inr [BNum 3]"
  using property_roundtrip [of sample_instance sample_cls 8 "\<lparr>ud_pT = 40, ud_collectable = True, ud_env = Some 9, ud_meta = Some 3\<rparr>"
      9 "BStr ''name''" 5 4 2 6 "BNum 3" "\<lambda>_ _ _. ret (Inr 0)"]
  by (simp add: is_object_def sample_instance_def sample_bridge_def sample_cls_def)

lemma class_registered_witness:
  "\<exists>mt m. b_get (exec (RegisterLua sample_cls) (sample_bridge\<lparr>b_stack := [BBool True, BNil, BTable 1]\<rparr>)) 1 (BStr ''Timer'') = BTable mt \<and>
     b_get (exec (RegisterLua sample_cls) (sample_bridge\<lparr>b_stack := [BBool True, BNil, BTable 1]\<rparr>)) m (BStr ''__metatable'') = BTable mt"
  using class_registered [of "sample_bridge\<lparr>b_stack := [BBool True, BNil, BTable 1]\<rparr>" "BBool True" BNil 1 sample_cls]
  by (auto simp: sample_bridge_def sample_cls_def)

text \<open>
  An object that Lua disposes of is deleted, but its userdata still passes every check: the
  next method runs on memory that was given back.
\<close>

lemma dispose_leaves_a_dangling_pointer:
  assumes "is_object s c u d" and "ud_collectable d" and "b_stack s = [BUser u]" and "b_tracking s (c_key c) = None"
  defines "t \<equiv> exec (dispose_T c) s"
  shows "b_live t (ud_pT d) = None" "result (bridge_check c 1) t = Inr (ud_pT d)"
proof -
  let ?d = "d\<lparr>ud_collectable := False\<rparr>"
  have u: "b_users s u = Some d" using assms(1) by (simp add: is_object_def)
  then have t: "t = s\<lparr>b_bad_delete := (b_bad_delete s \<or> b_live s (ud_pT d) \<noteq> Some (c_key c)), b_live := (b_live s)(ud_pT d := None),
      b_users := (b_users s)(u \<mapsto> ?d)\<rparr>"
    using assms(2-4) by (simp add: t_def dispose_T_def gc_T_def delete_object_def set_user_def)
  then show "b_live t (ud_pT d) = None" by simp
  have "is_object t c u ?d" using assms(1) t by (simp add: is_object_def)
  then show "result (bridge_check c 1) t = Inr (ud_pT d)"
    using check_object(2) [of t c u ?d 1] t assms(3) by simp
qed

text \<open>\<open>test\<close> answers no and leaves two values on the stack.\<close>

lemma test_leaves_values:
  assumes "b_users s u = Some d" and "ud_meta d = Some m" and "b_stack s = [BUser u]"
    and "b_get s 0 (BLight (Class_Name (c_key c))) \<noteq> BTable m"
  shows "result (bridge_test c 1) s = False" "length (b_stack (exec (bridge_test c 1) s)) = 3"
  using assms by (simp_all add: bridge_test_def table_exec result_if exec_if)

end
