(* ===== verification/Class_Bridge_Objects.thy ===== *)
theory Class_Bridge_Objects
  imports Class_Bridge
begin

section \<open>The class bridge: objects and their userdata\<close>

text \<open>
  What holds in every state that can be reached by registering classes, constructing objects
  from Lua or C++, calling thunks with any arguments, whatever Lua code does to the tables
  it can get at, and the collector, as long as the Lua state is open: the userdata of a class
  that have not been finalised and its live objects correspond one to one.  So no object is
  deleted twice, and a thunk calls a member function of an object that does not exist or is of
  another class only when it is called with a userdata whose finaliser has run, which other
  finalisers can do.  Not among the steps is \<open>dispose\<close>, which breaks the correspondence by
  itself (\<open>dispose_leaves_a_dangling_pointer\<close>), and what \<^verbatim>\<open>lua_close\<close> does.
\<close>

subsection \<open>The tables of the bridge\<close>

type_synonym heap = "nat \<Rightarrow> bval \<Rightarrow> bval"

fun table_of :: "bval \<Rightarrow> nat option" where
  "table_of (BTable t) = Some t"
| "table_of _ = None"

lemma table_of_Some [simp]: "table_of v = Some t \<longleftrightarrow> v = BTable t"
  by (cases v) auto

definition meta_of :: "heap \<Rightarrow> nat \<Rightarrow> nat option" where
  "meta_of g k = table_of (g 0 (BLight (Class_Name k)))"

definition sub_of :: "heap \<Rightarrow> nat \<Rightarrow> nat option" where
  "sub_of g k = (case meta_of g k of None \<Rightarrow> None | Some m \<Rightarrow> table_of (g m (BStr ''userdata'')))"

text \<open>Lua code cannot get at the registry, the metatables and the tables of userdata.\<close>

definition protected :: "heap \<Rightarrow> nat \<Rightarrow> bool" where
  "protected g t \<longleftrightarrow> t = 0 \<or> (\<exists>k. meta_of g k = Some t \<or> sub_of g k = Some t)"

definition registry_inv :: "heap \<Rightarrow> (nat \<Rightarrow> nat option) \<Rightarrow> nat \<Rightarrow> bool" where
  "registry_inv g meta n \<longleftrightarrow> 0 < n \<and>
     (\<forall>k. g 0 (BLight (Class_Name k)) = BNil \<or> meta_of g k \<noteq> None) \<and>
     (\<forall>r w. g 0 (BNum r) = BTable w \<longrightarrow> w < n \<and> \<not> protected g w) \<and>
     (\<forall>k m. meta_of g k = Some m \<longrightarrow> 0 < m \<and> m < n \<and> meta m = None \<and>
        (g m (BStr ''userdata'') = BNil \<or> sub_of g k \<noteq> None) \<and>
        (\<forall>k'. meta_of g k' = Some m \<longrightarrow> k' = k) \<and> (\<forall>k'. sub_of g k' \<noteq> Some m)) \<and>
     (\<forall>k t. sub_of g k = Some t \<longrightarrow> 0 < t \<and> t < n \<and> meta t = Some t \<and>
        g t (BStr ''__mode'') = BStr ''v'' \<and> g t (BStr ''__index'') = BNil \<and>
        (\<forall>k'. sub_of g k' = Some t \<longrightarrow> k' = k))"

definition users_inv :: "heap \<Rightarrow> (nat \<rightharpoonup> userdataType) \<Rightarrow> (nat \<rightharpoonup> nat) \<Rightarrow> nat \<Rightarrow> bool" where
  "users_inv g users live n \<longleftrightarrow>
     (\<forall>u d. users u = Some d \<longrightarrow> u < n \<and> ud_collectable d \<and>
        (\<exists>e. ud_env d = Some e \<and> e < n \<and> \<not> protected g e) \<and>
        (\<exists>k t. ud_meta d = meta_of g k \<and> sub_of g k = Some t \<and>
          g t (BLight (Object (ud_pT d))) = BUser u \<and> live (ud_pT d) = Some k)) \<and>
     (\<forall>k t p. sub_of g k = Some t \<longrightarrow> g t (BLight (Object p)) = BNil \<or>
        (\<exists>u d. g t (BLight (Object p)) = BUser u \<and> users u = Some d \<and> ud_pT d = p \<and> ud_meta d = meta_of g k))"

text \<open>
  A userdata the collector has not taken is in the table of its class; one that waits for its
  finaliser still holds a live object, which no other holds; of one that was finalised
  nothing is known but that its own table is not a table of the bridge.
\<close>

definition held :: "(nat \<Rightarrow> gc_phase) \<Rightarrow> (nat \<rightharpoonup> userdataType) \<Rightarrow> nat \<rightharpoonup> userdataType" where
  "held ph users u = (if ph u = Reachable then users u else None)"

definition gc_inv :: "heap \<Rightarrow> (nat \<rightharpoonup> userdataType) \<Rightarrow> (nat \<Rightarrow> gc_phase) \<Rightarrow> (nat \<rightharpoonup> nat) \<Rightarrow> nat \<Rightarrow> bool" where
  "gc_inv g users ph live n \<longleftrightarrow>
     (\<forall>u. ph u \<noteq> Reachable \<longrightarrow> u < n) \<and>
     (\<forall>u d. users u = Some d \<longrightarrow> u < n \<and> (\<exists>e. ud_env d = Some e \<and> e < n \<and> \<not> protected g e)) \<and>
     (\<forall>u d. users u = Some d \<and> ph u = Separated \<longrightarrow> ud_collectable d \<and>
        (\<exists>k m. ud_meta d = Some m \<and> meta_of g k = Some m \<and> live (ud_pT d) = Some k)) \<and>
     (\<forall>u v d e. users u = Some d \<and> ph u = Separated \<and> users v = Some e \<and> ph v \<noteq> Finalised \<and>
        ud_pT d = ud_pT e \<longrightarrow> u = v)"

definition bridge_inv :: "(nat \<Rightarrow> gc_phase) \<Rightarrow> bridge \<Rightarrow> bool" where
  "bridge_inv ph s \<longleftrightarrow> registry_inv (b_get s) (b_meta s) (b_fresh s) \<and>
     users_inv (b_get s) (held ph (b_users s)) (b_live s) (b_fresh s) \<and>
     gc_inv (b_get s) (b_users s) ph (b_live s) (b_fresh s) \<and> finite (dom (b_live s)) \<and>
     (b_bad s \<longrightarrow> b_late s) \<and> \<not> b_bad_delete s \<and> (\<forall>l. finite (dom l) \<longrightarrow> l (b_alloc s l) = None) \<and> b_phase s = ph"

lemma held_simps [simp]:
  "held ph users u = Some d \<longleftrightarrow> users u = Some d \<and> ph u = Reachable"
  "ph u = Reachable \<Longrightarrow> held ph (users(u \<mapsto> d)) = (held ph users)(u \<mapsto> d)"
  "x \<noteq> Reachable \<Longrightarrow> held (ph(u := x)) users = (held ph users)(u := None)"
  "ph u \<noteq> Reachable \<Longrightarrow> held ph (users(u := None)) = held ph users"
  by (auto simp: held_def)

text \<open>What the collector holds does not change when tables, classes and objects are only added.\<close>

lemma gc_inv_mono:
  assumes "gc_inv g users ph live n" and "n \<le> n'" and "\<And>k m. meta_of g k = Some m \<Longrightarrow> meta_of g' k = Some m"
    and "\<And>e. e < n \<Longrightarrow> protected g' e \<Longrightarrow> protected g e" and "\<And>p k. live p = Some k \<Longrightarrow> live' p = Some k"
  shows "gc_inv g' users ph live' n'"
  using assms unfolding gc_inv_def by (meson less_le_trans)

lemma sub_of_Some: "sub_of g k = Some t \<longleftrightarrow> (\<exists>m. meta_of g k = Some m \<and> g m (BStr ''userdata'') = BTable t)"
  by (auto simp: sub_of_def split: option.splits)

lemma inv_stack [simp]: "bridge_inv ph (s\<lparr>b_stack := xs\<rparr>) = bridge_inv ph s" "bridge_inv ph (s\<lparr>b_tracking := tr\<rparr>) = bridge_inv ph s"
  by (simp_all add: bridge_inv_def)

subsection \<open>Writing a table Lua code can get at\<close>

lemma unprotected_write:
  assumes "\<not> protected g t"
  shows "meta_of (g(t := f)) = meta_of g" "sub_of (g(t := f)) = sub_of g" "protected (g(t := f)) = protected g"
proof -
  have t: "t \<noteq> 0" "\<And>k. meta_of g k \<noteq> Some t" using assms by (auto simp: protected_def)
  show m: "meta_of (g(t := f)) = meta_of g" using t(1) by (simp add: fun_eq_iff meta_of_def)
  show "sub_of (g(t := f)) = sub_of g" using t(2) unfolding fun_eq_iff sub_of_def m by (auto split: option.split)
  then show "protected (g(t := f)) = protected g" by (simp add: fun_eq_iff protected_def m)
qed

lemma unprotected_distinct:
  assumes "\<not> protected g t"
  shows "t \<noteq> 0" "meta_of g k = Some m \<Longrightarrow> m \<noteq> t" "sub_of g k = Some m \<Longrightarrow> m \<noteq> t"
  using assms by (auto simp: protected_def)

lemma registry_inv_write: "registry_inv g meta n \<Longrightarrow> \<not> protected g t \<Longrightarrow> registry_inv (g(t := f)) meta n"
  unfolding registry_inv_def unprotected_write using unprotected_distinct [of g t] by (simp add: unprotected_write)

lemma users_inv_write: "users_inv g users live n \<Longrightarrow> \<not> protected g t \<Longrightarrow> users_inv (g(t := f)) users live n"
  unfolding users_inv_def using unprotected_distinct(3) [of g t] by (simp add: unprotected_write) metis

lemma gc_inv_write: "gc_inv g users ph live n \<Longrightarrow> \<not> protected g t \<Longrightarrow> gc_inv (g(t := f)) users ph live n"
  by (erule gc_inv_mono) (simp_all add: unprotected_write)

lemma inv_write: "bridge_inv ph s \<Longrightarrow> \<not> protected (b_get s) t \<Longrightarrow> bridge_inv ph (s\<lparr>b_get := (b_get s)(t := f)\<rparr>)"
  by (simp add: bridge_inv_def registry_inv_write users_inv_write gc_inv_write)

lemma registry_inv_more: "registry_inv g meta n \<Longrightarrow> n \<le> n' \<Longrightarrow> registry_inv g meta n'"
  unfolding registry_inv_def by (meson less_le_trans)

lemma users_inv_more: "users_inv g users live n \<Longrightarrow> n \<le> n' \<Longrightarrow> users_inv g users live n'"
  unfolding users_inv_def by (meson less_le_trans)

lemma registry_inv_meta:
  "registry_inv g meta n \<Longrightarrow> \<not> protected g t \<Longrightarrow> registry_inv g (meta(t := x)) n"
  unfolding registry_inv_def using unprotected_distinct [of g t] by simp

lemma fresh_unprotected: "registry_inv g meta n \<Longrightarrow> n \<le> t \<Longrightarrow> \<not> protected g t"
  unfolding registry_inv_def protected_def by (metis leD le_zero_eq neq0_conv)

lemma registry_inv_fresh: "registry_inv g meta n \<Longrightarrow> registry_inv (g(n := f)) (meta(n := x)) (Suc n)"
proof -
  assume r: "registry_inv g meta n"
  then have n: "\<not> protected g n" by (simp add: fresh_unprotected)
  from registry_inv_write [OF r this] have "registry_inv (g(n := f)) meta n" .
  then have "registry_inv (g(n := f)) (meta(n := x)) n" by (rule registry_inv_meta) (simp add: unprotected_write n)
  then show ?thesis by (rule registry_inv_more) simp
qed

lemma users_inv_fresh: "registry_inv g meta n \<Longrightarrow> users_inv g users live n \<Longrightarrow> users_inv (g(n := f)) users live (Suc n)"
  by (meson fresh_unprotected le_refl lessI less_imp_le users_inv_more users_inv_write)

lemma gc_inv_more: "gc_inv g users ph live n \<Longrightarrow> n \<le> n' \<Longrightarrow> gc_inv g users ph live n'"
  by (rule gc_inv_mono)

lemma gc_inv_fresh: "registry_inv g meta n \<Longrightarrow> gc_inv g users ph live n \<Longrightarrow> gc_inv (g(n := f)) users ph live (Suc n)"
  by (meson fresh_unprotected le_refl lessI less_imp_le gc_inv_more gc_inv_write)

lemma inv_new_table: "bridge_inv ph s \<Longrightarrow> bridge_inv ph (exec new_table s)"
  by (auto simp: table_exec bridge_inv_def intro: registry_inv_fresh users_inv_fresh gc_inv_fresh)

subsection \<open>Objects come and go\<close>

lemma users_inv_live:
  assumes "users_inv g users live n" and "live p = None"
  shows "users_inv g users (live(p \<mapsto> k)) n"
  using assms unfolding users_inv_def by (auto split: if_splits; metis option.distinct(1))

lemma gc_inv_live: "gc_inv g users ph live n \<Longrightarrow> live p = None \<Longrightarrow> gc_inv g users ph (live(p \<mapsto> k)) n"
  by (erule gc_inv_mono) auto

text \<open>No userdata that waits for its finaliser holds an object.\<close>

definition unshared :: "(nat \<rightharpoonup> userdataType) \<Rightarrow> (nat \<Rightarrow> gc_phase) \<Rightarrow> nat \<Rightarrow> bool" where
  "unshared users ph p \<longleftrightarrow> (\<forall>v d. users v = Some d \<and> ph v = Separated \<longrightarrow> ud_pT d \<noteq> p)"

lemma gc_inv_unshared: "gc_inv g users ph live n \<Longrightarrow> live p = None \<Longrightarrow> unshared users ph p"
  unfolding gc_inv_def unshared_def by (metis option.distinct(1))

lemma gc_inv_push:
  assumes i: "gc_inv g users ph live n" and p: "unshared users ph (ud_pT d)" and u: "n \<le> u" "u < n'"
    and e: "ud_env d = Some e" "e < n'" "\<not> protected g e"
  shows "gc_inv g (users(u \<mapsto> d)) ph live n'"
proof -
  have ph: "ph u = Reachable" "n \<le> n'" using i u unfolding gc_inv_def by force+
  from gc_inv_more [OF i this(2)] show ?thesis
    unfolding gc_inv_def using ph(1) p u(2) e by (auto simp: unshared_def)
qed

text \<open>A new userdata, entered in the table of its class.\<close>

lemma users_inv_push:
  assumes r: "registry_inv g meta n" and i: "users_inv g users live n" and t: "sub_of g k = Some t" "meta_of g k = Some m"
    and p: "live p = Some k" "g t (BLight (Object p)) = BNil" and e: "e < n'" "\<not> protected g e" and n: "users u = None" "n \<le> n'" "u < n'"
  shows "users_inv (g(t := (g t)(BLight (Object p) := BUser u)))
      (users(u \<mapsto> \<lparr>ud_pT = p, ud_collectable = True, ud_env = Some e, ud_meta = Some m\<rparr>)) live n'"
    and "registry_inv (g(t := (g t)(BLight (Object p) := BUser u))) meta n"
    and "protected (g(t := (g t)(BLight (Object p) := BUser u))) = protected g"
    and "meta_of (g(t := (g t)(BLight (Object p) := BUser u))) = meta_of g"
proof -
  let ?g = "g(t := (g t)(BLight (Object p) := BUser u))"
  have t0: "t \<noteq> 0" "\<And>k. meta_of g k \<noteq> Some t" "\<And>k'. sub_of g k' = Some t \<Longrightarrow> k' = k"
    using r t unfolding registry_inv_def by (metis less_irrefl)+
  show m: "meta_of ?g = meta_of g" using t0(1) by (simp add: fun_eq_iff meta_of_def)
  have s: "sub_of ?g = sub_of g" using t0(2) unfolding fun_eq_iff sub_of_def m by (auto split: option.split)
  show prot: "protected ?g = protected g" by (simp add: fun_eq_iff protected_def m s)
  show "registry_inv ?g meta n"
    using r t0(1,2) unfolding registry_inv_def m s prot by auto
  show "users_inv ?g (users(u \<mapsto> \<lparr>ud_pT = p, ud_collectable = True, ud_env = Some e, ud_meta = Some m\<rparr>)) live n'"
    unfolding users_inv_def m s prot
  proof (intro conjI allI impI)
    fix v d assume v: "(users(u \<mapsto> \<lparr>ud_pT = p, ud_collectable = True, ud_env = Some e, ud_meta = Some m\<rparr>)) v = Some d"
    have "v < n' \<and> ud_collectable d \<and> (\<exists>e. ud_env d = Some e \<and> e < n' \<and> \<not> protected g e) \<and>
      (\<exists>k t'. ud_meta d = meta_of g k \<and> sub_of g k = Some t' \<and> ?g t' (BLight (Object (ud_pT d))) = BUser v \<and>
        live (ud_pT d) = Some k)"
    proof (cases "v = u")
      case True
      with v have d: "d = \<lparr>ud_pT = p, ud_collectable = True, ud_env = Some e, ud_meta = Some m\<rparr>" by simp
      have "\<exists>k t'. Some m = meta_of g k \<and> sub_of g k = Some t' \<and> ?g t' (BLight (Object p)) = BUser u \<and> live p = Some k"
        using t p(1) by (intro exI [of _ k] exI [of _ t]) simp
      with d True e n show ?thesis by simp
    next
      case False
      with v have "users v = Some d" by simp
      then have v: "v < n" "ud_collectable d" "\<exists>e. ud_env d = Some e \<and> e < n \<and> \<not> protected g e"
        and "\<exists>k t'. ud_meta d = meta_of g k \<and> sub_of g k = Some t' \<and> g t' (BLight (Object (ud_pT d))) = BUser v \<and>
          live (ud_pT d) = Some k"
        using i unfolding users_inv_def by blast+
      then obtain k' t' where k': "ud_meta d = meta_of g k'" "sub_of g k' = Some t'"
        "g t' (BLight (Object (ud_pT d))) = BUser v" "live (ud_pT d) = Some k'" by blast
      then have "?g t' (BLight (Object (ud_pT d))) = BUser v" using p(2) by auto
      with k' have "\<exists>k t'. ud_meta d = meta_of g k \<and> sub_of g k = Some t' \<and>
          ?g t' (BLight (Object (ud_pT d))) = BUser v \<and> live (ud_pT d) = Some k" by blast
      moreover have "v < n'" "\<exists>e. ud_env d = Some e \<and> e < n' \<and> \<not> protected g e" using v n by auto
      ultimately show ?thesis using v(2) by blast
    qed
    then show "v < n'" "ud_collectable d" "\<exists>e. ud_env d = Some e \<and> e < n' \<and> \<not> protected g e"
      "\<exists>k t'. ud_meta d = meta_of g k \<and> sub_of g k = Some t' \<and> ?g t' (BLight (Object (ud_pT d))) = BUser v \<and>
        live (ud_pT d) = Some k" by blast+
  next
    fix k' t' q assume t': "sub_of g k' = Some t'"
    show "?g t' (BLight (Object q)) = BNil \<or> (\<exists>v d. ?g t' (BLight (Object q)) = BUser v \<and>
      (users(u \<mapsto> \<lparr>ud_pT = p, ud_collectable = True, ud_env = Some e, ud_meta = Some m\<rparr>)) v = Some d \<and>
      ud_pT d = q \<and> ud_meta d = meta_of g k')"
    proof (cases "t' = t \<and> q = p")
      case True
      with t' t0(3) t(2) show ?thesis by auto
    next
      case False
      have "g t' (BLight (Object q)) = BNil \<or> (\<exists>v d. g t' (BLight (Object q)) = BUser v \<and> users v = Some d \<and>
          v < n \<and> ud_pT d = q \<and> ud_meta d = meta_of g k')"
        using i t' unfolding users_inv_def by metis
      with False n show ?thesis by auto
    qed
  qed
qed


text \<open>The weak references to a userdata go.\<close>

lemma users_inv_clear:
  fixes u :: nat
  assumes r: "registry_inv g meta n" and i: "users_inv g users live n"
  defines "g' \<equiv> \<lambda>t k. if (\<exists>m. meta t = Some m \<and> g m (BStr ''__mode'') = BStr ''v'') \<and> g t k = BUser u then BNil else g t k"
  shows "users_inv g' (users(u := None)) live n" "registry_inv g' meta n" "protected g' = protected g" "meta_of g' = meta_of g"
proof -
  have tab: "table_of (g' t k) = table_of (g t k)" for t k by (simp add: g'_def)
  have tabs: "g' t k = BTable w \<longleftrightarrow> g t k = BTable w" for t k w using tab by (metis table_of_Some)
  show m: "meta_of g' = meta_of g" by (simp add: fun_eq_iff meta_of_def tab)
  have s: "sub_of g' = sub_of g" unfolding fun_eq_iff sub_of_def m by (simp add: tab split: option.split)
  show prot: "protected g' = protected g" by (simp add: fun_eq_iff protected_def m s)
  have str: "g' t k = BStr x \<longleftrightarrow> g t k = BStr x" for t k x by (simp add: g'_def)
  have nil: "g t k = BNil \<Longrightarrow> g' t k = BNil" for t k by (simp add: g'_def)
  show "registry_inv g' meta n"
    using r unfolding registry_inv_def m s prot tabs str by (simp add: nil) (meson nil)
  have weak: "\<exists>m. meta t = Some m \<and> g m (BStr ''__mode'') = BStr ''v''" if "sub_of g k = Some t" for k t
    using r that unfolding registry_inv_def by metis
  have entry: "g' t k = (if g t k = BUser u then BNil else g t k)" if "sub_of g k' = Some t" for k' t k
    using weak [OF that] by (simp add: g'_def)
  show "users_inv g' (users(u := None)) live n"
    unfolding users_inv_def m s prot
  proof (intro conjI allI impI)
    fix v c assume "(users(u := None)) v = Some c"
    then have v: "users v = Some c" "v \<noteq> u" by (auto split: if_splits)
    then obtain k t where k: "ud_meta c = meta_of g k" "sub_of g k = Some t" "g t (BLight (Object (ud_pT c))) = BUser v"
      "live (ud_pT c) = Some k" using i unfolding users_inv_def by metis
    with v entry [OF k(2)] show "\<exists>k t. ud_meta c = meta_of g k \<and> sub_of g k = Some t \<and>
        g' t (BLight (Object (ud_pT c))) = BUser v \<and> live (ud_pT c) = Some k"
      by (intro exI [of _ k] exI [of _ t]) simp
    show "v < n" "ud_collectable c" "\<exists>e. ud_env c = Some e \<and> e < n \<and> \<not> protected g e"
      using i v(1) unfolding users_inv_def by blast+
  next
    fix k t p assume t: "sub_of g k = Some t"
    have "g t (BLight (Object p)) = BNil \<or> (\<exists>v d. g t (BLight (Object p)) = BUser v \<and> users v = Some d \<and>
        ud_pT d = p \<and> ud_meta d = meta_of g k)"
      using i t unfolding users_inv_def by metis
    with entry [OF t] show "g' t (BLight (Object p)) = BNil \<or> (\<exists>v d. g' t (BLight (Object p)) = BUser v \<and>
        (users(u := None)) v = Some d \<and> ud_pT d = p \<and> ud_meta d = meta_of g k)"
      by auto
  qed
qed


text \<open>The table of userdata of a class is made when its first object is pushed.\<close>

lemma inv_subtable:
  assumes r: "registry_inv g meta n" and i: "users_inv g users live n" and m: "meta_of g k = Some m"
    and none: "g m (BStr ''userdata'') = BNil"
  defines "g' \<equiv> g(n := (\<lambda>_. BNil)(BStr ''__mode'' := BStr ''v''), m := (g m)(BStr ''userdata'' := BTable n))"
  shows "registry_inv g' (meta(n \<mapsto> n)) (Suc n)" "users_inv g' users live (Suc n)" "sub_of g' k = Some n"
    "meta_of g' = meta_of g" "protected g' t \<longleftrightarrow> protected g t \<or> t = n"
proof -
  have n: "m \<noteq> n" "m \<noteq> 0" "n \<noteq> 0" "\<And>k'. meta_of g k' \<noteq> Some n" "\<And>k'. sub_of g k' \<noteq> Some n" "\<not> protected g n"
    "\<And>k'. meta_of g k' = Some m \<Longrightarrow> k' = k"
    using r m fresh_unprotected [OF r, of n] unfolding registry_inv_def by (auto simp: protected_def)
  show mm: "meta_of g' = meta_of g" using n(2,3) by (simp add: fun_eq_iff meta_of_def g'_def)
  have ss: "sub_of g' k' = (if k' = k then Some n else sub_of g k')" for k'
  proof (cases "k' = k")
    case True
    then show ?thesis unfolding sub_of_def mm m by (simp add: g'_def m)
  next
    case False
    then have "meta_of g k' \<noteq> Some m" "meta_of g k' \<noteq> Some n" using n by blast+
    then show ?thesis using False unfolding sub_of_def mm by (auto simp: g'_def split: option.split)
  qed
  show "sub_of g' k = Some n" by (simp add: ss)
  have sk: "sub_of g k = None" using m none by (simp add: sub_of_def)
  have prot: "protected g' t \<longleftrightarrow> protected g t \<or> t = n" for t
    unfolding protected_def mm ss using sk by (metis option.distinct(1) option.inject)
  then show "protected g' t \<longleftrightarrow> protected g t \<or> t = n" .
  have reg: "g' 0 = g 0" using n by (simp add: g'_def)
  have old: "g' t = g t" if "sub_of g k' = Some t" for t k'
    using that n(5) m r unfolding registry_inv_def g'_def by (metis fun_upd_apply)
  show "registry_inv g' (meta(n \<mapsto> n)) (Suc n)"
    unfolding registry_inv_def mm ss prot reg
  proof (intro conjI allI impI)
    fix k' m' assume "meta_of g k' = Some m'"
    with r n show "0 < m'" "m' < Suc n" "(meta(n \<mapsto> n)) m' = None" unfolding registry_inv_def by (auto simp: less_SucI)
    show "g' m' (BStr ''userdata'') = BNil \<or> (if k' = k then Some n else sub_of g k') \<noteq> None"
      using r n \<open>meta_of g k' = Some m'\<close> unfolding registry_inv_def g'_def by auto
  next
    fix k' t assume "(if k' = k then Some n else sub_of g k') = Some t"
    then show "0 < t" "t < Suc n" "(meta(n \<mapsto> n)) t = Some t" "g' t (BStr ''__mode'') = BStr ''v''"
      "g' t (BStr ''__index'') = BNil"
      using r n old [of k' t] unfolding registry_inv_def
      by (auto split: if_splits simp: less_SucI) (auto simp: g'_def)
  qed (use r n in \<open>auto simp: registry_inv_def less_SucI split: if_splits\<close>)
  show "users_inv g' users live (Suc n)"
    unfolding users_inv_def mm ss prot
  proof (intro conjI allI impI)
    fix u d assume u: "users u = Some d"
    then show "u < Suc n" "ud_collectable d" using i unfolding users_inv_def by (auto simp: less_SucI)
    from u obtain e where "ud_env d = Some e" "e < n" "\<not> protected g e" using i unfolding users_inv_def by blast
    then show "\<exists>e. ud_env d = Some e \<and> e < Suc n \<and> \<not> (protected g e \<or> e = n)" by auto
    from u obtain k' t where k': "ud_meta d = meta_of g k'" "sub_of g k' = Some t"
      "g t (BLight (Object (ud_pT d))) = BUser u" "live (ud_pT d) = Some k'" using i unfolding users_inv_def by metis
    with sk old [OF k'(2)] show "\<exists>k' t. ud_meta d = meta_of g k' \<and> (if k' = k then Some n else sub_of g k') = Some t \<and>
        g' t (BLight (Object (ud_pT d))) = BUser u \<and> live (ud_pT d) = Some k'"
      by (intro exI [of _ k'] exI [of _ t]) auto
  next
    fix k' t p assume t: "(if k' = k then Some n else sub_of g k') = Some t"
    show "g' t (BLight (Object p)) = BNil \<or> (\<exists>u d. g' t (BLight (Object p)) = BUser u \<and> users u = Some d \<and>
        ud_pT d = p \<and> ud_meta d = meta_of g k')"
    proof (cases "k' = k")
      case True
      with t n have "g' t (BLight (Object p)) = BNil" by (simp add: g'_def)
      then show ?thesis by simp
    next
      case False
      with t i old [of k' t] show ?thesis unfolding users_inv_def by simp
    qed
  qed
qed


subsection \<open>The operations\<close>

lemma exec_subtable:
  assumes "b_stack s = BTable m # xs" and "b_meta s m = None" and "m < b_fresh s"
  shows "exec (subtable (Suc (length xs)) name mode) s = (let f = b_fresh s in
    if b_get s m (BStr name) = BNil
    then s\<lparr>b_get := (b_get s)(f := (\<lambda>_. BNil)(BStr ''__mode'' := BStr mode), m := (b_get s m)(BStr name := BTable f)),
      b_meta := (b_meta s)(f \<mapsto> f), b_stack := BTable f # BTable m # xs, b_fresh := Suc f\<rparr>
    else s\<lparr>b_stack := b_get s m (BStr name) # BTable m # xs\<rparr>)"
  using assms by (simp add: subtable_def weaktable_def gettable_def exec_whenM table_exec exec_set_metatable Let_def)

lemma exec_pushuserdata:
  assumes "b_stack s = BTable t # xs" and "b_meta s t = Some t" and "b_get s t (BStr ''__index'') = BNil"
  shows "exec (pushuserdata p) s = (let f = b_fresh s; v = b_get s t (BLight (Object p)) in
      if v = BNil
      then s\<lparr>b_get := (b_get s)(t := (b_get s t)(BLight (Object p) := BUser f)),
        b_users := (b_users s)(f \<mapsto> \<lparr>ud_pT = 0, ud_collectable = False, ud_env = None, ud_meta = None\<rparr>),
        b_stack := BUser f # BTable t # xs, b_fresh := Suc f\<rparr>
      else s\<lparr>b_stack := v # BTable t # xs\<rparr>)"
    "result (pushuserdata p) s = (if b_get s t (BLight (Object p)) = BNil then Some (b_fresh s) else None)"
  using assms by (simp_all add: pushuserdata_def gettable_def new_userdata_def table_exec exec_if result_if Let_def)

lemma inv_registered:
  assumes "bridge_inv ph s" and "meta_of (b_get s) k = Some m"
  shows "b_get s 0 (BLight (Class_Name k)) = BTable m" "b_meta s m = None" "m < b_fresh s"
  using assms by (auto simp: bridge_inv_def registry_inv_def meta_of_def)

lemma inv_sub:
  assumes "bridge_inv ph s" and "sub_of (b_get s) k = Some t"
  shows "b_meta s t = Some t" "b_get s t (BStr ''__index'') = BNil" "t < b_fresh s"
  using assms by (auto simp: bridge_inv_def registry_inv_def)

lemma push_ready:
  assumes i: "bridge_inv ph s" and m: "meta_of (b_get s) k = Some m" and b: "b_stack s = BTable m # xs"
  defines "s' \<equiv> exec (subtable (Suc (length xs)) ''userdata'' ''v'') s"
  shows "\<exists>t. sub_of (b_get s') k = Some t \<and> b_stack s' = BTable t # BTable m # xs \<and> bridge_inv ph s' \<and>
    meta_of (b_get s') = meta_of (b_get s) \<and> b_live s' = b_live s \<and> b_users s' = b_users s \<and> b_tracking s' = b_tracking s"
proof (cases "b_get s m (BStr ''userdata'') = BNil")
  case True
  have s': "s' = s\<lparr>b_get := (b_get s)(b_fresh s := (\<lambda>_. BNil)(BStr ''__mode'' := BStr ''v''),
        m := (b_get s m)(BStr ''userdata'' := BTable (b_fresh s))),
      b_meta := (b_meta s)(b_fresh s \<mapsto> b_fresh s), b_stack := BTable (b_fresh s) # BTable m # xs, b_fresh := Suc (b_fresh s)\<rparr>"
    using exec_subtable [OF b inv_registered(2,3) [OF i m]] True by (simp add: s'_def Let_def)
  have "registry_inv (b_get s) (b_meta s) (b_fresh s)" "users_inv (b_get s) (held ph (b_users s)) (b_live s) (b_fresh s)"
    and gc: "gc_inv (b_get s) (b_users s) ph (b_live s) (b_fresh s)"
    using i by (simp_all add: bridge_inv_def)
  note sub = inv_subtable [OF this(1,2) m True]
  from gc have "gc_inv ((b_get s)(b_fresh s := (\<lambda>_. BNil)(BStr ''__mode'' := BStr ''v''),
      m := (b_get s m)(BStr ''userdata'' := BTable (b_fresh s)))) (b_users s) ph (b_live s) (Suc (b_fresh s))"
    by (rule gc_inv_mono) (simp_all only: sub, auto)
  with sub i show ?thesis
    unfolding s' by (intro exI [of _ "b_fresh s"]) (simp add: bridge_inv_def)
next
  case False
  have s': "s' = s\<lparr>b_stack := b_get s m (BStr ''userdata'') # BTable m # xs\<rparr>"
    using exec_subtable [OF b inv_registered(2,3) [OF i m]] False by (simp add: s'_def Let_def)
  have "sub_of (b_get s) k \<noteq> None" using i m False by (auto simp: bridge_inv_def registry_inv_def)
  then obtain t where t: "sub_of (b_get s) k = Some t" by blast
  then have "b_get s m (BStr ''userdata'') = BTable t" using m by (simp add: sub_of_Some)
  with t i show ?thesis unfolding s' by (intro exI [of _ t]) simp
qed

lemma inv_bridge_push:
  assumes i: "bridge_inv ph s" and l: "b_live s p = Some (c_key c)" "unshared (b_users s) ph p"
  defines "s' \<equiv> exec (bridge_push c (Some p) True) s"
  shows "bridge_inv ph s' \<and> (\<forall>n. result (bridge_push c (Some p) True) s = Inr n \<longrightarrow>
    (\<exists>u. value_at (b_stack s') (At n) = BUser u \<and> ph u = Reachable))"
proof (cases "meta_of (b_get s) (c_key c)")
  case None
  then have "b_get s 0 (BLight (Class_Name (c_key c))) = BNil" using i by (auto simp: bridge_inv_def registry_inv_def)
  then have "s' = s\<lparr>b_stack := BNil # b_stack s\<rparr>" "\<And>n. result (bridge_push c (Some p) True) s \<noteq> Inr n"
    by (simp_all add: s'_def bridge_push_def getmetatable_def table_exec throw_error_def)
  with i show ?thesis by simp
next
  case (Some m)
  let ?s1 = "s\<lparr>b_stack := BTable m # b_stack s\<rparr>"
  define s2 where "s2 = exec (subtable (Suc (length (b_stack s))) ''userdata'' ''v'') ?s1"
  obtain t where t: "sub_of (b_get s2) (c_key c) = Some t" "b_stack s2 = BTable t # BTable m # b_stack s" "bridge_inv ph s2"
    "meta_of (b_get s2) = meta_of (b_get s)" "b_live s2 = b_live s" "b_users s2 = b_users s"
    using push_ready [of ph ?s1 "c_key c" m "b_stack s"] i Some by (auto simp: s2_def)
  note pu = exec_pushuserdata [OF t(2) inv_sub(1,2) [OF t(3,1)], of p]
  have start: "exec (getmetatable c) s = ?s1"
    using inv_registered(1) [OF i Some] by (simp add: getmetatable_def table_exec)
  show ?thesis
  proof (cases "b_get s2 t (BLight (Object p)) = BNil")
    case False
    then have s': "s' = s2\<lparr>b_stack := b_get s2 t (BLight (Object p)) # b_stack s\<rparr>"
      "result (bridge_push c (Some p) True) s = Inr (Suc (length (b_stack s)))"
      by (simp_all add: s'_def bridge_push_def start s2_def [symmetric] pu t(2) Let_def replace_at_def set_top_def stk_def)
    obtain u where "b_get s2 t (BLight (Object p)) = BUser u" "ph u = Reachable"
      using False t(1,3) unfolding bridge_inv_def users_inv_def by (metis held_simps(1))
    with t s' show ?thesis by simp
  next
    case True
    let ?f = "b_fresh s2"
    have s': "s' = s2\<lparr>b_get := (b_get s2)(t := (b_get s2 t)(BLight (Object p) := BUser ?f), Suc ?f := (\<lambda>_. BNil)),
        b_meta := (b_meta s2)(Suc ?f := None),
        b_users := (b_users s2)(?f \<mapsto> \<lparr>ud_pT = p, ud_collectable = True, ud_env = Some (Suc ?f), ud_meta = Some m\<rparr>),
        b_stack := BUser ?f # b_stack s, b_fresh := Suc (Suc ?f)\<rparr>"
      "result (bridge_push c (Some p) True) s = Inr (Suc (length (b_stack s)))"
      using True t
      by (simp_all add: s'_def bridge_push_def start s2_def [symmetric] pu Let_def replace_at_def set_top_def stk_def
          table_exec set_fenv_def set_user_def set_metatable_def)
    have r: "registry_inv (b_get s2) (b_meta s2) (Suc ?f)" "users_inv (b_get s2) (held ph (b_users s2)) (b_live s2) (Suc ?f)"
      "registry_inv (b_get s2) (b_meta s2) ?f"
      using t(3) by (auto simp: bridge_inv_def intro: registry_inv_more users_inv_more)
    have gc: "gc_inv (b_get s2) (b_users s2) ph (b_live s2) ?f" using t(3) by (simp add: bridge_inv_def)
    then have phase: "ph ?f = Reachable" unfolding gc_inv_def by (metis less_irrefl)
    let ?g = "(b_get s2)(Suc ?f := (\<lambda>_. BNil))"
    note r2 = registry_inv_fresh [OF r(1), of "\<lambda>_. BNil" None] users_inv_fresh [OF r(1,2), of "\<lambda>_. BNil"]
    have unprot: "\<not> protected (b_get s2) (Suc ?f)" using r(1) by (simp add: fresh_unprotected)
    have new: "held ph (b_users s2) ?f = None"
      using t(3) unfolding bridge_inv_def users_inv_def by (metis less_irrefl not_None_eq)
    have ne: "t \<noteq> Suc ?f" using inv_sub(3) [OF t(3,1)] by simp
    then have g: "(b_get s2)(t := (b_get s2 t)(BLight (Object p) := BUser ?f), Suc ?f := (\<lambda>_. BNil)) =
        ?g(t := (?g t)(BLight (Object p) := BUser ?f))"
      by (simp add: fun_upd_twist)
    have "sub_of ?g (c_key c) = Some t" "meta_of ?g (c_key c) = Some m" "?g t (BLight (Object p)) = BNil"
      "\<not> protected ?g (Suc ?f)" "b_live s2 p = Some (c_key c)"
      using t True Some ne l(1) unprot by (simp_all add: unprotected_write)
    note push = users_inv_push [OF r2(1,2) this(1,2) this(5,3) _ this(4) new, of "Suc (Suc ?f)"]
    let ?d = "\<lparr>ud_pT = p, ud_collectable = True, ud_env = Some (Suc ?f), ud_meta = Some m\<rparr>"
    have "gc_inv (b_get s2) ((b_users s2)(?f \<mapsto> ?d)) ph (b_live s2) (Suc (Suc ?f))"
      using gc_inv_push [OF gc, of ?d ?f "Suc (Suc ?f)" "Suc ?f"] l(2) t(6) unprot by simp
    then have "gc_inv (?g(t := (?g t)(BLight (Object p) := BUser ?f))) ((b_users s2)(?f \<mapsto> ?d)) ph (b_live s2) (Suc (Suc ?f))"
      by (rule gc_inv_mono) (simp_all only: push(3,4) unprotected_write [OF unprot] order_refl)
    with push phase t show ?thesis unfolding s' by (simp add: bridge_inv_def g)
  qed
qed


subsection \<open>Statements that keep the invariant\<close>

text \<open>With a live object of a class at hand, or in a call with a userdata that was finalised.\<close>

definition with_object :: "(nat \<Rightarrow> gc_phase) \<Rightarrow> nat \<Rightarrow> nat \<Rightarrow> bridge \<Rightarrow> bool" where
  "with_object ph p k s \<longleftrightarrow> bridge_inv ph s \<and> (b_live s p = Some k \<or> b_late s)"

text \<open>A userdata whose finaliser has run.\<close>

fun finalised :: "(nat \<Rightarrow> gc_phase) \<Rightarrow> bval \<Rightarrow> bool" where
  "finalised ph (BUser u) = (ph u = Finalised)"
| "finalised ph _ = False"

definition fair_call :: "(nat \<Rightarrow> gc_phase) \<Rightarrow> nat \<Rightarrow> bridge \<Rightarrow> bool" where
  "fair_call ph n s \<longleftrightarrow> bridge_inv ph s \<and> (finalised ph (value_at (b_stack s) (At n)) \<longrightarrow> b_late s)"

lemma with_object_stack [simp]: "with_object ph p k (s\<lparr>b_stack := xs\<rparr>) = with_object ph p k s"
  by (simp add: with_object_def)

definition only_stack :: "'a op \<Rightarrow> bool" where
  "only_stack m \<longleftrightarrow> (\<forall>s. \<exists>xs. exec m s = s\<lparr>b_stack := xs\<rparr>)"

lemma pres_only_stack: "only_stack m \<Longrightarrow> pres (bridge_inv ph) m" "only_stack m \<Longrightarrow> pres (with_object ph p k) m"
  by (metis inv_stack(1) only_stack_def presI) (metis with_object_stack only_stack_def presI)

lemma same_stack: "\<exists>xs. s = s\<lparr>b_stack := xs\<rparr>" for s :: bridge
  by (rule exI [of _ "b_stack s"]) simp

lemma only_stack_prims:
  "only_stack (push_v v)" "only_stack (push_copy i)" "only_stack (pop_n n)" "only_stack (valueM i)" "only_stack (is_nil i)"
  "only_stack topM" "only_stack (stk f)" "only_stack (rawget i)" "only_stack (gettable i)" "only_stack (get_fenv i)"
  "only_stack (set_top n)" "only_stack (remove_at n)" "only_stack (replace_at n)" "only_stack (throw_error msg)"
  "only_stack (typerror n msg)"
proof -
  show "only_stack (rawget i)" "only_stack (gettable i)"
    using same_stack by (auto simp: only_stack_def rawget_def gettable_def Let_def split: list.split)
qed (auto simp: only_stack_def stk_def get_fenv_def set_top_def remove_at_def replace_at_def throw_error_def
    typerror_def intro: same_stack)

lemma only_stack_check: "only_stack (bridge_check c n)"
proof -
  have "only_stack (checkudata c n)"
    unfolding only_stack_def
  proof
    fix s
    show "\<exists>xs. exec (checkudata c n) s = s\<lparr>b_stack := xs\<rparr>"
      by (auto simp: checkudata_def table_exec typerror_def throw_error_def exec_if same_stack split: bval.split option.split)
  qed
  then show ?thesis unfolding only_stack_def bridge_check_def by (auto split: sum.split)
qed

lemma check_live:
  assumes "bridge_inv ph s" and "result (bridge_check c n) s = Inr p"
  shows "\<exists>u d. value_at (b_stack s) (At n) = BUser u \<and> b_users s u = Some d \<and> ud_pT d = p \<and> is_object s c u d \<and>
    (ph u = Finalised \<or> b_live s p = Some (c_key c))"
proof -
  obtain u d m where u: "value_at (b_stack s) (At n) = BUser u" "b_users s u = Some d" "ud_meta d = Some m"
    "b_get s 0 (BLight (Class_Name (c_key c))) = BTable m" "ud_pT d = p"
    using assms(2)
    by (auto simp: bridge_check_def checkudata_def table_exec typerror_def throw_error_def result_if exec_if
        simp del: value_at.simps(2) split: bval.splits option.splits if_splits sum.splits)
  then have m: "meta_of (b_get s) (c_key c) = Some m" by (simp add: meta_of_def)
  have "b_live s p = Some (c_key c)" if "ph u \<noteq> Finalised"
  proof -
    have "\<exists>k. ud_meta d = meta_of (b_get s) k \<and> b_live s (ud_pT d) = Some k"
    proof (cases "ph u = Reachable")
      case True
      with u(2) have "held ph (b_users s) u = Some d" by simp
      then show ?thesis using assms(1) unfolding bridge_inv_def users_inv_def by metis
    next
      case False
      with that have "ph u = Separated" by (cases "ph u") simp_all
      with u(2) show ?thesis using assms(1) unfolding bridge_inv_def gc_inv_def by metis
    qed
    then obtain k where k: "ud_meta d = meta_of (b_get s) k" "b_live s (ud_pT d) = Some k" by blast
    then have "k = c_key c" using assms(1) m u(3) unfolding bridge_inv_def registry_inv_def by metis
    with k u(5) show ?thesis by simp
  qed
  moreover have "is_object s c u d" using u by (simp add: is_object_def)
  ultimately show ?thesis using u by blast
qed


lemmas pres_stack_ops = only_stack_prims [THEN pres_only_stack(1)] only_stack_prims [THEN pres_only_stack(2)]

lemma inv_caught: "bridge_inv ph t \<Longrightarrow> bridge_inv ph (snd (caught (r, t)))"
  by (cases "(r, t)" rule: caught.cases) simp_all

lemma pres_catch: "pres (bridge_inv ph) m \<Longrightarrow> pres (bridge_inv ph) (catch_exception m)"
  by (rule presI) (simp only: run_catch inv_caught presD)

lemma pres_frame: "pres (bridge_inv ph) m \<Longrightarrow> pres (bridge_inv ph) (in_frame args m)"
  by (rule presI) (simp add: presD)

lemma inv_checked:
  assumes s: "fair_call ph n s" and "\<And>p s. with_object ph p (c_key c) s \<Longrightarrow> bridge_inv ph (exec (f p) s)"
  shows "bridge_inv ph (exec (andthen (bridge_check c n) f) s)"
proof -
  obtain xs where xs: "exec (bridge_check c n) s = s\<lparr>b_stack := xs\<rparr>"
    using only_stack_check [of c n, unfolded only_stack_def] by blast
  have i: "bridge_inv ph s" using s by (simp add: fair_call_def)
  show ?thesis
  proof (cases "result (bridge_check c n) s")
    case (Inr p)
    with check_live [OF i Inr] s have "with_object ph p (c_key c) s" by (auto simp: fair_call_def with_object_def)
    with Inr assms(2) [of p "s\<lparr>b_stack := xs\<rparr>"] xs show ?thesis by simp
  qed (use xs i in simp)
qed

lemma inv_catch: "bridge_inv ph (exec m s) \<Longrightarrow> bridge_inv ph (exec (catch_exception m) s)"
  by (simp only: run_catch inv_caught)

lemma pres_call_member:
  assumes "\<And>l p. only_stack (mfunc (c_key c) l p)"
  shows "pres (with_object ph p (c_key c)) (call_member mfunc c l p)"
  unfolding call_member_def
proof (rule pres_bind)
  show "pres (with_object ph p (c_key c)) (modify (\<lambda>s. s\<lparr>b_bad := (b_bad s \<or> b_live s p \<noteq> Some (c_key c))\<rparr>))"
    by (auto simp: pres_def with_object_def bridge_inv_def)
qed (rule pres_only_stack(2), rule assms)

lemma with_objectD: "pres (with_object ph p k) m \<Longrightarrow> with_object ph p k s \<Longrightarrow> bridge_inv ph (exec m s)"
  by (auto simp: pres_def with_object_def)

lemma inv_bridge_methods:
  assumes "\<And>l p. only_stack (mfunc (c_key c) l p)" and "fair_call ph 1 s"
  shows "bridge_inv ph (exec (bridge_thunk_methods mfunc c l) s)"
  unfolding bridge_thunk_methods_def
  by (intro inv_catch inv_checked assms(2)) (rule with_objectD [OF pres_call_member], rule assms(1))

lemma inv_thunk_index:
  assumes "\<And>l p. only_stack (mfunc (c_key c) l p)" and "fair_call ph 1 s"
  shows "bridge_inv ph (exec (thunk_index mfunc c g mt) s)"
  unfolding thunk_index_def
proof (intro inv_catch inv_checked assms(2))
  fix p s assume s: "with_object ph p (c_key c) s"
  show "bridge_inv ph (exec (do {
       get_fenv (At 1);
       push_copy (At 2);
       rawget (At 3);
       none \<leftarrow> is_nil (Top 1);
       if \<not> none then ret (Inr 1)
       else do {
         pop_n 2;
         push_copy (At 2);
         rawget (Upvalue g);
         none \<leftarrow> is_nil (Top 1);
         if \<not> none then do {
           l \<leftarrow> valueM (Top 1);
           set_top 1;
           call_member mfunc c l p
         }
         else do {
           pop_n 1;
           push_copy (At 2);
           gettable (Upvalue mt);
           none \<leftarrow> is_nil (Top 1);
           if \<not> none then ret (Inr 1)
           else do { push_v BNil; ret (Inr 1) }
         }
       }
     }) s)"
    by (rule with_objectD [OF _ s]) (intro pres_bind pres_if pres_ret pres_stack_ops pres_call_member assms(1))
qed

lemma raw_get_stack [simp]: "raw_get (s\<lparr>b_stack := xs\<rparr>) t k = raw_get s t k"
  by (cases t) simp_all

text \<open>An assignment writes the table of the object's own values.\<close>

lemma inv_own_write:
  assumes "bridge_inv ph s" and "b_users s u = Some d" and "ud_env d = Some e"
  shows "bridge_inv ph (s\<lparr>b_get := (b_get s)(e := f)\<rparr>)"
proof -
  have "\<not> protected (b_get s) e"
    using assms unfolding bridge_inv_def gc_inv_def by (metis option.inject)
  with assms(1) show ?thesis by (rule inv_write)
qed

lemma inv_thunk_newindex:
  assumes "\<And>l p. only_stack (mfunc (c_key c) l p)" and "fair_call ph 1 s" and "b_stack s = [v, k, self]"
  shows "bridge_inv ph (exec (thunk_newindex mfunc c st g) s)"
proof -
  have i: "bridge_inv ph s" using assms(2) by (simp add: fair_call_def)
  have "bridge_inv ph (exec (andthen (bridge_check c 1) (\<lambda>obj. do {
       push_copy (At 2);
       rawget (Upvalue st);
       none \<leftarrow> is_nil (Top 1);
       if \<not> none then do {
         p \<leftarrow> valueM (Top 1);
         pop_n 1;
         call_member mfunc c p obj
       }
       else do {
         pop_n 1;
         push_copy (At 2);
         rawget (Upvalue g);
         none \<leftarrow> is_nil (Top 1);
         if \<not> none then do {
           pop_n 1;
           key \<leftarrow> valueM (At 2);
           throw_error (''trying to write to read only property '' @ (case key of BStr x \<Rightarrow> x | _ \<Rightarrow> []))
         }
         else do {
           pop_n 1;
           get_fenv (At 1);
           replace_at 1;
           key \<leftarrow> valueM (At 2);
           if key = BNil then ret (Inl (Raised ''table index is nil''))
           else do { rawset (At 1); ret (Inr 0) }
         }
       }
     })) s)" (is "bridge_inv ph (exec (andthen _ ?body) s)")
  proof (cases "result (bridge_check c 1) s")
    case (Inl e)
    obtain xs where "exec (bridge_check c 1) s = s\<lparr>b_stack := xs\<rparr>"
      using only_stack_check [of c 1, unfolded only_stack_def] by blast
    with Inl i show ?thesis by simp
  next
    case (Inr p)
    obtain u d where u: "self = BUser u" "b_users s u = Some d" "is_object s c u d" and live: "with_object ph p (c_key c) s"
      using check_live [OF i Inr] assms(2,3) by (auto simp: fair_call_def with_object_def)
    have c: "exec (bridge_check c (Suc 0)) s = s" "result (bridge_check c (Suc 0)) s = Inr p"
      using check_object(1) [OF u(3), of 1] Inr assms(3) u(1) by simp_all
    have member: "bridge_inv ph (exec (call_member mfunc c l p) (s\<lparr>b_stack := xs\<rparr>))" for l xs
    proof (rule with_objectD)
      show "pres (with_object ph p (c_key c)) (call_member mfunc c l p)" by (rule pres_call_member) (rule assms(1))
      show "with_object ph p (c_key c) (s\<lparr>b_stack := xs\<rparr>)" using live by simp
    qed
    show ?thesis
    proof (cases "raw_get s st k = BNil \<and> raw_get s g k = BNil")
      case True
      obtain e where e: "ud_env d = Some e"
        using i u(2) unfolding bridge_inv_def gc_inv_def by metis
      have "bridge_inv ph (s\<lparr>b_get := (b_get s)(e := (b_get s e)(k := v))\<rparr>)"
        by (rule inv_own_write [OF i u(2) e])
      then have "bridge_inv ph (s\<lparr>b_get := (b_get s)(e := (b_get s e)(k := v)), b_stack := xs\<rparr>)" for xs
        by (metis inv_stack(1))
      with True i assms(3) u e c show ?thesis
        by (simp add: table_exec get_fenv_def replace_at_def stk_def exec_if)
    next
      case False
      then show ?thesis
        using i assms(3) c member by (cases "raw_get s st k = BNil") (simp_all add: table_exec throw_error_def)
    qed
  qed
  then show ?thesis unfolding thunk_newindex_def by (rule inv_catch)
qed


subsection \<open>Constructing and registering\<close>

lemma inv_raw_set:
  assumes "bridge_inv ph s" and "\<And>w. v = BTable w \<Longrightarrow> \<not> protected (b_get s) w"
  shows "bridge_inv ph (raw_set v k x s)"
  using assms by (cases v) (simp_all add: inv_write)

lemma registry_ref_unprotected: "bridge_inv ph s \<Longrightarrow> b_get s 0 (BNum r) = BTable w \<Longrightarrow> \<not> protected (b_get s) w"
  by (simp add: bridge_inv_def registry_inv_def)

lemma exec_KeepTrack:
  "exec (KeepTrack i p) s =
    (raw_set (b_get s 0 (BNum i)) (BLight (Object p)) (value_at (b_stack s) (Top 1)) s)\<lparr>b_stack := b_stack s\<rparr>"
proof -
  have set: "(raw_set t k v (s\<lparr>b_stack := ys\<rparr>))\<lparr>b_stack := zs\<rparr> = (raw_set t k v s)\<lparr>b_stack := zs\<rparr>" for t k v ys zs and s :: bridge
    by (cases t) simp_all
  show ?thesis by (simp add: KeepTrack_def table_exec set numeral_3_eq_3)
qed

lemma pres_KeepTrack: "pres (bridge_inv ph) (KeepTrack i p)"
  by (rule presI) (simp add: exec_KeepTrack inv_raw_set registry_ref_unprotected)

lemma inv_construct:
  assumes "bridge_inv ph s" and "only_stack (ctor (c_key c) (b_alloc s (b_live s)))"
  shows "bridge_inv ph (exec (construct ctor c) s)"
    and "result (construct ctor c) s = Inr p \<Longrightarrow> b_live (exec (construct ctor c) s) p = Some (c_key c) \<and>
      unshared (b_users (exec (construct ctor c) s)) ph p"
proof -
  let ?p = "b_alloc s (b_live s)" and ?s = "s\<lparr>b_live := (b_live s)(b_alloc s (b_live s) \<mapsto> c_key c)\<rparr>"
  obtain xs where xs: "exec (ctor (c_key c) ?p) ?s = ?s\<lparr>b_stack := xs\<rparr>"
    using assms(2) unfolding only_stack_def by blast
  have new: "b_live s ?p = None" using assms(1) by (simp add: bridge_inv_def)
  then have undo: "(b_live s)(?p := None) = b_live s" by (simp add: fun_eq_iff)
  have un: "unshared (b_users s) ph ?p" using assms(1) new by (auto simp: bridge_inv_def intro: gc_inv_unshared)
  have "bridge_inv ph ?s" using assms(1) new by (simp add: bridge_inv_def users_inv_live gc_inv_live)
  then have inv: "bridge_inv ph (?s\<lparr>b_stack := xs\<rparr>)" by (simp only: inv_stack)
  show "bridge_inv ph (exec (construct ctor c) s)"
  proof (cases "result (ctor (c_key c) ?p) ?s")
    case (Inl e)
    show ?thesis
    proof (cases e)
      case (Thrown w)
      have "bridge_inv ph (s\<lparr>b_stack := xs\<rparr>)" using assms(1) by simp
      with Inl Thrown xs show ?thesis by (simp add: construct_def undo)
    next
      case (Raised w)
      with Inl xs inv show ?thesis by (simp add: construct_def)
    qed
  next
    case (Inr u)
    with xs inv show ?thesis by (simp add: construct_def)
  qed
  show "result (construct ctor c) s = Inr p \<Longrightarrow> b_live (exec (construct ctor c) s) p = Some (c_key c) \<and>
      unshared (b_users (exec (construct ctor c) s)) ph p"
    using xs un by (cases "result (ctor (c_key c) ?p) ?s") (auto simp: construct_def)
qed

lemma pres_andthen: "pres I m \<Longrightarrow> (\<And>x. pres I (f x)) \<Longrightarrow> pres I (andthen m f)"
  by (auto simp: pres_def split: sum.split)

lemma pres_construct_push:
  assumes "\<And>p. only_stack (ctor (c_key c) p)"
    and f: "\<And>p i s. bridge_inv ph s \<Longrightarrow> \<not> finalised ph (value_at (b_stack s) (At i)) \<Longrightarrow> bridge_inv ph (exec (f p i) s)"
  shows "pres (bridge_inv ph) (andthen (construct ctor c) (\<lambda>p. andthen (bridge_push c (Some p) True) (f p)))"
proof (rule presI)
  fix s assume s: "bridge_inv ph s"
  note t = inv_construct [of ph s ctor c, OF s assms(1)]
  show "bridge_inv ph (exec (andthen (construct ctor c) (\<lambda>p. andthen (bridge_push c (Some p) True) (f p))) s)"
  proof (cases "result (construct ctor c) s")
    case (Inr p)
    from t(2) [OF Inr] have "b_live (exec (construct ctor c) s) p = Some (c_key c)"
      "unshared (b_users (exec (construct ctor c) s)) ph p" by blast+
    note push = inv_bridge_push [OF t(1) this]
    show ?thesis
    proof (cases "result (bridge_push c (Some p) True) (exec (construct ctor c) s)")
      case (Inr n)
      with \<open>result (construct ctor c) s = Inr p\<close> push f show ?thesis by fastforce
    qed (use Inr push in simp)
  qed (use t(1) in simp)
qed

lemma inv_KeepTrack_case:
  assumes "bridge_inv ph s"
  shows "bridge_inv ph (exec (case tr of None \<Rightarrow> ret () | Some i \<Rightarrow> KeepTrack i p) s)"
    "b_stack (exec (case tr of None \<Rightarrow> ret () | Some i \<Rightarrow> KeepTrack i p) s) = b_stack s"
proof -
  show "bridge_inv ph (exec (case tr of None \<Rightarrow> ret () | Some i \<Rightarrow> KeepTrack i p) s)"
    using assms presD [OF pres_KeepTrack] by (cases tr) simp_all
  show "b_stack (exec (case tr of None \<Rightarrow> ret () | Some i \<Rightarrow> KeepTrack i p) s) = b_stack s"
    by (cases tr) (simp_all add: exec_KeepTrack)
qed

lemma pres_set_property:
  assumes "\<And>l p. only_stack (mfunc (c_key c) l p)" and "\<not> finalised ph obj"
  shows "pres (bridge_inv ph) (set_property mfunc c obj k v)"
proof (rule presI)
  fix s assume s: "bridge_inv ph s"
  have "bridge_inv ph (exec (thunk_newindex mfunc c st g) (s\<lparr>b_stack := [v, k, obj]\<rparr>))" for st g
    by (rule inv_thunk_newindex, rule assms(1)) (use s assms(2) in \<open>simp_all add: fair_call_def\<close>)
  with s show "bridge_inv ph (exec (set_property mfunc c obj k v) s)"
    unfolding set_property_def by (auto split: sum.split bval.split cfun.split)
qed

lemma pres_copy_values:
  assumes "\<And>l p. only_stack (mfunc (c_key c) l p)" and "\<not> finalised ph obj"
  shows "pres (bridge_inv ph) (copy_values mfunc c obj t ks)"
proof (induction ks)
  case (Cons k ks)
  then show ?case by (simp add: pres_bind pres_gets pres_andthen pres_set_property assms)
qed (simp add: pres_ret)

lemma pres_new_T:
  assumes m: "\<And>l p. only_stack (mfunc (c_key c) l p)" and "\<And>p. only_stack (ctor (c_key c) p)"
    and p: "\<And>p. only_stack (post (c_key c) p)"
  shows "pres (bridge_inv ph) (new_T mfunc ctor post c)"
  unfolding new_T_def
proof (intro pres_bind pres_construct_push assms(2) pres_stack_ops(1-12))
  fix obj i s assume s: "bridge_inv ph s" "\<not> finalised ph (value_at (b_stack s) (At i))"
  define s1 where "s1 = exec (case b_tracking s (c_key c) of None \<Rightarrow> ret () | Some r \<Rightarrow> KeepTrack r obj) s"
  have s1: "bridge_inv ph s1" "\<not> finalised ph (value_at (b_stack s1) (At i))"
    using inv_KeepTrack_case [OF s(1)] s(2) by (simp_all add: s1_def)
  have "pres (bridge_inv ph) (andthen (if b then copy_values mfunc c (value_at (b_stack s1) (At i)) t ks else ret (Inr ()))
      (\<lambda>_. do { post (c_key c) obj; ret (Inr 1) }))" for b t ks
    by (intro pres_andthen pres_if pres_copy_values pres_ret pres_bind pres_only_stack(1) m p s1(2))
  from presD [OF this s1(1)]
  show "bridge_inv ph (exec (do {
       tracking \<leftarrow> gets (\<lambda>s. b_tracking s (c_key c));
       (case tracking of None \<Rightarrow> ret () | Some index \<Rightarrow> KeepTrack index obj);
       n \<leftarrow> topM;
       t \<leftarrow> valueM (At 1);
       u \<leftarrow> valueM (At i);
       order \<leftarrow> gets (\<lambda>s. case t of BTable i \<Rightarrow> b_order s (b_get s i) | _ \<Rightarrow> []);
       andthen (if n = 2 then copy_values mfunc c u t order else ret (Inr ())) (\<lambda>_. do {
         post (c_key c) obj;
         ret (Inr 1)
       })
     }) s)"
    by (simp only: exec_bind result_bind exec_result_prims stack_exec s1_def [symmetric])
qed

lemma pres_Construct:
  assumes "\<And>p. only_stack (ctor (c_key c) p)"
  shows "pres (bridge_inv ph) (Construct ctor c True)"
  unfolding Construct_def
proof (intro pres_construct_push assms)
  fix p i s assume "bridge_inv ph s"
  then show "bridge_inv ph (exec (do {
       tracking \<leftarrow> gets (\<lambda>s. b_tracking s (c_key c));
       (case tracking of None \<Rightarrow> ret () | Some index \<Rightarrow> KeepTrack index p);
       ret (Inr p)
     }) s)"
    by (simp add: inv_KeepTrack_case(1))
qed


lemma inv_new_metatable:
  assumes r: "registry_inv g meta n" and i: "users_inv g users live n" and none: "g 0 (BLight (Class_Name k)) = BNil"
    and m: "n \<le> m" "m < n'" and f: "f (BStr ''userdata'') = BNil"
  defines "g' \<equiv> g(0 := (g 0)(BLight (Class_Name k) := BTable m), m := f)"
  shows "registry_inv g' (meta(m := None)) n'" "users_inv g' users live n'" "protected g' t \<longleftrightarrow> protected g t \<or> t = m"
    "meta_of g k' = Some x \<Longrightarrow> meta_of g' k' = Some x"
proof -
  have n: "m \<noteq> 0" "\<not> protected g m" "\<And>k'. meta_of g k' \<noteq> Some m" "\<And>k'. sub_of g k' \<noteq> Some m" "n \<le> n'"
    using r m fresh_unprotected [OF r m(1)] unfolding registry_inv_def by (auto simp: protected_def)
  have k: "meta_of g k = None" "sub_of g k = None" using none by (simp_all add: meta_of_def sub_of_def)
  have mm: "meta_of g' k' = (if k' = k then Some m else meta_of g k')" for k'
    using n(1) by (simp add: meta_of_def g'_def)
  then show "meta_of g k' = Some x \<Longrightarrow> meta_of g' k' = Some x" using k by auto
  have m0: "meta_of g k' \<noteq> Some 0" for k' using r unfolding registry_inv_def by (metis less_irrefl)
  have ss: "sub_of g' k' = sub_of g k'" for k'
  proof (cases "k' = k")
    case True
    with k f n(1) show ?thesis by (simp add: sub_of_def mm) (simp add: g'_def)
  next
    case False
    with n(3) m0 show ?thesis unfolding sub_of_def mm by (auto simp: g'_def split: option.split)
  qed
  have prot: "protected g' t \<longleftrightarrow> protected g t \<or> t = m" for t
    unfolding protected_def mm ss using k by (metis option.distinct(1) option.inject)
  then show "protected g' t \<longleftrightarrow> protected g t \<or> t = m" .
  have s0: "sub_of g k' \<noteq> Some 0" for k' using r unfolding registry_inv_def by (metis less_irrefl)
  have old: "g' t = g t" if "protected g t" "t \<noteq> 0" for t using that n(2) by (auto simp: g'_def)
  have oldm: "g' t = g t" if "meta_of g k' = Some t" for t k' using that n(3) m0 by (auto simp: g'_def)
  have olds: "g' t = g t" if "sub_of g k' = Some t" for t k' using that n(4) s0 by (auto simp: g'_def)
  have num: "g' 0 (BNum z) = g 0 (BNum z)" for z using n(1) by (simp add: g'_def)
  have cls: "g' 0 (BLight (Class_Name k')) = (if k' = k then BTable m else g 0 (BLight (Class_Name k')))" for k'
    using n(1) by (simp add: g'_def)
  have rk: "0 < n" "g 0 (BLight (Class_Name k')) = BNil \<or> meta_of g k' \<noteq> None"
    "g 0 (BNum z) = BTable w \<Longrightarrow> w < n \<and> \<not> protected g w" for k' z w
    using r unfolding registry_inv_def by blast+
  have rm: "0 < t \<and> t < n \<and> meta t = None \<and> (g t (BStr ''userdata'') = BNil \<or> sub_of g k' \<noteq> None) \<and>
      (\<forall>k''. meta_of g k'' = Some t \<longrightarrow> k'' = k') \<and> (\<forall>k'. sub_of g k' \<noteq> Some t)" if "meta_of g k' = Some t" for k' t
    using r that unfolding registry_inv_def by blast
  have rs: "0 < t \<and> t < n \<and> meta t = Some t \<and> g t (BStr ''__mode'') = BStr ''v'' \<and> g t (BStr ''__index'') = BNil \<and>
      (\<forall>k''. sub_of g k'' = Some t \<longrightarrow> k'' = k')" if "sub_of g k' = Some t" for k' t
    using r that unfolding registry_inv_def by blast
  show "registry_inv g' (meta(m := None)) n'"
    unfolding registry_inv_def mm ss prot num cls
  proof (intro conjI allI impI)
    fix k' t assume t: "(if k' = k then Some m else meta_of g k') = Some t"
    have "0 < t \<and> t < n' \<and> (meta(m := None)) t = None \<and> (g' t (BStr ''userdata'') = BNil \<or> sub_of g k' \<noteq> None)"
    proof (cases "k' = k")
      case True
      with t have "t = m" by simp
      with n(1) m(2) f show ?thesis by (simp add: g'_def)
    next
      case False
      with t have g: "meta_of g k' = Some t" by simp
      then have "t \<noteq> m" using n(3) by blast
      with rm [OF g] oldm [OF g] n(5) show ?thesis by simp
    qed
    then show "0 < t" "t < n'" "(meta(m := None)) t = None" "g' t (BStr ''userdata'') = BNil \<or> sub_of g k' \<noteq> None"
      by blast+
    show "\<And>k''. (if k'' = k then Some m else meta_of g k'') = Some t \<Longrightarrow> k'' = k'" "\<And>k''. sub_of g k'' \<noteq> Some t"
    proof -
      have g: "meta_of g k' = Some t \<and> t \<noteq> m \<or> k' = k \<and> t = m" using t n(3) by (auto split: if_splits)
      fix k''
      show "k'' = k'" if "(if k'' = k then Some m else meta_of g k'') = Some t"
      proof -
        have h: "meta_of g k'' = Some t \<and> t \<noteq> m \<or> k'' = k \<and> t = m" using that n(3) by (auto split: if_splits)
        show ?thesis
        proof (cases "t = m")
          case False
          with g h rm [of k' t] show ?thesis by blast
        qed (use g h in blast)
      qed
      show "sub_of g k'' \<noteq> Some t" using g rm [of k' t] n(4) by blast
    qed
  next
    fix k' t assume t: "sub_of g k' = Some t"
    then have "t \<noteq> m" using n(4) by blast
    with rs [OF t] olds [OF t] n(5) show "0 < t" "t < n'" "(meta(m := None)) t = Some t" "g' t (BStr ''__mode'') = BStr ''v''"
      "g' t (BStr ''__index'') = BNil" "\<And>k''. sub_of g k'' = Some t \<Longrightarrow> k'' = k'" by auto
  next
    fix z w assume "g 0 (BNum z) = BTable w"
    with rk(3) [OF this] n(2,5) m show "w < n'" "\<not> (protected g w \<or> w = m)" by auto
  next
    show "0 < n'" using rk(1) n(5) by simp
    fix k'
    show "(if k' = k then BTable m else g 0 (BLight (Class_Name k'))) = BNil \<or>
      (if k' = k then Some m else meta_of g k') \<noteq> None"
      using rk(2) [of k'] by simp
  qed
  show "users_inv g' users live n'"
    unfolding users_inv_def ss prot
  proof (intro conjI allI impI)
    fix u d assume u: "users u = Some d"
    then show "u < n'" "ud_collectable d" using i n(5) unfolding users_inv_def by fastforce+
    show "\<exists>e. ud_env d = Some e \<and> e < n' \<and> \<not> (protected g e \<or> e = m)"
      using i u m unfolding users_inv_def by fastforce
    obtain k' t where k': "ud_meta d = meta_of g k'" "sub_of g k' = Some t"
      "g t (BLight (Object (ud_pT d))) = BUser u" "live (ud_pT d) = Some k'" using i u unfolding users_inv_def by metis
    with k have "k' \<noteq> k" by auto
    with k' olds [OF k'(2)] show "\<exists>k' t. ud_meta d = meta_of g' k' \<and> sub_of g k' = Some t \<and>
        g' t (BLight (Object (ud_pT d))) = BUser u \<and> live (ud_pT d) = Some k'"
      by (intro exI [of _ k'] exI [of _ t]) (simp add: mm)
  next
    fix k' t p assume t: "sub_of g k' = Some t"
    with k have "k' \<noteq> k" by auto
    with i t olds [OF t] show "g' t (BLight (Object p)) = BNil \<or> (\<exists>u d. g' t (BLight (Object p)) = BUser u \<and>
        users u = Some d \<and> ud_pT d = p \<and> ud_meta d = meta_of g' k')"
      unfolding users_inv_def by (simp add: mm)
  qed
qed


lemma RegisterLua_rest:
  assumes "b_stack s = [flag, parent, BTable lib]" and "b_get s 0 (BLight (Class_Name (c_key c))) = BNil"
    and "0 < b_fresh s" and "lib < b_fresh s" and "lib \<noteq> 0"
  defines "f \<equiv> b_fresh s" and "t \<equiv> exec (RegisterLua c) s"
  shows "x \<notin> {0, lib, f, f + 1, f + 2, f + 3, f + 4} \<Longrightarrow> b_get t x = b_get s x"
    "b_meta t = (b_meta s)(f + 1 := None, f := Some (f + 4), f + 2 := None, f + 3 := None, f + 4 := None)"
    "b_fresh t = f + 5" "b_live t = b_live s" "b_bad t = b_bad s" "b_alloc t = b_alloc s" "b_tracking t = b_tracking s"
    "b_phase t = b_phase s" "b_late t = b_late s" "b_bad_delete t = b_bad_delete s"
  unfolding t_def f_def
  using assms(1-5)
  by (simp_all add: RegisterLua_def exec_newmetatable table_exec exec_set_metatable exec_closure exec_set_entries
      exec_whenM Let_def creatable_def numeral_eq_Suc fun_upd_twist)

lemma inv_five_writes:
  assumes r: "registry_inv g meta n" and u: "users_inv g users live n" and p: "\<not> protected g a" "\<not> protected g b"
    "\<not> protected g c" "\<not> protected g d" "\<not> protected g e"
  shows "registry_inv (g(a := fa, b := fb, c := fc, d := fd, e := fe)) (meta(b := mb, c := mc, d := md, e := me)) n"
    "users_inv (g(a := fa, b := fb, c := fc, d := fd, e := fe)) users live n"
    "gc_inv g us ph live n \<Longrightarrow> gc_inv (g(a := fa, b := fb, c := fc, d := fd, e := fe)) us ph live n"
proof -
  have "registry_inv g (meta(b := mb, c := mc, d := md, e := me)) n"
    by (intro registry_inv_meta r p)
  then show "registry_inv (g(a := fa, b := fb, c := fc, d := fd, e := fe)) (meta(b := mb, c := mc, d := md, e := me)) n"
    by (simp add: registry_inv_write unprotected_write p)
  show "users_inv (g(a := fa, b := fb, c := fc, d := fd, e := fe)) users live n"
    using u by (simp add: users_inv_write unprotected_write p)
  show "gc_inv g us ph live n \<Longrightarrow> gc_inv (g(a := fa, b := fb, c := fc, d := fd, e := fe)) us ph live n"
    by (simp add: gc_inv_write unprotected_write p)
qed

lemma inv_RegisterLua:
  assumes i: "bridge_inv ph s" and b: "b_stack s = [flag, parent, BTable lib]"
    and none: "b_get s 0 (BLight (Class_Name (c_key c))) = BNil" and lib: "lib < b_fresh s" "\<not> protected (b_get s) lib"
  shows "bridge_inv ph (exec (RegisterLua c) s)"
proof -
  let ?f = "b_fresh s" and ?t = "exec (RegisterLua c) s" and ?k = "BLight (Class_Name (c_key c))"
  have r: "registry_inv (b_get s) (b_meta s) ?f" "users_inv (b_get s) (held ph (b_users s)) (b_live s) ?f" and f: "0 < ?f"
    and gc: "gc_inv (b_get s) (b_users s) ph (b_live s) ?f"
    using i by (simp_all add: bridge_inv_def registry_inv_def)
  have l0: "lib \<noteq> 0" using lib(2) by (simp add: protected_def)
  note T = RegisterLua_tables [OF b none f lib(1) l0] and R = RegisterLua_rest [OF b none f lib(1) l0]
  let ?F = "b_get ?t (?f + 1)"
  let ?g = "(b_get s)(0 := (b_get s 0)(?k := BTable (?f + 1)), ?f + 1 := ?F)"
  have F: "?F (BStr ''userdata'') = BNil" unfolding T(4) by simp
  have le: "?f \<le> ?f + 1" "?f + 1 < ?f + 5" by simp_all
  note g = inv_new_metatable [of "b_get s" "b_meta s" ?f "held ph (b_users s)" "b_live s" "c_key c" "?f + 1" "?f + 5" ?F,
      OF r none le F]
  have un: "\<not> protected ?g lib" "\<not> protected ?g ?f" "\<not> protected ?g (?f + 2)" "\<not> protected ?g (?f + 3)"
    "\<not> protected ?g (?f + 4)"
    using g(3) lib fresh_unprotected [OF r(1)] by simp_all
  have get: "b_get ?t = ?g(lib := b_get ?t lib, ?f := b_get ?t ?f, ?f + 2 := b_get ?t (?f + 2),
      ?f + 3 := b_get ?t (?f + 3), ?f + 4 := b_get ?t (?f + 4))" (is "_ = ?h")
  proof
    fix x
    show "b_get ?t x = ?h x"
      using R(1) [of x] T(1) by (cases "x \<in> {0, lib, ?f, ?f + 1, ?f + 2, ?f + 3, ?f + 4}") auto
  qed
  note inv = inv_five_writes [OF g(1,2) un]
  from gc have "gc_inv ?g (b_users s) ph (b_live s) (?f + 5)"
    by (rule gc_inv_mono) (simp_all only: g(3,4), auto)
  from inv(3) [OF this] have gc2: "gc_inv (b_get ?t) (b_users s) ph (b_live s) (?f + 5)" by (subst get)
  have "registry_inv ?h (b_meta ?t) (?f + 5)" unfolding R(2) by (rule inv(1))
  then have "registry_inv (b_get ?t) (b_meta ?t) (?f + 5)" by (subst get)
  moreover have "users_inv (b_get ?t) (held ph (b_users s)) (b_live s) (?f + 5)" by (subst get) (rule inv(2))
  ultimately show ?thesis using i gc2 by (simp add: bridge_inv_def R T(10))
qed

text \<open>A reference in the registry, and the table a class is tracked in.\<close>

lemma inv_store_ref:
  fixes r :: int
  assumes "registry_inv g meta n" and "\<And>w. v = BTable w \<Longrightarrow> w < n \<and> \<not> protected g w"
  defines "g' \<equiv> g(0 := (g 0)(BNum r := v))"
  shows "registry_inv g' meta n" "users_inv g users live n \<Longrightarrow> users_inv g' users live n"
    "gc_inv g us ph live n \<Longrightarrow> gc_inv g' us ph live n"
proof -
  have m: "meta_of g' = meta_of g" by (simp add: fun_eq_iff meta_of_def g'_def)
  have m0: "meta_of g k \<noteq> Some 0" "sub_of g k \<noteq> Some 0" for k
    using assms(1) unfolding registry_inv_def by (metis less_irrefl)+
  have s: "sub_of g' = sub_of g"
    using m0(1) unfolding fun_eq_iff sub_of_def m by (auto simp: g'_def split: option.split)
  have p: "protected g' = protected g" by (simp add: fun_eq_iff protected_def m s)
  show "gc_inv g us ph live n \<Longrightarrow> gc_inv g' us ph live n"
    by (erule gc_inv_mono) (simp_all add: m p)
  have tabs: "meta_of g k = Some t \<Longrightarrow> g' t = g t" "sub_of g k = Some t \<Longrightarrow> g' t = g t" for k t
    using m0 by (auto simp: g'_def)
  have reg: "g' 0 (BLight x) = g 0 (BLight x)" "g' 0 (BNum z) = (if z = r then v else g 0 (BNum z))" for x z
    by (simp_all add: g'_def)
  show "registry_inv g' meta n"
    unfolding registry_inv_def m s p reg
  proof (intro conjI)
    show "\<forall>z w. (if z = r then v else g 0 (BNum z)) = BTable w \<longrightarrow> w < n \<and> \<not> protected g w"
      using assms(1,2) unfolding registry_inv_def by (simp split: if_split)
    have "0 < t \<and> t < n \<and> meta t = None \<and> (g t (BStr ''userdata'') = BNil \<or> sub_of g k \<noteq> None) \<and>
        (\<forall>k'. meta_of g k' = Some t \<longrightarrow> k' = k) \<and> (\<forall>k'. sub_of g k' \<noteq> Some t)" if "meta_of g k = Some t" for k t
      using assms(1) that unfolding registry_inv_def by blast
    then show "\<forall>k m. meta_of g k = Some m \<longrightarrow> 0 < m \<and> m < n \<and> meta m = None \<and>
        (g' m (BStr ''userdata'') = BNil \<or> sub_of g k \<noteq> None) \<and>
        (\<forall>k'. meta_of g k' = Some m \<longrightarrow> k' = k) \<and> (\<forall>k'. sub_of g k' \<noteq> Some m)"
    proof (intro allI impI)
      fix k m assume *: "meta_of g k = Some m" and
        all: "\<And>k t. meta_of g k = Some t \<Longrightarrow> 0 < t \<and> t < n \<and> meta t = None \<and>
          (g t (BStr ''userdata'') = BNil \<or> sub_of g k \<noteq> None) \<and>
          (\<forall>k'. meta_of g k' = Some t \<longrightarrow> k' = k) \<and> (\<forall>k'. sub_of g k' \<noteq> Some t)"
      show "0 < m \<and> m < n \<and> meta m = None \<and> (g' m (BStr ''userdata'') = BNil \<or> sub_of g k \<noteq> None) \<and>
        (\<forall>k'. meta_of g k' = Some m \<longrightarrow> k' = k) \<and> (\<forall>k'. sub_of g k' \<noteq> Some m)"
        unfolding tabs(1) [OF *] by (rule all [OF *])
    qed
    have "0 < t \<and> t < n \<and> meta t = Some t \<and> g t (BStr ''__mode'') = BStr ''v'' \<and> g t (BStr ''__index'') = BNil \<and>
        (\<forall>k'. sub_of g k' = Some t \<longrightarrow> k' = k)" if "sub_of g k = Some t" for k t
      using assms(1) that unfolding registry_inv_def by blast
    then show "\<forall>k t. sub_of g k = Some t \<longrightarrow> 0 < t \<and> t < n \<and> meta t = Some t \<and>
        g' t (BStr ''__mode'') = BStr ''v'' \<and> g' t (BStr ''__index'') = BNil \<and>
        (\<forall>k'. sub_of g k' = Some t \<longrightarrow> k' = k)"
    proof (intro allI impI)
      fix k t assume *: "sub_of g k = Some t" and
        all: "\<And>k t. sub_of g k = Some t \<Longrightarrow> 0 < t \<and> t < n \<and> meta t = Some t \<and> g t (BStr ''__mode'') = BStr ''v'' \<and>
          g t (BStr ''__index'') = BNil \<and> (\<forall>k'. sub_of g k' = Some t \<longrightarrow> k' = k)"
      show "0 < t \<and> t < n \<and> meta t = Some t \<and> g' t (BStr ''__mode'') = BStr ''v'' \<and> g' t (BStr ''__index'') = BNil \<and>
        (\<forall>k'. sub_of g k' = Some t \<longrightarrow> k' = k)"
        unfolding tabs(2) [OF *] by (rule all [OF *])
    qed
  qed (use assms(1) in \<open>simp_all add: registry_inv_def\<close>)
  show "users_inv g users live n \<Longrightarrow> users_inv g' users live n"
    unfolding users_inv_def m s p
  proof (elim conjE, intro conjI)
    assume users: "\<forall>u d. users u = Some d \<longrightarrow> u < n \<and> ud_collectable d \<and>
        (\<exists>e. ud_env d = Some e \<and> e < n \<and> \<not> protected g e) \<and>
        (\<exists>k t. ud_meta d = meta_of g k \<and> sub_of g k = Some t \<and> g t (BLight (Object (ud_pT d))) = BUser u \<and>
          live (ud_pT d) = Some k)"
      and entries: "\<forall>k t p. sub_of g k = Some t \<longrightarrow> g t (BLight (Object p)) = BNil \<or>
        (\<exists>u d. g t (BLight (Object p)) = BUser u \<and> users u = Some d \<and> ud_pT d = p \<and> ud_meta d = meta_of g k)"
    have "sub_of g k = Some t \<and> g t x = y \<longleftrightarrow> sub_of g k = Some t \<and> g' t x = y" for k t x y
      using tabs(2) by auto
    with users show "\<forall>u d. users u = Some d \<longrightarrow> u < n \<and> ud_collectable d \<and>
        (\<exists>e. ud_env d = Some e \<and> e < n \<and> \<not> protected g e) \<and>
        (\<exists>k t. ud_meta d = meta_of g k \<and> sub_of g k = Some t \<and> g' t (BLight (Object (ud_pT d))) = BUser u \<and>
          live (ud_pT d) = Some k)" by blast
    show "\<forall>k t p. sub_of g k = Some t \<longrightarrow> g' t (BLight (Object p)) = BNil \<or>
        (\<exists>u d. g' t (BLight (Object p)) = BUser u \<and> users u = Some d \<and> ud_pT d = p \<and> ud_meta d = meta_of g k)"
    proof (intro allI impI)
      fix k t p assume *: "sub_of g k = Some t"
      with entries show "g' t (BLight (Object p)) = BNil \<or>
          (\<exists>u d. g' t (BLight (Object p)) = BUser u \<and> users u = Some d \<and> ud_pT d = p \<and> ud_meta d = meta_of g k)"
        unfolding tabs(2) [OF *] by blast
    qed
  qed
qed

lemma exec_EnableTracking:
  "exec (EnableTracking c) s = (let f = b_fresh s; g = (b_get s)(f := (\<lambda>_. BNil)(BStr ''__mode'' := BStr ''v'')) in
     s\<lparr>b_get := g(0 := (g 0)(BNum (b_newref s (g 0)) := BTable f)), b_meta := (b_meta s)(f \<mapsto> f), b_fresh := Suc f,
       b_tracking := (b_tracking s)(c_key c \<mapsto> b_newref s (g 0))\<rparr>)"
  by (simp add: EnableTracking_def table_exec exec_set_metatable swap_top_def stk_def Let_def)

subsection \<open>The collector\<close>

text \<open>
  The collector of Lua 5.1, while the Lua state is open.  A cycle takes a userdata and clears
  the weak references to it (\<open>separate\<close>); its finaliser runs at some later time (\<open>finalise\<close>); the
  memory of the userdata goes in a later cycle again (\<open>sweep\<close>).  In between other finalisers and
  the code they call may get at the userdata, with its metatable.  Here the collector may take
  any userdata, also one that could still be reached.
\<close>

definition clear_weak :: "nat \<Rightarrow> unit op" where
  "clear_weak u = modify (\<lambda>s. s\<lparr>b_get := (\<lambda>t k.
     if (case b_meta s t of Some m \<Rightarrow> b_get s m (BStr ''__mode'') = BStr ''v'' | None \<Rightarrow> False) \<and> b_get s t k = BUser u
     then BNil else b_get s t k)\<rparr>)"

definition separate :: "nat \<Rightarrow> unit op" where
  "separate u = do { clear_weak u; modify (\<lambda>s. s\<lparr>b_phase := (b_phase s)(u := Separated)\<rparr>) }"

definition finalise :: "cls \<Rightarrow> nat \<Rightarrow> unit op" where
  "finalise c u = do {
     modify (\<lambda>s. s\<lparr>b_phase := (b_phase s)(u := Finalised)\<rparr>);
     _ \<leftarrow> in_frame [BUser u] (do { n \<leftarrow> gc_T c; ret (Inr n) });
     ret ()
   }"

definition sweep :: "nat \<Rightarrow> unit op" where
  "sweep u = modify (\<lambda>s. s\<lparr>b_users := (b_users s)(u := None)\<rparr>)"

lemma inv_clear_weak:
  fixes u :: nat
  assumes i: "bridge_inv ph s"
  defines "t \<equiv> exec (clear_weak u) s"
  shows "users_inv (b_get t) ((held ph (b_users s))(u := None)) (b_live s) (b_fresh s)"
    "registry_inv (b_get t) (b_meta s) (b_fresh s)" "meta_of (b_get t) = meta_of (b_get s)"
    "gc_inv (b_get t) (b_users s) ph (b_live s) (b_fresh s)" "t = s\<lparr>b_get := b_get t\<rparr>"
proof -
  let ?g = "\<lambda>t k. if (\<exists>m. b_meta s t = Some m \<and> b_get s m (BStr ''__mode'') = BStr ''v'') \<and> b_get s t k = BUser u
    then BNil else b_get s t k"
  have r: "registry_inv (b_get s) (b_meta s) (b_fresh s)" "users_inv (b_get s) (held ph (b_users s)) (b_live s) (b_fresh s)"
    and gc: "gc_inv (b_get s) (b_users s) ph (b_live s) (b_fresh s)"
    using i by (simp_all add: bridge_inv_def)
  have "(case b_meta s t of Some m \<Rightarrow> b_get s m (BStr ''__mode'') = BStr ''v'' | None \<Rightarrow> False) \<longleftrightarrow>
      (\<exists>m. b_meta s t = Some m \<and> b_get s m (BStr ''__mode'') = BStr ''v'')" for t
    by (cases "b_meta s t") simp_all
  then have t: "t = s\<lparr>b_get := ?g\<rparr>" by (simp add: t_def clear_weak_def)
  then show "t = s\<lparr>b_get := b_get t\<rparr>" by simp
  have g: "b_get t = ?g" using t by simp
  note clear = users_inv_clear [OF r, of u, folded g]
  from clear show "users_inv (b_get t) ((held ph (b_users s))(u := None)) (b_live s) (b_fresh s)"
    "registry_inv (b_get t) (b_meta s) (b_fresh s)" "meta_of (b_get t) = meta_of (b_get s)" by blast+
  from gc show "gc_inv (b_get t) (b_users s) ph (b_live s) (b_fresh s)"
    by (rule gc_inv_mono) (simp_all add: clear)
qed

lemma inv_clear:
  assumes "bridge_inv ph s" and "ph u \<noteq> Reachable"
  shows "bridge_inv ph (exec (clear_weak u) s)"
proof -
  note c = inv_clear_weak [OF assms(1), of u]
  have "(held ph (b_users s))(u := None) = held ph (b_users s)" using assms(2) by (auto simp: held_def)
  with c(1) have "users_inv (b_get (exec (clear_weak u) s)) (held ph (b_users s)) (b_live s) (b_fresh s)" by simp
  with c(2,4) assms(1) show ?thesis by (subst c(5)) (simp add: bridge_inv_def)
qed

lemma held_distinct:
  assumes "users_inv g (held ph users) live n" and "users u = Some d" "ph u = Reachable" "users v = Some e" "ph v = Reachable"
    "ud_pT d = ud_pT e"
  shows "u = v"
proof -
  have "\<exists>k t. sub_of g k = Some t \<and> g t (BLight (Object (ud_pT d))) = BUser u \<and> live (ud_pT d) = Some k"
    "\<exists>k t. sub_of g k = Some t \<and> g t (BLight (Object (ud_pT e))) = BUser v \<and> live (ud_pT e) = Some k"
    using assms unfolding users_inv_def by (metis held_simps(1))+
  with assms(6) show ?thesis by auto
qed

lemma inv_separate:
  assumes i: "bridge_inv ph s" and u: "b_users s u = Some d" "ph u = Reachable"
  shows "bridge_inv (ph(u := Separated)) (exec (separate u) s)"
proof -
  let ?t = "exec (clear_weak u) s"
  note c = inv_clear_weak [OF i, of u]
  have ui: "users_inv (b_get s) (held ph (b_users s)) (b_live s) (b_fresh s)" using i by (simp add: bridge_inv_def)
  obtain k m where "ud_meta d = Some m" "meta_of (b_get s) k = Some m" "b_live s (ud_pT d) = Some k" "ud_collectable d" "u < b_fresh s"
    using ui u unfolding users_inv_def sub_of_Some by (metis held_simps(1))
  then have d: "ud_collectable d \<and> (\<exists>k m. ud_meta d = Some m \<and> meta_of (b_get ?t) k = Some m \<and> b_live s (ud_pT d) = Some k)"
    "u < b_fresh s" using c(3) by auto
  have one: "u = v" if "b_users s v = Some e" "ph v \<noteq> Finalised" "ud_pT d = ud_pT e" for v e
  proof (cases "ph v")
    case Reachable
    with held_distinct [OF ui u that(1) _ that(3)] show ?thesis by blast
  next
    case Separated
    with c(4) that u show ?thesis unfolding gc_inv_def by (metis gc_phase.distinct(3))
  qed (use that in simp)
  have "gc_inv (b_get ?t) (b_users s) (ph(u := Separated)) (b_live s) (b_fresh s)"
    unfolding gc_inv_def
  proof (intro conjI allI impI)
    fix v assume "(ph(u := Separated)) v \<noteq> Reachable"
    then show "v < b_fresh s" using c(4) d(2) unfolding gc_inv_def by (auto split: if_splits)
  next
    fix v e assume "b_users s v = Some e"
    then show "v < b_fresh s" "\<exists>x. ud_env e = Some x \<and> x < b_fresh s \<and> \<not> protected (b_get ?t) x"
      using c(4) unfolding gc_inv_def by blast+
  next
    fix v e assume a: "b_users s v = Some e \<and> (ph(u := Separated)) v = Separated"
    have "ud_collectable e \<and> (\<exists>k m. ud_meta e = Some m \<and> meta_of (b_get ?t) k = Some m \<and> b_live s (ud_pT e) = Some k)"
    proof (cases "v = u")
      case True
      with a u(1) have "e = d" by simp
      with d(1) show ?thesis by blast
    next
      case False
      with a have "b_users s v = Some e" "ph v = Separated" by simp_all
      with c(4) show ?thesis unfolding gc_inv_def by blast
    qed
    then show "ud_collectable e" "\<exists>k m. ud_meta e = Some m \<and> meta_of (b_get ?t) k = Some m \<and> b_live s (ud_pT e) = Some k"
      by blast+
  next
    fix v w e e' assume a: "b_users s v = Some e \<and> (ph(u := Separated)) v = Separated \<and> b_users s w = Some e' \<and>
      (ph(u := Separated)) w \<noteq> Finalised \<and> ud_pT e = ud_pT e'"
    show "v = w"
    proof (cases "v = u \<or> w = u")
      case True
      then show ?thesis using a one [of v e] one [of w e'] u by (auto split: if_splits)
    next
      case False
      with a c(4) show ?thesis unfolding gc_inv_def by (metis fun_upd_other)
    qed
  qed
  moreover obtain g where g: "?t = s\<lparr>b_get := g\<rparr>" using c(5) by blast
  moreover have "exec (separate u) s = s\<lparr>b_get := g, b_phase := (b_phase s)(u := Separated)\<rparr>"
    by (simp add: separate_def g)
  ultimately show ?thesis using i c(1,2) by (simp add: bridge_inv_def)
qed

lemma inv_finalise:
  assumes i: "bridge_inv ph s" and u: "b_users s u = Some d" "ph u = Separated" and c: "ud_meta d = meta_of (b_get s) (c_key c)"
  shows "bridge_inv (ph(u := Finalised)) (exec (finalise c u) s)"
proof -
  have ui: "users_inv (b_get s) (held ph (b_users s)) (b_live s) (b_fresh s)"
    and gc: "gc_inv (b_get s) (b_users s) ph (b_live s) (b_fresh s)" using i by (simp_all add: bridge_inv_def)
  obtain k m where k: "ud_meta d = Some m" "meta_of (b_get s) k = Some m" "b_live s (ud_pT d) = Some k" "ud_collectable d"
    using gc u unfolding gc_inv_def by blast
  then have "k = c_key c" using i c unfolding bridge_inv_def registry_inv_def by metis
  then have t: "exec (finalise c u) s = s\<lparr>b_live := (b_live s)(ud_pT d := None), b_phase := (b_phase s)(u := Finalised)\<rparr>"
    using i u k(3,4) by (simp add: finalise_def gc_T_def delete_object_def exec_if result_if bridge_inv_def)
  have other: "ud_pT e \<noteq> ud_pT d" if "b_users s v = Some e" "v \<noteq> u" "ph v \<noteq> Finalised" for v e
    using gc u that unfolding gc_inv_def by metis
  have h: "held (ph(u := Finalised)) (b_users s) = held ph (b_users s)" using u(2) by (auto simp: held_def)
  have "users_inv (b_get s) (held ph (b_users s)) ((b_live s)(ud_pT d := None)) (b_fresh s)"
    using ui other u(2) unfolding users_inv_def by (auto simp: fun_upd_apply) (metis gc_phase.distinct(1,3))
  moreover have "gc_inv (b_get s) (b_users s) (ph(u := Finalised)) ((b_live s)(ud_pT d := None)) (b_fresh s)"
    using gc other u(2) unfolding gc_inv_def by (auto split: if_splits)
  ultimately show ?thesis using i t h by (simp add: bridge_inv_def)
qed

lemma inv_sweep:
  assumes "bridge_inv ph s" and "ph u \<noteq> Reachable"
  shows "bridge_inv ph (exec (sweep u) s)"
  using assms by (auto simp: sweep_def bridge_inv_def gc_inv_def split: if_splits)


subsection \<open>Runs\<close>

text \<open>
  Member functions, the bodies of constructors and \<^verbatim>\<open>PostConstruct\<close> touch nothing of the bridge but
  the stack; what they do through its API are steps of their own.
\<close>

definition polite_class :: "members \<Rightarrow> (nat \<Rightarrow> nat \<Rightarrow> unit fop) \<Rightarrow> (nat \<Rightarrow> nat \<Rightarrow> unit op) \<Rightarrow> bool" where
  "polite_class mfunc ctor post \<longleftrightarrow> (\<forall>k l p. only_stack (mfunc k l p)) \<and> (\<forall>k p. only_stack (ctor k p)) \<and>
     (\<forall>k p. only_stack (post k p))"

definition visible_value :: "bridge \<Rightarrow> bval \<Rightarrow> bool" where
  "visible_value s v \<longleftrightarrow> (\<forall>w. v = BTable w \<longrightarrow> w < b_fresh s \<and> \<not> protected (b_get s) w)"

text \<open>A call with a userdata that was finalised is recorded.\<close>

definition note_late :: "bval list \<Rightarrow> bridge \<Rightarrow> bridge" where
  "note_late args s = s\<lparr>b_late := (b_late s \<or> finalised (b_phase s) (value_at (rev args) (At 1)))\<rparr>"

inductive bridge_step :: "members \<Rightarrow> (nat \<Rightarrow> nat \<Rightarrow> unit fop) \<Rightarrow> (nat \<Rightarrow> nat \<Rightarrow> unit op) \<Rightarrow> bridge \<Rightarrow> bridge \<Rightarrow> bool"
  for mfunc ctor post where
  lua_makes_table: "bridge_step mfunc ctor post s (exec new_table s)"
| lua_writes: "\<not> protected (b_get s) t \<Longrightarrow> bridge_step mfunc ctor post s (raw_set (BTable t) k v s)"
| lua_sets_metatable: "\<not> protected (b_get s) t \<Longrightarrow> bridge_step mfunc ctor post s (s\<lparr>b_meta := (b_meta s)(t := m)\<rparr>)"
| reference: "visible_value s v \<Longrightarrow> bridge_step mfunc ctor post s (raw_set (BTable 0) (BNum r) v s)"
| registers: "meta_of (b_get s) (c_key c) = None \<Longrightarrow> lib < b_fresh s \<Longrightarrow> \<not> protected (b_get s) lib \<Longrightarrow>
    bridge_step mfunc ctor post s (exec (in_frame [BTable lib, parent, flag] (RegisterLua c)) s)"
| tracks: "bridge_step mfunc ctor post s (exec (EnableTracking c) s)"
| calls_new: "bridge_step mfunc ctor post s (exec (in_frame args (new_T mfunc ctor post c)) s)"
| calls_method: "bridge_step mfunc ctor post s (exec (in_frame args (bridge_thunk_methods mfunc c l)) (note_late args s))"
| reads: "bridge_step mfunc ctor post s (exec (in_frame args (thunk_index mfunc c g mt)) (note_late args s))"
| assigns: "bridge_step mfunc ctor post s (exec (in_frame [self, k, v] (thunk_newindex mfunc c st g)) (note_late [self, k, v] s))"
| constructs: "bridge_step mfunc ctor post s (exec (Construct ctor c True) s)"
| separates: "b_users s u = Some d \<Longrightarrow> b_phase s u = Reachable \<Longrightarrow> bridge_step mfunc ctor post s (exec (separate u) s)"
| finalises: "b_users s u = Some d \<Longrightarrow> b_phase s u = Separated \<Longrightarrow> ud_meta d = meta_of (b_get s) (c_key c) \<Longrightarrow>
    bridge_step mfunc ctor post s (exec (finalise c u) s)"
| clears: "b_phase s u = Finalised \<Longrightarrow> bridge_step mfunc ctor post s (exec (clear_weak u) s)"
| sweeps: "b_phase s u = Finalised \<Longrightarrow> bridge_step mfunc ctor post s (exec (sweep u) s)"

definition bridge_init :: "bridge \<Rightarrow> bool" where
  "bridge_init s \<longleftrightarrow> b_get s 0 = (\<lambda>_. BNil) \<and> b_users s = Map.empty \<and> b_live s = Map.empty \<and> 0 < b_fresh s \<and> \<not> b_bad s \<and>
     \<not> b_bad_delete s \<and> \<not> b_late s \<and> b_phase s = (\<lambda>_. Reachable) \<and> (\<forall>l. finite (dom l) \<longrightarrow> l (b_alloc s l) = None)"

lemma inv_init: "bridge_init s \<Longrightarrow> bridge_inv (b_phase s) s"
proof -
  assume i: "bridge_init s"
  then have "meta_of (b_get s) = Map.empty" "sub_of (b_get s) = Map.empty"
    by (simp_all add: bridge_init_def fun_eq_iff meta_of_def sub_of_def)
  with i show ?thesis by (simp add: bridge_inv_def bridge_init_def registry_inv_def users_inv_def gc_inv_def held_def)
qed

lemma fair_note_late:
  assumes "bridge_inv ph s"
  shows "fair_call ph 1 (note_late args s\<lparr>b_stack := rev args\<rparr>)"
  using assms by (auto simp: fair_call_def note_late_def bridge_inv_def simp del: value_at.simps)

lemma inv_phase: "bridge_inv ph s \<Longrightarrow> b_phase s = ph"
  by (simp add: bridge_inv_def)

lemma inv_step:
  assumes p: "polite_class mfunc ctor post" and i: "bridge_inv ph s" and st: "bridge_step mfunc ctor post s t"
  shows "\<exists>ph. bridge_inv ph t"
proof -
  have n: "registry_inv (b_get s) (b_meta s) (b_fresh s)" "users_inv (b_get s) (held ph (b_users s)) (b_live s) (b_fresh s)"
    and gc: "gc_inv (b_get s) (b_users s) ph (b_live s) (b_fresh s)" and ph: "b_phase s = ph"
    using i by (simp_all add: bridge_inv_def)
  from p have p: "\<And>k l p. only_stack (mfunc k l p)" "\<And>k p. only_stack (ctor k p)" "\<And>k p. only_stack (post k p)"
    by (simp_all add: polite_class_def)
  from st have "bridge_inv ph t \<or> (\<exists>u. bridge_inv (ph(u := Separated)) t \<or> bridge_inv (ph(u := Finalised)) t)"
  proof cases
    case (reference v r)
    have v: "\<And>w. v = BTable w \<Longrightarrow> w < b_fresh s \<and> \<not> protected (b_get s) w"
      using reference(2) by (simp add: visible_value_def)
    note ref = inv_store_ref [where v = v and r = r, OF n(1) v]
    from i reference(1) ref(1) ref(2) [OF _ n(2)] ref(3) [OF _ gc] show ?thesis by (simp add: bridge_inv_def)
  next
    case (registers c lib parent flag)
    let ?s = "s\<lparr>b_stack := [flag, parent, BTable lib]\<rparr>"
    have "b_get s 0 (BLight (Class_Name (c_key c))) = BNil"
      using i registers(2) unfolding bridge_inv_def registry_inv_def by blast
    then have "bridge_inv ph (exec (RegisterLua c) ?s)"
      using i registers(3,4) by (intro inv_RegisterLua [where lib = lib]) simp_all
    with registers(1) show ?thesis by simp
  next
    case (tracks c)
    let ?g = "(b_get s)(b_fresh s := (\<lambda>_. BNil)(BStr ''__mode'' := BStr ''v''))"
    have "\<not> protected ?g (b_fresh s)" using fresh_unprotected [OF n(1)] by (simp add: unprotected_write)
    with inv_store_ref [OF registry_inv_fresh [OF n(1)], of "BTable (b_fresh s)"] users_inv_fresh [OF n]
      gc_inv_fresh [OF n(1) gc]
    show ?thesis using i tracks by (simp add: exec_EnableTracking Let_def bridge_inv_def)
  next
    case (calls_new args c)
    have "pres (bridge_inv ph) (in_frame args (new_T mfunc ctor post c))" by (intro pres_frame pres_new_T p)
    with calls_new i show ?thesis by (metis presD)
  next
    case (calls_method args c l)
    have "bridge_inv ph (exec (bridge_thunk_methods mfunc c l) (note_late args s\<lparr>b_stack := rev args\<rparr>))"
      by (intro inv_bridge_methods p fair_note_late i)
    with calls_method show ?thesis by simp
  next
    case (reads args c g mt)
    have "bridge_inv ph (exec (thunk_index mfunc c g mt) (note_late args s\<lparr>b_stack := rev args\<rparr>))"
      by (intro inv_thunk_index p fair_note_late i)
    with reads show ?thesis by simp
  next
    case (assigns self k v c st g)
    have "bridge_inv ph (exec (thunk_newindex mfunc c st g) (note_late [self, k, v] s\<lparr>b_stack := rev [self, k, v]\<rparr>))"
      by (intro inv_thunk_newindex p fair_note_late i) simp
    with assigns show ?thesis by simp
  next
    case (constructs c)
    have "pres (bridge_inv ph) (Construct ctor c True)" by (intro pres_Construct p)
    with constructs i show ?thesis by (metis presD)
  next
    case (lua_sets_metatable t m)
    with i show ?thesis by (simp add: bridge_inv_def registry_inv_meta)
  next
    case (separates u d)
    with i ph show ?thesis using inv_separate by blast
  next
    case (finalises u d c)
    with i ph show ?thesis using inv_finalise by blast
  qed (use i ph in \<open>auto simp: inv_new_table inv_write inv_clear inv_sweep\<close>)
  then show ?thesis by blast
qed

lemma inv_reach:
  assumes "polite_class mfunc ctor post" and "reach bridge_init (bridge_step mfunc ctor post) s"
  shows "bridge_inv (b_phase s) s"
proof -
  have "\<exists>ph. bridge_inv ph s"
    using assms(2) by (rule reach_invariant) (blast intro: inv_init inv_step [OF assms(1)])+
  then show ?thesis using inv_phase by blast
qed

text \<open>
  C4: In every state the program can reach while the Lua state is open, whatever Lua code and
  the finalisers do with the classes and with the tables they can get at: no finaliser was ever
  given an object that did not exist or was of another class, so no object is deleted twice; a
  member function was called on such an object only if some function of the bridge was called
  with a userdata whose own finaliser had run; every userdata whose finaliser has not run holds
  a live object of the class whose metatable it has; and no two of these hold the same object.
\<close>
theorem objects_are_alive:
  assumes "polite_class mfunc ctor post" and "reach bridge_init (bridge_step mfunc ctor post) s"
  shows "\<not> b_bad_delete s \<and> (\<not> b_bad s \<or> b_late s) \<and>
    (\<forall>u d. b_users s u = Some d \<and> b_phase s u \<noteq> Finalised \<longrightarrow>
      (\<exists>k m. ud_meta d = Some m \<and> meta_of (b_get s) k = Some m \<and> b_live s (ud_pT d) = Some k)) \<and>
    (\<forall>u v d e. b_users s u = Some d \<and> b_users s v = Some e \<and> b_phase s u \<noteq> Finalised \<and> b_phase s v \<noteq> Finalised \<and>
      ud_pT d = ud_pT e \<longrightarrow> u = v)"
proof -
  let ?ph = "b_phase s"
  have i: "\<not> b_bad_delete s" "b_bad s \<longrightarrow> b_late s"
    and ui: "users_inv (b_get s) (held ?ph (b_users s)) (b_live s) (b_fresh s)"
    and gc: "gc_inv (b_get s) (b_users s) ?ph (b_live s) (b_fresh s)"
    using inv_reach [OF assms] by (simp_all add: bridge_inv_def)
  have "\<exists>k m. ud_meta d = Some m \<and> meta_of (b_get s) k = Some m \<and> b_live s (ud_pT d) = Some k"
    if "b_users s u = Some d" "?ph u \<noteq> Finalised" for u d
  proof (cases "?ph u")
    case Reachable
    with ui that show ?thesis unfolding users_inv_def sub_of_Some by (metis held_simps(1))
  next
    case Separated
    with gc that show ?thesis unfolding gc_inv_def by blast
  qed (use that in simp)
  moreover have "u = v" if "b_users s u = Some d" "b_users s v = Some e" "?ph u \<noteq> Finalised" "?ph v \<noteq> Finalised"
    "ud_pT d = ud_pT e" for u v d e
  proof (cases "?ph u = Separated \<or> ?ph v = Separated")
    case True
    with gc that show ?thesis unfolding gc_inv_def by metis
  next
    case False
    with that have "?ph u = Reachable" "?ph v = Reachable" by (metis gc_phase.exhaust)+
    with held_distinct [OF ui] that show ?thesis by blast
  qed
  ultimately show ?thesis using i by blast
qed

text \<open>
  C17: The check every thunk starts with: in every state the program can reach while the Lua
  state is open, a value that passes the check for a class, on any stack, is a userdata with the
  pointer the check gives, and this points to a live object of that class, unless the finaliser of
  the userdata has already run.
\<close>
theorem check_is_sound:
  assumes "polite_class mfunc ctor post" and "reach bridge_init (bridge_step mfunc ctor post) s"
    and "result (bridge_check c n) (s\<lparr>b_stack := xs\<rparr>) = Inr p"
  shows "\<exists>u d. value_at xs (At n) = BUser u \<and> b_users s u = Some d \<and> ud_pT d = p \<and>
    (b_phase s u = Finalised \<or> b_live s p = Some (c_key c))"
proof -
  have "bridge_inv (b_phase s) (s\<lparr>b_stack := xs\<rparr>)" using inv_reach [OF assms(1,2)] by simp
  from check_live [OF this assms(3)] show ?thesis by (simp del: value_at.simps) blast
qed

text \<open>
  The exception is real: the finaliser of an object deletes it and leaves the pointer and the
  metatable, so the check still answers with the pointer.
\<close>

lemma finalised_object_passes_the_check:
  assumes "is_object s c u d" and "ud_collectable d"
  defines "t \<equiv> exec (finalise c u) s"
  shows "b_live t (ud_pT d) = None" "result (bridge_check c 1) (t\<lparr>b_stack := [BUser u]\<rparr>) = Inr (ud_pT d)"
proof -
  have u: "b_users s u = Some d" using assms(1) by (simp add: is_object_def)
  then have t: "t = s\<lparr>b_bad_delete := (b_bad_delete s \<or> b_live s (ud_pT d) \<noteq> Some (c_key c)),
      b_live := (b_live s)(ud_pT d := None), b_phase := (b_phase s)(u := Finalised)\<rparr>"
    using assms(2) by (simp add: t_def finalise_def gc_T_def delete_object_def exec_if result_if)
  then show "b_live t (ud_pT d) = None" by simp
  have "is_object (t\<lparr>b_stack := [BUser u]\<rparr>) c u d" using assms(1) t by (simp add: is_object_def)
  then show "result (bridge_check c 1) (t\<lparr>b_stack := [BUser u]\<rparr>) = Inr (ud_pT d)" by (rule check_object) simp
qed


subsection \<open>Instances\<close>

definition sample_members :: members where "sample_members = (\<lambda>_ _ _. ret (Inr 0))"
definition sample_ctor :: "nat \<Rightarrow> nat \<Rightarrow> unit fop" where "sample_ctor = (\<lambda>_ _. ret (Inr ()))"
definition sample_post :: "nat \<Rightarrow> nat \<Rightarrow> unit op" where "sample_post = (\<lambda>_ _. ret ())"

lemma polite_sample: "polite_class sample_members sample_ctor sample_post"
  by (simp add: polite_class_def only_stack_def sample_members_def sample_ctor_def sample_post_def same_stack)

definition sample_registered :: bridge where
  "sample_registered = exec (in_frame [BTable 1, BNil, BBool True] (RegisterLua sample_cls)) sample_bridge"

definition sample_run :: bridge where
  "sample_run = exec (in_frame [BTable 2] (new_T sample_members sample_ctor sample_post sample_cls)) sample_registered"

lemma sample_registered_fields:
  "b_get sample_registered 0 = (\<lambda>_. BNil)(BLight (Class_Name 5) := BTable 3)" "b_meta sample_registered = [2 \<mapsto> 6]"
  "b_get sample_registered 3 (BStr ''userdata'') = BNil" "b_fresh sample_registered = 7" "b_users sample_registered = Map.empty"
  "b_live sample_registered = Map.empty" "b_alloc sample_registered = b_alloc sample_bridge"
  "b_tracking sample_registered = (\<lambda>_. None)" "b_stack sample_registered = []"
  "b_phase sample_registered = (\<lambda>_. Reachable)"
proof -
  let ?s = "sample_bridge\<lparr>b_stack := [BBool True, BNil, BTable 1]\<rparr>"
  have a: "b_stack ?s = [BBool True, BNil, BTable 1]" "b_get ?s 0 (BLight (Class_Name (c_key sample_cls))) = BNil"
    "0 < b_fresh ?s" "1 < b_fresh ?s" "(1 :: nat) \<noteq> 0" by (simp_all add: sample_bridge_def)
  note T = RegisterLua_tables [OF a] and R = RegisterLua_rest [OF a]
  have f: "b_fresh ?s = 2" "c_key sample_cls = 5" by (simp_all add: sample_bridge_def sample_cls_def)
  have "b_get (exec (RegisterLua sample_cls) ?s) 3 (BStr ''userdata'') = BNil"
    using fun_cong [OF T(4), of "BStr ''userdata''"] f by simp
  then show "b_get sample_registered 3 (BStr ''userdata'') = BNil" by (simp add: sample_registered_def)
  show "b_get sample_registered 0 = (\<lambda>_. BNil)(BLight (Class_Name 5) := BTable 3)"
    using T(1) f by (simp add: sample_registered_def) (simp add: sample_bridge_def)
  show "b_meta sample_registered = [2 \<mapsto> 6]"
    using R(2) f by (simp add: sample_registered_def) (simp add: sample_bridge_def fun_eq_iff)
  show "b_fresh sample_registered = 7" "b_users sample_registered = Map.empty" "b_live sample_registered = Map.empty"
    "b_alloc sample_registered = b_alloc sample_bridge" "b_tracking sample_registered = (\<lambda>_. None)" "b_stack sample_registered = []"
    "b_phase sample_registered = (\<lambda>_. Reachable)"
    using R T(10) f by (simp_all add: sample_registered_def) (simp_all add: sample_bridge_def)
qed

text \<open>The first push of a class.\<close>

lemma first_push:
  assumes "b_get s 0 (BLight (Class_Name (c_key c))) = BTable m" and "b_get s m (BStr ''userdata'') = BNil"
    and "b_meta s m = None" and "m < b_fresh s" and "b_stack s = []"
  defines "f \<equiv> b_fresh s"
  shows "exec (bridge_push c (Some p) True) s =
      s\<lparr>b_get := (b_get s)(f := (\<lambda>_. BNil)(BStr ''__mode'' := BStr ''v'', BLight (Object p) := BUser (Suc f)),
          m := (b_get s m)(BStr ''userdata'' := BTable f), Suc (Suc f) := (\<lambda>_. BNil)),
        b_meta := (b_meta s)(f \<mapsto> f, Suc (Suc f) := None),
        b_users := (b_users s)(Suc f \<mapsto> \<lparr>ud_pT = p, ud_collectable = True, ud_env = Some (Suc (Suc f)), ud_meta = Some m\<rparr>),
        b_stack := [BUser (Suc f)], b_fresh := Suc (Suc (Suc f))\<rparr>"
    "result (bridge_push c (Some p) True) s = Inr 1"
proof -
  let ?s1 = "s\<lparr>b_stack := [BTable m]\<rparr>"
  have start: "exec (getmetatable c) s = ?s1"
    using assms(1,5) by (simp add: getmetatable_def table_exec)
  define s2 where "s2 = exec (subtable (Suc 0) ''userdata'' ''v'') ?s1"
  have s2: "s2 = s\<lparr>b_get := (b_get s)(f := (\<lambda>_. BNil)(BStr ''__mode'' := BStr ''v''), m := (b_get s m)(BStr ''userdata'' := BTable f)),
      b_meta := (b_meta s)(f \<mapsto> f), b_stack := [BTable f, BTable m], b_fresh := Suc f\<rparr>"
    using exec_subtable [of ?s1 m "[]" "''userdata''" "''v''"] assms by (simp add: s2_def Let_def)
  have ne: "m \<noteq> f" using assms(4) by (simp add: f_def)
  have pu: "exec (pushuserdata p) s2 = s\<lparr>b_get := (b_get s)(f := (\<lambda>_. BNil)(BStr ''__mode'' := BStr ''v'', BLight (Object p) := BUser (Suc f)),
        m := (b_get s m)(BStr ''userdata'' := BTable f)),
      b_meta := (b_meta s)(f \<mapsto> f),
      b_users := (b_users s)(Suc f \<mapsto> \<lparr>ud_pT = 0, ud_collectable = False, ud_env = None, ud_meta = None\<rparr>),
      b_stack := [BUser (Suc f), BTable f, BTable m], b_fresh := Suc (Suc f)\<rparr>" "result (pushuserdata p) s2 = Some (Suc f)"
    using exec_pushuserdata [of s2 f "[BTable m]" p] ne by (simp_all add: s2 fun_upd_twist Let_def)
  show "exec (bridge_push c (Some p) True) s =
      s\<lparr>b_get := (b_get s)(f := (\<lambda>_. BNil)(BStr ''__mode'' := BStr ''v'', BLight (Object p) := BUser (Suc f)),
          m := (b_get s m)(BStr ''userdata'' := BTable f), Suc (Suc f) := (\<lambda>_. BNil)),
        b_meta := (b_meta s)(f \<mapsto> f, Suc (Suc f) := None),
        b_users := (b_users s)(Suc f \<mapsto> \<lparr>ud_pT = p, ud_collectable = True, ud_env = Some (Suc (Suc f)), ud_meta = Some m\<rparr>),
        b_stack := [BUser (Suc f)], b_fresh := Suc (Suc (Suc f))\<rparr>"
    "result (bridge_push c (Some p) True) s = Inr 1"
    using assms(1,5)
    by (simp_all add: bridge_push_def start s2_def [symmetric] pu result_if Let_def replace_at_def set_top_def stk_def
        table_exec set_fenv_def set_user_def set_metatable_def)
qed


lemma sample_run_fields:
  "b_users sample_run = [8 \<mapsto> \<lparr>ud_pT = 1, ud_collectable = True, ud_env = Some 9, ud_meta = Some 3\<rparr>]"
  "b_get sample_run 0 (BLight (Class_Name 5)) = BTable 3" "b_live sample_run = [1 \<mapsto> 5]" "b_phase sample_run = (\<lambda>_. Reachable)"
proof -
  let ?s = "sample_registered\<lparr>b_stack := [], b_live := [Suc 0 \<mapsto> 5]\<rparr>"
  have p: "b_get ?s 0 (BLight (Class_Name (c_key sample_cls))) = BTable 3" "b_get ?s 3 (BStr ''userdata'') = BNil"
    "b_meta ?s 3 = None" "3 < b_fresh ?s" "b_stack ?s = []"
    by (simp_all add: sample_registered_fields sample_cls_def)
  note push = first_push [OF p, of "Suc 0"]
  have alloc: "b_alloc sample_registered Map.empty = Suc 0" by (simp add: sample_registered_fields sample_bridge_def)
  have key: "c_key sample_cls = 5" by (simp add: sample_cls_def)
  have con: "exec (construct sample_ctor sample_cls) (sample_registered\<lparr>b_stack := []\<rparr>) = ?s"
    "result (construct sample_ctor sample_cls) (sample_registered\<lparr>b_stack := []\<rparr>) = Inr (Suc 0)"
    using alloc by (simp_all add: construct_def sample_ctor_def sample_registered_fields key)
  let ?t = "exec (bridge_push sample_cls (Some (Suc 0)) True) ?s"
  have rem: "exec (remove_at (Suc 0)) (sample_registered\<lparr>b_stack := [BTable 2]\<rparr>) = sample_registered\<lparr>b_stack := []\<rparr>"
    by (simp add: remove_at_def stk_def)
  have "b_tracking ?t 5 = None" "b_stack ?t = [BUser 8]" by (simp_all add: push sample_registered_fields)
  then have "exec (new_T sample_members sample_ctor sample_post sample_cls) (sample_registered\<lparr>b_stack := [BTable 2]\<rparr>) = ?t"
    by (simp add: new_T_def rem con push(2) key sample_post_def exec_if result_if)
  then have run: "sample_run = ?t\<lparr>b_stack := b_stack sample_registered\<rparr>" by (simp add: sample_run_def)
  show "b_users sample_run = [8 \<mapsto> \<lparr>ud_pT = 1, ud_collectable = True, ud_env = Some 9, ud_meta = Some 3\<rparr>]"
    "b_get sample_run 0 (BLight (Class_Name 5)) = BTable 3" "b_live sample_run = [1 \<mapsto> 5]"
    "b_phase sample_run = (\<lambda>_. Reachable)"
    by (simp_all add: run push sample_registered_fields)
qed

lemma reach_sample: "reach bridge_init (bridge_step sample_members sample_ctor sample_post) sample_run"
proof -
  have alloc: "l (b_alloc sample_bridge l) = None" if "finite (dom l)" for l :: "nat \<rightharpoonup> nat"
  proof -
    have "x \<le> Max (insert 0 (dom l))" if "x \<in> dom l" for x using \<open>finite (dom l)\<close> that by simp
    then have "Suc (Max (insert 0 (dom l))) \<notin> dom l" by fastforce
    then show ?thesis by (auto simp: sample_bridge_def)
  qed
  then have "bridge_init sample_bridge" by (simp add: bridge_init_def) (simp add: sample_bridge_def)
  then have start: "reach bridge_init (bridge_step sample_members sample_ctor sample_post) sample_bridge" by (rule reach_init)
  have "meta_of (b_get sample_bridge) (c_key sample_cls) = None" "1 < b_fresh sample_bridge"
    "\<not> protected (b_get sample_bridge) 1"
    by (simp_all add: sample_bridge_def meta_of_def sub_of_def protected_def)
  then have "bridge_step sample_members sample_ctor sample_post sample_bridge sample_registered"
    unfolding sample_registered_def by (rule registers)
  with start have "reach bridge_init (bridge_step sample_members sample_ctor sample_post) sample_registered"
    by (rule reach_step)
  then show ?thesis unfolding sample_run_def by (rule reach_step) (rule calls_new)
qed

lemma objects_are_alive_witness:
  "\<exists>k. meta_of (b_get sample_run) k = Some 3 \<and> b_live sample_run 1 = Some k"
proof -
  let ?d = "\<lparr>ud_pT = 1, ud_collectable = True, ud_env = Some 9, ud_meta = Some 3\<rparr>"
  have "b_users sample_run 8 = Some ?d" "b_phase sample_run 8 \<noteq> Finalised" by (simp_all add: sample_run_fields)
  then show ?thesis using objects_are_alive [OF polite_sample reach_sample] by fastforce
qed

lemma check_is_sound_witness: "b_live sample_run 1 = Some (c_key sample_cls)"
proof -
  have "result (bridge_check sample_cls 1) (sample_run\<lparr>b_stack := [BUser 8]\<rparr>) = Inr 1"
    by (simp add: bridge_check_def checkudata_def table_exec result_if exec_if sample_run_fields) (simp add: sample_cls_def sample_run_fields)
  from check_is_sound [OF polite_sample reach_sample this] show ?thesis by (auto simp: sample_run_fields)
qed

text \<open>
  A run that ends badly: the object is collected, and what another finaliser calls is one of its
  methods.
\<close>

lemma a_deleted_object_is_called:
  "\<exists>s. reach bridge_init (bridge_step sample_members sample_ctor sample_post) s \<and> b_bad s"
proof -
  let ?step = "bridge_step sample_members sample_ctor sample_post"
  let ?d = "\<lparr>ud_pT = 1, ud_collectable = True, ud_env = Some 9, ud_meta = Some (3 :: nat)\<rparr>"
  let ?s = "exec (separate 8) sample_run"
  have key: "c_key sample_cls = 5" by (simp add: sample_cls_def)
  have i: "bridge_inv (b_phase sample_run) sample_run" by (rule inv_reach [OF polite_sample reach_sample])
  have u: "b_users sample_run 8 = Some ?d" "b_phase sample_run 8 = Reachable" by (simp_all add: sample_run_fields)
  note c = inv_clear_weak [OF i, of 8]
  have get: "b_get ?s = b_get (exec (clear_weak 8) sample_run)" by (simp add: separate_def)
  have s: "b_users ?s 8 = Some ?d" "b_phase ?s 8 = Separated" by (simp_all add: separate_def clear_weak_def u)
  have "meta_of (b_get ?s) 5 = Some 3" unfolding get c(3) by (simp add: meta_of_def sample_run_fields)
  then have m: "b_get ?s 0 (BLight (Class_Name 5)) = BTable 3" by (simp add: meta_of_def)
  have r1: "reach bridge_init ?step ?s" by (rule reach_step [OF reach_sample]) (rule separates [OF u])
  have "ud_meta ?d = meta_of (b_get ?s) (c_key sample_cls)" using \<open>meta_of (b_get ?s) 5 = Some 3\<close> key by simp
  then have r2: "reach bridge_init ?step (exec (finalise sample_cls 8) ?s)" (is "reach _ _ ?t")
    by (intro reach_step [OF r1] finalises [OF s])
  have o: "is_object ?s sample_cls 8 ?d" using s m key by (simp add: is_object_def)
  have col: "ud_collectable ?d" by simp
  note f = finalised_object_passes_the_check [OF o col]
  let ?n = "note_late [BUser 8] ?t"
  have r3: "reach bridge_init ?step (exec (in_frame [BUser 8] (bridge_thunk_methods sample_members sample_cls BNil)) ?n)"
    by (rule reach_step [OF r2]) (rule calls_method)
  have "result (bridge_check sample_cls (Suc 0)) (?n\<lparr>b_stack := [BUser 8]\<rparr>) = Inr 1"
    "exec (bridge_check sample_cls (Suc 0)) (?n\<lparr>b_stack := [BUser 8]\<rparr>) = ?n\<lparr>b_stack := [BUser 8]\<rparr>"
  proof -
    have "is_object (?n\<lparr>b_stack := [BUser 8]\<rparr>) sample_cls 8 ?d"
      using o by (simp add: is_object_def note_late_def finalise_def gc_T_def delete_object_def exec_if result_if)
    from check_object [OF this, of 1]
    show "result (bridge_check sample_cls (Suc 0)) (?n\<lparr>b_stack := [BUser 8]\<rparr>) = Inr 1"
      "exec (bridge_check sample_cls (Suc 0)) (?n\<lparr>b_stack := [BUser 8]\<rparr>) = ?n\<lparr>b_stack := [BUser 8]\<rparr>" by simp_all
  qed
  then have "b_bad (exec (in_frame [BUser 8] (bridge_thunk_methods sample_members sample_cls BNil)) ?n)"
    using f(1) by (simp add: bridge_thunk_methods_def call_member_def sample_members_def note_late_def)
  with r3 show ?thesis by blast
qed

end
