(* ===== verification/Spec2Isabelle.thy ===== *)
theory Spec2Isabelle
  imports Net_Socket Acceptor Datagram_Socket Timer Secure_Socket Crypto_Objects
    Output_Tty Input_Tty Event_Loop Command_Line Http_Requests Http_Binding Http_Url
    Posix_Stream Posix_Tty Dns Hrtime Start_Up Platform Class_Bridge_Objects
begin

text \<open>
  \<^bold>\<open>LuaNode\<close>: an event-driven runtime for Lua on Boost.Asio.  The C++ core under \<^verbatim>\<open>src/src/\<close>
  is a set of Lua bindings; each wraps one kind of system object (TCP socket, acceptor, UDP
  socket, timer, TLS socket, stream, terminal, console, resolver, clock, digests and ciphers).  A method reads its arguments from
  the Lua stack, starts an asynchronous operation whose handler is bound to the C++ object and
  to a registry reference of the Lua object, and the event loop later runs the handler, which
  fetches the object, drops the reference and calls a Lua callback.

  \<^bold>\<open>Theories\<close>
  \<^item> \<open>Prelude\<close>: the state monad's execution rules (\<open>run_simps\<close>), the rules to keep an invariant
    statement by statement (\<open>pres_intros\<close>), reachability, lists of operations, bytes, the locale
    \<open>byte_machine\<close>.
  \<^item> \<open>Lua_Api\<close>: Lua values, the stack and registry calls of the Lua C API, argument checks, how
    a method ends; the record \<open>rt\<close> that every component's state extends.
  \<^item> \<open>Async_Op\<close>: the pattern of the bindings: outstanding operations, calls to the system and
    their history, live references, Lua programs as scripts of method calls, and the contracts
    \<open>async_object\<close>, \<open>async_writer\<close>, \<open>async_reader\<close>.
  \<^item> \<open>Net_Socket\<close> (\<^verbatim>\<open>luanode_net.cpp\<close>), \<open>Acceptor\<close> (\<^verbatim>\<open>luanode_net_acceptor.cpp\<close>),
    \<open>Datagram_Socket\<close> (\<^verbatim>\<open>luanode_datagram_udp.cpp\<close>), \<open>Timer\<close> (\<^verbatim>\<open>luanode_timer.cpp\<close>),
    \<open>Secure_Socket\<close> (class \<^verbatim>\<open>Socket\<close> of \<^verbatim>\<open>luanode_crypto.cpp\<close>): one record with the fields of the
    class, one definition per method and handler under the name of the C++ function, a step
    relation with every method Lua can call and every completion, an invariant, and the
    interpretation of the contracts.
  \<^item> \<open>Crypto_Objects\<close>: the other classes of \<^verbatim>\<open>luanode_crypto.cpp\<close>, with OpenSSL as a parameter.
  \<^item> \<open>Output_Tty\<close> (\<^verbatim>\<open>detail/windows/output_tty.cpp\<close>): the escape sequence and UTF-8 parser of the
    Windows console and the console calls it makes; the loop over the bytes, which steps back to
    read a byte again, and the loops that retry a refused call are partial functions.
  \<^item> \<open>Input_Tty\<close> (\<^verbatim>\<open>detail/windows/input_tty.cpp\<close>, \<^verbatim>\<open>windows_tty.cpp\<close>): the translation of key
    events to bytes, and the threads that read them.
  \<^item> \<open>Posix_Stream\<close> (\<^verbatim>\<open>luanode_posix_stream.cpp\<close>), \<open>Posix_Tty\<close> (\<^verbatim>\<open>detail/posix/tty_stream.cpp\<close>):
    pipes and terminals, in the same form as the sockets; \<open>Dns\<close> (\<^verbatim>\<open>luanode_dns.cpp\<close>): lookups,
    whose handlers hold their callback instead of their object; \<open>Hrtime\<close>
    (\<^verbatim>\<open>luanode_hrtime.cpp\<close>): 64-bit times in nanoseconds.
  \<^item> \<open>Event_Loop\<close> (\<^verbatim>\<open>luanode.cpp\<close>, \<^verbatim>\<open>lua_vm.cpp\<close>, \<^verbatim>\<open>lua_runtime.h\<close>): protected calls, unhandled
    errors, the tick, the loop, the exit code.
  \<^item> \<open>Command_Line\<close> (\<^verbatim>\<open>luanode.cpp\<close>): \<^verbatim>\<open>ParseArgs\<close>, \<^verbatim>\<open>collectargs\<close>, \<^verbatim>\<open>runargs\<close>
    over the array \<^verbatim>\<open>argv\<close> with its null pointer, where a read behind it or a use of the
    pointer is \<open>None\<close>; what \<^verbatim>\<open>ParseArgs\<close> does on the way (a new log, the version, the usage) is
    an argument; the interface \<open>chunk_runner\<close> of what an option does.
  \<^item> \<open>Preloader\<close> (\<^verbatim>\<open>lib/preloader.cpp\<close>): the openers of the compiled Lua modules and their
    registration in \<^verbatim>\<open>package.preload\<close>.
  \<^item> \<open>Start_Up\<close> (\<^verbatim>\<open>luanode.cpp\<close>, \<^verbatim>\<open>platform_linux.cpp\<close>): the life of the process over the
    three theories before: \<^verbatim>\<open>docall\<close> and the chunks of the command line (\<open>tidy\<close> says what they
    leave), the signals, the table \<^verbatim>\<open>process\<close>, \<^verbatim>\<open>Load\<close>, \<^verbatim>\<open>main\<close> and \<^verbatim>\<open>AtExit\<close>.
  \<^item> \<open>Platform\<close> (\<^verbatim>\<open>luanode_os.cpp\<close>, \<^verbatim>\<open>luanode_module_api.cpp\<close>, \<^verbatim>\<open>platform_linux.cpp\<close>,
    \<^verbatim>\<open>platform_windows.cpp\<close>, \<^verbatim>\<open>luanode_lua_callback_reference.h\<close>): the work posted to the event
    loop and the direct queries of the system.
  \<^item> \<open>Http_Parser\<close> (\<^verbatim>\<open>deps/http-parser/http_parser.c\<close>): the byte machine of the HTTP servers and
    clients, one definition per state of the big \<^verbatim>\<open>switch\<close>; \<open>Http_Wellformed\<close>: what every state
    keeps; \<open>Http_Safety\<close>: every call returns, and the interface \<open>parser_client\<close> of the callbacks;
    \<open>Http_Stream\<close> and \<open>Http_Chunks\<close>: a call is its bytes one by one, and how the input is cut
    does not matter; \<open>Http_Requests\<close>: request lines, \<^verbatim>\<open>Content-Length\<close>, methods;
    \<open>Http_Callbacks\<close>: two clients with related environments see related runs
    (\<open>client_simulation\<close>).  \<open>Http_Url\<close>: \<^verbatim>\<open>http_parser_parse_url\<close>.
  \<^item> \<open>Http_Binding\<close> (\<^verbatim>\<open>luanode_http_parser.cpp\<close>): the class \<^verbatim>\<open>HTTPParser\<close> over that parser.
  \<^item> \<open>Class_Bridge\<close> (\<^verbatim>\<open>deps/luacppbridge51/lcbBaseObject.h\<close>, \<^verbatim>\<open>lcbHybridObjectWithProperties.h\<close>): the
    templates that make a C++ class a Lua class, over a heap of tables and userdata with their
    identities; \<open>Class_Bridge_Objects\<close>: the collector of Lua 5.1 as steps of its own (a dead
    userdata is separated, its finaliser runs, a later cycle frees it; in between other finalisers
    can still reach it), and how userdata and live objects correspond while the Lua state is open.

  \<^bold>\<open>The environment.\<close>  Lua code is a script: a choice of method calls, field assignments and
  registry entries made from the state it starts in, so that the invariants hold for every Lua
  program.  Boost.Asio is the set \<open>a_ops\<close> of operations it holds, the answers \<open>a_ec\<close> and \<open>a_addr\<close>
  to the calls (any functions of the call history), and the completions of the step relation,
  constrained only by what Boost documents of them.  \<open>luaL_ref\<close> keeps its documented promise
  of a fresh key (\<open>newref_ok\<close>).  OpenSSL, the Windows console, the Lua compiler and the effect
  of a Lua function are parameters.

  The class bridge has a state of its own, because it is the one place where it matters which
  table is which; the other theories start where its thunks have found the object.

  \<^bold>\<open>What the lemmas show.\<close>  The interpretations give, for every reachable state of a class: the
  references of outstanding operations are live and distinct, at most one write is outstanding
  and its counter is right, and no close or shutdown cuts a write off.  The other properties
  give what single methods and handlers do on their branches, that the parsers and the error
  handling always return, round trips of the encodings, and the behaviours in which the code
  does not do what its comments or messages say.

  \<^bold>\<open>Bounds and fuel.\<close>  Counters are \<open>64 word\<close>, identifiers \<open>32 word\<close>, console arguments
  \<open>16 word\<close>.  The loops of the console have no fuel; that they end is proved, for the retry
  loops under \<open>con_settles\<close>: from some number of calls on the console no longer answers
  \<^verbatim>\<open>ERROR_INVALID_PARAMETER\<close>, for otherwise the code itself never stops asking.  The nesting of unhandled errors has fuel 2,
  which \<open>fatal_error_nesting\<close> shows to suffice.  The scans of the command line are total, with
  an exact condition for their faults.  The
  HTTP parser looks at a byte at most five times (\<open>reexecutions\<close>), which \<open>execute_finishes\<close> shows
  to suffice; its \<^verbatim>\<open>Content-Length\<close> is a \<open>64 word\<close>, its head counter a \<open>32 word\<close>.  The loop over the
  console events ends by a measure of the events, the repeats and the bytes left.

  \<^bold>\<open>Not modelled.\<close>  Log output; the Lua libraries under \<^verbatim>\<open>src/lib\<close>; of the code under
  \<^verbatim>\<open>deps\<close> everything but the HTTP parser and the class bridge (of which the templates without
  properties and the functions the program does not call are left out), so Boost and OpenSSL;
  the registration of the classes inside \<open>Load\<close>, which is a parameter there (\<open>Class_Bridge\<close> has
  one class at a time), the finalisers that closing the Lua state runs, and \<^verbatim>\<open>dispose\<close>,
  which no class of the program offers, as a step of the bridge; the files and the
  child processes, which are stubs in the source; the standard streams; the BSD and Darwin
  files; the Windows branch of the clock, which divides doubles; the tables of error names and
  constants.
\<close>

end
